(* ===== verification/Core_Prelude.thy ===== *)
theory Core_Prelude
  imports Main "HOL-Library.Word" "HOL-Library.List_Lexorder" "HOL-Library.Sublist"
begin

text \<open>
  What every component of the development shares: names for the machine integers and
  byte strings of the code, results that may be an error, and the two ordered
  containers of the C++ library the code iterates over.

  \<^item> \<open>std::set<T>\<close> is the strictly increasing list of its elements
    (\<^term>\<open>insort_insert\<close> is its \<open>insert\<close>/\<open>emplace\<close>);
  \<^item> \<open>std::map<K, V>\<close> is the association list in increasing key order
    (\<open>map_put\<close> is the insert-or-assign, \<^term>\<open>map_of\<close> is \<open>find\<close>), so that the
    iteration order of the code is the order of the list.
\<close>

named_theorems result_simps \<open>inversion of the error monad\<close>
named_theorems container_simps \<open>facts about the ordered containers\<close>

type_synonym uint8 = "8 word"
type_synonym uint32 = "32 word"
type_synonym uint64 = "64 word"

text \<open>\<open>opaque\<close> byte strings; \<open>std::vector\<close> compares them lexicographically,
  which is the order of \<open>List_Lexorder\<close>.\<close>

type_synonym opaque = "uint8 list"

abbreviation UINT32_MAX :: uint32 where
  "UINT32_MAX \<equiv> - 1"

abbreviation UINT64_MAX :: uint64 where
  "UINT64_MAX \<equiv> - 1"

section \<open>Results\<close>

text \<open>
  The ways a call can end other than by returning: a failed \<open>dbgAssert\<close> (active unless
  the build defines \<open>NDEBUG\<close>), \<open>dbgAbort\<close> or \<open>abort\<close>, the dereference of a null
  pointer, an exception, and, for a model with fuel, no more fuel.
\<close>

datatype error =
    DbgAssert
  | DbgAbort
  | NullDeref
  | RuntimeError string
  | OutOfFuel

type_synonym 'a result = "error + 'a"

definition bindE :: "'a result \<Rightarrow> ('a \<Rightarrow> 'b result) \<Rightarrow> 'b result" where
  "bindE m f = (case m of Inl e \<Rightarrow> Inl e | Inr x \<Rightarrow> f x)"

definition dbgAssert :: "bool \<Rightarrow> 'a result \<Rightarrow> 'a result" where
  "dbgAssert P k = (if P then k else Inl DbgAssert)"

definition deref :: "'a option \<Rightarrow> ('a \<Rightarrow> 'b result) \<Rightarrow> 'b result" where
  "deref p k = (case p of None \<Rightarrow> Inl NullDeref | Some x \<Rightarrow> k x)"

lemma bindE_simps [simp]:
  "bindE (Inl e) f = Inl e"
  "bindE (Inr x) f = f x"
  by (simp_all add: bindE_def)

lemma dbgAssert_simps [simp]:
  "dbgAssert True k = k"
  "dbgAssert False k = Inl DbgAssert"
  by (simp_all add: dbgAssert_def)

lemma deref_simps [simp]:
  "deref None k = Inl NullDeref"
  "deref (Some x) k = k x"
  by (simp_all add: deref_def)

lemma bindE_eq_Inr [result_simps]:
  "bindE m f = Inr y \<longleftrightarrow> (\<exists>x. m = Inr x \<and> f x = Inr y)"
  by (cases m) auto

lemma bindE_eq_Inl [result_simps]:
  "bindE m f = Inl e \<longleftrightarrow> m = Inl e \<or> (\<exists>x. m = Inr x \<and> f x = Inl e)"
  by (cases m) auto

lemma dbgAssert_eq_Inr [result_simps]:
  "dbgAssert P k = Inr y \<longleftrightarrow> P \<and> k = Inr y"
  by (simp add: dbgAssert_def)

lemma dbgAssert_eq_Inl [result_simps]:
  "dbgAssert P k = Inl e \<longleftrightarrow> (\<not> P \<and> e = DbgAssert) \<or> (P \<and> k = Inl e)"
  by (auto simp: dbgAssert_def)

lemma deref_eq_Inr [result_simps]:
  "deref p k = Inr y \<longleftrightarrow> (\<exists>x. p = Some x \<and> k x = Inr y)"
  by (cases p) auto

lemma deref_eq_Inl [result_simps]:
  "deref p k = Inl e \<longleftrightarrow> (p = None \<and> e = NullDeref) \<or> (\<exists>x. p = Some x \<and> k x = Inl e)"
  by (cases p) auto

lemma bindE_cong [fundef_cong]:
  assumes "m = m'" and "\<And>x. m' = Inr x \<Longrightarrow> f x = f' x"
  shows "bindE m f = bindE m' f'"
  using assms by (cases m') auto

lemma dbgAssert_cong [fundef_cong]:
  assumes "P = P'" and "P' \<Longrightarrow> k = k'"
  shows "dbgAssert P k = dbgAssert P' k'"
  using assms by (cases P') auto

lemma deref_cong [fundef_cong]:
  assumes "p = p'" and "\<And>x. p' = Some x \<Longrightarrow> k x = k' x"
  shows "deref p k = deref p' k'"
  using assms by (cases p') auto

section \<open>Counters\<close>

lemma unat_minus_of_nat:
  fixes w :: "'a::len word"
  assumes "k \<le> unat w"
  shows "unat (w - of_nat k) = unat w - k"
proof -
  have k: "unat (of_nat k :: 'a word) = k"
    using assms by (metis le_unat_uoi)
  then have "of_nat k \<le> w" using assms by (simp add: word_le_nat_alt)
  from unat_sub [OF this] k show ?thesis by simp
qed

lemma unat_pred:
  fixes w :: "'a::len word"
  assumes "w \<noteq> 0"
  shows "unat w = Suc (unat (w - 1))"
  using assms by (simp add: unat_minus_one unat_gt_0)

section \<open>Ordered sets\<close>

abbreviation std_set :: "'a::linorder list \<Rightarrow> bool" where
  "std_set xs \<equiv> sorted xs \<and> distinct xs"

lemma std_set_insert [container_simps]:
  "std_set xs \<Longrightarrow> std_set (insort_insert x xs)"
  by (simp add: sorted_insort_insert distinct_insort_insert)

lemma set_insort_insert_fold [container_simps]:
  "set (fold insort_insert ys xs) = set ys \<union> set xs"
  by (induction ys arbitrary: xs) (auto simp: set_insort_insert)

lemma std_set_fold [container_simps]:
  "std_set xs \<Longrightarrow> std_set (fold insort_insert ys xs)"
  by (induction ys arbitrary: xs) (auto simp: container_simps)

section \<open>Ordered maps\<close>

fun map_put :: "'k::linorder \<Rightarrow> 'v \<Rightarrow> ('k \<times> 'v) list \<Rightarrow> ('k \<times> 'v) list" where
  "map_put k v [] = [(k, v)]"
| "map_put k v ((k', v') # m) =
     (if k < k' then (k, v) # (k', v') # m
      else if k = k' then (k, v) # m
      else (k', v') # map_put k v m)"

abbreviation map_wf :: "('k::linorder \<times> 'v) list \<Rightarrow> bool" where
  "map_wf m \<equiv> sorted_wrt (<) (map fst m)"

text \<open>The contract of \<open>std::map\<close> the protocol code relies on.\<close>

locale ordered_map =
  fixes wf :: "'m \<Rightarrow> bool"
    and find :: "'m \<Rightarrow> 'k \<Rightarrow> 'v option"
    and put :: "'k \<Rightarrow> 'v \<Rightarrow> 'm \<Rightarrow> 'm"
    and entries :: "'m \<Rightarrow> ('k \<times> 'v) list"
  assumes find_put: "find (put k v m) = (find m)(k \<mapsto> v)"
    and wf_put: "wf m \<Longrightarrow> wf (put k v m)"
    and entries_find: "wf m \<Longrightarrow> (k, v) \<in> set (entries m) \<longleftrightarrow> find m k = Some v"
begin

lemma entries_put:
  assumes "wf m"
  shows "(k', v') \<in> set (entries (put k v m)) \<longleftrightarrow>
    (if k' = k then v' = v else (k', v') \<in> set (entries m))"
  using assms by (auto simp: entries_find wf_put find_put)

lemma put_keeps:
  assumes "wf m" and "\<And>k' v'. (k', v') \<in> set (entries m) \<Longrightarrow> P k' v'" and "P k v"
    and "(k', v') \<in> set (entries (put k v m))"
  shows "P k' v'"
  using assms by (auto simp: entries_put split: if_splits)

end

lemma map_of_map_put [simp]: "map_of (map_put k v m) = (map_of m)(k \<mapsto> v)"
  by (induction k v m rule: map_put.induct) (auto simp: fun_upd_twist)

lemma set_keys_map_put [container_simps]:
  "set (map fst (map_put k v m)) = insert k (set (map fst m))"
  by (induction k v m rule: map_put.induct) auto

lemma map_wf_put: "map_wf m \<Longrightarrow> map_wf (map_put k v m)"
proof (induction k v m rule: map_put.induct)
  case (2 k v k' v' m)
  then show ?case using set_keys_map_put [of k v m] by auto
qed simp

lemma map_wf_distinct: "map_wf m \<Longrightarrow> distinct (map fst m)"
  by (simp add: strict_sorted_iff)

interpretation om: ordered_map map_wf map_of map_put "\<lambda>m. m"
  by unfold_locales (auto simp: map_wf_put map_wf_distinct)

end
