(* ===== verification/Scp_Types.thy ===== *)
theory Scp_Types
  imports Core_Prelude
begin

text \<open>
  The messages of the consensus protocol, \<open>src/xdr/Stellar-SCP.x\<close>, and the comparisons
  \<open>BallotProtocol\<close> makes between ballots and between statements.
\<close>

type_synonym Value = opaque
type_synonym Hash = opaque
type_synonym NodeID = opaque
type_synonym Signature = opaque

datatype SCPBallot = SCPBallot (counter: uint32) (ballot_value: Value)

text \<open>The field is written \<open>value\<close>, as in the code.\<close>

abbreviation "value" :: "SCPBallot \<Rightarrow> Value" where
  "value \<equiv> ballot_value"

text \<open>A default-constructed ballot, \<open>SCPBallot()\<close>.\<close>

abbreviation SCPBallot0 :: SCPBallot where
  "SCPBallot0 \<equiv> SCPBallot 0 []"

datatype SCPQuorumSet =
  SCPQuorumSet (threshold: uint32) (validators: "NodeID list") (innerSets: "SCPQuorumSet list")

record SCPNomination =
  nom_quorumSetHash :: Hash
  votes :: "Value list"
  accepted :: "Value list"

datatype SCPPledges =
    Prepare (prep_quorumSetHash: Hash) (prep_ballot: SCPBallot) (prep_prepared: "SCPBallot option")
      (prep_preparedPrime: "SCPBallot option") (prep_nC: uint32) (prep_nH: uint32)
  | Confirm (conf_ballot: SCPBallot) (conf_nPrepared: uint32) (conf_nCommit: uint32)
      (conf_nH: uint32) (conf_quorumSetHash: Hash)
  | Externalize (ext_commit: SCPBallot) (ext_nH: uint32) (ext_commitQuorumSetHash: Hash)
  | Nominate (nomination: SCPNomination)

record SCPStatement =
  nodeID :: NodeID
  slotIndex :: uint64
  pledges :: SCPPledges

record SCPEnvelope =
  statement :: SCPStatement
  signature :: Signature

type_synonym envelopes = "(NodeID \<times> SCPEnvelope) list"

fun is_Nominate :: "SCPPledges \<Rightarrow> bool" where
  "is_Nominate (Nominate _) = True"
| "is_Nominate _ = False"

section \<open>The order of ballots\<close>

text \<open>\<open>xdr::operator<\<close> compares the fields in order; it is the order of
  \<open>std::set<SCPBallot>\<close>.\<close>

instantiation SCPBallot :: linorder
begin

definition less_eq_SCPBallot :: "SCPBallot \<Rightarrow> SCPBallot \<Rightarrow> bool" where
  "b1 \<le> b2 \<longleftrightarrow> counter b1 < counter b2 \<or> counter b1 = counter b2 \<and> value b1 \<le> value b2"

definition less_SCPBallot :: "SCPBallot \<Rightarrow> SCPBallot \<Rightarrow> bool" where
  "b1 < b2 \<longleftrightarrow> counter b1 < counter b2 \<or> counter b1 = counter b2 \<and> value b1 < value b2"

instance
  by standard (auto simp: less_eq_SCPBallot_def less_SCPBallot_def SCPBallot.expand)

end

definition compareBallots :: "SCPBallot \<Rightarrow> SCPBallot \<Rightarrow> int" where
  "compareBallots b1 b2 =
     (if counter b1 < counter b2 then - 1
      else if counter b2 < counter b1 then 1
      else if value b1 < value b2 then - 1
      else if value b2 < value b1 then 1
      else 0)"

text \<open>The overload on \<open>unique_ptr\<close>: a null ballot is below every other.\<close>

definition compareBallotPtrs :: "SCPBallot option \<Rightarrow> SCPBallot option \<Rightarrow> int" where
  "compareBallotPtrs p1 p2 =
     (case (p1, p2) of
        (Some b1, Some b2) \<Rightarrow> compareBallots b1 b2
      | (Some _, None) \<Rightarrow> 1
      | (None, Some _) \<Rightarrow> - 1
      | (None, None) \<Rightarrow> 0)"

definition areBallotsCompatible :: "SCPBallot \<Rightarrow> SCPBallot \<Rightarrow> bool" where
  "areBallotsCompatible b1 b2 \<longleftrightarrow> value b1 = value b2"

definition areBallotsLessAndIncompatible :: "SCPBallot \<Rightarrow> SCPBallot \<Rightarrow> bool" where
  "areBallotsLessAndIncompatible b1 b2 \<longleftrightarrow>
     compareBallots b1 b2 \<le> 0 \<and> \<not> areBallotsCompatible b1 b2"

definition areBallotsLessAndCompatible :: "SCPBallot \<Rightarrow> SCPBallot \<Rightarrow> bool" where
  "areBallotsLessAndCompatible b1 b2 \<longleftrightarrow>
     compareBallots b1 b2 \<le> 0 \<and> areBallotsCompatible b1 b2"

named_theorems ballot_order \<open>ballot comparisons as the linear order\<close>

lemma compareBallots_less [ballot_order]: "compareBallots b1 b2 < 0 \<longleftrightarrow> b1 < b2"
  by (auto simp: compareBallots_def less_SCPBallot_def)

lemma compareBallots_le [ballot_order]: "compareBallots b1 b2 \<le> 0 \<longleftrightarrow> b1 \<le> b2"
  by (auto simp: compareBallots_def less_eq_SCPBallot_def)

lemma compareBallots_greater [ballot_order]: "0 < compareBallots b1 b2 \<longleftrightarrow> b2 < b1"
  by (auto simp: compareBallots_def less_SCPBallot_def)

lemma compareBallots_ge [ballot_order]: "0 \<le> compareBallots b1 b2 \<longleftrightarrow> b2 \<le> b1"
  by (auto simp: compareBallots_def less_eq_SCPBallot_def)

lemma compareBallots_eq [ballot_order]: "compareBallots b1 b2 = 0 \<longleftrightarrow> b1 = b2"
  by (auto simp: compareBallots_def SCPBallot.expand)

lemmas ballot_compat [ballot_order] =
  areBallotsCompatible_def areBallotsLessAndCompatible_def areBallotsLessAndIncompatible_def

lemma compareBallotPtrs_less [ballot_order]:
  "compareBallotPtrs p1 p2 < 0 \<longleftrightarrow>
    (case (p1, p2) of (Some a, Some b) \<Rightarrow> a < b | (None, Some _) \<Rightarrow> True | _ \<Rightarrow> False)"
  by (auto simp: compareBallotPtrs_def ballot_order split: option.splits)

lemma compareBallotPtrs_eq [ballot_order]: "compareBallotPtrs p1 p2 = 0 \<longleftrightarrow> p1 = p2"
  by (auto simp: compareBallotPtrs_def ballot_order split: option.splits)

section \<open>The order of statements\<close>

text \<open>The numbering of \<open>SCPStatementType\<close>.\<close>

fun statementType :: "SCPPledges \<Rightarrow> nat" where
  "statementType (Prepare _ _ _ _ _ _) = 0"
| "statementType (Confirm _ _ _ _ _) = 1"
| "statementType (Externalize _ _ _) = 2"
| "statementType (Nominate _) = 3"

text \<open>\<open>BallotProtocol::isNewerStatement(oldst, st)\<close>. A pair of \<open>NOMINATE\<close> pledges would
  reach the \<open>prepare()\<close> accessor of the wrong union arm; ballot statements never are
  nominations.\<close>

definition isNewerStatement :: "SCPPledges \<Rightarrow> SCPPledges \<Rightarrow> bool" where
  "isNewerStatement oldst st =
     (if statementType oldst \<noteq> statementType st then statementType oldst < statementType st
      else case st of
        Externalize _ _ _ \<Rightarrow> False
      | Confirm ballot nPrepared nCommit nH _ \<Rightarrow>
          (let compBallot = compareBallots (conf_ballot oldst) ballot in
           if compBallot < 0 then True
           else if compBallot = 0 then
             (if conf_nPrepared oldst = nPrepared then conf_nH oldst < nH
              else conf_nPrepared oldst < nPrepared)
           else False)
      | Prepare _ ballot prepared preparedPrime nC nH \<Rightarrow>
          (let compBallot = compareBallots (prep_ballot oldst) ballot in
           if compBallot < 0 then True
           else if compBallot = 0 then
             (let compBallot = compareBallotPtrs (prep_prepared oldst) prepared in
              if compBallot < 0 then True
              else if compBallot = 0 then
                (let compBallot = compareBallotPtrs (prep_preparedPrime oldst) preparedPrime in
                 if compBallot < 0 then True
                 else if compBallot = 0 then prep_nH oldst < nH
                 else False)
              else False)
           else False)
      | Nominate _ \<Rightarrow> False)"

text \<open>Which ballot a statement stands for: \<open>BallotProtocol::getWorkingBallot\<close>.\<close>

fun getWorkingBallot :: "SCPPledges \<Rightarrow> SCPBallot" where
  "getWorkingBallot (Prepare _ b _ _ _ _) = b"
| "getWorkingBallot (Confirm b _ nCommit _ _) = SCPBallot nCommit (value b)"
| "getWorkingBallot (Externalize c _ _) = c"
| "getWorkingBallot (Nominate _) = SCPBallot0"

text \<open>\<open>Slot::getCompanionQuorumSetHashFromStatement\<close>.\<close>

fun getCompanionQuorumSetHashFromStatement :: "SCPPledges \<Rightarrow> Hash" where
  "getCompanionQuorumSetHashFromStatement (Prepare h _ _ _ _ _) = h"
| "getCompanionQuorumSetHashFromStatement (Confirm _ _ _ _ h) = h"
| "getCompanionQuorumSetHashFromStatement (Externalize _ _ h) = h"
| "getCompanionQuorumSetHashFromStatement (Nominate n) = nom_quorumSetHash n"

text \<open>
  A relation by which a node orders the statements it records must be a strict order:
  then a node that only ever replaces a recorded statement by a newer one never records
  the same statement twice and its record only moves forward.
\<close>

locale statement_order =
  fixes newer :: "'st \<Rightarrow> 'st \<Rightarrow> bool"
  assumes irrefl: "\<not> newer a a"
    and trans: "newer a b \<Longrightarrow> newer b c \<Longrightarrow> newer a c"
begin

lemma asym: "newer a b \<Longrightarrow> \<not> newer b a"
  using irrefl trans by blast

text \<open>A history in which every entry is newer than the one before.\<close>

lemma chain_sorted: "successively newer xs \<Longrightarrow> sorted_wrt newer xs"
  by (subst successively_conv_sorted_wrt [symmetric]) (auto simp: transp_def intro: trans)

lemma chain_distinct: "successively newer xs \<Longrightarrow> distinct xs"
proof -
  assume "successively newer xs"
  then have "sorted_wrt newer xs" by (rule chain_sorted)
  then show ?thesis by (induction xs) (auto simp: irrefl)
qed

end

lemma isNewerStatement_irrefl: "\<not> isNewerStatement a a"
  by (cases a) (auto simp: isNewerStatement_def ballot_order Let_def split: option.splits)

lemma isNewerStatement_trans:
  "isNewerStatement a b \<Longrightarrow> isNewerStatement b c \<Longrightarrow> isNewerStatement a c"
  by (cases a; cases b; cases c)
    (auto simp: isNewerStatement_def ballot_order Let_def split: option.splits if_splits
      dest: order.strict_trans)

interpretation ballot_statements: statement_order isNewerStatement
  by unfold_locales (auto simp: isNewerStatement_irrefl dest: isNewerStatement_trans)

end
