(* ===== verification/Util_Types.thy ===== *)
theory Util_Types
  imports Core_Prelude
begin

text \<open>
  \<open>src/util/types.cpp\<close> and \<open>types.h\<close>: 128-bit multiply-and-divide, balance
  arithmetic, byte strings, assets and prices. An \<open>int64_t\<close> is an \<^typ>\<open>int\<close> that
  \<open>int64_range\<close> bounds; a \<open>uint64_t\<close> is a 64-bit word; the intermediate
  \<open>uint128_t\<close> is a 128-bit word.
\<close>

unbundle bit_operations_syntax

section \<open>Integers\<close>

definition INT64_MAX :: int where
  "INT64_MAX = 2 ^ 63 - 1"

definition int64_range :: "int \<Rightarrow> bool" where
  "int64_range x \<longleftrightarrow> - (2 ^ 63) \<le> x \<and> x \<le> INT64_MAX"

datatype Rounding = ROUND_DOWN | ROUND_UP

text \<open>\<open>bigDivide(uint64_t&, \<dots>)\<close>: the pair is the result written through the reference
  and the value returned. \<open>uint128_t\<close>'s division raises on a zero divisor.\<close>

definition bigDivide_u64 :: "uint64 \<Rightarrow> uint64 \<Rightarrow> uint64 \<Rightarrow> Rounding \<Rightarrow> (uint64 \<times> bool) result" where
  "bigDivide_u64 A B C rounding =
     (let a = (ucast A :: 128 word); b = (ucast B :: 128 word); c = (ucast C :: 128 word) in
      if c = 0 then Inl (RuntimeError ''Error: division or modulus by 0'')
      else let x = (if rounding = ROUND_DOWN then (a * b) div c else (a * b + c - 1) div c)
           in Inr (ucast x, x \<le> ucast UINT64_MAX))"

text \<open>\<open>bigDivide(int64_t&, \<dots>)\<close>; the first argument is what the reference held before,
  which stays when the unsigned call reports an overflow.\<close>

definition bigDivide_i64 :: "int \<Rightarrow> int \<Rightarrow> int \<Rightarrow> int \<Rightarrow> Rounding \<Rightarrow> (int \<times> bool) result" where
  "bigDivide_i64 old A B C rounding =
     dbgAssert (A \<ge> 0 \<and> B \<ge> 0 \<and> C > 0)
       (bindE (bigDivide_u64 (word_of_int A) (word_of_int B) (word_of_int C) rounding)
          (\<lambda>(r2, res).
             if res then Inr (sint r2, uint r2 \<le> INT64_MAX) else Inr (old, False)))"

text \<open>The throwing variant.\<close>

definition bigDivide :: "int \<Rightarrow> int \<Rightarrow> int \<Rightarrow> Rounding \<Rightarrow> int result" where
  "bigDivide A B C rounding =
     bindE (bigDivide_i64 0 A B C rounding)
       (\<lambda>(res, ok). if ok then Inr res
          else Inl (RuntimeError ''overflow while performing bigDivide''))"

text \<open>\<open>addBalance\<close>: the new balance and whether it was changed.\<close>

definition addBalance :: "int \<Rightarrow> int \<Rightarrow> int \<Rightarrow> (int \<times> bool) result" where
  "addBalance balance delta maxBalance =
     dbgAssert (balance \<ge> 0) (dbgAssert (maxBalance \<ge> 0)
       (if delta = 0 then Inr (balance, True)
        else if delta < - balance then Inr (balance, False)
        else if maxBalance - balance < delta then Inr (balance, False)
        else Inr (balance + delta, True)))"

section \<open>Byte strings\<close>

definition isZero :: "opaque \<Rightarrow> bool" where
  "isZero b \<longleftrightarrow> list_all (\<lambda>i. i = 0) b"

definition hash_xor :: "opaque \<Rightarrow> opaque \<Rightarrow> opaque" where
  "hash_xor l r = map2 (XOR) l r"

definition lessThanXored :: "opaque \<Rightarrow> opaque \<Rightarrow> opaque \<Rightarrow> bool" where
  "lessThanXored l r x \<longleftrightarrow> map2 (XOR) x l < map2 (XOR) x r"

text \<open>Characters are bytes; as a signed \<open>char\<close>, \<open>c < 0\<close> is a byte of at least 128. In
  the C locale the control characters are the bytes below 32 and 127, and the
  alphanumeric ones are the ASCII digits and letters.\<close>

definition iscntrl :: "uint8 \<Rightarrow> bool" where
  "iscntrl c \<longleftrightarrow> c < 32 \<or> c = 127"

definition isalnum :: "uint8 \<Rightarrow> bool" where
  "isalnum c \<longleftrightarrow> (48 \<le> c \<and> c \<le> 57) \<or> (65 \<le> c \<and> c \<le> 90) \<or> (97 \<le> c \<and> c \<le> 122)"

definition isString32Valid :: "opaque \<Rightarrow> bool" where
  "isString32Valid str \<longleftrightarrow> list_all (\<lambda>c. \<not> (c \<ge> 128 \<or> iscntrl c)) str"

definition tolower :: "uint8 \<Rightarrow> uint8" where
  "tolower c = (if 65 \<le> c \<and> c \<le> 90 then c + 32 else c)"

fun iequals_loop :: "opaque \<Rightarrow> opaque \<Rightarrow> bool" where
  "iequals_loop (a # as) (b # bs) = (if tolower a \<noteq> tolower b then False else iequals_loop as bs)"
| "iequals_loop _ _ = True"

definition iequals :: "opaque \<Rightarrow> opaque \<Rightarrow> bool" where
  "iequals a b = (if length b \<noteq> length a then False else iequals_loop a b)"

section \<open>Assets\<close>

datatype Asset =
    Native
  | AlphaNum4 (assetCode4: opaque) (issuer4: opaque)
  | AlphaNum12 (assetCode12: opaque) (issuer12: opaque)

text \<open>The loop over the bytes of the code: \<open>zeros\<close> once a zero byte was seen, and the
  number of characters. \<open>None\<close> is the early \<open>return false\<close>.\<close>

fun assetCode_loop :: "opaque \<Rightarrow> bool \<Rightarrow> nat \<Rightarrow> nat option" where
  "assetCode_loop [] zeros n = Some n"
| "assetCode_loop (b # bs) zeros n =
     (if b = 0 then assetCode_loop bs True n
      else if zeros then None
      else if b > 127 \<or> \<not> isalnum b then None
      else assetCode_loop bs zeros (Suc n))"

fun isAssetValid :: "Asset \<Rightarrow> bool" where
  "isAssetValid Native = True"
| "isAssetValid (AlphaNum4 code _) =
     (case assetCode_loop code False 0 of None \<Rightarrow> False | Some n \<Rightarrow> n \<noteq> 0)"
| "isAssetValid (AlphaNum12 code _) =
     (case assetCode_loop code False 0 of None \<Rightarrow> False | Some n \<Rightarrow> n > 4)"

text \<open>\<open>getIssuer\<close> reads the wrong arm of the union for the native asset, which
  \<open>xdrpp\<close> reports with an exception.\<close>

fun getIssuer :: "Asset \<Rightarrow> opaque result" where
  "getIssuer (AlphaNum4 _ i) = Inr i"
| "getIssuer (AlphaNum12 _ i) = Inr i"
| "getIssuer Native = Inl (RuntimeError ''xdr_wrong_union'')"

fun compareAsset :: "Asset \<Rightarrow> Asset \<Rightarrow> bool" where
  "compareAsset Native Native = True"
| "compareAsset (AlphaNum4 c i) (AlphaNum4 c' i') = (i = i' \<and> c = c')"
| "compareAsset (AlphaNum12 c i) (AlphaNum12 c' i') = (i = i' \<and> c = c')"
| "compareAsset _ _ = False"

fun assetCodeToStr :: "opaque \<Rightarrow> opaque" where
  "assetCodeToStr [] = []"
| "assetCodeToStr (c # cs) = (if c = 0 then [] else c # assetCodeToStr cs)"

definition strToAssetCode :: "nat \<Rightarrow> opaque \<Rightarrow> opaque" where
  "strToAssetCode N str =
     (let n = min N (length str) in take n str @ replicate (N - n) 0)"

section \<open>Prices\<close>

record Price =
  price_n :: int
  price_d :: int

text \<open>\<open>uint128_t(x)\<close> of an \<open>int32\<close> stores it, sign extended, in the low 64 bits.\<close>

definition uint128 :: "int \<Rightarrow> 128 word" where
  "uint128 x = ucast (word_of_int x :: uint64)"

definition price_ge :: "Price \<Rightarrow> Price \<Rightarrow> bool" where
  "price_ge a b \<longleftrightarrow>
     uint128 (price_n a) * uint128 (price_d b) \<ge> uint128 (price_d a) * uint128 (price_n b)"

definition price_gt :: "Price \<Rightarrow> Price \<Rightarrow> bool" where
  "price_gt a b \<longleftrightarrow>
     uint128 (price_n a) * uint128 (price_d b) > uint128 (price_d a) * uint128 (price_n b)"

definition price_eq :: "Price \<Rightarrow> Price \<Rightarrow> bool" where
  "price_eq a b \<longleftrightarrow> price_n a = price_n b \<and> price_d a = price_d b"

definition price_valid :: "Price \<Rightarrow> bool" where
  "price_valid p \<longleftrightarrow> 0 < price_n p \<and> price_n p < 2 ^ 31 \<and> 0 < price_d p \<and> price_d p < 2 ^ 31"


section \<open>Multiply and divide\<close>

text \<open>The mathematical value: \<open>A * B / C\<close>, rounded.\<close>

definition muldiv :: "int \<Rightarrow> int \<Rightarrow> int \<Rightarrow> Rounding \<Rightarrow> int" where
  "muldiv A B C r = (if r = ROUND_DOWN then A * B div C else (A * B + C - 1) div C)"

lemma uint_ucast_128 [simp]: "uint (ucast (a :: uint64) :: 128 word) = uint a"
  by (rule uint_up_ucast) (simp add: is_up)

lemma uint64_bounds: "0 \<le> uint (a :: uint64)" "uint a < 2 ^ 64"
  using uint_lt2p [of a] by simp_all

lemma uint_product:
  fixes a b :: "128 word"
  assumes "uint a < 2 ^ 64" and "uint b < 2 ^ 64"
  shows "uint (a * b) = uint a * uint b"
proof -
  have "uint a * uint b < 2 ^ 64 * 2 ^ 64"
    using assms by (intro mult_strict_mono) auto
  then have "uint a * uint b < 2 ^ LENGTH(128)" by simp
  then show ?thesis by (simp only: uint_mult_lem)
qed

lemma uint_product_round:
  fixes a b c :: "128 word"
  assumes "uint a < 2 ^ 64" and "uint b < 2 ^ 64" and "uint c < 2 ^ 64" and "c \<noteq> 0"
  shows "uint (a * b + c - 1) = uint a * uint b + uint c - 1"
proof -
  have c: "1 \<le> uint c"
    using assms(4) by (metis int_one_le_iff_zero_less uint_0_iff uint_ge_0 zero_less_iff_neq_zero
        order_le_less)
  have "uint a * uint b \<le> (2 ^ 64 - 1) * (2 ^ 64 - 1)"
    using assms(1,2) by (intro mult_mono) auto
  then have "uint a * uint b + uint c < 2 ^ LENGTH(128)"
    using assms(3) by simp
  then have "uint (a * b + c) = uint a * uint b + uint c"
    using uint_product [OF assms(1,2)] uint_add_lem [of "a * b" c] by simp
  moreover have "(1 :: 128 word) \<le> a * b + c"
  proof -
    have "0 \<le> uint a * uint b" by (rule mult_nonneg_nonneg) simp_all
    then have "1 \<le> uint (a * b + c)" using calculation c by linarith
    then show ?thesis by (simp add: word_le_def)
  qed
  ultimately show ?thesis by (simp add: uint_minus_simple_alt)
qed

lemma bigDivide_u64_eq:
  fixes A B C :: uint64
  assumes "C \<noteq> 0" and q_def: "q = muldiv (uint A) (uint B) (uint C) r"
  shows "bigDivide_u64 A B C r = Inr (word_of_int q, q \<le> 2 ^ 64 - 1)"
proof -
  let ?a = "ucast A :: 128 word" and ?b = "ucast B :: 128 word" and ?c = "ucast C :: 128 word"
  define x where "x = (if r = ROUND_DOWN then (?a * ?b) div ?c else (?a * ?b + ?c - 1) div ?c)"
  have c: "?c \<noteq> 0"
    using assms(1) by (metis uint_0_iff uint_ucast_128)
  have "uint (?a * ?b) = uint A * uint B"
    using uint_product [of ?a ?b] uint64_bounds [of A] uint64_bounds [of B] by simp
  moreover have "uint (?a * ?b + ?c - 1) = uint A * uint B + uint C - 1"
    using uint_product_round [of ?a ?b ?c] uint64_bounds [of A] uint64_bounds [of B]
      uint64_bounds [of C] c by simp
  ultimately have "uint x = q"
    unfolding x_def q_def muldiv_def by (simp add: uint_div)
  then have "bigDivide_u64 A B C r = Inr (ucast x, x \<le> ucast UINT64_MAX)"
    using c by (simp add: bigDivide_u64_def x_def Let_def)
  moreover have "ucast x = (word_of_int q :: uint64)"
    using \<open>uint x = q\<close> by (metis ucast_eq)
  moreover have "x \<le> ucast UINT64_MAX \<longleftrightarrow> q \<le> 2 ^ 64 - 1"
    using \<open>uint x = q\<close> by (simp add: word_le_def unsigned_minus_1_eq_mask mask_eq_exp_minus_1)
  ultimately show ?thesis by simp
qed


lemma muldiv_nonneg: "0 \<le> A \<Longrightarrow> 0 \<le> B \<Longrightarrow> 0 < C \<Longrightarrow> 0 \<le> muldiv A B C r"
  by (auto simp: muldiv_def pos_imp_zdiv_nonneg_iff intro: add_nonneg_pos)

lemma uint_of_int64: "0 \<le> A \<Longrightarrow> A \<le> INT64_MAX \<Longrightarrow> uint (word_of_int A :: uint64) = A"
  by (simp add: uint_word_of_int INT64_MAX_def)

lemma bigDivide_i64_eq:
  fixes A B C old :: int and r :: Rounding
  assumes "0 \<le> A" "A \<le> INT64_MAX" "0 \<le> B" "B \<le> INT64_MAX" "0 < C" "C \<le> INT64_MAX"
  defines "q \<equiv> muldiv A B C r"
  shows "bigDivide_i64 old A B C r =
    (if q \<le> 2 ^ 64 - 1 then Inr (sint (word_of_int q :: uint64), q \<le> INT64_MAX)
     else Inr (old, False))"
proof -
  have "(word_of_int C :: uint64) \<noteq> 0"
    using uint_of_int64 [of C] assms(5,6) by (metis less_irrefl less_imp_le uint_0_iff)
  moreover have "q = muldiv (uint (word_of_int A :: uint64)) (uint (word_of_int B :: uint64))
      (uint (word_of_int C :: uint64)) r"
    using assms by (simp add: uint_of_int64)
  ultimately have "bigDivide_u64 (word_of_int A) (word_of_int B) (word_of_int C) r =
      Inr (word_of_int q, q \<le> 2 ^ 64 - 1)"
    by (rule bigDivide_u64_eq)
  moreover have "q \<le> 2 ^ 64 - 1 \<Longrightarrow> uint (word_of_int q :: uint64) = q"
    using muldiv_nonneg [of A B C r] assms by (simp add: uint_word_of_int)
  ultimately show ?thesis
    using assms by (auto simp: bigDivide_i64_def)
qed

lemma sint_of_int64: "0 \<le> q \<Longrightarrow> q \<le> INT64_MAX \<Longrightarrow> sint (word_of_int q :: uint64) = q"
  by (simp add: signed_of_int INT64_MAX_def signed_take_bit_int_eq_self)

lemmas int64_args = INT64_MAX_def int64_range_def

text \<open>The two cases of the signed division that callers distinguish.\<close>

lemma bigDivide_i64_ok:
  assumes "0 \<le> A" "A \<le> INT64_MAX" "0 \<le> B" "B \<le> INT64_MAX" "0 < C" "C \<le> INT64_MAX"
    and "muldiv A B C r \<le> INT64_MAX"
  shows "bigDivide_i64 old A B C r = Inr (muldiv A B C r, True)"
  using assms muldiv_nonneg [of A B C r]
  by (simp add: bigDivide_i64_eq sint_of_int64) (simp add: INT64_MAX_def)

lemma bigDivide_i64_overflow:
  assumes "0 \<le> A" "A \<le> INT64_MAX" "0 \<le> B" "B \<le> INT64_MAX" "0 < C" "C \<le> INT64_MAX"
    and "\<not> muldiv A B C r \<le> INT64_MAX"
  shows "\<exists>res. bigDivide_i64 old A B C r = Inr (res, False)"
  using assms by (simp add: bigDivide_i64_eq)


text \<open>Rounding down and up bracket the exact quotient.\<close>

lemma muldiv_down_le: "0 < C \<Longrightarrow> muldiv A B C ROUND_DOWN * C \<le> A * B"
  by (simp add: muldiv_def minus_mod_eq_div_mult [symmetric])

lemma muldiv_down_greatest: "0 < C \<Longrightarrow> k * C \<le> A * B \<Longrightarrow> k \<le> muldiv A B C ROUND_DOWN"
  using zdiv_mono1 [of "k * C" "A * B" C] by (simp add: muldiv_def)

lemma muldiv_up_ge: "0 < C \<Longrightarrow> A * B \<le> muldiv A B C ROUND_UP * C"
proof -
  assume C: "0 < C"
  have "A * B + C - 1 - (A * B + C - 1) mod C = (A * B + C - 1) div C * C"
    by (simp add: minus_mod_eq_div_mult)
  then show ?thesis
    using pos_mod_bound [OF C, of "A * B + C - 1"] by (simp add: muldiv_def)
qed

lemma muldiv_up_least: "0 < C \<Longrightarrow> A * B \<le> k * C \<Longrightarrow> muldiv A B C ROUND_UP \<le> k"
proof -
  assume C: "0 < C" and "A * B \<le> k * C"
  then have "(A * B + C - 1) div C \<le> (k * C + (C - 1)) div C"
    by (intro zdiv_mono1) auto
  also have "\<dots> = k + (C - 1) div C"
    using C by (intro div_mult_self3) auto
  also have "\<dots> = k" using C by simp
  finally show ?thesis by (simp add: muldiv_def)
qed

lemma muldiv_down_le_up: "0 < C \<Longrightarrow> muldiv A B C ROUND_DOWN \<le> muldiv A B C ROUND_UP"
  by (simp add: muldiv_def zdiv_mono1)

text \<open>C38: the 64-bit multiply-and-divide is exact: for any operands and a non-zero divisor the
  call returns the rounded quotient of the full 128-bit product reduced to 64 bits, and
  reports success exactly when that quotient fits; the flag never lies. The quotient is the
  greatest (rounding down) or least (rounding up) integer on its side of
  \<open>A * B / C\<close>.\<close>

theorem bigDivide_exact:
  fixes A B C :: uint64 and r :: Rounding
  assumes "C \<noteq> 0"
  shows "\<exists>q. bigDivide_u64 A B C r = Inr (word_of_int q, q \<le> uint UINT64_MAX) \<and> 0 \<le> q \<and>
    (if r = ROUND_DOWN then q * uint C \<le> uint A * uint B \<and> uint A * uint B < (q + 1) * uint C
     else uint A * uint B \<le> q * uint C \<and> (q - 1) * uint C < uint A * uint B)"
proof -
  define q where "q = muldiv (uint A) (uint B) (uint C) r"
  have C: "0 < uint C"
    using assms by (metis uint_0_iff uint_ge_0 order_le_less)
  have "bigDivide_u64 A B C r = Inr (word_of_int q, q \<le> uint UINT64_MAX)"
    using bigDivide_u64_eq [OF assms q_def]
    by (simp add: unsigned_minus_1_eq_mask mask_eq_exp_minus_1)
  moreover have "0 \<le> q"
    unfolding q_def using C by (intro muldiv_nonneg) auto
  moreover have "if r = ROUND_DOWN then q * uint C \<le> uint A * uint B \<and> uint A * uint B < (q + 1) * uint C
     else uint A * uint B \<le> q * uint C \<and> (q - 1) * uint C < uint A * uint B"
  proof (cases r)
    case ROUND_DOWN
    have "uint A * uint B < (q + 1) * uint C"
      using muldiv_down_greatest [OF C, of "q + 1" "uint A" "uint B"] ROUND_DOWN
      by (auto simp: q_def not_le [symmetric])
    with ROUND_DOWN show ?thesis using muldiv_down_le [OF C] by (simp add: q_def)
  next
    case ROUND_UP
    have "(q - 1) * uint C < uint A * uint B"
      using muldiv_up_least [OF C, of "uint A" "uint B" "q - 1"] ROUND_UP
      by (auto simp: q_def not_le [symmetric])
    with ROUND_UP show ?thesis using muldiv_up_ge [OF C] by (simp add: q_def)
  qed
  ultimately show ?thesis by blast
qed

theorem bigDivide_exact_witness:
  "\<exists>q. bigDivide_u64 UINT64_MAX 3 2 ROUND_UP = Inr (word_of_int q, q \<le> uint UINT64_MAX) \<and> 0 \<le> q \<and>
    uint UINT64_MAX * uint (3 :: uint64) \<le> q * uint (2 :: uint64)"
proof -
  have "(2 :: uint64) \<noteq> 0" by simp
  from bigDivide_exact [OF this, of UINT64_MAX 3 ROUND_UP] show ?thesis by auto
qed


section \<open>Balances, assets and prices\<close>

text \<open>\<open>addBalance\<close> on a non-negative balance and limit never aborts; it reports success
  exactly when the change is zero or the sum stays within zero and the limit, the balance
  then is the exact sum and otherwise is untouched, and no \<open>int64_t\<close> expression it
  evaluates leaves the 64-bit range.\<close>

lemma addBalance_spec:
  assumes "0 \<le> balance" "0 \<le> maxBalance" "int64_range balance" "int64_range delta"
    "int64_range maxBalance"
  shows "addBalance balance delta maxBalance =
      Inr (if delta = 0 \<or> (0 \<le> balance + delta \<and> balance + delta \<le> maxBalance)
           then (balance + delta, True) else (balance, False)) \<and>
    int64_range (- balance) \<and> int64_range (maxBalance - balance) \<and>
    (\<forall>b. addBalance balance delta maxBalance = Inr (b, True) \<longrightarrow> int64_range b \<and> 0 \<le> b)"
proof (intro conjI allI impI)
  show eq: "addBalance balance delta maxBalance =
      Inr (if delta = 0 \<or> (0 \<le> balance + delta \<and> balance + delta \<le> maxBalance)
           then (balance + delta, True) else (balance, False))"
    using assms(1,2) by (simp add: addBalance_def)
  show "int64_range (- balance)" "int64_range (maxBalance - balance)"
    using assms by (simp_all add: int64_range_def INT64_MAX_def)
  fix b assume "addBalance balance delta maxBalance = Inr (b, True)"
  then have "b = balance + delta" "delta = 0 \<or> 0 \<le> b \<and> b \<le> maxBalance"
    using eq by (simp_all split: if_splits)
  then show "int64_range b" "0 \<le> b"
    using assms by (auto simp: int64_range_def)
qed

lemma addBalance_spec_example:
  "addBalance 10 (- 4) INT64_MAX = Inr (6, True) \<and> addBalance 10 (- 11) INT64_MAX = Inr (10, False)"
proof -
  have r: "int64_range 10" "int64_range (- 4)" "int64_range (- 11)" "int64_range INT64_MAX"
    by (simp_all add: int64_range_def INT64_MAX_def)
  have m: "0 \<le> INT64_MAX" "6 \<le> INT64_MAX" by (simp_all add: INT64_MAX_def)
  show ?thesis
    using addBalance_spec [OF _ m(1) r(1,2,4), THEN conjunct1]
      addBalance_spec [OF _ m(1) r(1,3,4), THEN conjunct1] m by simp
qed

lemma assetCode_loop_zeros:
  "assetCode_loop bs True n = (if list_all (\<lambda>b. b = 0) bs then Some n else None)"
  by (induction bs) auto

lemma assetCode_loop_None_or:
  "assetCode_loop code False n =
    (let s = takeWhile (\<lambda>b. b \<noteq> 0) code; z = dropWhile (\<lambda>b. b \<noteq> 0) code in
     if list_all isalnum s \<and> list_all (\<lambda>b. b = 0) z then Some (n + length s) else None)"
proof (induction code arbitrary: n)
  case (Cons b bs)
  have "isalnum b \<Longrightarrow> \<not> b > 127"
    by (auto simp: isalnum_def word_less_nat_alt word_le_nat_alt)
  with Cons show ?case by (auto simp: assetCode_loop_zeros Let_def)
qed simp

lemma assetCodeToStr_takeWhile: "assetCodeToStr code = takeWhile (\<lambda>b. b \<noteq> 0) code"
  by (induction code) auto

lemma replicate_of_all_zero: "list_all (\<lambda>b. b = 0) z \<Longrightarrow> z = replicate (length z) (0 :: uint8)"
  by (induction z) auto

text \<open>An asset code that \<open>isAssetValid\<close> accepts survives the conversion to a string and
  back: the string has the code's characters only, at least one of them (at least five for
  the twelve-byte form), all alphanumeric, and \<open>strToAssetCode\<close> restores the padding.\<close>

lemma asset_code_roundtrip:
  assumes "isAssetValid a" and "a = AlphaNum4 code i \<and> N = 4 \<or> a = AlphaNum12 code i \<and> N = 12"
    and "length code = N"
  shows "strToAssetCode N (assetCodeToStr code) = code \<and>
    list_all isalnum (assetCodeToStr code) \<and>
    (if N = 4 then 1 else 5) \<le> length (assetCodeToStr code)"
proof -
  let ?s = "takeWhile (\<lambda>b. b \<noteq> 0) code" and ?z = "dropWhile (\<lambda>b. b \<noteq> 0) code"
  have valid: "list_all isalnum ?s \<and> list_all (\<lambda>b. b = 0) ?z \<and> (if N = 4 then 1 else 5) \<le> length ?s"
    using assms(1,2)
    by (auto simp: assetCode_loop_None_or Let_def Suc_le_eq numeral_eq_Suc split: if_splits)
  have len: "length ?s + length ?z = N"
    using assms(3) by (metis length_append takeWhile_dropWhile_id)
  have "replicate (N - length ?s) 0 = ?z"
    using replicate_of_all_zero [of ?z] valid len by (metis add_diff_cancel_left')
  then have "strToAssetCode N (assetCodeToStr code) = code"
    using len by (simp add: strToAssetCode_def assetCodeToStr_takeWhile min_absorb2)
  with valid show ?thesis by (simp add: assetCodeToStr_takeWhile)
qed

lemma asset_code_roundtrip_example:
  "strToAssetCode 4 (assetCodeToStr [85, 83, 68, 0]) = [85, 83, 68, 0]"
proof -
  have "isAssetValid (AlphaNum4 [85, 83, 68, 0] [])" by (simp add: isalnum_def)
  from asset_code_roundtrip [OF this, of "[85, 83, 68, 0]" "[]" 4] show ?thesis by simp
qed

lemma uint_uint128: "0 \<le> x \<Longrightarrow> x < 2 ^ 31 \<Longrightarrow> uint (uint128 x) = x"
  by (simp add: uint128_def uint_word_of_int)

lemma uint128_mult_le:
  assumes "0 \<le> a" "a < 2 ^ 31" "0 \<le> b" "b < 2 ^ 31"
  shows "uint (uint128 a * uint128 b) = a * b"
  using assms by (simp add: uint_product uint_uint128)

text \<open>On valid prices the 128-bit comparisons are those of the rational numbers
  \<open>n / d\<close>: no product overflows, and \<open>>=\<close> and \<open>>\<close> are the two halves of one total
  order.\<close>

lemma price_order:
  assumes "price_valid a" "price_valid b"
  shows "(price_ge a b \<longleftrightarrow> price_n b * price_d a \<le> price_n a * price_d b)
    \<and> (price_gt a b \<longleftrightarrow> \<not> price_ge b a)"
  using assms
  by (auto simp: price_ge_def price_gt_def price_valid_def word_le_def word_less_def
      uint128_mult_le mult.commute)

lemma price_order_example:
  "price_ge \<lparr>price_n = 3, price_d = 2\<rparr> \<lparr>price_n = 4, price_d = 3\<rparr>"
  using price_order [of "\<lparr>price_n = 3, price_d = 2\<rparr>" "\<lparr>price_n = 4, price_d = 3\<rparr>"]
  by (simp add: price_valid_def)

end
