(* ===== verification/Local_Node.thy ===== *)
theory Local_Node
  imports Scp_Types Util_Types
begin

text \<open>
  \<open>src/scp/LocalNode.cpp\<close>: quorum slices, v-blocking sets and quorums over nested quorum
  sets. The second half gives quorum sets a meaning (\<open>sat\<close>: does a set of nodes contain
  a slice) and shows that the loops of the code compute it, that the v-blocking test is the
  blocking of every slice, and that \<open>isQuorum\<close> finds the greatest quorum among the nodes
  it is given.
\<close>

section \<open>The code\<close>

definition buildSingletonQSet :: "NodeID \<Rightarrow> SCPQuorumSet" where
  "buildSingletonQSet n = SCPQuorumSet 1 [n] []"

fun forAllNodesInternal :: "SCPQuorumSet \<Rightarrow> (NodeID \<Rightarrow> 's \<Rightarrow> 's) \<Rightarrow> 's \<Rightarrow> 's" where
  "forAllNodesInternal (SCPQuorumSet t vs qs) proc s =
     fold (\<lambda>q. forAllNodesInternal q proc) qs (fold proc vs s)"

definition forAllNodes :: "SCPQuorumSet \<Rightarrow> (NodeID \<Rightarrow> 's \<Rightarrow> 's) \<Rightarrow> 's \<Rightarrow> 's" where
  "forAllNodes qset proc s =
     snd (forAllNodesInternal qset
       (\<lambda>n (visited, s). if n \<in> set visited then (visited, s)
                      else (insort_insert n visited, proc n s))
       ([], s))"

fun getNodeWeight :: "NodeID \<Rightarrow> SCPQuorumSet \<Rightarrow> uint64 result"
and weightInnerLoop :: "NodeID \<Rightarrow> uint64 \<Rightarrow> uint64 \<Rightarrow> SCPQuorumSet list \<Rightarrow> uint64 result" where
  "getNodeWeight node (SCPQuorumSet t vs qs) =
     (let n = ucast t; d = of_nat (length qs) + of_nat (length vs) in
      if node \<in> set vs then
        bindE (bigDivide_u64 UINT64_MAX n d ROUND_DOWN) (\<lambda>(res, _). Inr res)
      else weightInnerLoop node n d qs)"
| "weightInnerLoop node n d [] = Inr 0"
| "weightInnerLoop node n d (q # qs) =
     bindE (getNodeWeight node q)
       (\<lambda>leafW. if leafW \<noteq> 0 then
           bindE (bigDivide_u64 leafW n d ROUND_DOWN) (\<lambda>(res, _). Inr res)
         else weightInnerLoop node n d qs)"

text \<open>The loops over validators count \<open>thresholdLeft\<close> (a \<open>uint32\<close>, which wraps) or
  \<open>leftTillBlock\<close> (an \<open>int\<close>) down; \<open>None\<close> is the early \<open>return true\<close>.\<close>

fun sliceValidators :: "NodeID list \<Rightarrow> NodeID list \<Rightarrow> uint32 \<Rightarrow> uint32 option" where
  "sliceValidators [] nodeSet thresholdLeft = Some thresholdLeft"
| "sliceValidators (v # vs) nodeSet thresholdLeft =
     (if v \<in> set nodeSet then
        (if thresholdLeft - 1 \<le> 0 then None
         else sliceValidators vs nodeSet (thresholdLeft - 1))
      else sliceValidators vs nodeSet thresholdLeft)"

fun isQuorumSliceInternal :: "SCPQuorumSet \<Rightarrow> NodeID list \<Rightarrow> bool"
and sliceInnerLoop :: "SCPQuorumSet list \<Rightarrow> NodeID list \<Rightarrow> uint32 \<Rightarrow> bool" where
  "isQuorumSliceInternal (SCPQuorumSet t vs qs) nodeSet =
     (case sliceValidators vs nodeSet t of
        None \<Rightarrow> True
      | Some thresholdLeft \<Rightarrow> sliceInnerLoop qs nodeSet thresholdLeft)"
| "sliceInnerLoop [] nodeSet thresholdLeft = False"
| "sliceInnerLoop (q # qs) nodeSet thresholdLeft =
     (if isQuorumSliceInternal q nodeSet then
        (if thresholdLeft - 1 \<le> 0 then True
         else sliceInnerLoop qs nodeSet (thresholdLeft - 1))
      else sliceInnerLoop qs nodeSet thresholdLeft)"

definition isQuorumSlice :: "SCPQuorumSet \<Rightarrow> NodeID list \<Rightarrow> bool" where
  "isQuorumSlice qSet nodeSet = isQuorumSliceInternal qSet nodeSet"

fun blockValidators :: "NodeID list \<Rightarrow> NodeID list \<Rightarrow> int \<Rightarrow> int option" where
  "blockValidators [] nodeSet leftTillBlock = Some leftTillBlock"
| "blockValidators (v # vs) nodeSet leftTillBlock =
     (if v \<in> set nodeSet then
        (if leftTillBlock - 1 \<le> 0 then None
         else blockValidators vs nodeSet (leftTillBlock - 1))
      else blockValidators vs nodeSet leftTillBlock)"

text \<open>\<open>leftTillBlock\<close> is the 64-bit difference of sizes cast to a 32-bit \<open>int\<close>.\<close>

fun isVBlockingInternal :: "SCPQuorumSet \<Rightarrow> NodeID list \<Rightarrow> bool"
and blockInnerLoop :: "SCPQuorumSet list \<Rightarrow> NodeID list \<Rightarrow> int \<Rightarrow> bool" where
  "isVBlockingInternal (SCPQuorumSet t vs qs) nodeSet =
     (if t = 0 then False
      else case blockValidators vs nodeSet
                  (signed_take_bit 31 (1 + int (length vs) + int (length qs) - uint t)) of
        None \<Rightarrow> True
      | Some leftTillBlock \<Rightarrow> blockInnerLoop qs nodeSet leftTillBlock)"
| "blockInnerLoop [] nodeSet leftTillBlock = False"
| "blockInnerLoop (q # qs) nodeSet leftTillBlock =
     (if isVBlockingInternal q nodeSet then
        (if leftTillBlock - 1 \<le> 0 then True
         else blockInnerLoop qs nodeSet (leftTillBlock - 1))
      else blockInnerLoop qs nodeSet leftTillBlock)"

definition isVBlocking :: "SCPQuorumSet \<Rightarrow> NodeID list \<Rightarrow> bool" where
  "isVBlocking qSet nodeSet = isVBlockingInternal qSet nodeSet"

definition filterNodes :: "envelopes \<Rightarrow> (SCPStatement \<Rightarrow> bool) \<Rightarrow> NodeID list" where
  "filterNodes envs filt = map fst (filter (\<lambda>(_, e). filt (statement e)) envs)"

definition isVBlockingMap :: "SCPQuorumSet \<Rightarrow> envelopes \<Rightarrow> (SCPStatement \<Rightarrow> bool) \<Rightarrow> bool" where
  "isVBlockingMap qSet envs filt = isVBlocking qSet (filterNodes envs filt)"

text \<open>The \<open>do\<close>-loop of \<open>isQuorum\<close>: keep the nodes whose quorum set has a slice among
  those kept so far, until none is dropped.\<close>

function quorumLoop :: "(NodeID \<Rightarrow> NodeID list \<Rightarrow> bool) \<Rightarrow> NodeID list \<Rightarrow> NodeID list" where
  "quorumLoop quorumFilter pNodes =
     (let fNodes = filter (\<lambda>n. quorumFilter n pNodes) pNodes in
      if length fNodes \<noteq> length pNodes then quorumLoop quorumFilter fNodes else fNodes)"
  by pat_completeness auto
termination
  by (relation "measure (\<lambda>(_, p). length p)") (auto simp: order_less_le length_filter_le)

declare quorumLoop.simps [simp del]

definition quorumFilter ::
  "envelopes \<Rightarrow> (SCPStatement \<Rightarrow> SCPQuorumSet option) \<Rightarrow> NodeID \<Rightarrow> NodeID list \<Rightarrow> bool" where
  "quorumFilter envs qfun node pNodes =
     (case map_of envs node of
        None \<Rightarrow> False
      | Some e \<Rightarrow> (case qfun (statement e) of
                    Some qSet \<Rightarrow> isQuorumSlice qSet pNodes
                  | None \<Rightarrow> False))"

definition isQuorum ::
  "SCPQuorumSet \<Rightarrow> envelopes \<Rightarrow> (SCPStatement \<Rightarrow> SCPQuorumSet option) \<Rightarrow>
   (SCPStatement \<Rightarrow> bool) \<Rightarrow> bool" where
  "isQuorum qSet envs qfun filt =
     isQuorumSlice qSet (quorumLoop (quorumFilter envs qfun) (filterNodes envs filt))"


text \<open>\<open>findClosestVBlocking\<close>: \<open>leftTillBlock\<close> is a \<open>size_t\<close>; \<open>None\<close> is the early
  return of the empty vector. The \<open>multiset\<close> of partial results is ordered by size, and
  \<open>emplace\<close> puts an element after those of the same size.\<close>

fun closestValidators ::
  "NodeID list \<Rightarrow> NodeID list \<Rightarrow> NodeID option \<Rightarrow> uint64 \<Rightarrow> NodeID list \<Rightarrow>
   (uint64 \<times> NodeID list) option" where
  "closestValidators [] nodes excluded leftTillBlock res = Some (leftTillBlock, res)"
| "closestValidators (v # vs) nodes excluded leftTillBlock res =
     (if excluded \<noteq> Some v then
        (if v \<notin> set nodes then
           (if leftTillBlock - 1 = 0 then None
            else closestValidators vs nodes excluded (leftTillBlock - 1) res)
         else closestValidators vs nodes excluded leftTillBlock (res @ [v]))
      else closestValidators vs nodes excluded leftTillBlock res)"

fun emplaceBySize :: "NodeID list \<Rightarrow> NodeID list list \<Rightarrow> NodeID list list" where
  "emplaceBySize v [] = [v]"
| "emplaceBySize v (w # ws) = (if length v < length w then v # w # ws else w # emplaceBySize v ws)"

fun takeSubsets :: "uint64 \<Rightarrow> NodeID list list \<Rightarrow> NodeID list \<Rightarrow> NodeID list" where
  "takeSubsets leftTillBlock [] res = res"
| "takeSubsets leftTillBlock (v # vs) res =
     (if leftTillBlock \<noteq> 0 then takeSubsets (leftTillBlock - 1) vs (res @ v) else res)"

fun findClosestVBlocking :: "SCPQuorumSet \<Rightarrow> NodeID list \<Rightarrow> NodeID option \<Rightarrow> NodeID list"
and closestInnerLoop ::
  "SCPQuorumSet list \<Rightarrow> NodeID list \<Rightarrow> NodeID option \<Rightarrow> uint64 \<Rightarrow> NodeID list list \<Rightarrow>
   (uint64 \<times> NodeID list list) option" where
  "findClosestVBlocking (SCPQuorumSet t vs qs) nodes excluded =
     (case closestValidators vs nodes excluded
             (1 + of_nat (length vs) + of_nat (length qs) - ucast t) [] of
        None \<Rightarrow> []
      | Some (leftTillBlock, res) \<Rightarrow>
          (case closestInnerLoop qs nodes excluded leftTillBlock [] of
             None \<Rightarrow> []
           | Some (leftTillBlock, resInternals) \<Rightarrow>
               (let res = (if length res > unat leftTillBlock then take (unat leftTillBlock) res
                           else res)
                in takeSubsets (leftTillBlock - of_nat (length res)) resInternals res)))"
| "closestInnerLoop [] nodes excluded leftTillBlock resInternals = Some (leftTillBlock, resInternals)"
| "closestInnerLoop (q # qs) nodes excluded leftTillBlock resInternals =
     (let v = findClosestVBlocking q nodes excluded in
      if length v = 0 then
        (if leftTillBlock - 1 = 0 then None
         else closestInnerLoop qs nodes excluded (leftTillBlock - 1) resInternals)
      else closestInnerLoop qs nodes excluded leftTillBlock (emplaceBySize v resInternals))"

definition findClosestVBlockingMap ::
  "SCPQuorumSet \<Rightarrow> envelopes \<Rightarrow> (SCPStatement \<Rightarrow> bool) \<Rightarrow> NodeID option \<Rightarrow> NodeID list" where
  "findClosestVBlockingMap qset envs filt excluded =
     findClosestVBlocking qset (fold insort_insert (filterNodes envs filt) []) excluded"

section \<open>What a quorum set means\<close>

text \<open>\<open>sat q S\<close>: the nodes of \<open>S\<close> contain a slice of \<open>q\<close>.\<close>

fun sat :: "SCPQuorumSet \<Rightarrow> NodeID set \<Rightarrow> bool" where
  "sat (SCPQuorumSet t vs qs) S \<longleftrightarrow>
     0 < unat t \<and> unat t \<le> length (filter (\<lambda>v. v \<in> S) vs) + length (filter (\<lambda>q. sat q S) qs)"

text \<open>Sizes that fit the counters of the code, and thresholds within the number of entries.\<close>

fun qset_small :: "SCPQuorumSet \<Rightarrow> bool" where
  "qset_small (SCPQuorumSet t vs qs) \<longleftrightarrow>
     length vs + length qs < 2 ^ 31 \<and> list_all qset_small qs"

fun qset_ok :: "SCPQuorumSet \<Rightarrow> bool" where
  "qset_ok (SCPQuorumSet t vs qs) \<longleftrightarrow>
     0 < unat t \<and> unat t \<le> length vs + length qs \<and> length vs + length qs < 2 ^ 31 \<and>
     list_all qset_ok qs"

lemma length_filter_mono:
  "(\<And>x. x \<in> set xs \<Longrightarrow> P x \<Longrightarrow> Q x) \<Longrightarrow> length (filter P xs) \<le> length (filter Q xs)"
  by (induction xs) auto

lemma sat_mono: "sat q S \<Longrightarrow> S \<subseteq> T \<Longrightarrow> sat q T"
proof (induction q S arbitrary: T rule: sat.induct)
  case (1 t vs qs S)
  have "length (filter (\<lambda>v. v \<in> S) vs) \<le> length (filter (\<lambda>v. v \<in> T) vs)"
    using "1.prems" by (intro length_filter_mono) auto
  moreover have "length (filter (\<lambda>q. sat q S) qs) \<le> length (filter (\<lambda>q. sat q T) qs)"
    using "1.IH" "1.prems" by (intro length_filter_mono) auto
  ultimately show ?case using "1.prems" by simp
qed

text \<open>Only the nodes a quorum set mentions matter.\<close>

fun qset_nodes :: "SCPQuorumSet \<Rightarrow> NodeID list" where
  "qset_nodes (SCPQuorumSet t vs qs) = vs @ concat (map qset_nodes qs)"

lemma sat_relevant: "sat q S \<longleftrightarrow> sat q (S \<inter> set (qset_nodes q))"
proof -
  have "sat q S \<longleftrightarrow> sat q T" if "S \<inter> set (qset_nodes q) = T \<inter> set (qset_nodes q)" for T
    using that
  proof (induction q S arbitrary: T rule: sat.induct)
    case (1 t vs qs S)
    have "filter (\<lambda>v. v \<in> S) vs = filter (\<lambda>v. v \<in> T) vs"
      using "1.prems" by (intro filter_cong) auto
    moreover have "filter (\<lambda>q. sat q S) qs = filter (\<lambda>q. sat q T) qs"
      using "1.prems" by (intro filter_cong refl "1.IH") auto
    ultimately show ?case by simp
  qed
  then show ?thesis by blast
qed

lemma qset_ok_small: "qset_ok q \<Longrightarrow> qset_small q"
  by (induction q rule: qset_small.induct) (auto simp: list_all_iff)

text \<open>How many more members \<open>thresholdLeft\<close> asks for, with its wrap-around.\<close>

abbreviation asks :: "uint32 \<Rightarrow> nat" where
  "asks left \<equiv> Suc (unat (left - 1))"

lemma asks_step:
  fixes left :: uint32
  assumes "left \<noteq> 1"
  shows "Suc (unat (left - 2)) = unat (left - 1)"
proof -
  have "left - 1 \<noteq> 0" using assms by simp
  from unat_minus_one [OF this] this have "unat (left - 2) = unat (left - 1) - 1" "0 < unat (left - 1)"
    by (simp_all add: unat_gt_0)
  then show ?thesis by simp
qed

lemma asks_threshold:
  fixes t :: uint32
  assumes "n < 2 ^ 32"
  shows "asks t \<le> n \<longleftrightarrow> 0 < unat t \<and> unat t \<le> n"
proof (cases "t = 0")
  case True
  then show ?thesis using assms by (simp add: unsigned_minus_1_eq_mask mask_eq_exp_minus_1)
next
  case False
  then show ?thesis by (simp add: unat_minus_one unat_gt_0)
qed

lemma sliceValidators_eq:
  "sliceValidators vs ns left =
    (if asks left \<le> length (filter (\<lambda>v. v \<in> set ns) vs) then None
     else Some (left - of_nat (length (filter (\<lambda>v. v \<in> set ns) vs))))"
proof (induction vs ns left rule: sliceValidators.induct)
  case (2 v vs ns left)
  then show ?case
    by (cases "left = 1") (auto simp: asks_step)
qed simp


lemma asks_diff:
  assumes "\<not> asks left \<le> k"
  shows "asks (left - of_nat k) = asks left - k"
  using assms
proof (induction k)
  case (Suc k)
  then have IH: "asks (left - of_nat k) = asks left - k" by simp
  with Suc.prems have "left - of_nat k \<noteq> 1" by auto
  from asks_step [OF this] IH show ?case by (simp add: algebra_simps)
qed simp

lemma sliceInnerLoop_eq:
  "sliceInnerLoop qs ns left \<longleftrightarrow>
    asks left \<le> length (filter (\<lambda>q. isQuorumSliceInternal q ns) qs)"
proof (induction qs arbitrary: left)
  case (Cons q qs)
  then show ?case by (cases "left = 1") (auto simp: asks_step)
qed simp

text \<open>The slice test of the code is \<open>sat\<close>.\<close>

lemma isQuorumSliceInternal_sat: "qset_small q \<Longrightarrow> isQuorumSliceInternal q ns \<longleftrightarrow> sat q (set ns)"
proof (induction q "set ns" rule: sat.induct)
  case (1 t vs qs)
  let ?k = "length (filter (\<lambda>v. v \<in> set ns) vs)"
  let ?m = "length (filter (\<lambda>q. isQuorumSliceInternal q ns) qs)"
  have eq: "filter (\<lambda>q. isQuorumSliceInternal q ns) qs = filter (\<lambda>q. sat q (set ns)) qs"
    using "1.hyps" "1.prems" by (intro filter_cong) (auto simp: list_all_iff)
  have "?k + ?m \<le> length vs + length qs" by (intro add_mono) simp_all
  also have "\<dots> < 2 ^ 32" using "1.prems" by simp
  finally have "?k + ?m < 2 ^ 32" .
  then have "asks t \<le> ?k + ?m \<longleftrightarrow> 0 < unat t \<and> unat t \<le> ?k + ?m"
    by (rule asks_threshold)
  moreover have "isQuorumSliceInternal (SCPQuorumSet t vs qs) ns \<longleftrightarrow> asks t \<le> ?k + ?m"
    using asks_diff [of t ?k] by (auto simp: sliceValidators_eq sliceInnerLoop_eq)
  ultimately show ?case by (simp add: eq)
qed

lemma isQuorumSlice_sat: "qset_small q \<Longrightarrow> isQuorumSlice q ns \<longleftrightarrow> sat q (set ns)"
  by (simp add: isQuorumSlice_def isQuorumSliceInternal_sat)

section \<open>v-blocking sets\<close>

lemma blockValidators_eq:
  "1 \<le> left \<Longrightarrow> blockValidators vs ns left =
    (if left \<le> int (length (filter (\<lambda>v. v \<in> set ns) vs)) then None
     else Some (left - int (length (filter (\<lambda>v. v \<in> set ns) vs))))"
  by (induction vs ns left rule: blockValidators.induct) auto

lemma blockInnerLoop_eq:
  "1 \<le> left \<Longrightarrow> blockInnerLoop qs ns left \<longleftrightarrow>
    left \<le> int (length (filter (\<lambda>q. isVBlockingInternal q ns) qs))"
  by (induction qs arbitrary: left) auto

lemma length_filter_compl: "length (filter (\<lambda>x. \<not> P x) xs) = length xs - length (filter P xs)"
  by (induction xs) (auto simp: Suc_diff_le)

text \<open>A set is v-blocking exactly when its complement holds no slice.\<close>

lemma isVBlockingInternal_not_sat: "qset_ok q \<Longrightarrow> isVBlockingInternal q ns \<longleftrightarrow> \<not> sat q (- set ns)"
proof (induction q "- set ns" rule: sat.induct)
  case (1 t vs qs)
  let ?k = "length (filter (\<lambda>v. v \<in> set ns) vs)"
  let ?m = "length (filter (\<lambda>q. isVBlockingInternal q ns) qs)"
  have "filter (\<lambda>q. sat q (- set ns)) qs = filter (\<lambda>q. \<not> isVBlockingInternal q ns) qs"
    using "1.hyps" "1.prems" by (intro filter_cong) (auto simp: list_all_iff)
  then have sat: "sat (SCPQuorumSet t vs qs) (- set ns) \<longleftrightarrow>
      unat t \<le> (length vs - ?k) + (length qs - ?m)"
    using "1.prems" by (simp add: length_filter_compl)
  let ?left = "1 + int (length vs) + int (length qs) - uint t"
  have t: "uint t = int (unat t)" by simp
  have "0 < unat t" "unat t \<le> length vs + length qs" "length vs + length qs < 2147483648"
    using "1.prems" by simp_all
  then have "1 \<le> ?left" "?left < 2147483648" unfolding t by linarith+
  then have left: "signed_take_bit 31 ?left = ?left" "1 \<le> ?left"
    by (simp_all add: signed_take_bit_int_eq_self)
  have "?k \<le> length vs" "?m \<le> length qs" by simp_all
  with t have "?left \<le> int ?k + int ?m \<longleftrightarrow> \<not> sat (SCPQuorumSet t vs qs) (- set ns)"
    unfolding sat by linarith
  moreover have "isVBlockingInternal (SCPQuorumSet t vs qs) ns \<longleftrightarrow> ?left \<le> int ?k + int ?m"
    using "1.prems" left by (auto simp: blockValidators_eq blockInnerLoop_eq)
  ultimately show ?case by simp
qed

lemma isVBlocking_not_sat: "qset_ok q \<Longrightarrow> isVBlocking q ns \<longleftrightarrow> \<not> sat q (- set ns)"
  by (simp add: isVBlocking_def isVBlockingInternal_not_sat)

text \<open>C21: on a well-formed quorum set the v-blocking test is the definition of the protocol:
  the nodes meet every slice, that is, every set of nodes that contains a slice of the
  quorum set.\<close>

theorem isVBlocking_meets_every_slice:
  assumes "qset_ok q"
  shows "isVBlocking q ns \<longleftrightarrow> (\<forall>ms. isQuorumSlice q ms \<longrightarrow> set ms \<inter> set ns \<noteq> {})"
proof -
  let ?ms = "filter (\<lambda>n. n \<notin> set ns) (qset_nodes q)"
  have small: "qset_small q" using assms by (rule qset_ok_small)
  have "sat q (- set ns) \<longleftrightarrow> sat q (set ?ms)"
    by (subst sat_relevant) (rule arg_cong [where f = "sat q"], auto)
  moreover have "sat q (set ms) \<Longrightarrow> set ms \<inter> set ns = {} \<Longrightarrow> sat q (- set ns)" for ms
    by (erule sat_mono) auto
  moreover have "set ?ms \<inter> set ns = {}" by auto
  ultimately show ?thesis
    unfolding isVBlocking_not_sat [OF assms] isQuorumSlice_sat [OF small] by blast
qed

theorem isVBlocking_meets_every_slice_witness:
  "isVBlocking (SCPQuorumSet 2 [[1], [2], [3]] []) [[1], [2]] \<and>
   \<not> isQuorumSlice (SCPQuorumSet 2 [[1], [2], [3]] []) [[3]]"
proof -
  let ?q = "SCPQuorumSet 2 [[1], [2], [3]] []"
  have "qset_ok ?q" by simp
  moreover have b: "isVBlocking ?q [[1], [2]]" by (simp add: isVBlocking_def signed_take_bit_rec)
  ultimately have "isQuorumSlice ?q [[3]] \<longrightarrow> set [[3 :: uint8]] \<inter> set [[1], [2]] \<noteq> {}"
    using isVBlocking_meets_every_slice [of ?q "[[1], [2]]"] by blast
  with b show ?thesis by simp
qed

section \<open>Quorums\<close>

text \<open>A quorum holds a slice of each of its members.\<close>

definition is_quorum :: "('n \<Rightarrow> 'n set \<Rightarrow> bool) \<Rightarrow> 'n set \<Rightarrow> bool" where
  "is_quorum has_slice Q \<longleftrightarrow> (\<forall>n \<in> Q. has_slice n Q)"

text \<open>What federated agreement needs of the slices: a larger set holds a slice whenever a
  smaller one does.\<close>

locale fba_system =
  fixes has_slice :: "'n \<Rightarrow> 'n set \<Rightarrow> bool"
  assumes slice_mono: "has_slice n S \<Longrightarrow> S \<subseteq> T \<Longrightarrow> has_slice n T"
begin

lemma quorum_Union: "(\<And>Q. Q \<in> \<Q> \<Longrightarrow> is_quorum has_slice Q) \<Longrightarrow> is_quorum has_slice (\<Union>\<Q>)"
  unfolding is_quorum_def by (meson UnionE Union_upper slice_mono)

text \<open>Dropping the members without a slice keeps every quorum.\<close>

lemma quorum_survives:
  assumes "is_quorum has_slice Q" and "Q \<subseteq> V"
  shows "Q \<subseteq> {n \<in> V. has_slice n V}"
  using assms slice_mono unfolding is_quorum_def by blast

text \<open>A set of which nothing is dropped is the greatest quorum it contains.\<close>

lemma quorum_stable:
  assumes "{n \<in> V. has_slice n V} = V"
  shows "is_quorum has_slice V"
  using assms unfolding is_quorum_def by blast

end

definition node_slice ::
  "envelopes \<Rightarrow> (SCPStatement \<Rightarrow> SCPQuorumSet option) \<Rightarrow> NodeID \<Rightarrow> NodeID set \<Rightarrow> bool" where
  "node_slice envs qfun n S \<longleftrightarrow>
     (\<exists>e q. map_of envs n = Some e \<and> qfun (statement e) = Some q \<and> sat q S)"

interpretation env_quorums: fba_system "node_slice envs qfun" for envs qfun
  by unfold_locales (auto simp: node_slice_def intro: sat_mono)

text \<open>The loop computes the greatest quorum of the nodes it starts from.\<close>

lemma quorumLoop_greatest:
  assumes "\<And>n ns. qf n ns \<longleftrightarrow> node_slice envs qfun n (set ns)"
  shows "is_quorum (node_slice envs qfun) (set (quorumLoop qf p)) \<and>
    set (quorumLoop qf p) \<subseteq> set p \<and>
    (\<forall>Q. is_quorum (node_slice envs qfun) Q \<longrightarrow> Q \<subseteq> set p \<longrightarrow> Q \<subseteq> set (quorumLoop qf p))"
  using assms
proof (induction qf p rule: quorumLoop.induct)
  case (1 qf p)
  let ?f = "filter (\<lambda>n. qf n p) p"
  have step: "set ?f = {n \<in> set p. node_slice envs qfun n (set p)}"
    using "1.prems" by auto
  show ?case
  proof (cases "length ?f = length p")
    case True
    then have "?f = p" by (metis filter_id_conv length_filter_less nat_less_le)
    then have "quorumLoop qf p = p" by (simp add: quorumLoop.simps [of qf p])
    with step \<open>?f = p\<close> show ?thesis using env_quorums.quorum_stable [of "set p"] by simp
  next
    case False
    then have eq: "quorumLoop qf p = quorumLoop qf ?f" by (simp add: quorumLoop.simps [of qf p])
    have "Q \<subseteq> set ?f" if "is_quorum (node_slice envs qfun) Q" "Q \<subseteq> set p" for Q
      using env_quorums.quorum_survives [OF that] unfolding step .
    with "1.IH" [OF refl False "1.prems"] show ?thesis
      unfolding eq by (meson filter_is_subset order_trans)
  qed
qed

lemma quorumFilter_slice:
  assumes "\<And>e q. e \<in> snd ` set envs \<Longrightarrow> qfun (statement e) = Some q \<Longrightarrow> qset_small q"
  shows "quorumFilter envs qfun n ns \<longleftrightarrow> node_slice envs qfun n (set ns)"
  using assms isQuorumSlice_sat map_of_SomeD
  by (force simp: quorumFilter_def node_slice_def split: option.splits)

lemma isQuorum_slice:
  assumes "qset_small qSet"
    and "\<And>e q. e \<in> snd ` set envs \<Longrightarrow> qfun (statement e) = Some q \<Longrightarrow> qset_small q"
  shows "isQuorum qSet envs qfun filt \<longleftrightarrow>
    (\<exists>Q \<subseteq> set (filterNodes envs filt). is_quorum (node_slice envs qfun) Q \<and> sat qSet Q)"
proof -
  let ?L = "quorumLoop (quorumFilter envs qfun) (filterNodes envs filt)"
  have "is_quorum (node_slice envs qfun) (set ?L) \<and> set ?L \<subseteq> set (filterNodes envs filt) \<and>
      (\<forall>Q. is_quorum (node_slice envs qfun) Q \<longrightarrow> Q \<subseteq> set (filterNodes envs filt) \<longrightarrow> Q \<subseteq> set ?L)"
    by (rule quorumLoop_greatest) (rule quorumFilter_slice [OF assms(2)])
  then show ?thesis
    unfolding isQuorum_def isQuorumSlice_sat [OF assms(1)] using sat_mono by meson
qed

text \<open>C22: \<open>isQuorum\<close> decides federated voting: it answers true exactly when some quorum of the
  nodes whose latest statement passes the filter (each member has, by the quorum set of its
  own statement, a slice inside it) contains a slice of the local node.\<close>

theorem isQuorum_iff:
  assumes "qset_small qSet"
    and "\<And>e q. e \<in> snd ` set envs \<Longrightarrow> qfun (statement e) = Some q \<Longrightarrow> qset_small q"
  shows "isQuorum qSet envs qfun filt \<longleftrightarrow>
    (\<exists>Q \<subseteq> set (filterNodes envs filt). is_quorum (node_slice envs qfun) Q \<and> sat qSet Q)"
  using assms by (rule isQuorum_slice)

theorem isQuorum_iff_witness:
  "\<exists>Q \<subseteq> {[1], [2]}. sat (SCPQuorumSet 2 [[1], [2], [3]] []) Q \<and>
     is_quorum (node_slice
       (map (\<lambda>n. (n, \<lparr>statement = \<lparr>nodeID = n, slotIndex = 0,
          pledges = Externalize (SCPBallot 1 [7]) 1 []\<rparr>, signature = []\<rparr>)) [[1], [2]])
       (\<lambda>_. Some (SCPQuorumSet 2 [[1], [2], [3]] []))) Q"
proof -
  let ?q = "SCPQuorumSet 2 [[1], [2], [3]] []" and ?f = "\<lambda>_. Some (SCPQuorumSet 2 [[1], [2], [3]] [])"
  let ?envs = "map (\<lambda>n. (n, \<lparr>statement = \<lparr>nodeID = n, slotIndex = 0,
      pledges = Externalize (SCPBallot 1 [7]) 1 []\<rparr>, signature = []\<rparr>)) [[1], [2]]"
  have "quorumLoop (quorumFilter ?envs ?f) [[1], [2]] = [[1], [2]]"
    by (subst quorumLoop.simps) (simp add: quorumFilter_def isQuorumSlice_def)
  then have "isQuorum ?q ?envs ?f (\<lambda>_. True)"
    by (simp add: isQuorum_def filterNodes_def isQuorumSlice_def)
  moreover have "isQuorum ?q ?envs ?f (\<lambda>_. True) =
      (\<exists>Q \<subseteq> set (filterNodes ?envs (\<lambda>_. True)). is_quorum (node_slice ?envs ?f) Q \<and> sat ?q Q)"
    by (rule isQuorum_iff) auto
  ultimately obtain Q where Q: "Q \<subseteq> set (filterNodes ?envs (\<lambda>_. True))"
    "is_quorum (node_slice ?envs ?f) Q" "sat ?q Q" by blast
  have "set (filterNodes ?envs (\<lambda>_. True)) = {[1], [2]}" by (simp add: filterNodes_def)
  with Q(1) have "Q \<subseteq> {[1], [2]}" by (simp only:)
  with Q(2,3) show ?thesis by (intro exI [of _ Q] conjI)
qed

end
