(* ===== verification/Closest_VBlocking.thy ===== *)
theory Closest_VBlocking
  imports Local_Node "HOL-Library.Multiset"
begin

text \<open>
  What \<open>LocalNode::findClosestVBlocking\<close> computes: given the nodes that agree, a set of them
  whose failure blocks the local node. Used by the status reports of the ballot protocol.
\<close>

section \<open>The closest v-blocking set\<close>

lemma closestValidators_eq:
  "left \<noteq> 0 \<Longrightarrow> closestValidators vs ns ex left res =
    (if unat left \<le> length (filter (\<lambda>v. ex \<noteq> Some v \<and> v \<notin> set ns) vs) then None
     else Some (left - of_nat (length (filter (\<lambda>v. ex \<noteq> Some v \<and> v \<notin> set ns) vs)),
                res @ filter (\<lambda>v. ex \<noteq> Some v \<and> v \<in> set ns) vs))"
proof (induction vs ns ex left res rule: closestValidators.induct)
  case (1 ns ex left res)
  then show ?case by (simp add: unat_eq_0)
next
  case (2 v vs ns ex left res)
  then show ?case using unat_pred [of left] by (cases "left = 1") auto
qed

lemma mset_emplaceBySize: "mset (emplaceBySize v ws) = add_mset v (mset ws)"
  by (induction v ws rule: emplaceBySize.induct) auto

lemma closestInnerLoop_eq:
  "left \<noteq> 0 \<Longrightarrow>
    (let miss = length (filter (\<lambda>q. findClosestVBlocking q ns ex = []) qs) in
     if unat left \<le> miss then closestInnerLoop qs ns ex left acc = None
     else \<exists>vss. closestInnerLoop qs ns ex left acc = Some (left - of_nat miss, vss) \<and>
       mset vss = mset acc + mset (filter (\<lambda>v. v \<noteq> []) (map (\<lambda>q. findClosestVBlocking q ns ex) qs)))"
proof (induction qs arbitrary: left acc)
  case Nil
  then show ?case by (simp add: unat_eq_0)
next
  case (Cons q qs)
  show ?case
  proof (cases "findClosestVBlocking q ns ex = []")
    case True
    then show ?thesis
      using Cons.IH [of "left - 1" acc] Cons.prems unat_pred [of left]
      by (cases "left = 1") auto
  next
    case False
    then show ?thesis
      using Cons.IH [of left "emplaceBySize (findClosestVBlocking q ns ex) acc"] Cons.prems
      by (auto simp: Let_def mset_emplaceBySize)
  qed
qed

lemma takeSubsets_eq: "takeSubsets left vss res = res @ concat (take (unat left) vss)"
proof (induction left vss res rule: takeSubsets.induct)
  case (2 left v vs res)
  then show ?case using unat_pred [of left] by (cases "left = 0") auto
qed simp


text \<open>How many entries of a quorum set stay satisfied when the chosen nodes fail.\<close>

lemma length_filter_avoid:
  assumes "filter P xs = ys @ zs" and "set ys \<inter> A = {}"
  shows "length (filter (\<lambda>x. P x \<and> x \<in> A) xs) \<le> length zs"
proof -
  have "filter (\<lambda>x. P x \<and> x \<in> A) xs = filter (\<lambda>x. x \<in> A) (filter P xs)" by (simp add: conj_commute)
  also have "\<dots> = filter (\<lambda>x. x \<in> A) zs"
    unfolding assms(1) using assms(2) by (auto simp: filter_empty_conv)
  finally show ?thesis by simp
qed

lemma length_filter_taken:
  assumes "mset vss = mset (filter P (map f qs))"
  shows "length (filter (\<lambda>q. P (f q) \<and> f q \<notin> set (take n vss)) qs) \<le> length vss - n"
proof -
  have "length (filter (\<lambda>q. P (f q) \<and> f q \<notin> set (take n vss)) qs) =
      length (filter (\<lambda>v. v \<notin> set (take n vss)) (filter P (map f qs)))"
    by (simp add: filter_map comp_def conj_commute)
  also have "\<dots> = length (filter (\<lambda>v. v \<notin> set (take n vss)) vss)"
    using assms by (metis mset_filter size_mset)
  also have "\<dots> = length (filter (\<lambda>v. v \<notin> set (take n vss)) (take n vss @ drop n vss))" by simp
  also have "\<dots> = length (filter (\<lambda>v. v \<notin> set (take n vss)) (drop n vss))"
    unfolding filter_append by (simp add: filter_empty_conv del: append_take_drop_id)
  also have "\<dots> \<le> length vss - n"
    using length_filter_le [of "\<lambda>v. v \<notin> set (take n vss)" "drop n vss"] by simp
  finally show ?thesis .
qed


text \<open>The state of the search after its two loops: the number of entries still to block, the
  validators that agree, and the answers of the inner sets that hold a slice.\<close>

lemma findClosestVBlocking_cases:
  fixes ns :: "NodeID list" and ex :: "NodeID option"
  assumes "qset_ok (SCPQuorumSet t vs qs)"
  defines "k \<equiv> length (filter (\<lambda>v. ex \<noteq> Some v \<and> v \<in> set ns) vs)"
    and "x \<equiv> length (filter (\<lambda>v. ex = Some v) vs)"
    and "m \<equiv> length (filter (\<lambda>q. findClosestVBlocking q ns ex \<noteq> []) qs)"
  shows "if k + x + m < unat t then findClosestVBlocking (SCPQuorumSet t vs qs) ns ex = []
    else \<exists>vss. mset vss = mset (filter (\<lambda>v. v \<noteq> []) (map (\<lambda>q. findClosestVBlocking q ns ex) qs)) \<and>
      findClosestVBlocking (SCPQuorumSet t vs qs) ns ex =
        take (Suc (k + x + m) - unat t) (filter (\<lambda>v. ex \<noteq> Some v \<and> v \<in> set ns) vs) @
        concat (take (Suc (k + x + m) - unat t - k) vss)"
proof -
  let ?left = "1 + of_nat (length vs) + of_nat (length qs) - ucast t :: uint64"
  let ?miss = "length vs - (k + x)" and ?miss' = "length qs - m"
  have t: "0 < unat t" "unat t \<le> length vs + length qs" "length vs + length qs < 2147483648"
    using assms(1) by simp_all
  have "length (filter (\<lambda>v. ex \<noteq> Some v \<and> v \<notin> set ns) vs) + (k + x) = length vs"
    unfolding k_def x_def by (induction vs) auto
  then have kx: "length (filter (\<lambda>v. ex \<noteq> Some v \<and> v \<notin> set ns) vs) = ?miss" "k + x \<le> length vs" by simp_all
  have km: "m \<le> length qs" by (simp add: m_def)
  have "unat (of_nat (Suc (length vs + length qs)) :: uint64) = Suc (length vs + length qs)"
    using t by (simp add: unat_of_nat del: of_nat_Suc)
  then have "unat ?left = Suc (length vs + length qs) - unat t"
    using t unat_minus_of_nat [of "unat t" "of_nat (Suc (length vs + length qs)) :: uint64"]
    by (simp add: add.assoc)
  then have left: "?left \<noteq> 0" "unat ?left = Suc (length vs + length qs) - unat t"
    using t by (auto simp: unat_eq_0 [symmetric])
  have miss: "length (filter (\<lambda>q. findClosestVBlocking q ns ex = []) qs) = ?miss'"
    using length_filter_compl [of "\<lambda>q. findClosestVBlocking q ns ex \<noteq> []" qs] by (simp add: m_def)
  note V = closestValidators_eq [OF left(1), of vs ns ex "[]", unfolded kx(1)]
  show ?thesis
  proof (cases "unat ?left \<le> ?miss")
    case True
    then show ?thesis using V left(2) km kx(2) t by auto
  next
    case False
    let ?left2 = "?left - of_nat ?miss"
    have left2: "unat ?left2 = unat ?left - ?miss" "?left2 \<noteq> 0"
      using False unat_minus_of_nat [of ?miss ?left] by (auto simp: unat_eq_0 [symmetric])
    note I = closestInnerLoop_eq [OF left2(2), of ns ex qs "[]", unfolded miss Let_def]
    show ?thesis
    proof (cases "unat ?left2 \<le> ?miss'")
      case True
      then show ?thesis using V I False left2(1) left(2) km kx(2) t by auto
    next
      case F2: False
      let ?left3 = "?left2 - of_nat ?miss'"
      have L: "unat ?left3 = Suc (k + x + m) - unat t"
        using F2 unat_minus_of_nat [of ?miss' ?left2] left2(1) left(2) km kx(2) t by simp
      obtain vss where loop: "closestInnerLoop qs ns ex ?left2 [] = Some (?left3, vss)"
        and vss: "mset vss = mset (filter (\<lambda>v. v \<noteq> []) (map (\<lambda>q. findClosestVBlocking q ns ex) qs))"
        using I F2 by auto
      let ?res = "filter (\<lambda>v. ex \<noteq> Some v \<and> v \<in> set ns) vs"
      let ?res' = "take (unat ?left3) ?res"
      have "length ?res' \<le> unat ?left3" "unat ?left3 - length ?res' = unat ?left3 - k"
        by (simp_all add: k_def)
      then have "unat (?left3 - of_nat (length ?res')) = unat ?left3 - k"
        by (simp only: unat_minus_of_nat)
      moreover have "(if length ?res > unat ?left3 then ?res' else ?res) = ?res'" by simp
      ultimately have "findClosestVBlocking (SCPQuorumSet t vs qs) ns ex =
          ?res' @ concat (take (unat ?left3 - k) vss)"
        using V False loop by (simp add: takeSubsets_eq Let_def del: take_all_iff)
      moreover have "\<not> k + x + m < unat t" using F2 left2(1) left(2) km kx(2) t by auto
      ultimately show ?thesis using vss L by auto
    qed
  qed
qed


text \<open>The nodes that are chosen agree and are not excluded; when they fail, and the excluded node does, the
  others hold no slice. Without an excluded node they are chosen exactly if there is a slice to block.\<close>

lemma findClosestVBlocking_blocks:
  "qset_ok q \<Longrightarrow> set (findClosestVBlocking q ns ex) \<subseteq> set ns - set_option ex \<and>
     \<not> sat q (set ns - set_option ex - set (findClosestVBlocking q ns ex)) \<and>
     (ex = None \<longrightarrow> findClosestVBlocking q ns ex = [] \<longrightarrow> \<not> sat q (set ns)) \<and>
     (ex = None \<longrightarrow> \<not> sat q (set ns) \<longrightarrow> findClosestVBlocking q ns ex = [])"
proof (induction q)
  case (SCPQuorumSet t vs qs)
  let ?N = "set ns - set_option ex"
  let ?find = "\<lambda>q. findClosestVBlocking q ns ex"
  let ?agree = "filter (\<lambda>v. ex \<noteq> Some v \<and> v \<in> set ns) vs"
  let ?k = "length ?agree" and ?m = "length (filter (\<lambda>q. ?find q \<noteq> []) qs)"
    and ?x = "length (filter (\<lambda>v. ex = Some v) vs)"
  have IH: "set (?find q) \<subseteq> ?N" "\<not> sat q (?N - set (?find q))"
    "ex = None \<Longrightarrow> ?find q = [] \<longleftrightarrow> \<not> sat q (set ns)" if "q \<in> set qs" for q
  proof -
    have "qset_ok q" using SCPQuorumSet.prems that by (simp add: list_all_iff)
    note SCPQuorumSet.IH [OF that this]
    then show "set (?find q) \<subseteq> ?N" "\<not> sat q (?N - set (?find q))"
      "ex = None \<Longrightarrow> ?find q = [] \<longleftrightarrow> \<not> sat q (set ns)" by blast+
  qed
  have t: "0 < unat t" using SCPQuorumSet.prems by simp
  let ?r = "?find (SCPQuorumSet t vs qs)" and ?A = "?N - set (?find (SCPQuorumSet t vs qs))"
  have found: "?find q \<noteq> []" if "q \<in> set qs" "sat q S" "S \<subseteq> ?N" for q S
    using IH(2) [OF that(1)] sat_mono [OF that(2,3)] by auto
  have full: "sat (SCPQuorumSet t vs qs) (set ns) \<longleftrightarrow> unat t \<le> ?k + ?m" if "ex = None"
  proof -
    have "filter (\<lambda>q. sat q (set ns)) qs = filter (\<lambda>q. ?find q \<noteq> []) qs"
      using IH(3) [OF _ that] by (intro filter_cong) auto
    then show ?thesis using t that by simp
  qed
  have x: "?x = 0" if "ex = None" using that by simp
  show ?case
  proof (cases "?k + ?x + ?m < unat t")
    case True
    then have r: "?r = []"
      using findClosestVBlocking_cases [OF SCPQuorumSet.prems, of ex ns] by simp
    have "length (filter (\<lambda>v. v \<in> ?N) vs) \<le> ?k" by (intro length_filter_mono) auto
    moreover have "length (filter (\<lambda>q. sat q ?N) qs) \<le> ?m" by (intro length_filter_mono found) auto
    ultimately have "\<not> sat (SCPQuorumSet t vs qs) ?N" using True by simp
    moreover have "\<not> sat (SCPQuorumSet t vs qs) (set ns)" if "ex = None"
      using True full [OF that] by linarith
    ultimately show ?thesis unfolding r by simp
  next
    case False
    define L where "L = Suc (?k + ?x + ?m) - unat t"
    obtain vss where vss: "mset vss = mset (filter (\<lambda>v. v \<noteq> []) (map ?find qs))"
      and r: "?r = take L ?agree @ concat (take (L - ?k) vss)"
      using findClosestVBlocking_cases [OF SCPQuorumSet.prems, of ex ns] False by (auto simp: L_def)
    have len: "length vss = ?m"
      using mset_eq_length [OF vss] by (simp add: filter_map comp_def)
    have elem: "v \<noteq> [] \<and> set v \<subseteq> ?N" if "v \<in> set vss" for v
      using that IH(1) mset_eq_setD [OF vss] by auto
    have "?r \<noteq> []" if "ex = None"
    proof (cases "?k = 0")
      case True
      then have "0 < L" "0 < ?m" using False t x [OF that] unfolding L_def by linarith+
      moreover obtain v ws where v: "vss = v # ws" using len \<open>0 < ?m\<close> by (cases vss) simp_all
      moreover obtain n where "L - ?k = Suc n" using \<open>0 < L\<close> True by (metis diff_zero gr0_conv_Suc)
      moreover have "v \<noteq> []" using elem [of v] v by simp
      ultimately show ?thesis unfolding r by simp
    next
      case nonempty: False
      then show ?thesis unfolding r using False by (simp add: L_def)
    qed
    moreover have "set ?r \<subseteq> ?N"
      unfolding r using elem by (auto dest!: in_set_takeD)
    moreover have "\<not> sat (SCPQuorumSet t vs qs) ?A"
    proof -
      let ?taken = "take (L - ?k) vss"
      have "length (filter (\<lambda>v. (ex \<noteq> Some v \<and> v \<in> set ns) \<and> v \<in> ?A) vs) \<le> length (drop L ?agree)"
      proof (rule length_filter_avoid)
        show "?agree = take L ?agree @ drop L ?agree" by simp
        show "set (take L ?agree) \<inter> ?A = {}" unfolding r by auto
      qed
      moreover have "filter (\<lambda>v. (ex \<noteq> Some v \<and> v \<in> set ns) \<and> v \<in> ?A) vs = filter (\<lambda>v. v \<in> ?A) vs"
        by (intro filter_cong) auto
      ultimately have vs: "length (filter (\<lambda>v. v \<in> ?A) vs) \<le> ?k - L" by simp
      have "?find q \<noteq> [] \<and> ?find q \<notin> set ?taken" if q: "q \<in> set qs" and s: "sat q ?A" for q
      proof
        show "?find q \<noteq> []" by (rule found [OF q s]) auto
        show "?find q \<notin> set ?taken"
        proof
          assume "?find q \<in> set ?taken"
          then have "?A \<subseteq> ?N - set (?find q)" unfolding r by auto
          with IH(2) [OF q] sat_mono [OF s] show False by blast
        qed
      qed
      then have "length (filter (\<lambda>q. sat q ?A) qs) \<le>
          length (filter (\<lambda>q. ?find q \<noteq> [] \<and> ?find q \<notin> set ?taken) qs)"
        by (intro length_filter_mono) blast
      also have "\<dots> \<le> ?m - (L - ?k)"
        using length_filter_taken [OF vss, of "L - ?k"] len by simp
      finally have "length (filter (\<lambda>q. sat q ?A) qs) \<le> ?m - (L - ?k)" .
      with vs False t show ?thesis by (simp add: L_def)
    qed
    moreover have "sat (SCPQuorumSet t vs qs) (set ns)" if "ex = None"
      using False full [OF that] x [OF that] by linarith
    ultimately show ?thesis by blast
  qed
qed


text \<open>C23: On a well-formed quorum set, \<open>findClosestVBlocking\<close> answers with nodes that agree, without the
  excluded one. If all of them fail and the excluded node fails with them, the nodes that remain hold no
  slice; with no node excluded the answer itself blocks, and it is empty exactly when the agreeing nodes
  hold no slice already.\<close>

theorem findClosestVBlocking_correct:
  assumes "qset_ok q"
  shows "set (findClosestVBlocking q ns excluded) \<subseteq> set ns - set_option excluded \<and>
    \<not> isQuorumSlice q (filter (\<lambda>n. excluded \<noteq> Some n \<and> n \<notin> set (findClosestVBlocking q ns excluded)) ns) \<and>
    (excluded = None \<longrightarrow> (findClosestVBlocking q ns excluded = [] \<longleftrightarrow> \<not> isQuorumSlice q ns))"
proof -
  let ?r = "findClosestVBlocking q ns excluded"
  have "set (filter (\<lambda>n. excluded \<noteq> Some n \<and> n \<notin> set ?r) ns) = set ns - set_option excluded - set ?r"
    by (cases excluded) auto
  with findClosestVBlocking_blocks [OF assms, of ns excluded] show ?thesis
    by (simp only: isQuorumSlice_sat [OF qset_ok_small [OF assms]]) blast
qed

theorem findClosestVBlocking_correct_witness:
  "findClosestVBlocking (SCPQuorumSet 2 [[1], [2], [3]] []) [[1], [2], [3]] None = [[1], [2]] \<and>
   \<not> isQuorumSlice (SCPQuorumSet 2 [[1], [2], [3]] []) [[3]]"
proof -
  let ?q = "SCPQuorumSet 2 [[1], [2], [3]] []"
  have "qset_ok ?q" by simp
  moreover have "findClosestVBlocking ?q [[1], [2], [3]] None = [[1], [2]]" by simp
  ultimately show ?thesis using findClosestVBlocking_correct [of ?q "[[1], [2], [3]]" None] by simp
qed

text \<open>An excluded node can hold a slice with none of the answer: the answer alone need not block.\<close>

lemma excluded_node_can_be_a_slice:
  "findClosestVBlocking (SCPQuorumSet 1 [[1], [2]] []) [[1], [2]] (Some [1]) = [[2]]"
  "isQuorumSlice (SCPQuorumSet 1 [[1], [2]] []) [[1]]"
  by code_simp+

end
