(* ===== verification/Offer_Exchange.thy ===== *)
theory Offer_Exchange
  imports Util_Types
begin

text \<open>
  \<open>src/transactions/OfferExchange.cpp\<close>: how much wheat and sheep change hands when an
  offer is crossed, in the two versions of the computation (ledger versions below 3, and
  from 3 on). Amounts are \<open>int64_t\<close>, prices positive 32-bit fractions.
\<close>

section \<open>The code\<close>

datatype ExchangeResultType = NORMAL | REDUCED_TO_ZERO | BOGUS

record ExchangeResult =
  numWheatReceived :: int
  numSheepSend :: int
  reduced :: bool

definition exchangeResultType :: "ExchangeResult \<Rightarrow> ExchangeResultType" where
  "exchangeResultType r =
     (if numWheatReceived r \<noteq> 0 \<and> numSheepSend r \<noteq> 0 then NORMAL
      else if reduced r then REDUCED_TO_ZERO else BOGUS)"

definition exchangeV2 :: "int \<Rightarrow> Price \<Rightarrow> int \<Rightarrow> int \<Rightarrow> ExchangeResult result" where
  "exchangeV2 wheatReceived price maxWheatReceive maxSheepSend =
     (let red = wheatReceived > maxWheatReceive;
          wheatReceived = min wheatReceived maxWheatReceive in
      bindE (bigDivide_i64 0 wheatReceived (price_n price) (price_d price) ROUND_DOWN) (\<lambda>(sheep, ok).
        let sheep = (if ok then sheep else INT64_MAX);
            red = (red \<or> sheep > maxSheepSend);
            sheep = min sheep maxSheepSend in
        bindE (bigDivide sheep (price_d price) (price_n price) ROUND_DOWN) (\<lambda>wheat.
          Inr \<lparr>numWheatReceived = wheat, numSheepSend = sheep, reduced = red\<rparr>)))"

definition exchangeV3 :: "int \<Rightarrow> Price \<Rightarrow> int \<Rightarrow> int \<Rightarrow> ExchangeResult result" where
  "exchangeV3 wheatReceived price maxWheatReceive maxSheepSend =
     (let red = wheatReceived > maxWheatReceive;
          wheat = min wheatReceived maxWheatReceive in
      bindE (bigDivide_i64 0 wheat (price_n price) (price_d price) ROUND_UP) (\<lambda>(sheep, ok).
        let red = (red \<or> \<not> ok);
            sheep = (if ok then sheep else INT64_MAX);
            red = (red \<or> sheep > maxSheepSend);
            sheep = min sheep maxSheepSend in
        bindE (bigDivide_i64 0 sheep (price_d price) (price_n price) ROUND_DOWN)
          (\<lambda>(newWheatReceived, ok).
            let newWheatReceived = (if ok then newWheatReceived else INT64_MAX) in
            Inr \<lparr>numWheatReceived = min wheat newWheatReceived, numSheepSend = sheep,
                 reduced = red\<rparr>)))"

section \<open>What changes hands\<close>

text \<open>The sheep a given amount of wheat costs before the buyer's limit.\<close>

definition sheep_for :: "int \<Rightarrow> Price \<Rightarrow> Rounding \<Rightarrow> int" where
  "sheep_for wheat price r = min INT64_MAX (muldiv wheat (price_n price) (price_d price) r)"

definition wheat_for :: "int \<Rightarrow> Price \<Rightarrow> int" where
  "wheat_for sheep price = muldiv sheep (price_d price) (price_n price) ROUND_DOWN"

definition amount :: "int \<Rightarrow> bool" where
  "amount x \<longleftrightarrow> 0 \<le> x \<and> x \<le> INT64_MAX"

lemma amount_min [simp]: "amount x \<Longrightarrow> amount y \<Longrightarrow> amount (min x y)"
  by (auto simp: amount_def min_def)

lemma price_amounts:
  assumes "price_valid p"
  shows "0 < price_n p" "price_n p \<le> INT64_MAX" "0 < price_d p" "price_d p \<le> INT64_MAX"
  using assms by (simp_all add: price_valid_def INT64_MAX_def)

lemma bigDivide_capped:
  assumes "amount a" and "0 \<le> b" "b \<le> INT64_MAX" and "0 < c" "c \<le> INT64_MAX"
  obtains x ok where "bigDivide_i64 old a b c r = Inr (x, ok)"
    and "ok \<longleftrightarrow> muldiv a b c r \<le> INT64_MAX"
    and "(if ok then x else INT64_MAX) = min INT64_MAX (muldiv a b c r)"
proof (cases "muldiv a b c r \<le> INT64_MAX")
  case True
  then show ?thesis
    using assms by (intro that [of "muldiv a b c r" True]) (auto simp: bigDivide_i64_ok amount_def)
next
  case False
  then obtain res where "bigDivide_i64 old a b c r = Inr (res, False)"
    using bigDivide_i64_overflow [of a b c r old] assms by (auto simp: amount_def)
  with False show ?thesis by (intro that [of res False]) auto
qed

text \<open>Wheat bought with at most the sheep that some wheat costs is at most that wheat.\<close>

lemma wheat_for_le:
  assumes "price_valid p" and "sheep \<le> sheep_for wheat p ROUND_DOWN"
  shows "wheat_for sheep p \<le> wheat"
proof -
  note p = price_amounts [OF assms(1)]
  have "sheep * price_d p \<le> muldiv wheat (price_n p) (price_d p) ROUND_DOWN * price_d p"
    using assms(2) p(3) by (intro mult_right_mono) (auto simp: sheep_for_def)
  also have "\<dots> \<le> wheat * price_n p" using p(3) by (rule muldiv_down_le)
  finally have "wheat_for sheep p * price_n p \<le> wheat * price_n p"
    using muldiv_down_le [OF p(1), of sheep "price_d p"] by (simp add: wheat_for_def)
  then show ?thesis using p(1) by simp
qed

lemma sheep_for_amount: "amount w \<Longrightarrow> price_valid p \<Longrightarrow> amount (sheep_for w p r)"
  using price_amounts [of p] muldiv_nonneg [of w "price_n p" "price_d p" r]
  by (auto simp: sheep_for_def amount_def INT64_MAX_def)

lemma wheat_for_nonneg: "0 \<le> s \<Longrightarrow> price_valid p \<Longrightarrow> 0 \<le> wheat_for s p"
  using price_amounts [of p] by (simp add: wheat_for_def muldiv_nonneg)

lemma exchangeV2_eq:
  fixes p :: Price and w maxW maxS :: int
  assumes "price_valid p" and "amount w" and "amount maxW" and "amount maxS"
  defines "s \<equiv> min (sheep_for (min w maxW) p ROUND_DOWN) maxS"
  shows "exchangeV2 w p maxW maxS =
    Inr \<lparr>numWheatReceived = wheat_for s p, numSheepSend = s,
         reduced = (w > maxW \<or> sheep_for (min w maxW) p ROUND_DOWN > maxS)\<rparr>"
proof -
  note p = price_amounts [OF assms(1)]
  have s: "amount s" unfolding s_def by (intro amount_min sheep_for_amount assms(1-4))
  have "wheat_for s p \<le> min w maxW" by (rule wheat_for_le [OF assms(1)]) (simp add: s_def)
  then have fits: "wheat_for s p \<le> INT64_MAX" using assms(2) by (simp add: amount_def)
  have wheat: "bigDivide s (price_d p) (price_n p) ROUND_DOWN = Inr (wheat_for s p)"
    using p fits s by (simp add: bigDivide_def bigDivide_i64_ok wheat_for_def amount_def)
  obtain x ok where x:
    "bigDivide_i64 0 (min w maxW) (price_n p) (price_d p) ROUND_DOWN = Inr (x, ok)"
    "(if ok then x else INT64_MAX) = sheep_for (min w maxW) p ROUND_DOWN"
    using bigDivide_capped [of "min w maxW" "price_n p" "price_d p" 0 ROUND_DOWN] p assms(2,3)
    unfolding sheep_for_def by (metis amount_min less_imp_le)
  show ?thesis
    unfolding exchangeV2_def Let_def x(1) bindE_simps prod.case x(2)
    by (simp add: wheat flip: s_def)
qed

lemma exchangeV3_eq:
  fixes p :: Price and w maxW maxS :: int
  assumes "price_valid p" and "amount w" and "amount maxW" and "amount maxS"
  defines "s \<equiv> min (sheep_for (min w maxW) p ROUND_UP) maxS"
  shows "exchangeV3 w p maxW maxS =
    Inr \<lparr>numWheatReceived = min (min w maxW) (wheat_for s p), numSheepSend = s,
         reduced = ((w > maxW \<or> \<not> muldiv (min w maxW) (price_n p) (price_d p) ROUND_UP \<le> INT64_MAX) \<or>
                    sheep_for (min w maxW) p ROUND_UP > maxS)\<rparr>"
proof -
  note p = price_amounts [OF assms(1)]
  have s: "amount s" unfolding s_def by (intro amount_min sheep_for_amount assms(1-4))
  have "min w maxW \<le> INT64_MAX" using assms(2) by (auto simp: amount_def)
  then have cap: "min (min w maxW) (min INT64_MAX x) = min (min w maxW) x" for x by linarith
  obtain x ok where x:
    "bigDivide_i64 0 (min w maxW) (price_n p) (price_d p) ROUND_UP = Inr (x, ok)"
    "ok = (muldiv (min w maxW) (price_n p) (price_d p) ROUND_UP \<le> INT64_MAX)"
    "(if ok then x else INT64_MAX) = sheep_for (min w maxW) p ROUND_UP"
    using bigDivide_capped [of "min w maxW" "price_n p" "price_d p" 0 ROUND_UP] p assms(2,3)
    unfolding sheep_for_def by (metis amount_min less_imp_le)
  obtain y ok' where y:
    "bigDivide_i64 0 s (price_d p) (price_n p) ROUND_DOWN = Inr (y, ok')"
    "(if ok' then y else INT64_MAX) = min INT64_MAX (wheat_for s p)"
    using bigDivide_capped [OF s, of "price_d p" "price_n p" 0 ROUND_DOWN] p
    unfolding wheat_for_def by (metis less_imp_le)
  show ?thesis
    unfolding exchangeV3_def Let_def x(1) bindE_simps prod.case x(3)
    by (simp add: y cap x(2) flip: s_def)
qed

text \<open>The seller is never short-changed: the sheep paid are at least the price of the wheat.\<close>

lemma wheat_for_price: "price_valid p \<Longrightarrow> wheat_for s p * price_n p \<le> s * price_d p"
  using price_amounts [of p] muldiv_down_le [of "price_n p" s "price_d p"] by (simp add: wheat_for_def)

text \<open>On a valid price and amounts the first version of the exchange always returns (its
  second division cannot overflow), takes at most the sheep the buyer offers, gives at most
  the wheat the buyer wants and the seller has, and never sells below the price.\<close>

lemma exchangeV2_fair:
  assumes "price_valid p" and "amount w" and "amount maxW" and "amount maxS"
  shows "\<exists>r. exchangeV2 w p maxW maxS = Inr r \<and>
    0 \<le> numSheepSend r \<and> numSheepSend r \<le> maxS \<and>
    0 \<le> numWheatReceived r \<and> numWheatReceived r \<le> min w maxW \<and>
    numWheatReceived r * price_n p \<le> numSheepSend r * price_d p"
proof -
  define s where "s = min (sheep_for (min w maxW) p ROUND_DOWN) maxS"
  have "amount s" unfolding s_def by (intro amount_min sheep_for_amount assms)
  then have "0 \<le> s" by (simp only: amount_def)
  moreover have "s \<le> maxS" by (simp add: s_def)
  moreover have "wheat_for s p \<le> min w maxW"
    by (rule wheat_for_le [OF assms(1)]) (simp add: s_def)
  ultimately show ?thesis
    using wheat_for_nonneg [OF _ assms(1)] wheat_for_price [OF assms(1), of s]
    by (simp add: exchangeV2_eq [OF assms] flip: s_def)
qed

lemma exchangeV2_fair_example:
  "exchangeV2 100 \<lparr>price_n = 3, price_d = 2\<rparr> 50 61 =
     Inr \<lparr>numWheatReceived = 40, numSheepSend = 61, reduced = True\<rparr> \<and>
   (40::int) * 3 \<le> 61 * 2"
proof -
  have e: "exchangeV2 100 \<lparr>price_n = 3, price_d = 2\<rparr> 50 61 =
     Inr \<lparr>numWheatReceived = 40, numSheepSend = 61, reduced = True\<rparr>"
    by (subst exchangeV2_eq)
      (simp_all add: price_valid_def amount_def sheep_for_def wheat_for_def muldiv_def INT64_MAX_def)
  have "\<exists>r. exchangeV2 100 \<lparr>price_n = 3, price_d = 2\<rparr> 50 61 = Inr r \<and>
    0 \<le> numSheepSend r \<and> numSheepSend r \<le> 61 \<and>
    0 \<le> numWheatReceived r \<and> numWheatReceived r \<le> min 100 50 \<and>
    numWheatReceived r * price_n \<lparr>price_n = 3, price_d = 2\<rparr> \<le>
      numSheepSend r * price_d \<lparr>price_n = 3, price_d = 2\<rparr>"
    by (rule exchangeV2_fair) (simp_all add: price_valid_def amount_def INT64_MAX_def)
  then show ?thesis by (auto simp: e)
qed

text \<open>C37: the second version keeps the same limits and never sells below the price, and when it
  reports no reduction it delivers all the wheat asked for, for the least number of sheep
  that pays its price.\<close>

theorem exchangeV3_fair:
  assumes "price_valid p" and "amount w" and "amount maxW" and "amount maxS"
  shows "\<exists>r. exchangeV3 w p maxW maxS = Inr r \<and>
    0 \<le> numSheepSend r \<and> numSheepSend r \<le> maxS \<and>
    0 \<le> numWheatReceived r \<and> numWheatReceived r \<le> min w maxW \<and>
    numWheatReceived r * price_n p \<le> numSheepSend r * price_d p \<and>
    (\<not> reduced r \<longrightarrow> numWheatReceived r = w \<and>
       (\<forall>sheep. w * price_n p \<le> sheep * price_d p \<longrightarrow> numSheepSend r \<le> sheep))"
proof -
  note p = price_amounts [OF assms(1)]
  define s where "s = min (sheep_for (min w maxW) p ROUND_UP) maxS"
  define w' where "w' = min (min w maxW) (wheat_for s p)"
  have "amount s" unfolding s_def by (intro amount_min sheep_for_amount assms)
  then have s: "0 \<le> s" "s \<le> maxS" by (simp_all only: amount_def s_def min.cobounded2)
  have w: "0 \<le> w'" "w' \<le> min w maxW"
    using wheat_for_nonneg [OF s(1) assms(1)] assms(2,3) by (auto simp: amount_def w'_def)
  have price: "w' * price_n p \<le> s * price_d p"
    using p(1) wheat_for_price [OF assms(1), of s]
    by (meson min.cobounded2 mult_right_mono less_imp_le order_trans w'_def [THEN eq_refl])
  have exact: "w' = w \<and> (\<forall>sheep. w * price_n p \<le> sheep * price_d p \<longrightarrow> s \<le> sheep)"
    if "w \<le> maxW" "muldiv (min w maxW) (price_n p) (price_d p) ROUND_UP \<le> INT64_MAX"
      "sheep_for (min w maxW) p ROUND_UP \<le> maxS"
  proof -
    have m: "min w maxW = w" using that(1) by simp
    have e: "s = muldiv w (price_n p) (price_d p) ROUND_UP"
      using that(2,3) unfolding m by (simp add: sheep_for_def s_def m)
    have "w \<le> wheat_for s p"
      unfolding wheat_for_def by (rule muldiv_down_greatest [OF p(1)]) (simp only: e muldiv_up_ge [OF p(3)])
    then have "w' = w" unfolding m w'_def by simp
    then show ?thesis unfolding e using muldiv_up_least [OF p(3)] by blast
  qed
  have "exchangeV3 w p maxW maxS = Inr \<lparr>numWheatReceived = w', numSheepSend = s,
      reduced = ((w > maxW \<or> \<not> muldiv (min w maxW) (price_n p) (price_d p) ROUND_UP \<le> INT64_MAX) \<or>
                 sheep_for (min w maxW) p ROUND_UP > maxS)\<rparr>"
    unfolding w'_def s_def by (rule exchangeV3_eq [OF assms])
  then show ?thesis using s w price exact by (auto simp: not_less min_absorb1)
qed

theorem exchangeV3_fair_witness:
  "exchangeV3 41 \<lparr>price_n = 3, price_d = 2\<rparr> 50 70 =
     Inr \<lparr>numWheatReceived = 41, numSheepSend = 62, reduced = False\<rparr> \<and>
   (41::int) * 3 \<le> 62 * 2"
proof -
  have e: "exchangeV3 41 \<lparr>price_n = 3, price_d = 2\<rparr> 50 70 =
     Inr \<lparr>numWheatReceived = 41, numSheepSend = 62, reduced = False\<rparr>"
    by (subst exchangeV3_eq)
      (simp_all add: price_valid_def amount_def sheep_for_def wheat_for_def muldiv_def INT64_MAX_def)
  let ?p = "\<lparr>price_n = 3, price_d = 2\<rparr>"
  have "\<exists>r. exchangeV3 41 ?p 50 70 = Inr r \<and>
    0 \<le> numSheepSend r \<and> numSheepSend r \<le> 70 \<and>
    0 \<le> numWheatReceived r \<and> numWheatReceived r \<le> min 41 50 \<and>
    numWheatReceived r * price_n ?p \<le> numSheepSend r * price_d ?p \<and>
    (\<not> reduced r \<longrightarrow> numWheatReceived r = 41 \<and>
       (\<forall>sheep. 41 * price_n ?p \<le> sheep * price_d ?p \<longrightarrow> numSheepSend r \<le> sheep))"
    by (rule exchangeV3_fair) (simp_all add: price_valid_def amount_def INT64_MAX_def)
  then show ?thesis by (auto simp: e)
qed

end
