(* ===== verification/Quorum_Set_Utils.thy ===== *)
theory Quorum_Set_Utils
  imports Local_Node "HOL-Library.Multiset"
begin

text \<open>
  \<open>src/scp/QuorumSetUtils.cpp\<close>: the sanity check every received quorum set passes and the
  simplification the local node applies to its own. The check accepts exactly the quorum
  sets of bounded depth and size with reachable thresholds and no repeated node, which are
  well-formed for the counting of \<open>LocalNode\<close>; the simplification keeps the slices.
\<close>

section \<open>The code\<close>

text \<open>The checker's fields \<open>mKnownNodes\<close> and \<open>mCount\<close> are threaded; \<open>None\<close> is
  \<open>return false\<close>. \<open>vBlockingSize\<close> is read only where the threshold is at most the
  number of entries, so its subtraction does not wrap there.\<close>

fun insertKnownNodes :: "NodeID list \<Rightarrow> NodeID list \<Rightarrow> NodeID list option" where
  "insertKnownNodes [] known = Some known"
| "insertKnownNodes (n # ns) known =
     (if n \<in> set known then None else insertKnownNodes ns (insort_insert n known))"

fun checkSanity :: "bool \<Rightarrow> SCPQuorumSet \<Rightarrow> int \<Rightarrow> NodeID list \<times> nat \<Rightarrow> (NodeID list \<times> nat) option"
and checkSanityLoop ::
  "bool \<Rightarrow> SCPQuorumSet list \<Rightarrow> int \<Rightarrow> NodeID list \<times> nat \<Rightarrow> (NodeID list \<times> nat) option" where
  "checkSanity extraChecks (SCPQuorumSet t v i) depth (known, cnt) =
     (if depth > 2 then None
      else if t < 1 then None
      else
        let totEntries = length v + length i; vBlockingSize = totEntries - unat t + 1;
            cnt = cnt + length v in
        if unat t > totEntries then None
        else if extraChecks \<and> unat t < vBlockingSize then None
        else case insertKnownNodes v known of
               None \<Rightarrow> None
             | Some known \<Rightarrow> checkSanityLoop extraChecks i (depth + 1) (known, cnt))"
| "checkSanityLoop extraChecks [] depth st = Some st"
| "checkSanityLoop extraChecks (q # qs) depth st =
     (case checkSanity extraChecks q depth st of
        None \<Rightarrow> None
      | Some st \<Rightarrow> checkSanityLoop extraChecks qs depth st)"

definition isQuorumSetSane :: "SCPQuorumSet \<Rightarrow> bool \<Rightarrow> bool" where
  "isQuorumSetSane qSet extraChecks =
     (case checkSanity extraChecks qSet 0 ([], 0) of
        None \<Rightarrow> False
      | Some (_, cnt) \<Rightarrow> cnt \<ge> 1 \<and> cnt \<le> 1000)"

text \<open>\<open>normalizeQSet\<close> edits the validators and inner sets in place: the loop carries the
  validators, extended by the singletons met so far, and the inner sets kept so far.\<close>

fun normalizeQSet :: "SCPQuorumSet \<Rightarrow> SCPQuorumSet"
and normalizeLoop ::
  "SCPQuorumSet list \<Rightarrow> NodeID list \<Rightarrow> SCPQuorumSet list \<Rightarrow> NodeID list \<times> SCPQuorumSet list" where
  "normalizeQSet (SCPQuorumSet t v i) =
     (let (v, i) = normalizeLoop i v [] in
      if t = 1 \<and> length v = 0 \<and> length i = 1 then last i else SCPQuorumSet t v i)"
| "normalizeLoop [] v kept = (v, kept)"
| "normalizeLoop (q # qs) v kept =
     (let q = normalizeQSet q in
      if threshold q = 1 \<and> length (validators q) = 1 \<and> length (innerSets q) = 0
      then normalizeLoop qs (v @ [hd (validators q)]) kept
      else normalizeLoop qs v (kept @ [q]))"

section \<open>The sanity check\<close>

text \<open>What the check asks of the shape of a quorum set at a depth.\<close>

fun sane_shape :: "bool \<Rightarrow> SCPQuorumSet \<Rightarrow> int \<Rightarrow> bool" where
  "sane_shape extra (SCPQuorumSet t v i) depth \<longleftrightarrow>
     depth \<le> 2 \<and> 1 \<le> unat t \<and> unat t \<le> length v + length i \<and>
     (extra \<longrightarrow> length v + length i < 2 * unat t) \<and> list_all (\<lambda>q. sane_shape extra q (depth + 1)) i"

lemma insertKnownNodes_eq:
  "insertKnownNodes ns known =
    (if distinct ns \<and> set ns \<inter> set known = {} then Some (fold insort_insert ns known) else None)"
  by (induction ns known rule: insertKnownNodes.induct) (auto simp: set_insort_insert)

lemma word_less_one: "t < 1 \<longleftrightarrow> unat t = 0" for t :: uint32
  by (simp add: unat_eq_0 word_less_1)

abbreviation fresh :: "NodeID list \<Rightarrow> NodeID list \<Rightarrow> bool" where
  "fresh ns known \<equiv> distinct ns \<and> set ns \<inter> set known = {}"

lemma fresh_append:
  "fresh (xs @ ys) known \<longleftrightarrow> fresh xs known \<and> fresh ys (fold insort_insert xs known)"
  by (auto simp: container_simps)

lemma checkSanity_eq:
  "checkSanity extra q depth (known, cnt) =
    (if sane_shape extra q depth \<and> fresh (qset_nodes q) known
     then Some (fold insort_insert (qset_nodes q) known, cnt + length (qset_nodes q)) else None)"
  "checkSanityLoop extra qs depth (known, cnt) =
    (if list_all (\<lambda>q. sane_shape extra q depth) qs \<and> fresh (concat (map qset_nodes qs)) known
     then Some (fold insort_insert (concat (map qset_nodes qs)) known,
                cnt + length (concat (map qset_nodes qs))) else None)"
proof (induction extra q depth "(known, cnt)" and extra qs depth "(known, cnt)"
    arbitrary: known cnt and known cnt rule: checkSanity_checkSanityLoop.induct)
  case (1 extra t v i depth known cnt)
  let ?K = "fold insort_insert v known"
  let ?G = "fresh v known \<and> depth \<le> 2 \<and> unat t \<noteq> 0 \<and> unat t \<le> length v + length i \<and>
      (extra \<longrightarrow> length v + length i < 2 * unat t)"
  have extra: "unat t \<le> n \<Longrightarrow> (unat t < n - unat t + 1) = (\<not> n < 2 * unat t)" for n by auto
  show ?case
  proof (cases ?G)
    case True
    then have "checkSanityLoop extra i (depth + 1) (?K, cnt + length v) =
      (if list_all (\<lambda>q. sane_shape extra q (depth + 1)) i \<and> fresh (concat (map qset_nodes i)) ?K
       then Some (fold insort_insert (concat (map qset_nodes i)) ?K,
                  cnt + length v + length (concat (map qset_nodes i))) else None)"
      by (intro "1.hyps") (auto simp: insertKnownNodes_eq word_less_one)
    moreover have "checkSanity extra (SCPQuorumSet t v i) depth (known, cnt) =
        checkSanityLoop extra i (depth + 1) (?K, cnt + length v)"
      using True by (auto simp: insertKnownNodes_eq word_less_one Let_def)
    ultimately show ?thesis
      using True unfolding qset_nodes.simps fresh_append by simp
  next
    case False
    then have "checkSanity extra (SCPQuorumSet t v i) depth (known, cnt) = None"
      using extra [of "length v + length i"]
      by (auto simp: insertKnownNodes_eq word_less_one Let_def not_le unat_eq_0)
    with False show ?thesis unfolding qset_nodes.simps fresh_append by auto
  qed
next
  case (2 extra depth known cnt)
  then show ?case by simp
next
  case (3 extra q qs depth known cnt)
  let ?K = "fold insort_insert (qset_nodes q) known"
  let ?G = "sane_shape extra q depth \<and> fresh (qset_nodes q) known"
  show ?case
  proof (cases ?G)
    case True
    then have "checkSanityLoop extra qs depth (?K, cnt + length (qset_nodes q)) =
      (if list_all (\<lambda>q. sane_shape extra q depth) qs \<and> fresh (concat (map qset_nodes qs)) ?K
       then Some (fold insort_insert (concat (map qset_nodes qs)) ?K,
                  cnt + length (qset_nodes q) + length (concat (map qset_nodes qs))) else None)"
      by (intro "3.hyps") (simp_all add: "3.hyps")
    with True show ?thesis
      unfolding list.map concat.simps fresh_append by (simp add: "3.hyps")
  next
    case False
    then show ?thesis
      unfolding list.map concat.simps fresh_append by (auto simp: "3.hyps")
  qed
qed

text \<open>Every inner set of a sane quorum set has a node, so the entries are at most the nodes.\<close>

lemma sane_shape_nodes: "sane_shape extra q d \<Longrightarrow> 1 \<le> length (qset_nodes q)"
proof (induction extra q d rule: sane_shape.induct)
  case (1 extra t v i d)
  show ?case
  proof (cases "v = []")
    case True
    with "1.prems" obtain q where q: "q \<in> set i" by (cases i) auto
    with 1 have "1 \<le> length (qset_nodes q)" by (simp add: list_all_iff)
    with q show ?thesis by (auto simp: Suc_le_eq)
  qed (simp add: Suc_le_eq)
qed

lemma length_concat_ge:
  "(\<And>x. x \<in> set xs \<Longrightarrow> 1 \<le> length (f x)) \<Longrightarrow> length xs \<le> length (concat (map f xs))"
proof (induction xs)
  case (Cons x xs)
  then have "1 \<le> length (f x)" "length xs \<le> length (concat (map f xs))" by auto
  then show ?case by simp
qed simp

lemma length_in_concat: "x \<in> set xs \<Longrightarrow> length (f x) \<le> length (concat (map f xs))"
  by (induction xs) auto

lemma sane_shape_ok:
  "sane_shape extra q d \<Longrightarrow> length (qset_nodes q) < 2 ^ 31 \<Longrightarrow> qset_ok q"
proof (induction extra q d rule: sane_shape.induct)
  case (1 extra t v i d)
  have "length i \<le> length (concat (map qset_nodes i))"
    using "1.prems"(1) by (intro length_concat_ge sane_shape_nodes [of extra _ "d + 1"]) (auto simp: list_all_iff)
  then have "length v + length i < 2 ^ 31" using "1.prems"(2) by simp
  moreover have "qset_ok q" if "q \<in> set i" for q
    using that "1.prems" length_in_concat [OF that, of qset_nodes]
    by (intro "1.IH") (auto simp: list_all_iff)
  ultimately show ?case using "1.prems"(1) by (simp add: list_all_iff)
qed

lemma isQuorumSetSane_shape:
  "isQuorumSetSane q extra \<longleftrightarrow>
    sane_shape extra q 0 \<and> distinct (qset_nodes q) \<and> length (qset_nodes q) \<in> {1..1000}"
  by (auto simp: isQuorumSetSane_def checkSanity_eq)

lemma isQuorumSetSane_imp_ok: "isQuorumSetSane q extra \<Longrightarrow> qset_ok q"
  by (rule sane_shape_ok) (auto simp: isQuorumSetSane_shape)

text \<open>C24: the sanity check accepts exactly the quorum sets nested at most two levels deep, with
  between 1 and 1000 nodes, no node twice, and at every level a threshold between one and
  the number of entries (above half of them under \<open>extraChecks\<close>); every quorum set it
  accepts is within the sizes for which the slice and v-blocking tests count correctly.\<close>

theorem isQuorumSetSane_iff:
  "(isQuorumSetSane q extra \<longleftrightarrow>
     sane_shape extra q 0 \<and> distinct (qset_nodes q) \<and> length (qset_nodes q) \<in> {1..1000}) \<and>
   (isQuorumSetSane q extra \<longrightarrow> qset_ok q)"
  by (intro conjI impI isQuorumSetSane_shape isQuorumSetSane_imp_ok)

theorem isQuorumSetSane_iff_witness:
  "qset_ok (SCPQuorumSet 2 [[1], [2]] [SCPQuorumSet 1 [[3]] []])"
proof -
  let ?q = "SCPQuorumSet 2 [[1], [2]] [SCPQuorumSet 1 [[3]] []]"
  have "isQuorumSetSane ?q True" by (simp add: isQuorumSetSane_def insort_insert_key_def)
  then show ?thesis using isQuorumSetSane_iff [of ?q True] by blast
qed

section \<open>Normalization\<close>

text \<open>What \<open>normalizeQSet\<close> aims at: no inner set is a single validator, and no set merely
  wraps another.\<close>

abbreviation singleton_qset :: "SCPQuorumSet \<Rightarrow> bool" where
  "singleton_qset q \<equiv> threshold q = 1 \<and> length (validators q) = 1 \<and> length (innerSets q) = 0"

fun normal_qset :: "SCPQuorumSet \<Rightarrow> bool" where
  "normal_qset (SCPQuorumSet t v i) \<longleftrightarrow>
     \<not> (t = 1 \<and> v = [] \<and> length i = 1) \<and> list_all (\<lambda>q. normal_qset q \<and> \<not> singleton_qset q) i"

lemma singleton_qset_cases:
  assumes "singleton_qset q"
  obtains n where "q = SCPQuorumSet 1 [n] []"
  using assms by (cases q) (auto simp: length_Suc_conv)

text \<open>What the loop does, over the normalized inner sets.\<close>

lemma normalizeLoop_eq:
  "normalizeLoop qs v kept =
    (v @ map (hd \<circ> validators) (filter singleton_qset (map normalizeQSet qs)),
     kept @ filter (\<lambda>q. \<not> singleton_qset q) (map normalizeQSet qs))"
  by (induction qs arbitrary: v kept) (simp_all add: Let_def)

lemma normalizeQSet_eq:
  "normalizeQSet (SCPQuorumSet t v i) =
    (let v' = v @ map (hd \<circ> validators) (filter singleton_qset (map normalizeQSet i));
         i' = filter (\<lambda>q. \<not> singleton_qset q) (map normalizeQSet i)
     in if t = 1 \<and> v' = [] \<and> length i' = 1 then hd i' else SCPQuorumSet t v' i')"
  by (auto simp: normalizeLoop_eq Let_def length_Suc_conv)

declare normalizeQSet.simps [simp del]

text \<open>A property of nested sets that holds of the two shapes the code rewrites holds across
  normalization.\<close>

lemma normalizeQSet_induct [case_names set]:
  assumes "\<And>t v i v' i'. (\<And>q. q \<in> set i \<Longrightarrow> P q (normalizeQSet q)) \<Longrightarrow>
      v' = v @ map (hd \<circ> validators) (filter singleton_qset (map normalizeQSet i)) \<Longrightarrow>
      i' = filter (\<lambda>q. \<not> singleton_qset q) (map normalizeQSet i) \<Longrightarrow>
      P (SCPQuorumSet t v i) (if t = 1 \<and> v' = [] \<and> length i' = 1 then hd i' else SCPQuorumSet t v' i')"
  shows "P q (normalizeQSet q)"
proof (induction q rule: qset_small.induct)
  case (1 t v i)
  then show ?case by (simp only: normalizeQSet_eq Let_def) (rule assms; simp)
qed

lemma qset_nodes_singleton: "singleton_qset q \<Longrightarrow> qset_nodes q = [hd (validators q)]"
  by (erule singleton_qset_cases) auto

lemma sat_singleton: "singleton_qset q \<Longrightarrow> sat q S \<longleftrightarrow> hd (validators q) \<in> S"
  by (erule singleton_qset_cases) auto

lemma length_filter_split:
  "length (filter P xs) = length (filter P (filter Q xs)) + length (filter P (filter (\<lambda>x. \<not> Q x) xs))"
  by (induction xs) auto

lemma sat_normalizeQSet: "sat (normalizeQSet q) S \<longleftrightarrow> sat q S"
proof (rule normalizeQSet_induct [where P = "\<lambda>q n. sat n S \<longleftrightarrow> sat q S"], goal_cases set)
  case (set t v i v' i')
  let ?N = "map normalizeQSet i" and ?s = "\<lambda>q. sat q S"
  have "filter ?s i = filter (\<lambda>q. ?s (normalizeQSet q)) i"
    using set(1) by (intro filter_cong) simp_all
  then have 1: "length (filter ?s i) = length (filter ?s ?N)" by (simp add: filter_map comp_def)
  have 2: "filter ?s (filter singleton_qset ?N) =
      filter (\<lambda>q. hd (validators q) \<in> S) (filter singleton_qset ?N)"
    by (intro filter_cong) (auto simp: sat_singleton)
  have count: "length (filter (\<lambda>n. n \<in> S) v') + length (filter ?s i') =
      length (filter (\<lambda>n. n \<in> S) v) + length (filter ?s i)"
    unfolding 1 length_filter_split [of ?s ?N singleton_qset] 2
    by (simp add: set(2,3) filter_map comp_def del: filter_filter)
  show ?case
  proof (cases "t = 1 \<and> v' = [] \<and> length i' = 1")
    case True
    then obtain q where "i' = [q]" by (auto simp: length_Suc_conv)
    with True count show ?thesis by (cases "sat q S") auto
  next
    case False
    with count show ?thesis by auto
  qed
qed

lemma mset_normalizeQSet: "mset (qset_nodes (normalizeQSet q)) = mset (qset_nodes q)"
proof (rule normalizeQSet_induct [where P = "\<lambda>q n. mset (qset_nodes n) = mset (qset_nodes q)"],
    goal_cases set)
  case (set t v i v' i')
  let ?N = "map normalizeQSet i" and ?m = "\<lambda>qs. mset (concat (map qset_nodes qs))"
  have "?m i = ?m ?N" using set(1) by (induction i) auto
  also have "?m qs = mset (map (hd \<circ> validators) (filter singleton_qset qs)) +
      ?m (filter (\<lambda>q. \<not> singleton_qset q) qs)" for qs
    by (induction qs) (auto simp: qset_nodes_singleton)
  finally have count: "mset v' + ?m i' = mset v + ?m i" by (simp add: set(2,3))
  show ?case
  proof (cases "t = 1 \<and> v' = [] \<and> length i' = 1")
    case True
    then obtain q where "i' = [q]" by (auto simp: length_Suc_conv)
    with True count show ?thesis by simp
  next
    case False
    with count show ?thesis by auto
  qed
qed

lemma normal_normalizeQSet: "normal_qset (normalizeQSet q)"
proof (rule normalizeQSet_induct [where P = "\<lambda>_. normal_qset"], goal_cases set)
  case (set t v i v' i')
  then have i': "list_all (\<lambda>q. normal_qset q \<and> \<not> singleton_qset q) i'" by (auto simp: list_all_iff)
  show ?case
  proof (cases "t = 1 \<and> v' = [] \<and> length i' = 1")
    case True
    then obtain q where "i' = [q]" by (auto simp: length_Suc_conv)
    with True i' show ?thesis by simp
  next
    case False
    with i' show ?thesis by auto
  qed
qed

lemma normalizeQSet_id: "normal_qset q \<Longrightarrow> normalizeQSet q = q"
proof (induction q rule: normal_qset.induct)
  case (1 t v i)
  then have N: "map normalizeQSet i = i" by (auto simp: list_all_iff intro!: map_idI)
  have "filter singleton_qset i = []" "filter (\<lambda>q. \<not> singleton_qset q) i = i"
    using "1.prems" by (auto simp: list_all_iff filter_empty_conv filter_id_conv)
  with "1.prems" show ?case by (auto simp: normalizeQSet_eq N)
qed

lemma sane_shape_depth: "sane_shape extra q d \<Longrightarrow> d' \<le> d \<Longrightarrow> sane_shape extra q d'"
  by (induction extra q d arbitrary: d' rule: sane_shape.induct) (auto simp: list_all_iff)

lemma sane_normalizeQSet: "sane_shape extra q d \<longrightarrow> sane_shape extra (normalizeQSet q) d"
proof (rule spec [where x = d],
    rule normalizeQSet_induct [where P = "\<lambda>q n. \<forall>d. sane_shape extra q d \<longrightarrow> sane_shape extra n d"],
    intro allI impI, goal_cases set)
  case (set t v i v' i' d)
  have "length (map normalizeQSet i) = length (filter singleton_qset (map normalizeQSet i)) + length i'"
    unfolding set(3) by (rule sum_length_filter_compl [symmetric])
  then have entries: "length v' + length i' = length v + length i" by (simp add: set(2))
  have i': "list_all (\<lambda>q. sane_shape extra q (d + 1)) i'"
    using set(1,4) unfolding set(3) by (auto simp: list_all_iff)
  show ?case
  proof (cases "t = 1 \<and> v' = [] \<and> length i' = 1")
    case True
    then obtain q where "i' = [q]" by (auto simp: length_Suc_conv)
    with True i' show ?thesis by (auto intro: sane_shape_depth)
  next
    case False
    with i' entries set(4) show ?thesis by auto
  qed
qed

text \<open>C25: simplifying a sane quorum set keeps it sane and keeps its meaning: the same sets of
  nodes are quorum slices and v-blocking, it lists the same nodes, and it is in normal form
  (no inner set is a lone validator, no set merely wraps another), which a second
  normalization leaves as it is.\<close>

theorem normalizeQSet_correct:
  assumes "isQuorumSetSane q extra"
  shows "isQuorumSetSane (normalizeQSet q) extra \<and>
    (\<forall>ns. isQuorumSlice (normalizeQSet q) ns = isQuorumSlice q ns) \<and>
    (\<forall>ns. isVBlocking (normalizeQSet q) ns = isVBlocking q ns) \<and>
    mset (qset_nodes (normalizeQSet q)) = mset (qset_nodes q) \<and>
    normal_qset (normalizeQSet q) \<and>
    normalizeQSet (normalizeQSet q) = normalizeQSet q"
proof -
  have len: "length (qset_nodes (normalizeQSet q)) = length (qset_nodes q)"
    "distinct (qset_nodes (normalizeQSet q)) = distinct (qset_nodes q)"
    by (rule mset_eq_length mset_eq_imp_distinct_iff; rule mset_normalizeQSet)+
  then have sane: "isQuorumSetSane (normalizeQSet q) extra"
    using assms sane_normalizeQSet by (simp add: isQuorumSetSane_shape)
  note ok = isQuorumSetSane_imp_ok [OF assms] isQuorumSetSane_imp_ok [OF sane]
  show ?thesis
    using ok sane
    by (auto simp: isQuorumSlice_sat qset_ok_small isVBlocking_not_sat sat_normalizeQSet
        mset_normalizeQSet normal_normalizeQSet normalizeQSet_id)
qed

theorem normalizeQSet_correct_witness:
  "normalizeQSet (SCPQuorumSet 2 [[1], [2]] [SCPQuorumSet 1 [[3]] []]) =
     SCPQuorumSet 2 [[1], [2], [3]] [] \<and>
   isQuorumSetSane (SCPQuorumSet 2 [[1], [2], [3]] []) True"
proof -
  let ?q = "SCPQuorumSet 2 [[1], [2]] [SCPQuorumSet 1 [[3]] []]"
  have "isQuorumSetSane ?q True" by (simp add: isQuorumSetSane_def insort_insert_key_def)
  moreover have "normalizeQSet ?q = SCPQuorumSet 2 [[1], [2], [3]] []"
    by (simp add: normalizeQSet.simps)
  ultimately show ?thesis using normalizeQSet_correct [of ?q True] by simp
qed

end
