(* ===== verification/Slot_State.thy ===== *)
theory Slot_State
  imports Quorum_Set_Utils
begin

text \<open>
  The state of a consensus slot and the parts of \<open>src/scp/Slot.cpp\<close>,
  \<open>src/scp/SCPDriver.cpp\<close> and \<open>src/scp/LocalNode.cpp\<close> the two protocols share.

  A \<open>Slot\<close> owns a \<open>BallotProtocol\<close> and a \<open>NominationProtocol\<close>; their members are the
  fields of one record, built by extension in that order. \<open>unique_ptr<SCPBallot>\<close> is an
  option. The two \<open>shared_ptr\<close> members the code compares by identity
  (\<open>mLastEnvelope\<close> and \<open>mLastEnvelopeEmit\<close>) carry the number of the allocation they
  point to. The calls the code makes into its driver and that return nothing are logged in
  \<open>mDriverCalls\<close>, oldest first; they are assumed not to call back into the slot.

  The driver is an abstract class: its answers are functions, constant during one call into
  the slot. \<open>dbgAbort\<close> in the filters over recorded ballot statements (for a nomination)
  is the answer false; that no nomination is ever recorded there is proved with the
  protocol.
\<close>

section \<open>Interfaces of the slot\<close>

datatype ValidationLevel = kInvalidValue | kFullyValidatedValue | kMaybeValidValue

record SCPDriver =
  drv_validateValue :: "uint64 \<Rightarrow> Value \<Rightarrow> ValidationLevel"
  drv_extractValidValue :: "uint64 \<Rightarrow> Value \<Rightarrow> Value"
  drv_getQSet :: "Hash \<Rightarrow> SCPQuorumSet option"
  drv_signEnvelope :: "SCPStatement \<Rightarrow> Signature"
  drv_verifyEnvelope :: "SCPEnvelope \<Rightarrow> bool"
  drv_computeHashNode :: "uint64 \<Rightarrow> Value \<Rightarrow> bool \<Rightarrow> int \<Rightarrow> NodeID \<Rightarrow> uint64"
  drv_computeValueHash :: "uint64 \<Rightarrow> Value \<Rightarrow> int \<Rightarrow> Value \<Rightarrow> uint64"
  drv_combineCandidates :: "uint64 \<Rightarrow> Value list \<Rightarrow> Value"

text \<open>\<open>SCPDriver::computeTimeout\<close>, in seconds. The conversion of \<open>MAX_TIMEOUT_SECONDS\<close>
  to unsigned for the comparison changes nothing.\<close>

definition MAX_TIMEOUT_SECONDS :: uint32 where
  "MAX_TIMEOUT_SECONDS = 30 * 60"

definition computeTimeout :: "uint32 \<Rightarrow> nat" where
  "computeTimeout roundNumber =
     (if roundNumber > MAX_TIMEOUT_SECONDS then unat MAX_TIMEOUT_SECONDS else unat roundNumber)"

record LocalNode =
  mNodeID :: NodeID
  mIsValidator :: bool
  mQSet :: SCPQuorumSet
  mQSetHash :: Hash

text \<open>The constructor normalizes the quorum set it is given, \<open>updateQuorumSet\<close> does not;
  \<open>sha256\<close> of the serialized set is a parameter.\<close>

definition newLocalNode ::
  "(SCPQuorumSet \<Rightarrow> Hash) \<Rightarrow> NodeID \<Rightarrow> bool \<Rightarrow> SCPQuorumSet \<Rightarrow> LocalNode" where
  "newLocalNode qsetHash publicKey isValidator qSet =
     (let qSet = normalizeQSet qSet in
      \<lparr>mNodeID = publicKey, mIsValidator = isValidator, mQSet = qSet, mQSetHash = qsetHash qSet\<rparr>)"

definition updateQuorumSet :: "(SCPQuorumSet \<Rightarrow> Hash) \<Rightarrow> SCPQuorumSet \<Rightarrow> LocalNode \<Rightarrow> LocalNode" where
  "updateQuorumSet qsetHash qSet ln = ln\<lparr>mQSetHash := qsetHash qSet, mQSet := qSet\<rparr>"

record SCPContext =
  mDriver :: SCPDriver
  mLocalNode :: LocalNode

definition getLocalNodeID :: "'a SCPContext_scheme \<Rightarrow> NodeID" where
  "getLocalNodeID ctx = mNodeID (mLocalNode ctx)"

definition getQuorumSet :: "'a SCPContext_scheme \<Rightarrow> SCPQuorumSet" where
  "getQuorumSet ctx = mQSet (mLocalNode ctx)"

definition getQuorumSetHash :: "'a SCPContext_scheme \<Rightarrow> Hash" where
  "getQuorumSetHash ctx = mQSetHash (mLocalNode ctx)"

section \<open>State\<close>

datatype TimerID = NOMINATION_TIMER | BALLOT_PROTOCOL_TIMER

datatype driver_call =
    EmitEnvelope SCPEnvelope
  | SetupTimer TimerID nat
  | ValueExternalized Value
  | NominatingValue Value
  | UpdatedCandidateValue Value
  | StartedBallotProtocol SCPBallot
  | AcceptedBallotPrepared SCPBallot
  | ConfirmedBallotPrepared SCPBallot
  | AcceptedCommit SCPBallot
  | BallotDidHearFromQuorum SCPBallot

datatype SCPPhase = SCP_PHASE_PREPARE | SCP_PHASE_CONFIRM | SCP_PHASE_EXTERNALIZE

type_synonym envelope_ptr = "(nat \<times> SCPEnvelope) option"

record BallotProtocol =
  mHeardFromQuorum :: bool
  mCurrentBallot :: "SCPBallot option"
  mPrepared :: "SCPBallot option"
  mPreparedPrime :: "SCPBallot option"
  mHighBallot :: "SCPBallot option"
  mCommit :: "SCPBallot option"
  mLatestEnvelopes :: envelopes
  mPhase :: SCPPhase
  mCurrentMessageLevel :: int
  mLastEnvelope :: envelope_ptr
  mLastEnvelopeEmit :: envelope_ptr
  mAllocations :: nat

record NominationProtocol = BallotProtocol +
  mRoundNumber :: int
  mVotes :: "Value list"
  mAccepted :: "Value list"
  mCandidates :: "Value list"
  mLatestNominations :: envelopes
  mLastNomination :: "SCPEnvelope option"
  mRoundLeaders :: "NodeID list"
  mNominationStarted :: bool
  mLatestCompositeCandidate :: Value
  mPreviousValue :: Value

record Slot = NominationProtocol +
  mSlotIndex :: uint64
  mStatementsHistory :: "(SCPStatement \<times> bool) list"
  mFullyValidated :: bool
  mDriverCalls :: "driver_call list"

definition newSlot :: "uint64 \<Rightarrow> 'a SCPContext_scheme \<Rightarrow> Slot" where
  "newSlot i ctx =
     \<lparr>mHeardFromQuorum = True, mCurrentBallot = None, mPrepared = None, mPreparedPrime = None,
      mHighBallot = None, mCommit = None, mLatestEnvelopes = [], mPhase = SCP_PHASE_PREPARE,
      mCurrentMessageLevel = 0, mLastEnvelope = None, mLastEnvelopeEmit = None, mAllocations = 0,
      mRoundNumber = 0, mVotes = [], mAccepted = [], mCandidates = [], mLatestNominations = [],
      mLastNomination = None, mRoundLeaders = [], mNominationStarted = False,
      mLatestCompositeCandidate = [], mPreviousValue = [],
      mSlotIndex = i, mStatementsHistory = [],
      mFullyValidated = mIsValidator (mLocalNode ctx), mDriverCalls = []\<rparr>"

section \<open>Helpers of the slot\<close>

definition driverCall :: "driver_call \<Rightarrow> Slot \<Rightarrow> Slot" where
  "driverCall c s = s\<lparr>mDriverCalls := mDriverCalls s @ [c]\<rparr>"

definition recordStatement :: "SCPStatement \<Rightarrow> Slot \<Rightarrow> Slot" where
  "recordStatement st s =
     s\<lparr>mStatementsHistory := mStatementsHistory s @ [(st, mFullyValidated s)]\<rparr>"

definition setFullyValidated :: "bool \<Rightarrow> Slot \<Rightarrow> Slot" where
  "setFullyValidated b s = s\<lparr>mFullyValidated := b\<rparr>"

definition stopNomination :: "Slot \<Rightarrow> Slot" where
  "stopNomination s = s\<lparr>mNominationStarted := False\<rparr>"

text \<open>\<open>createEnvelope\<close> is given a statement with its pledges set.\<close>

definition createEnvelope :: "'a SCPContext_scheme \<Rightarrow> SCPPledges \<Rightarrow> Slot \<Rightarrow> SCPEnvelope" where
  "createEnvelope ctx pl s =
     (let mySt = \<lparr>nodeID = getLocalNodeID ctx, slotIndex = mSlotIndex s, pledges = pl\<rparr> in
      \<lparr>statement = mySt, signature = drv_signEnvelope (mDriver ctx) mySt\<rparr>)"

definition getQuorumSetFromStatement :: "'a SCPContext_scheme \<Rightarrow> SCPStatement \<Rightarrow> SCPQuorumSet option" where
  "getQuorumSetFromStatement ctx st =
     (case pledges st of
        Externalize _ _ _ \<Rightarrow> Some (buildSingletonQSet (nodeID st))
      | Prepare h _ _ _ _ _ \<Rightarrow> drv_getQSet (mDriver ctx) h
      | Confirm _ _ _ _ h \<Rightarrow> drv_getQSet (mDriver ctx) h
      | Nominate n \<Rightarrow> drv_getQSet (mDriver ctx) (nom_quorumSetHash n))"

type_synonym StatementPredicate = "SCPStatement \<Rightarrow> bool"

definition federatedAccept ::
  "'a SCPContext_scheme \<Rightarrow> StatementPredicate \<Rightarrow> StatementPredicate \<Rightarrow> envelopes \<Rightarrow> bool" where
  "federatedAccept ctx voted accpted envs =
     (if isVBlockingMap (getQuorumSet ctx) envs accpted then True
      else if isQuorum (getQuorumSet ctx) envs (getQuorumSetFromStatement ctx)
                (\<lambda>st. accpted st \<or> voted st) then True
      else False)"

definition federatedRatify ::
  "'a SCPContext_scheme \<Rightarrow> StatementPredicate \<Rightarrow> envelopes \<Rightarrow> bool" where
  "federatedRatify ctx voted envs =
     isQuorum (getQuorumSet ctx) envs (getQuorumSetFromStatement ctx) voted"

section \<open>Federated voting\<close>

text \<open>The quorum sets the node works with have sizes within the counters of the code.\<close>

definition small_qsets :: "'a SCPContext_scheme \<Rightarrow> bool" where
  "small_qsets ctx \<longleftrightarrow>
     qset_ok (getQuorumSet ctx) \<and>
     (\<forall>h q. drv_getQSet (mDriver ctx) h = Some q \<longrightarrow> qset_small q)"

abbreviation votes_quorum :: "'a SCPContext_scheme \<Rightarrow> envelopes \<Rightarrow> StatementPredicate \<Rightarrow> bool" where
  "votes_quorum ctx envs P \<equiv>
     \<exists>Q. is_quorum (node_slice envs (getQuorumSetFromStatement ctx)) Q \<and> sat (getQuorumSet ctx) Q \<and>
         (\<forall>n \<in> Q. \<exists>e. (n, e) \<in> set envs \<and> P (statement e))"

lemma qset_small_statement:
  assumes "small_qsets ctx" and "getQuorumSetFromStatement ctx st = Some q"
  shows "qset_small q"
  using assms
  by (auto simp: small_qsets_def getQuorumSetFromStatement_def buildSingletonQSet_def
      split: SCPPledges.splits)

lemma set_filterNodes: "set (filterNodes envs P) = {n. \<exists>e. (n, e) \<in> set envs \<and> P (statement e)}"
  by (force simp: filterNodes_def)

lemma federatedRatify_quorum:
  assumes "small_qsets ctx"
  shows "federatedRatify ctx P envs \<longleftrightarrow> votes_quorum ctx envs P"
proof -
  have "qset_small (getQuorumSet ctx)"
    using assms by (simp add: small_qsets_def qset_ok_small)
  moreover note qset_small_statement [OF assms]
  ultimately have "federatedRatify ctx P envs \<longleftrightarrow>
      (\<exists>Q \<subseteq> set (filterNodes envs P).
         is_quorum (node_slice envs (getQuorumSetFromStatement ctx)) Q \<and> sat (getQuorumSet ctx) Q)"
    unfolding federatedRatify_def by (intro isQuorum_slice) auto
  then show ?thesis unfolding set_filterNodes by blast
qed

end
