(* ===== verification/Ballot_Protocol.thy ===== *)
theory Ballot_Protocol
  imports Slot_State
begin

text \<open>
  \<open>src/scp/BallotProtocol.cpp\<close>: the ballot protocol, operation by operation, in the order
  of the protocol's steps.

  The protocol is re-entrant: a state change makes the node emit a statement, which it
  processes as its own (\<open>emitCurrentStateStatement\<close> calls \<open>processEnvelope\<close>), which
  calls \<open>advanceSlot\<close> again. Operations that may do so take the \<open>advanceSlot\<close> they call
  as the argument \<open>adv\<close>; \<open>advanceSlot\<close> itself closes the recursion and consumes a unit
  of fuel at each level and at each turn of its final loop. \<open>Inl\<close> is an exception, a
  failed \<open>dbgAssert\<close>, an abort or the dereference of a null pointer; the state is then
  lost, as the program does not continue with the slot.
\<close>

section \<open>Statements\<close>

datatype EnvelopeState = INVALID | VALID

type_synonym advance = "SCPStatement \<Rightarrow> Slot \<Rightarrow> (unit \<times> Slot) result"
type_synonym Interval = "uint32 \<times> uint32"

definition MAX_ADVANCE_SLOT_RECURSION :: int where
  "MAX_ADVANCE_SLOT_RECURSION = 50"

definition isNewerStatementFrom :: "NodeID \<Rightarrow> SCPStatement \<Rightarrow> Slot \<Rightarrow> bool" where
  "isNewerStatementFrom node st s =
     (case map_of (mLatestEnvelopes s) node of
        None \<Rightarrow> True
      | Some old \<Rightarrow> isNewerStatement (pledges (statement old)) (pledges st))"

definition recordEnvelope :: "SCPEnvelope \<Rightarrow> Slot \<Rightarrow> Slot" where
  "recordEnvelope env s =
     recordStatement (statement env)
       (s\<lparr>mLatestEnvelopes := map_put (nodeID (statement env)) env (mLatestEnvelopes s)\<rparr>)"

text \<open>The conditions of \<open>isStatementSane\<close> on the pledges themselves.\<close>

definition sanePrepare ::
  "bool \<Rightarrow> SCPBallot \<Rightarrow> SCPBallot option \<Rightarrow> SCPBallot option \<Rightarrow> uint32 \<Rightarrow> uint32 \<Rightarrow> bool" where
  "sanePrepare self ballot prepared preparedPrime nC nH \<longleftrightarrow>
     (self \<or> counter ballot > 0) \<and>
     (case (preparedPrime, prepared) of
        (Some p', Some p) \<Rightarrow> areBallotsLessAndIncompatible p' p | _ \<Rightarrow> True) \<and>
     (nH = 0 \<or> (case prepared of Some p \<Rightarrow> nH \<le> counter p | None \<Rightarrow> False)) \<and>
     (nC = 0 \<or> nH \<noteq> 0 \<and> counter ballot \<ge> nH \<and> nH \<ge> nC)"

definition isStatementSane :: "'a SCPContext_scheme \<Rightarrow> SCPStatement \<Rightarrow> bool \<Rightarrow> bool result" where
  "isStatementSane ctx st self =
     deref (getQuorumSetFromStatement ctx st) (\<lambda>qSet.
       if \<not> isQuorumSetSane qSet False then Inr False
       else case pledges st of
         Prepare _ ballot prepared preparedPrime nC nH \<Rightarrow>
           Inr (sanePrepare self ballot prepared preparedPrime nC nH)
       | Confirm ballot _ nCommit nH _ \<Rightarrow>
           Inr (counter ballot > 0 \<and> nH \<le> counter ballot \<and> nCommit \<le> nH)
       | Externalize commit nH _ \<Rightarrow> Inr (counter commit > 0 \<and> nH \<ge> counter commit)
       | Nominate _ \<Rightarrow> Inl DbgAbort)"

definition statementValues :: "SCPPledges \<Rightarrow> Value list" where
  "statementValues pl =
     (case pl of
        Prepare _ ballot prepared _ _ _ \<Rightarrow>
          (let vs = (if counter ballot \<noteq> 0 then insort_insert (value ballot) [] else []) in
           case prepared of Some p \<Rightarrow> insort_insert (value p) vs | None \<Rightarrow> vs)
      | Confirm ballot _ _ _ _ \<Rightarrow> [value ballot]
      | Externalize commit _ _ \<Rightarrow> [value commit]
      | Nominate _ \<Rightarrow> [])"

definition validateValues :: "'a SCPContext_scheme \<Rightarrow> SCPStatement \<Rightarrow> Slot \<Rightarrow> ValidationLevel" where
  "validateValues ctx st s =
     (if is_Nominate (pledges st) then kInvalidValue
      else fold (\<lambda>v res.
             let tr = drv_validateValue (mDriver ctx) (mSlotIndex s) v in
             if tr \<noteq> kFullyValidatedValue then
               (if tr = kInvalidValue then kInvalidValue else kMaybeValidValue)
             else res)
           (statementValues (pledges st)) kFullyValidatedValue)"

section \<open>Ballots\<close>

definition startBallotProtocolTimer :: "Slot \<Rightarrow> Slot result" where
  "startBallotProtocolTimer s =
     deref (mCurrentBallot s) (\<lambda>b.
       Inr (driverCall (SetupTimer BALLOT_PROTOCOL_TIMER (computeTimeout (counter b))) s))"

definition bumpToBallot :: "SCPBallot \<Rightarrow> bool \<Rightarrow> Slot \<Rightarrow> Slot result" where
  "bumpToBallot ballot check s =
     dbgAssert (mPhase s \<noteq> SCP_PHASE_EXTERNALIZE)
       (dbgAssert (\<not> check \<or>
          (case mCurrentBallot s of None \<Rightarrow> True | Some b \<Rightarrow> compareBallots ballot b \<ge> 0))
         (let gotBumped = mCurrentBallot s \<noteq> Some ballot;
              s = s\<lparr>mCurrentBallot := Some ballot, mHeardFromQuorum := False\<rparr> in
          if gotBumped then startBallotProtocolTimer s else Inr s))"

definition updateCurrentIfNeeded :: "Slot \<Rightarrow> Slot result" where
  "updateCurrentIfNeeded s =
     (case mCurrentBallot s of
        None \<Rightarrow> deref (mHighBallot s) (\<lambda>h. bumpToBallot h True s)
      | Some b \<Rightarrow> deref (mHighBallot s) (\<lambda>h.
          if compareBallots b h < 0 then bumpToBallot h True s else Inr s))"

text \<open>The assertions of \<open>checkInvariants\<close>; the third conjunct dereferences \<open>mHighBallot\<close>.\<close>

definition checkInvariants :: "Slot \<Rightarrow> 'b result \<Rightarrow> 'b result" where
  "checkInvariants s k =
     dbgAssert (case mCurrentBallot s of None \<Rightarrow> True | Some b \<Rightarrow> counter b \<noteq> 0)
    (dbgAssert (case (mPrepared s, mPreparedPrime s) of
                  (Some p, Some p') \<Rightarrow> areBallotsLessAndIncompatible p' p | _ \<Rightarrow> True)
      (let k' = (case mPhase s of
                   SCP_PHASE_PREPARE \<Rightarrow> k
                 | SCP_PHASE_CONFIRM \<Rightarrow> dbgAssert (mCommit s \<noteq> None) k
                 | SCP_PHASE_EXTERNALIZE \<Rightarrow>
                     dbgAssert (mCommit s \<noteq> None) (dbgAssert (mHighBallot s \<noteq> None) k)) in
       case mCommit s of
         None \<Rightarrow> k'
       | Some c \<Rightarrow>
           dbgAssert (mCurrentBallot s \<noteq> None)
             (deref (mHighBallot s) (\<lambda>h. dbgAssert (areBallotsLessAndCompatible c h)
               (deref (mCurrentBallot s) (\<lambda>b. dbgAssert (areBallotsLessAndCompatible h b) k'))))))"

definition updateCurrentValue :: "SCPBallot \<Rightarrow> Slot \<Rightarrow> (bool \<times> Slot) result" where
  "updateCurrentValue ballot s =
     (if mPhase s \<noteq> SCP_PHASE_PREPARE \<and> mPhase s \<noteq> SCP_PHASE_CONFIRM then Inr (False, s)
      else case mCurrentBallot s of
        None \<Rightarrow> bindE (bumpToBallot ballot True s) (\<lambda>s. checkInvariants s (Inr (True, s)))
      | Some b \<Rightarrow>
          dbgAssert (compareBallots b ballot \<le> 0)
            (if (case mCommit s of Some c \<Rightarrow> \<not> areBallotsCompatible c ballot | None \<Rightarrow> False)
             then Inr (False, s)
             else let comp = compareBallots b ballot in
               if comp < 0 then
                 bindE (bumpToBallot ballot True s) (\<lambda>s. checkInvariants s (Inr (True, s)))
               else if comp > 0 then Inr (False, s)
               else checkInvariants s (Inr (False, s))))"

definition sendLatestEnvelope :: "Slot \<Rightarrow> Slot" where
  "sendLatestEnvelope s =
     (case mLastEnvelope s of
        Some (p, e) \<Rightarrow>
          (if mCurrentMessageLevel s = 0 \<and> mFullyValidated s \<and>
              (mLastEnvelopeEmit s = None \<or> map_option fst (mLastEnvelopeEmit s) \<noteq> Some p)
           then driverCall (EmitEnvelope e) (s\<lparr>mLastEnvelopeEmit := Some (p, e)\<rparr>)
           else s)
      | None \<Rightarrow> s)"

text \<open>\<open>createStatement\<close>: the type follows from the phase, as in its only caller.\<close>

definition createStatement :: "'a SCPContext_scheme \<Rightarrow> Slot \<Rightarrow> SCPPledges result" where
  "createStatement ctx s =
     checkInvariants s
      (case mPhase s of
         SCP_PHASE_PREPARE \<Rightarrow>
           Inr (Prepare (getQuorumSetHash ctx)
             (case mCurrentBallot s of Some b \<Rightarrow> b | None \<Rightarrow> SCPBallot0)
             (mPrepared s) (mPreparedPrime s)
             (case mCommit s of Some c \<Rightarrow> counter c | None \<Rightarrow> 0)
             (case mHighBallot s of Some h \<Rightarrow> counter h | None \<Rightarrow> 0))
       | SCP_PHASE_CONFIRM \<Rightarrow>
           deref (mCommit s) (\<lambda>c. deref (mHighBallot s) (\<lambda>h.
             dbgAssert (areBallotsLessAndCompatible c h)
              (deref (mCurrentBallot s) (\<lambda>b. deref (mPrepared s) (\<lambda>p.
                Inr (Confirm b (counter p) (counter c) (counter h) (getQuorumSetHash ctx)))))))
       | SCP_PHASE_EXTERNALIZE \<Rightarrow>
           deref (mCommit s) (\<lambda>c. deref (mHighBallot s) (\<lambda>h.
             dbgAssert (areBallotsLessAndCompatible c h)
              (Inr (Externalize c (counter h) (getQuorumSetHash ctx))))))"

text \<open>\<open>Slot::processEnvelope\<close> checks the slot again before it dispatches; for the node's own
  ballot statements it dispatches here.\<close>

definition processEnvelope ::
  "advance \<Rightarrow> 'a SCPContext_scheme \<Rightarrow> SCPEnvelope \<Rightarrow> bool \<Rightarrow> Slot \<Rightarrow> (EnvelopeState \<times> Slot) result" where
  "processEnvelope adv ctx envelope self s =
     (let st = statement envelope in
      dbgAssert (slotIndex st = mSlotIndex s)
       (bindE (isStatementSane ctx st self) (\<lambda>sane.
          if \<not> sane then Inr (INVALID, s)
          else if \<not> isNewerStatementFrom (nodeID st) st s then Inr (INVALID, s)
          else
            let validationRes = validateValues ctx st s in
            if validationRes \<noteq> kInvalidValue then
              if mPhase s \<noteq> SCP_PHASE_EXTERNALIZE then
                let s = (if validationRes = kMaybeValidValue then setFullyValidated False s else s);
                    s = recordEnvelope envelope s in
                bindE (adv st s) (\<lambda>(_, s). Inr (VALID, s))
              else
                deref (mCommit s) (\<lambda>c.
                  if value c = value (getWorkingBallot (pledges st))
                  then Inr (VALID, recordEnvelope envelope s)
                  else Inr (INVALID, s))
            else Inr (INVALID, s))))"

definition emitCurrentStateStatement ::
  "advance \<Rightarrow> 'a SCPContext_scheme \<Rightarrow> Slot \<Rightarrow> (unit \<times> Slot) result" where
  "emitCurrentStateStatement adv ctx s =
     bindE (createStatement ctx s) (\<lambda>pl.
       let envelope = createEnvelope ctx pl s;
           canEmit = mCurrentBallot s \<noteq> None in
       if map_of (mLatestEnvelopes s) (getLocalNodeID ctx) = Some envelope then Inr ((), s)
       else bindE (processEnvelope adv ctx envelope True s) (\<lambda>(res, s).
         if res = VALID then
           (if canEmit \<and> (case mLastEnvelope s of
                            None \<Rightarrow> True
                          | Some (_, l) \<Rightarrow>
                              isNewerStatement (pledges (statement l)) (pledges (statement envelope)))
            then
              let s = s\<lparr>mLastEnvelope := Some (mAllocations s, envelope),
                        mAllocations := Suc (mAllocations s)\<rparr> in
              Inr ((), sendLatestEnvelope s)
            else Inr ((), s))
         else Inl (RuntimeError ''moved to a bad state (ballot protocol)'')))"

text \<open>\<open>bumpState(value, n)\<close>, \<open>bumpState(value, force)\<close> and \<open>abandonBallot\<close>.\<close>

definition bumpStateTo ::
  "advance \<Rightarrow> 'a SCPContext_scheme \<Rightarrow> Value \<Rightarrow> uint32 \<Rightarrow> Slot \<Rightarrow> (bool \<times> Slot) result" where
  "bumpStateTo adv ctx v n s =
     (if mPhase s \<noteq> SCP_PHASE_PREPARE \<and> mPhase s \<noteq> SCP_PHASE_CONFIRM then Inr (False, s)
      else
        let newb = SCPBallot n (case mHighBallot s of Some h \<Rightarrow> value h | None \<Rightarrow> v) in
        bindE (updateCurrentValue newb s) (\<lambda>(updated, s).
          if updated then
            bindE (emitCurrentStateStatement adv ctx (driverCall (StartedBallotProtocol newb) s))
              (\<lambda>(_, s). Inr (updated, s))
          else Inr (updated, s)))"

definition bumpState ::
  "advance \<Rightarrow> 'a SCPContext_scheme \<Rightarrow> Value \<Rightarrow> bool \<Rightarrow> Slot \<Rightarrow> (bool \<times> Slot) result" where
  "bumpState adv ctx v force s =
     (if \<not> force \<and> mCurrentBallot s \<noteq> None then Inr (False, s)
      else
        let n = (case mCurrentBallot s of Some b \<Rightarrow> counter b + 1 | None \<Rightarrow> 1) in
        bumpStateTo adv ctx v n s)"

definition abandonBallot ::
  "advance \<Rightarrow> 'a SCPContext_scheme \<Rightarrow> uint32 \<Rightarrow> Slot \<Rightarrow> (bool \<times> Slot) result" where
  "abandonBallot adv ctx n s =
     (let v = mLatestCompositeCandidate s;
          v = (if v = [] then (case mCurrentBallot s of Some b \<Rightarrow> value b | None \<Rightarrow> v) else v) in
      if v \<noteq> [] then
        (if n = 0 then bumpState adv ctx v True s else bumpStateTo adv ctx v n s)
      else Inr (False, s))"

definition ballotProtocolTimerExpired ::
  "advance \<Rightarrow> 'a SCPContext_scheme \<Rightarrow> Slot \<Rightarrow> (unit \<times> Slot) result" where
  "ballotProtocolTimerExpired adv ctx s =
     (if mHeardFromQuorum s then bindE (abandonBallot adv ctx 0 s) (\<lambda>(_, s). Inr ((), s))
      else bindE (startBallotProtocolTimer s) (\<lambda>s. Inr ((), s)))"

section \<open>Preparing ballots\<close>

fun hasPreparedBallot :: "SCPBallot \<Rightarrow> SCPPledges \<Rightarrow> bool" where
  "hasPreparedBallot ballot (Prepare _ _ prepared preparedPrime _ _) \<longleftrightarrow>
     (case prepared of Some p \<Rightarrow> areBallotsLessAndCompatible ballot p | None \<Rightarrow> False) \<or>
     (case preparedPrime of Some p' \<Rightarrow> areBallotsLessAndCompatible ballot p' | None \<Rightarrow> False)"
| "hasPreparedBallot ballot (Confirm b nPrepared _ _ _) \<longleftrightarrow>
     areBallotsLessAndCompatible ballot (SCPBallot nPrepared (value b))"
| "hasPreparedBallot ballot (Externalize commit _ _) \<longleftrightarrow> areBallotsCompatible ballot commit"
| "hasPreparedBallot ballot (Nominate _) \<longleftrightarrow> False"

text \<open>The filter of \<open>attemptPreparedAccept\<close>: does the statement vote to prepare the ballot.\<close>

fun votesPrepare :: "SCPBallot \<Rightarrow> SCPPledges \<Rightarrow> bool" where
  "votesPrepare ballot (Prepare _ b _ _ _ _) \<longleftrightarrow> areBallotsLessAndCompatible ballot b"
| "votesPrepare ballot (Confirm b _ _ _ _) \<longleftrightarrow> areBallotsCompatible ballot b"
| "votesPrepare ballot (Externalize commit _ _) \<longleftrightarrow> areBallotsCompatible ballot commit"
| "votesPrepare ballot (Nominate _) \<longleftrightarrow> False"

fun insertIf :: "bool \<Rightarrow> 'b::linorder option \<Rightarrow> 'b list \<Rightarrow> 'b list" where
  "insertIf c (Some b) bs = (if c then insort_insert b bs else bs)"
| "insertIf c None bs = bs"

fun hintBallots :: "SCPPledges \<Rightarrow> SCPBallot list result" where
  "hintBallots (Prepare _ ballot prepared preparedPrime _ _) =
     Inr (insertIf True preparedPrime (insertIf True prepared (insort_insert ballot [])))"
| "hintBallots (Confirm ballot nPrepared _ _ _) =
     Inr (insort_insert (SCPBallot UINT32_MAX (value ballot))
           (insort_insert (SCPBallot nPrepared (value ballot)) []))"
| "hintBallots (Externalize commit _ _) =
     Inr (insort_insert (SCPBallot UINT32_MAX (value commit)) [])"
| "hintBallots (Nominate _) = Inl DbgAbort"

fun candidatesFrom :: "SCPBallot \<Rightarrow> SCPPledges \<Rightarrow> SCPBallot list \<Rightarrow> SCPBallot list" where
  "candidatesFrom topVote (Prepare _ ballot prepared preparedPrime _ _) cs =
     insertIf (case preparedPrime of Some p' \<Rightarrow> areBallotsLessAndCompatible p' topVote | None \<Rightarrow> False)
       preparedPrime
      (insertIf (case prepared of Some p \<Rightarrow> areBallotsLessAndCompatible p topVote | None \<Rightarrow> False)
        prepared
       (insertIf (areBallotsLessAndCompatible ballot topVote) (Some ballot) cs))"
| "candidatesFrom topVote (Confirm ballot nPrepared _ _ _) cs =
     (if areBallotsCompatible topVote ballot then
        insertIf (nPrepared < counter topVote) (Some (SCPBallot nPrepared (value topVote)))
          (insort_insert topVote cs)
      else cs)"
| "candidatesFrom topVote (Externalize commit _ _) cs =
     (if areBallotsCompatible topVote commit then insort_insert topVote cs else cs)"
| "candidatesFrom topVote (Nominate _) cs = cs"

definition getPrepareCandidates :: "SCPPledges \<Rightarrow> Slot \<Rightarrow> SCPBallot list result" where
  "getPrepareCandidates hint s =
     bindE (hintBallots hint) (\<lambda>hints.
       Inr (fold (\<lambda>topVote.
                    fold (\<lambda>(_, e). candidatesFrom topVote (pledges (statement e))) (mLatestEnvelopes s))
              (rev hints) []))"

definition setPrepared :: "SCPBallot \<Rightarrow> Slot \<Rightarrow> bool \<times> Slot" where
  "setPrepared ballot s =
     (case mPrepared s of
        Some p \<Rightarrow>
          (let comp = compareBallots p ballot in
           if comp < 0 then
             (let s = (if \<not> areBallotsCompatible p ballot then s\<lparr>mPreparedPrime := Some p\<rparr> else s)
              in (True, s\<lparr>mPrepared := Some ballot\<rparr>))
           else if comp > 0 then
             (if (case mPreparedPrime s of None \<Rightarrow> True | Some p' \<Rightarrow> compareBallots p' ballot < 0)
              then (True, s\<lparr>mPreparedPrime := Some ballot\<rparr>)
              else (False, s))
           else (False, s))
      | None \<Rightarrow> (True, s\<lparr>mPrepared := Some ballot\<rparr>))"

text \<open>\<open>setPreparedAccept\<close> up to the calls that follow a state change.\<close>

definition acceptPrepared :: "SCPBallot \<Rightarrow> Slot \<Rightarrow> (bool \<times> Slot) result" where
  "acceptPrepared ballot s =
     (let (didWork, s) = setPrepared ballot s in
      case (mCommit s, mHighBallot s) of
        (Some _, Some h) \<Rightarrow>
          (if (case mPrepared s of Some p \<Rightarrow> areBallotsLessAndIncompatible h p | None \<Rightarrow> False) \<or>
              (case mPreparedPrime s of Some p' \<Rightarrow> areBallotsLessAndIncompatible h p' | None \<Rightarrow> False)
           then dbgAssert (mPhase s = SCP_PHASE_PREPARE) (Inr (True, s\<lparr>mCommit := None\<rparr>))
           else Inr (didWork, s))
      | _ \<Rightarrow> Inr (didWork, s))"

text \<open>The end of every \<open>set\<close> operation that did work: tell the driver, then emit.\<close>

definition didWorkThenEmit ::
  "advance \<Rightarrow> 'a SCPContext_scheme \<Rightarrow> driver_call \<Rightarrow> bool \<Rightarrow> Slot \<Rightarrow> (bool \<times> Slot) result" where
  "didWorkThenEmit adv ctx call didWork s =
     (if didWork then
        bindE (emitCurrentStateStatement adv ctx (driverCall call s)) (\<lambda>(_, s). Inr (didWork, s))
      else Inr (didWork, s))"

definition setPreparedAccept ::
  "advance \<Rightarrow> 'a SCPContext_scheme \<Rightarrow> SCPBallot \<Rightarrow> Slot \<Rightarrow> (bool \<times> Slot) result" where
  "setPreparedAccept adv ctx ballot s =
     bindE (acceptPrepared ballot s) (\<lambda>(didWork, s).
       didWorkThenEmit adv ctx (AcceptedBallotPrepared ballot) didWork s)"

text \<open>The loop over the candidates, highest first.\<close>

fun preparedAcceptLoop ::
  "advance \<Rightarrow> 'a SCPContext_scheme \<Rightarrow> SCPBallot list \<Rightarrow> Slot \<Rightarrow> (bool \<times> Slot) result" where
  "preparedAcceptLoop adv ctx [] s = Inr (False, s)"
| "preparedAcceptLoop adv ctx (ballot # bs) s =
     (let check =
        (if (case mPreparedPrime s of Some p' \<Rightarrow> compareBallots ballot p' \<le> 0 | None \<Rightarrow> False)
         then preparedAcceptLoop adv ctx bs s
         else if (case mPrepared s of Some p \<Rightarrow> areBallotsLessAndCompatible ballot p | None \<Rightarrow> False)
         then preparedAcceptLoop adv ctx bs s
         else if federatedAccept ctx (\<lambda>st. votesPrepare ballot (pledges st))
                   (\<lambda>st. hasPreparedBallot ballot (pledges st)) (mLatestEnvelopes s)
         then setPreparedAccept adv ctx ballot s
         else preparedAcceptLoop adv ctx bs s) in
      if mPhase s = SCP_PHASE_CONFIRM then
        deref (mPrepared s) (\<lambda>p.
          if \<not> areBallotsLessAndCompatible p ballot then preparedAcceptLoop adv ctx bs s
          else deref (mCommit s) (\<lambda>c. dbgAssert (areBallotsCompatible c ballot) check))
      else check)"

definition attemptPreparedAccept ::
  "advance \<Rightarrow> 'a SCPContext_scheme \<Rightarrow> SCPStatement \<Rightarrow> Slot \<Rightarrow> (bool \<times> Slot) result" where
  "attemptPreparedAccept adv ctx hint s =
     (if mPhase s \<noteq> SCP_PHASE_PREPARE \<and> mPhase s \<noteq> SCP_PHASE_CONFIRM then Inr (False, s)
      else bindE (getPrepareCandidates (pledges hint) s) (\<lambda>candidates.
        preparedAcceptLoop adv ctx (rev candidates) s))"

section \<open>Confirming prepared ballots\<close>

text \<open>The search for \<open>newH\<close> returns it at the head of the candidates still to visit.\<close>

fun findNewH :: "'a SCPContext_scheme \<Rightarrow> Slot \<Rightarrow> SCPBallot list \<Rightarrow> SCPBallot list option" where
  "findNewH ctx s [] = None"
| "findNewH ctx s (ballot # bs) =
     (if (case mHighBallot s of Some h \<Rightarrow> compareBallots h ballot \<ge> 0 | None \<Rightarrow> False) then None
      else if federatedRatify ctx (\<lambda>st. hasPreparedBallot ballot (pledges st)) (mLatestEnvelopes s)
      then Some (ballot # bs)
      else findNewH ctx s bs)"

fun findNewC :: "'a SCPContext_scheme \<Rightarrow> Slot \<Rightarrow> SCPBallot \<Rightarrow> SCPBallot list \<Rightarrow> SCPBallot \<Rightarrow> SCPBallot" where
  "findNewC ctx s b [] newC = newC"
| "findNewC ctx s b (ballot # bs) newC =
     (if compareBallots ballot b < 0 then newC
      else if federatedRatify ctx (\<lambda>st. hasPreparedBallot ballot (pledges st)) (mLatestEnvelopes s)
      then findNewC ctx s b bs ballot
      else newC)"

text \<open>\<open>setPreparedConfirmed\<close> up to the calls that follow a state change.\<close>

definition confirmPrepared :: "SCPBallot \<Rightarrow> SCPBallot \<Rightarrow> Slot \<Rightarrow> (bool \<times> Slot) result" where
  "confirmPrepared newC newH s =
     (let raise = (case mHighBallot s of None \<Rightarrow> True | Some h \<Rightarrow> compareBallots newH h > 0);
          s = (if raise then s\<lparr>mHighBallot := Some newH\<rparr> else s) in
      bindE (if counter newC \<noteq> 0 then
               dbgAssert (mCommit s = None) (Inr (True, s\<lparr>mCommit := Some newC\<rparr>))
             else Inr (raise, s))
        (\<lambda>(didWork, s).
          if didWork then bindE (updateCurrentIfNeeded s) (\<lambda>s. Inr (True, s))
          else Inr (False, s)))"

definition setPreparedConfirmed ::
  "advance \<Rightarrow> 'a SCPContext_scheme \<Rightarrow> SCPBallot \<Rightarrow> SCPBallot \<Rightarrow> Slot \<Rightarrow> (bool \<times> Slot) result" where
  "setPreparedConfirmed adv ctx newC newH s =
     bindE (confirmPrepared newC newH s) (\<lambda>(didWork, s).
       didWorkThenEmit adv ctx (ConfirmedBallotPrepared newH) didWork s)"

definition attemptPreparedConfirmed ::
  "advance \<Rightarrow> 'a SCPContext_scheme \<Rightarrow> SCPStatement \<Rightarrow> Slot \<Rightarrow> (bool \<times> Slot) result" where
  "attemptPreparedConfirmed adv ctx hint s =
     (if mPhase s \<noteq> SCP_PHASE_PREPARE then Inr (False, s)
      else if mPrepared s = None then Inr (False, s)
      else bindE (getPrepareCandidates (pledges hint) s) (\<lambda>candidates.
        case findNewH ctx s (rev candidates) of
          None \<Rightarrow> Inr (False, s)
        | Some cur \<Rightarrow>
            let newH = hd cur;
                b = (case mCurrentBallot s of Some b \<Rightarrow> b | None \<Rightarrow> SCPBallot0);
                newC =
                  (if mCommit s = None \<and>
                      (case mPrepared s of Some p \<Rightarrow> \<not> areBallotsLessAndIncompatible newH p | None \<Rightarrow> True) \<and>
                      (case mPreparedPrime s of
                         Some p' \<Rightarrow> \<not> areBallotsLessAndIncompatible newH p' | None \<Rightarrow> True)
                   then findNewC ctx s b cur SCPBallot0
                   else SCPBallot0) in
            setPreparedConfirmed adv ctx newC newH s))"

section \<open>Committing\<close>

fun commitPredicate :: "SCPBallot \<Rightarrow> Interval \<Rightarrow> SCPPledges \<Rightarrow> bool" where
  "commitPredicate ballot check (Prepare _ _ _ _ _ _) \<longleftrightarrow> False"
| "commitPredicate ballot check (Confirm b _ nCommit nH _) \<longleftrightarrow>
     areBallotsCompatible ballot b \<and> nCommit \<le> fst check \<and> snd check \<le> nH"
| "commitPredicate ballot check (Externalize commit _ _) \<longleftrightarrow>
     areBallotsCompatible ballot commit \<and> counter commit \<le> fst check"
| "commitPredicate ballot check (Nominate _) \<longleftrightarrow> False"

text \<open>The filter of \<open>attemptAcceptCommit\<close>: does the statement vote to commit the ballot at
  every counter of the interval.\<close>

fun votesCommit :: "SCPBallot \<Rightarrow> Interval \<Rightarrow> SCPPledges \<Rightarrow> bool" where
  "votesCommit ballot cur (Prepare _ b _ _ nC nH) \<longleftrightarrow>
     areBallotsCompatible ballot b \<and> nC \<noteq> 0 \<and> nC \<le> fst cur \<and> snd cur \<le> nH"
| "votesCommit ballot cur (Confirm b _ nCommit _ _) \<longleftrightarrow>
     areBallotsCompatible ballot b \<and> nCommit \<le> fst cur"
| "votesCommit ballot cur (Externalize commit _ _) \<longleftrightarrow>
     areBallotsCompatible ballot commit \<and> counter commit \<le> fst cur"
| "votesCommit ballot cur (Nominate _) \<longleftrightarrow> False"

text \<open>The loop of \<open>findExtendedInterval\<close> over the boundaries from the top.\<close>

fun extendInterval :: "(Interval \<Rightarrow> bool) \<Rightarrow> uint32 list \<Rightarrow> Interval \<Rightarrow> Interval" where
  "extendInterval pred [] candidate = candidate"
| "extendInterval pred (b # bs) candidate =
     (if fst candidate \<noteq> 0 \<and> b > snd candidate then extendInterval pred bs candidate
      else
        let cur = (if fst candidate = 0 then (b, b) else (b, snd candidate)) in
        if pred cur then extendInterval pred bs cur
        else if fst candidate \<noteq> 0 then candidate
        else extendInterval pred bs candidate)"

definition findExtendedInterval :: "Interval \<Rightarrow> uint32 list \<Rightarrow> (Interval \<Rightarrow> bool) \<Rightarrow> Interval" where
  "findExtendedInterval candidate boundaries pred = extendInterval pred (rev boundaries) candidate"

fun commitBoundaries :: "SCPBallot \<Rightarrow> SCPPledges \<Rightarrow> uint32 list \<Rightarrow> uint32 list" where
  "commitBoundaries ballot (Prepare _ b _ _ nC nH) res =
     (if areBallotsCompatible ballot b then
        (if nC \<noteq> 0 then insort_insert nH (insort_insert nC res) else res)
      else res)"
| "commitBoundaries ballot (Confirm b _ nCommit nH _) res =
     (if areBallotsCompatible ballot b then insort_insert nH (insort_insert nCommit res) else res)"
| "commitBoundaries ballot (Externalize commit nH _) res =
     (if areBallotsCompatible ballot commit then
        insort_insert UINT32_MAX (insort_insert nH (insort_insert (counter commit) res))
      else res)"
| "commitBoundaries ballot (Nominate _) res = res"

definition getCommitBoundariesFromStatements :: "SCPBallot \<Rightarrow> Slot \<Rightarrow> uint32 list" where
  "getCommitBoundariesFromStatements ballot s =
     fold (\<lambda>(_, e). commitBoundaries ballot (pledges (statement e))) (mLatestEnvelopes s) []"

text \<open>\<open>setAcceptCommit\<close> up to the calls that follow a state change.\<close>

definition acceptCommit :: "SCPBallot \<Rightarrow> SCPBallot \<Rightarrow> Slot \<Rightarrow> (bool \<times> Slot) result" where
  "acceptCommit c h s =
     (let changed =
        (case (mHighBallot s, mCommit s) of
           (Some h0, Some c0) \<Rightarrow> compareBallots h0 h \<noteq> 0 \<or> compareBallots c0 c \<noteq> 0
         | _ \<Rightarrow> True);
          s = (if changed then s\<lparr>mCommit := Some c, mHighBallot := Some h\<rparr> else s) in
      bindE
        (if mPhase s = SCP_PHASE_PREPARE then
           let s = s\<lparr>mPhase := SCP_PHASE_CONFIRM\<rparr> in
           bindE (if (case mCurrentBallot s of
                        Some b \<Rightarrow> \<not> areBallotsLessAndCompatible h b | None \<Rightarrow> False)
                  then bumpToBallot h False s else Inr s)
             (\<lambda>s. Inr (True, s\<lparr>mPreparedPrime := None\<rparr>))
         else Inr (changed, s))
        (\<lambda>(didWork, s).
          if didWork then bindE (updateCurrentIfNeeded s) (\<lambda>s. Inr (True, s))
          else Inr (False, s)))"

definition setAcceptCommit ::
  "advance \<Rightarrow> 'a SCPContext_scheme \<Rightarrow> SCPBallot \<Rightarrow> SCPBallot \<Rightarrow> Slot \<Rightarrow> (bool \<times> Slot) result" where
  "setAcceptCommit adv ctx c h s =
     bindE (acceptCommit c h s) (\<lambda>(didWork, s).
       didWorkThenEmit adv ctx (AcceptedCommit h) didWork s)"

text \<open>The ballot a hint proposes to commit; \<open>None\<close> is the early \<open>return false\<close>.\<close>

fun acceptCommitHint :: "SCPPledges \<Rightarrow> SCPBallot option result" where
  "acceptCommitHint (Prepare _ ballot _ _ nC nH) =
     Inr (if nC \<noteq> 0 then Some (SCPBallot nH (value ballot)) else None)"
| "acceptCommitHint (Confirm ballot _ _ nH _) = Inr (Some (SCPBallot nH (value ballot)))"
| "acceptCommitHint (Externalize commit nH _) = Inr (Some (SCPBallot nH (value commit)))"
| "acceptCommitHint (Nominate _) = Inl DbgAbort"

definition attemptAcceptCommit ::
  "advance \<Rightarrow> 'a SCPContext_scheme \<Rightarrow> SCPStatement \<Rightarrow> Slot \<Rightarrow> (bool \<times> Slot) result" where
  "attemptAcceptCommit adv ctx hint s =
     (if mPhase s \<noteq> SCP_PHASE_PREPARE \<and> mPhase s \<noteq> SCP_PHASE_CONFIRM then Inr (False, s)
      else bindE (acceptCommitHint (pledges hint)) (\<lambda>hinted.
        case hinted of
          None \<Rightarrow> Inr (False, s)
        | Some ballot \<Rightarrow>
            let rest =
              (let pred = (\<lambda>cur. federatedAccept ctx (\<lambda>st. votesCommit ballot cur (pledges st))
                             (\<lambda>st. commitPredicate ballot cur (pledges st)) (mLatestEnvelopes s));
                   boundaries = getCommitBoundariesFromStatements ballot s in
               if boundaries = [] then Inr (False, s)
               else
                 let candidate = findExtendedInterval (0, 0) boundaries pred;
                     set = setAcceptCommit adv ctx (SCPBallot (fst candidate) (value ballot))
                             (SCPBallot (snd candidate) (value ballot)) s in
                 if fst candidate \<noteq> 0 then
                   (if mPhase s \<noteq> SCP_PHASE_CONFIRM then set
                    else deref (mHighBallot s) (\<lambda>h.
                      if snd candidate > counter h then set else Inr (False, s)))
                 else Inr (False, s)) in
            if mPhase s = SCP_PHASE_CONFIRM then
              deref (mHighBallot s) (\<lambda>h.
                if \<not> areBallotsCompatible ballot h then Inr (False, s) else rest)
            else rest))"

fun confirmCommitHint :: "SCPPledges \<Rightarrow> SCPBallot option result" where
  "confirmCommitHint (Prepare _ _ _ _ _ _) = Inr None"
| "confirmCommitHint (Confirm ballot _ _ nH _) = Inr (Some (SCPBallot nH (value ballot)))"
| "confirmCommitHint (Externalize commit nH _) = Inr (Some (SCPBallot nH (value commit)))"
| "confirmCommitHint (Nominate _) = Inl DbgAbort"

definition setConfirmCommit ::
  "advance \<Rightarrow> 'a SCPContext_scheme \<Rightarrow> SCPBallot \<Rightarrow> SCPBallot \<Rightarrow> Slot \<Rightarrow> (bool \<times> Slot) result" where
  "setConfirmCommit adv ctx c h s =
     (let s = s\<lparr>mCommit := Some c, mHighBallot := Some h\<rparr> in
      bindE (updateCurrentIfNeeded s) (\<lambda>s.
      bindE (emitCurrentStateStatement adv ctx (s\<lparr>mPhase := SCP_PHASE_EXTERNALIZE\<rparr>)) (\<lambda>(_, s).
      let s = stopNomination s in
      deref (mCommit s) (\<lambda>c. Inr (True, driverCall (ValueExternalized (value c)) s)))))"

definition attemptConfirmCommit ::
  "advance \<Rightarrow> 'a SCPContext_scheme \<Rightarrow> SCPStatement \<Rightarrow> Slot \<Rightarrow> (bool \<times> Slot) result" where
  "attemptConfirmCommit adv ctx hint s =
     (if mPhase s \<noteq> SCP_PHASE_CONFIRM then Inr (False, s)
      else case (mHighBallot s, mCommit s) of
        (Some _, Some cm) \<Rightarrow>
          bindE (confirmCommitHint (pledges hint)) (\<lambda>hinted.
            case hinted of
              None \<Rightarrow> Inr (False, s)
            | Some ballot \<Rightarrow>
                if \<not> areBallotsCompatible ballot cm then Inr (False, s)
                else
                  let boundaries = getCommitBoundariesFromStatements ballot s;
                      pred = (\<lambda>cur. federatedRatify ctx
                                (\<lambda>st. commitPredicate ballot cur (pledges st)) (mLatestEnvelopes s));
                      candidate = findExtendedInterval (0, 0) boundaries pred in
                  if fst candidate \<noteq> 0 then
                    setConfirmCommit adv ctx (SCPBallot (fst candidate) (value ballot))
                      (SCPBallot (snd candidate) (value ballot)) s
                  else Inr (False, s))
      | _ \<Rightarrow> Inr (False, s))"

section \<open>Advancing\<close>

definition allCounters :: "Slot \<Rightarrow> uint32 list" where
  "allCounters s =
     fold (\<lambda>(_, e).
             (case pledges (statement e) of
                Prepare _ b _ _ _ _ \<Rightarrow> insort_insert (counter b)
              | Confirm b _ _ _ _ \<Rightarrow> insort_insert (counter b)
              | Externalize _ _ _ \<Rightarrow> insort_insert UINT32_MAX
              | Nominate _ \<Rightarrow> id))
       (mLatestEnvelopes s) []"

definition isAhead :: "uint32 \<Rightarrow> SCPPledges \<Rightarrow> bool" where
  "isAhead n pl =
     (case pl of
        Prepare _ b _ _ _ _ \<Rightarrow> n < counter b
      | Confirm b _ _ _ _ \<Rightarrow> n < counter b
      | _ \<Rightarrow> n \<noteq> UINT32_MAX)"

fun bumpCounterLoop ::
  "advance \<Rightarrow> 'a SCPContext_scheme \<Rightarrow> uint32 \<Rightarrow> uint32 list \<Rightarrow> Slot \<Rightarrow> (bool \<times> Slot) result" where
  "bumpCounterLoop adv ctx targetCounter [] s = Inr (False, s)"
| "bumpCounterLoop adv ctx targetCounter (n # ns) s =
     (if n < targetCounter then Inr (False, s)
      else
        let vBlocking = isVBlockingMap (getQuorumSet ctx) (mLatestEnvelopes s)
                          (\<lambda>st. isAhead n (pledges st)) in
        if n = targetCounter then
          (if \<not> vBlocking then Inr (False, s) else bumpCounterLoop adv ctx targetCounter ns s)
        else
          (if \<not> vBlocking then abandonBallot adv ctx n s
           else bumpCounterLoop adv ctx targetCounter ns s))"

definition attemptBump ::
  "advance \<Rightarrow> 'a SCPContext_scheme \<Rightarrow> Slot \<Rightarrow> (bool \<times> Slot) result" where
  "attemptBump adv ctx s =
     (if mPhase s = SCP_PHASE_PREPARE \<or> mPhase s = SCP_PHASE_CONFIRM then
        let targetCounter = (case mCurrentBallot s of Some b \<Rightarrow> counter b | None \<Rightarrow> 0) in
        bumpCounterLoop adv ctx targetCounter (insort_insert targetCounter (allCounters s)) s
      else Inr (False, s))"

text \<open>The \<open>do\<close>-loop at the end of \<open>advanceSlot\<close>: bump as long as that succeeds.\<close>

fun bumpLoop ::
  "nat \<Rightarrow> advance \<Rightarrow> 'a SCPContext_scheme \<Rightarrow> bool \<Rightarrow> Slot \<Rightarrow> (bool \<times> Slot) result" where
  "bumpLoop 0 adv ctx didWork s = Inl OutOfFuel"
| "bumpLoop (Suc n) adv ctx didWork s =
     bindE (attemptBump adv ctx s) (\<lambda>(didBump, s).
       if didBump then bumpLoop n adv ctx True s else Inr (didWork, s))"

definition hearFromQuorum :: "'a SCPContext_scheme \<Rightarrow> Slot \<Rightarrow> Slot" where
  "hearFromQuorum ctx s =
     (case mCurrentBallot s of
        Some b \<Rightarrow>
          (if \<not> mHeardFromQuorum s \<and>
              isQuorum (getQuorumSet ctx) (mLatestEnvelopes s) (getQuorumSetFromStatement ctx)
                (\<lambda>st. case pledges st of
                   Prepare _ b' _ _ _ _ \<Rightarrow> counter b \<le> counter b' | _ \<Rightarrow> True)
           then driverCall (BallotDidHearFromQuorum b) (s\<lparr>mHeardFromQuorum := True\<rparr>)
           else s)
      | None \<Rightarrow> s)"

text \<open>The four \<open>attempt\<close> calls in order, each passed the outcome of those before.\<close>

definition attemptSteps ::
  "advance \<Rightarrow> 'a SCPContext_scheme \<Rightarrow> SCPStatement \<Rightarrow> Slot \<Rightarrow> (bool \<times> Slot) result" where
  "attemptSteps adv ctx hint s =
     bindE (attemptPreparedAccept adv ctx hint s) (\<lambda>(w1, s).
     bindE (attemptPreparedConfirmed adv ctx hint s) (\<lambda>(w2, s).
     bindE (attemptAcceptCommit adv ctx hint s) (\<lambda>(w3, s).
     bindE (attemptConfirmCommit adv ctx hint s) (\<lambda>(w4, s).
       Inr (w1 \<or> w2 \<or> w3 \<or> w4, s)))))"

fun advanceSlot :: "nat \<Rightarrow> 'a SCPContext_scheme \<Rightarrow> advance" where
  "advanceSlot 0 ctx hint s = Inl OutOfFuel"
| "advanceSlot (Suc fuel) ctx hint s =
     (let s = s\<lparr>mCurrentMessageLevel := mCurrentMessageLevel s + 1\<rparr> in
      if mCurrentMessageLevel s \<ge> MAX_ADVANCE_SLOT_RECURSION then
        Inl (RuntimeError ''maximum number of transitions reached in advanceSlot'')
      else
        bindE (attemptSteps (advanceSlot fuel ctx) ctx hint (hearFromQuorum ctx s)) (\<lambda>(didWork, s).
        bindE (if mCurrentMessageLevel s = 1
               then bumpLoop fuel (advanceSlot fuel ctx) ctx didWork s
               else Inr (didWork, s)) (\<lambda>(didWork, s).
        let s = s\<lparr>mCurrentMessageLevel := mCurrentMessageLevel s - 1\<rparr> in
        Inr ((), if didWork then sendLatestEnvelope s else s))))"

section \<open>Restoring and reporting the state\<close>

definition setStateFromEnvelope :: "SCPEnvelope \<Rightarrow> Slot \<Rightarrow> Slot result" where
  "setStateFromEnvelope e s =
     (if mCurrentBallot s \<noteq> None then
        Inl (RuntimeError ''Cannot set state after starting ballot protocol'')
      else
        let s = recordEnvelope e s;
            ptr = Some (mAllocations s, e);
            s = s\<lparr>mLastEnvelope := ptr, mAllocations := Suc (mAllocations s), mLastEnvelopeEmit := ptr\<rparr> in
        case pledges (statement e) of
          Prepare _ b prepared preparedPrime nC nH \<Rightarrow>
            bindE (bumpToBallot b True s) (\<lambda>s.
              let s = (if prepared \<noteq> None then s\<lparr>mPrepared := prepared\<rparr> else s);
                  s = (if preparedPrime \<noteq> None then s\<lparr>mPreparedPrime := preparedPrime\<rparr> else s);
                  s = (if nH \<noteq> 0 then s\<lparr>mHighBallot := Some (SCPBallot nH (value b))\<rparr> else s);
                  s = (if nC \<noteq> 0 then s\<lparr>mCommit := Some (SCPBallot nC (value b))\<rparr> else s) in
              Inr (s\<lparr>mPhase := SCP_PHASE_PREPARE\<rparr>))
        | Confirm b nPrepared nCommit nH _ \<Rightarrow>
            bindE (bumpToBallot b True s) (\<lambda>s.
              Inr (s\<lparr>mPrepared := Some (SCPBallot nPrepared (value b)),
                     mHighBallot := Some (SCPBallot nH (value b)),
                     mCommit := Some (SCPBallot nCommit (value b)),
                     mPhase := SCP_PHASE_CONFIRM\<rparr>))
        | Externalize commit nH _ \<Rightarrow>
            bindE (bumpToBallot (SCPBallot UINT32_MAX (value commit)) True s) (\<lambda>s.
              Inr (s\<lparr>mPrepared := Some (SCPBallot UINT32_MAX (value commit)),
                     mHighBallot := Some (SCPBallot nH (value commit)),
                     mCommit := Some commit,
                     mPhase := SCP_PHASE_EXTERNALIZE\<rparr>))
        | Nominate _ \<Rightarrow> Inl DbgAbort)"

definition getCurrentState :: "'a SCPContext_scheme \<Rightarrow> Slot \<Rightarrow> SCPEnvelope list" where
  "getCurrentState ctx s =
     map snd (filter (\<lambda>(n, _). n \<noteq> getLocalNodeID ctx \<or> mFullyValidated s) (mLatestEnvelopes s))"

definition getExternalizingState :: "'a SCPContext_scheme \<Rightarrow> Slot \<Rightarrow> SCPEnvelope list result" where
  "getExternalizingState ctx s =
     (if mPhase s = SCP_PHASE_EXTERNALIZE \<and> mLatestEnvelopes s \<noteq> [] then
        if mCommit s = None \<and> (\<exists>(n, _) \<in> set (mLatestEnvelopes s). n \<noteq> getLocalNodeID ctx)
        then Inl NullDeref
        else Inr (map snd (filter (\<lambda>(n, e).
               if n \<noteq> getLocalNodeID ctx then
                 (case mCommit s of
                    Some c \<Rightarrow> areBallotsCompatible (getWorkingBallot (pledges (statement e))) c
                  | None \<Rightarrow> False)
               else mFullyValidated s) (mLatestEnvelopes s)))
      else Inr [])"

end
