(* ===== verification/Nomination_Protocol.thy ===== *)
theory Nomination_Protocol
  imports Ballot_Protocol
begin

text \<open>
  \<open>src/scp/NominationProtocol.cpp\<close>: nomination of the values among which the ballot
  protocol chooses. A node that changes what it votes for or accepts emits a nomination,
  which it processes as its own, so \<open>processEnvelope\<close> is recursive; it takes fuel, and the
  \<open>advanceSlot\<close> of the ballot protocol it starts when candidates are found as \<open>adv\<close>. The
  accessor \<open>nominate()\<close> on pledges of another kind raises in \<open>xdrpp\<close>; the predicates over
  recorded nominations answer false there, and only nominations are recorded.
\<close>

section \<open>Nominations\<close>

definition xdr_wrong_union :: error where
  "xdr_wrong_union = RuntimeError ''xdr_wrong_union''"

definition nominateOf :: "SCPStatement \<Rightarrow> (SCPNomination \<Rightarrow> 'b result) \<Rightarrow> 'b result" where
  "nominateOf st k = (case pledges st of Nominate nom \<Rightarrow> k nom | _ \<Rightarrow> Inl xdr_wrong_union)"

text \<open>\<open>std::includes\<close>: does the first sorted range contain the second.\<close>

fun std_includes :: "'a::linorder list \<Rightarrow> 'a list \<Rightarrow> bool" where
  "std_includes vs [] = True"
| "std_includes [] (p # ps) = False"
| "std_includes (v # vs) (p # ps) =
     (if p < v then False
      else if v < p then std_includes vs (p # ps)
      else std_includes vs ps)"

text \<open>The pair is the value returned and what is stored in \<open>notEqual\<close>.\<close>

definition isSubsetHelper :: "Value list \<Rightarrow> Value list \<Rightarrow> bool \<times> bool" where
  "isSubsetHelper p v =
     (if length p \<le> length v then
        (let res = std_includes v p in
         if res then (res, length p \<noteq> length v) else (res, True))
      else (False, True))"

definition isNewerNomination :: "SCPNomination \<Rightarrow> SCPNomination \<Rightarrow> bool" where
  "isNewerNomination oldst st =
     (let (sub, g) = isSubsetHelper (votes oldst) (votes st) in
      if sub then
        (let grows = g; (sub, g) = isSubsetHelper (accepted oldst) (accepted st) in
         if sub then grows \<or> g else False)
      else False)"

definition isNewerNominationFrom :: "NodeID \<Rightarrow> SCPNomination \<Rightarrow> Slot \<Rightarrow> bool result" where
  "isNewerNominationFrom node st s =
     (case map_of (mLatestNominations s) node of
        None \<Rightarrow> Inr True
      | Some old \<Rightarrow> nominateOf (statement old) (\<lambda>oldst. Inr (isNewerNomination oldst st)))"

text \<open>\<open>adjacent_find\<close> of a pair out of order finds none.\<close>

fun strictlyOrdered :: "'a::linorder list \<Rightarrow> bool" where
  "strictlyOrdered (l # r # xs) = (if \<not> l < r then False else strictlyOrdered (r # xs))"
| "strictlyOrdered _ = True"

definition isSane :: "SCPNomination \<Rightarrow> bool" where
  "isSane nom \<longleftrightarrow>
     length (votes nom) + length (accepted nom) \<noteq> 0 \<and>
     strictlyOrdered (votes nom) \<and> strictlyOrdered (accepted nom)"

definition recordNomination :: "SCPEnvelope \<Rightarrow> Slot \<Rightarrow> Slot" where
  "recordNomination env s =
     recordStatement (statement env)
       (s\<lparr>mLatestNominations := map_put (nodeID (statement env)) env (mLatestNominations s)\<rparr>)"

fun acceptPredicate :: "Value \<Rightarrow> SCPPledges \<Rightarrow> bool" where
  "acceptPredicate v (Nominate nom) = (v \<in> set (accepted nom))"
| "acceptPredicate v _ = False"

fun votePredicate :: "Value \<Rightarrow> SCPPledges \<Rightarrow> bool" where
  "votePredicate v (Nominate nom) = (v \<in> set (votes nom))"
| "votePredicate v _ = False"

text \<open>The values \<open>applyAll\<close> visits, in order; also \<open>getStatementValues\<close>.\<close>

definition applyAllValues :: "SCPNomination \<Rightarrow> Value list" where
  "applyAllValues nom = votes nom @ accepted nom"

section \<open>Leaders\<close>

definition hashNode :: "'a SCPContext_scheme \<Rightarrow> bool \<Rightarrow> NodeID \<Rightarrow> Slot \<Rightarrow> uint64 result" where
  "hashNode ctx isPriority node s =
     dbgAssert (mPreviousValue s \<noteq> [])
       (Inr (drv_computeHashNode (mDriver ctx) (mSlotIndex s) (mPreviousValue s) isPriority
              (mRoundNumber s) node))"

definition hashValue :: "'a SCPContext_scheme \<Rightarrow> Value \<Rightarrow> Slot \<Rightarrow> uint64 result" where
  "hashValue ctx v s =
     dbgAssert (mPreviousValue s \<noteq> [])
       (Inr (drv_computeValueHash (mDriver ctx) (mSlotIndex s) (mPreviousValue s) (mRoundNumber s) v))"

definition getNodePriority :: "'a SCPContext_scheme \<Rightarrow> NodeID \<Rightarrow> SCPQuorumSet \<Rightarrow> Slot \<Rightarrow> uint64 result" where
  "getNodePriority ctx node qset s =
     bindE (getNodeWeight node qset) (\<lambda>w.
     bindE (hashNode ctx False node s) (\<lambda>n.
       if n < w then hashNode ctx True node s else Inr 0))"

definition leaderStep ::
  "'a SCPContext_scheme \<Rightarrow> Slot \<Rightarrow> NodeID \<Rightarrow> (uint64 \<times> NodeID list) result \<Rightarrow>
   (uint64 \<times> NodeID list) result" where
  "leaderStep ctx s cur acc =
     bindE acc (\<lambda>(topPriority, leaders).
     bindE (getNodePriority ctx cur (getQuorumSet ctx) s) (\<lambda>w.
       let (topPriority, leaders) = (if w > topPriority then (w, []) else (topPriority, leaders)) in
       Inr (topPriority,
            if w = topPriority \<and> w > 0 then insort_insert cur leaders else leaders)))"

definition updateRoundLeaders :: "'a SCPContext_scheme \<Rightarrow> Slot \<Rightarrow> Slot result" where
  "updateRoundLeaders ctx s =
     bindE (forAllNodes (getQuorumSet ctx) (leaderStep ctx s) (Inr (0, [])))
       (\<lambda>(_, leaders). Inr (s\<lparr>mRoundLeaders := leaders\<rparr>))"

text \<open>\<open>getNewValueFromNomination\<close>: the loop keeps \<open>newVote\<close> and \<open>newHash\<close>.\<close>

definition valueToNominate :: "'a SCPContext_scheme \<Rightarrow> Value \<Rightarrow> Slot \<Rightarrow> Value" where
  "valueToNominate ctx v s =
     (if drv_validateValue (mDriver ctx) (mSlotIndex s) v = kFullyValidatedValue then v
      else drv_extractValidValue (mDriver ctx) (mSlotIndex s) v)"

fun newValueLoop ::
  "'a SCPContext_scheme \<Rightarrow> Slot \<Rightarrow> Value list \<Rightarrow> Value \<Rightarrow> uint64 \<Rightarrow> Value result" where
  "newValueLoop ctx s [] newVote newHash = Inr newVote"
| "newValueLoop ctx s (v # vs) newVote newHash =
     (let v = valueToNominate ctx v s in
      if v \<noteq> [] \<and> v \<notin> set (mVotes s) then
        bindE (hashValue ctx v s) (\<lambda>curHash.
          if curHash \<ge> newHash then newValueLoop ctx s vs v curHash
          else newValueLoop ctx s vs newVote newHash)
      else newValueLoop ctx s vs newVote newHash)"

definition getNewValueFromNomination ::
  "'a SCPContext_scheme \<Rightarrow> SCPNomination \<Rightarrow> Slot \<Rightarrow> Value result" where
  "getNewValueFromNomination ctx nom s = newValueLoop ctx s (applyAllValues nom) [] 0"

section \<open>Processing nominations\<close>

type_synonym nom_process = "SCPEnvelope \<Rightarrow> Slot \<Rightarrow> (EnvelopeState \<times> Slot) result"

definition emitNomination ::
  "nom_process \<Rightarrow> 'a SCPContext_scheme \<Rightarrow> Slot \<Rightarrow> (unit \<times> Slot) result" where
  "emitNomination process ctx s =
     (let nom = \<lparr>nom_quorumSetHash = getQuorumSetHash ctx, votes = mVotes s, accepted = mAccepted s\<rparr>;
          envelope = createEnvelope ctx (Nominate nom) s in
      bindE (process envelope s) (\<lambda>(res, s).
        if res = VALID then
          bindE (case mLastNomination s of
                   None \<Rightarrow> Inr True
                 | Some l \<Rightarrow> nominateOf (statement l) (\<lambda>lst. Inr (isNewerNomination lst nom)))
            (\<lambda>newer.
              if newer then
                let s = s\<lparr>mLastNomination := Some envelope\<rparr> in
                Inr ((), if mFullyValidated s then driverCall (EmitEnvelope envelope) s else s)
              else Inr ((), s))
        else Inl (RuntimeError ''moved to a bad state (nomination)'')))"

text \<open>The first loop promotes votes to accepted values, the second accepted values to
  candidates; both report whether they changed anything.\<close>

fun promoteVotes :: "'a SCPContext_scheme \<Rightarrow> Value list \<Rightarrow> bool \<Rightarrow> Slot \<Rightarrow> bool \<times> Slot" where
  "promoteVotes ctx [] modified s = (modified, s)"
| "promoteVotes ctx (v # vs) modified s =
     (if v \<in> set (mAccepted s) then promoteVotes ctx vs modified s
      else if federatedAccept ctx (\<lambda>st. votePredicate v (pledges st))
                (\<lambda>st. acceptPredicate v (pledges st)) (mLatestNominations s)
      then
        (if drv_validateValue (mDriver ctx) (mSlotIndex s) v = kFullyValidatedValue
         then promoteVotes ctx vs True
                (s\<lparr>mAccepted := insort_insert v (mAccepted s), mVotes := insort_insert v (mVotes s)\<rparr>)
         else
           let toVote = drv_extractValidValue (mDriver ctx) (mSlotIndex s) v in
           if toVote \<noteq> [] \<and> toVote \<notin> set (mVotes s)
           then promoteVotes ctx vs True (s\<lparr>mVotes := insort_insert toVote (mVotes s)\<rparr>)
           else promoteVotes ctx vs modified s)
      else promoteVotes ctx vs modified s)"

fun promoteAccepted :: "'a SCPContext_scheme \<Rightarrow> Value list \<Rightarrow> bool \<Rightarrow> Slot \<Rightarrow> bool \<times> Slot" where
  "promoteAccepted ctx [] newCandidates s = (newCandidates, s)"
| "promoteAccepted ctx (a # as) newCandidates s =
     (if a \<in> set (mCandidates s) then promoteAccepted ctx as newCandidates s
      else if federatedRatify ctx (\<lambda>st. acceptPredicate a (pledges st)) (mLatestNominations s)
      then promoteAccepted ctx as True (s\<lparr>mCandidates := insort_insert a (mCandidates s)\<rparr>)
      else promoteAccepted ctx as newCandidates s)"

text \<open>A vote taken from a leader, while there is no candidate yet.\<close>

definition voteFromLeader ::
  "'a SCPContext_scheme \<Rightarrow> NodeID \<Rightarrow> SCPNomination \<Rightarrow> bool \<Rightarrow> Slot \<Rightarrow> (bool \<times> Slot) result" where
  "voteFromLeader ctx node nom modified s =
     (if mCandidates s = [] \<and> node \<in> set (mRoundLeaders s) then
        bindE (getNewValueFromNomination ctx nom s) (\<lambda>newVote.
          if newVote \<noteq> [] then
            Inr (True, driverCall (NominatingValue newVote)
                         (s\<lparr>mVotes := insort_insert newVote (mVotes s)\<rparr>))
          else Inr (modified, s))
      else Inr (modified, s))"

text \<open>New candidates are combined and start the ballot protocol.\<close>

definition combineAndBump ::
  "advance \<Rightarrow> 'a SCPContext_scheme \<Rightarrow> Slot \<Rightarrow> (unit \<times> Slot) result" where
  "combineAndBump adv ctx s =
     (let v = drv_combineCandidates (mDriver ctx) (mSlotIndex s) (mCandidates s);
          s = driverCall (UpdatedCandidateValue v) (s\<lparr>mLatestCompositeCandidate := v\<rparr>) in
      bindE (bumpState adv ctx v False s) (\<lambda>(_, s). Inr ((), s)))"

definition nominationStep ::
  "nom_process \<Rightarrow> advance \<Rightarrow> 'a SCPContext_scheme \<Rightarrow> NodeID \<Rightarrow> SCPNomination \<Rightarrow> Slot \<Rightarrow> (unit \<times> Slot) result" where
  "nominationStep process adv ctx node nom s =
     (let (modified, s) = promoteVotes ctx (votes nom) False s;
          (newCandidates, s) = promoteAccepted ctx (mAccepted s) False s in
      bindE (voteFromLeader ctx node nom modified s) (\<lambda>(modified, s).
      bindE (if modified then emitNomination process ctx s else Inr ((), s)) (\<lambda>(_, s).
        if newCandidates then combineAndBump adv ctx s else Inr ((), s))))"

fun processNomination :: "nat \<Rightarrow> advance \<Rightarrow> 'a SCPContext_scheme \<Rightarrow> nom_process" where
  "processNomination 0 adv ctx envelope s = Inl OutOfFuel"
| "processNomination (Suc fuel) adv ctx envelope s =
     (let st = statement envelope in
      dbgAssert (slotIndex st = mSlotIndex s)
       (nominateOf st (\<lambda>nom.
        bindE (isNewerNominationFrom (nodeID st) nom s) (\<lambda>newer.
        if newer \<and> isSane nom then
          let s = recordNomination envelope s in
          if mNominationStarted s then
            bindE (nominationStep (processNomination fuel adv ctx) adv ctx (nodeID st) nom s)
              (\<lambda>(_, s). Inr (VALID, s))
          else Inr (VALID, s)
        else Inr (INVALID, s)))))"

section \<open>Nominating\<close>

text \<open>The loop over the leaders of the round; the last value found is kept.\<close>

fun voteForLeaders ::
  "'a SCPContext_scheme \<Rightarrow> NodeID list \<Rightarrow> Value \<Rightarrow> bool \<Rightarrow> Slot \<Rightarrow> (Value \<times> bool \<times> Slot) result" where
  "voteForLeaders ctx [] nominating updated s = Inr (nominating, updated, s)"
| "voteForLeaders ctx (leader # ls) nominating updated s =
     (case map_of (mLatestNominations s) leader of
        None \<Rightarrow> voteForLeaders ctx ls nominating updated s
      | Some e \<Rightarrow>
          nominateOf (statement e) (\<lambda>nom.
          bindE (getNewValueFromNomination ctx nom s) (\<lambda>v.
            if v \<noteq> [] then
              voteForLeaders ctx ls v True (s\<lparr>mVotes := insort_insert v (mVotes s)\<rparr>)
            else voteForLeaders ctx ls v updated s)))"

text \<open>The end of \<open>nominate\<close>: the driver is told, the timer started and the votes emitted.\<close>

definition announceNomination ::
  "nom_process \<Rightarrow> 'a SCPContext_scheme \<Rightarrow> Value \<Rightarrow> bool \<Rightarrow> Slot \<Rightarrow> (bool \<times> Slot) result" where
  "announceNomination process ctx nominating updated s =
     (let timeout = computeTimeout (word_of_int (mRoundNumber s));
          s = driverCall (NominatingValue nominating) s;
          s = driverCall (SetupTimer NOMINATION_TIMER timeout) s in
      if updated then bindE (emitNomination process ctx s) (\<lambda>(_, s). Inr (updated, s))
      else Inr (updated, s))"

definition nominate ::
  "nom_process \<Rightarrow> 'a SCPContext_scheme \<Rightarrow> Value \<Rightarrow> Value \<Rightarrow> bool \<Rightarrow> Slot \<Rightarrow> (bool \<times> Slot) result" where
  "nominate process ctx v previousValue timedout s =
     (if timedout \<and> \<not> mNominationStarted s then Inr (False, s)
      else
        let s = s\<lparr>mNominationStarted := True, mPreviousValue := previousValue,
                  mRoundNumber := mRoundNumber s + 1\<rparr> in
        bindE (updateRoundLeaders ctx s) (\<lambda>s.
        bindE (if getLocalNodeID ctx \<in> set (mRoundLeaders s)
               then Inr (v, v \<notin> set (mVotes s), s\<lparr>mVotes := insort_insert v (mVotes s)\<rparr>)
               else voteForLeaders ctx (mRoundLeaders s) [] False s) (\<lambda>(nominating, updated, s).
          announceNomination process ctx nominating updated s)))"

definition setNominationFromEnvelope :: "SCPEnvelope \<Rightarrow> Slot \<Rightarrow> Slot result" where
  "setNominationFromEnvelope e s =
     (if mNominationStarted s then
        Inl (RuntimeError ''Cannot set state after nomination is started'')
      else
        let s = recordNomination e s in
        nominateOf (statement e) (\<lambda>nom.
          Inr (s\<lparr>mAccepted := fold insort_insert (accepted nom) (mAccepted s),
                 mVotes := fold insort_insert (votes nom) (mVotes s),
                 mLastNomination := Some e\<rparr>)))"

definition getNominationState :: "'a SCPContext_scheme \<Rightarrow> Slot \<Rightarrow> SCPEnvelope list" where
  "getNominationState ctx s =
     map snd (filter (\<lambda>(n, _). n \<noteq> getLocalNodeID ctx \<or> mFullyValidated s) (mLatestNominations s))"

end
