(* ===== verification/Ballot_Steps.thy ===== *)
theory Ballot_Steps
  imports Ballot_Protocol
begin

text \<open>
  The ballot protocol as a state machine. \<open>bprim\<close> has one rule per change the code makes
  to the slot between two calls of \<open>advanceSlot\<close>, with the conditions under which the
  code makes it. Every operation that returns, at whatever depth of recursion and for
  whatever fuel, has taken the slot through a sequence of such changes
  (\<open>advanceSlot_runs\<close> and the lemmas after it), so that what holds of the single changes
  holds of the operations.
\<close>

section \<open>Frames of the elementary operations\<close>

definition invariants_hold :: "Slot \<Rightarrow> bool" where
  "invariants_hold s \<longleftrightarrow>
     (case mCurrentBallot s of None \<Rightarrow> True | Some b \<Rightarrow> counter b \<noteq> 0) \<and>
     (case (mPrepared s, mPreparedPrime s) of
        (Some p, Some p') \<Rightarrow> p' < p \<and> value p' \<noteq> value p | _ \<Rightarrow> True) \<and>
     (case mCommit s of
        None \<Rightarrow> mPhase s = SCP_PHASE_PREPARE
      | Some c \<Rightarrow> (\<exists>b h. mCurrentBallot s = Some b \<and> mHighBallot s = Some h \<and>
                      c \<le> h \<and> h \<le> b \<and> value c = value h \<and> value h = value b))"

lemma checkInvariants_Inr [result_simps]:
  "checkInvariants s k = Inr y \<longleftrightarrow> invariants_hold s \<and> k = Inr y"
  by (auto simp: checkInvariants_def invariants_hold_def Let_def ballot_order result_simps
      order_less_le split: option.splits SCPPhase.splits)

lemma checkInvariants_fuel: "checkInvariants s k = Inl OutOfFuel \<Longrightarrow> k = Inl OutOfFuel"
  by (auto simp: checkInvariants_def Let_def result_simps split: option.splits SCPPhase.splits)

lemma startBallotProtocolTimer_Inr [result_simps]:
  "startBallotProtocolTimer s = Inr t \<longleftrightarrow> (\<exists>b. mCurrentBallot s = Some b \<and>
     t = driverCall (SetupTimer BALLOT_PROTOCOL_TIMER (computeTimeout (counter b))) s)"
  by (auto simp: startBallotProtocolTimer_def result_simps)

text \<open>The slot after its current ballot was set, with the timer restarted or not.\<close>

definition bumped :: "SCPBallot \<Rightarrow> Slot \<Rightarrow> Slot" where
  "bumped b s =
     (let t = s\<lparr>mCurrentBallot := Some b, mHeardFromQuorum := False\<rparr> in
      if mCurrentBallot s \<noteq> Some b
      then driverCall (SetupTimer BALLOT_PROTOCOL_TIMER (computeTimeout (counter b))) t else t)"

lemma bumpToBallot_Inr [result_simps]:
  "bumpToBallot b check s = Inr t \<longleftrightarrow>
     mPhase s \<noteq> SCP_PHASE_EXTERNALIZE \<and> t = bumped b s \<and>
     (check \<longrightarrow> (case mCurrentBallot s of None \<Rightarrow> True | Some b0 \<Rightarrow> b0 \<le> b))"
  by (auto simp: bumpToBallot_def bumped_def Let_def result_simps ballot_order split: option.splits)

lemma driverCall_frame [simp]:
  "mHeardFromQuorum (driverCall c s) = mHeardFromQuorum s"
  "mCurrentBallot (driverCall c s) = mCurrentBallot s"
  "mPrepared (driverCall c s) = mPrepared s"
  "mPreparedPrime (driverCall c s) = mPreparedPrime s"
  "mHighBallot (driverCall c s) = mHighBallot s"
  "mCommit (driverCall c s) = mCommit s"
  "mLatestEnvelopes (driverCall c s) = mLatestEnvelopes s"
  "mPhase (driverCall c s) = mPhase s"
  "mCurrentMessageLevel (driverCall c s) = mCurrentMessageLevel s"
  "mLastEnvelope (driverCall c s) = mLastEnvelope s"
  "mLastEnvelopeEmit (driverCall c s) = mLastEnvelopeEmit s"
  "mAllocations (driverCall c s) = mAllocations s"
  "mSlotIndex (driverCall c s) = mSlotIndex s"
  "mStatementsHistory (driverCall c s) = mStatementsHistory s"
  "mFullyValidated (driverCall c s) = mFullyValidated s"
  "mDriverCalls (driverCall c s) = mDriverCalls s @ [c]"
  "mVotes (driverCall c s) = mVotes s"
  "mAccepted (driverCall c s) = mAccepted s"
  "mCandidates (driverCall c s) = mCandidates s"
  "mLatestNominations (driverCall c s) = mLatestNominations s"
  by (simp_all add: driverCall_def)

lemma invariants_hold_driverCall [simp]: "invariants_hold (driverCall c s) \<longleftrightarrow> invariants_hold s"
  by (simp add: invariants_hold_def split: option.split)

lemma bumped_frame [simp]:
  "mCurrentBallot (bumped b s) = Some b"
  "mPrepared (bumped b s) = mPrepared s"
  "mPreparedPrime (bumped b s) = mPreparedPrime s"
  "mHighBallot (bumped b s) = mHighBallot s"
  "mCommit (bumped b s) = mCommit s"
  "mLatestEnvelopes (bumped b s) = mLatestEnvelopes s"
  "mPhase (bumped b s) = mPhase s"
  "mCurrentMessageLevel (bumped b s) = mCurrentMessageLevel s"
  "mLastEnvelope (bumped b s) = mLastEnvelope s"
  "mLastEnvelopeEmit (bumped b s) = mLastEnvelopeEmit s"
  "mAllocations (bumped b s) = mAllocations s"
  "mSlotIndex (bumped b s) = mSlotIndex s"
  "mFullyValidated (bumped b s) = mFullyValidated s"
  by (simp_all add: bumped_def Let_def)

lemma updateCurrentIfNeeded_Inr [result_simps]:
  "updateCurrentIfNeeded s = Inr t \<longleftrightarrow>
     (\<exists>h. mHighBallot s = Some h \<and>
       (case mCurrentBallot s of
          None \<Rightarrow> mPhase s \<noteq> SCP_PHASE_EXTERNALIZE \<and> t = bumped h s
        | Some b \<Rightarrow> if b < h then mPhase s \<noteq> SCP_PHASE_EXTERNALIZE \<and> t = bumped h s else t = s))"
  by (cases "mHighBallot s"; cases "mCurrentBallot s")
    (simp_all add: updateCurrentIfNeeded_def result_simps ballot_order less_imp_le eq_commute [of s t])

lemma updateCurrentValue_True:
  "updateCurrentValue b s = Inr (True, t) \<longleftrightarrow>
     mPhase s \<noteq> SCP_PHASE_EXTERNALIZE \<and> t = bumped b s \<and> invariants_hold t \<and>
     (case mCurrentBallot s of
        None \<Rightarrow> True
      | Some b0 \<Rightarrow> b0 < b \<and> (case mCommit s of Some c \<Rightarrow> value c = value b | None \<Rightarrow> True))"
proof (cases "mPhase s = SCP_PHASE_EXTERNALIZE")
  case True
  then show ?thesis by (simp add: updateCurrentValue_def)
next
  case False
  then have "\<not> (mPhase s \<noteq> SCP_PHASE_PREPARE \<and> mPhase s \<noteq> SCP_PHASE_CONFIRM)"
    by (cases "mPhase s") auto
  then have eq: "updateCurrentValue b s = (case mCurrentBallot s of
        None \<Rightarrow> bindE (bumpToBallot b True s) (\<lambda>s. checkInvariants s (Inr (True, s)))
      | Some b0 \<Rightarrow>
          dbgAssert (b0 \<le> b)
            (if (case mCommit s of Some c \<Rightarrow> value c \<noteq> value b | None \<Rightarrow> False)
             then Inr (False, s)
             else if b0 < b then
                 bindE (bumpToBallot b True s) (\<lambda>s. checkInvariants s (Inr (True, s)))
               else if b < b0 then Inr (False, s)
               else checkInvariants s (Inr (False, s))))"
    by (simp only: updateCurrentValue_def if_False Let_def ballot_order not_not)
  show ?thesis
  proof (cases "mCurrentBallot s")
    case None
    then show ?thesis using False unfolding eq by (auto simp: result_simps)
  next
    case (Some b0)
    then show ?thesis using False unfolding eq
      by (cases "mCommit s") (auto simp: result_simps)
  qed
qed

lemma updateCurrentValue_False: "updateCurrentValue b s = Inr (False, t) \<Longrightarrow> t = s"
  by (auto simp: updateCurrentValue_def result_simps Let_def split: option.splits if_splits)

lemma acceptPrepared_False: "acceptPrepared b s = Inr (False, t) \<Longrightarrow> t = s"
  by (auto simp: acceptPrepared_def setPrepared_def Let_def result_simps
      split: option.splits if_splits)

lemma confirmPrepared_False: "confirmPrepared c h s = Inr (False, t) \<Longrightarrow> t = s"
  by (auto simp: confirmPrepared_def Let_def result_simps split: option.splits if_splits)

lemma acceptCommit_False: "acceptCommit c h s = Inr (False, t) \<Longrightarrow> t = s"
  by (auto simp: acceptCommit_def Let_def result_simps split: option.splits if_splits)

section \<open>The state machine\<close>

abbreviation acceptsPrepare :: "'a SCPContext_scheme \<Rightarrow> Slot \<Rightarrow> SCPBallot \<Rightarrow> bool" where
  "acceptsPrepare ctx s b \<equiv>
     federatedAccept ctx (\<lambda>st. votesPrepare b (pledges st)) (\<lambda>st. hasPreparedBallot b (pledges st))
       (mLatestEnvelopes s)"

abbreviation ratifiesPrepared :: "'a SCPContext_scheme \<Rightarrow> Slot \<Rightarrow> SCPBallot \<Rightarrow> bool" where
  "ratifiesPrepared ctx s b \<equiv>
     federatedRatify ctx (\<lambda>st. hasPreparedBallot b (pledges st)) (mLatestEnvelopes s)"

abbreviation acceptsCommit :: "'a SCPContext_scheme \<Rightarrow> Slot \<Rightarrow> SCPBallot \<Rightarrow> SCPBallot \<Rightarrow> bool" where
  "acceptsCommit ctx s c h \<equiv>
     federatedAccept ctx (\<lambda>st. votesCommit c (counter c, counter h) (pledges st))
       (\<lambda>st. commitPredicate c (counter c, counter h) (pledges st)) (mLatestEnvelopes s)"

abbreviation ratifiesCommit :: "'a SCPContext_scheme \<Rightarrow> Slot \<Rightarrow> SCPBallot \<Rightarrow> SCPBallot \<Rightarrow> bool" where
  "ratifiesCommit ctx s c h \<equiv>
     federatedRatify ctx (\<lambda>st. commitPredicate c (counter c, counter h) (pledges st)) (mLatestEnvelopes s)"

text \<open>An interval of ballots of one value with a non-zero lower counter.\<close>

definition commit_interval :: "SCPBallot \<Rightarrow> SCPBallot \<Rightarrow> bool" where
  "commit_interval c h \<longleftrightarrow> counter c \<noteq> 0 \<and> counter c \<le> counter h \<and> value c = value h"

text \<open>What \<open>processEnvelope\<close> requires of an envelope before it records it.\<close>

definition recordable :: "'a SCPContext_scheme \<Rightarrow> SCPEnvelope \<Rightarrow> bool \<Rightarrow> Slot \<Rightarrow> bool" where
  "recordable ctx env self s \<longleftrightarrow>
     (let st = statement env in
      slotIndex st = mSlotIndex s \<and> isStatementSane ctx st self = Inr True \<and>
      isNewerStatementFrom (nodeID st) st s \<and> validateValues ctx st s \<noteq> kInvalidValue \<and>
      (mPhase s = SCP_PHASE_EXTERNALIZE \<longrightarrow>
         (\<exists>c. mCommit s = Some c \<and> value c = value (getWorkingBallot (pledges st)))))"

text \<open>Where an envelope comes from: the node's own ones state its current position, the others
  have passed the verification of the driver.\<close>

definition own_envelope :: "'a SCPContext_scheme \<Rightarrow> Slot \<Rightarrow> SCPEnvelope \<Rightarrow> bool" where
  "own_envelope ctx s env \<longleftrightarrow> (\<exists>pl. createStatement ctx s = Inr pl \<and> env = createEnvelope ctx pl s)"

definition admitted :: "'a SCPContext_scheme \<Rightarrow> SCPEnvelope \<Rightarrow> bool \<Rightarrow> Slot \<Rightarrow> bool" where
  "admitted ctx env self s \<longleftrightarrow>
     (if self then own_envelope ctx s env else drv_verifyEnvelope (mDriver ctx) env)"

definition recorded :: "'a SCPContext_scheme \<Rightarrow> SCPEnvelope \<Rightarrow> Slot \<Rightarrow> Slot" where
  "recorded ctx env s =
     recordEnvelope env
       (if mPhase s \<noteq> SCP_PHASE_EXTERNALIZE \<and> validateValues ctx (statement env) s = kMaybeValidValue
        then setFullyValidated False s else s)"

definition newLast :: "SCPEnvelope \<Rightarrow> Slot \<Rightarrow> Slot" where
  "newLast env s = s\<lparr>mLastEnvelope := Some (mAllocations s, env), mAllocations := Suc (mAllocations s)\<rparr>"

definition lastNewer :: "SCPEnvelope \<Rightarrow> Slot \<Rightarrow> bool" where
  "lastNewer env s \<longleftrightarrow>
     (case mLastEnvelope s of
        None \<Rightarrow> True
      | Some (_, l) \<Rightarrow> isNewerStatement (pledges (statement l)) (pledges (statement env)))"

inductive bprim :: "'a SCPContext_scheme \<Rightarrow> Slot \<Rightarrow> Slot \<Rightarrow> bool" for ctx where
  level: "bprim ctx s (s\<lparr>mCurrentMessageLevel := l\<rparr>)"
| hear: "bprim ctx s (hearFromQuorum ctx s)"
| send: "bprim ctx s (sendLatestEnvelope s)"
| timer: "startBallotProtocolTimer s = Inr t \<Longrightarrow> bprim ctx s t"
| recording: "recordable ctx env self s \<Longrightarrow> admitted ctx env self s \<Longrightarrow> bprim ctx s (recorded ctx env s)"
| lastEnvelope: "lastNewer env s \<Longrightarrow> own_envelope ctx r env \<Longrightarrow> (bprim ctx)\<^sup>*\<^sup>* r s \<Longrightarrow>
    bprim ctx s (newLast env s)"
| update: "updateCurrentValue b s = Inr (True, t) \<Longrightarrow>
    (\<And>h. mHighBallot s = Some h \<Longrightarrow> value b = value h) \<Longrightarrow>
    bprim ctx s (driverCall (StartedBallotProtocol b) t)"
| preparedAccept: "mPhase s \<noteq> SCP_PHASE_EXTERNALIZE \<Longrightarrow> acceptsPrepare ctx s b \<Longrightarrow>
    (\<And>p'. mPreparedPrime s = Some p' \<Longrightarrow> p' < b) \<Longrightarrow>
    (\<And>p. mPrepared s = Some p \<Longrightarrow> value b = value p \<Longrightarrow> p < b) \<Longrightarrow>
    (mPhase s = SCP_PHASE_CONFIRM \<Longrightarrow> \<exists>p. mPrepared s = Some p \<and> p \<le> b \<and> value p = value b) \<Longrightarrow>
    acceptPrepared b s = Inr (True, t) \<Longrightarrow> invariants_hold t \<Longrightarrow>
    bprim ctx s (driverCall (AcceptedBallotPrepared b) t)"
| preparedConfirmed: "mPhase s = SCP_PHASE_PREPARE \<Longrightarrow> mPrepared s \<noteq> None \<Longrightarrow>
    ratifiesPrepared ctx s h \<Longrightarrow> (\<And>h0. mHighBallot s = Some h0 \<Longrightarrow> h0 < h) \<Longrightarrow>
    (counter c \<noteq> 0 \<Longrightarrow> mCommit s = None \<and> ratifiesPrepared ctx s c \<and>
       (\<forall>p. mPrepared s = Some p \<longrightarrow> \<not> areBallotsLessAndIncompatible h p) \<and>
       (\<forall>p'. mPreparedPrime s = Some p' \<longrightarrow> \<not> areBallotsLessAndIncompatible h p') \<and>
       (\<forall>b. mCurrentBallot s = Some b \<longrightarrow> b \<le> c)) \<Longrightarrow>
    confirmPrepared c h s = Inr (True, t) \<Longrightarrow> invariants_hold t \<Longrightarrow>
    bprim ctx s (driverCall (ConfirmedBallotPrepared h) t)"
| acceptCommit: "mPhase s \<noteq> SCP_PHASE_EXTERNALIZE \<Longrightarrow> commit_interval c h \<Longrightarrow> acceptsCommit ctx s c h \<Longrightarrow>
    (mPhase s = SCP_PHASE_CONFIRM \<Longrightarrow>
       \<exists>h0. mHighBallot s = Some h0 \<and> value h0 = value h \<and> counter h0 < counter h) \<Longrightarrow>
    acceptCommit c h s = Inr (True, t) \<Longrightarrow> invariants_hold t \<Longrightarrow>
    bprim ctx s (driverCall (AcceptedCommit h) t)"
| confirmCommit: "mPhase s = SCP_PHASE_CONFIRM \<Longrightarrow> commit_interval c h \<Longrightarrow> ratifiesCommit ctx s c h \<Longrightarrow>
    mCommit s = Some c0 \<Longrightarrow> value c0 = value c \<Longrightarrow>
    setConfirmCommit (\<lambda>_ _. Inl OutOfFuel) ctx c h s = Inr (True, t) \<Longrightarrow>
    bprim ctx s t"

definition runs :: "'a SCPContext_scheme \<Rightarrow> Slot \<Rightarrow> Slot \<Rightarrow> bool" where
  "runs ctx s t \<longleftrightarrow> (bprim ctx)\<^sup>*\<^sup>* s t \<and> mCurrentMessageLevel t = mCurrentMessageLevel s"

lemma runs_refl [simp, intro]: "runs ctx s s"
  by (simp add: runs_def)

lemma runs_trans [trans]: "runs ctx s t \<Longrightarrow> runs ctx t u \<Longrightarrow> runs ctx s u"
  by (auto simp: runs_def)

lemma runs_prim: "bprim ctx s t \<Longrightarrow> mCurrentMessageLevel t = mCurrentMessageLevel s \<Longrightarrow> runs ctx s t"
  by (auto simp: runs_def)

section \<open>Every operation is a run\<close>

text \<open>\<open>spec ff ctx s r\<close>: a result \<open>r\<close> obtained in \<open>s\<close> is a run of the state machine or
  an error, and it is the lack of fuel only if \<open>ff\<close> allows it.\<close>

definition spec :: "bool \<Rightarrow> 'a SCPContext_scheme \<Rightarrow> Slot \<Rightarrow> ('x \<times> Slot) result \<Rightarrow> bool" where
  "spec ff ctx s r \<longleftrightarrow>
     (case r of Inr (x, t) \<Rightarrow> runs ctx s t | Inl e \<Rightarrow> e = OutOfFuel \<longrightarrow> ff)"

definition adv_ok :: "bool \<Rightarrow> 'a SCPContext_scheme \<Rightarrow> Slot \<Rightarrow> advance \<Rightarrow> bool" where
  "adv_ok ff ctx s adv \<longleftrightarrow> (\<forall>hint t. runs ctx s t \<longrightarrow> spec ff ctx t (adv hint t))"

named_theorems spec_rules \<open>how results that are runs compose\<close>

lemma spec_Inr [simp]: "spec ff ctx s (Inr (x, t)) \<longleftrightarrow> runs ctx s t"
  by (simp add: spec_def)

lemma spec_Inl [simp]: "spec ff ctx s (Inl e) \<longleftrightarrow> (e = OutOfFuel \<longrightarrow> ff)"
  by (simp add: spec_def)

lemma spec_from: "runs ctx s t \<Longrightarrow> spec ff ctx t r \<Longrightarrow> spec ff ctx s r"
  by (auto simp: spec_def split: sum.splits intro: runs_trans)

lemma spec_bind:
  assumes "spec ff ctx s m" and "\<And>x t. m = Inr (x, t) \<Longrightarrow> runs ctx s t \<Longrightarrow> spec ff ctx t (f (x, t))"
  shows "spec ff ctx s (bindE m f)"
  using assms by (cases m) (auto intro: spec_from)

lemma spec_deref [spec_rules]:
  "(\<And>x. p = Some x \<Longrightarrow> spec ff ctx s (k x)) \<Longrightarrow> spec ff ctx s (deref p k)"
  by (cases p) auto

lemma spec_dbgAssert [spec_rules]: "(P \<Longrightarrow> spec ff ctx s k) \<Longrightarrow> spec ff ctx s (dbgAssert P k)"
  by (cases P) auto

lemma spec_if [spec_rules]:
  "(P \<Longrightarrow> spec ff ctx s a) \<Longrightarrow> (\<not> P \<Longrightarrow> spec ff ctx s b) \<Longrightarrow> spec ff ctx s (if P then a else b)"
  by simp

text \<open>A computation that does not touch the slot.\<close>

lemma spec_pure:
  "(\<And>x. m = Inr x \<Longrightarrow> spec ff ctx s (f x)) \<Longrightarrow> m \<noteq> Inl OutOfFuel \<Longrightarrow> spec ff ctx s (bindE m f)"
  by (cases m) auto

lemma adv_ok_from: "adv_ok ff ctx s adv \<Longrightarrow> runs ctx s t \<Longrightarrow> adv_ok ff ctx t adv"
  by (auto simp: adv_ok_def intro: runs_trans)

lemma adv_okD: "adv_ok ff ctx s adv \<Longrightarrow> runs ctx s t \<Longrightarrow> spec ff ctx s (adv hint t)"
  by (auto simp: adv_ok_def intro: spec_from)

lemma recordEnvelope_frame [simp]:
  "mHeardFromQuorum (recordEnvelope e s) = mHeardFromQuorum s"
  "mCurrentBallot (recordEnvelope e s) = mCurrentBallot s"
  "mPrepared (recordEnvelope e s) = mPrepared s"
  "mPreparedPrime (recordEnvelope e s) = mPreparedPrime s"
  "mHighBallot (recordEnvelope e s) = mHighBallot s"
  "mCommit (recordEnvelope e s) = mCommit s"
  "mLatestEnvelopes (recordEnvelope e s) = map_put (nodeID (statement e)) e (mLatestEnvelopes s)"
  "mPhase (recordEnvelope e s) = mPhase s"
  "mCurrentMessageLevel (recordEnvelope e s) = mCurrentMessageLevel s"
  "mLastEnvelope (recordEnvelope e s) = mLastEnvelope s"
  "mLastEnvelopeEmit (recordEnvelope e s) = mLastEnvelopeEmit s"
  "mAllocations (recordEnvelope e s) = mAllocations s"
  "mSlotIndex (recordEnvelope e s) = mSlotIndex s"
  "mDriverCalls (recordEnvelope e s) = mDriverCalls s"
  by (simp_all add: recordEnvelope_def recordStatement_def)

lemma setFullyValidated_frame [simp]:
  "mHeardFromQuorum (setFullyValidated v s) = mHeardFromQuorum s"
  "mCurrentBallot (setFullyValidated v s) = mCurrentBallot s"
  "mPrepared (setFullyValidated v s) = mPrepared s"
  "mPreparedPrime (setFullyValidated v s) = mPreparedPrime s"
  "mHighBallot (setFullyValidated v s) = mHighBallot s"
  "mCommit (setFullyValidated v s) = mCommit s"
  "mLatestEnvelopes (setFullyValidated v s) = mLatestEnvelopes s"
  "mPhase (setFullyValidated v s) = mPhase s"
  "mCurrentMessageLevel (setFullyValidated v s) = mCurrentMessageLevel s"
  "mLastEnvelope (setFullyValidated v s) = mLastEnvelope s"
  "mLastEnvelopeEmit (setFullyValidated v s) = mLastEnvelopeEmit s"
  "mAllocations (setFullyValidated v s) = mAllocations s"
  "mSlotIndex (setFullyValidated v s) = mSlotIndex s"
  "mDriverCalls (setFullyValidated v s) = mDriverCalls s"
  by (simp_all add: setFullyValidated_def)

lemma recorded_frame [simp]:
  "mHeardFromQuorum (recorded ctx e s) = mHeardFromQuorum s"
  "mCurrentBallot (recorded ctx e s) = mCurrentBallot s"
  "mPrepared (recorded ctx e s) = mPrepared s"
  "mPreparedPrime (recorded ctx e s) = mPreparedPrime s"
  "mHighBallot (recorded ctx e s) = mHighBallot s"
  "mCommit (recorded ctx e s) = mCommit s"
  "mLatestEnvelopes (recorded ctx e s) = map_put (nodeID (statement e)) e (mLatestEnvelopes s)"
  "mPhase (recorded ctx e s) = mPhase s"
  "mCurrentMessageLevel (recorded ctx e s) = mCurrentMessageLevel s"
  "mLastEnvelope (recorded ctx e s) = mLastEnvelope s"
  "mLastEnvelopeEmit (recorded ctx e s) = mLastEnvelopeEmit s"
  "mAllocations (recorded ctx e s) = mAllocations s"
  "mSlotIndex (recorded ctx e s) = mSlotIndex s"
  "mDriverCalls (recorded ctx e s) = mDriverCalls s"
  by (simp_all add: recorded_def)

lemma sendLatestEnvelope_frame [simp]:
  "mHeardFromQuorum (sendLatestEnvelope s) = mHeardFromQuorum s"
  "mCurrentBallot (sendLatestEnvelope s) = mCurrentBallot s"
  "mPrepared (sendLatestEnvelope s) = mPrepared s"
  "mPreparedPrime (sendLatestEnvelope s) = mPreparedPrime s"
  "mHighBallot (sendLatestEnvelope s) = mHighBallot s"
  "mCommit (sendLatestEnvelope s) = mCommit s"
  "mLatestEnvelopes (sendLatestEnvelope s) = mLatestEnvelopes s"
  "mPhase (sendLatestEnvelope s) = mPhase s"
  "mCurrentMessageLevel (sendLatestEnvelope s) = mCurrentMessageLevel s"
  "mLastEnvelope (sendLatestEnvelope s) = mLastEnvelope s"
  "mAllocations (sendLatestEnvelope s) = mAllocations s"
  "mSlotIndex (sendLatestEnvelope s) = mSlotIndex s"
  by (simp_all add: sendLatestEnvelope_def split: option.splits)

lemma hearFromQuorum_frame [simp]:
  "mCurrentBallot (hearFromQuorum ctx s) = mCurrentBallot s"
  "mPrepared (hearFromQuorum ctx s) = mPrepared s"
  "mPreparedPrime (hearFromQuorum ctx s) = mPreparedPrime s"
  "mHighBallot (hearFromQuorum ctx s) = mHighBallot s"
  "mCommit (hearFromQuorum ctx s) = mCommit s"
  "mLatestEnvelopes (hearFromQuorum ctx s) = mLatestEnvelopes s"
  "mPhase (hearFromQuorum ctx s) = mPhase s"
  "mCurrentMessageLevel (hearFromQuorum ctx s) = mCurrentMessageLevel s"
  "mLastEnvelope (hearFromQuorum ctx s) = mLastEnvelope s"
  "mLastEnvelopeEmit (hearFromQuorum ctx s) = mLastEnvelopeEmit s"
  "mAllocations (hearFromQuorum ctx s) = mAllocations s"
  "mSlotIndex (hearFromQuorum ctx s) = mSlotIndex s"
  by (simp_all add: hearFromQuorum_def split: option.splits)

lemma newLast_frame [simp]:
  "mHeardFromQuorum (newLast e s) = mHeardFromQuorum s"
  "mCurrentBallot (newLast e s) = mCurrentBallot s"
  "mPrepared (newLast e s) = mPrepared s"
  "mPreparedPrime (newLast e s) = mPreparedPrime s"
  "mHighBallot (newLast e s) = mHighBallot s"
  "mCommit (newLast e s) = mCommit s"
  "mLatestEnvelopes (newLast e s) = mLatestEnvelopes s"
  "mPhase (newLast e s) = mPhase s"
  "mCurrentMessageLevel (newLast e s) = mCurrentMessageLevel s"
  "mLastEnvelope (newLast e s) = Some (mAllocations s, e)"
  "mLastEnvelopeEmit (newLast e s) = mLastEnvelopeEmit s"
  "mAllocations (newLast e s) = Suc (mAllocations s)"
  "mSlotIndex (newLast e s) = mSlotIndex s"
  "mDriverCalls (newLast e s) = mDriverCalls s"
  by (simp_all add: newLast_def)

lemma isStatementSane_fuel: "isStatementSane ctx st self \<noteq> Inl OutOfFuel"
  by (auto simp: isStatementSane_def deref_def split: option.splits SCPPledges.splits)

lemma runs_recorded:
  "recordable ctx env self s \<Longrightarrow> admitted ctx env self s \<Longrightarrow> runs ctx s (recorded ctx env s)"
  by (rule runs_prim [OF bprim.recording]) simp_all

lemma spec_processEnvelope:
  assumes "adv_ok ff ctx s adv" and "admitted ctx env self s"
  shows "spec ff ctx s (processEnvelope adv ctx env self s)"
proof -
  let ?st = "statement env"
  have rec: "recordable ctx env self s"
    if "slotIndex ?st = mSlotIndex s" "isStatementSane ctx ?st self = Inr True"
      "isNewerStatementFrom (nodeID ?st) ?st s" "validateValues ctx ?st s \<noteq> kInvalidValue"
      "mPhase s = SCP_PHASE_EXTERNALIZE \<longrightarrow>
         (\<exists>c. mCommit s = Some c \<and> value c = value (getWorkingBallot (pledges ?st)))"
    using that by (simp add: recordable_def)
  show ?thesis
    unfolding processEnvelope_def Let_def
  proof (rule spec_dbgAssert, rule spec_pure [OF _ isStatementSane_fuel], intro spec_rules, goal_cases)
    case (3 sane)
    then have r: "runs ctx s (recorded ctx env s)"
      by (intro runs_recorded [OF _ assms(2)] rec) simp_all
    then have "spec ff ctx s (bindE (adv ?st (recorded ctx env s)) (\<lambda>(_, s). Inr (VALID, s)))"
      by (intro spec_bind adv_okD [OF assms(1)]) auto
    with 3 show ?case by (simp add: recorded_def)
  next
    case (4 sane c)
    then have "runs ctx s (recorded ctx env s)"
      by (intro runs_recorded [OF _ assms(2)] rec) simp_all
    with 4 show ?case by (simp add: recorded_def)
  qed simp_all
qed

lemma createStatement_Inr:
  assumes "createStatement ctx s = Inr pl"
  shows "invariants_hold s" and "\<not> is_Nominate pl"
  using assms by (auto simp: createStatement_def result_simps split: SCPPhase.splits)

lemma own_envelope_frame:
  assumes "own_envelope ctx s env"
  shows "\<not> is_Nominate (pledges (statement env))" "nodeID (statement env) = getLocalNodeID ctx"
    "slotIndex (statement env) = mSlotIndex s" "invariants_hold s"
  using assms createStatement_Inr [of ctx s] by (auto simp: own_envelope_def createEnvelope_def Let_def)

lemma createStatement_fuel: "createStatement ctx s \<noteq> Inl OutOfFuel"
  by (auto simp: createStatement_def deref_def dbgAssert_def split: SCPPhase.splits option.splits
      dest!: checkInvariants_fuel)

lemma createEnvelope_sel [simp]:
  "pledges (statement (createEnvelope ctx pl s)) = pl"
  "nodeID (statement (createEnvelope ctx pl s)) = getLocalNodeID ctx"
  "slotIndex (statement (createEnvelope ctx pl s)) = mSlotIndex s"
  by (simp_all add: createEnvelope_def Let_def)

lemma runs_send: "runs ctx s (sendLatestEnvelope s)"
  by (rule runs_prim [OF bprim.send]) simp

text \<open>Emission asserts the invariants of the state it is called in, before anything else.\<close>

lemma spec_emit:
  assumes "invariants_hold t \<Longrightarrow> runs ctx s t" and "adv_ok ff ctx s adv"
  shows "spec ff ctx s (emitCurrentStateStatement adv ctx t)"
  unfolding emitCurrentStateStatement_def Let_def
proof (rule spec_pure [OF _ createStatement_fuel], goal_cases)
  case (1 pl)
  let ?env = "createEnvelope ctx pl t"
  note pl = createStatement_Inr [OF 1]
  have st: "runs ctx s t" by (rule assms(1)) (rule pl(1))
  have own: "own_envelope ctx t ?env" using 1 by (auto simp: own_envelope_def)
  have last: "runs ctx u (newLast ?env u)" if "lastNewer ?env u" "runs ctx t u" for u
    by (rule runs_prim [OF bprim.lastEnvelope [OF that(1) own]]) (use that(2) in \<open>simp_all add: runs_def\<close>)
  have "spec ff ctx t (bindE (processEnvelope adv ctx ?env True t) (\<lambda>(res, s).
         if res = VALID then
           (if mCurrentBallot t \<noteq> None \<and> (case mLastEnvelope s of
                            None \<Rightarrow> True
                          | Some (_, l) \<Rightarrow>
                              isNewerStatement (pledges (statement l)) (pledges (statement ?env)))
            then
              Inr ((), sendLatestEnvelope (s\<lparr>mLastEnvelope := Some (mAllocations s, ?env),
                        mAllocations := Suc (mAllocations s)\<rparr>))
            else Inr ((), s))
         else Inl (RuntimeError ''moved to a bad state (ballot protocol)'')))"
    by (rule spec_bind [OF spec_processEnvelope [OF adv_ok_from [OF assms(2) st]]])
      (auto simp flip: newLast_def lastNewer_def simp: admitted_def own intro: runs_trans [OF last runs_send])
  with st show ?case by (auto intro: spec_from)
qed

lemma spec_didWork:
  assumes "didWork \<Longrightarrow> invariants_hold t \<Longrightarrow> runs ctx s (driverCall call t)" and "\<not> didWork \<Longrightarrow> t = s"
    and "adv_ok ff ctx s adv"
  shows "spec ff ctx s (didWorkThenEmit adv ctx call didWork t)"
  using assms unfolding didWorkThenEmit_def
  by (intro spec_if spec_bind [OF spec_emit]) auto

subsection \<open>Bumping\<close>

lemma spec_bumpStateTo:
  assumes "adv_ok ff ctx s adv"
  shows "spec ff ctx s (bumpStateTo adv ctx v n s)"
proof (cases "mPhase s = SCP_PHASE_EXTERNALIZE")
  case True
  then show ?thesis by (simp add: bumpStateTo_def)
next
  case False
  let ?b = "SCPBallot n (case mHighBallot s of Some h \<Rightarrow> value h | None \<Rightarrow> v)"
  have step: "runs ctx s (driverCall (StartedBallotProtocol ?b) t)"
    if "updateCurrentValue ?b s = Inr (True, t)" for t
    by (rule runs_prim [OF bprim.update [OF that]]) (use that in \<open>auto simp: updateCurrentValue_True\<close>)
  have fuel: "updateCurrentValue ?b s \<noteq> Inl OutOfFuel"
    by (auto simp: updateCurrentValue_def bumpToBallot_def startBallotProtocolTimer_def Let_def
        result_simps deref_def split: option.splits if_splits dest!: checkInvariants_fuel)
  have "spec ff ctx s (bindE (updateCurrentValue ?b s) (\<lambda>(updated, s).
          if updated then
            bindE (emitCurrentStateStatement adv ctx (driverCall (StartedBallotProtocol ?b) s))
              (\<lambda>(_, s). Inr (updated, s))
          else Inr (updated, s)))"
    by (rule spec_pure [OF _ fuel])
      (auto intro!: spec_bind [OF spec_emit] step assms dest!: updateCurrentValue_False)
  then show ?thesis by (simp add: bumpStateTo_def Let_def)
qed

lemma spec_bumpState: "adv_ok ff ctx s adv \<Longrightarrow> spec ff ctx s (bumpState adv ctx v force s)"
  by (simp add: bumpState_def Let_def spec_bumpStateTo)

lemma spec_abandonBallot: "adv_ok ff ctx s adv \<Longrightarrow> spec ff ctx s (abandonBallot adv ctx n s)"
  by (simp add: abandonBallot_def Let_def spec_bumpStateTo spec_bumpState)

lemma spec_bumpCounterLoop:
  "adv_ok ff ctx s adv \<Longrightarrow> spec ff ctx s (bumpCounterLoop adv ctx target ns s)"
  by (induction ns) (simp_all add: spec_abandonBallot Let_def)

lemma spec_attemptBump: "adv_ok ff ctx s adv \<Longrightarrow> spec ff ctx s (attemptBump adv ctx s)"
  by (simp add: attemptBump_def Let_def spec_bumpCounterLoop)

lemma spec_ballotProtocolTimerExpired:
  assumes "adv_ok ff ctx s adv"
  shows "spec ff ctx s (ballotProtocolTimerExpired adv ctx s)"
proof -
  have "spec ff ctx s (bindE (startBallotProtocolTimer s) (\<lambda>s. Inr ((), s)))"
    by (rule spec_pure)
      (auto simp: startBallotProtocolTimer_def result_simps intro!: runs_prim [OF bprim.timer])
  then show ?thesis
    using assms unfolding ballotProtocolTimerExpired_def
    by (intro spec_if spec_bind [OF spec_abandonBallot]) auto
qed

subsection \<open>The attempts\<close>

lemma acceptPrepared_level: "acceptPrepared b s = Inr (w, t) \<Longrightarrow> mCurrentMessageLevel t = mCurrentMessageLevel s"
  by (auto simp: acceptPrepared_def setPrepared_def Let_def result_simps split: option.splits if_splits)

lemma acceptPrepared_fuel: "acceptPrepared b s \<noteq> Inl OutOfFuel"
  by (auto simp: acceptPrepared_def Let_def result_simps split: option.splits if_splits prod.splits)

lemma spec_setPreparedAccept:
  assumes "adv_ok ff ctx s adv" and "mPhase s \<noteq> SCP_PHASE_EXTERNALIZE" and "acceptsPrepare ctx s b"
    and "\<And>p'. mPreparedPrime s = Some p' \<Longrightarrow> p' < b"
    and "\<And>p. mPrepared s = Some p \<Longrightarrow> value b = value p \<Longrightarrow> p < b"
    and "mPhase s = SCP_PHASE_CONFIRM \<Longrightarrow> \<exists>p. mPrepared s = Some p \<and> p \<le> b \<and> value p = value b"
  shows "spec ff ctx s (setPreparedAccept adv ctx b s)"
  unfolding setPreparedAccept_def
proof (rule spec_pure [OF _ acceptPrepared_fuel], clarify)
  fix w t
  assume a: "acceptPrepared b s = Inr (w, t)"
  show "spec ff ctx s (didWorkThenEmit adv ctx (AcceptedBallotPrepared b) w t)"
  proof (rule spec_didWork [OF _ _ assms(1)])
    assume "w" "invariants_hold t"
    with a show "runs ctx s (driverCall (AcceptedBallotPrepared b) t)"
      by (intro runs_prim bprim.preparedAccept assms) (auto dest: acceptPrepared_level)
  next
    assume "\<not> w"
    with a show "t = s" by (auto dest: acceptPrepared_False)
  qed
qed

lemma spec_preparedAcceptLoop:
  assumes "adv_ok ff ctx s adv" and "mPhase s \<noteq> SCP_PHASE_EXTERNALIZE"
  shows "spec ff ctx s (preparedAcceptLoop adv ctx bs s)"
proof (induction bs)
  case (Cons b bs)
  have set: "spec ff ctx s (setPreparedAccept adv ctx b s)"
    if "acceptsPrepare ctx s b"
      "\<not> (case mPreparedPrime s of Some p' \<Rightarrow> compareBallots b p' \<le> 0 | None \<Rightarrow> False)"
      "\<not> (case mPrepared s of Some p \<Rightarrow> areBallotsLessAndCompatible b p | None \<Rightarrow> False)"
      "mPhase s = SCP_PHASE_CONFIRM \<Longrightarrow>
        \<exists>p. mPrepared s = Some p \<and> areBallotsLessAndCompatible p b"
    using that by (intro spec_setPreparedAccept assms) (auto simp: ballot_order)
  show ?case
    unfolding preparedAcceptLoop.simps Let_def
    by (intro spec_rules Cons.IH set) auto
qed simp

lemma getPrepareCandidates_fuel: "getPrepareCandidates hint s \<noteq> Inl OutOfFuel"
  by (cases hint) (simp_all add: getPrepareCandidates_def)

lemma spec_attemptPreparedAccept:
  assumes "adv_ok ff ctx s adv"
  shows "spec ff ctx s (attemptPreparedAccept adv ctx hint s)"
  unfolding attemptPreparedAccept_def
  by (rule spec_if) (auto intro!: spec_pure [OF _ getPrepareCandidates_fuel] spec_preparedAcceptLoop assms)

lemma updateCurrentIfNeeded_fuel: "updateCurrentIfNeeded s \<noteq> Inl OutOfFuel"
  by (auto simp: updateCurrentIfNeeded_def bumpToBallot_def startBallotProtocolTimer_def Let_def
      result_simps split: option.splits)

lemma confirmPrepared_fuel: "confirmPrepared c h s \<noteq> Inl OutOfFuel"
  by (auto simp: confirmPrepared_def Let_def result_simps updateCurrentIfNeeded_fuel)

lemma confirmPrepared_level:
  "confirmPrepared c h s = Inr (w, t) \<Longrightarrow> mCurrentMessageLevel t = mCurrentMessageLevel s"
  by (auto simp: confirmPrepared_def Let_def result_simps split: option.splits if_splits)

lemma findNewH_Some:
  "findNewH ctx s bs = Some cur \<Longrightarrow> \<exists>cs. cur = hd cur # cs \<and> ratifiesPrepared ctx s (hd cur) \<and>
    (\<forall>h. mHighBallot s = Some h \<longrightarrow> h < hd cur) \<and> set cur \<subseteq> set bs"
  by (induction bs) (auto simp: ballot_order split: if_splits option.splits)

lemma findNewC_cases:
  "findNewC ctx s b bs c0 = c0 \<or>
   ratifiesPrepared ctx s (findNewC ctx s b bs c0) \<and> b \<le> findNewC ctx s b bs c0 \<and>
   findNewC ctx s b bs c0 \<in> set bs"
proof (induction bs arbitrary: c0)
  case (Cons b' bs)
  from Cons [of b'] show ?case by (auto simp: ballot_order)
qed simp

lemma spec_setPreparedConfirmed:
  assumes "adv_ok ff ctx s adv" and "mPhase s = SCP_PHASE_PREPARE" and "mPrepared s \<noteq> None"
    and "ratifiesPrepared ctx s h" and "\<And>h0. mHighBallot s = Some h0 \<Longrightarrow> h0 < h"
    and "counter c \<noteq> 0 \<Longrightarrow> mCommit s = None \<and> ratifiesPrepared ctx s c \<and>
       (\<forall>p. mPrepared s = Some p \<longrightarrow> \<not> areBallotsLessAndIncompatible h p) \<and>
       (\<forall>p'. mPreparedPrime s = Some p' \<longrightarrow> \<not> areBallotsLessAndIncompatible h p') \<and>
       (\<forall>b. mCurrentBallot s = Some b \<longrightarrow> b \<le> c)"
  shows "spec ff ctx s (setPreparedConfirmed adv ctx c h s)"
  unfolding setPreparedConfirmed_def
proof (rule spec_pure [OF _ confirmPrepared_fuel], clarify)
  fix w t
  assume a: "confirmPrepared c h s = Inr (w, t)"
  show "spec ff ctx s (didWorkThenEmit adv ctx (ConfirmedBallotPrepared h) w t)"
  proof (rule spec_didWork [OF _ _ assms(1)])
    assume "w" "invariants_hold t"
    with a show "runs ctx s (driverCall (ConfirmedBallotPrepared h) t)"
      by (intro runs_prim bprim.preparedConfirmed [where c = c] assms) (auto dest: confirmPrepared_level)
  next
    assume "\<not> w"
    with a show "t = s" by (auto dest: confirmPrepared_False)
  qed
qed

lemma spec_attemptPreparedConfirmed:
  assumes "adv_ok ff ctx s adv"
  shows "spec ff ctx s (attemptPreparedConfirmed adv ctx hint s)"
  unfolding attemptPreparedConfirmed_def Let_def
proof (intro spec_if spec_pure [OF _ getPrepareCandidates_fuel], goal_cases)
  case (3 cands)
  let ?b = "case mCurrentBallot s of Some b \<Rightarrow> b | None \<Rightarrow> SCPBallot0"
  show ?case
  proof (cases "findNewH ctx s (rev cands)")
    case (Some cur)
    note H = findNewH_Some [OF Some]
    let ?c = "findNewC ctx s ?b cur SCPBallot0"
    have c: "ratifiesPrepared ctx s ?c \<and> (\<forall>b. mCurrentBallot s = Some b \<longrightarrow> b \<le> ?c)"
      if "counter ?c \<noteq> 0"
      using findNewC_cases [of ctx s ?b cur SCPBallot0] that by (auto split: option.splits)
    have "spec ff ctx s (setPreparedConfirmed adv ctx ?c (hd cur) s)"
      if "mCommit s = None"
        "case mPrepared s of Some p \<Rightarrow> \<not> areBallotsLessAndIncompatible (hd cur) p | None \<Rightarrow> True"
        "case mPreparedPrime s of Some p' \<Rightarrow> \<not> areBallotsLessAndIncompatible (hd cur) p' | None \<Rightarrow> True"
      using 3 H c that by (intro spec_setPreparedConfirmed assms) auto
    moreover have "spec ff ctx s (setPreparedConfirmed adv ctx SCPBallot0 (hd cur) s)"
      using 3 H by (intro spec_setPreparedConfirmed assms) auto
    ultimately show ?thesis by (simp add: Some)
  qed simp
qed simp_all

lemma acceptCommit_fuel: "acceptCommit c h s \<noteq> Inl OutOfFuel"
  by (auto simp: acceptCommit_def bumpToBallot_def startBallotProtocolTimer_def Let_def result_simps
      updateCurrentIfNeeded_fuel split: option.splits if_splits)

lemma acceptCommit_level:
  "acceptCommit c h s = Inr (w, t) \<Longrightarrow> mCurrentMessageLevel t = mCurrentMessageLevel s"
  by (auto simp: acceptCommit_def Let_def result_simps split: option.splits if_splits)

lemma spec_setAcceptCommit:
  assumes "adv_ok ff ctx s adv" and "mPhase s \<noteq> SCP_PHASE_EXTERNALIZE" and "commit_interval c h"
    and "acceptsCommit ctx s c h"
    and "mPhase s = SCP_PHASE_CONFIRM \<Longrightarrow>
       \<exists>h0. mHighBallot s = Some h0 \<and> value h0 = value h \<and> counter h0 < counter h"
  shows "spec ff ctx s (setAcceptCommit adv ctx c h s)"
  unfolding setAcceptCommit_def
proof (rule spec_pure [OF _ acceptCommit_fuel], clarify)
  fix w t
  assume a: "acceptCommit c h s = Inr (w, t)"
  show "spec ff ctx s (didWorkThenEmit adv ctx (AcceptedCommit h) w t)"
  proof (rule spec_didWork [OF _ _ assms(1)])
    assume "w" "invariants_hold t"
    with a show "runs ctx s (driverCall (AcceptedCommit h) t)"
      by (intro runs_prim bprim.acceptCommit [where c = c] assms) (auto dest: acceptCommit_level)
  next
    assume "\<not> w"
    with a show "t = s" by (auto dest: acceptCommit_False)
  qed
qed

text \<open>The interval search returns an interval that satisfies its predicate.\<close>

lemma extendInterval_sound:
  assumes "fst cand \<noteq> 0 \<Longrightarrow> pred cand \<and> fst cand \<le> snd cand"
    and "r = extendInterval pred bs cand" and "fst r \<noteq> 0"
  shows "pred r \<and> fst r \<le> snd r"
  using assms
proof (induction pred bs cand rule: extendInterval.induct)
  case (2 pred b bs cand)
  show ?case
  proof (cases "fst cand \<noteq> 0 \<and> b > snd cand")
    case True
    with 2 show ?thesis by simp
  next
    case False
    let ?cur = "if fst cand = 0 then (b, b) else (b, snd cand)"
    have le: "fst ?cur \<le> snd ?cur" using False by auto
    show ?thesis
    proof (cases "pred ?cur")
      case True
      have "extendInterval pred (b # bs) cand = extendInterval pred bs ?cur"
        using False True by (auto simp: Let_def)
      with "2.IH"(2) [OF False refl True] True le "2.prems" show ?thesis by metis
    next
      case nopred: False
      show ?thesis
      proof (cases "fst cand = 0")
        case True
        then have "extendInterval pred (b # bs) cand = extendInterval pred bs cand"
          using nopred by simp
        with "2.IH"(3) [OF False refl nopred] "2.prems" True show ?thesis by metis
      next
        case nonzero: False
        then have "extendInterval pred (b # bs) cand = cand"
          using nopred False by simp
        with 2 show ?thesis by metis
      qed
    qed
  qed
qed simp

lemma findExtendedInterval_sound:
  assumes "fst (findExtendedInterval (0, 0) bs pred) \<noteq> 0"
  shows "pred (findExtendedInterval (0, 0) bs pred) \<and>
    fst (findExtendedInterval (0, 0) bs pred) \<le> snd (findExtendedInterval (0, 0) bs pred)"
  using assms extendInterval_sound [of "(0, 0)" pred _ "rev bs"]
  by (simp add: findExtendedInterval_def)

lemma votesCommit_value: "value b = value b' \<Longrightarrow> votesCommit b i pl = votesCommit b' i pl"
  by (cases pl) (auto simp: ballot_order)

lemma commitPredicate_value: "value b = value b' \<Longrightarrow> commitPredicate b i pl = commitPredicate b' i pl"
  by (cases pl) (auto simp: ballot_order)

lemma acceptCommitHint_fuel: "acceptCommitHint pl \<noteq> Inl OutOfFuel"
  by (cases pl) auto

lemma confirmCommitHint_fuel: "confirmCommitHint pl \<noteq> Inl OutOfFuel"
  by (cases pl) auto

lemma spec_attemptAcceptCommit:
  assumes "adv_ok ff ctx s adv"
  shows "spec ff ctx s (attemptAcceptCommit adv ctx hint s)"
  unfolding attemptAcceptCommit_def
proof (intro spec_if spec_pure [OF _ acceptCommitHint_fuel], goal_cases)
  case (2 hinted)
  then have ext: "mPhase s \<noteq> SCP_PHASE_EXTERNALIZE" by auto
  show ?case
  proof (cases hinted)
    case (Some ballot)
    let ?pred = "\<lambda>cur. federatedAccept ctx (\<lambda>st. votesCommit ballot cur (pledges st))
                    (\<lambda>st. commitPredicate ballot cur (pledges st)) (mLatestEnvelopes s)"
    let ?cand = "findExtendedInterval (0, 0) (getCommitBoundariesFromStatements ballot s) ?pred"
    let ?c = "SCPBallot (fst ?cand) (value ballot)" and ?h = "SCPBallot (snd ?cand) (value ballot)"
    have set: "spec ff ctx s (setAcceptCommit adv ctx ?c ?h s)"
      if "fst ?cand \<noteq> 0" and "mPhase s = SCP_PHASE_CONFIRM \<Longrightarrow>
         \<exists>h. mHighBallot s = Some h \<and> areBallotsCompatible ballot h \<and> counter h < snd ?cand"
    proof (rule spec_setAcceptCommit [OF assms ext])
      note sound = findExtendedInterval_sound [OF that(1)]
      then show "commit_interval ?c ?h" using that(1) by (simp add: commit_interval_def)
      from sound have "?pred (fst ?cand, snd ?cand)" by simp
      then show "acceptsCommit ctx s ?c ?h"
        by (simp add: votesCommit_value [of ?c ballot] commitPredicate_value [of ?c ballot])
    qed (use that in \<open>auto simp: ballot_order\<close>)
    show ?thesis
      unfolding Some option.case Let_def by (intro spec_rules set) auto
  qed simp
qed simp_all

text \<open>Once the slot is externalized, processing an envelope only records it.\<close>

lemma processEnvelope_externalize:
  assumes "mPhase s = SCP_PHASE_EXTERNALIZE"
  shows "processEnvelope adv ctx e self s = processEnvelope adv' ctx e self s"
  by (simp add: processEnvelope_def assms Let_def cong: if_cong)

lemma emit_externalize:
  assumes "mPhase s = SCP_PHASE_EXTERNALIZE"
  shows "emitCurrentStateStatement adv ctx s = emitCurrentStateStatement adv' ctx s"
  by (simp only: emitCurrentStateStatement_def processEnvelope_externalize [OF assms, of adv ctx _ _ adv'])

lemma setConfirmCommit_adv: "setConfirmCommit adv ctx c h s = setConfirmCommit adv' ctx c h s"
proof -
  have "emitCurrentStateStatement adv ctx (u\<lparr>mPhase := SCP_PHASE_EXTERNALIZE\<rparr>) =
      emitCurrentStateStatement adv' ctx (u\<lparr>mPhase := SCP_PHASE_EXTERNALIZE\<rparr>)" for u
    by (rule emit_externalize) simp
  then show ?thesis by (simp only: setConfirmCommit_def)
qed

lemma processEnvelope_externalize_VALID:
  assumes "mPhase s = SCP_PHASE_EXTERNALIZE" and "processEnvelope adv ctx e self s = Inr (VALID, t)"
  shows "recordable ctx e self s \<and> t = recorded ctx e s"
  using assms
  by (auto simp: processEnvelope_def Let_def recordable_def recorded_def result_simps split: if_splits)

text \<open>The envelope an externalized node emits for itself, and what emission leaves behind.\<close>

definition emitted_own :: "'a SCPContext_scheme \<Rightarrow> Slot \<Rightarrow> Slot \<Rightarrow> bool" where
  "emitted_own ctx u v \<longleftrightarrow>
     (\<exists>env. own_envelope ctx u env \<and>
       (v = u \<or> recordable ctx env True u \<and>
         (v = recorded ctx env u \<or>
          lastNewer env (recorded ctx env u) \<and> v = sendLatestEnvelope (newLast env (recorded ctx env u)))))"

lemma emit_externalize_Inr:
  assumes "mPhase u = SCP_PHASE_EXTERNALIZE" and "emitCurrentStateStatement adv ctx u = Inr (x, v)"
  shows "invariants_hold u \<and> emitted_own ctx u v"
proof -
  obtain pl where pl: "createStatement ctx u = Inr pl"
    using assms(2) by (auto simp: emitCurrentStateStatement_def result_simps)
  let ?env = "createEnvelope ctx pl u"
  have "v = u \<or> (\<exists>w. processEnvelope adv ctx ?env True u = Inr (VALID, w) \<and>
      (v = w \<or> lastNewer ?env w \<and> v = sendLatestEnvelope (newLast ?env w)))"
    using assms(2) pl
    by (auto simp: emitCurrentStateStatement_def Let_def lastNewer_def newLast_def result_simps
        split: if_splits)
  then have "emitted_own ctx u v"
    using processEnvelope_externalize_VALID [OF assms(1), of adv ctx ?env True] createStatement_Inr [OF pl]
    unfolding emitted_own_def by (intro exI [of _ ?env]) (auto simp: own_envelope_def pl)
  then show ?thesis using createStatement_Inr [OF pl] by simp
qed

lemma emit_externalize_fuel:
  assumes "mPhase s = SCP_PHASE_EXTERNALIZE"
  shows "emitCurrentStateStatement adv ctx s \<noteq> Inl OutOfFuel"
  using assms
  by (auto simp: emitCurrentStateStatement_def processEnvelope_def Let_def result_simps
      isStatementSane_fuel createStatement_fuel split: if_splits)

lemma emitted_own_frame:
  assumes "emitted_own ctx u v"
  shows "mHeardFromQuorum v = mHeardFromQuorum u" "mCurrentBallot v = mCurrentBallot u"
    "mPrepared v = mPrepared u" "mPreparedPrime v = mPreparedPrime u"
    "mHighBallot v = mHighBallot u" "mCommit v = mCommit u" "mPhase v = mPhase u"
    "mCurrentMessageLevel v = mCurrentMessageLevel u" "mSlotIndex v = mSlotIndex u"
  using assms by (auto simp: emitted_own_def)

text \<open>The whole of \<open>setConfirmCommit\<close>: a slot in the last phase, one emission, and the driver
  told.\<close>

definition externalized :: "SCPBallot \<Rightarrow> SCPBallot \<Rightarrow> Slot \<Rightarrow> Slot" where
  "externalized c h s =
     (let u = s\<lparr>mCommit := Some c, mHighBallot := Some h\<rparr>;
          u = (case mCurrentBallot s of
                 None \<Rightarrow> bumped h u | Some b \<Rightarrow> if b < h then bumped h u else u)
      in u\<lparr>mPhase := SCP_PHASE_EXTERNALIZE\<rparr>)"

lemma externalized_frame [simp]:
  "mCommit (externalized c h s) = Some c"
  "mHighBallot (externalized c h s) = Some h"
  "mPhase (externalized c h s) = SCP_PHASE_EXTERNALIZE"
  "mPrepared (externalized c h s) = mPrepared s"
  "mPreparedPrime (externalized c h s) = mPreparedPrime s"
  "mLatestEnvelopes (externalized c h s) = mLatestEnvelopes s"
  "mCurrentMessageLevel (externalized c h s) = mCurrentMessageLevel s"
  "mLastEnvelope (externalized c h s) = mLastEnvelope s"
  "mLastEnvelopeEmit (externalized c h s) = mLastEnvelopeEmit s"
  "mAllocations (externalized c h s) = mAllocations s"
  "mSlotIndex (externalized c h s) = mSlotIndex s"
  "mFullyValidated (externalized c h s) = mFullyValidated s"
  by (simp_all add: externalized_def Let_def split: option.splits)

lemma setConfirmCommit_Inr:
  assumes "setConfirmCommit adv ctx c h s = Inr (w, t)"
  shows "w \<and> invariants_hold (externalized c h s) \<and>
    (\<exists>v. emitted_own ctx (externalized c h s) v \<and>
         t = driverCall (ValueExternalized (value c)) (stopNomination v))"
proof -
  let ?s = "s\<lparr>mCommit := Some c, mHighBallot := Some h\<rparr>"
  obtain u v where u: "updateCurrentIfNeeded ?s = Inr u"
    and v: "emitCurrentStateStatement adv ctx (u\<lparr>mPhase := SCP_PHASE_EXTERNALIZE\<rparr>) = Inr ((), v)"
    and t: "w" "t = driverCall (ValueExternalized (value (the (mCommit v)))) (stopNomination v)"
    using assms by (auto simp: setConfirmCommit_def Let_def result_simps stopNomination_def)
  have e: "u\<lparr>mPhase := SCP_PHASE_EXTERNALIZE\<rparr> = externalized c h s"
    using u by (auto simp: result_simps externalized_def Let_def split: option.splits if_splits)
  note emit = emit_externalize_Inr [OF _ v [unfolded e]]
  then have "mCommit v = Some c" by (auto dest: emitted_own_frame(6))
  then show ?thesis using t emit by auto
qed

lemma setConfirmCommit_fuel: "setConfirmCommit adv ctx c h s \<noteq> Inl OutOfFuel"
  by (auto simp: setConfirmCommit_def Let_def result_simps updateCurrentIfNeeded_fuel
      emit_externalize_fuel)

lemma spec_setConfirmCommit:
  assumes "mPhase s = SCP_PHASE_CONFIRM" and "commit_interval c h" and "ratifiesCommit ctx s c h"
    and "mCommit s = Some c0" and "value c0 = value c"
  shows "spec ff ctx s (setConfirmCommit adv ctx c h s)"
proof (cases "setConfirmCommit adv ctx c h s")
  case (Inl e)
  then show ?thesis using setConfirmCommit_fuel [of adv ctx c h s] by auto
next
  case (Inr r)
  then obtain t where r: "r = (True, t)" using setConfirmCommit_Inr [of adv ctx c h s] by (cases r) auto
  have "mCurrentMessageLevel t = mCurrentMessageLevel s"
    using setConfirmCommit_Inr [OF Inr [unfolded r]] emitted_own_frame(8)
    by (fastforce simp: stopNomination_def)
  moreover have "bprim ctx s t"
    using Inr unfolding r setConfirmCommit_adv [of adv ctx c h s "\<lambda>_ _. Inl OutOfFuel"]
    by (rule bprim.confirmCommit [OF assms])
  ultimately show ?thesis using Inr r by (simp add: runs_prim)
qed

lemma spec_attemptConfirmCommit: "spec ff ctx s (attemptConfirmCommit adv ctx hint s)"
  unfolding attemptConfirmCommit_def
proof (rule spec_if, simp, goal_cases)
  case 1
  show ?case
  proof (cases "\<exists>h0 c0. mHighBallot s = Some h0 \<and> mCommit s = Some c0")
    case True
    then obtain h0 c0 where hc: "mHighBallot s = Some h0" "mCommit s = Some c0" by blast
    have set: "spec ff ctx s (setConfirmCommit adv ctx (SCPBallot (fst cand) (value ballot))
        (SCPBallot (snd cand) (value ballot)) s)"
      if "fst cand \<noteq> 0" and "areBallotsCompatible ballot c0"
        and cand: "cand = findExtendedInterval (0, 0) bs (\<lambda>cur. federatedRatify ctx
          (\<lambda>st. commitPredicate ballot cur (pledges st)) (mLatestEnvelopes s))" for cand ballot bs
    proof (rule spec_setConfirmCommit)
      let ?c = "SCPBallot (fst cand) (value ballot)"
      note sound = findExtendedInterval_sound [OF that(1) [unfolded cand], folded cand]
      show "commit_interval ?c (SCPBallot (snd cand) (value ballot))"
        using sound that(1) by (simp add: commit_interval_def)
      show "ratifiesCommit ctx s ?c (SCPBallot (snd cand) (value ballot))"
        using sound by (simp add: commitPredicate_value [of ?c ballot])
    qed (use 1 hc that in \<open>auto simp: ballot_order\<close>)
    show ?thesis
      unfolding hc Let_def
      by (auto intro!: spec_pure [OF _ confirmCommitHint_fuel] set split: option.split)
  qed (auto split: option.split)
qed

subsection \<open>Advancing the slot\<close>

lemma spec_attemptSteps:
  assumes "adv_ok ff ctx s adv"
  shows "spec ff ctx s (attemptSteps adv ctx hint s)"
  unfolding attemptSteps_def
  by (rule spec_bind spec_attemptPreparedAccept spec_attemptPreparedConfirmed spec_attemptAcceptCommit
      spec_attemptConfirmCommit adv_ok_from [OF assms] | clarify | (erule runs_trans)+ | simp)+

lemma spec_bumpLoop:
  "adv_ok True ctx s adv \<Longrightarrow> spec True ctx s (bumpLoop n adv ctx w s)"
proof (induction n arbitrary: w s)
  case (Suc n)
  show ?case
    by (auto intro!: spec_bind [OF spec_attemptBump [OF Suc.prems]] Suc.IH adv_ok_from [OF Suc.prems])
qed simp

text \<open>The state in which \<open>advanceSlot\<close> makes its attempts.\<close>

definition entered :: "'a SCPContext_scheme \<Rightarrow> Slot \<Rightarrow> Slot" where
  "entered ctx s = hearFromQuorum ctx (s\<lparr>mCurrentMessageLevel := mCurrentMessageLevel s + 1\<rparr>)"

lemma entered_level [simp]: "mCurrentMessageLevel (entered ctx s) = mCurrentMessageLevel s + 1"
  by (simp add: entered_def)

lemma runs_leave:
  assumes "runs ctx (entered ctx s) t"
  shows "runs ctx s (t\<lparr>mCurrentMessageLevel := mCurrentMessageLevel t - 1\<rparr>)"
proof -
  let ?s = "s\<lparr>mCurrentMessageLevel := mCurrentMessageLevel s + 1\<rparr>"
  have "bprim ctx s ?s" "bprim ctx ?s (entered ctx s)"
    unfolding entered_def by (rule bprim.level, rule bprim.hear)
  moreover have "(bprim ctx)\<^sup>*\<^sup>* (entered ctx s) t" using assms by (simp add: runs_def)
  moreover have "bprim ctx t (t\<lparr>mCurrentMessageLevel := mCurrentMessageLevel t - 1\<rparr>)"
    by (rule bprim.level)
  ultimately show ?thesis using assms
    by (auto simp: runs_def intro: converse_rtranclp_into_rtranclp rtranclp.rtrancl_into_rtrancl)
qed

lemma spec_advanceSlot_Suc:
  assumes "mCurrentMessageLevel s + 1 < MAX_ADVANCE_SLOT_RECURSION \<Longrightarrow>
      adv_ok ff ctx (entered ctx s) (advanceSlot n ctx)"
    and "\<And>w t. runs ctx (entered ctx s) t \<Longrightarrow> mCurrentMessageLevel t = 1 \<Longrightarrow>
      spec ff ctx t (bumpLoop n (advanceSlot n ctx) ctx w t)"
  shows "spec ff ctx s (advanceSlot (Suc n) ctx hint s)"
proof (cases "mCurrentMessageLevel s + 1 < MAX_ADVANCE_SLOT_RECURSION")
  case True
  let ?adv = "advanceSlot n ctx" and ?u = "entered ctx s"
  have "spec ff ctx ?u (bindE (attemptSteps ?adv ctx hint ?u) (\<lambda>(didWork, s).
      if mCurrentMessageLevel s = 1 then bumpLoop n ?adv ctx didWork s else Inr (didWork, s)))"
    (is "spec ff ctx ?u ?m")
    by (rule spec_bind [OF spec_attemptSteps [OF assms(1) [OF True]]]) (auto intro: assms(2))
  moreover have "advanceSlot (Suc n) ctx hint s = bindE ?m (\<lambda>(didWork, s).
      let s = s\<lparr>mCurrentMessageLevel := mCurrentMessageLevel s - 1\<rparr> in
      Inr ((), if didWork then sendLatestEnvelope s else s))"
    using True
    by (simp add: Let_def not_le entered_def del: bindE_simps cong: if_cong)
      (auto simp: bindE_def split: sum.splits)
  ultimately show ?thesis
    by (auto simp: spec_def Let_def split: sum.splits
        intro: runs_leave runs_trans [OF runs_leave runs_send])
qed (simp add: Let_def)

text \<open>Whatever the fuel, \<open>advanceSlot\<close> takes the slot through changes of the state machine.\<close>

lemma advanceSlot_runs: "spec True ctx s (advanceSlot n ctx hint s)"
proof (induction n arbitrary: hint s)
  case (Suc n)
  then have "adv_ok True ctx t (advanceSlot n ctx)" for t by (simp add: adv_ok_def)
  then show ?case by (intro spec_advanceSlot_Suc spec_bumpLoop)
qed simp

lemma advanceSlot_ok: "adv_ok True ctx s (advanceSlot n ctx)"
  by (simp add: adv_ok_def advanceSlot_runs)

lemma spec_runs: "spec ff ctx s r \<Longrightarrow> r = Inr (x, t) \<Longrightarrow> runs ctx s t"
  by simp

lemma processEnvelope_runs:
  assumes "processEnvelope (advanceSlot n ctx) ctx env self s = Inr (x, t)" and "admitted ctx env self s"
  shows "runs ctx s t"
  using spec_runs [OF spec_processEnvelope [OF advanceSlot_ok assms(2)] assms(1)] .

lemmas bumpState_runs = spec_runs [OF spec_bumpState [OF advanceSlot_ok]]
lemmas abandonBallot_runs = spec_runs [OF spec_abandonBallot [OF advanceSlot_ok]]
lemmas timerExpired_runs = spec_runs [OF spec_ballotProtocolTimerExpired [OF advanceSlot_ok]]

end
