(* ===== verification/Ballot_Safety.thy ===== *)
theory Ballot_Safety
  imports Ballot_Steps
begin

text \<open>
  What the state machine of the ballot protocol keeps: invariants and orders preserved by
  every change, hence by every run.
\<close>

section \<open>Runs of the whole slot\<close>

text \<open>A change of the nomination protocol leaves the ballot protocol alone.\<close>

fun nomination_call :: "driver_call \<Rightarrow> bool" where
  "nomination_call (EmitEnvelope e) = is_Nominate (pledges (statement e))"
| "nomination_call (SetupTimer t _) = (t = NOMINATION_TIMER)"
| "nomination_call (NominatingValue _) = True"
| "nomination_call (UpdatedCandidateValue _) = True"
| "nomination_call _ = False"

definition ballot_same :: "Slot \<Rightarrow> Slot \<Rightarrow> bool" where
  "ballot_same s t \<longleftrightarrow>
     mHeardFromQuorum t = mHeardFromQuorum s \<and> mCurrentBallot t = mCurrentBallot s \<and>
     mPrepared t = mPrepared s \<and> mPreparedPrime t = mPreparedPrime s \<and>
     mHighBallot t = mHighBallot s \<and> mCommit t = mCommit s \<and>
     mLatestEnvelopes t = mLatestEnvelopes s \<and> mPhase t = mPhase s \<and>
     mCurrentMessageLevel t = mCurrentMessageLevel s \<and> mLastEnvelope t = mLastEnvelope s \<and>
     mLastEnvelopeEmit t = mLastEnvelopeEmit s \<and> mAllocations t = mAllocations s \<and>
     mSlotIndex t = mSlotIndex s \<and> mFullyValidated t = mFullyValidated s \<and>
     (\<exists>calls. mDriverCalls t = mDriverCalls s @ calls \<and> list_all nomination_call calls)"

text \<open>A change of the slot is one of either protocol.\<close>

definition sprim :: "'a SCPContext_scheme \<Rightarrow> Slot \<Rightarrow> Slot \<Rightarrow> bool" where
  "sprim ctx s t \<longleftrightarrow> bprim ctx s t \<or> ballot_same s t"

definition sruns :: "'a SCPContext_scheme \<Rightarrow> Slot \<Rightarrow> Slot \<Rightarrow> bool" where
  "sruns ctx s t \<longleftrightarrow> (sprim ctx)\<^sup>*\<^sup>* s t \<and> mCurrentMessageLevel t = mCurrentMessageLevel s"

lemma sruns_refl [simp, intro]: "sruns ctx s s"
  by (simp add: sruns_def)

lemma sruns_trans [trans]: "sruns ctx s t \<Longrightarrow> sruns ctx t u \<Longrightarrow> sruns ctx s u"
  by (auto simp: sruns_def)

lemma runs_sruns: "runs ctx s t \<Longrightarrow> sruns ctx s t"
  unfolding runs_def sruns_def by (auto elim!: mono_rtranclp [rule_format, rotated] simp: sprim_def)

lemma ballot_same_sruns: "ballot_same s t \<Longrightarrow> sruns ctx s t"
  by (auto simp: sruns_def sprim_def ballot_same_def intro!: r_into_rtranclp)

text \<open>An invariant of the changes, and a relation they keep, carry over to runs.\<close>

lemma sruns_relation:
  assumes "sruns ctx s t" and "I s" and "\<And>s t. I s \<Longrightarrow> sprim ctx s t \<Longrightarrow> I t \<and> R s t"
    and "\<And>s. R s s" and "\<And>s t u. R s t \<Longrightarrow> R t u \<Longrightarrow> R s u"
  shows "I t \<and> R s t"
proof -
  have "(sprim ctx)\<^sup>*\<^sup>* s t" using assms(1) by (simp add: sruns_def)
  then show ?thesis by (induction rule: rtranclp_induct) (use assms(2-) in blast)+
qed

section \<open>Effects of the changes\<close>

definition ballots_same :: "Slot \<Rightarrow> Slot \<Rightarrow> bool" where
  "ballots_same s t \<longleftrightarrow>
     mCurrentBallot t = mCurrentBallot s \<and> mPrepared t = mPrepared s \<and>
     mPreparedPrime t = mPreparedPrime s \<and> mHighBallot t = mHighBallot s \<and>
     mCommit t = mCommit s \<and> mPhase t = mPhase s"

lemma ballots_same_invariants: "ballots_same s t \<Longrightarrow> invariants_hold t \<longleftrightarrow> invariants_hold s"
  by (auto simp: ballots_same_def invariants_hold_def split: option.splits)

text \<open>Calls to the driver that neither send a ballot statement nor announce a value.\<close>

fun quiet_call :: "driver_call \<Rightarrow> bool" where
  "quiet_call (EmitEnvelope e) = is_Nominate (pledges (statement e))"
| "quiet_call (ValueExternalized _) = False"
| "quiet_call _ = True"

definition quiet :: "Slot \<Rightarrow> Slot \<Rightarrow> bool" where
  "quiet s t \<longleftrightarrow>
     mLatestEnvelopes t = mLatestEnvelopes s \<and> mLastEnvelope t = mLastEnvelope s \<and>
     mLastEnvelopeEmit t = mLastEnvelopeEmit s \<and> mAllocations t = mAllocations s \<and>
     mSlotIndex t = mSlotIndex s \<and>
     (\<exists>calls. mDriverCalls t = mDriverCalls s @ calls \<and> list_all quiet_call calls)"

lemma quiet_refl [simp]: "quiet s s"
  by (auto simp: quiet_def)

lemma quiet_trans: "quiet s t \<Longrightarrow> quiet t u \<Longrightarrow> quiet s u"
  unfolding quiet_def by (metis append_assoc list_all_append)

lemma quiet_driverCall: "quiet s t \<Longrightarrow> quiet_call c \<Longrightarrow> quiet s (driverCall c t)"
  by (auto simp: quiet_def)

lemma quiet_bumped: "quiet s t \<Longrightarrow> quiet s (bumped b t)"
  by (auto simp: quiet_def bumped_def Let_def)

lemma quiet_updates [simp]:
  "quiet s (t\<lparr>mCurrentMessageLevel := l\<rparr>) = quiet s t"
  "quiet s (t\<lparr>mHeardFromQuorum := w\<rparr>) = quiet s t"
  "quiet s (t\<lparr>mHighBallot := h\<rparr>) = quiet s t"
  "quiet s (t\<lparr>mCommit := c\<rparr>) = quiet s t"
  "quiet s (t\<lparr>mPrepared := c\<rparr>) = quiet s t"
  "quiet s (t\<lparr>mPreparedPrime := c\<rparr>) = quiet s t"
  "quiet s (t\<lparr>mPhase := ph\<rparr>) = quiet s t"
  by (simp_all add: quiet_def)

lemma nomination_call_quiet: "nomination_call c \<Longrightarrow> quiet_call c"
  by (cases c) auto

lemma ballot_same_quiet: "ballot_same s t \<Longrightarrow> quiet s t \<and> ballots_same s t"
  by (auto simp: ballot_same_def quiet_def ballots_same_def list_all_iff nomination_call_quiet)

lemma quiet_updateCurrentIfNeeded: "updateCurrentIfNeeded s = Inr t \<Longrightarrow> quiet s t"
  by (auto simp: result_simps quiet_bumped split: option.splits if_splits)

lemma quiet_acceptPrepared: "acceptPrepared b s = Inr (w, t) \<Longrightarrow> quiet s t"
  by (auto simp: acceptPrepared_def setPrepared_def Let_def result_simps split: option.splits if_splits)

lemma confirmPrepared_True:
  assumes "confirmPrepared c h s = Inr (True, t)"
  shows "\<exists>h'. updateCurrentIfNeeded
    (s\<lparr>mHighBallot := h', mCommit := if counter c \<noteq> 0 then Some c else mCommit s\<rparr>) = Inr t \<and>
    (h' = Some h \<or> h' = mHighBallot s)"
proof -
  define s1 where "s1 = (if (case mHighBallot s of None \<Rightarrow> True | Some h0 \<Rightarrow> compareBallots h h0 > 0)
    then s\<lparr>mHighBallot := Some h\<rparr> else s)"
  have "updateCurrentIfNeeded (if counter c \<noteq> 0 then s1\<lparr>mCommit := Some c\<rparr> else s1) = Inr t"
    using assms unfolding confirmPrepared_def Let_def s1_def [symmetric]
    by (auto simp: result_simps simp del: updateCurrentIfNeeded_Inr split: if_splits)
  moreover have "(if counter c \<noteq> 0 then s1\<lparr>mCommit := Some c\<rparr> else s1) =
      s\<lparr>mHighBallot := mHighBallot s1, mCommit := if counter c \<noteq> 0 then Some c else mCommit s\<rparr>"
    by (auto simp: s1_def)
  moreover have "mHighBallot s1 = Some h \<or> mHighBallot s1 = mHighBallot s" by (simp add: s1_def)
  ultimately show ?thesis by (intro exI [of _ "mHighBallot s1"]) simp
qed

text \<open>After \<open>acceptCommit\<close> has stored the interval and, in the first phase, entered the second.\<close>

lemma acceptCommit_True:
  assumes "acceptCommit c h s = Inr (True, t)" and "mPhase s \<noteq> SCP_PHASE_EXTERNALIZE"
  shows "\<exists>u. updateCurrentIfNeeded u = Inr t \<and> quiet s u \<and> mPhase u = SCP_PHASE_CONFIRM \<and>
    mCommit u = Some c \<and> mHighBallot u = Some h \<and> mPrepared u = mPrepared s \<and>
    (mPhase s = SCP_PHASE_CONFIRM \<longrightarrow> mCurrentBallot u = mCurrentBallot s)"
proof -
  define s1 where "s1 = s\<lparr>mCommit := Some c, mHighBallot := Some h\<rparr>"
  have s1: "(if (case (mHighBallot s, mCommit s) of
           (Some h0, Some c0) \<Rightarrow> compareBallots h0 h \<noteq> 0 \<or> compareBallots c0 c \<noteq> 0
         | _ \<Rightarrow> True) then s\<lparr>mCommit := Some c, mHighBallot := Some h\<rparr> else s) = s1"
    by (auto simp: s1_def ballot_order split: option.splits)
  show ?thesis
  proof (cases "mPhase s")
    case SCP_PHASE_PREPARE
    let ?s2 = "s1\<lparr>mPhase := SCP_PHASE_CONFIRM\<rparr>"
    have ph: "mPhase s1 = SCP_PHASE_PREPARE" using SCP_PHASE_PREPARE by (simp add: s1_def)
    from assms(1) obtain u where
      u: "(if (case mCurrentBallot ?s2 of Some b \<Rightarrow> \<not> areBallotsLessAndCompatible h b | None \<Rightarrow> False)
           then bumpToBallot h False ?s2 else Inr ?s2) = Inr u"
      "updateCurrentIfNeeded (u\<lparr>mPreparedPrime := None\<rparr>) = Inr t"
      unfolding acceptCommit_def Let_def s1
      by (auto simp: ph result_simps simp del: updateCurrentIfNeeded_Inr)
    then have "u = ?s2 \<or> u = bumped h ?s2" by (auto simp: result_simps split: if_splits)
    then show ?thesis using u(2) SCP_PHASE_PREPARE
      by (intro exI [of _ "u\<lparr>mPreparedPrime := None\<rparr>"]) (auto simp: s1_def quiet_bumped)
  next
    case SCP_PHASE_CONFIRM
    then have "mPhase s1 = SCP_PHASE_CONFIRM" by (simp add: s1_def)
    with assms(1) have "updateCurrentIfNeeded s1 = Inr t"
      unfolding acceptCommit_def Let_def s1
      by (auto simp: result_simps simp del: updateCurrentIfNeeded_Inr split: if_splits)
    then show ?thesis using SCP_PHASE_CONFIRM by (intro exI [of _ s1]) (simp add: s1_def)
  qed (use assms in simp)
qed

lemma updateCurrentIfNeeded_effect:
  assumes "updateCurrentIfNeeded s = Inr t"
  shows "mPrepared t = mPrepared s \<and> mPreparedPrime t = mPreparedPrime s \<and> mHighBallot t = mHighBallot s \<and>
    mCommit t = mCommit s \<and> mPhase t = mPhase s \<and>
    (\<forall>b. mCurrentBallot s = Some b \<longrightarrow> (\<exists>b2. mCurrentBallot t = Some b2 \<and> b \<le> b2))"
  using assms by (auto simp: result_simps split: option.splits if_splits)

text \<open>An optional ballot that only moves up.\<close>

definition rises :: "SCPBallot option \<Rightarrow> SCPBallot option \<Rightarrow> bool" where
  "rises x y \<longleftrightarrow> (\<forall>b. x = Some b \<longrightarrow> (\<exists>b2. y = Some b2 \<and> b \<le> b2))"

lemma rises_refl [simp]: "rises x x"
  by (simp add: rises_def)

lemma rises_trans: "rises x y \<Longrightarrow> rises y z \<Longrightarrow> rises x z"
  unfolding rises_def by (metis order_trans)

lemma acceptPrepared_True:
  assumes "acceptPrepared b s = Inr (True, t)"
  shows "mCurrentBallot t = mCurrentBallot s \<and> mHighBallot t = mHighBallot s \<and> mPhase t = mPhase s \<and>
    rises (mPrepared s) (mPrepared t) \<and>
    (mCommit t = mCommit s \<or> mCommit t = None \<and> mPhase s = SCP_PHASE_PREPARE)"
  using assms
  by (auto simp: acceptPrepared_def setPrepared_def Let_def ballot_order result_simps rises_def
      split: option.splits if_splits)

lemma rises_bumped_None [simp]: "rises None y"
  by (simp add: rises_def)

section \<open>The two views of a change\<close>

text \<open>On the ballots and the phase a change does nothing, or moves within its phase, accepts a
  commit, or confirms one.\<close>

definition moves_within :: "Slot \<Rightarrow> Slot \<Rightarrow> bool" where
  "moves_within s t \<longleftrightarrow>
     mPhase s \<noteq> SCP_PHASE_EXTERNALIZE \<and> mPhase t = mPhase s \<and> invariants_hold t \<and>
     rises (mCurrentBallot s) (mCurrentBallot t) \<and> rises (mPrepared s) (mPrepared t) \<and>
     (mCommit t = mCommit s \<or> mPhase s = SCP_PHASE_PREPARE)"

definition commits :: "'a SCPContext_scheme \<Rightarrow> Slot \<Rightarrow> Slot \<Rightarrow> bool" where
  "commits ctx s t \<longleftrightarrow>
     mPhase s \<noteq> SCP_PHASE_EXTERNALIZE \<and> mPhase t = SCP_PHASE_CONFIRM \<and> invariants_hold t \<and>
     rises (mPrepared s) (mPrepared t) \<and>
     (\<exists>c h. commit_interval c h \<and> acceptsCommit ctx s c h \<and>
        mCommit t = Some c \<and> mHighBallot t = Some h \<and>
        (mPhase s = SCP_PHASE_CONFIRM \<longrightarrow> rises (mCurrentBallot s) (mCurrentBallot t) \<and>
           (\<exists>h0. mHighBallot s = Some h0 \<and> value h0 = value h \<and> counter h0 < counter h)))"

definition confirms :: "'a SCPContext_scheme \<Rightarrow> Slot \<Rightarrow> Slot \<Rightarrow> bool" where
  "confirms ctx s t \<longleftrightarrow>
     mPhase s = SCP_PHASE_CONFIRM \<and> mPhase t = SCP_PHASE_EXTERNALIZE \<and> invariants_hold t \<and>
     rises (mCurrentBallot s) (mCurrentBallot t) \<and> mPrepared t = mPrepared s \<and>
     (\<exists>c c0 h. commit_interval c h \<and> ratifiesCommit ctx s c h \<and>
        mCommit s = Some c0 \<and> mCommit t = Some c \<and> mHighBallot t = Some h \<and> value c0 = value c)"

lemma setConfirmCommit_confirms:
  assumes "setConfirmCommit adv ctx c h s = Inr (True, t)" and "mPhase s = SCP_PHASE_CONFIRM"
    and "mCommit s = Some c0" and "value c0 = value c" and "commit_interval c h" and "ratifiesCommit ctx s c h"
  shows "confirms ctx s t"
proof -
  let ?u = "externalized c h s"
  obtain v where v: "emitted_own ctx ?u v" "invariants_hold ?u"
    and t: "t = driverCall (ValueExternalized (value c)) (stopNomination v)"
    using setConfirmCommit_Inr [OF assms(1)] by blast
  have same: "ballots_same ?u t"
    using emitted_own_frame [OF v(1)] by (simp add: t ballots_same_def stopNomination_def)
  have "rises (mCurrentBallot s) (mCurrentBallot ?u)"
    by (auto simp: externalized_def Let_def rises_def split: option.splits)
  moreover have "invariants_hold t" using ballots_same_invariants [OF same] v(2) by simp
  ultimately show ?thesis
    using same assms by (auto simp: confirms_def ballots_same_def)
qed

lemma bprim_ballots:
  assumes "bprim ctx s t"
  shows "ballots_same s t \<or> moves_within s t \<or> commits ctx s t \<or> confirms ctx s t"
  using assms
proof cases
  case (update b t')
  then show ?thesis
    by (auto simp: updateCurrentValue_True moves_within_def rises_def split: option.splits)
next
  case (preparedAccept b t')
  then show ?thesis using acceptPrepared_True [of b s t'] by (auto simp: moves_within_def)
next
  case (preparedConfirmed h c t')
  from confirmPrepared_True [OF preparedConfirmed(7)] preparedConfirmed show ?thesis
    by (auto simp: moves_within_def rises_def dest!: updateCurrentIfNeeded_effect)
next
  case (acceptCommit c h t')
  from acceptCommit_True [OF acceptCommit(6,2)] obtain u where
    u: "updateCurrentIfNeeded u = Inr t'" "mPhase u = SCP_PHASE_CONFIRM" "mCommit u = Some c"
      "mHighBallot u = Some h" "mPrepared u = mPrepared s"
      "mPhase s = SCP_PHASE_CONFIRM \<longrightarrow> mCurrentBallot u = mCurrentBallot s" by blast
  then have "commits ctx s t"
    using acceptCommit updateCurrentIfNeeded_effect [OF u(1)] unfolding commits_def rises_def
    by auto
  then show ?thesis by simp
next
  case (confirmCommit c h c0)
  then show ?thesis by (auto intro: setConfirmCommit_confirms)
qed (auto simp: ballots_same_def result_simps)

lemma sprim_ballots:
  assumes "sprim ctx s t"
  shows "ballots_same s t \<or> moves_within s t \<or> commits ctx s t \<or> confirms ctx s t"
  using assms bprim_ballots ballot_same_quiet by (auto simp: sprim_def)

text \<open>On the statements and the calls a change is quiet, or sends, records, or stores the
  node's own last envelope, or externalizes.\<close>

definition externalizes :: "'a SCPContext_scheme \<Rightarrow> Slot \<Rightarrow> Slot \<Rightarrow> bool" where
  "externalizes ctx s t \<longleftrightarrow>
     mPhase s = SCP_PHASE_CONFIRM \<and>
     (\<exists>c h u v. quiet s u \<and> mPhase u = SCP_PHASE_EXTERNALIZE \<and> mCommit u = Some c \<and>
        commit_interval c h \<and> ratifiesCommit ctx s c h \<and> emitted_own ctx u v \<and>
        t = driverCall (ValueExternalized (value c)) (stopNomination v))"

abbreviation runs_from :: "'a SCPContext_scheme \<Rightarrow> Slot \<Rightarrow> Slot \<Rightarrow> bool" where
  "runs_from ctx \<equiv> (bprim ctx)\<^sup>*\<^sup>*"

lemma quiet_externalized: "quiet s (externalized c h s)"
  by (auto simp: externalized_def Let_def intro!: quiet_bumped split: option.splits)

lemma bprim_calls:
  assumes "bprim ctx s t"
  shows "quiet s t \<or> t = sendLatestEnvelope s \<or>
    (\<exists>env self. recordable ctx env self s \<and> admitted ctx env self s \<and> t = recorded ctx env s) \<or>
    (\<exists>env r. lastNewer env s \<and> own_envelope ctx r env \<and> runs_from ctx r s \<and> t = newLast env s) \<or>
    externalizes ctx s t"
  using assms
proof cases
  case (update b t')
  then show ?thesis by (auto simp: updateCurrentValue_True intro!: quiet_driverCall quiet_bumped)
next
  case (preparedAccept b t')
  then show ?thesis using quiet_acceptPrepared [of b s True t'] by (auto intro: quiet_driverCall)
next
  case (preparedConfirmed h c t')
  from confirmPrepared_True [OF preparedConfirmed(7)] have "quiet s t'"
    by (auto dest!: quiet_updateCurrentIfNeeded intro: quiet_trans [rotated])
  then show ?thesis using preparedConfirmed by (auto intro: quiet_driverCall)
next
  case (acceptCommit c h t')
  from acceptCommit_True [OF acceptCommit(6,2)] have "quiet s t'"
    by (auto dest!: quiet_updateCurrentIfNeeded intro: quiet_trans)
  then show ?thesis using acceptCommit by (auto intro: quiet_driverCall)
next
  case (confirmCommit c h c0)
  from setConfirmCommit_Inr [OF confirmCommit(6)] obtain v where
    v: "emitted_own ctx (externalized c h s) v"
      "t = driverCall (ValueExternalized (value c)) (stopNomination v)" by blast
  have "externalizes ctx s t"
    unfolding externalizes_def
    by (rule conjI, fact, rule exI [of _ c], rule exI [of _ h], rule exI [of _ "externalized c h s"],
        rule exI [of _ v]) (use confirmCommit v quiet_externalized in auto)
  then show ?thesis by simp
next
  case (hear)
  then show ?thesis by (auto simp: hearFromQuorum_def intro!: quiet_driverCall split: option.splits)
next
  case (timer)
  then show ?thesis by (auto simp: result_simps intro!: quiet_driverCall)
qed auto

lemma sprim_calls:
  assumes "sprim ctx s t"
  shows "quiet s t \<or> t = sendLatestEnvelope s \<or>
    (\<exists>env self. recordable ctx env self s \<and> admitted ctx env self s \<and> t = recorded ctx env s) \<or>
    (\<exists>env r. lastNewer env s \<and> own_envelope ctx r env \<and> runs_from ctx r s \<and> t = newLast env s) \<or>
    externalizes ctx s t"
  using assms bprim_calls ballot_same_quiet unfolding sprim_def by blast

section \<open>Ballots and phases over runs\<close>

lemma invariants_hold_prim: "invariants_hold s \<Longrightarrow> sprim ctx s t \<Longrightarrow> invariants_hold t"
  using sprim_ballots [of ctx s t] ballots_same_invariants [of s t]
  by (auto simp: moves_within_def commits_def confirms_def)

text \<open>The order of the phases, and the value a slot has accepted to commit.\<close>

fun phase_rank :: "SCPPhase \<Rightarrow> nat" where
  "phase_rank SCP_PHASE_PREPARE = 0"
| "phase_rank SCP_PHASE_CONFIRM = 1"
| "phase_rank SCP_PHASE_EXTERNALIZE = 2"

definition committed :: "Slot \<Rightarrow> Value option" where
  "committed s = (if mPhase s = SCP_PHASE_PREPARE then None else map_option value (mCommit s))"

text \<open>Progress: no phase is left backwards, a committed value is kept, prepared ballots only
  rise, the current ballot rises within a phase, and an externalized slot is frozen.\<close>

definition progress :: "Slot \<Rightarrow> Slot \<Rightarrow> bool" where
  "progress s t \<longleftrightarrow>
     phase_rank (mPhase s) \<le> phase_rank (mPhase t) \<and>
     (committed s \<noteq> None \<longrightarrow> committed t = committed s) \<and>
     rises (mPrepared s) (mPrepared t) \<and>
     (mPhase t = mPhase s \<or> mPhase s = SCP_PHASE_CONFIRM \<longrightarrow>
        rises (mCurrentBallot s) (mCurrentBallot t)) \<and>
     (mPhase s = SCP_PHASE_EXTERNALIZE \<longrightarrow> ballots_same s t)"

lemma phase_rank_inject: "phase_rank a = phase_rank b \<longleftrightarrow> a = b"
  by (cases a; cases b) auto

lemma progress_refl [simp]: "progress s s"
  by (simp add: progress_def ballots_same_def)

lemma progress_trans: "progress s t \<Longrightarrow> progress t u \<Longrightarrow> progress s u"
proof -
  assume a: "progress s t" and b: "progress t u"
  then have r: "phase_rank (mPhase s) \<le> phase_rank (mPhase t)" "phase_rank (mPhase t) \<le> phase_rank (mPhase u)"
    by (simp_all add: progress_def)
  have "mPhase u = mPhase s \<Longrightarrow> mPhase t = mPhase s"
    using r by (metis le_antisym phase_rank_inject)
  moreover have "mPhase s = SCP_PHASE_CONFIRM \<Longrightarrow> mPhase t = SCP_PHASE_EXTERNALIZE \<or> mPhase t = mPhase s"
    using r(1) by (cases "mPhase t") auto
  moreover have "mPhase t = SCP_PHASE_EXTERNALIZE \<Longrightarrow> mPhase u = SCP_PHASE_EXTERNALIZE"
    using r(2) by (cases "mPhase u") auto
  ultimately have ph: "mPhase u = mPhase s \<or> mPhase s = SCP_PHASE_CONFIRM \<Longrightarrow>
      (mPhase t = mPhase s \<or> mPhase s = SCP_PHASE_CONFIRM) \<and>
      (mPhase u = mPhase t \<or> mPhase t = SCP_PHASE_CONFIRM)"
    by metis
  show ?thesis
    unfolding progress_def
  proof (intro conjI impI)
    show "phase_rank (mPhase s) \<le> phase_rank (mPhase u)" using r by simp
    show "committed u = committed s" if "committed s \<noteq> None" using that a b by (simp add: progress_def)
    show "rises (mPrepared s) (mPrepared u)" using a b by (auto simp: progress_def intro: rises_trans)
    show "rises (mCurrentBallot s) (mCurrentBallot u)" if "mPhase u = mPhase s \<or> mPhase s = SCP_PHASE_CONFIRM"
      using ph [OF that] a b by (auto simp: progress_def intro: rises_trans)
    show "ballots_same s u" if "mPhase s = SCP_PHASE_EXTERNALIZE"
      using that a b by (auto simp: progress_def ballots_same_def)
  qed
qed

lemma progress_prim:
  assumes "invariants_hold s" and "sprim ctx s t"
  shows "progress s t"
proof -
  consider "ballots_same s t" | "moves_within s t" | "commits ctx s t" | "confirms ctx s t"
    using sprim_ballots [OF assms(2)] by blast
  then show ?thesis
  proof cases
    case 1
    then show ?thesis by (simp add: progress_def committed_def ballots_same_def)
  next
    case 2
    then show ?thesis by (auto simp: progress_def moves_within_def committed_def)
  next
    case 3
    then have "committed s \<noteq> None \<longrightarrow> committed t = committed s"
      using assms(1)
      by (cases "mPhase s") (auto simp: commits_def committed_def invariants_hold_def commit_interval_def
          split: option.splits)
    with 3 show ?thesis by (cases "mPhase s") (auto simp: progress_def commits_def)
  next
    case 4
    then show ?thesis by (auto simp: progress_def confirms_def committed_def)
  qed
qed

lemma sruns_progress:
  assumes "sruns ctx s t" and "invariants_hold s"
  shows "invariants_hold t \<and> progress s t"
  by (rule sruns_relation [where I = invariants_hold and R = progress, OF assms])
    (auto intro: invariants_hold_prim progress_prim progress_trans)

section \<open>Statements over runs\<close>

text \<open>What the node holds from other nodes: ordered by node, each entry a ballot statement of that node
  for this slot with counters in order. \<open>sane_pledges\<close> is what \<open>isStatementSane\<close> demands of the counters of
  every node, the local one included: a first ballot with counter 0, which only the local node may
  have, is allowed, and the quorum set of the statement is not looked at.\<close>

definition sane_pledges :: "SCPPledges \<Rightarrow> bool" where
  "sane_pledges pl \<longleftrightarrow>
     (case pl of
        Prepare _ ballot prepared preparedPrime nC nH \<Rightarrow>
          sanePrepare True ballot prepared preparedPrime nC nH
      | Confirm ballot _ nCommit nH _ \<Rightarrow> counter ballot > 0 \<and> nH \<le> counter ballot \<and> nCommit \<le> nH
      | Externalize commit nH _ \<Rightarrow> counter commit > 0 \<and> nH \<ge> counter commit
      | Nominate _ \<Rightarrow> False)"

definition envelopes_wf :: "Slot \<Rightarrow> bool" where
  "envelopes_wf s \<longleftrightarrow>
     map_wf (mLatestEnvelopes s) \<and>
     (\<forall>(n, e) \<in> set (mLatestEnvelopes s). nodeID (statement e) = n \<and>
        slotIndex (statement e) = mSlotIndex s \<and> sane_pledges (pledges (statement e)))"

text \<open>The record of every node only moves forward.\<close>

definition records_newer :: "Slot \<Rightarrow> Slot \<Rightarrow> bool" where
  "records_newer s t \<longleftrightarrow>
     (\<forall>n e. map_of (mLatestEnvelopes s) n = Some e \<longrightarrow>
        (\<exists>e'. map_of (mLatestEnvelopes t) n = Some e' \<and>
          (e' = e \<or> isNewerStatement (pledges (statement e)) (pledges (statement e')))))"

lemma records_newer_refl [simp]: "records_newer s s"
  by (simp add: records_newer_def)

lemma records_newer_trans:
  assumes "records_newer s t" and "records_newer t u"
  shows "records_newer s u"
  unfolding records_newer_def
proof (intro allI impI)
  fix n e assume "map_of (mLatestEnvelopes s) n = Some e"
  then obtain e1 where e1: "map_of (mLatestEnvelopes t) n = Some e1"
    "e1 = e \<or> isNewerStatement (pledges (statement e)) (pledges (statement e1))"
    using assms(1) by (auto simp: records_newer_def)
  then obtain e2 where "map_of (mLatestEnvelopes u) n = Some e2"
    "e2 = e1 \<or> isNewerStatement (pledges (statement e1)) (pledges (statement e2))"
    using assms(2) by (auto simp: records_newer_def)
  with e1(2) show "\<exists>e'. map_of (mLatestEnvelopes u) n = Some e' \<and>
      (e' = e \<or> isNewerStatement (pledges (statement e)) (pledges (statement e')))"
    by (auto intro: ballot_statements.trans)
qed

lemma isStatementSane_pledges: "isStatementSane ctx st self = Inr True \<Longrightarrow> sane_pledges (pledges st)"
  by (auto simp: isStatementSane_def sane_pledges_def sanePrepare_def result_simps
      split: SCPPledges.splits if_splits)

lemma records_recorded:
  assumes "recordable ctx env self s" and "envelopes_wf s"
  shows "envelopes_wf (recorded ctx env s) \<and> records_newer s (recorded ctx env s)"
proof -
  let ?st = "statement env"
  have r: "slotIndex ?st = mSlotIndex s" "sane_pledges (pledges ?st)" "isNewerStatementFrom (nodeID ?st) ?st s"
    using assms(1) by (auto simp: recordable_def Let_def dest: isStatementSane_pledges)
  have "records_newer s (recorded ctx env s)"
    using r(3) by (auto simp: records_newer_def isNewerStatementFrom_def split: option.splits)
  moreover have "envelopes_wf (recorded ctx env s)"
    using assms(2) r(1,2) om.entries_put [of "mLatestEnvelopes s"]
    by (auto simp: envelopes_wf_def map_wf_put split: if_splits)
  ultimately show ?thesis by simp
qed

lemma records_prim:
  assumes "envelopes_wf s" and "sprim ctx s t"
  shows "envelopes_wf t \<and> records_newer s t"
proof -
  have same: "envelopes_wf v \<and> records_newer u v"
    if "mLatestEnvelopes v = mLatestEnvelopes u" "mSlotIndex v = mSlotIndex u" "envelopes_wf u" for u v
    using that by (simp add: envelopes_wf_def records_newer_def)
  have own: "envelopes_wf v \<and> records_newer u v" if "emitted_own ctx u v" "envelopes_wf u" for u v
  proof -
    have "v = u \<or> (\<exists>env. recordable ctx env True u \<and>
        mLatestEnvelopes v = mLatestEnvelopes (recorded ctx env u) \<and> mSlotIndex v = mSlotIndex u)"
      using that(1) by (auto simp: emitted_own_def)
    then show ?thesis
    proof (elim disjE exE conjE)
      fix env
      assume "recordable ctx env True u" and v: "mLatestEnvelopes v = mLatestEnvelopes (recorded ctx env u)"
        "mSlotIndex v = mSlotIndex u"
      from records_recorded [OF this(1) that(2)] have w: "envelopes_wf (recorded ctx env u)"
        "records_newer u (recorded ctx env u)" by auto
      with same [OF v(1) _ w(1)] v(2) show ?thesis by (auto intro: records_newer_trans)
    qed (use that(2) in simp)
  qed
  consider "mLatestEnvelopes t = mLatestEnvelopes s" "mSlotIndex t = mSlotIndex s"
    | env self where "recordable ctx env self s" "t = recorded ctx env s"
    | "externalizes ctx s t"
    using sprim_calls [OF assms(2)] by (auto simp: quiet_def)
  then show ?thesis
  proof cases
    case 1
    then show ?thesis by (rule same [OF _ _ assms(1)])
  next
    case 2
    then show ?thesis using records_recorded [OF _ assms(1)] by simp
  next
    case 3
    then obtain u v c where u: "quiet s u" "emitted_own ctx u v"
      and t: "t = driverCall (ValueExternalized (value c)) (stopNomination v)"
      by (auto simp: externalizes_def)
    from u(1) have "envelopes_wf u \<and> records_newer s u" by (intro same assms(1)) (auto simp: quiet_def)
    moreover from this have "envelopes_wf v \<and> records_newer u v" by (intro own u(2)) simp
    moreover from this have "envelopes_wf t \<and> records_newer v t"
      by (intro same) (simp_all add: t stopNomination_def)
    ultimately show ?thesis by (auto intro: records_newer_trans)
  qed
qed

lemma sruns_records:
  assumes "sruns ctx s t" and "envelopes_wf s"
  shows "envelopes_wf t \<and> records_newer s t"
  by (rule sruns_relation [where I = envelopes_wf and R = records_newer, OF assms])
    (auto dest: records_prim intro: records_newer_trans)

section \<open>Sent statements over runs\<close>

fun sent_pledges :: "driver_call \<Rightarrow> SCPPledges list" where
  "sent_pledges (EmitEnvelope e) =
     (if is_Nominate (pledges (statement e)) then [] else [pledges (statement e)])"
| "sent_pledges _ = []"

text \<open>The ballot statements the node has sent.\<close>

definition sent :: "Slot \<Rightarrow> SCPPledges list" where
  "sent s = concat (map sent_pledges (mDriverCalls s))"

text \<open>They form a chain of ever newer statements that ends with the envelope kept as the last
  one sent; the envelope to be sent next is that one or a newer one. Pointers are to
  allocated envelopes.\<close>

definition sent_wf :: "Slot \<Rightarrow> bool" where
  "sent_wf s \<longleftrightarrow>
     successively isNewerStatement (sent s) \<and>
     (case mLastEnvelopeEmit s of
        None \<Rightarrow> sent s = []
      | Some (p, e) \<Rightarrow> p < mAllocations s \<and> (sent s \<noteq> [] \<longrightarrow> last (sent s) = pledges (statement e)) \<and>
          (case mLastEnvelope s of
             None \<Rightarrow> False
           | Some (p2, e2) \<Rightarrow>
               if p2 = p then e2 = e else isNewerStatement (pledges (statement e)) (pledges (statement e2)))) \<and>
     (case mLastEnvelope s of
        None \<Rightarrow> True
      | Some (p, e) \<Rightarrow> p < mAllocations s \<and> \<not> is_Nominate (pledges (statement e)))"

lemma quiet_sent: "quiet s t \<Longrightarrow> sent t = sent s"
proof -
  have "list_all quiet_call cs \<Longrightarrow> concat (map sent_pledges cs) = []" for cs
  proof (induction cs)
    case (Cons c cs)
    then show ?case by (cases c) auto
  qed simp
  then show "quiet s t \<Longrightarrow> sent t = sent s" by (auto simp: quiet_def sent_def)
qed

lemma sent_wf_same:
  assumes "sent t = sent s" and "mLastEnvelope t = mLastEnvelope s"
    and "mLastEnvelopeEmit t = mLastEnvelopeEmit s" and "mAllocations t = mAllocations s"
  shows "sent_wf t \<longleftrightarrow> sent_wf s"
  unfolding sent_wf_def assms ..

lemma sent_wf_send:
  assumes "sent_wf s"
  shows "sent_wf (sendLatestEnvelope s)"
proof (cases "sendLatestEnvelope s = s")
  case False
  then obtain p e where l: "mLastEnvelope s = Some (p, e)"
    and new: "mLastEnvelopeEmit s = None \<or> map_option fst (mLastEnvelopeEmit s) \<noteq> Some p"
    and t: "sendLatestEnvelope s = driverCall (EmitEnvelope e) (s\<lparr>mLastEnvelopeEmit := Some (p, e)\<rparr>)"
    by (auto simp: sendLatestEnvelope_def split: option.splits if_splits)
  have nom: "\<not> is_Nominate (pledges (statement e))" using assms l by (simp add: sent_wf_def)
  then have sent: "sent (sendLatestEnvelope s) = sent s @ [pledges (statement e)]"
    by (simp add: t sent_def)
  have "sent s \<noteq> [] \<Longrightarrow> isNewerStatement (last (sent s)) (pledges (statement e))"
    using assms l new by (auto simp: sent_wf_def split: option.splits prod.splits if_splits)
  moreover have "mLastEnvelopeEmit (sendLatestEnvelope s) = Some (p, e)" by (simp add: t)
  moreover have "p < mAllocations s" "successively isNewerStatement (sent s)"
    using assms l by (simp_all add: sent_wf_def)
  ultimately show ?thesis
    using l nom by (auto simp: sent_wf_def sent successively_append_iff)
qed (use assms in simp)

lemma sent_wf_newLast:
  assumes "sent_wf s" and "lastNewer env s" and "\<not> is_Nominate (pledges (statement env))"
  shows "sent_wf (newLast env s)"
proof -
  have "sent (newLast env s) = sent s" by (simp add: sent_def)
  then show ?thesis
    using assms
    by (auto simp: sent_wf_def lastNewer_def split: option.splits if_splits
        intro: ballot_statements.trans)
qed

text \<open>The announcements of a value: none before the last phase, one at most, and of the
  committed value.\<close>

definition announced :: "Slot \<Rightarrow> Value list" where
  "announced s = concat (map (\<lambda>c. case c of ValueExternalized v \<Rightarrow> [v] | _ \<Rightarrow> []) (mDriverCalls s))"

definition announced_wf :: "Slot \<Rightarrow> bool" where
  "announced_wf s \<longleftrightarrow>
     announced s = [] \<or>
     mPhase s = SCP_PHASE_EXTERNALIZE \<and> (\<exists>c. mCommit s = Some c \<and> announced s = [value c])"

lemma quiet_announced: "quiet s t \<Longrightarrow> announced t = announced s"
proof -
  have "list_all quiet_call cs \<Longrightarrow>
      concat (map (\<lambda>c. case c of ValueExternalized v \<Rightarrow> [v] | _ \<Rightarrow> []) cs) = []" for cs
  proof (induction cs)
    case (Cons c cs)
    then show ?case by (cases c) auto
  qed simp
  then show "quiet s t \<Longrightarrow> announced t = announced s" by (auto simp: quiet_def announced_def)
qed

lemma announced_send: "announced (sendLatestEnvelope s) = announced s"
  by (auto simp: announced_def sendLatestEnvelope_def split: option.splits)

lemma announced_frame [simp]:
  "announced (recorded ctx env s) = announced s"
  "announced (newLast env s) = announced s"
  by (simp_all add: announced_def)

lemma sent_frame [simp]:
  "sent (recorded ctx env s) = sent s"
  "sent (newLast env s) = sent s"
  by (simp_all add: sent_def)

lemma emitted_own_calls:
  assumes "emitted_own ctx u v"
  shows "announced v = announced u" and "sent_wf u \<Longrightarrow> sent_wf v"
proof -
  have rec: "sent_wf (recorded ctx env u) \<longleftrightarrow> sent_wf u" for env by (rule sent_wf_same) simp_all
  show "announced v = announced u"
    using assms by (auto simp: emitted_own_def announced_send)
  show "sent_wf v" if "sent_wf u"
    using assms that
    by (auto simp: emitted_own_def rec intro!: sent_wf_send sent_wf_newLast dest: own_envelope_frame(1))
qed

lemma sent_wf_prim:
  assumes "sent_wf s" and "sprim ctx s t"
  shows "sent_wf t"
proof -
  have quiet: "sent_wf u" if "quiet s u" for u
    using that assms(1) sent_wf_same [of u s] by (simp add: quiet_sent) (simp add: quiet_def)
  consider "quiet s t" | "t = sendLatestEnvelope s" | env where "t = recorded ctx env s"
    | env where "lastNewer env s" "\<not> is_Nominate (pledges (statement env))" "t = newLast env s"
    | "externalizes ctx s t"
    using sprim_calls [OF assms(2)] own_envelope_frame(1) by metis
  then show ?thesis
  proof cases
    case (3 env)
    then show ?thesis using assms(1) sent_wf_same [of t s] by simp
  next
    case 5
    then obtain u v c where u: "quiet s u" "emitted_own ctx u v"
      and t: "t = driverCall (ValueExternalized (value c)) (stopNomination v)"
      by (auto simp: externalizes_def)
    have "sent_wf v" by (rule emitted_own_calls(2) [OF u(2) quiet [OF u(1)]])
    moreover have "sent t = sent v" by (simp add: t sent_def stopNomination_def)
    ultimately show ?thesis
      using sent_wf_same [of t v] by (simp add: t stopNomination_def)
  qed (auto intro: quiet sent_wf_send sent_wf_newLast assms(1))
qed

text \<open>The invariants of the whole ballot machine.\<close>

definition ballot_inv :: "Slot \<Rightarrow> bool" where
  "ballot_inv s \<longleftrightarrow> invariants_hold s \<and> envelopes_wf s \<and> sent_wf s \<and> announced_wf s"

lemma announced_wf_prim:
  assumes "announced_wf s" and "sprim ctx s t"
  shows "announced_wf t"
proof (cases "externalizes ctx s t")
  case True
  then obtain u v c where u: "quiet s u" "mCommit u = Some c" "mPhase u = SCP_PHASE_EXTERNALIZE"
    "emitted_own ctx u v" "mPhase s = SCP_PHASE_CONFIRM"
    and t: "t = driverCall (ValueExternalized (value c)) (stopNomination v)"
    by (auto simp: externalizes_def)
  have "announced s = []" using assms(1) u(5) by (simp add: announced_wf_def)
  then have "announced t = [value c]"
    using emitted_own_calls(1) [OF u(4)] quiet_announced [OF u(1)]
    by (simp add: t announced_def stopNomination_def)
  then show ?thesis
    using u emitted_own_frame [OF u(4)] by (simp add: announced_wf_def t stopNomination_def)
next
  case False
  then have same: "announced t = announced s"
    using sprim_calls [OF assms(2)] by (auto simp: quiet_announced announced_send)
  consider "ballots_same s t" | "mPhase s \<noteq> SCP_PHASE_EXTERNALIZE"
    using sprim_ballots [OF assms(2)] by (auto simp: moves_within_def commits_def confirms_def)
  then show ?thesis
    using assms(1) by cases (auto simp: announced_wf_def same ballots_same_def)
qed

lemma ballot_inv_prim: "ballot_inv s \<Longrightarrow> sprim ctx s t \<Longrightarrow> ballot_inv t"
  using records_prim
  by (auto simp: ballot_inv_def intro: invariants_hold_prim sent_wf_prim announced_wf_prim)

lemma sruns_ballot_inv: "sruns ctx s t \<Longrightarrow> ballot_inv s \<Longrightarrow> ballot_inv t"
  using sruns_relation [where I = ballot_inv and R = "\<lambda>_ _. True", of ctx s t]
  by (auto intro: ballot_inv_prim)

section \<open>When values are committed and externalized\<close>

text \<open>A slot enters the last phase only from a state in which a quorum of recorded statements
  confirms the commit of the whole interval it then stores.\<close>

lemma sruns_externalized:
  assumes "sruns ctx s t" and "invariants_hold s" and "mPhase s \<noteq> SCP_PHASE_EXTERNALIZE"
    and "mPhase t = SCP_PHASE_EXTERNALIZE"
  shows "\<exists>u c h. (sprim ctx)\<^sup>*\<^sup>* s u \<and> (sprim ctx)\<^sup>*\<^sup>* u t \<and> commit_interval c h \<and>
    ratifiesCommit ctx u c h \<and> mPhase u = SCP_PHASE_CONFIRM \<and> mCommit t = Some c \<and> mHighBallot t = Some h"
proof -
  have "(sprim ctx)\<^sup>*\<^sup>* s t" using assms(1) by (simp add: sruns_def)
  then have "invariants_hold t \<and> (mPhase t = SCP_PHASE_EXTERNALIZE \<longrightarrow>
    (\<exists>u c h. (sprim ctx)\<^sup>*\<^sup>* s u \<and> (sprim ctx)\<^sup>*\<^sup>* u t \<and> commit_interval c h \<and>
      ratifiesCommit ctx u c h \<and> mPhase u = SCP_PHASE_CONFIRM \<and> mCommit t = Some c \<and> mHighBallot t = Some h))"
  proof (induction rule: rtranclp_induct)
    case base
    then show ?case using assms(2,3) by simp
  next
    case (step y z)
    note IH = step.IH
    have "invariants_hold z" using step by (auto intro: invariants_hold_prim)
    consider "ballots_same y z" | "mPhase z \<noteq> SCP_PHASE_EXTERNALIZE" | "confirms ctx y z"
      using sprim_ballots [OF step.hyps(2)] by (auto simp: moves_within_def commits_def)
    then show ?case
    proof cases
      case 1
      then show ?thesis
        using IH step.hyps \<open>invariants_hold z\<close> unfolding ballots_same_def
        by (metis rtranclp.rtrancl_into_rtrancl)
    next
      case 3
      then obtain c h where "commit_interval c h" "ratifiesCommit ctx y c h" "mPhase y = SCP_PHASE_CONFIRM"
        "mCommit z = Some c"
        "mHighBallot z = Some h" by (auto simp: confirms_def)
      with step.hyps \<open>invariants_hold z\<close> show ?thesis by blast
    qed (use \<open>invariants_hold z\<close> in simp)
  qed
  with assms(4) show ?thesis by simp
qed

end
