(* ===== verification/Nomination_Safety.thy ===== *)
theory Nomination_Safety
  imports Nomination_Protocol Ballot_Safety
begin

text \<open>
  What nomination keeps and computes: every operation is a run of the slot, votes, accepted
  values and candidates only grow, a recorded nomination is only replaced by one that
  extends it, leaders are the nodes of highest priority, and the value taken from a leader
  is the eligible one of highest hash.
\<close>

section \<open>Nominations as an order\<close>

lemma strictlyOrdered_std_set: "strictlyOrdered xs \<longleftrightarrow> std_set xs"
  by (induction xs rule: strictlyOrdered.induct) (auto simp: strict_sorted_iff [symmetric])

lemma std_includes_set:
  "std_set vs \<Longrightarrow> std_set ps \<Longrightarrow> std_includes vs ps \<longleftrightarrow> set ps \<subseteq> set vs"
proof (induction vs ps rule: std_includes.induct)
  case (3 v vs p ps)
  consider "p < v" | "v < p" | "p = v" by fastforce
  then show ?case
  proof cases
    case 1
    then have "p \<notin> set (v # vs)" using "3.prems"(1) by auto
    then show ?thesis using 1 by simp
  next
    case 2
    then have "v \<notin> set (p # ps)" using "3.prems"(2) by auto
    then have "set (p # ps) \<subseteq> set (v # vs) \<longleftrightarrow> set (p # ps) \<subseteq> set vs" by auto
    then show ?thesis using 2 3 by (simp add: less_not_sym)
  next
    case 3
    then have "v \<notin> set ps" using "3.prems"(2) by auto
    then show ?thesis using "3.IH"(2) "3.prems" 3 by auto
  qed
qed auto

lemma std_includes_refl: "std_includes xs xs"
  by (induction xs) auto

lemma isSubsetHelper_sets:
  assumes "std_set p" and "std_set v"
  shows "isSubsetHelper p v = (set p \<subseteq> set v, set p \<noteq> set v)"
proof -
  have len: "length p = card (set p)" "length v = card (set v)"
    using assms by (simp_all add: distinct_card)
  have "set p \<subseteq> set v \<Longrightarrow> length p \<le> length v" unfolding len by (rule card_mono) simp_all
  moreover have "set p \<subseteq> set v \<Longrightarrow> length p = length v \<longleftrightarrow> set p = set v"
    unfolding len by (metis List.finite_set card_subset_eq)
  ultimately show ?thesis
    using assms by (auto simp: isSubsetHelper_def std_includes_set Let_def)
qed

definition sane_nomination :: "SCPNomination \<Rightarrow> bool" where
  "sane_nomination n \<longleftrightarrow> std_set (votes n) \<and> std_set (accepted n)"

lemma isSane_sane: "isSane n \<Longrightarrow> sane_nomination n"
  by (simp add: isSane_def sane_nomination_def strictlyOrdered_std_set)

lemma isNewerNomination_sets:
  assumes "sane_nomination a" and "sane_nomination b"
  shows "isNewerNomination a b \<longleftrightarrow>
    set (votes a) \<subseteq> set (votes b) \<and> set (accepted a) \<subseteq> set (accepted b) \<and>
    (set (votes a), set (accepted a)) \<noteq> (set (votes b), set (accepted b))"
proof -
  have "isSubsetHelper (votes a) (votes b) = (set (votes a) \<subseteq> set (votes b), set (votes a) \<noteq> set (votes b))"
    "isSubsetHelper (accepted a) (accepted b) =
      (set (accepted a) \<subseteq> set (accepted b), set (accepted a) \<noteq> set (accepted b))"
    using assms by (simp_all add: sane_nomination_def isSubsetHelper_sets)
  then show ?thesis by (simp add: isNewerNomination_def)
qed

text \<open>On sane nominations the comparison is a strict order, like that of ballot statements.\<close>

definition newer_sane_nomination :: "SCPNomination \<Rightarrow> SCPNomination \<Rightarrow> bool" where
  "newer_sane_nomination a b \<longleftrightarrow> sane_nomination a \<and> sane_nomination b \<and> isNewerNomination a b"

lemma pair_subset_strict:
  "A \<subseteq> B \<Longrightarrow> B \<subseteq> C \<Longrightarrow> X \<subseteq> Y \<Longrightarrow> Y \<subseteq> Z \<Longrightarrow> (A, X) \<noteq> (B, Y) \<Longrightarrow> (A, X) \<noteq> (C, Z)"
  by auto

lemma newer_sane_nomination_trans:
  assumes "newer_sane_nomination a b" and "newer_sane_nomination b c"
  shows "newer_sane_nomination a c"
proof -
  have sane: "sane_nomination a" "sane_nomination b" "sane_nomination c"
    using assms by (simp_all add: newer_sane_nomination_def)
  have ab: "set (votes a) \<subseteq> set (votes b)" "set (accepted a) \<subseteq> set (accepted b)"
    "(set (votes a), set (accepted a)) \<noteq> (set (votes b), set (accepted b))"
    using assms(1) sane unfolding newer_sane_nomination_def isNewerNomination_sets [OF sane(1,2)] by blast+
  have bc: "set (votes b) \<subseteq> set (votes c)" "set (accepted b) \<subseteq> set (accepted c)"
    using assms(2) sane unfolding newer_sane_nomination_def isNewerNomination_sets [OF sane(2,3)] by blast+
  show ?thesis
    unfolding newer_sane_nomination_def isNewerNomination_sets [OF sane(1,3)]
    by (intro conjI sane order_trans [OF ab(1) bc(1)] order_trans [OF ab(2) bc(2)]
        pair_subset_strict [OF ab(1) bc(1) ab(2) bc(2) ab(3)])
qed

lemma newer_sane_nomination_irrefl: "\<not> newer_sane_nomination a a"
  by (auto simp: newer_sane_nomination_def isNewerNomination_sets)

interpretation nominations: statement_order newer_sane_nomination
  by unfold_locales (rule newer_sane_nomination_irrefl, erule newer_sane_nomination_trans)

section \<open>Growth\<close>

definition nominations_wf :: "Slot \<Rightarrow> bool" where
  "nominations_wf s \<longleftrightarrow>
     map_wf (mLatestNominations s) \<and>
     (\<forall>(n, e) \<in> set (mLatestNominations s). nodeID (statement e) = n \<and>
        slotIndex (statement e) = mSlotIndex s \<and>
        (\<exists>nom. pledges (statement e) = Nominate nom \<and> isSane nom))"

definition nom_inv :: "Slot \<Rightarrow> bool" where
  "nom_inv s \<longleftrightarrow>
     std_set (mVotes s) \<and> std_set (mAccepted s) \<and> std_set (mCandidates s) \<and>
     set (mCandidates s) \<subseteq> set (mAccepted s) \<and> set (mAccepted s) \<subseteq> set (mVotes s) \<and>
     nominations_wf s"

definition nominations_grow :: "Slot \<Rightarrow> Slot \<Rightarrow> bool" where
  "nominations_grow s t \<longleftrightarrow>
     (\<forall>n e nom. map_of (mLatestNominations s) n = Some e \<longrightarrow> pledges (statement e) = Nominate nom \<longrightarrow>
        (\<exists>e' nom'. map_of (mLatestNominations t) n = Some e' \<and> pledges (statement e') = Nominate nom' \<and>
          set (votes nom) \<subseteq> set (votes nom') \<and> set (accepted nom) \<subseteq> set (accepted nom')))"

definition grows :: "Slot \<Rightarrow> Slot \<Rightarrow> bool" where
  "grows s t \<longleftrightarrow>
     set (mVotes s) \<subseteq> set (mVotes t) \<and> set (mAccepted s) \<subseteq> set (mAccepted t) \<and>
     set (mCandidates s) \<subseteq> set (mCandidates t) \<and> nominations_grow s t"

lemma nominations_grow_refl [simp]: "nominations_grow s s"
  by (auto simp: nominations_grow_def)

lemma nominations_grow_trans:
  assumes "nominations_grow s t" and "nominations_grow t u"
  shows "nominations_grow s u"
  unfolding nominations_grow_def
proof (intro allI impI)
  fix n e nom
  assume "map_of (mLatestNominations s) n = Some e" "pledges (statement e) = Nominate nom"
  with assms(1) obtain e1 nom1 where 1: "map_of (mLatestNominations t) n = Some e1"
    "pledges (statement e1) = Nominate nom1"
    "set (votes nom) \<subseteq> set (votes nom1)" "set (accepted nom) \<subseteq> set (accepted nom1)"
    unfolding nominations_grow_def by blast
  with assms(2) obtain e2 nom2 where "map_of (mLatestNominations u) n = Some e2"
    "pledges (statement e2) = Nominate nom2"
    "set (votes nom1) \<subseteq> set (votes nom2)" "set (accepted nom1) \<subseteq> set (accepted nom2)"
    unfolding nominations_grow_def by blast
  with 1 show "\<exists>e' nom'. map_of (mLatestNominations u) n = Some e' \<and> pledges (statement e') = Nominate nom' \<and>
      set (votes nom) \<subseteq> set (votes nom') \<and> set (accepted nom) \<subseteq> set (accepted nom')"
    by (meson order_trans)
qed

lemma grows_refl [simp]: "grows s s"
  by (simp add: grows_def)

lemma grows_trans: "grows s t \<Longrightarrow> grows t u \<Longrightarrow> grows s u"
  unfolding grows_def by (auto intro: nominations_grow_trans)

definition nom_same :: "Slot \<Rightarrow> Slot \<Rightarrow> bool" where
  "nom_same s t \<longleftrightarrow>
     mVotes t = mVotes s \<and> mAccepted t = mAccepted s \<and> mCandidates t = mCandidates s \<and>
     mLatestNominations t = mLatestNominations s \<and> mLastNomination t = mLastNomination s \<and>
     mSlotIndex t = mSlotIndex s"

lemma nom_same_grows: "nom_same s t \<Longrightarrow> grows s t \<and> (nom_inv t \<longleftrightarrow> nom_inv s)"
  by (auto simp: nom_same_def grows_def nom_inv_def nominations_wf_def nominations_grow_def)

lemma nom_same_bumped: "nom_same s t \<Longrightarrow> nom_same s (bumped b t)"
  by (simp add: nom_same_def bumped_def Let_def driverCall_def)

lemma nom_same_driverCall: "nom_same s t \<Longrightarrow> nom_same s (driverCall c t)"
  by (simp add: nom_same_def driverCall_def)

lemma nom_same_trans: "nom_same s t \<Longrightarrow> nom_same t u \<Longrightarrow> nom_same s u"
  by (simp add: nom_same_def)

lemma nom_same_updateCurrent: "updateCurrentIfNeeded s = Inr t \<Longrightarrow> nom_same s t"
proof -
  assume "updateCurrentIfNeeded s = Inr t"
  then have "t = s \<or> (\<exists>h. t = bumped h s)"
    by (auto simp: result_simps split: option.splits if_splits)
  then show ?thesis
  proof
    assume "t = s"
    then show ?thesis by (simp add: nom_same_def)
  next
    assume "\<exists>h. t = bumped h s"
    then show ?thesis using nom_same_bumped [of s s] by (auto simp: nom_same_def [of s s])
  qed
qed

lemma nom_same_emitted: "emitted_own ctx u v \<Longrightarrow> nom_same u v"
  by (auto simp: emitted_own_def nom_same_def recorded_def recordEnvelope_def recordStatement_def
      setFullyValidated_def newLast_def sendLatestEnvelope_def driverCall_def split: option.splits)

lemma nom_same_refl [simp]: "nom_same s s"
  by (simp add: nom_same_def)

lemma nom_same_updates [simp]:
  "nom_same s (t\<lparr>mCommit := c\<rparr>) = nom_same s t"
  "nom_same s (t\<lparr>mHighBallot := c\<rparr>) = nom_same s t"
  "nom_same s (t\<lparr>mPrepared := c\<rparr>) = nom_same s t"
  "nom_same s (t\<lparr>mPreparedPrime := c\<rparr>) = nom_same s t"
  "nom_same s (t\<lparr>mPhase := ph\<rparr>) = nom_same s t"
  "nom_same s (t\<lparr>mCurrentMessageLevel := l\<rparr>) = nom_same s t"
  by (simp_all add: nom_same_def)

lemma acceptCommit_nom:
  assumes "acceptCommit c h s = Inr (True, t)"
  shows "nom_same s t"
proof -
  define s1 where "s1 = (if (case (mHighBallot s, mCommit s) of
           (Some h0, Some c0) \<Rightarrow> compareBallots h0 h \<noteq> 0 \<or> compareBallots c0 c \<noteq> 0
         | _ \<Rightarrow> True) then s\<lparr>mCommit := Some c, mHighBallot := Some h\<rparr> else s)"
  have "nom_same s s1" by (simp add: s1_def)
  moreover obtain u where "updateCurrentIfNeeded u = Inr t" "nom_same s1 u"
    using assms unfolding acceptCommit_def Let_def s1_def [symmetric]
    by (auto simp: result_simps nom_same_bumped simp del: updateCurrentIfNeeded_Inr split: if_splits)
  ultimately show ?thesis by (meson nom_same_trans nom_same_updateCurrent)
qed

lemma nom_same_prim:
  assumes "bprim ctx s t"
  shows "nom_same s t"
  using assms
proof cases
  case (update b t')
  then show ?thesis
    by (auto simp: updateCurrentValue_True intro!: nom_same_driverCall nom_same_bumped)
next
  case (preparedAccept b t')
  then have "nom_same s t'"
    by (auto simp: acceptPrepared_def setPrepared_def Let_def result_simps nom_same_def
        split: option.splits if_splits)
  then show ?thesis using preparedAccept by (simp add: nom_same_driverCall)
next
  case (preparedConfirmed h c t')
  from confirmPrepared_True [OF preparedConfirmed(7)] have "nom_same s t'"
    by (auto dest!: nom_same_updateCurrent simp: nom_same_def)
  then show ?thesis using preparedConfirmed by (simp add: nom_same_driverCall)
next
  case (acceptCommit c h t')
  then have "nom_same s t'"
    using acceptCommit_nom [OF acceptCommit(6)] by simp
  then show ?thesis using acceptCommit by (simp add: nom_same_driverCall)
next
  case (confirmCommit c h c0)
  from setConfirmCommit_Inr [OF confirmCommit(6)] obtain v where
    v: "emitted_own ctx (externalized c h s) v"
      "t = driverCall (ValueExternalized (value c)) (stopNomination v)" by blast
  have "nom_same s (externalized c h s)"
    by (simp add: externalized_def nom_same_def bumped_def driverCall_def Let_def split: option.splits)
  with nom_same_emitted [OF v(1)] show ?thesis
    by (simp add: v(2) nom_same_def stopNomination_def driverCall_def)
qed (auto simp: nom_same_def hearFromQuorum_def sendLatestEnvelope_def driverCall_def recorded_def
    recordEnvelope_def recordStatement_def setFullyValidated_def newLast_def result_simps
    split: option.splits)

lemma nom_same_runs: "runs ctx s t \<Longrightarrow> nom_same s t"
  unfolding runs_def
  by (elim conjE, erule rtranclp_induct)
    (auto intro: nom_same_prim nom_same_trans simp: nom_same_def [of s s])

section \<open>Every operation is a run that grows\<close>

definition nrel :: "'a SCPContext_scheme \<Rightarrow> Slot \<Rightarrow> Slot \<Rightarrow> bool" where
  "nrel ctx s t \<longleftrightarrow> sruns ctx s t \<and> (nom_inv s \<longrightarrow> nom_inv t \<and> grows s t)"

lemma nrel_refl [simp, intro]: "nrel ctx s s"
  by (simp add: nrel_def)

lemma nrel_trans: "nrel ctx s t \<Longrightarrow> nrel ctx t u \<Longrightarrow> nrel ctx s u"
  unfolding nrel_def by (auto intro: sruns_trans grows_trans)

lemma nrel_runs: "runs ctx s t \<Longrightarrow> nrel ctx s t"
  using nom_same_grows [OF nom_same_runs, of ctx s t] by (simp add: nrel_def runs_sruns)

definition nspec :: "'a SCPContext_scheme \<Rightarrow> Slot \<Rightarrow> ('x \<times> Slot) result \<Rightarrow> bool" where
  "nspec ctx s r \<longleftrightarrow> (case r of Inr (x, t) \<Rightarrow> nrel ctx s t | Inl e \<Rightarrow> True)"

lemma nspec_simps [simp]:
  "nspec ctx s (Inr (x, t)) \<longleftrightarrow> nrel ctx s t"
  "nspec ctx s (Inl e)"
  by (simp_all add: nspec_def)

lemma nspec_from: "nrel ctx s t \<Longrightarrow> nspec ctx t r \<Longrightarrow> nspec ctx s r"
  by (auto simp: nspec_def split: sum.splits intro: nrel_trans)

lemma nspec_bind:
  assumes "nspec ctx s m" and "\<And>x t. m = Inr (x, t) \<Longrightarrow> nspec ctx t (f (x, t))"
  shows "nspec ctx s (bindE m f)"
  using assms by (cases m) (auto intro: nspec_from)

lemma nspec_pure: "(\<And>x. m = Inr x \<Longrightarrow> nspec ctx s (f x)) \<Longrightarrow> nspec ctx s (bindE m f)"
  by (cases m) auto

lemma nspec_nominateOf: "(\<And>nom. pledges st = Nominate nom \<Longrightarrow> nspec ctx s (k nom)) \<Longrightarrow> nspec ctx s (nominateOf st k)"
  by (simp add: nominateOf_def split: SCPPledges.splits)

text \<open>Changes of the nomination fields alone.\<close>

lemma nrel_votes: "nrel ctx s (s\<lparr>mVotes := insort_insert v (mVotes s)\<rparr>)"
  by (auto simp: nrel_def nom_inv_def grows_def nominations_wf_def nominations_grow_def
      set_insort_insert std_set_insert ballot_same_def intro!: ballot_same_sruns)

lemma nrel_accept:
  "nrel ctx s (s\<lparr>mAccepted := insort_insert v (mAccepted s), mVotes := insort_insert v (mVotes s)\<rparr>)"
  by (auto simp: nrel_def nom_inv_def grows_def nominations_wf_def nominations_grow_def
      set_insort_insert std_set_insert ballot_same_def intro!: ballot_same_sruns)

lemma nrel_same:
  assumes "ballot_same s t" and "nom_same s t"
  shows "nrel ctx s t"
  using assms by (simp add: nrel_def ballot_same_sruns nom_same_grows)

lemma nrel_driverCall: "nomination_call c \<Longrightarrow> nrel ctx s (driverCall c s)"
  by (rule nrel_same) (auto simp: ballot_same_def nom_same_def driverCall_def)

lemma nrel_record:
  assumes "slotIndex (statement env) = mSlotIndex s" and "pledges (statement env) = Nominate nom"
    and "isNewerNominationFrom (nodeID (statement env)) nom s = Inr True" and "isSane nom"
  shows "nrel ctx s (recordNomination env s)"
proof -
  let ?n = "nodeID (statement env)"
  have same: "ballot_same s (recordNomination env s)"
    by (simp add: ballot_same_def recordNomination_def recordStatement_def)
  have "nom_inv (recordNomination env s) \<and> grows s (recordNomination env s)" if inv: "nom_inv s"
  proof -
    have wf: "nominations_wf s" using inv by (simp add: nom_inv_def)
    then have "nominations_wf (recordNomination env s)"
      using assms(1,2,4) om.entries_put [of "mLatestNominations s"]
      by (auto simp: nominations_wf_def recordNomination_def recordStatement_def map_wf_put split: if_splits)
    moreover have "nominations_grow s (recordNomination env s)"
      unfolding nominations_grow_def
    proof (intro allI impI)
      fix n e old
      assume e: "map_of (mLatestNominations s) n = Some e" and old: "pledges (statement e) = Nominate old"
      have "isSane old" using wf map_of_SomeD [OF e] old by (fastforce simp: nominations_wf_def)
      moreover have "n = ?n \<Longrightarrow> isNewerNomination old nom"
        using assms(3) e old by (simp add: isNewerNominationFrom_def nominateOf_def)
      ultimately have "n = ?n \<Longrightarrow> set (votes old) \<subseteq> set (votes nom) \<and> set (accepted old) \<subseteq> set (accepted nom)"
        using isNewerNomination_sets [OF isSane_sane isSane_sane] assms(4) by blast
      then show "\<exists>e' nom'. map_of (mLatestNominations (recordNomination env s)) n = Some e' \<and>
          pledges (statement e') = Nominate nom' \<and> set (votes old) \<subseteq> set (votes nom') \<and>
          set (accepted old) \<subseteq> set (accepted nom')"
        using e old assms(2) by (cases "n = ?n") (auto simp: recordNomination_def recordStatement_def)
    qed
    ultimately show ?thesis
      using inv by (simp add: nom_inv_def grows_def) (simp add: recordNomination_def recordStatement_def)
  qed
  then show ?thesis using same by (simp add: nrel_def ballot_same_sruns)
qed

lemma nrel_promoteVotes: "promoteVotes ctx vs w s = (w', t) \<Longrightarrow> nrel ctx s t"
proof (induction ctx vs w s rule: promoteVotes.induct)
  case (2 ctx v vs w s)
  note step = nrel_trans [OF nrel_accept [of ctx s v]] nrel_trans [OF nrel_votes]
  from 2 show ?case by (auto simp: Let_def split: if_splits intro: step)
qed simp

text \<open>What promotion computes.\<close>

abbreviation ratifiesNomination :: "'a SCPContext_scheme \<Rightarrow> Slot \<Rightarrow> Value \<Rightarrow> bool" where
  "ratifiesNomination ctx s a \<equiv>
     federatedRatify ctx (\<lambda>st. acceptPredicate a (pledges st)) (mLatestNominations s)"

abbreviation acceptsNomination :: "'a SCPContext_scheme \<Rightarrow> Slot \<Rightarrow> Value \<Rightarrow> bool" where
  "acceptsNomination ctx s v \<equiv>
     federatedAccept ctx (\<lambda>st. votePredicate v (pledges st)) (\<lambda>st. acceptPredicate v (pledges st))
       (mLatestNominations s)"

lemma promoteAccepted_sets:
  assumes "promoteAccepted ctx as w s = (w', t)"
  shows "\<exists>cs. t = s\<lparr>mCandidates := cs\<rparr> \<and>
    set cs = set (mCandidates s) \<union> {a \<in> set as. ratifiesNomination ctx s a} \<and>
    (std_set (mCandidates s) \<longrightarrow> std_set cs) \<and>
    (w' \<longleftrightarrow> w \<or> \<not> {a \<in> set as. ratifiesNomination ctx s a} \<subseteq> set (mCandidates s))"
  using assms
proof (induction ctx as w s rule: promoteAccepted.induct)
  case (1 ctx w s)
  then show ?case by (intro exI [of _ "mCandidates s"]) simp
next
  case (2 ctx a as w s)
  let ?s = "s\<lparr>mCandidates := insort_insert a (mCandidates s)\<rparr>"
  show ?case
  proof (cases "a \<notin> set (mCandidates s) \<and> ratifiesNomination ctx s a")
    case True
    then have "promoteAccepted ctx as True ?s = (w', t)" using "2.prems" by simp
    with True "2.IH"(2) obtain cs where cs: "t = ?s\<lparr>mCandidates := cs\<rparr>"
      "set cs = insert a (set (mCandidates s)) \<union> {a \<in> set as. ratifiesNomination ctx s a}"
      "std_set (insort_insert a (mCandidates s)) \<longrightarrow> std_set cs" "w'"
      by (auto simp: set_insort_insert)
    then show ?thesis
      using True std_set_insert by (intro exI [of _ cs]) auto
  next
    case False
    then have "promoteAccepted ctx as w s = (w', t)" using "2.prems" by (simp split: if_splits)
    then obtain cs where "t = s\<lparr>mCandidates := cs\<rparr>"
      "set cs = set (mCandidates s) \<union> {a \<in> set as. ratifiesNomination ctx s a}"
      "std_set (mCandidates s) \<longrightarrow> std_set cs"
      "w' \<longleftrightarrow> w \<or> \<not> {a \<in> set as. ratifiesNomination ctx s a} \<subseteq> set (mCandidates s)"
      using "2.IH"(1) "2.IH"(3) False by (cases "a \<in> set (mCandidates s)") blast+
    then show ?thesis using False by (intro exI [of _ cs]) auto
  qed
qed

lemma nrel_promoteAccepted:
  assumes "promoteAccepted ctx as w s = (w', t)" and "set as \<subseteq> set (mAccepted s)"
  shows "nrel ctx s t"
proof -
  obtain cs where t: "t = s\<lparr>mCandidates := cs\<rparr>"
    and cs: "set cs = set (mCandidates s) \<union> {a \<in> set as. ratifiesNomination ctx s a}"
    "std_set (mCandidates s) \<longrightarrow> std_set cs"
    using promoteAccepted_sets [OF assms(1)] by auto
  have "ballot_same s t" by (simp add: t ballot_same_def)
  then show ?thesis
    using cs assms(2)
    by (auto simp: nrel_def ballot_same_sruns nom_inv_def grows_def t nominations_wf_def nominations_grow_def)
qed

lemma nspec_voteFromLeader: "nspec ctx s (voteFromLeader ctx node nom w s)"
  unfolding voteFromLeader_def
  by (auto intro!: nspec_pure nrel_trans [OF nrel_votes nrel_driverCall])

lemma nspec_emitNomination:
  assumes "\<And>e s. nspec ctx s (process e s)"
  shows "nspec ctx s (emitNomination process ctx s)"
proof -
  have last: "nrel ctx u (u\<lparr>mLastNomination := l\<rparr>)" for u l
    by (auto simp: nrel_def ballot_same_def nom_inv_def grows_def nominations_wf_def nominations_grow_def
        intro!: ballot_same_sruns)
  have emit: "nrel ctx u (driverCall (EmitEnvelope (createEnvelope ctx (Nominate nom) s)) (u\<lparr>mLastNomination := l\<rparr>))"
    for u l nom
    by (rule nrel_trans [OF last nrel_driverCall]) simp
  show ?thesis
    unfolding emitNomination_def Let_def
    by (rule nspec_bind [OF assms]) (auto intro!: nspec_pure last emit)
qed

lemma nspec_combineAndBump: "nspec ctx s (combineAndBump (advanceSlot n ctx) ctx s)"
proof -
  let ?v = "drv_combineCandidates (mDriver ctx) (mSlotIndex s) (mCandidates s)"
  let ?s = "driverCall (UpdatedCandidateValue ?v) (s\<lparr>mLatestCompositeCandidate := ?v\<rparr>)"
  have "nrel ctx s ?s" by (rule nrel_same) (auto simp: ballot_same_def nom_same_def driverCall_def)
  moreover have "nspec ctx ?s (bindE (bumpState (advanceSlot n ctx) ctx ?v False ?s) (\<lambda>(_, s). Inr ((), s)))"
    by (auto simp: nspec_def bindE_def split: sum.splits intro: nrel_runs bumpState_runs)
  ultimately show ?thesis by (auto simp: combineAndBump_def Let_def intro: nspec_from)
qed

lemma nspec_nominationStep:
  assumes "\<And>e s. nspec ctx s (process e s)"
  shows "nspec ctx s (nominationStep process (advanceSlot n ctx) ctx node nom s)"
proof -
  obtain w1 s1 where 1: "promoteVotes ctx (votes nom) False s = (w1, s1)" by fastforce
  obtain w2 s2 where 2: "promoteAccepted ctx (mAccepted s1) False s1 = (w2, s2)" by fastforce
  have "nrel ctx s s2"
    using nrel_promoteVotes [OF 1] nrel_promoteAccepted [OF 2] by (auto intro: nrel_trans)
  moreover have "nspec ctx s2 (bindE (voteFromLeader ctx node nom w1 s2) (\<lambda>(modified, s).
      bindE (if modified then emitNomination process ctx s else Inr ((), s)) (\<lambda>(_, s).
        if w2 then combineAndBump (advanceSlot n ctx) ctx s else Inr ((), s))))"
    by (auto intro!: nspec_bind [OF nspec_voteFromLeader] nspec_bind [of ctx _ "if _ then _ else _"]
        nspec_emitNomination assms nspec_combineAndBump)
  ultimately show ?thesis by (simp add: nominationStep_def 1 2 nspec_from)
qed

lemma nspec_processNomination: "nspec ctx s (processNomination m (advanceSlot n ctx) ctx env s)"
proof (induction m arbitrary: env s)
  case (Suc m)
  have step: "nspec ctx s (if newer \<and> isSane nom then
          let s = recordNomination env s in
          if mNominationStarted s then
            bindE (nominationStep (processNomination m (advanceSlot n ctx) ctx) (advanceSlot n ctx) ctx
                (nodeID (statement env)) nom s)
              (\<lambda>(_, s). Inr (VALID, s))
          else Inr (VALID, s)
        else Inr (INVALID, s))"
    if "slotIndex (statement env) = mSlotIndex s" "pledges (statement env) = Nominate nom"
      "isNewerNominationFrom (nodeID (statement env)) nom s = Inr newer" for newer nom
    using that nrel_record [of env s nom ctx]
    by (auto simp: Let_def intro!: nspec_from [OF nrel_record [of env s nom ctx]]
        nspec_bind [OF nspec_nominationStep] Suc.IH)
  show ?case
    unfolding processNomination.simps Let_def [of "statement env"]
    by (cases "slotIndex (statement env) = mSlotIndex s") (auto intro!: nspec_nominateOf nspec_pure step)
qed simp

lemma nrel_voteForLeaders:
  "voteForLeaders ctx ls v w s = Inr (v', w', t) \<Longrightarrow> nrel ctx s t"
proof (induction ls arbitrary: v w s)
  case (Cons l ls)
  then show ?case
    by (auto simp: nominateOf_def result_simps split: option.splits SCPPledges.splits if_splits
        intro: nrel_trans [OF nrel_votes])
qed simp

lemma nspec_nominate:
  assumes "\<And>e s. nspec ctx s (process e s)"
  shows "nspec ctx s (nominate process ctx v prev timedout s)"
proof (cases "timedout \<and> \<not> mNominationStarted s")
  case False
  let ?s = "s\<lparr>mNominationStarted := True, mPreviousValue := prev, mRoundNumber := mRoundNumber s + 1\<rparr>"
  have start: "nrel ctx s (?s\<lparr>mRoundLeaders := ls\<rparr>)" for ls
    by (rule nrel_same) (auto simp: ballot_same_def nom_same_def)
  have timers: "nrel ctx u (driverCall (SetupTimer NOMINATION_TIMER k) (driverCall (NominatingValue x) u))"
    for u k x
    by (rule nrel_trans [OF nrel_driverCall nrel_driverCall]) simp_all
  have rest: "nspec ctx u (announceNomination process ctx x w u)" for u x w
    unfolding announceNomination_def Let_def
    by (rule nspec_from [OF timers]) (auto intro!: nspec_bind [OF nspec_emitNomination [OF assms]])
  have "nspec ctx u (bindE (if getLocalNodeID ctx \<in> set (mRoundLeaders u)
               then Inr (v, v \<notin> set (mVotes u), u\<lparr>mVotes := insort_insert v (mVotes u)\<rparr>)
               else voteForLeaders ctx (mRoundLeaders u) [] False u) (\<lambda>(nominating, updated, s).
          announceNomination process ctx nominating updated s))" for u
    by (rule nspec_pure)
      (auto split: if_splits intro: nspec_from [OF nrel_votes rest] nspec_from [OF nrel_voteForLeaders rest])
  moreover have "nrel ctx s u" if "updateRoundLeaders ctx ?s = Inr u" for u
    using that start by (auto simp: updateRoundLeaders_def result_simps)
  ultimately have "nspec ctx s (bindE (updateRoundLeaders ctx ?s) (\<lambda>u.
      bindE (if getLocalNodeID ctx \<in> set (mRoundLeaders u)
               then Inr (v, v \<notin> set (mVotes u), u\<lparr>mVotes := insort_insert v (mVotes u)\<rparr>)
               else voteForLeaders ctx (mRoundLeaders u) [] False u) (\<lambda>(nominating, updated, s).
          announceNomination process ctx nominating updated s)))"
    by (auto intro: nspec_pure [of "updateRoundLeaders ctx ?s"] nspec_from)
  then show ?thesis using False by (simp only: nominate_def Let_def if_False)
qed (simp add: nominate_def)

section \<open>Leaders and their values\<close>

text \<open>\<open>forAllNodes\<close> visits every node of the quorum set exactly once.\<close>

lemma fold_visited:
  "\<exists>ys. distinct ys \<and> set ys = set xs - set visited \<and>
    snd (fold (\<lambda>n (visited, s). if n \<in> set visited then (visited, s)
        else (insort_insert n visited, proc n s)) xs (visited, s)) = fold proc ys s"
proof (induction xs arbitrary: visited s)
  case (Cons x xs)
  show ?case
  proof (cases "x \<in> set visited")
    case True
    then show ?thesis using Cons [of visited s] by (auto simp: insert_Diff_if)
  next
    case False
    obtain ys where "distinct ys" "set ys = set xs - set (insort_insert x visited)"
      "snd (fold (\<lambda>n (visited, s). if n \<in> set visited then (visited, s)
        else (insort_insert n visited, proc n s)) xs (insort_insert x visited, proc x s)) =
        fold proc ys (proc x s)"
      using Cons by blast
    then show ?thesis using False
      by (intro exI [of _ "x # ys"]) (auto simp: set_insort_insert)
  qed
qed simp

lemma forAllNodesInternal_fold: "forAllNodesInternal q proc s = fold proc (qset_nodes q) s"
proof (induction q proc s rule: forAllNodesInternal.induct)
  case (1 t vs qs proc s)
  have "(\<And>q x. q \<in> set rs \<Longrightarrow> forAllNodesInternal q proc x = fold proc (qset_nodes q) x) \<Longrightarrow>
      fold (\<lambda>q. forAllNodesInternal q proc) rs x = fold proc (concat (map qset_nodes rs)) x" for rs x
    by (induction rs arbitrary: x) auto
  with 1 show ?case by simp
qed

lemma forAllNodes_fold:
  "\<exists>ys. distinct ys \<and> set ys = set (qset_nodes q) \<and> forAllNodes q proc s = fold proc ys s"
  using fold_visited [of "qset_nodes q" "[]" proc s]
  by (simp add: forAllNodes_def forAllNodesInternal_fold)

lemma leaders_fold:
  assumes "\<And>n. n \<in> set ys \<Longrightarrow> getNodePriority ctx n (getQuorumSet ctx) s = Inr (pr n)"
    and "std_set ls" and "set ls = {n \<in> set seen. pr n = tp \<and> 0 < pr n}" and "\<And>n. n \<in> set seen \<Longrightarrow> pr n \<le> tp"
    and "seen \<noteq> [] \<Longrightarrow> 0 < tp \<Longrightarrow> tp \<in> pr ` set seen" and "seen = [] \<Longrightarrow> tp = 0"
  shows "\<exists>tp' ls'. fold (leaderStep ctx s) ys (Inr (tp, ls)) = Inr (tp', ls') \<and> std_set ls' \<and>
    set ls' = {n \<in> set seen \<union> set ys. pr n = tp' \<and> 0 < pr n} \<and>
    (\<forall>n \<in> set seen \<union> set ys. pr n \<le> tp') \<and> (0 < tp' \<longrightarrow> tp' \<in> pr ` (set seen \<union> set ys))"
  using assms
proof (induction ys arbitrary: tp ls seen)
  case Nil
  then show ?case by (cases "seen = []") auto
next
  case (Cons y ys)
  let ?tp = "if pr y > tp then pr y else tp" and ?ls = "if pr y > tp then [] else ls"
  let ?ls' = "if pr y = ?tp \<and> pr y > 0 then insort_insert y ?ls else ?ls"
  have step: "leaderStep ctx s y (Inr (tp, ls)) = Inr (?tp, ?ls')"
    using Cons.prems(1) by (simp add: leaderStep_def)
  have "\<exists>tp' ls'. fold (leaderStep ctx s) ys (Inr (?tp, ?ls')) = Inr (tp', ls') \<and> std_set ls' \<and>
    set ls' = {n \<in> set (y # seen) \<union> set ys. pr n = tp' \<and> 0 < pr n} \<and>
    (\<forall>n \<in> set (y # seen) \<union> set ys. pr n \<le> tp') \<and> (0 < tp' \<longrightarrow> tp' \<in> pr ` (set (y # seen) \<union> set ys))"
  proof (rule Cons.IH)
    have ne: "tp < pr y \<Longrightarrow> n \<in> set seen \<Longrightarrow> pr n \<noteq> pr y" for n
      using Cons.prems(4) [of n] by auto
    show "std_set ?ls'" using Cons.prems(2) by (auto simp: std_set_insert)
    show "set ?ls' = {n \<in> set (y # seen). pr n = ?tp \<and> 0 < pr n}"
      using Cons.prems(3) ne by (auto simp: set_insort_insert)
    show "pr n \<le> ?tp" if "n \<in> set (y # seen)" for n using Cons.prems(4) [of n] that by auto
    show "?tp \<in> pr ` set (y # seen)" if "0 < ?tp"
      using Cons.prems(5,6) that by (cases "seen = []") auto
  qed (use Cons.prems in auto)
  then show ?case by (simp add: step)
qed

text \<open>The value taken from a nomination: the fold over its values keeps an eligible one of
  highest hash.\<close>

definition eligible :: "'a SCPContext_scheme \<Rightarrow> Slot \<Rightarrow> Value \<Rightarrow> bool" where
  "eligible ctx s v \<longleftrightarrow> v \<noteq> [] \<and> v \<notin> set (mVotes s)"

abbreviation value_hash :: "'a SCPContext_scheme \<Rightarrow> Slot \<Rightarrow> Value \<Rightarrow> uint64" where
  "value_hash ctx s v \<equiv>
     drv_computeValueHash (mDriver ctx) (mSlotIndex s) (mPreviousValue s) (mRoundNumber s) v"

lemma newValueLoop_best:
  assumes "mPreviousValue s \<noteq> []" and "newVote \<noteq> [] \<Longrightarrow> newHash = value_hash ctx s newVote"
    and "newVote = [] \<Longrightarrow> newHash = 0"
  shows "\<exists>r. newValueLoop ctx s vs newVote newHash = Inr r \<and>
    (r = newVote \<or> eligible ctx s r \<and> r \<in> (\<lambda>v. valueToNominate ctx v s) ` set vs) \<and>
    (newVote \<noteq> [] \<longrightarrow> r \<noteq> [] \<and> newHash \<le> value_hash ctx s r) \<and>
    (\<forall>v \<in> (\<lambda>v. valueToNominate ctx v s) ` set vs. eligible ctx s v \<longrightarrow>
       r \<noteq> [] \<and> value_hash ctx s v \<le> value_hash ctx s r)"
  using assms(2,3)
proof (induction vs arbitrary: newVote newHash)
  case (Cons v vs)
  let ?v = "valueToNominate ctx v s"
  show ?case
  proof (cases "eligible ctx s ?v \<and> newHash \<le> value_hash ctx s ?v")
    case True
    then have eq: "newValueLoop ctx s (v # vs) newVote newHash =
        newValueLoop ctx s vs ?v (value_hash ctx s ?v)"
      using assms(1) by (simp add: eligible_def hashValue_def Let_def)
    obtain r where "newValueLoop ctx s vs ?v (value_hash ctx s ?v) = Inr r"
      "r = ?v \<or> eligible ctx s r \<and> r \<in> (\<lambda>v. valueToNominate ctx v s) ` set vs"
      "r \<noteq> [] \<and> value_hash ctx s ?v \<le> value_hash ctx s r"
      "\<forall>v \<in> (\<lambda>v. valueToNominate ctx v s) ` set vs. eligible ctx s v \<longrightarrow>
         r \<noteq> [] \<and> value_hash ctx s v \<le> value_hash ctx s r"
      using Cons.IH [of ?v "value_hash ctx s ?v"] True by (auto simp: eligible_def)
    then show ?thesis using True unfolding eq by (intro exI [of _ r]) auto
  next
    case False
    then have eq: "newValueLoop ctx s (v # vs) newVote newHash = newValueLoop ctx s vs newVote newHash"
      using assms(1) by (auto simp: eligible_def hashValue_def Let_def)
    have "eligible ctx s ?v \<Longrightarrow> newVote \<noteq> [] \<and> value_hash ctx s ?v \<le> newHash"
      using False Cons.prems by fastforce
    then show ?thesis
      using Cons.IH [OF Cons.prems] unfolding eq by fastforce
  qed
qed auto

end
