(* ===== verification/Scp_Slot.thy ===== *)
theory Scp_Slot
  imports Nomination_Safety
begin

text \<open>
  \<open>src/scp/Slot.cpp\<close> and \<open>src/scp/SCP.cpp\<close>: a slot dispatches to its two protocols, and
  the protocol object keeps a slot per index. Then the guarantees of a slot over any
  sequence of calls, whatever the driver answers at each of them.

  A call takes fuel \<open>n\<close> for the recursion of \<open>advanceSlot\<close> and of the processing of
  nominations; the guarantees hold for every \<open>n\<close>.
\<close>

section \<open>Slots\<close>

definition slotProcessEnvelope ::
  "nat \<Rightarrow> 'a SCPContext_scheme \<Rightarrow> SCPEnvelope \<Rightarrow> bool \<Rightarrow> Slot \<Rightarrow> (EnvelopeState \<times> Slot) result" where
  "slotProcessEnvelope n ctx envelope self s =
     dbgAssert (slotIndex (statement envelope) = mSlotIndex s)
       (if is_Nominate (pledges (statement envelope))
        then processNomination n (advanceSlot n ctx) ctx envelope s
        else processEnvelope (advanceSlot n ctx) ctx envelope self s)"

definition slotSetStateFromEnvelope :: "'a SCPContext_scheme \<Rightarrow> SCPEnvelope \<Rightarrow> Slot \<Rightarrow> Slot result" where
  "slotSetStateFromEnvelope ctx e s =
     (if nodeID (statement e) = getLocalNodeID ctx \<and> slotIndex (statement e) = mSlotIndex s then
        (if is_Nominate (pledges (statement e)) then setNominationFromEnvelope e s
         else setStateFromEnvelope e s)
      else Inr s)"

definition slotAbandonBallot :: "nat \<Rightarrow> 'a SCPContext_scheme \<Rightarrow> Slot \<Rightarrow> (bool \<times> Slot) result" where
  "slotAbandonBallot n ctx s = abandonBallot (advanceSlot n ctx) ctx 0 s"

definition slotBumpState ::
  "nat \<Rightarrow> 'a SCPContext_scheme \<Rightarrow> Value \<Rightarrow> bool \<Rightarrow> Slot \<Rightarrow> (bool \<times> Slot) result" where
  "slotBumpState n ctx v force s = bumpState (advanceSlot n ctx) ctx v force s"

definition slotNominate ::
  "nat \<Rightarrow> 'a SCPContext_scheme \<Rightarrow> Value \<Rightarrow> Value \<Rightarrow> bool \<Rightarrow> Slot \<Rightarrow> (bool \<times> Slot) result" where
  "slotNominate n ctx v previousValue timedout s =
     nominate (processNomination n (advanceSlot n ctx) ctx) ctx v previousValue timedout s"

definition slotTimerExpired :: "nat \<Rightarrow> 'a SCPContext_scheme \<Rightarrow> Slot \<Rightarrow> (unit \<times> Slot) result" where
  "slotTimerExpired n ctx s = ballotProtocolTimerExpired (advanceSlot n ctx) ctx s"

definition slotGetLatestMessagesSend :: "Slot \<Rightarrow> SCPEnvelope list" where
  "slotGetLatestMessagesSend s =
     (if mFullyValidated s then
        (case mLastNomination s of Some e \<Rightarrow> [e] | None \<Rightarrow> []) @
        (case mLastEnvelopeEmit s of Some (_, e) \<Rightarrow> [e] | None \<Rightarrow> [])
      else [])"

definition slotGetCurrentState :: "'a SCPContext_scheme \<Rightarrow> Slot \<Rightarrow> SCPEnvelope list" where
  "slotGetCurrentState ctx s = getNominationState ctx s @ getCurrentState ctx s"

definition slotGetEntireCurrentState :: "'a SCPContext_scheme \<Rightarrow> Slot \<Rightarrow> SCPEnvelope list" where
  "slotGetEntireCurrentState ctx s = slotGetCurrentState ctx (s\<lparr>mFullyValidated := True\<rparr>)"

definition slotGetStatementValues :: "SCPStatement \<Rightarrow> Value list" where
  "slotGetStatementValues st =
     (case pledges st of Nominate nom \<Rightarrow> applyAllValues nom | pl \<Rightarrow> [value (getWorkingBallot pl)])"

section \<open>The protocol object\<close>

record SCP = SCPContext +
  mKnownSlots :: "(uint64 \<times> Slot) list"

text \<open>\<open>getSlot\<close>: the slot, and the object with the slot that was created.\<close>

definition getSlot :: "uint64 \<Rightarrow> bool \<Rightarrow> SCP \<Rightarrow> Slot option \<times> SCP" where
  "getSlot i create scp =
     (case map_of (mKnownSlots scp) i of
        None \<Rightarrow>
          (if create then
             (let s = newSlot i scp in
              (Some s, scp\<lparr>mKnownSlots := map_put i s (mKnownSlots scp)\<rparr>))
           else (None, scp))
      | Some s \<Rightarrow> (Some s, scp))"

definition storeSlot :: "uint64 \<Rightarrow> Slot \<Rightarrow> SCP \<Rightarrow> SCP" where
  "storeSlot i s scp = scp\<lparr>mKnownSlots := map_put i s (mKnownSlots scp)\<rparr>"

text \<open>A call on the slot of an index, which is created if needed.\<close>

definition withSlot :: "uint64 \<Rightarrow> (Slot \<Rightarrow> ('x \<times> Slot) result) \<Rightarrow> SCP \<Rightarrow> ('x \<times> SCP) result" where
  "withSlot i f scp =
     (let (s, scp) = getSlot i True scp in
      deref s (\<lambda>s. bindE (f s) (\<lambda>(x, s). Inr (x, storeSlot i s scp))))"

definition receiveEnvelope :: "nat \<Rightarrow> SCPEnvelope \<Rightarrow> SCP \<Rightarrow> (EnvelopeState \<times> SCP) result" where
  "receiveEnvelope n envelope scp =
     (if \<not> drv_verifyEnvelope (mDriver scp) envelope then Inr (INVALID, scp)
      else withSlot (slotIndex (statement envelope)) (slotProcessEnvelope n scp envelope False) scp)"

definition scpNominate :: "nat \<Rightarrow> uint64 \<Rightarrow> Value \<Rightarrow> Value \<Rightarrow> SCP \<Rightarrow> (bool \<times> SCP) result" where
  "scpNominate n i v previousValue scp =
     dbgAssert (mIsValidator (mLocalNode scp))
       (withSlot i (slotNominate n scp v previousValue False) scp)"

definition scpStopNomination :: "uint64 \<Rightarrow> SCP \<Rightarrow> SCP" where
  "scpStopNomination i scp =
     (case getSlot i False scp of
        (Some s, scp) \<Rightarrow> storeSlot i (stopNomination s) scp
      | (None, scp) \<Rightarrow> scp)"

definition updateLocalQuorumSet :: "(SCPQuorumSet \<Rightarrow> Hash) \<Rightarrow> SCPQuorumSet \<Rightarrow> SCP \<Rightarrow> SCP" where
  "updateLocalQuorumSet qsetHash qSet scp =
     scp\<lparr>mLocalNode := updateQuorumSet qsetHash qSet (mLocalNode scp)\<rparr>"

definition purgeSlots :: "uint64 \<Rightarrow> SCP \<Rightarrow> SCP" where
  "purgeSlots maxSlotIndex scp =
     scp\<lparr>mKnownSlots := filter (\<lambda>(i, _). \<not> i < maxSlotIndex) (mKnownSlots scp)\<rparr>"

definition getKnownSlotsCount :: "SCP \<Rightarrow> nat" where
  "getKnownSlotsCount scp = length (mKnownSlots scp)"

definition getCumulativeStatemtCount :: "SCP \<Rightarrow> nat" where
  "getCumulativeStatemtCount scp =
     sum_list (map (\<lambda>(_, s). length (mStatementsHistory s)) (mKnownSlots scp))"

definition getLatestMessagesSend :: "uint64 \<Rightarrow> SCP \<Rightarrow> SCPEnvelope list" where
  "getLatestMessagesSend i scp =
     (case fst (getSlot i False scp) of Some s \<Rightarrow> slotGetLatestMessagesSend s | None \<Rightarrow> [])"

definition scpSetStateFromEnvelope :: "uint64 \<Rightarrow> SCPEnvelope \<Rightarrow> SCP \<Rightarrow> SCP result" where
  "scpSetStateFromEnvelope i e scp =
     (if drv_verifyEnvelope (mDriver scp) e then
        (let (s, scp) = getSlot i True scp in
         deref s (\<lambda>s. bindE (slotSetStateFromEnvelope scp e s) (\<lambda>s. Inr (storeSlot i s scp))))
      else Inr scp)"

definition scpEmpty :: "SCP \<Rightarrow> bool" where
  "scpEmpty scp \<longleftrightarrow> mKnownSlots scp = []"

definition getLowSlotIndex :: "SCP \<Rightarrow> uint64 result" where
  "getLowSlotIndex scp = dbgAssert (\<not> scpEmpty scp) (Inr (fst (hd (mKnownSlots scp))))"

definition getHighSlotIndex :: "SCP \<Rightarrow> uint64 result" where
  "getHighSlotIndex scp = dbgAssert (\<not> scpEmpty scp) (Inr (fst (last (mKnownSlots scp))))"

definition scpGetCurrentState :: "uint64 \<Rightarrow> SCP \<Rightarrow> SCPEnvelope list" where
  "scpGetCurrentState i scp =
     (case fst (getSlot i False scp) of Some s \<Rightarrow> slotGetCurrentState scp s | None \<Rightarrow> [])"

definition scpGetExternalizingState :: "uint64 \<Rightarrow> SCP \<Rightarrow> SCPEnvelope list result" where
  "scpGetExternalizingState i scp =
     (case fst (getSlot i False scp) of Some s \<Rightarrow> getExternalizingState scp s | None \<Rightarrow> Inr [])"

section \<open>Sequences of calls\<close>

text \<open>The calls into a slot, each with the driver and local node of that moment and some fuel.
  Envelopes from outside are verified by the driver first, as \<open>SCP::receiveEnvelope\<close> does.
  Restoring a slot from its own envelope happens before the others and is kept apart.\<close>

inductive slot_call :: "SCPContext \<Rightarrow> Slot \<Rightarrow> Slot \<Rightarrow> bool" for ctx where
  envelope: "drv_verifyEnvelope (mDriver ctx) env \<Longrightarrow>
    slotProcessEnvelope n ctx env False s = Inr (r, t) \<Longrightarrow> slot_call ctx s t"
| nomination: "slotNominate n ctx v prev timedout s = Inr (w, t) \<Longrightarrow> slot_call ctx s t"
| bump: "slotBumpState n ctx v force s = Inr (w, t) \<Longrightarrow> slot_call ctx s t"
| abandon: "slotAbandonBallot n ctx s = Inr (w, t) \<Longrightarrow> slot_call ctx s t"
| timer: "slotTimerExpired n ctx s = Inr (x, t) \<Longrightarrow> slot_call ctx s t"
| stop: "slot_call ctx s (stopNomination s)"

definition slot_calls :: "Slot \<Rightarrow> Slot \<Rightarrow> bool" where
  "slot_calls = (\<lambda>s t. \<exists>ctx. slot_call ctx s t)\<^sup>*\<^sup>*"

lemma slot_call_nrel:
  assumes "slot_call ctx s t"
  shows "nrel ctx s t"
  using assms
proof cases
  case (envelope env n r)
  then show ?thesis
    using nspec_processNomination [of ctx s n n env]
    by (auto simp: slotProcessEnvelope_def admitted_def result_simps split: if_splits
        intro!: nrel_runs processEnvelope_runs)
next
  case (nomination n v prev timedout w)
  then show ?thesis
    using nspec_nominate [of ctx "processNomination n (advanceSlot n ctx) ctx" s v prev timedout,
        OF nspec_processNomination]
    by (simp add: slotNominate_def)
next
  case stop
  then show ?thesis by (intro nrel_same) (auto simp: ballot_same_def nom_same_def stopNomination_def)
qed (auto simp: slotBumpState_def slotAbandonBallot_def slotTimerExpired_def
    intro: nrel_runs bumpState_runs abandonBallot_runs timerExpired_runs)

lemma slot_call_sruns: "slot_call ctx s t \<Longrightarrow> sruns ctx s t"
  using slot_call_nrel by (auto simp: nrel_def)

lemma slot_calls_relation:
  assumes "slot_calls s t" and "I s"
    and "\<And>ctx s t. I s \<Longrightarrow> slot_call ctx s t \<Longrightarrow> I t \<and> R s t"
    and "\<And>s. R s s" and "\<And>s t u. R s t \<Longrightarrow> R t u \<Longrightarrow> R s u"
  shows "I t \<and> R s t"
  using assms(1) unfolding slot_calls_def
  by (induction rule: rtranclp_induct) (use assms(2-) in blast)+

lemma ballot_inv_newSlot: "ballot_inv (newSlot i ctx)"
  by (simp add: ballot_inv_def newSlot_def invariants_hold_def envelopes_wf_def sent_wf_def sent_def
      announced_wf_def announced_def)

lemma nom_inv_newSlot: "nom_inv (newSlot i ctx)"
  by (simp add: nom_inv_def newSlot_def nominations_wf_def)

lemma slot_calls_inv:
  assumes "slot_calls s t" and "ballot_inv s"
  shows "ballot_inv t \<and> progress s t \<and> records_newer s t"
  by (rule slot_calls_relation [where I = ballot_inv and R = "\<lambda>s t. progress s t \<and> records_newer s t",
        OF assms])
    (auto dest!: slot_call_sruns dest: sruns_ballot_inv sruns_progress sruns_records
      simp: ballot_inv_def intro: progress_trans records_newer_trans)

end
