(* ===== verification/Slot_Example.thy ===== *)
theory Slot_Example
  imports Scp_Slot
begin

text \<open>
  A slot of a system of three nodes, any two of which are a quorum: the states of node 1 while
  it externalizes a value with node 2, computed by the definitions of the protocol. The
  guarantees of slots are shown at work on it.
\<close>

definition ex_qset :: SCPQuorumSet where
  "ex_qset = SCPQuorumSet 2 [[1], [2], [3]] []"

definition ex_ctx :: SCPContext where
  "ex_ctx =
     \<lparr>mDriver = \<lparr>drv_validateValue = \<lambda>_ _. kFullyValidatedValue, drv_extractValidValue = \<lambda>_ v. v,
         drv_getQSet = \<lambda>_. Some ex_qset, drv_signEnvelope = \<lambda>_. [], drv_verifyEnvelope = \<lambda>_. True,
         drv_computeHashNode = \<lambda>_ _ _ _ n. if n = [1] then 2 else 1,
         drv_computeValueHash = \<lambda>_ _ _ v. of_nat (length v),
         drv_combineCandidates = \<lambda>_ vs. hd (vs @ [[]])\<rparr>,
      mLocalNode = \<lparr>mNodeID = [1], mIsValidator = True, mQSet = ex_qset, mQSetHash = [0]\<rparr>\<rparr>"

definition ex_env :: "SCPPledges \<Rightarrow> SCPEnvelope" where
  "ex_env pl = \<lparr>statement = \<lparr>nodeID = [2], slotIndex = 7, pledges = pl\<rparr>, signature = []\<rparr>"

definition ex_ballot :: SCPBallot where
  "ex_ballot = SCPBallot 1 [9]"

text \<open>Node 1 starts balloting; node 2 votes to prepare, has prepared, votes to commit, and has
  accepted the commit.\<close>

definition ex_pledges :: "SCPPledges list" where
  "ex_pledges =
     [Prepare [0] ex_ballot None None 0 0, Prepare [0] ex_ballot (Some ex_ballot) None 0 0,
      Prepare [0] ex_ballot (Some ex_ballot) None 1 1, Confirm ex_ballot 1 1 1 [0]]"

definition ex_start :: "(bool \<times> Slot) result" where
  "ex_start = slotBumpState 60 ex_ctx [9] True (newSlot 7 ex_ctx)"

definition ex_receive :: "SCPPledges \<Rightarrow> Slot \<Rightarrow> (EnvelopeState \<times> Slot) result" where
  "ex_receive pl s = slotProcessEnvelope 60 ex_ctx (ex_env pl) False s"

definition ex_next :: "SCPPledges \<Rightarrow> Slot \<Rightarrow> Slot" where
  "ex_next pl s = (case ex_receive pl s of Inr (_, t) \<Rightarrow> t | Inl _ \<Rightarrow> s)"

fun ex_state :: "nat \<Rightarrow> Slot" where
  "ex_state 0 = (case ex_start of Inr (_, s) \<Rightarrow> s | Inl _ \<Rightarrow> newSlot 7 ex_ctx)"
| "ex_state (Suc k) = ex_next (ex_pledges ! k) (ex_state k)"

declare ex_state.simps [simp del]

lemma slot_calls_refl: "slot_calls s s"
  by (simp add: slot_calls_def)

lemma slot_calls_trans: "slot_calls s t \<Longrightarrow> slot_calls t u \<Longrightarrow> slot_calls s u"
  by (simp add: slot_calls_def)

lemma slot_call_calls: "slot_call ctx s t \<Longrightarrow> slot_calls s t"
  unfolding slot_calls_def by (rule r_into_rtranclp) auto

lemma ex_state_step: "slot_calls (ex_state k) (ex_state (Suc k))"
proof -
  have "slot_calls s t" if "ex_receive pl s = Inr (r, t)" for pl s r t
    using that unfolding ex_receive_def by (intro slot_call_calls slot_call.envelope) (auto simp: ex_ctx_def)
  then show ?thesis by (auto simp: ex_state.simps ex_next_def split: sum.split intro: slot_calls_refl)
qed

lemma ex_state_reached: "slot_calls (newSlot 7 ex_ctx) (ex_state k)"
proof (induction k)
  case 0
  show ?case
    by (auto simp: ex_state.simps ex_start_def split: sum.split
        intro: slot_calls_refl slot_call_calls slot_call.bump)
next
  case (Suc k)
  then show ?case by (rule slot_calls_trans [OF _ ex_state_step])
qed

lemma ex_state_phases:
  "mPhase (ex_state 3) = SCP_PHASE_CONFIRM" "mPhase (ex_state 4) = SCP_PHASE_EXTERNALIZE"
  by code_simp+

end
