(* ===== verification/Call_Records.thy ===== *)
theory Call_Records
  imports Scp_Slot
begin

text \<open>
  Which statements a slot records during a call: the one it was called with, if any, and after that only its
  own. The changes of \<open>Ballot_Steps\<close> record a statement of another node only if the driver has verified it;
  the slot itself never asks the driver to, so a call is the same with a driver that verifies nothing
  (\<open>offline\<close>), and the run of changes that makes up the rest of the call records own statements only.
\<close>

section \<open>A driver that verifies nothing\<close>

named_theorems offline_simps \<open>the slot does not depend on what the driver verifies\<close>

definition offline :: "'a SCPContext_scheme \<Rightarrow> 'a SCPContext_scheme" where
  "offline ctx = ctx\<lparr>mDriver := (mDriver ctx)\<lparr>drv_verifyEnvelope := \<lambda>_. False\<rparr>\<rparr>"

lemma offline_sel [simp]:
  "mLocalNode (offline ctx) = mLocalNode ctx"
  "drv_validateValue (mDriver (offline ctx)) = drv_validateValue (mDriver ctx)"
  "drv_extractValidValue (mDriver (offline ctx)) = drv_extractValidValue (mDriver ctx)"
  "drv_getQSet (mDriver (offline ctx)) = drv_getQSet (mDriver ctx)"
  "drv_signEnvelope (mDriver (offline ctx)) = drv_signEnvelope (mDriver ctx)"
  "drv_computeHashNode (mDriver (offline ctx)) = drv_computeHashNode (mDriver ctx)"
  "drv_computeValueHash (mDriver (offline ctx)) = drv_computeValueHash (mDriver ctx)"
  "drv_combineCandidates (mDriver (offline ctx)) = drv_combineCandidates (mDriver ctx)"
  "\<not> drv_verifyEnvelope (mDriver (offline ctx)) env"
  by (simp_all add: offline_def)

lemma offline_state [offline_simps]:
  "getLocalNodeID (offline ctx) = getLocalNodeID ctx"
  "getQuorumSet (offline ctx) = getQuorumSet ctx"
  "getQuorumSetHash (offline ctx) = getQuorumSetHash ctx"
  "createEnvelope (offline ctx) = createEnvelope ctx"
  "getQuorumSetFromStatement (offline ctx) = getQuorumSetFromStatement ctx"
  "small_qsets (offline ctx) = small_qsets ctx"
  by (simp_all only: getLocalNodeID_def getQuorumSet_def getQuorumSetHash_def createEnvelope_def [abs_def]
      getQuorumSetFromStatement_def [abs_def] small_qsets_def offline_sel)

lemma offline_voting [offline_simps]:
  "federatedAccept (offline ctx) = federatedAccept ctx"
  "federatedRatify (offline ctx) = federatedRatify ctx"
  by (simp_all only: federatedAccept_def [abs_def] federatedRatify_def [abs_def] offline_simps)

lemma offline_statements [offline_simps]:
  "isStatementSane (offline ctx) = isStatementSane ctx"
  "validateValues (offline ctx) = validateValues ctx"
  "createStatement (offline ctx) = createStatement ctx"
  by (simp_all only: isStatementSane_def [abs_def] validateValues_def [abs_def] createStatement_def [abs_def] offline_simps offline_sel)

lemma offline_emit [offline_simps]:
  "processEnvelope adv (offline ctx) = processEnvelope adv ctx"
  "emitCurrentStateStatement adv (offline ctx) = emitCurrentStateStatement adv ctx"
  by (simp_all only: processEnvelope_def [abs_def] emitCurrentStateStatement_def [abs_def] offline_simps)

lemma offline_bump [offline_simps]:
  "bumpStateTo adv (offline ctx) = bumpStateTo adv ctx"
  "bumpState adv (offline ctx) = bumpState adv ctx"
  "abandonBallot adv (offline ctx) = abandonBallot adv ctx"
  "ballotProtocolTimerExpired adv (offline ctx) = ballotProtocolTimerExpired adv ctx"
  "didWorkThenEmit adv (offline ctx) = didWorkThenEmit adv ctx"
  by (simp_all only: bumpStateTo_def [abs_def] bumpState_def [abs_def] abandonBallot_def [abs_def]
      ballotProtocolTimerExpired_def [abs_def] didWorkThenEmit_def [abs_def] offline_simps)

lemma offline_loops [offline_simps]:
  "preparedAcceptLoop adv (offline ctx) bs s = preparedAcceptLoop adv ctx bs s"
  "findNewH (offline ctx) s bs = findNewH ctx s bs"
  "findNewC (offline ctx) s b bs c = findNewC ctx s b bs c"
  "bumpCounterLoop adv (offline ctx) n ns s = bumpCounterLoop adv ctx n ns s"
proof -
  show "preparedAcceptLoop adv (offline ctx) bs s = preparedAcceptLoop adv ctx bs s"
    by (induction bs) (simp_all only: preparedAcceptLoop.simps setPreparedAccept_def offline_simps)
  show "findNewH (offline ctx) s bs = findNewH ctx s bs"
    by (induction bs) (simp_all add: offline_simps)
  show "findNewC (offline ctx) s b bs c = findNewC ctx s b bs c"
    by (induction bs arbitrary: c) (simp_all add: offline_simps)
  show "bumpCounterLoop adv (offline ctx) n ns s = bumpCounterLoop adv ctx n ns s"
    by (induction ns) (simp_all only: bumpCounterLoop.simps offline_simps)
qed

lemma offline_attempts [offline_simps]:
  "attemptPreparedAccept adv (offline ctx) = attemptPreparedAccept adv ctx"
  "attemptPreparedConfirmed adv (offline ctx) = attemptPreparedConfirmed adv ctx"
  "attemptAcceptCommit adv (offline ctx) = attemptAcceptCommit adv ctx"
  "attemptConfirmCommit adv (offline ctx) = attemptConfirmCommit adv ctx"
  "attemptBump adv (offline ctx) = attemptBump adv ctx"
  "hearFromQuorum (offline ctx) = hearFromQuorum ctx"
  by (simp_all only: attemptPreparedAccept_def [abs_def] attemptPreparedConfirmed_def [abs_def] setPreparedConfirmed_def
      attemptAcceptCommit_def [abs_def] setAcceptCommit_def attemptConfirmCommit_def [abs_def] setConfirmCommit_def
      attemptBump_def [abs_def] hearFromQuorum_def [abs_def] offline_simps)

lemma offline_bumpLoop [offline_simps]: "bumpLoop n adv (offline ctx) w s = bumpLoop n adv ctx w s"
  by (induction n arbitrary: w s) (simp_all only: bumpLoop.simps offline_simps)

lemma offline_advanceSlot [offline_simps]: "advanceSlot n (offline ctx) = advanceSlot n ctx"
  by (induction n) (intro ext; simp only: advanceSlot.simps attemptSteps_def offline_simps)+

lemma offline_nomination [offline_simps]:
  "newValueLoop (offline ctx) s vs v h = newValueLoop ctx s vs v h"
  "promoteVotes (offline ctx) vs w s = promoteVotes ctx vs w s"
  "promoteAccepted (offline ctx) vs w s = promoteAccepted ctx vs w s"
proof -
  show "newValueLoop (offline ctx) s vs v h = newValueLoop ctx s vs v h"
    by (induction vs arbitrary: v h) (simp_all only: newValueLoop.simps valueToNominate_def hashValue_def offline_sel)
  show "promoteVotes (offline ctx) vs w s = promoteVotes ctx vs w s"
    by (induction vs arbitrary: w s) (simp_all add: offline_simps Let_def)
  show "promoteAccepted (offline ctx) vs w s = promoteAccepted ctx vs w s"
    by (induction vs arbitrary: w s) (simp_all add: offline_simps)
qed

lemma offline_steps [offline_simps]:
  "getNewValueFromNomination (offline ctx) = getNewValueFromNomination ctx"
  "emitNomination process (offline ctx) = emitNomination process ctx"
  "combineAndBump adv (offline ctx) = combineAndBump adv ctx"
  "updateRoundLeaders (offline ctx) = updateRoundLeaders ctx"
  by (simp_all only: getNewValueFromNomination_def [abs_def] emitNomination_def [abs_def] combineAndBump_def [abs_def]
      updateRoundLeaders_def [abs_def] leaderStep_def [abs_def] getNodePriority_def hashNode_def offline_simps offline_sel)

lemma offline_processNomination [offline_simps]:
  "processNomination m adv (offline ctx) = processNomination m adv ctx"
  by (induction m) (intro ext; simp only: processNomination.simps nominationStep_def voteFromLeader_def offline_simps)+

lemma offline_voteForLeaders [offline_simps]:
  "voteForLeaders (offline ctx) ls v w s = voteForLeaders ctx ls v w s"
  by (induction ls arbitrary: v w s) (simp_all only: voteForLeaders.simps offline_simps)

lemma offline_nominate [offline_simps]: "nominate process (offline ctx) = nominate process ctx"
  by (simp only: nominate_def [abs_def] announceNomination_def [abs_def] offline_simps)

section \<open>The run of a call\<close>

lemma processEnvelope_advances:
  assumes p: "processEnvelope adv ctx env self s = Inr (r, t)" and ph: "mPhase s \<noteq> SCP_PHASE_EXTERNALIZE" and "t \<noteq> s"
  shows "recordable ctx env self s \<and> (\<exists>x. adv (statement env) (recorded ctx env s) = Inr (x, t))"
proof -
  let ?st = "statement env"
  obtain sane where sane: "isStatementSane ctx ?st self = Inr sane" and idx: "slotIndex ?st = mSlotIndex s"
    using p by (auto simp: processEnvelope_def Let_def result_simps)
  have ok: "sane" "isNewerStatementFrom (nodeID ?st) ?st s" "validateValues ctx ?st s \<noteq> kInvalidValue"
    using p sane idx \<open>t \<noteq> s\<close> by (auto simp: processEnvelope_def Let_def dbgAssert_def split: if_splits)
  then have "bindE (adv ?st (recorded ctx env s)) (\<lambda>(_, s). Inr (VALID, s)) = Inr (r, t)"
    using p sane idx ph by (simp add: processEnvelope_def Let_def recorded_def dbgAssert_def)
  then show ?thesis using ok sane idx ph by (auto simp: recordable_def result_simps)
qed

text \<open>A call is a run in which only own statements are recorded, from the slot it finds or, if it was called
  with a statement of a ballot, from the slot with that statement recorded.\<close>

lemma slot_call_offline:
  assumes "slot_call ctx s t" and "mPhase s \<noteq> SCP_PHASE_EXTERNALIZE"
  obtains "sruns (offline ctx) s t" | env where "recordable ctx env False s" and "sruns (offline ctx) (recorded ctx env s) t"
  using assms(1)
proof cases
  case (envelope env n r)
  show ?thesis
  proof (cases "is_Nominate (pledges (statement env))")
    case True
    then have "processNomination n (advanceSlot n (offline ctx)) (offline ctx) env s = Inr (r, t)"
      using envelope(2) by (simp add: slotProcessEnvelope_def result_simps offline_simps)
    then show ?thesis using nspec_processNomination [of "offline ctx" s n n env] by (intro that(1)) (simp add: nrel_def)
  next
    case False
    then have p: "processEnvelope (advanceSlot n ctx) ctx env False s = Inr (r, t)"
      using envelope(2) by (simp add: slotProcessEnvelope_def result_simps)
    show ?thesis
    proof (cases "t = s")
      case False
      then have rec: "recordable ctx env False s"
        and ad: "\<exists>x. advanceSlot n ctx (statement env) (recorded ctx env s) = Inr (x, t)"
        using processEnvelope_advances [OF p assms(2)] by simp_all
      then obtain x where "advanceSlot n (offline ctx) (statement env) (recorded ctx env s) = Inr (x, t)"
        by (auto simp: offline_simps)
      then have "runs (offline ctx) (recorded ctx env s) t" by (rule spec_runs [OF advanceSlot_runs])
      then show ?thesis by (intro that(2) [OF rec] runs_sruns)
    qed (use that(1) in simp)
  qed
next
  case (nomination n v prev timedout w)
  then have "nominate (processNomination n (advanceSlot n (offline ctx)) (offline ctx)) (offline ctx) v prev timedout s = Inr (w, t)"
    by (simp only: slotNominate_def offline_simps)
  then have "nrel (offline ctx) s t"
    using nspec_nominate [of "offline ctx" "processNomination n (advanceSlot n (offline ctx)) (offline ctx)" s v prev timedout,
        OF nspec_processNomination] by simp
  then show ?thesis by (intro that(1)) (simp add: nrel_def)
next
  case (bump n v force w)
  then have "bumpState (advanceSlot n (offline ctx)) (offline ctx) v force s = Inr (w, t)"
    by (simp add: slotBumpState_def offline_simps)
  then show ?thesis by (intro that(1) runs_sruns bumpState_runs)
next
  case (abandon n w)
  then have "abandonBallot (advanceSlot n (offline ctx)) (offline ctx) 0 s = Inr (w, t)"
    by (simp add: slotAbandonBallot_def offline_simps)
  then show ?thesis by (intro that(1) runs_sruns abandonBallot_runs)
next
  case (timer n x)
  then have "ballotProtocolTimerExpired (advanceSlot n (offline ctx)) (offline ctx) s = Inr (x, t)"
    by (simp add: slotTimerExpired_def offline_simps)
  then show ?thesis by (intro that(1) runs_sruns timerExpired_runs)
next
  case stop
  then show ?thesis by (intro that(1) ballot_same_sruns) (auto simp: ballot_same_def stopNomination_def)
qed

section \<open>The quorum of an externalized slot\<close>

text \<open>The statement of an externalized slot is about the ballot it has committed.\<close>

lemma own_envelope_externalize:
  assumes "own_envelope ctx y env" and "mPhase y = SCP_PHASE_EXTERNALIZE" and "mCommit y = Some c"
  shows "\<exists>n qh. pledges (statement env) = Externalize c n qh"
  using assms by (auto simp: own_envelope_def createStatement_def result_simps)

lemma own_record:
  assumes "sprim (offline ctx) y z" and "mPhase z = SCP_PHASE_EXTERNALIZE" and "mCommit z = Some c"
  shows "mLatestEnvelopes z = mLatestEnvelopes y \<or>
    (\<exists>env n qh. pledges (statement env) = Externalize c n qh \<and>
       mLatestEnvelopes z = map_put (nodeID (statement env)) env (mLatestEnvelopes y))"
  using sprim_calls [OF assms(1)]
proof (elim disjE exE conjE)
  fix env self
  assume "admitted (offline ctx) env self y" and z: "z = recorded (offline ctx) env y"
  then have "own_envelope (offline ctx) y env" by (simp add: admitted_def split: if_splits)
  then obtain n qh where "pledges (statement env) = Externalize c n qh"
    using own_envelope_externalize assms(2,3) z by fastforce
  moreover have "mLatestEnvelopes z = map_put (nodeID (statement env)) env (mLatestEnvelopes y)" by (simp add: z)
  ultimately show ?thesis by blast
next
  assume "externalizes (offline ctx) y z"
  then obtain c' u v where u: "quiet y u" "mPhase u = SCP_PHASE_EXTERNALIZE" "mCommit u = Some c'" "emitted_own (offline ctx) u v"
    and z: "z = driverCall (ValueExternalized (value c')) (stopNomination v)" by (auto simp: externalizes_def)
  have "c' = c" using emitted_own_frame(6) [OF u(4)] u(3) assms(3) by (simp add: z stopNomination_def)
  obtain env where own: "own_envelope (offline ctx) u env"
    and v: "v = u \<or> mLatestEnvelopes v = map_put (nodeID (statement env)) env (mLatestEnvelopes u)"
    using u(4) by (auto simp: emitted_own_def)
  from own_envelope_externalize [OF own u(2,3)] obtain n qh where "pledges (statement env) = Externalize c n qh"
    using \<open>c' = c\<close> by auto
  moreover have "mLatestEnvelopes u = mLatestEnvelopes y" "mLatestEnvelopes z = mLatestEnvelopes v"
    using u(1) by (simp_all add: quiet_def z stopNomination_def)
  ultimately show ?thesis using v by auto
qed (auto simp: quiet_def)

text \<open>A statement that externalizes the value joins the quorum that accepts its commit, whatever it replaces:
  its quorum set is the node itself.\<close>

lemma quorum_put:
  assumes "votes_quorum ctx envs (\<lambda>st. commitPredicate c (counter c, n) (pledges st))" and "map_wf envs"
    and "pledges (statement env) = Externalize c m qh"
  shows "votes_quorum ctx (map_put (nodeID (statement env)) env envs) (\<lambda>st. commitPredicate c (counter c, n) (pledges st))"
proof -
  let ?n = "nodeID (statement env)" and ?P = "\<lambda>e. commitPredicate c (counter c, n) (pledges (statement e))"
  let ?envs = "map_put ?n env envs"
  obtain Q where Q: "is_quorum (node_slice envs (getQuorumSetFromStatement ctx)) Q" "sat (getQuorumSet ctx) Q"
    "\<forall>k \<in> Q. \<exists>e. (k, e) \<in> set envs \<and> ?P e" using assms(1) by blast
  have "?P env" using assms(3) by (simp add: ballot_order)
  then have "\<exists>e. (k, e) \<in> set ?envs \<and> ?P e" if "k \<in> Q" for k
    using Q(3) that om.entries_put [OF assms(2), of k _ ?n env] by (cases "k = ?n") auto
  moreover have "node_slice ?envs (getQuorumSetFromStatement ctx) k Q" if "k \<in> Q" for k
  proof (cases "k = ?n")
    case True
    then show ?thesis
      using that assms(3) by (simp add: node_slice_def getQuorumSetFromStatement_def buildSingletonQSet_def)
  next
    case False
    then show ?thesis using Q(1) that by (simp add: is_quorum_def node_slice_def)
  qed
  ultimately show ?thesis using Q(2) unfolding is_quorum_def by blast
qed

text \<open>From the moment it is externalized to the end of the call a slot holds the statements of a quorum that has
  accepted the commit of the interval it has stored.\<close>

definition quorum_held :: "'a SCPContext_scheme \<Rightarrow> Slot \<Rightarrow> bool" where
  "quorum_held ctx s \<longleftrightarrow>
     (\<exists>c h. mCommit s = Some c \<and> mHighBallot s = Some h \<and> commit_interval c h \<and>
        votes_quorum ctx (mLatestEnvelopes s) (\<lambda>st. commitPredicate c (counter c, counter h) (pledges st)))"

lemma quorum_held_own:
  assumes "votes_quorum ctx (mLatestEnvelopes y) (\<lambda>st. commitPredicate c (counter c, counter h) (pledges st))"
    and "sprim (offline ctx) y z" and "envelopes_wf y" and "mPhase z = SCP_PHASE_EXTERNALIZE"
    and "mCommit z = Some c" and "mHighBallot z = Some h" and "commit_interval c h"
  shows "quorum_held ctx z"
proof -
  have "map_wf (mLatestEnvelopes y)" using assms(3) by (simp add: envelopes_wf_def)
  then have "votes_quorum ctx (mLatestEnvelopes z) (\<lambda>st. commitPredicate c (counter c, counter h) (pledges st))"
    using own_record [OF assms(2,4,5)] quorum_put [OF assms(1)] assms(1) by auto
  then show ?thesis using assms(5-7) by (auto simp: quorum_held_def)
qed

lemma sruns_quorum_held:
  assumes "sruns (offline ctx) s t" and "envelopes_wf s" and "small_qsets ctx"
    and "mPhase s \<noteq> SCP_PHASE_EXTERNALIZE" and "mPhase t = SCP_PHASE_EXTERNALIZE"
  shows "quorum_held ctx t"
proof -
  have "(sprim (offline ctx))\<^sup>*\<^sup>* s t" using assms(1) by (simp add: sruns_def)
  then have "envelopes_wf t \<and> (mPhase t = SCP_PHASE_EXTERNALIZE \<longrightarrow> quorum_held ctx t)"
  proof (induction rule: rtranclp_induct)
    case base
    then show ?case using assms(2,4) by simp
  next
    case (step y z)
    have wf: "envelopes_wf y" "envelopes_wf z" using step records_prim by blast+
    have "quorum_held ctx z" if ext: "mPhase z = SCP_PHASE_EXTERNALIZE"
    proof -
      consider "ballots_same y z" | "confirms (offline ctx) y z"
        using sprim_ballots [OF step.hyps(2)] ext by (auto simp: moves_within_def commits_def)
      then show ?thesis
      proof cases
        case 1
        then have "quorum_held ctx y" and same: "mCommit z = mCommit y" "mHighBallot z = mHighBallot y"
          using step.IH ext by (auto simp: ballots_same_def)
        then obtain c h where y: "mCommit y = Some c" "mHighBallot y = Some h" "commit_interval c h"
          and Q: "votes_quorum ctx (mLatestEnvelopes y) (\<lambda>st. commitPredicate c (counter c, counter h) (pledges st))"
          unfolding quorum_held_def by blast
        show ?thesis by (rule quorum_held_own [OF Q step.hyps(2) wf(1) ext]) (simp_all add: same y)
      next
        case 2
        then obtain c h where c: "mCommit z = Some c" "mHighBallot z = Some h" "commit_interval c h" "ratifiesCommit ctx y c h"
          by (auto simp: confirms_def offline_simps)
        then show ?thesis
          using quorum_held_own [OF _ step.hyps(2) wf(1) ext] unfolding federatedRatify_quorum [OF assms(3)] by blast
      qed
    qed
    then show ?case using wf by simp
  qed
  then show ?thesis using assms(5) by simp
qed

lemma slot_call_quorum_held:
  assumes "slot_call ctx s t" and "envelopes_wf s" and "small_qsets ctx"
    and "mPhase s \<noteq> SCP_PHASE_EXTERNALIZE" and "mPhase t = SCP_PHASE_EXTERNALIZE"
  shows "quorum_held ctx t"
  using assms(1,4)
proof (cases rule: slot_call_offline)
  case 1
  then show ?thesis by (rule sruns_quorum_held [OF _ assms(2-5)])
next
  case (2 env)
  have "envelopes_wf (recorded ctx env s)" "mPhase (recorded ctx env s) \<noteq> SCP_PHASE_EXTERNALIZE"
    using records_recorded [OF 2(1) assms(2)] assms(4) by simp_all
  then show ?thesis by (rule sruns_quorum_held [OF 2(2) _ assms(3) _ assms(5)])
qed

end
