(* ===== verification/Slot_Guarantees.thy ===== *)
theory Slot_Guarantees
  imports Slot_Example Call_Records
begin

text \<open>
  The guarantees of a slot over any sequence of calls, from the moment it is created. They
  rest on the state machine of \<open>Ballot_Steps\<close> and the invariants of \<open>Ballot_Safety\<close> and
  \<open>Nomination_Safety\<close>.
\<close>

section \<open>Guarantees\<close>

text \<open>What every reachable slot satisfies.\<close>

lemma reachable_inv:
  assumes "slot_calls (newSlot i ctx) s"
  shows "ballot_inv s \<and> nom_inv s"
proof -
  have "nom_inv s \<and> True"
    by (rule slot_calls_relation [where I = nom_inv and R = "\<lambda>_ _. True", OF assms nom_inv_newSlot])
      (auto dest: slot_call_nrel simp: nrel_def)
  then show ?thesis using slot_calls_inv [OF assms ballot_inv_newSlot] by simp
qed

text \<open>C4: a slot that has accepted a commit never changes its mind: from the second phase on
  the phase only advances and the value of the ballot it commits to stays the same, over any
  sequence of calls (envelopes, nominations, bumps, timers), with any answers of the driver.\<close>

theorem committed_value_final:
  assumes "slot_calls (newSlot i ctx) s" and "slot_calls s t" and "mPhase s \<noteq> SCP_PHASE_PREPARE"
  shows "\<exists>c c'. mCommit s = Some c \<and> mCommit t = Some c' \<and> value c' = value c \<and>
    phase_rank (mPhase s) \<le> phase_rank (mPhase t)"
proof -
  have inv: "ballot_inv s" using reachable_inv [OF assms(1)] by simp
  then have p: "progress s t" "ballot_inv t" using slot_calls_inv [OF assms(2)] by auto
  have "mCommit s \<noteq> None" using inv assms(3) by (auto simp: ballot_inv_def invariants_hold_def split: option.splits)
  then obtain c where c: "mCommit s = Some c" by blast
  then have "committed t = Some (value c)"
    using p(1) assms(3) by (simp add: progress_def committed_def)
  then obtain c' where "mCommit t = Some c'" "value c' = value c"
    by (auto simp: committed_def split: if_split_asm)
  then show ?thesis using p(1) c by (simp add: progress_def)
qed

theorem committed_value_final_witness:
  "\<exists>c c'. mCommit (ex_state 3) = Some c \<and> mCommit (ex_state 4) = Some c' \<and> value c' = value c \<and>
    phase_rank (mPhase (ex_state 3)) \<le> phase_rank (mPhase (ex_state 4))"
proof (rule committed_value_final [OF ex_state_reached])
  show "slot_calls (ex_state 3) (ex_state 4)" using ex_state_step [of 3] by simp
qed (simp add: ex_state_phases)

text \<open>C5: an externalized slot is frozen: no call changes its ballots or its phase any more.\<close>

theorem externalized_frozen:
  assumes "slot_calls (newSlot i ctx) s" and "slot_calls s t" and "mPhase s = SCP_PHASE_EXTERNALIZE"
  shows "mPhase t = SCP_PHASE_EXTERNALIZE \<and> mCommit t = mCommit s \<and> mHighBallot t = mHighBallot s \<and>
    mCurrentBallot t = mCurrentBallot s \<and> mPrepared t = mPrepared s \<and> mPreparedPrime t = mPreparedPrime s"
  using slot_calls_inv [OF assms(2)] reachable_inv [OF assms(1)] assms(3)
  by (simp add: progress_def ballots_same_def)

theorem externalized_frozen_witness:
  "\<exists>t. slot_call ex_ctx (ex_state 4) t \<and> mPhase t = SCP_PHASE_EXTERNALIZE \<and>
     mCommit t = mCommit (ex_state 4)"
proof -
  have "slot_call ex_ctx (ex_state 4) (stopNomination (ex_state 4))" by (rule slot_call.stop)
  then show ?thesis
    using externalized_frozen [OF ex_state_reached slot_call_calls ex_state_phases(2)] by blast
qed

text \<open>C8: the driver is told a value at most once per slot, only when the slot is externalized, and
  it is told the value of the committed ballot.\<close>

theorem announced_once:
  assumes "slot_calls (newSlot i ctx) s"
  shows "length (announced s) \<le> 1 \<and>
    (announced s = [] \<or> mPhase s = SCP_PHASE_EXTERNALIZE \<and> (\<exists>c. mCommit s = Some c \<and> announced s = [value c]))"
  using reachable_inv [OF assms] by (auto simp: ballot_inv_def announced_wf_def)

lemma ex_state_announced: "announced (ex_state 4) = [[9]]"
  by code_simp

theorem announced_once_witness:
  "announced (ex_state 4) = [[9]] \<and> (\<exists>c. mCommit (ex_state 4) = Some c \<and> value c = [9])"
  using announced_once [OF ex_state_reached [of 4]] by (auto simp: ex_state_announced)

text \<open>C7: the ballot statements a slot sends form a strictly increasing chain of ever newer
  statements, so none is sent twice, and the record it keeps of every node only moves to
  newer statements.\<close>

theorem statements_only_newer:
  assumes "slot_calls (newSlot i ctx) s" and "slot_calls s t"
  shows "sorted_wrt isNewerStatement (sent t) \<and> distinct (sent t) \<and> records_newer s t"
proof -
  have "ballot_inv s" using reachable_inv [OF assms(1)] by simp
  from slot_calls_inv [OF assms(2) this] show ?thesis
    by (auto simp: ballot_inv_def sent_wf_def
        intro: ballot_statements.chain_sorted ballot_statements.chain_distinct)
qed

lemma ex_state_sent: "length (sent (ex_state 4)) = 5"
  by code_simp

theorem statements_only_newer_witness:
  "length (sent (ex_state 4)) = 5 \<and> distinct (sent (ex_state 4)) \<and> records_newer (ex_state 3) (ex_state 4)"
proof -
  have "slot_calls (ex_state 3) (ex_state 4)" using ex_state_step [of 3] by simp
  from statements_only_newer [OF ex_state_reached this] show ?thesis by (simp add: ex_state_sent)
qed

text \<open>What every state a slot is left in satisfies, since no statement is made and no envelope recorded without
  a check: the assertions of \<open>checkInvariants\<close>, and of every recorded envelope its node, slot and counters.
  That the assertions do not fail is proved in \<open>Ballot_Assertions\<close>.\<close>

lemma slot_invariants:
  assumes "slot_calls (newSlot i ctx) s"
  shows "checkInvariants s (Inr x) = Inr x \<and>
    (\<forall>n e. map_of (mLatestEnvelopes s) n = Some e \<longrightarrow>
      nodeID (statement e) = n \<and> slotIndex (statement e) = mSlotIndex s \<and> sane_pledges (pledges (statement e)))"
proof -
  have inv: "invariants_hold s" "envelopes_wf s"
    using reachable_inv [OF assms] by (simp_all add: ballot_inv_def)
  then show ?thesis
    unfolding checkInvariants_Inr by (auto simp: envelopes_wf_def dest!: map_of_SomeD)
qed

text \<open>C2: A slot externalizes only with a quorum: when a call takes a slot to the last phase, then among the
  statements the slot has recorded at the end of the call are those of a quorum, with a slice of the local
  node, that have all accepted the commit of one value at every counter of an interval, and the slot has
  stored exactly that interval and that value.\<close>

theorem externalize_needs_quorum:
  assumes "slot_calls (newSlot i ctx0) s" and "slot_call ctx s t" and "small_qsets ctx"
    and "mPhase s \<noteq> SCP_PHASE_EXTERNALIZE" and "mPhase t = SCP_PHASE_EXTERNALIZE"
  shows "\<exists>c h. mCommit t = Some c \<and> mHighBallot t = Some h \<and> value c = value h \<and> 0 < counter c \<and> counter c \<le> counter h \<and>
    votes_quorum ctx (mLatestEnvelopes t) (\<lambda>st. commitPredicate c (counter c, counter h) (pledges st))"
proof -
  have "envelopes_wf s" using reachable_inv [OF assms(1)] by (simp add: ballot_inv_def)
  from slot_call_quorum_held [OF assms(2) this assms(3-5)] show ?thesis
    by (auto simp: quorum_held_def commit_interval_def word_neq_0_conv)
qed

theorem externalize_needs_quorum_witness:
  "\<exists>c h. mCommit (ex_state 4) = Some c \<and> mHighBallot (ex_state 4) = Some h \<and> value c = value h \<and>
    votes_quorum ex_ctx (mLatestEnvelopes (ex_state 4)) (\<lambda>st. commitPredicate c (counter c, counter h) (pledges st))"
proof -
  have step: "slot_call ex_ctx (ex_state 3) (ex_state 4)"
    by (rule slot_call.envelope [where n = 60 and env = "ex_env (ex_pledges ! 3)" and r = VALID])
      (simp add: ex_ctx_def, code_simp)
  have "small_qsets ex_ctx" by (simp add: small_qsets_def ex_ctx_def ex_qset_def getQuorumSet_def)
  from externalize_needs_quorum [OF ex_state_reached step this] show ?thesis
    unfolding ex_state_phases by blast
qed

end
