(* ===== verification/Nomination_Guarantees.thy ===== *)
theory Nomination_Guarantees
  imports Slot_Example
begin

text \<open>
  The guarantees of nomination: who leads a round, which values a node votes for and when
  they are promoted.
\<close>

text \<open>A slot of the example in which nomination has begun, and a nomination.\<close>

definition ex_nominating :: Slot where
  "ex_nominating = (newSlot 7 ex_ctx)\<lparr>mPreviousValue := [5], mRoundNumber := 1\<rparr>"

definition ex_nomination :: SCPNomination where
  "ex_nomination = \<lparr>nom_quorumSetHash = [0], votes = [[1], [2, 3]], accepted = [[4]]\<rparr>"

text \<open>A round's leaders are exactly the nodes of the local quorum set whose priority is
  positive and highest (ties included), whenever the priorities can be computed.\<close>

lemma updateRoundLeaders_top:
  assumes "\<And>n. n \<in> set (qset_nodes (getQuorumSet ctx)) \<Longrightarrow>
      getNodePriority ctx n (getQuorumSet ctx) s = Inr (pr n)"
  shows "\<exists>ls. updateRoundLeaders ctx s = Inr (s\<lparr>mRoundLeaders := ls\<rparr>) \<and> std_set ls \<and>
    set ls = {n \<in> set (qset_nodes (getQuorumSet ctx)). 0 < pr n \<and>
      (\<forall>m \<in> set (qset_nodes (getQuorumSet ctx)). pr m \<le> pr n)}"
proof -
  let ?N = "set (qset_nodes (getQuorumSet ctx))"
  obtain ys where ys: "set ys = ?N"
    "forAllNodes (getQuorumSet ctx) (leaderStep ctx s) (Inr (0, [])) = fold (leaderStep ctx s) ys (Inr (0, []))"
    using forAllNodes_fold [of "getQuorumSet ctx" "leaderStep ctx s" "Inr (0, [])"] by blast
  obtain tp ls where l: "fold (leaderStep ctx s) ys (Inr (0, [])) = Inr (tp, ls)" "std_set ls"
    "set ls = {n \<in> ?N. pr n = tp \<and> 0 < pr n}" "\<forall>n \<in> ?N. pr n \<le> tp" "0 < tp \<longrightarrow> tp \<in> pr ` ?N"
  proof -
    have "\<exists>tp ls. fold (leaderStep ctx s) ys (Inr (0, [])) = Inr (tp, ls) \<and> std_set ls \<and>
      set ls = {n \<in> set [] \<union> set ys. pr n = tp \<and> 0 < pr n} \<and>
      (\<forall>n \<in> set [] \<union> set ys. pr n \<le> tp) \<and> (0 < tp \<longrightarrow> tp \<in> pr ` (set [] \<union> set ys))"
      by (rule leaders_fold) (simp_all add: assms ys(1))
    then show ?thesis unfolding ys(1) list.set(1) Un_empty_left using that by blast
  qed
  have "pr n = tp" if "n \<in> ?N" "0 < pr n" "\<forall>m \<in> ?N. pr m \<le> pr n" for n
  proof (rule order_antisym)
    show "pr n \<le> tp" using l(4) that(1) by blast
    then have "0 < tp" using that(2) by simp
    then show "tp \<le> pr n" using l(5) that(3) by auto
  qed
  then have "set ls = {n \<in> ?N. 0 < pr n \<and> (\<forall>m \<in> ?N. pr m \<le> pr n)}"
    unfolding l(3) using l(4) by blast
  then show ?thesis using l(1,2) by (auto simp: updateRoundLeaders_def ys(2))
qed

lemma ex_priority:
  "getNodePriority ex_ctx [1] ex_qset ex_nominating = Inr 2"
  "getNodePriority ex_ctx [2] ex_qset ex_nominating = Inr 1"
  "getNodePriority ex_ctx [3] ex_qset ex_nominating = Inr 1"
  by code_simp+

lemma ex_qset_of: "getQuorumSet ex_ctx = ex_qset" and ex_nodes: "set (qset_nodes ex_qset) = {[1], [2], [3]}"
  by (simp_all add: ex_ctx_def ex_qset_def getQuorumSet_def)

lemma updateRoundLeaders_top_example:
  "\<exists>ls. updateRoundLeaders ex_ctx ex_nominating = Inr (ex_nominating\<lparr>mRoundLeaders := ls\<rparr>) \<and>
    set ls = {[1]}"
proof -
  define pr :: "NodeID \<Rightarrow> uint64" where "pr = (\<lambda>n. if n = [1] then 2 else 1)"
  have "getNodePriority ex_ctx n (getQuorumSet ex_ctx) ex_nominating = Inr (pr n)"
    if "n \<in> set (qset_nodes (getQuorumSet ex_ctx))" for n
    using that by (auto simp: ex_qset_of ex_nodes ex_priority pr_def)
  from updateRoundLeaders_top [OF this] obtain ls where
    "updateRoundLeaders ex_ctx ex_nominating = Inr (ex_nominating\<lparr>mRoundLeaders := ls\<rparr>)"
    "set ls = {n \<in> {[1], [2], [3]}. 0 < pr n \<and> (\<forall>m \<in> {[1], [2], [3]}. pr m \<le> pr n)}"
    unfolding ex_qset_of ex_nodes by blast
  moreover have "{n \<in> {[1], [2], [3]}. 0 < pr n \<and> (\<forall>m \<in> {[1], [2], [3]}. pr m \<le> pr n)} = {[1]}"
    by (auto simp: pr_def word_le_nat_alt)
  ultimately show ?thesis by auto
qed

text \<open>The vote a node copies from a leader's nomination is the value of highest hash among
  those it may vote for (valid, or made valid by the driver, and not voted for yet); it is
  empty exactly when there is none.\<close>

lemma getNewValueFromNomination_best:
  assumes "mPreviousValue s \<noteq> []"
  shows "\<exists>r. getNewValueFromNomination ctx nom s = Inr r \<and>
    (r = [] \<or> eligible ctx s r \<and> r \<in> (\<lambda>v. valueToNominate ctx v s) ` set (applyAllValues nom)) \<and>
    (\<forall>v \<in> (\<lambda>v. valueToNominate ctx v s) ` set (applyAllValues nom). eligible ctx s v \<longrightarrow>
       r \<noteq> [] \<and> value_hash ctx s v \<le> value_hash ctx s r)"
  using newValueLoop_best [of s "[]" 0 ctx "applyAllValues nom"] assms
  by (auto simp: getNewValueFromNomination_def)

lemma getNewValueFromNomination_best_example:
  "\<exists>r. getNewValueFromNomination ex_ctx ex_nomination ex_nominating = Inr r \<and> length r = 2"
proof -
  have "mPreviousValue ex_nominating \<noteq> []" by (simp add: ex_nominating_def)
  from getNewValueFromNomination_best [OF this, of ex_ctx ex_nomination]
  obtain r where r: "getNewValueFromNomination ex_ctx ex_nomination ex_nominating = Inr r"
    "r \<in> {[1], [2, 3], [4]}" "value_hash ex_ctx ex_nominating [2, 3] \<le> value_hash ex_ctx ex_nominating r"
    by (auto simp: ex_ctx_def ex_nomination_def ex_nominating_def eligible_def valueToNominate_def
        applyAllValues_def newSlot_def)
  then show ?thesis by (auto simp: ex_ctx_def word_le_nat_alt)
qed

text \<open>C33: what a node has voted for, accepted and made a candidate only grows over any sequence
  of calls, a candidate is always accepted and an accepted value voted for, and the
  nomination recorded from every node only grows.\<close>

theorem nomination_grows:
  assumes "slot_calls (newSlot i ctx) s" and "slot_calls s t"
  shows "set (mCandidates t) \<subseteq> set (mAccepted t) \<and> set (mAccepted t) \<subseteq> set (mVotes t) \<and>
    set (mVotes s) \<subseteq> set (mVotes t) \<and> set (mAccepted s) \<subseteq> set (mAccepted t) \<and>
    set (mCandidates s) \<subseteq> set (mCandidates t) \<and> nominations_grow s t"
proof -
  have step: "nom_inv v \<and> grows u v" if "nom_inv u" "slot_call c u v" for c u v
    using slot_call_nrel [OF that(2)] that(1) by (simp add: nrel_def)
  have "nom_inv s \<and> grows (newSlot i ctx) s"
    by (rule slot_calls_relation [where I = nom_inv and R = grows, OF assms(1) nom_inv_newSlot])
      (auto dest: step intro: grows_trans)
  then have "nom_inv t \<and> grows s t"
    by (intro slot_calls_relation [where I = nom_inv and R = grows, OF assms(2)])
      (auto dest: step intro: grows_trans)
  then show ?thesis by (simp add: nom_inv_def grows_def)
qed

text \<open>Node 1 leads the round and nominates a value.\<close>

definition ex_nominated :: Slot where
  "ex_nominated = (case slotNominate 60 ex_ctx [9] [5] False (newSlot 7 ex_ctx) of
     Inr (_, s) \<Rightarrow> s | Inl _ \<Rightarrow> newSlot 7 ex_ctx)"

lemma ex_nominated_reached: "slot_calls (newSlot 7 ex_ctx) ex_nominated"
  by (auto simp: ex_nominated_def split: sum.split
      intro: slot_calls_refl slot_call_calls slot_call.nomination)

lemma ex_nominated_votes: "mVotes ex_nominated = [[9]]"
  by code_simp

theorem nomination_grows_witness:
  "[9] \<in> set (mVotes (stopNomination ex_nominated)) \<and>
   set (mCandidates (stopNomination ex_nominated)) \<subseteq> set (mVotes (stopNomination ex_nominated))"
  using nomination_grows [OF ex_nominated_reached slot_call_calls [OF slot_call.stop]]
  by (auto simp: ex_nominated_votes)

end
