(* ===== verification/Slot_Contracts.thy ===== *)
theory Slot_Contracts
  imports Slot_Example
begin

text \<open>
  Contracts of single operations of the consensus slot: federated voting, the search for the
  interval to commit, the restoration of a slot from its own statement, and two behaviours of
  the code that differ from what its comments announce.
\<close>

section \<open>Federated voting\<close>

lemma not_sat_compl: "\<not> sat q (- A) \<longleftrightarrow> (\<forall>S. sat q S \<longrightarrow> (\<exists>n \<in> S. n \<in> A))"
proof -
  have "sat q (- A)" if "sat q S" "\<And>n. n \<in> S \<Longrightarrow> n \<notin> A" for S
    by (rule sat_mono [OF that(1)]) (use that(2) in blast)
  then show ?thesis by blast
qed

text \<open>C9: federated voting is the one of the protocol. A node accepts exactly when the nodes that
  accept meet every slice of its quorum set, or when a quorum that satisfies it votes for or
  accepts; it ratifies exactly when a quorum that satisfies it votes.\<close>

theorem federated_voting:
  assumes "small_qsets ctx"
  shows "(federatedAccept ctx voted accpted envs \<longleftrightarrow>
      (\<forall>S. sat (getQuorumSet ctx) S \<longrightarrow> (\<exists>n \<in> S. \<exists>e. (n, e) \<in> set envs \<and> accpted (statement e))) \<or>
      votes_quorum ctx envs (\<lambda>st. accpted st \<or> voted st)) \<and>
    (federatedRatify ctx voted envs \<longleftrightarrow> votes_quorum ctx envs voted)"
proof -
  let ?A = "{n. \<exists>e. (n, e) \<in> set envs \<and> accpted (statement e)}"
  have ok: "qset_ok (getQuorumSet ctx)" using assms by (simp add: small_qsets_def)
  have "isVBlockingMap (getQuorumSet ctx) envs accpted \<longleftrightarrow> \<not> sat (getQuorumSet ctx) (- ?A)"
    using isVBlocking_not_sat [OF ok, of "filterNodes envs accpted"]
    by (simp add: isVBlockingMap_def set_filterNodes)
  then show ?thesis
    using federatedRatify_quorum [OF assms] unfolding federatedAccept_def federatedRatify_def not_sat_compl
    by simp
qed

theorem federated_voting_witness:
  "federatedAccept ex_ctx (\<lambda>st. True) (\<lambda>st. False)
     [([1], ex_env (ex_pledges ! 0)), ([2], ex_env (ex_pledges ! 0))]"
proof -
  have "small_qsets ex_ctx" by (simp add: small_qsets_def ex_ctx_def ex_qset_def getQuorumSet_def)
  moreover have "votes_quorum ex_ctx [([1], ex_env (ex_pledges ! 0)), ([2], ex_env (ex_pledges ! 0))]
      (\<lambda>st. False \<or> True)"
    by (intro exI [of _ "{[1], [2]}"])
      (auto simp: is_quorum_def node_slice_def ex_env_def ex_pledges_def ex_ctx_def ex_qset_def
        getQuorumSetFromStatement_def getQuorumSet_def)
  ultimately show ?thesis by (subst federated_voting [THEN conjunct1]) simp_all
qed

section \<open>The interval to commit\<close>

text \<open>Once a high bound is found, the interval is extended down while the predicate holds.\<close>

lemma extendInterval_down:
  assumes "sorted_wrt (>) (hi # bs)" and "0 \<notin> set bs" and "0 < lo" and "lo \<le> hi"
    and "\<And>b. b \<in> set bs \<Longrightarrow> b < lo"
  shows "\<exists>lo'. extendInterval pred bs (lo, hi) = (lo', hi) \<and> (lo' = lo \<or> lo' \<in> set bs) \<and> lo' \<le> lo \<and>
    (\<forall>b \<in> set bs. lo' \<le> b \<longrightarrow> pred (b, hi)) \<and>
    (\<forall>b \<in> set bs. b < lo' \<longrightarrow> (\<exists>b' \<in> set bs. b \<le> b' \<and> b' < lo' \<and> \<not> pred (b', hi)))"
  using assms
proof (induction bs arbitrary: lo)
  case (Cons b bs)
  have b: "\<not> hi < b" "0 < b" "b < lo"
    using Cons.prems word_neq_0_conv [of b] by auto
  show ?case
  proof (cases "pred (b, hi)")
    case True
    have "\<exists>lo'. extendInterval pred bs (b, hi) = (lo', hi) \<and> (lo' = b \<or> lo' \<in> set bs) \<and> lo' \<le> b \<and>
        (\<forall>x \<in> set bs. lo' \<le> x \<longrightarrow> pred (x, hi)) \<and>
        (\<forall>x \<in> set bs. x < lo' \<longrightarrow> (\<exists>b' \<in> set bs. x \<le> b' \<and> b' < lo' \<and> \<not> pred (b', hi)))"
      using Cons.prems b(2) by (intro Cons.IH) auto
    then obtain lo' where "extendInterval pred bs (b, hi) = (lo', hi)" "lo' = b \<or> lo' \<in> set bs" "lo' \<le> b"
      "\<forall>x \<in> set bs. lo' \<le> x \<longrightarrow> pred (x, hi)"
      "\<forall>x \<in> set bs. x < lo' \<longrightarrow> (\<exists>b' \<in> set bs. x \<le> b' \<and> b' < lo' \<and> \<not> pred (b', hi))" by blast
    moreover have "extendInterval pred (b # bs) (lo, hi) = extendInterval pred bs (b, hi)"
      using True b Cons.prems(3) by (auto simp: Let_def)
    ultimately show ?thesis using True b by (intro exI [of _ lo']) auto
  next
    case False
    then have "extendInterval pred (b # bs) (lo, hi) = (lo, hi)"
      using b Cons.prems(3) by (auto simp: Let_def)
    moreover have "\<forall>x \<in> set (b # bs). x < lo \<and> x \<le> b" using Cons.prems(1,5) by auto
    ultimately show ?thesis
      using False b(3) by (intro exI [of _ lo]) (auto simp del: extendInterval.simps dest: leD)
  qed
qed simp

text \<open>Until then the boundaries are tried from the top.\<close>

lemma extendInterval_search:
  assumes "\<And>b. b \<in> set bs \<Longrightarrow> \<not> pred (b, b)"
  shows "extendInterval pred (bs @ cs) (0, 0) = extendInterval pred cs (0, 0)"
  using assms by (induction bs) auto

text \<open>C20: the search for the interval to commit is greedy from the top: its upper bound is the
  highest boundary at which the predicate holds, it contains no boundary at which the
  predicate fails, and it stops exactly at the first one below where the predicate fails.
  It answers the empty interval only if the predicate holds at no boundary.\<close>

theorem findExtendedInterval_greedy:
  assumes "std_set boundaries" and "0 \<notin> set boundaries"
  shows "\<exists>lo hi. findExtendedInterval (0, 0) boundaries pred = (lo, hi) \<and>
    (if \<exists>b \<in> set boundaries. pred (b, b)
     then lo \<in> set boundaries \<and> hi \<in> set boundaries \<and> lo \<le> hi \<and> pred (hi, hi) \<and>
       (\<forall>b \<in> set boundaries. hi < b \<longrightarrow> \<not> pred (b, b)) \<and>
       (\<forall>b \<in> set boundaries. lo \<le> b \<and> b \<le> hi \<longrightarrow> pred (b, hi)) \<and>
       (\<forall>b \<in> set boundaries. b < lo \<longrightarrow> (\<exists>b' \<in> set boundaries. b \<le> b' \<and> b' < lo \<and> \<not> pred (b', hi)))
     else lo = 0 \<and> hi = 0)"
proof (cases "\<exists>b \<in> set (rev boundaries). pred (b, b)")
  case True
  then obtain ys hi zs where split: "rev boundaries = ys @ hi # zs" "pred (hi, hi)"
    and ys: "\<And>b. b \<in> set ys \<Longrightarrow> \<not> pred (b, b)"
    using split_list_first_prop [of "rev boundaries" "\<lambda>b. pred (b, b)"] by blast
  have set: "set boundaries = set ys \<union> {hi} \<union> set zs"
    using arg_cong [OF split(1), of set] by auto
  have desc: "sorted_wrt (>) (rev boundaries)"
    using assms(1) by (simp add: sorted_wrt_rev strict_sorted_iff)
  then have order: "sorted_wrt (>) (hi # zs)" "\<forall>b \<in> set ys. hi < b" "\<forall>b \<in> set zs. b < hi"
    unfolding split(1) by (auto simp: sorted_wrt_append)
  have "0 < hi" using assms(2) set word_neq_0_conv [of hi] by auto
  then have "\<exists>lo. extendInterval pred zs (hi, hi) = (lo, hi) \<and> (lo = hi \<or> lo \<in> set zs) \<and> lo \<le> hi \<and>
    (\<forall>b \<in> set zs. lo \<le> b \<longrightarrow> pred (b, hi)) \<and>
    (\<forall>b \<in> set zs. b < lo \<longrightarrow> (\<exists>b' \<in> set zs. b \<le> b' \<and> b' < lo \<and> \<not> pred (b', hi)))"
    using order assms(2) set by (intro extendInterval_down) auto
  then obtain lo where lo: "extendInterval pred zs (hi, hi) = (lo, hi)" "lo = hi \<or> lo \<in> set zs" "lo \<le> hi"
    "\<forall>b \<in> set zs. lo \<le> b \<longrightarrow> pred (b, hi)"
    "\<forall>b \<in> set zs. b < lo \<longrightarrow> (\<exists>b' \<in> set zs. b \<le> b' \<and> b' < lo \<and> \<not> pred (b', hi))" by blast
  have "findExtendedInterval (0, 0) boundaries pred = (lo, hi)"
    using lo(1) split extendInterval_search [of ys pred "hi # zs", OF ys] by (simp add: findExtendedInterval_def)
  moreover have "\<exists>b \<in> set boundaries. pred (b, b)" using True by simp
  moreover have "\<forall>b \<in> set boundaries. hi < b \<longrightarrow> \<not> pred (b, b)"
    using ys order(3) unfolding set by (auto dest: order.asym)
  moreover have "\<forall>b \<in> set boundaries. lo \<le> b \<and> b \<le> hi \<longrightarrow> pred (b, hi)"
    using split(2) lo(4) order(2) unfolding set by (auto dest: leD)
  moreover have "\<exists>b' \<in> set boundaries. b \<le> b' \<and> b' < lo \<and> \<not> pred (b', hi)"
    if "b \<in> set boundaries" "b < lo" for b
  proof -
    have "b \<in> set zs" using that order(2) lo(3) unfolding set by (auto dest: less_le_trans order.asym)
    then show ?thesis using lo(5) that(2) unfolding set by blast
  qed
  ultimately show ?thesis using lo(2,3) split(2) unfolding set by (intro exI [of _ lo] exI [of _ hi]) auto
next
  case False
  then have "findExtendedInterval (0, 0) boundaries pred = (0, 0)"
    using extendInterval_search [of "rev boundaries" pred "[]"] by (simp add: findExtendedInterval_def)
  with False show ?thesis by (intro exI) auto
qed

theorem findExtendedInterval_greedy_witness:
  "\<exists>lo hi. findExtendedInterval (0, 0) [1, 3, 5, 7] (\<lambda>(l, h). 2 \<le> l \<and> h \<le> 6) = (lo, hi) \<and> lo \<le> hi \<and>
     findExtendedInterval (0, 0) [1, 3, 5, 7] (\<lambda>(l, h). 2 \<le> l \<and> h \<le> 6) = (3, 5)"
proof -
  have "findExtendedInterval (0, 0) [1, 3, 5, 7] (\<lambda>(l, h). 2 \<le> l \<and> h \<le> 6) = (3, 5)" by code_simp
  moreover have "std_set [1, 3, 5, 7 :: uint32]" "0 \<notin> set [1, 3, 5, 7 :: uint32]" by simp_all
  moreover note findExtendedInterval_greedy [OF this, of "\<lambda>(l, h). 2 \<le> l \<and> h \<le> 6"]
  ultimately show ?thesis by auto
qed

section \<open>Restoring a slot\<close>










section \<open>Behaviours that differ from the comments\<close>

definition statement_counter :: "SCPPledges \<Rightarrow> uint32 option" where
  "statement_counter pl =
     (case pl of
        Prepare _ b _ _ _ _ \<Rightarrow> Some (counter b) | Confirm b _ _ _ _ \<Rightarrow> Some (counter b)
      | Externalize _ _ _ \<Rightarrow> Some UINT32_MAX | Nominate _ \<Rightarrow> None)"

lemma allCounters_fold:
  "std_set cs \<Longrightarrow>
   (let r = fold (\<lambda>(_, e).
             (case pledges (statement e) of
                Prepare _ b _ _ _ _ \<Rightarrow> insort_insert (counter b)
              | Confirm b _ _ _ _ \<Rightarrow> insort_insert (counter b)
              | Externalize _ _ _ \<Rightarrow> insort_insert UINT32_MAX
              | Nominate _ \<Rightarrow> id)) envs cs in
    std_set r \<and> set r = set cs \<union> {n. \<exists>(_, e) \<in> set envs. statement_counter (pledges (statement e)) = Some n})"
proof (induction envs arbitrary: cs)
  case (Cons x envs)
  obtain k e where x: "x = (k, e)" by fastforce
  show ?case
  proof (cases "pledges (statement e)")
    case (Nominate nom)
    then show ?thesis using Cons by (simp add: x Let_def statement_counter_def)
  qed (use Cons.IH [OF std_set_insert [OF Cons.prems]] in
      \<open>auto simp: x Let_def statement_counter_def set_insort_insert\<close>)
qed (simp add: Let_def)

lemma allCounters_set:
  "std_set (allCounters s) \<and>
   set (allCounters s) = {n. \<exists>(_, e) \<in> set (mLatestEnvelopes s). statement_counter (pledges (statement e)) = Some n}"
  using allCounters_fold [of "[]" "mLatestEnvelopes s"] by (simp add: allCounters_def Let_def)

text \<open>C35: one recorded statement below the current counter keeps a slot from catching up: whatever
  the others say, and even if a v-blocking set is ahead, \<open>attemptBump\<close> then does nothing. (The
  loop over the counters starts from the lowest and leaves at the first that is below the
  current one, where the comment announces a search for the smallest counter that is not
  v-blocking.)\<close>

theorem attemptBump_blocked_by_straggler:
  assumes "mCurrentBallot s = Some b" and "(n, e) \<in> set (mLatestEnvelopes s)"
    and "statement_counter (pledges (statement e)) = Some k" and "k < counter b"
  shows "attemptBump adv ctx s = Inr (False, s)"
proof -
  let ?cs = "insort_insert (counter b) (allCounters s)"
  have cs: "std_set ?cs" "k \<in> set ?cs"
    using allCounters_set [of s] assms(2,3) by (auto simp: std_set_insert set_insort_insert)
  then obtain m ms where m: "?cs = m # ms" by (cases ?cs) auto
  then have "m \<le> k" using cs by auto
  then have "m < counter b" using assms(4) by simp
  then show ?thesis by (simp add: attemptBump_def assms(1) m Let_def)
qed

text \<open>Nodes 2 and 3, a quorum slice and v-blocking, are at counter 9; node 1 is at counter 5. If
  the record of node 1 itself were still at counter 2, it would stay behind.\<close>

definition ex_prepare :: "NodeID \<Rightarrow> uint32 \<Rightarrow> SCPEnvelope" where
  "ex_prepare n c = \<lparr>statement = \<lparr>nodeID = n, slotIndex = 7,
     pledges = Prepare [0] (SCPBallot c [9]) None None 0 0\<rparr>, signature = []\<rparr>"

definition ex_behind :: "uint32 \<Rightarrow> Slot" where
  "ex_behind own = (newSlot 7 ex_ctx)\<lparr>mCurrentBallot := Some (SCPBallot 5 [9]),
     mLatestEnvelopes := [([1], ex_prepare [1] own), ([2], ex_prepare [2] 9), ([3], ex_prepare [3] 9)]\<rparr>"

theorem attemptBump_blocked_by_straggler_witness:
  "isVBlockingMap ex_qset (mLatestEnvelopes (ex_behind 2)) (\<lambda>st. isAhead 5 (pledges st)) \<and>
   attemptBump (advanceSlot 60 ex_ctx) ex_ctx (ex_behind 2) = Inr (False, ex_behind 2) \<and>
   (\<exists>t b. attemptBump (advanceSlot 60 ex_ctx) ex_ctx (ex_behind 5) = Inr (True, t) \<and>
      mCurrentBallot t = Some b \<and> counter b = 9)"
proof -
  have "isVBlockingMap ex_qset (mLatestEnvelopes (ex_behind 2)) (\<lambda>st. isAhead 5 (pledges st))" by code_simp
  moreover have "attemptBump (advanceSlot 60 ex_ctx) ex_ctx (ex_behind 2) = Inr (False, ex_behind 2)"
    by (rule attemptBump_blocked_by_straggler [of _ "SCPBallot 5 [9]" "[1]" "ex_prepare [1] 2" 2])
      (simp_all add: ex_behind_def ex_prepare_def statement_counter_def)
  moreover have "case attemptBump (advanceSlot 60 ex_ctx) ex_ctx (ex_behind 5) of
      Inr (True, t) \<Rightarrow> map_option counter (mCurrentBallot t) = Some 9 | _ \<Rightarrow> False" by code_simp
  ultimately show ?thesis by (auto split: sum.splits prod.splits bool.splits)
qed

text \<open>C36: a statement with an invalid value can pass validation: of the values of a statement, in
  their order, the verdict on the last one that is not fully valid decides, so that an
  invalid value followed by one that may be valid is let through.\<close>

theorem validateValues_last_verdict:
  assumes "\<not> is_Nominate (pledges st)"
    and "statementValues (pledges st) = us @ [v] @ ws"
    and "drv_validateValue (mDriver ctx) (mSlotIndex s) v \<noteq> kFullyValidatedValue"
    and "\<And>w. w \<in> set ws \<Longrightarrow> drv_validateValue (mDriver ctx) (mSlotIndex s) w = kFullyValidatedValue"
  shows "validateValues ctx st s = drv_validateValue (mDriver ctx) (mSlotIndex s) v"
proof -
  let ?f = "\<lambda>v res. let tr = drv_validateValue (mDriver ctx) (mSlotIndex s) v in
             if tr \<noteq> kFullyValidatedValue then
               (if tr = kInvalidValue then kInvalidValue else kMaybeValidValue) else res"
  have "fold ?f ws r = r" for r using assms(4) by (induction ws arbitrary: r) auto
  moreover have "?f v r = drv_validateValue (mDriver ctx) (mSlotIndex s) v" for r
    using assms(3) by (cases "drv_validateValue (mDriver ctx) (mSlotIndex s) v") auto
  ultimately show ?thesis using assms(1) unfolding validateValues_def assms(2) by simp
qed

theorem validateValues_last_verdict_witness:
  "\<exists>(ctx :: SCPContext) st. drv_validateValue (mDriver ctx) 7 [1] = kInvalidValue \<and> [1] \<in> set (statementValues (pledges st)) \<and>
     validateValues ctx st (newSlot 7 ex_ctx) = kMaybeValidValue"
proof -
  let ?ctx = "ex_ctx\<lparr>mDriver := (mDriver ex_ctx)\<lparr>drv_validateValue :=
    \<lambda>_ v. if v = [1] then kInvalidValue else kMaybeValidValue\<rparr>\<rparr>"
  let ?st = "\<lparr>nodeID = [2], slotIndex = 7,
    pledges = Prepare [0] (SCPBallot 2 [1]) (Some (SCPBallot 1 [4])) None 0 0\<rparr>"
  have v: "statementValues (pledges ?st) = [[1]] @ [[4]] @ []" by code_simp
  have "validateValues ?ctx ?st (newSlot 7 ex_ctx) = drv_validateValue (mDriver ?ctx) (mSlotIndex (newSlot 7 ex_ctx)) [4]"
    by (rule validateValues_last_verdict [OF _ v]) simp_all
  then show ?thesis using v by (intro exI [of _ ?ctx] exI [of _ ?st]) simp
qed

end
