(* ===== verification/Agreement.thy ===== *)
theory Agreement
  imports Slot_Example
begin

text \<open>
  Agreement of the nodes of a network on one slot. Each well-behaved node runs the slot
  code; whatever the others send, and whatever the network delays or loses, two
  well-behaved nodes never externalize different values, provided any two quorums share a
  well-behaved node.

  The argument: a node externalizes only with a quorum of recorded statements that accept a
  commit of its value (\<open>Ballot_Safety\<close>), a statement recorded from a well-behaved node was
  sent by it, and what a node states about its commits stays true of it.
\<close>

section \<open>Statements and the states they describe\<close>

text \<open>The value a statement says its sender has accepted to commit.\<close>

fun commit_claim :: "SCPPledges \<Rightarrow> Value option" where
  "commit_claim (Confirm b _ _ _ _) = Some (value b)"
| "commit_claim (Externalize c _ _) = Some (value c)"
| "commit_claim _ = None"

fun final_claim :: "SCPPledges \<Rightarrow> bool" where
  "final_claim (Externalize _ _ _) = True"
| "final_claim _ = False"

text \<open>A slot backs a statement if what the statement claims is true of it.\<close>

definition backed :: "Hash \<Rightarrow> Slot \<Rightarrow> SCPPledges \<Rightarrow> bool" where
  "backed qh s pl \<longleftrightarrow>
     getCompanionQuorumSetHashFromStatement pl = qh \<and>
     (commit_claim pl \<noteq> None \<longrightarrow> committed s = commit_claim pl) \<and>
     (final_claim pl \<longrightarrow> mPhase s = SCP_PHASE_EXTERNALIZE)"

lemma createStatement_backed:
  "createStatement ctx s = Inr pl \<Longrightarrow> backed (getQuorumSetHash ctx) s pl"
  by (auto simp: createStatement_def backed_def committed_def invariants_hold_def result_simps
      split: SCPPhase.splits option.splits)

lemma own_envelope_backed:
  "own_envelope ctx s env \<Longrightarrow> backed (getQuorumSetHash ctx) s (pledges (statement env))"
  by (auto simp: own_envelope_def dest: createStatement_backed)

lemma backed_progress: "backed qh s pl \<Longrightarrow> progress s t \<Longrightarrow> backed qh t pl"
  by (auto simp: backed_def progress_def ballots_same_def)

lemma commitPredicate_claim: "commitPredicate c i pl \<Longrightarrow> commit_claim pl = Some (value c)"
  by (cases pl) (auto simp: ballot_order)

section \<open>Where statements come from\<close>

abbreviation sruns_from :: "'a SCPContext_scheme \<Rightarrow> Slot \<Rightarrow> Slot \<Rightarrow> bool" where
  "sruns_from ctx \<equiv> (sprim ctx)\<^sup>*\<^sup>*"

lemma runs_sruns_from: "runs_from ctx s t \<Longrightarrow> sruns_from ctx s t"
  by (erule mono_rtranclp [rule_format, rotated]) (simp add: sprim_def)

lemma sruns_from_progress:
  "sruns_from ctx s t \<Longrightarrow> invariants_hold s \<Longrightarrow> invariants_hold t \<and> progress s t"
  by (induction rule: rtranclp_induct) (auto intro: invariants_hold_prim progress_prim progress_trans)

text \<open>The node has stated its position in some state before \<open>t\<close>.\<close>

definition stated :: "'a SCPContext_scheme \<Rightarrow> Slot \<Rightarrow> SCPPledges \<Rightarrow> bool" where
  "stated ctx t pl \<longleftrightarrow>
     (\<exists>r env. own_envelope ctx r env \<and> pl = pledges (statement env) \<and> progress r t)"

lemma stated_backed: "stated ctx t pl \<Longrightarrow> backed (getQuorumSetHash ctx) t pl"
  by (auto simp: stated_def intro: backed_progress own_envelope_backed)

lemma stated_progress: "stated ctx s pl \<Longrightarrow> progress s t \<Longrightarrow> stated ctx t pl"
  by (auto simp: stated_def intro: progress_trans)

lemma own_stated: "own_envelope ctx s env \<Longrightarrow> progress s t \<Longrightarrow> stated ctx t (pledges (statement env))"
  by (auto simp: stated_def)

lemma externalizes_cases:
  assumes "externalizes ctx s t"
  obtains u env where "quiet s u" "own_envelope ctx u env" "progress u t"
    "mLatestEnvelopes t = mLatestEnvelopes u \<or>
     mLatestEnvelopes t = map_put (nodeID (statement env)) env (mLatestEnvelopes u)"
    "sent t = sent u \<and> mLastEnvelope t = mLastEnvelope u \<or>
     (\<exists>p. mLastEnvelope t = Some (p, env)) \<and> set (sent t) \<subseteq> insert (pledges (statement env)) (set (sent u))"
proof -
  obtain c h u v where u: "quiet s u" "emitted_own ctx u v"
    and t: "t = driverCall (ValueExternalized (value c)) (stopNomination v)"
    using assms by (auto simp: externalizes_def)
  obtain env where env: "own_envelope ctx u env" "v = u \<or> v = recorded ctx env u \<or>
      v = sendLatestEnvelope (newLast env (recorded ctx env u))"
    using u(2) by (auto simp: emitted_own_def)
  have same: "sent t = sent v" "mLastEnvelope t = mLastEnvelope v" "mLatestEnvelopes t = mLatestEnvelopes v"
    by (simp_all add: t sent_def stopNomination_def)
  have "ballots_same u t"
    using emitted_own_frame [OF u(2)] by (simp add: ballots_same_def t stopNomination_def)
  then have "progress u t" by (simp add: progress_def committed_def ballots_same_def)
  moreover have "set (sent (sendLatestEnvelope (newLast env (recorded ctx env u)))) \<subseteq>
      insert (pledges (statement env)) (set (sent u))"
    by (auto simp: sendLatestEnvelope_def sent_def split: if_splits)
  ultimately show thesis
    using env u(1) same by (intro that [of u env]) auto
qed

text \<open>The statements a slot has sent or keeps to send next.\<close>

definition outgoing :: "Slot \<Rightarrow> SCPPledges set" where
  "outgoing s = set (sent s) \<union> (\<lambda>(_, e). pledges (statement e)) ` set_option (mLastEnvelope s)"

lemma outgoing_send: "outgoing (sendLatestEnvelope s) \<subseteq> outgoing s"
  by (auto simp: outgoing_def sendLatestEnvelope_def sent_def split: option.splits if_splits)

lemma outgoing_prim:
  assumes "sprim ctx s t" and "invariants_hold s" and "pl \<in> outgoing t"
  shows "pl \<in> outgoing s \<or> stated ctx t pl"
proof -
  note st = progress_prim [OF assms(2,1)]
  consider "quiet s t" | "t = sendLatestEnvelope s" | env where "t = recorded ctx env s"
    | env r where "own_envelope ctx r env" "runs_from ctx r s" "t = newLast env s"
    | "externalizes ctx s t"
    using sprim_calls [OF assms(1)] by blast
  then show ?thesis
  proof cases
    case 1
    then have "sent t = sent s" "mLastEnvelope t = mLastEnvelope s"
      by (simp_all add: quiet_sent) (simp add: quiet_def)
    then show ?thesis using assms(3) by (simp add: outgoing_def)
  next
    case 2
    then show ?thesis using assms(3) outgoing_send by auto
  next
    case (3 env)
    then show ?thesis using assms(3) by (simp add: outgoing_def)
  next
    case (4 env r)
    have "progress r s"
      using sruns_from_progress [OF runs_sruns_from [OF 4(2)]] own_envelope_frame(4) [OF 4(1)] by blast
    with st have "stated ctx t (pledges (statement env))"
      by (intro own_stated [OF 4(1)]) (rule progress_trans)
    then show ?thesis using assms(3) 4(3) by (auto simp: outgoing_def)
  next
    case 5
    then show ?thesis
    proof (cases rule: externalizes_cases)
      case (1 u env)
      have "stated ctx t (pledges (statement env))" by (rule own_stated [OF 1(2,3)])
      moreover have "sent u = sent s" "mLastEnvelope u = mLastEnvelope s"
        using 1(1) by (auto simp: quiet_sent) (simp add: quiet_def)
      ultimately show ?thesis using assms(3) 1(5) by (auto simp: outgoing_def)
    qed
  qed
qed

text \<open>A recorded envelope is an earlier one, one the driver has verified, or the node's own.\<close>

lemma records_prim_origin:
  assumes "sprim ctx s t" and "invariants_hold s" and "map_of (mLatestEnvelopes t) n = Some e"
  shows "map_of (mLatestEnvelopes s) n = Some e \<or>
    nodeID (statement e) = n \<and> \<not> is_Nominate (pledges (statement e)) \<and>
      (drv_verifyEnvelope (mDriver ctx) e \<or>
       n = getLocalNodeID ctx \<and> stated ctx t (pledges (statement e)))"
proof -
  note st = progress_prim [OF assms(2,1)]
  consider "mLatestEnvelopes t = mLatestEnvelopes s"
    | env self where "recordable ctx env self s" "admitted ctx env self s" "t = recorded ctx env s"
    | "externalizes ctx s t"
    using sprim_calls [OF assms(1)] by (auto simp: quiet_def)
  then show ?thesis
  proof cases
    case (2 env self)
    have "sane_pledges (pledges (statement env))"
      using 2(1) by (auto simp: recordable_def Let_def dest: isStatementSane_pledges)
    then have "\<not> is_Nominate (pledges (statement env))"
      by (cases "pledges (statement env)") (auto simp: sane_pledges_def)
    moreover have "drv_verifyEnvelope (mDriver ctx) env \<or>
        nodeID (statement env) = getLocalNodeID ctx \<and> stated ctx t (pledges (statement env))"
      using 2(2) own_stated [OF _ st] own_envelope_frame(2) [of ctx s env]
      by (auto simp: admitted_def split: if_splits)
    ultimately show ?thesis using assms(3) 2(3) by (auto split: if_splits)
  next
    case 3
    then show ?thesis
    proof (cases rule: externalizes_cases)
      case (1 u env)
      have "stated ctx t (pledges (statement env))" by (rule own_stated [OF 1(2,3)])
      moreover have "mLatestEnvelopes u = mLatestEnvelopes s" using 1(1) by (simp add: quiet_def)
      ultimately show ?thesis
        using assms(3) 1(4) own_envelope_frame [OF 1(2)] by (auto split: if_splits)
    qed
  qed (use assms(3) in simp)
qed

text \<open>Over a run, with \<open>A\<close> the statements that may be verified as the node's own.\<close>

lemma outgoing_runs:
  assumes "sruns_from ctx s t" and "invariants_hold s" and "pl \<in> outgoing t"
  shows "pl \<in> outgoing s \<or> stated ctx t pl"
  using assms
proof (induction arbitrary: pl rule: rtranclp_induct)
  case (step u t)
  have inv: "invariants_hold u" using sruns_from_progress [OF step.hyps(1) step.prems(1)] by simp
  have "pl \<in> outgoing u \<or> stated ctx t pl" by (rule outgoing_prim [OF step.hyps(2) inv step.prems(2)])
  then show ?case
    using step.IH step.prems(1) stated_progress [OF _ progress_prim [OF inv step.hyps(2)]] by blast
qed simp

lemma records_runs_origin:
  assumes "sruns_from ctx s t" and "invariants_hold s" and "map_of (mLatestEnvelopes t) n = Some e"
  shows "map_of (mLatestEnvelopes s) n = Some e \<or>
    nodeID (statement e) = n \<and> \<not> is_Nominate (pledges (statement e)) \<and>
      (drv_verifyEnvelope (mDriver ctx) e \<or>
       n = getLocalNodeID ctx \<and> stated ctx t (pledges (statement e)))"
  using assms
proof (induction arbitrary: e rule: rtranclp_induct)
  case (step u t)
  have inv: "invariants_hold u" using sruns_from_progress [OF step.hyps(1) step.prems(1)] by simp
  note st = stated_progress [OF _ progress_prim [OF inv step.hyps(2)]]
  show ?case
    using records_prim_origin [OF step.hyps(2) inv step.prems(2)] step.IH step.prems(1) st by blast
qed simp

section \<open>Networks\<close>

text \<open>A network has the well-behaved nodes \<open>H\<close>, whose quorum sets are \<open>S\<close>, and \<open>hash\<close>
  identifies quorum sets; a state gives the slot of every well-behaved node. Nothing is
  assumed of other nodes.

  A call at a well-behaved node uses its identity and quorum set. Its driver verifies an
  envelope in the name of a well-behaved node only if that node has sent the statement
  (signatures are not forged), and finds under the hash of a well-behaved node's quorum
  set no other one.\<close>

type_synonym network = "NodeID \<Rightarrow> Slot"

definition call_context ::
  "NodeID set \<Rightarrow> (NodeID \<Rightarrow> SCPQuorumSet) \<Rightarrow> (SCPQuorumSet \<Rightarrow> Hash) \<Rightarrow> network \<Rightarrow> NodeID \<Rightarrow>
   SCPContext \<Rightarrow> bool" where
  "call_context H S hash net a ctx \<longleftrightarrow>
     getLocalNodeID ctx = a \<and> getQuorumSet ctx = S a \<and> getQuorumSetHash ctx = hash (S a) \<and>
     small_qsets ctx \<and>
     (\<forall>e. drv_verifyEnvelope (mDriver ctx) e \<longrightarrow> nodeID (statement e) \<in> H \<longrightarrow>
        \<not> is_Nominate (pledges (statement e)) \<longrightarrow>
        pledges (statement e) \<in> set (sent (net (nodeID (statement e))))) \<and>
     (\<forall>n \<in> H. \<forall>q. drv_getQSet (mDriver ctx) (hash (S n)) = Some q \<longrightarrow> q = S n)"

inductive network_step ::
  "NodeID set \<Rightarrow> (NodeID \<Rightarrow> SCPQuorumSet) \<Rightarrow> (SCPQuorumSet \<Rightarrow> Hash) \<Rightarrow> network \<Rightarrow> network \<Rightarrow> bool"
  for H S hash where
  call: "a \<in> H \<Longrightarrow> call_context H S hash net a ctx \<Longrightarrow> slot_call ctx (net a) t \<Longrightarrow>
    network_step H S hash net (net(a := t))"

definition network_runs ::
  "NodeID set \<Rightarrow> (NodeID \<Rightarrow> SCPQuorumSet) \<Rightarrow> (SCPQuorumSet \<Rightarrow> Hash) \<Rightarrow> uint64 \<Rightarrow> network \<Rightarrow> bool" where
  "network_runs H S hash i net \<longleftrightarrow>
     (\<exists>net0. (\<forall>n. \<exists>ctx. net0 n = newSlot i (ctx :: SCPContext)) \<and> (network_step H S hash)\<^sup>*\<^sup>* net0 net)"

text \<open>A quorum as far as the well-behaved nodes are concerned, and a set that supports a value.\<close>

definition honest_quorum :: "NodeID set \<Rightarrow> (NodeID \<Rightarrow> SCPQuorumSet) \<Rightarrow> NodeID set \<Rightarrow> bool" where
  "honest_quorum H S U \<longleftrightarrow> (\<forall>n \<in> U \<inter> H. sat (S n) U)"

definition supports ::
  "NodeID set \<Rightarrow> (NodeID \<Rightarrow> SCPQuorumSet) \<Rightarrow> network \<Rightarrow> Value \<Rightarrow> NodeID set \<Rightarrow> bool" where
  "supports H S net v U \<longleftrightarrow> honest_quorum H S U \<and> (\<forall>n \<in> U \<inter> H. committed (net n) = Some v)"

definition network_inv ::
  "NodeID set \<Rightarrow> (NodeID \<Rightarrow> SCPQuorumSet) \<Rightarrow> (SCPQuorumSet \<Rightarrow> Hash) \<Rightarrow> network \<Rightarrow> bool" where
  "network_inv H S hash net \<longleftrightarrow>
     (\<forall>n \<in> H. ballot_inv (net n) \<and> (\<forall>pl \<in> outgoing (net n). backed (hash (S n)) (net n) pl)) \<and>
     (\<forall>a \<in> H. \<forall>n \<in> H. \<forall>e. map_of (mLatestEnvelopes (net a)) n = Some e \<longrightarrow>
        backed (hash (S n)) (net n) (pledges (statement e))) \<and>
     (\<forall>a \<in> H. mPhase (net a) = SCP_PHASE_EXTERNALIZE \<longrightarrow>
        (\<exists>v U. committed (net a) = Some v \<and> supports H S net v U \<and> sat (S a) U))"

lemma honest_quorum_Un:
  "honest_quorum H S U \<Longrightarrow> honest_quorum H S V \<Longrightarrow> honest_quorum H S (U \<union> V)"
  unfolding honest_quorum_def by (auto intro: sat_mono)

lemma supports_Union:
  assumes "\<And>n. n \<in> Q \<Longrightarrow> supports H S net v (F n)"
  shows "supports H S net v (\<Union>n \<in> Q. F n)"
  using assms unfolding supports_def honest_quorum_def by (blast intro: sat_mono)

lemma supports_progress:
  assumes "supports H S net v U" and "\<And>n. n \<in> H \<Longrightarrow> progress (net n) (net' n)"
  shows "supports H S net' v U"
  using assms unfolding supports_def by (auto simp: progress_def)

lemma sruns_from_records: "sruns_from ctx s t \<Longrightarrow> envelopes_wf s \<Longrightarrow> envelopes_wf t"
  by (induction rule: rtranclp_induct) (auto dest: records_prim)

text \<open>During a call at \<open>a\<close>, what is recorded from a well-behaved node is backed by its slot.\<close>

lemma records_backed:
  assumes "network_inv H S hash net" and "a \<in> H" and "call_context H S hash net a ctx"
    and "sruns_from ctx (net a) u" and "n \<in> H" and "map_of (mLatestEnvelopes u) n = Some e"
  shows "backed (hash (S n)) ((net(a := u)) n) (pledges (statement e))"
proof -
  have inv: "invariants_hold (net a)" using assms(1,2) by (auto simp: network_inv_def ballot_inv_def)
  have up: "backed (hash (S n)) (net n) pl \<Longrightarrow> backed (hash (S n)) ((net(a := u)) n) pl" for pl
    using backed_progress sruns_from_progress [OF assms(4) inv] by (cases "n = a") auto
  consider "map_of (mLatestEnvelopes (net a)) n = Some e"
    | "nodeID (statement e) = n" "\<not> is_Nominate (pledges (statement e))" "drv_verifyEnvelope (mDriver ctx) e"
    | "n = a" "stated ctx u (pledges (statement e))"
    using records_runs_origin [OF assms(4) inv assms(6)] assms(3) by (auto simp: call_context_def)
  then show ?thesis
  proof cases
    case 1
    then have "backed (hash (S n)) (net n) (pledges (statement e))"
      using assms(1,2,5) by (auto simp: network_inv_def)
    then show ?thesis by (rule up)
  next
    case 2
    then have "pledges (statement e) \<in> outgoing (net n)"
      using assms(3,5) by (auto simp: call_context_def outgoing_def)
    then have "backed (hash (S n)) (net n) (pledges (statement e))"
      using assms(1,5) by (auto simp: network_inv_def)
    then show ?thesis by (rule up)
  next
    case 3
    then show ?thesis using stated_backed [OF 3(2)] assms(3) by (auto simp: call_context_def)
  qed
qed

lemma call_progress:
  assumes "network_inv H S hash net" and "a \<in> H" and "slot_call ctx (net a) t" and "n \<in> H"
  shows "progress (net n) ((net(a := t)) n)"
proof (cases "n = a")
  case True
  have "invariants_hold (net a)" using assms(1,2) by (auto simp: network_inv_def ballot_inv_def)
  then show ?thesis using sruns_progress [OF slot_call_sruns [OF assms(3)]] True by simp
qed simp

lemma supports_call:
  assumes "network_inv H S hash net" and "a \<in> H" and "slot_call ctx (net a) t" and "supports H S net v U"
  shows "supports H S (net(a := t)) v U"
  by (rule supports_progress [OF assms(4)]) (rule call_progress [OF assms(1-3)])

lemma network_inv_externalized:
  assumes "network_inv H S hash net" and "a \<in> H" and "mPhase (net a) = SCP_PHASE_EXTERNALIZE"
  obtains v U where "committed (net a) = Some v" "supports H S net v U" "sat (S a) U"
  using assms unfolding network_inv_def by blast

text \<open>A well-behaved node whose recorded statement accepts the commit has accepted it, and it
  has a slice in the quorum, or in the set behind its own externalization.\<close>

lemma member_supported:
  assumes "network_inv H S hash net" and "a \<in> H" and "call_context H S hash net a ctx"
    and "slot_call ctx (net a) t" and "sruns_from ctx (net a) u" and "mPhase u = SCP_PHASE_CONFIRM"
    and "committed t = Some (value c)" and "n \<in> H" and "map_of (mLatestEnvelopes u) n = Some e"
    and "commitPredicate c i (pledges (statement e))"
    and "getQuorumSetFromStatement ctx (statement e) = Some q" and "sat q Q"
  shows "committed ((net(a := t)) n) = Some (value c) \<and>
    (\<exists>U. supports H S (net(a := t)) (value c) U \<and> sat (S n) (Q \<union> U))"
proof -
  note b = records_backed [OF assms(1-3,5,8,9)]
  have com: "committed ((net(a := t)) n) = Some (value c)"
    using b commitPredicate_claim [OF assms(10)] assms(7) by (auto simp: backed_def)
  have "\<exists>U. supports H S (net(a := t)) (value c) U \<and> sat (S n) (Q \<union> U)"
  proof (cases "final_claim (pledges (statement e))")
    case True
    then have ext: "n \<noteq> a" "mPhase (net n) = SCP_PHASE_EXTERNALIZE"
      using b assms(6) by (auto simp: backed_def split: if_splits)
    then obtain v' U where U: "committed (net n) = Some v'" "supports H S net v' U" "sat (S n) U"
      using network_inv_externalized [OF assms(1,8)] by blast
    have "v' = value c" using com U(1) ext(1) by simp
    with U(2) have "supports H S (net(a := t)) (value c) U"
      by (auto intro: supports_call [OF assms(1,2,4)])
    moreover have "sat (S n) (Q \<union> U)" using U(3) by (rule sat_mono) simp
    ultimately show ?thesis by blast
  next
    case False
    then have "getQuorumSetFromStatement ctx (statement e) =
        drv_getQSet (mDriver ctx) (getCompanionQuorumSetHashFromStatement (pledges (statement e)))"
      using assms(10) by (cases "pledges (statement e)") (auto simp: getQuorumSetFromStatement_def)
    then have "q = S n" using b assms(3,8,11) by (auto simp: backed_def call_context_def)
    then show ?thesis using assms(12)
      by (intro exI [of _ "{}"]) (simp add: supports_def honest_quorum_def)
  qed
  with com show ?thesis by simp
qed

text \<open>A node that externalizes has a set of nodes behind its value.\<close>

lemma externalize_supported:
  assumes "network_inv H S hash net" and "a \<in> H" and "call_context H S hash net a ctx"
    and "slot_call ctx (net a) t" and "mPhase (net a) \<noteq> SCP_PHASE_EXTERNALIZE"
    and "mPhase t = SCP_PHASE_EXTERNALIZE"
  shows "\<exists>v U. committed t = Some v \<and> supports H S (net(a := t)) v U \<and> sat (S a) U"
proof -
  have inv: "invariants_hold (net a)" "envelopes_wf (net a)"
    using assms(1,2) by (auto simp: network_inv_def ballot_inv_def)
  obtain u c h where u: "sruns_from ctx (net a) u" "ratifiesCommit ctx u c h" "mPhase u = SCP_PHASE_CONFIRM"
    and c: "mCommit t = Some c"
    using sruns_externalized [OF slot_call_sruns [OF assms(4)] inv(1) assms(5,6)] by blast
  have ctx: "small_qsets ctx" "getQuorumSet ctx = S a"
    using assms(3) by (simp_all add: call_context_def)
  let ?slice = "node_slice (mLatestEnvelopes u) (getQuorumSetFromStatement ctx)"
  obtain Q where Q: "is_quorum ?slice Q" "sat (S a) Q" "\<forall>n \<in> Q. \<exists>e. (n, e) \<in> set (mLatestEnvelopes u) \<and>
      commitPredicate c (counter c, counter h) (pledges (statement e))"
    using u(2) unfolding federatedRatify_quorum [OF ctx(1)] ctx(2) by blast
  have dist: "distinct (map fst (mLatestEnvelopes u))"
    using sruns_from_records [OF u(1) inv(2)] by (simp add: envelopes_wf_def map_wf_distinct)
  have v: "committed t = Some (value c)" using c assms(6) by (simp add: committed_def)
  have member: "committed ((net(a := t)) n) = Some (value c) \<and>
      (\<exists>U. supports H S (net(a := t)) (value c) U \<and> sat (S n) (Q \<union> U))" if n: "n \<in> Q" "n \<in> H" for n
  proof -
    obtain e where e: "map_of (mLatestEnvelopes u) n = Some e"
      "commitPredicate c (counter c, counter h) (pledges (statement e))"
      using Q(3) n(1) dist by fastforce
    moreover obtain q where "getQuorumSetFromStatement ctx (statement e) = Some q" "sat q Q"
      using Q(1) n(1) e(1) by (auto simp: is_quorum_def node_slice_def)
    ultimately show ?thesis using n(2) by (intro member_supported [OF assms(1-4) u(1,3) v])
  qed
  then obtain F where F: "\<And>n. n \<in> Q \<inter> H \<Longrightarrow> supports H S (net(a := t)) (value c) (F n) \<and> sat (S n) (Q \<union> F n)"
    by (metis IntE)
  define W where "W = (\<Union>n \<in> Q \<inter> H. F n)"
  have W: "supports H S (net(a := t)) (value c) W" unfolding W_def by (rule supports_Union) (use F in blast)
  have "sat (S n) (Q \<union> W)" if "n \<in> Q" "n \<in> H" for n
  proof (rule sat_mono)
    show "sat (S n) (Q \<union> F n)" using F [of n] that by simp
    show "Q \<union> F n \<subseteq> Q \<union> W" using that by (auto simp: W_def)
  qed
  then have "supports H S (net(a := t)) (value c) (Q \<union> W)"
    using W member unfolding supports_def honest_quorum_def by (blast intro: sat_mono)
  moreover have "sat (S a) (Q \<union> W)" using Q(2) by (rule sat_mono) simp
  ultimately show ?thesis using v by blast
qed

section \<open>Agreement\<close>

lemma network_inv_step:
  assumes "network_inv H S hash net" and "network_step H S hash net net'"
  shows "network_inv H S hash net'"
  using assms(2)
proof cases
  case (call a ctx t)
  have inv: "ballot_inv (net a)" "invariants_hold (net a)"
    using assms(1) call(2) by (auto simp: network_inv_def ballot_inv_def)
  have run: "sruns_from ctx (net a) t" using slot_call_sruns [OF call(4)] by (simp add: sruns_def)
  note prog = call_progress [OF assms(1) call(2,4)]
  have hash: "getQuorumSetHash ctx = hash (S a)" using call(3) by (simp add: call_context_def)
  have 1: "ballot_inv (net' n) \<and> (\<forall>pl \<in> outgoing (net' n). backed (hash (S n)) (net' n) pl)" if "n \<in> H" for n
  proof (cases "n = a")
    case True
    have "backed (hash (S a)) t pl" if "pl \<in> outgoing t" for pl
      using outgoing_runs [OF run inv(2) that] stated_backed [of ctx t pl] assms(1) call(2) prog [of a]
      unfolding hash by (auto simp: network_inv_def intro: backed_progress)
    then show ?thesis
      using True sruns_ballot_inv [OF slot_call_sruns [OF call(4)] inv(1)] by (simp add: call(1))
  next
    case False
    then show ?thesis using assms(1) that by (simp add: call(1) network_inv_def)
  qed
  have 2: "backed (hash (S n)) (net' n) (pledges (statement e))"
    if "b \<in> H" "n \<in> H" "map_of (mLatestEnvelopes (net' b)) n = Some e" for b n e
  proof (cases "b = a")
    case True
    then show ?thesis using records_backed [OF assms(1) call(2,3) run that(2)] that(3) by (simp add: call(1))
  next
    case False
    then have "backed (hash (S n)) (net n) (pledges (statement e))"
      using assms(1) that by (auto simp: call(1) network_inv_def)
    then show ?thesis using prog [OF that(2)] by (simp add: call(1) backed_progress del: fun_upd_apply)
  qed
  have 3: "\<exists>v U. committed (net' b) = Some v \<and> supports H S net' v U \<and> sat (S b) U"
    if b: "b \<in> H" "mPhase (net' b) = SCP_PHASE_EXTERNALIZE" for b
  proof (cases "mPhase (net b) = SCP_PHASE_EXTERNALIZE")
    case True
    then obtain v U where "committed (net b) = Some v" "supports H S net v U" "sat (S b) U"
      using network_inv_externalized [OF assms(1) b(1)] by blast
    moreover have "committed (net' b) = Some v"
      using prog [OF b(1)] \<open>committed (net b) = Some v\<close> by (simp add: call(1) progress_def)
    ultimately show ?thesis using supports_call [OF assms(1) call(2,4)] unfolding call(1) by blast
  next
    case False
    then have "b = a" using b(2) by (auto simp: call(1) split: if_splits)
    then show ?thesis
      using externalize_supported [OF assms(1) call(2-4)] False b(2) by (simp add: call(1))
  qed
  show ?thesis unfolding network_inv_def using 1 2 3 by blast
qed

lemma network_inv_runs: "network_runs H S hash i net \<Longrightarrow> network_inv H S hash net"
proof -
  have new: "network_inv H S hash net0" if "\<And>n. \<exists>ctx. net0 n = newSlot i (ctx :: SCPContext)" for net0
  proof -
    have "ballot_inv (net0 n) \<and> outgoing (net0 n) = {} \<and> mLatestEnvelopes (net0 n) = [] \<and>
        mPhase (net0 n) = SCP_PHASE_PREPARE" for n
      using that [of n] by (auto simp: ballot_inv_newSlot) (auto simp: outgoing_def sent_def newSlot_def)
    then show ?thesis by (simp add: network_inv_def)
  qed
  assume "network_runs H S hash i net"
  then obtain net0 where "\<And>n. \<exists>ctx. net0 n = newSlot i (ctx :: SCPContext)"
    "(network_step H S hash)\<^sup>*\<^sup>* net0 net" by (auto simp: network_runs_def)
  from this(2) new [OF this(1)] show ?thesis
    by (induction rule: rtranclp_induct) (auto intro: network_inv_step)
qed

text \<open>C1: agreement. If any two quorums of the network that contain well-behaved nodes share one, then
  any two values that well-behaved nodes announce as externalized for the slot are equal,
  in every state the network reaches.\<close>

theorem agreement:
  assumes "network_runs H S hash i net"
    and "\<And>U V. honest_quorum H S U \<Longrightarrow> honest_quorum H S V \<Longrightarrow> U \<inter> H \<noteq> {} \<Longrightarrow> V \<inter> H \<noteq> {} \<Longrightarrow>
      U \<inter> V \<inter> H \<noteq> {}"
    and "a \<in> H" and "b \<in> H" and "v \<in> set (announced (net a))" and "w \<in> set (announced (net b))"
  shows "v = w"
proof -
  note inv = network_inv_runs [OF assms(1)]
  have backing: "\<exists>U. supports H S net v (insert a U)" if a: "a \<in> H" "v \<in> set (announced (net a))" for a v
  proof -
    have "announced_wf (net a)" using inv a(1) by (auto simp: network_inv_def ballot_inv_def)
    then have ext: "mPhase (net a) = SCP_PHASE_EXTERNALIZE" "committed (net a) = Some v"
      using a(2) by (auto simp: announced_wf_def committed_def)
    then obtain U where "supports H S net v U" "sat (S a) U"
      using network_inv_externalized [OF inv a(1)] by (metis option.inject)
    then show ?thesis
      using ext(2) by (intro exI [of _ U]) (auto simp: supports_def honest_quorum_def intro: sat_mono)
  qed
  obtain U V where U: "supports H S net v (insert a U)" and V: "supports H S net w (insert b V)"
    using backing [OF assms(3,5)] backing [OF assms(4,6)] by blast
  then obtain n where "n \<in> insert a U \<inter> insert b V \<inter> H"
    using assms(2) [of "insert a U" "insert b V"] assms(3,4) by (auto simp: supports_def)
  then have "committed (net n) = Some v" "committed (net n) = Some w" using U V unfolding supports_def by blast+
  then show ?thesis by simp
qed

text \<open>A network of two nodes that need each other. They vote for the same value and exchange what
  they have last sent, in turn, until both have externalized.\<close>

definition duo_qset :: SCPQuorumSet where
  "duo_qset = SCPQuorumSet 2 [[1], [2]] []"

definition duo_ctx :: "NodeID \<Rightarrow> (SCPEnvelope \<Rightarrow> bool) \<Rightarrow> SCPContext" where
  "duo_ctx a verified = ex_ctx\<lparr>
     mDriver := (mDriver ex_ctx)\<lparr>drv_getQSet := \<lambda>_. Some duo_qset, drv_verifyEnvelope := verified\<rparr>,
     mLocalNode := \<lparr>mNodeID = a, mIsValidator = True, mQSet = duo_qset, mQSetHash = [0]\<rparr>\<rparr>"

definition duo_env :: "NodeID \<Rightarrow> Slot \<Rightarrow> SCPEnvelope" where
  "duo_env b s = \<lparr>statement = \<lparr>nodeID = b, slotIndex = 7, pledges = last (sent s)\<rparr>, signature = []\<rparr>"

definition duo_new :: Slot where
  "duo_new = newSlot 7 (duo_ctx [1] (\<lambda>_. False))"

definition duo_start :: "NodeID \<Rightarrow> Slot" where
  "duo_start a =
     (case slotBumpState 60 (duo_ctx a (\<lambda>_. False)) [9] True duo_new of Inr (_, s) \<Rightarrow> s | Inl _ \<Rightarrow> duo_new)"

definition duo_deliver :: "NodeID \<Rightarrow> Slot \<Rightarrow> NodeID \<Rightarrow> Slot \<Rightarrow> Slot" where
  "duo_deliver b from a s =
     (if sent from = [] then s
      else let env = duo_env b from in
        case slotProcessEnvelope 60 (duo_ctx a (\<lambda>e. e = env)) env False s of Inr (_, t) \<Rightarrow> t | Inl _ \<Rightarrow> s)"

fun duo_exchange :: "nat \<Rightarrow> Slot \<times> Slot \<Rightarrow> Slot \<times> Slot" where
  "duo_exchange 0 p = p"
| "duo_exchange (Suc k) (s, t) =
     (let s = duo_deliver [2] t [1] s; t = duo_deliver [1] s [2] t in duo_exchange k (s, t))"

definition duo_net :: "Slot \<times> Slot \<Rightarrow> network" where
  "duo_net p n = (if n = [1] then fst p else if n = [2] then snd p else duo_new)"

abbreviation duo_runs :: "network \<Rightarrow> network \<Rightarrow> bool" where
  "duo_runs \<equiv> (network_step {[1], [2]} (\<lambda>_. duo_qset) (\<lambda>_. [0]))\<^sup>*\<^sup>*"

lemma duo_context:
  assumes "\<And>e. verified e \<Longrightarrow> pledges (statement e) \<in> set (sent (net (nodeID (statement e))))"
  shows "call_context {[1], [2]} (\<lambda>_. duo_qset) (\<lambda>_. [0]) net a (duo_ctx a verified)"
  using assms
  by (simp add: call_context_def duo_ctx_def duo_qset_def ex_ctx_def small_qsets_def getLocalNodeID_def
      getQuorumSet_def getQuorumSetHash_def)

lemma duo_step:
  assumes "a \<in> {[1], [2]}" and "slot_call (duo_ctx a verified) (net a) s"
    and "\<And>e. verified e \<Longrightarrow> pledges (statement e) \<in> set (sent (net (nodeID (statement e))))"
  shows "duo_runs net (net(a := s))"
  using network_step.call [OF assms(1) duo_context [of verified net a] assms(2)] assms(3) by blast

lemma duo_deliver_step:
  assumes "a \<in> {[1], [2]}" and "from = net b"
  shows "duo_runs net (net(a := duo_deliver b from a (net a)))"
proof (cases "sent from = [] \<or> (\<exists>err. slotProcessEnvelope 60 (duo_ctx a (\<lambda>e. e = duo_env b from))
    (duo_env b from) False (net a) = Inl err)")
  case True
  then show ?thesis by (auto simp: duo_deliver_def Let_def)
next
  case False
  then obtain r t where t: "slotProcessEnvelope 60 (duo_ctx a (\<lambda>e. e = duo_env b from))
      (duo_env b from) False (net a) = Inr (r, t)"
    by (metis old.sum.exhaust surj_pair)
  have "duo_runs net (net(a := t))"
  proof (rule duo_step [OF assms(1)])
    show "slot_call (duo_ctx a (\<lambda>e. e = duo_env b from)) (net a) t"
      by (rule slot_call.envelope [OF _ t]) (simp add: duo_ctx_def)
  qed (use False assms(2) in \<open>auto simp: duo_env_def\<close>)
  then show ?thesis using False t by (simp add: duo_deliver_def Let_def)
qed

lemma duo_exchange_runs: "duo_runs (duo_net p) (duo_net (duo_exchange k p))"
proof (induction k p rule: duo_exchange.induct)
  case (2 k s t)
  define s' t' where "s' = duo_deliver [2] t [1] s" and "t' = duo_deliver [1] s' [2] t"
  have "duo_runs (duo_net (s, t)) ((duo_net (s, t))([1] := s'))"
    unfolding s'_def using duo_deliver_step [of "[1]" t "duo_net (s, t)" "[2]"] by (simp add: duo_net_def)
  moreover have "(duo_net (s, t))([1] := s') = duo_net (s', t)" by (auto simp: duo_net_def)
  moreover have "duo_runs (duo_net (s', t)) ((duo_net (s', t))([2] := t'))"
    unfolding t'_def using duo_deliver_step [of "[2]" s' "duo_net (s', t)" "[1]"] by (simp add: duo_net_def)
  moreover have "(duo_net (s', t))([2] := t') = duo_net (s', t')" by (auto simp: duo_net_def)
  ultimately have "duo_runs (duo_net (s, t)) (duo_net (s', t'))" by simp
  with 2 [OF refl refl, folded s'_def t'_def] show ?case by (simp flip: s'_def t'_def)
qed simp

lemma duo_start_step:
  assumes "a \<in> {[1], [2]}" and "net a = duo_new"
  shows "duo_runs net (net(a := duo_start a))"
proof (cases "slotBumpState 60 (duo_ctx a (\<lambda>_. False)) [9] True duo_new")
  case (Inl err)
  then show ?thesis using assms(2) by (simp add: duo_start_def fun_upd_idem)
next
  case (Inr r)
  then obtain w s where "slotBumpState 60 (duo_ctx a (\<lambda>_. False)) [9] True (net a) = Inr (w, s)"
    using assms(2) by (cases r) auto
  then show ?thesis
    using duo_step [OF assms(1) slot_call.bump] assms(2) by (simp add: duo_start_def)
qed

definition duo_final :: "Slot \<times> Slot" where
  "duo_final = duo_exchange 3 (duo_start [1], duo_start [2])"

lemma duo_network: "network_runs {[1], [2]} (\<lambda>_. duo_qset) (\<lambda>_. [0]) 7 (duo_net duo_final)"
proof -
  let ?n0 = "duo_net (duo_new, duo_new)" and ?n1 = "duo_net (duo_start [1], duo_new)"
    and ?n2 = "duo_net (duo_start [1], duo_start [2])"
  have "?n1 = ?n0([1] := duo_start [1])" "?n2 = ?n1([2] := duo_start [2])" by (auto simp: duo_net_def)
  then have "duo_runs ?n0 ?n2"
    using duo_start_step [of "[1]" ?n0] duo_start_step [of "[2]" ?n1] by (simp add: duo_net_def)
  then have "duo_runs ?n0 (duo_net duo_final)"
    using duo_exchange_runs [of "(duo_start [1], duo_start [2])" 3] by (simp add: duo_final_def)
  moreover have "\<exists>ctx. ?n0 n = newSlot 7 (ctx :: SCPContext)" for n
    by (auto simp: duo_net_def duo_new_def)
  ultimately show ?thesis unfolding network_runs_def by blast
qed

lemma duo_announced: "announced (fst duo_final) = [[9]]" "announced (snd duo_final) = [[9]]"
  by code_simp+

theorem agreement_witness:
  "hd (announced (fst duo_final)) = hd (announced (snd duo_final)) \<and> announced (fst duo_final) = [[9]]"
proof -
  have "hd (announced (fst duo_final)) = hd (announced (snd duo_final))"
  proof (rule agreement [OF duo_network, of "[1]" "[2]"])
    show "hd (announced (fst duo_final)) \<in> set (announced (duo_net duo_final [1]))"
      "hd (announced (snd duo_final)) \<in> set (announced (duo_net duo_final [2]))"
      by (simp_all add: duo_net_def duo_announced)
  qed (auto simp: honest_quorum_def duo_qset_def)
  then show ?thesis by (simp add: duo_announced)
qed

end
