(* ===== verification/Ballot_Termination.thy ===== *)
theory Ballot_Termination
  imports Slot_Example
begin

text \<open>
  The recursion of \<open>advanceSlot\<close> and its loop end: with enough fuel the lack of fuel is
  never the answer, and more fuel never changes an answer. So what is proved for every
  amount of fuel is proved of the program, and processing a ballot statement always returns
  or raises.

  The depth is limited by \<open>MAX_ADVANCE_SLOT_RECURSION\<close>; at the outermost level every turn
  of the loop raises the counter of the current ballot or leaves the first phase.
\<close>

section \<open>The loop that bumps\<close>

definition turns_left :: "Slot \<Rightarrow> nat" where
  "turns_left s =
     (case mPhase s of
        SCP_PHASE_PREPARE \<Rightarrow> 2 ^ 32 + (2 ^ 32 - (case mCurrentBallot s of Some b \<Rightarrow> unat (counter b) | None \<Rightarrow> 0))
      | SCP_PHASE_CONFIRM \<Rightarrow> 2 ^ 32 - (case mCurrentBallot s of Some b \<Rightarrow> unat (counter b) | None \<Rightarrow> 0)
      | SCP_PHASE_EXTERNALIZE \<Rightarrow> 0)"

lemma counter_bound: "unat (counter b) < 2 ^ 32"
  using unsigned_less [of "counter b", where ?'a = nat] by simp

lemma turns_left_bound: "turns_left s \<le> 2 ^ 33"
  by (auto simp: turns_left_def split: SCPPhase.split option.split)

lemma ballot_le_counter: "b \<le> b' \<Longrightarrow> unat (counter b) \<le> unat (counter b')"
  by (auto simp: less_eq_SCPBallot_def word_le_nat_alt word_less_nat_alt)

lemma turns_left_progress:
  assumes "progress s t"
  shows "turns_left t \<le> turns_left s"
proof (cases "mPhase t = mPhase s")
  case True
  then have "rises (mCurrentBallot s) (mCurrentBallot t)" using assms by (simp add: progress_def)
  then have "(case mCurrentBallot s of Some b \<Rightarrow> unat (counter b) | None \<Rightarrow> 0) \<le>
      (case mCurrentBallot t of Some b \<Rightarrow> unat (counter b) | None \<Rightarrow> 0)"
    by (auto simp: rises_def dest: ballot_le_counter split: option.splits)
  then show ?thesis using True by (auto simp: turns_left_def split: SCPPhase.split)
next
  case False
  then have "phase_rank (mPhase s) < phase_rank (mPhase t)"
    using assms phase_rank_inject by (auto simp: progress_def order_less_le)
  then show ?thesis by (cases "mPhase s"; cases "mPhase t") (auto simp: turns_left_def)
qed

lemma bumpStateTo_True:
  assumes "bumpStateTo adv ctx v n s = Inr (True, t)" and "adv_ok ff ctx s adv" and "invariants_hold s"
    and "(case mCurrentBallot s of Some b \<Rightarrow> counter b | None \<Rightarrow> 0) < n"
  shows "turns_left t < turns_left s"
proof -
  have ph: "mPhase s \<noteq> SCP_PHASE_EXTERNALIZE" using assms(1) by (auto simp: bumpStateTo_def)
  let ?b = "SCPBallot n (case mHighBallot s of Some h \<Rightarrow> value h | None \<Rightarrow> v)"
  let ?u = "driverCall (StartedBallotProtocol ?b) (bumped ?b s)"
  have u: "updateCurrentValue ?b s = Inr (True, bumped ?b s)"
    "emitCurrentStateStatement adv ctx ?u = Inr ((), t)"
    using assms(1) ph by (auto simp: bumpStateTo_def Let_def result_simps updateCurrentValue_True split: if_splits)
  have "bprim ctx s ?u"
    by (rule bprim.update [OF u(1)]) auto
  then have run: "runs ctx s ?u" by (rule runs_prim) simp
  then have inv: "invariants_hold ?u"
    using sruns_progress [OF runs_sruns [OF run] assms(3)] by (simp del: invariants_hold_driverCall)
  have "spec ff ctx ?u (emitCurrentStateStatement adv ctx ?u)"
    by (rule spec_emit) (use adv_ok_from [OF assms(2) run] in auto)
  then have "runs ctx ?u t" by (rule spec_runs) (rule u(2))
  then have "progress ?u t" using sruns_progress [OF runs_sruns inv] by blast
  then have "turns_left t \<le> turns_left ?u" by (rule turns_left_progress)
  also have "turns_left ?u < turns_left s"
    using assms(4) ph counter_bound [of "SCPBallot n []"]
    by (cases "mPhase s") (auto simp: turns_left_def word_less_nat_alt split: option.splits)
  finally show ?thesis .
qed

lemma bumpCounterLoop_True:
  assumes "bumpCounterLoop adv ctx target ns s = Inr (True, t)" and "adv_ok ff ctx s adv" and "invariants_hold s"
    and "target = (case mCurrentBallot s of Some b \<Rightarrow> counter b | None \<Rightarrow> 0)"
  shows "turns_left t < turns_left s"
  using assms(1)
proof (induction ns)
  case (Cons n ns)
  show ?case
  proof (cases "target < n \<and> \<not> isVBlockingMap (getQuorumSet ctx) (mLatestEnvelopes s) (\<lambda>st. isAhead n (pledges st))")
    case True
    then have "abandonBallot adv ctx n s = Inr (True, t)" "n \<noteq> 0"
      using Cons.prems by (auto simp: Let_def split: if_splits)
    then have "\<exists>v. bumpStateTo adv ctx v n s = Inr (True, t)"
      by (auto simp: abandonBallot_def Let_def split: if_splits)
    then show ?thesis using bumpStateTo_True [OF _ assms(2,3)] True assms(4) by blast
  next
    case False
    then show ?thesis using Cons by (auto simp: Let_def split: if_splits)
  qed
qed simp

lemma attemptBump_True:
  assumes "attemptBump adv ctx s = Inr (True, t)" and "adv_ok ff ctx s adv" and "invariants_hold s"
  shows "turns_left t < turns_left s"
  using assms(1) bumpCounterLoop_True [OF _ assms(2,3) refl] by (auto simp: attemptBump_def Let_def split: if_splits)

lemma bumpLoop_fuel:
  assumes "adv_ok False ctx s adv" and "invariants_hold s" and "turns_left s < n"
  shows "spec False ctx s (bumpLoop n adv ctx w s)"
  using assms
proof (induction n arbitrary: s w)
  case (Suc n)
  have step: "spec False ctx t (bumpLoop n adv ctx True t)"
    if "attemptBump adv ctx s = Inr (True, t)" "runs ctx s t" for t
  proof (rule Suc.IH)
    show "adv_ok False ctx t adv" by (rule adv_ok_from [OF Suc.prems(1) that(2)])
    show "invariants_hold t" using sruns_progress [OF runs_sruns [OF that(2)] Suc.prems(2)] by simp
    show "turns_left t < n" using attemptBump_True [OF that(1) Suc.prems(1,2)] Suc.prems(3) by simp
  qed
  show ?case
    by (auto intro!: spec_bind [OF spec_attemptBump [OF Suc.prems(1)]] step)
qed simp

section \<open>The depth of the recursion\<close>

lemma advanceSlot_inner_fuel:
  assumes "1 \<le> mCurrentMessageLevel s" and "50 < int n + mCurrentMessageLevel s" and "0 < n"
  shows "spec False ctx s (advanceSlot n ctx hint s)"
  using assms
proof (induction n arbitrary: s hint)
  case (Suc n)
  show ?case
  proof (rule spec_advanceSlot_Suc)
    assume "mCurrentMessageLevel s + 1 < MAX_ADVANCE_SLOT_RECURSION"
    then have n: "0 < n" "50 < int n + (mCurrentMessageLevel s + 1)"
      using Suc.prems by (simp_all add: MAX_ADVANCE_SLOT_RECURSION_def)
    show "adv_ok False ctx (entered ctx s) (advanceSlot n ctx)"
      unfolding adv_ok_def
    proof (intro allI impI)
      fix hint' t
      assume "runs ctx (entered ctx s) t"
      then have "mCurrentMessageLevel t = mCurrentMessageLevel s + 1" by (simp add: runs_def)
      then show "spec False ctx t (advanceSlot n ctx hint' t)" using n Suc.prems(1) by (intro Suc.IH) simp_all
    qed
  next
    fix w t
    assume "runs ctx (entered ctx s) t" "mCurrentMessageLevel t = 1"
    then have False using Suc.prems(1) by (simp add: runs_def)
    then show "spec False ctx t (bumpLoop n (advanceSlot n ctx) ctx w t)" ..
  qed
qed simp

definition enough_fuel :: nat where
  "enough_fuel = 2 ^ 33 + 52"

lemma invariants_hold_entered: "invariants_hold s \<Longrightarrow> invariants_hold (entered ctx s)"
  by (rule ballots_same_invariants [THEN iffD2]) (simp_all add: ballots_same_def entered_def)

lemma advanceSlot_fuel:
  assumes "mCurrentMessageLevel s = 0" and "invariants_hold s" and "enough_fuel \<le> n"
  shows "spec False ctx s (advanceSlot n ctx hint s)"
proof -
  obtain m where m: "n = Suc m" "2 ^ 33 + 51 \<le> m" using assms(3) by (cases n) (auto simp: enough_fuel_def)
  have adv: "adv_ok False ctx t (advanceSlot m ctx)" if "mCurrentMessageLevel t = 1" for t
    using m(2) that by (auto simp: adv_ok_def runs_def intro!: advanceSlot_inner_fuel)
  show ?thesis
    unfolding m(1)
  proof (rule spec_advanceSlot_Suc)
    fix w t
    assume t: "runs ctx (entered ctx s) t" "mCurrentMessageLevel t = 1"
    then have "invariants_hold t"
      using sruns_progress [OF runs_sruns [OF t(1)] invariants_hold_entered [OF assms(2)]] by simp
    then show "spec False ctx t (bumpLoop m (advanceSlot m ctx) ctx w t)"
      using turns_left_bound [of t] m(2) by (intro bumpLoop_fuel adv t(2)) simp_all
  qed (use adv assms(1) in simp)
qed

section \<open>More fuel gives the same answer\<close>

text \<open>\<open>ole r r'\<close>: \<open>r'\<close> is the same answer, unless \<open>r\<close> lacked fuel.\<close>

definition ole :: "'x result \<Rightarrow> 'x result \<Rightarrow> bool" where
  "ole r r' \<longleftrightarrow> r = Inl OutOfFuel \<or> r = r'"

named_theorems ole_rules \<open>operations that keep the order of answers\<close>

lemma ole_refl [simp, intro]: "ole r r"
  by (simp add: ole_def)

lemma ole_trans: "ole a b \<Longrightarrow> ole b c \<Longrightarrow> ole a c"
  by (auto simp: ole_def)

lemma ole_bind [ole_rules]:
  "ole m m' \<Longrightarrow> (\<And>x. ole (f x) (f' x)) \<Longrightarrow> ole (bindE m f) (bindE m' f')"
  unfolding ole_def by (cases m) (auto, metis)

lemma ole_deref [ole_rules]: "(\<And>x. ole (k x) (k' x)) \<Longrightarrow> ole (deref p k) (deref p k')"
  by (cases p) auto

lemma ole_dbgAssert [ole_rules]: "ole k k' \<Longrightarrow> ole (dbgAssert P k) (dbgAssert P k')"
  by (cases P) auto

lemma ole_if [ole_rules]: "ole a a' \<Longrightarrow> ole b b' \<Longrightarrow> ole (if P then a else b) (if P then a' else b')"
  by simp

lemma ole_pair [ole_rules]:
  "(\<And>x y. ole (f x y) (f' x y)) \<Longrightarrow> ole (case p of (x, y) \<Rightarrow> f x y) (case p of (x, y) \<Rightarrow> f' x y)"
  by (cases p) simp

lemma ole_option [ole_rules]:
  "ole a a' \<Longrightarrow> (\<And>x. ole (f x) (f' x)) \<Longrightarrow>
   ole (case p of None \<Rightarrow> a | Some x \<Rightarrow> f x) (case p of None \<Rightarrow> a' | Some x \<Rightarrow> f' x)"
  by (cases p) simp_all

definition adv_le :: "advance \<Rightarrow> advance \<Rightarrow> bool" where
  "adv_le adv adv' \<longleftrightarrow> (\<forall>hint s. ole (adv hint s) (adv' hint s))"

lemma adv_leD: "adv_le adv adv' \<Longrightarrow> ole (adv hint s) (adv' hint s)"
  by (simp add: adv_le_def)

lemma ole_processEnvelope:
  "adv_le adv adv' \<Longrightarrow> ole (processEnvelope adv ctx e self s) (processEnvelope adv' ctx e self s)"
  unfolding processEnvelope_def Let_def by (intro ole_rules ole_refl adv_leD)

lemma ole_emit:
  "adv_le adv adv' \<Longrightarrow> ole (emitCurrentStateStatement adv ctx s) (emitCurrentStateStatement adv' ctx s)"
  unfolding emitCurrentStateStatement_def Let_def by (intro ole_rules ole_refl ole_processEnvelope)

lemma ole_didWork:
  "adv_le adv adv' \<Longrightarrow> ole (didWorkThenEmit adv ctx call w s) (didWorkThenEmit adv' ctx call w s)"
  unfolding didWorkThenEmit_def by (intro ole_rules ole_refl ole_emit)

lemma ole_bumpStateTo:
  "adv_le adv adv' \<Longrightarrow> ole (bumpStateTo adv ctx v n s) (bumpStateTo adv' ctx v n s)"
  unfolding bumpStateTo_def Let_def by (intro ole_rules ole_refl ole_emit)

lemma ole_bumpState:
  "adv_le adv adv' \<Longrightarrow> ole (bumpState adv ctx v force s) (bumpState adv' ctx v force s)"
  unfolding bumpState_def Let_def by (intro ole_rules ole_refl ole_bumpStateTo)

lemma ole_abandonBallot:
  "adv_le adv adv' \<Longrightarrow> ole (abandonBallot adv ctx n s) (abandonBallot adv' ctx n s)"
  unfolding abandonBallot_def Let_def by (intro ole_rules ole_refl ole_bumpStateTo ole_bumpState)

lemma ole_bumpCounterLoop:
  "adv_le adv adv' \<Longrightarrow> ole (bumpCounterLoop adv ctx target ns s) (bumpCounterLoop adv' ctx target ns s)"
proof (induction ns)
  case (Cons n ns)
  then show ?case unfolding bumpCounterLoop.simps Let_def by (intro ole_rules ole_refl ole_abandonBallot)
qed simp

lemma ole_attemptBump:
  "adv_le adv adv' \<Longrightarrow> ole (attemptBump adv ctx s) (attemptBump adv' ctx s)"
  unfolding attemptBump_def Let_def by (intro ole_rules ole_refl ole_bumpCounterLoop)

lemma ole_timerExpired:
  "adv_le adv adv' \<Longrightarrow> ole (ballotProtocolTimerExpired adv ctx s) (ballotProtocolTimerExpired adv' ctx s)"
  unfolding ballotProtocolTimerExpired_def by (intro ole_rules ole_refl ole_abandonBallot)

lemma ole_preparedAcceptLoop:
  "adv_le adv adv' \<Longrightarrow> ole (preparedAcceptLoop adv ctx bs s) (preparedAcceptLoop adv' ctx bs s)"
proof (induction bs)
  case (Cons b bs)
  then show ?case
    unfolding preparedAcceptLoop.simps Let_def setPreparedAccept_def
    by (intro ole_rules ole_refl ole_didWork)
qed simp

lemma ole_attemptSteps:
  "adv_le adv adv' \<Longrightarrow> ole (attemptSteps adv ctx hint s) (attemptSteps adv' ctx hint s)"
  unfolding attemptSteps_def attemptPreparedAccept_def attemptPreparedConfirmed_def
    attemptAcceptCommit_def attemptConfirmCommit_def setPreparedConfirmed_def setAcceptCommit_def
    setConfirmCommit_adv [of adv ctx _ _ _ adv'] Let_def
  by (intro ole_rules ole_refl ole_didWork ole_preparedAcceptLoop)

lemma ole_bumpLoop:
  "adv_le adv adv' \<Longrightarrow> n \<le> n' \<Longrightarrow> ole (bumpLoop n adv ctx w s) (bumpLoop n' adv' ctx w s)"
proof (induction n arbitrary: n' w s)
  case (Suc n)
  then obtain m where "n' = Suc m" "n \<le> m" by (cases n') auto
  with Suc show ?case by (auto intro!: ole_rules ole_attemptBump)
qed (simp add: ole_def)

lemma advanceSlot_mono: "n \<le> n' \<Longrightarrow> adv_le (advanceSlot n ctx) (advanceSlot n' ctx)"
proof (induction n arbitrary: n')
  case (Suc n)
  then obtain m where m: "n' = Suc m" "n \<le> m" by (cases n') auto
  show ?case
    unfolding adv_le_def m(1) advanceSlot.simps Let_def
    by (intro allI ole_rules ole_refl ole_attemptSteps ole_bumpLoop Suc.IH m(2))
qed (simp add: adv_le_def ole_def)

section \<open>Termination\<close>

lemma slot_calls_level:
  assumes "slot_calls (newSlot i ctx) s"
  shows "mCurrentMessageLevel s = 0"
proof -
  have "mCurrentMessageLevel s = 0 \<and> True"
    by (rule slot_calls_relation [where I = "\<lambda>s. mCurrentMessageLevel s = 0" and R = "\<lambda>_ _. True", OF assms])
      (auto simp: newSlot_def sruns_def dest!: slot_call_sruns)
  then show ?thesis by simp
qed

text \<open>C3: processing a ballot statement ends. From any state a slot reaches, with any statement and any answers of the driver, the processing of an
  envelope returns or raises for every amount of fuel from \<open>enough_fuel\<close> on, always with
  the same outcome; so does the expiry of the ballot timer.\<close>

theorem ballot_processing_terminates:
  assumes "slot_calls (newSlot i ctx0) s" and "enough_fuel \<le> n"
    and "\<not> is_Nominate (pledges (statement env))" and "drv_verifyEnvelope (mDriver ctx) env"
  shows "slotProcessEnvelope n ctx env False s \<noteq> Inl OutOfFuel \<and>
    slotProcessEnvelope n ctx env False s = slotProcessEnvelope enough_fuel ctx env False s \<and>
    slotTimerExpired n ctx s \<noteq> Inl OutOfFuel \<and>
    slotTimerExpired n ctx s = slotTimerExpired enough_fuel ctx s"
proof -
  have inv: "invariants_hold s" using slot_calls_inv [OF assms(1) ballot_inv_newSlot] by (simp add: ballot_inv_def)
  have ok: "adv_ok False ctx s (advanceSlot k ctx)" if "enough_fuel \<le> k" for k
    unfolding adv_ok_def
  proof (intro allI impI)
    fix hint t
    assume "runs ctx s t"
    then have "mCurrentMessageLevel t = 0" "invariants_hold t"
      using slot_calls_level [OF assms(1)] sruns_progress [OF runs_sruns inv] by (auto simp: runs_def)
    then show "spec False ctx t (advanceSlot k ctx hint t)" by (rule advanceSlot_fuel [OF _ _ that])
  qed
  have adm: "admitted ctx env False s" using assms(4) by (simp add: admitted_def)
  have env: "slotProcessEnvelope k ctx env False s \<noteq> Inl OutOfFuel"
    and timer: "slotTimerExpired k ctx s \<noteq> Inl OutOfFuel" if "enough_fuel \<le> k" for k
    using spec_processEnvelope [OF ok [OF that] adm] spec_ballotProtocolTimerExpired [OF ok [OF that]] assms(3)
    by (auto simp: slotProcessEnvelope_def slotTimerExpired_def result_simps)
  note le = advanceSlot_mono [OF assms(2), of ctx]
  have "ole (slotProcessEnvelope enough_fuel ctx env False s) (slotProcessEnvelope n ctx env False s)"
    using assms(3) ole_processEnvelope [OF le] by (auto simp: slotProcessEnvelope_def intro!: ole_rules)
  moreover have "ole (slotTimerExpired enough_fuel ctx s) (slotTimerExpired n ctx s)"
    using ole_timerExpired [OF le] by (simp add: slotTimerExpired_def)
  ultimately show ?thesis
    using env [OF assms(2)] timer [OF assms(2)] env [OF order_refl] timer [OF order_refl] by (auto simp: ole_def)
qed

theorem ballot_processing_terminates_witness:
  "slotProcessEnvelope (enough_fuel + 1) ex_ctx (ex_env (ex_pledges ! 1)) False (ex_state 1) =
   slotProcessEnvelope enough_fuel ex_ctx (ex_env (ex_pledges ! 1)) False (ex_state 1)"
  using ballot_processing_terminates [OF ex_state_reached [of 1], of "enough_fuel + 1"
      "ex_env (ex_pledges ! 1)" ex_ctx]
  by (simp add: ex_env_def ex_pledges_def ex_ctx_def)

end
