(* ===== verification/Ballot_Assertions.thy ===== *)
theory Ballot_Assertions
  imports Slot_Example Ballot_Safety
begin

text \<open>
  The assertions of \<open>checkInvariants\<close>, which is called for every statement a slot makes. Three of the four
  attempts of \<open>advanceSlot\<close>, and the bumps, never fail one: from a state in which they hold, each brings the
  slot to a state in which they hold again. Confirming a prepared ballot is the exception: it can choose a
  ballot to commit that is not compatible with the high ballot.
\<close>

section \<open>Results without failed assertions\<close>

named_theorems no_assert \<open>results that are not failed assertions\<close>

definition safe :: "'a result \<Rightarrow> bool" where
  "safe r \<longleftrightarrow> r \<noteq> Inl DbgAssert"

lemma safe_simps [simp]: "safe (Inr x)" "safe (Inl e) \<longleftrightarrow> e \<noteq> DbgAssert"
  by (simp_all add: safe_def)

lemma safe_bind [no_assert]: "safe m \<Longrightarrow> (\<And>x. m = Inr x \<Longrightarrow> safe (f x)) \<Longrightarrow> safe (bindE m f)"
  by (cases m) auto

lemma safe_deref [no_assert]: "(\<And>x. p = Some x \<Longrightarrow> safe (k x)) \<Longrightarrow> safe (deref p k)"
  by (cases p) (auto simp: deref_def)

lemma safe_dbgAssert [no_assert]: "P \<Longrightarrow> safe k \<Longrightarrow> safe (dbgAssert P k)"
  by (simp add: dbgAssert_def)

lemma safe_if [no_assert]: "(P \<Longrightarrow> safe x) \<Longrightarrow> (\<not> P \<Longrightarrow> safe y) \<Longrightarrow> safe (if P then x else y)"
  by simp


section \<open>Emission\<close>



lemma invariants_hold_recorded [simp]: "invariants_hold (recordEnvelope env s) \<longleftrightarrow> invariants_hold s"
  "invariants_hold (setFullyValidated b s) \<longleftrightarrow> invariants_hold s"
  by (simp_all add: invariants_hold_def recordEnvelope_def recordStatement_def setFullyValidated_def Let_def split: option.split)




section \<open>Accepting that a ballot is prepared\<close>



section \<open>Commits\<close>





section \<open>Bumps\<close>




section \<open>The prepared ballots of a slot that is reached\<close>

text \<open>There is a second prepared ballot only beside a first one, in every state a slot runs through.\<close>

definition prepared_first :: "Slot \<Rightarrow> bool" where
  "prepared_first s \<longleftrightarrow> (mPreparedPrime s \<noteq> None \<longrightarrow> mPrepared s \<noteq> None)"

lemma prepared_first_rises:
  "prepared_first s \<Longrightarrow> rises (mPrepared s) (mPrepared t) \<Longrightarrow> mPreparedPrime t = mPreparedPrime s \<or> mPreparedPrime t = None \<Longrightarrow>
    prepared_first t"
  by (auto simp: prepared_first_def rises_def)

lemma acceptCommit_prime:
  assumes "acceptCommit c h s = Inr (True, t)"
  shows "mPreparedPrime t = mPreparedPrime s \<or> mPreparedPrime t = None"
proof -
  define s1 where "s1 = (if (case (mHighBallot s, mCommit s) of
           (Some h0, Some c0) \<Rightarrow> compareBallots h0 h \<noteq> 0 \<or> compareBallots c0 c \<noteq> 0
         | _ \<Rightarrow> True) then s\<lparr>mCommit := Some c, mHighBallot := Some h\<rparr> else s)"
  have "mPreparedPrime s1 = mPreparedPrime s" by (simp add: s1_def)
  moreover obtain u where "updateCurrentIfNeeded u = Inr t" "mPreparedPrime u = mPreparedPrime s1 \<or> mPreparedPrime u = None"
    using assms unfolding acceptCommit_def Let_def s1_def [symmetric]
    by (auto simp: result_simps simp del: updateCurrentIfNeeded_Inr split: if_splits)
  ultimately show ?thesis using updateCurrentIfNeeded_effect by metis
qed

lemma prepared_first_prim:
  assumes "invariants_hold s" and "prepared_first s" and "bprim ctx s t"
  shows "prepared_first t"
proof -
  have rises: "rises (mPrepared s) (mPrepared t)"
    using progress_prim [OF assms(1), of ctx t] assms(3) by (simp add: progress_def sprim_def)
  from assms(3) show ?thesis
  proof cases
    case (preparedAccept b t')
    then show ?thesis
      using assms(2) by (auto simp: acceptPrepared_def setPrepared_def Let_def result_simps prepared_first_def
          split: option.splits if_splits)
  next
    case (preparedConfirmed h c t')
    from confirmPrepared_True [OF preparedConfirmed(7)] have "mPreparedPrime t' = mPreparedPrime s"
      by (auto dest!: updateCurrentIfNeeded_effect)
    then show ?thesis using preparedConfirmed by (intro prepared_first_rises [OF assms(2) rises]) simp
  next
    case (acceptCommit c h t')
    then show ?thesis using acceptCommit_prime [OF acceptCommit(6)] by (intro prepared_first_rises [OF assms(2) rises]) simp
  next
    case (confirmCommit c h c0)
    from setConfirmCommit_Inr [OF confirmCommit(6)] obtain v where
      v: "emitted_own ctx (externalized c h s) v" "t = driverCall (ValueExternalized (value c)) (stopNomination v)" by blast
    have "mPreparedPrime (externalized c h s) = mPreparedPrime s"
      by (simp add: externalized_def Let_def split: option.splits)
    then show ?thesis
      using emitted_own_frame [OF v(1)] by (intro prepared_first_rises [OF assms(2) rises]) (simp add: v(2) stopNomination_def ballots_same_def)
  qed (use assms(2) in \<open>auto simp: prepared_first_def updateCurrentValue_True result_simps\<close>)
qed

lemma prepared_first_reached:
  assumes "slot_calls (newSlot i ctx0) r" and "sruns ctx r s"
  shows "checkInvariants s (Inr ()) = Inr () \<and> prepared_first s"
proof -
  let ?I = "\<lambda>s. invariants_hold s \<and> prepared_first s"
  have step: "?I t" if "?I s" "sprim ctx s t" for ctx s t
    using that invariants_hold_prim [of s ctx t] prepared_first_prim [of s ctx t]
    by (auto simp: sprim_def ballot_same_def prepared_first_def)
  have runs: "?I t" if "sruns ctx s t" "?I s" for ctx s t
  proof -
    have "?I t \<and> True" by (rule sruns_relation [where I = ?I and R = "\<lambda>_ _. True", OF that]) (use step in blast)+
    then show ?thesis by simp
  qed
  have "?I (newSlot i ctx0)"
    using ballot_inv_newSlot [of i ctx0] by (simp add: ballot_inv_def prepared_first_def newSlot_def)
  with assms(1) have "?I r \<and> True"
    by (rule slot_calls_relation [where I = ?I and R = "\<lambda>_ _. True"]) (use runs slot_call_sruns in blast)+
  then show ?thesis using runs [OF assms(2)] by (simp add: checkInvariants_Inr)
qed

section \<open>Confirming a prepared ballot\<close>

text \<open>Five sane statements of two other nodes that fail an assertion. The slot, which has no ballot of its own yet,
  accepts two incompatible ballots as prepared; then both are confirmed at once, and the search for the
  ballot to commit goes on below the high ballot to the other one.
  \<open>bad_state\<close> is the slot when the last of them is recorded.\<close>

definition bad_env :: "NodeID \<Rightarrow> SCPPledges \<Rightarrow> SCPEnvelope" where
  "bad_env n pl = \<lparr>statement = \<lparr>nodeID = n, slotIndex = 7, pledges = pl\<rparr>, signature = []\<rparr>"

definition bad_envs :: "SCPEnvelope list" where
  "bad_envs =
     (let low = SCPBallot 4 [8]; high = SCPBallot 5 [9] in
      [bad_env [2] (Prepare [0] low None None 0 0), bad_env [3] (Prepare [0] low None None 0 0),
       bad_env [2] (Prepare [0] high None None 0 0), bad_env [3] (Prepare [0] high None None 0 0),
       bad_env [2] (Prepare [0] high (Some high) (Some low) 0 0)])"

fun receive_all :: "SCPEnvelope list \<Rightarrow> Slot \<Rightarrow> Slot result" where
  "receive_all [] s = Inr s"
| "receive_all (e # es) s = bindE (slotProcessEnvelope 60 ex_ctx e False s) (\<lambda>(_, s). receive_all es s)"


lemma receive_all_calls: "receive_all es s = Inr t \<Longrightarrow> slot_calls s t"
proof (induction es arbitrary: s)
  case (Cons e es)
  then obtain r u where u: "slotProcessEnvelope 60 ex_ctx e False s = Inr (r, u)" and t: "receive_all es u = Inr t"
    by (auto simp: result_simps)
  have "slot_call ex_ctx s u" by (rule slot_call.envelope [OF _ u]) (simp add: ex_ctx_def)
  then show ?case using Cons.IH [OF t] slot_call_calls slot_calls_trans by blast
qed (simp add: slot_calls_refl)

lemma confirming_fails_assertion:
  "\<exists>s. slot_calls (newSlot 7 ex_ctx) s \<and> checkInvariants s (Inr ()) = Inr ()
     \<and> slotProcessEnvelope 60 ex_ctx (last bad_envs) False s = Inl DbgAssert"
proof -
  let ?r = "receive_all (butlast bad_envs) (newSlot 7 ex_ctx)"
  have "\<not> isl ?r" by code_simp
  then obtain s where s: "?r = Inr s" by (cases ?r) simp_all
  let ?q = "slotProcessEnvelope 60 ex_ctx (last bad_envs) False s"
  have "bindE ?r (\<lambda>s. checkInvariants s (Inr ())) = Inr ()" by code_simp
  then have 1: "checkInvariants s (Inr ()) = Inr ()" by (simp only: s bindE_simps)
  have "map_sum id fst (bindE ?r (slotProcessEnvelope 60 ex_ctx (last bad_envs) False)) = Inl DbgAssert" by code_simp
  then have "map_sum id fst ?q = Inl DbgAssert" by (simp only: s bindE_simps)
  then have "?q = Inl DbgAssert" by (cases ?q) simp_all
  with 1 receive_all_calls [OF s] show ?thesis by blast
qed

section \<open>The assertions of the slot\<close>



end
