(* ===== verification/Quorum_Search.thy ===== *)
theory Quorum_Search
  imports Slot_Example
begin

text \<open>
  The search for a node in the transitive quorum of the local node:
  \<open>LocalNode::isNodeInQuorum\<close>, \<open>Slot::isNodeInQuorum\<close> and \<open>SCP::isNodeInQuorum\<close>. It is shown to end
  and to decide reachability in the graph of the quorum sets that are known.

  The backlog is an \<open>unordered_set\<close>, whose first element is unspecified: \<open>pick\<close> chooses it.
\<close>

section \<open>The code\<close>

datatype TriBool = TB_TRUE | TB_FALSE | TB_MAYBE

type_synonym statements = "(NodeID \<times> SCPStatement list) list"

definition exploreStatement ::
  "(SCPStatement \<Rightarrow> SCPQuorumSet option) \<Rightarrow> NodeID list \<Rightarrow> SCPStatement \<Rightarrow> NodeID list \<times> TriBool \<Rightarrow>
   NodeID list \<times> TriBool" where
  "exploreStatement qfun visited st p =
     (case p of (backlog, res) \<Rightarrow>
        (case qfun st of
           None \<Rightarrow> (backlog, TB_MAYBE)
         | Some qset \<Rightarrow>
             (forAllNodes qset (\<lambda>n bl. if n \<notin> set visited then List.insert n bl else bl) backlog, res)))"

partial_function (option) quorumSearch ::
  "(NodeID list \<Rightarrow> NodeID) \<Rightarrow> NodeID \<Rightarrow> (SCPStatement \<Rightarrow> SCPQuorumSet option) \<Rightarrow> statements \<Rightarrow>
   NodeID list \<Rightarrow> NodeID list \<Rightarrow> TriBool \<Rightarrow> TriBool option" where
  "quorumSearch pick node qfun m backlog visited res =
     (if backlog = [] then Some res
      else
        let c = pick backlog in
        if c = node then Some TB_TRUE
        else
          let backlog = remove1 c backlog; visited = c # visited in
          case map_of m c of
            None \<Rightarrow> quorumSearch pick node qfun m backlog visited TB_MAYBE
          | Some sts \<Rightarrow>
              (case fold (exploreStatement qfun visited) sts (backlog, res) of
                 (backlog, res) \<Rightarrow> quorumSearch pick node qfun m backlog visited res))"

declare quorumSearch.simps [code]

definition isNodeInQuorum ::
  "(NodeID list \<Rightarrow> NodeID) \<Rightarrow> NodeID \<Rightarrow> (SCPStatement \<Rightarrow> SCPQuorumSet option) \<Rightarrow> statements \<Rightarrow> LocalNode \<Rightarrow>
   TriBool option" where
  "isNodeInQuorum pick node qfun m ln = quorumSearch pick node qfun m [mNodeID ln] [] TB_FALSE"

text \<open>The statements of the history by node.\<close>

definition historyByNode :: "Slot \<Rightarrow> statements" where
  "historyByNode s =
     fold (\<lambda>(st, _) m. map_put (nodeID st) ((case map_of m (nodeID st) of None \<Rightarrow> [] | Some sts \<Rightarrow> sts) @ [st]) m)
       (mStatementsHistory s) []"

definition slotIsNodeInQuorum ::
  "(NodeID list \<Rightarrow> NodeID) \<Rightarrow> 'a SCPContext_scheme \<Rightarrow> NodeID \<Rightarrow> Slot \<Rightarrow> TriBool option" where
  "slotIsNodeInQuorum pick ctx node s =
     isNodeInQuorum pick node
       (\<lambda>st. drv_getQSet (mDriver ctx) (getCompanionQuorumSetHashFromStatement (pledges st)))
       (historyByNode s) (mLocalNode ctx)"

fun searchSlots ::
  "(NodeID list \<Rightarrow> NodeID) \<Rightarrow> 'a SCPContext_scheme \<Rightarrow> NodeID \<Rightarrow> (uint64 \<times> Slot) list \<Rightarrow> TriBool \<Rightarrow> TriBool option" where
  "searchSlots pick ctx node [] res = Some res"
| "searchSlots pick ctx node ((_, s) # slots) res =
     (case slotIsNodeInQuorum pick ctx node s of
        None \<Rightarrow> None
      | Some res \<Rightarrow>
          if res = TB_TRUE \<or> res = TB_FALSE then Some res else searchSlots pick ctx node slots res)"

definition scpIsNodeInQuorum :: "(NodeID list \<Rightarrow> NodeID) \<Rightarrow> NodeID \<Rightarrow> SCP \<Rightarrow> TriBool option" where
  "scpIsNodeInQuorum pick node scp = searchSlots pick scp node (mKnownSlots scp) TB_MAYBE"

section \<open>The graph of known quorum sets\<close>

definition known_qsets :: "(SCPStatement \<Rightarrow> SCPQuorumSet option) \<Rightarrow> statements \<Rightarrow> NodeID \<Rightarrow> NodeID \<Rightarrow> bool" where
  "known_qsets qfun m c n \<longleftrightarrow>
     (\<exists>sts st q. map_of m c = Some sts \<and> st \<in> set sts \<and> qfun st = Some q \<and> n \<in> set (qset_nodes q))"

definition fully_known :: "(SCPStatement \<Rightarrow> SCPQuorumSet option) \<Rightarrow> statements \<Rightarrow> NodeID \<Rightarrow> bool" where
  "fully_known qfun m c \<longleftrightarrow> (\<exists>sts. map_of m c = Some sts \<and> (\<forall>st \<in> set sts. qfun st \<noteq> None))"

lemma exploreStatement_eq:
  "\<exists>bl'. exploreStatement qfun visited st (bl, res) = (bl', if qfun st = None then TB_MAYBE else res) \<and>
    (distinct bl \<longrightarrow> distinct bl') \<and>
    set bl' = set bl \<union> ({n. \<exists>q. qfun st = Some q \<and> n \<in> set (qset_nodes q)} - set visited)"
proof (cases "qfun st")
  case (Some q)
  have "(distinct b \<longrightarrow> distinct (fold (\<lambda>n bl. if n \<notin> set visited then List.insert n bl else bl) ys b)) \<and>
      set (fold (\<lambda>n bl. if n \<notin> set visited then List.insert n bl else bl) ys b) = set b \<union> (set ys - set visited)" for ys b
    by (induction ys arbitrary: b) auto
  moreover obtain ys where "set ys = set (qset_nodes q)"
    "forAllNodes q (\<lambda>n bl. if n \<notin> set visited then List.insert n bl else bl) bl =
      fold (\<lambda>n bl. if n \<notin> set visited then List.insert n bl else bl) ys bl"
    using forAllNodes_fold by meson
  ultimately show ?thesis by (simp add: exploreStatement_def Some)
qed (simp add: exploreStatement_def)

lemma explore_fold:
  "\<exists>bl'. fold (exploreStatement qfun visited) sts (bl, res) =
      (bl', if \<exists>st \<in> set sts. qfun st = None then TB_MAYBE else res) \<and>
    (distinct bl \<longrightarrow> distinct bl') \<and>
    set bl' = set bl \<union> ({n. \<exists>st q. st \<in> set sts \<and> qfun st = Some q \<and> n \<in> set (qset_nodes q)} - set visited)"
proof (induction sts arbitrary: bl res)
  case (Cons st sts)
  obtain bl1 where 1: "exploreStatement qfun visited st (bl, res) = (bl1, if qfun st = None then TB_MAYBE else res)"
    "distinct bl \<longrightarrow> distinct bl1"
    "set bl1 = set bl \<union> ({n. \<exists>q. qfun st = Some q \<and> n \<in> set (qset_nodes q)} - set visited)"
    using exploreStatement_eq by blast
  obtain bl2 where 2: "fold (exploreStatement qfun visited) sts (bl1, if qfun st = None then TB_MAYBE else res) =
      (bl2, if \<exists>st \<in> set sts. qfun st = None then TB_MAYBE else if qfun st = None then TB_MAYBE else res)"
    "distinct bl1 \<longrightarrow> distinct bl2"
    "set bl2 = set bl1 \<union> ({n. \<exists>st q. st \<in> set sts \<and> qfun st = Some q \<and> n \<in> set (qset_nodes q)} - set visited)"
    using Cons by blast
  show ?case
    by (rule exI [of _ bl2]) (use 1 2 in auto)
qed simp

text \<open>One turn of the loop.\<close>

lemma quorumSearch_step:
  assumes "backlog \<noteq> []" and "pick backlog = c" and "c \<noteq> node" and "distinct backlog"
  shows "\<exists>bl. quorumSearch pick node qfun m backlog visited res =
      quorumSearch pick node qfun m bl (c # visited) (if fully_known qfun m c then res else TB_MAYBE) \<and>
    distinct bl \<and> set bl = (set backlog - {c}) \<union> ({n. known_qsets qfun m c n} - set (c # visited))"
proof (cases "map_of m c")
  case None
  then show ?thesis
    using assms by (intro exI [of _ "remove1 c backlog"])
      (auto simp: quorumSearch.simps [of pick node qfun m backlog] Let_def fully_known_def known_qsets_def)
next
  case (Some sts)
  obtain bl where bl: "fold (exploreStatement qfun (c # visited)) sts (remove1 c backlog, res) =
      (bl, if \<exists>st \<in> set sts. qfun st = None then TB_MAYBE else res)"
    "distinct bl"
    "set bl = set (remove1 c backlog) \<union>
      ({n. \<exists>st q. st \<in> set sts \<and> qfun st = Some q \<and> n \<in> set (qset_nodes q)} - set (c # visited))"
    using explore_fold [of qfun "c # visited" sts "remove1 c backlog" res] assms(4) by auto
  have "quorumSearch pick node qfun m backlog visited res =
      quorumSearch pick node qfun m bl (c # visited) (if fully_known qfun m c then res else TB_MAYBE)"
    using assms bl(1) Some by (auto simp: quorumSearch.simps [of pick node qfun m backlog] Let_def fully_known_def)
  then show ?thesis using bl assms(4) Some by (intro exI [of _ bl]) (auto simp: known_qsets_def)
qed

section \<open>The search ends and decides reachability\<close>

definition reached :: "('n \<Rightarrow> 'n \<Rightarrow> bool) \<Rightarrow> 'n set \<Rightarrow> 'n set" where
  "reached G A = {n. \<exists>a \<in> A. G\<^sup>*\<^sup>* a n}"

lemma reached_mem: "a \<in> A \<Longrightarrow> a \<in> reached G A"
  by (auto simp: reached_def)

lemma reached_closed:
  assumes "\<And>a n. a \<in> A \<Longrightarrow> G a n \<Longrightarrow> n \<in> A"
  shows "reached G A = A"
proof -
  have "n \<in> A" if "G\<^sup>*\<^sup>* a n" "a \<in> A" for a n
    using that by (induction rule: rtranclp_induct) (auto intro: assms)
  then show ?thesis by (auto simp: reached_def)
qed

lemma reached_extend:
  assumes "A \<subseteq> B" and "B \<subseteq> reached G A"
  shows "reached G B = reached G A"
proof -
  have "n \<in> reached G A" if "b \<in> B" "G\<^sup>*\<^sup>* b n" for b n
    using that assms(2) by (auto simp: reached_def intro: rtranclp_trans)
  then show ?thesis using assms(1) by (auto simp: reached_def)
qed

definition search_result ::
  "(SCPStatement \<Rightarrow> SCPQuorumSet option) \<Rightarrow> statements \<Rightarrow> NodeID \<Rightarrow> NodeID set \<Rightarrow> NodeID set \<Rightarrow> TriBool \<Rightarrow> TriBool" where
  "search_result qfun m node R visited res =
     (if node \<in> R then TB_TRUE
      else if \<forall>c \<in> R - visited. fully_known qfun m c then res else TB_MAYBE)"

lemma quorumSearch_result:
  assumes pick: "\<And>xs. xs \<noteq> [] \<Longrightarrow> pick xs \<in> set xs"
    and "finite U" and "\<And>c n. known_qsets qfun m c n \<Longrightarrow> n \<in> U"
    and "set backlog \<subseteq> U" and "distinct backlog" and "set backlog \<inter> set visited = {}" and "node \<notin> set visited"
    and "\<And>c n. c \<in> set visited \<Longrightarrow> known_qsets qfun m c n \<Longrightarrow> n \<in> set visited \<union> set backlog"
  shows "quorumSearch pick node qfun m backlog visited res =
    Some (search_result qfun m node (reached (known_qsets qfun m) (set visited \<union> set backlog)) (set visited) res)"
  using assms(4-)
proof (induction "card (U - set visited)" arbitrary: backlog visited res rule: less_induct)
  case less
  let ?G = "known_qsets qfun m" and ?A = "set visited \<union> set backlog"
  show ?case
  proof (cases "backlog = []")
    case True
    then have "reached ?G ?A = set visited" using less.prems(5) by (simp add: reached_closed)
    then show ?thesis using True less.prems(4)
      by (simp add: quorumSearch.simps [of pick node qfun m "[]"] search_result_def)
  next
    case False
    define c where "c = pick backlog"
    have c: "c \<in> set backlog" "c \<notin> set visited" "c \<in> U"
      using pick [OF False] less.prems by (auto simp: c_def)
    show ?thesis
    proof (cases "c = node")
      case True
      then have "node \<in> reached ?G ?A" using c(1) by (auto intro: reached_mem)
      then show ?thesis using True False
        by (simp add: quorumSearch.simps [of pick node qfun m backlog] search_result_def Let_def c_def [symmetric])
    next
      case other: False
      obtain bl where bl: "quorumSearch pick node qfun m backlog visited res =
          quorumSearch pick node qfun m bl (c # visited) (if fully_known qfun m c then res else TB_MAYBE)"
        "distinct bl" "set bl = (set backlog - {c}) \<union> ({n. ?G c n} - set (c # visited))"
        using quorumSearch_step [where pick = pick, OF False c_def [symmetric] other less.prems(2)] by blast
      let ?B = "set (c # visited) \<union> set bl"
      have B: "?B = ?A \<union> {n. ?G c n}" using c(1) bl(3) by auto
      have "reached ?G ?B = reached ?G ?A"
        unfolding B using c(1) by (intro reached_extend) (auto simp: reached_def)
      moreover have "quorumSearch pick node qfun m bl (c # visited) (if fully_known qfun m c then res else TB_MAYBE) =
          Some (search_result qfun m node (reached ?G ?B) (set (c # visited)) (if fully_known qfun m c then res else TB_MAYBE))"
      proof (rule less.hyps)
        show "card (U - set (c # visited)) < card (U - set visited)"
          using c assms(2) by (intro psubset_card_mono) auto
        show "set bl \<subseteq> U" using bl(3) less.prems(1) assms(3) by auto
        show "n \<in> set (c # visited) \<union> set bl" if "d \<in> set (c # visited)" "?G d n" for d n
          unfolding B using that less.prems(5) by auto
      qed (use bl c other less.prems in auto)
      moreover have "c \<in> reached ?G ?A" using c(1) by (auto intro: reached_mem)
      ultimately show ?thesis using c(2) unfolding bl(1) by (auto simp: search_result_def)
    qed
  qed
qed

lemma finite_known: "finite {n. \<exists>c. known_qsets qfun m c n}"
proof (rule finite_subset)
  let ?S = "\<Union>(c, sts) \<in> set m. \<Union>st \<in> set sts. set (qset_nodes (the (qfun st)))"
  show "{n. \<exists>c. known_qsets qfun m c n} \<subseteq> ?S"
    by (fastforce simp: known_qsets_def dest: map_of_SomeD)
  show "finite ?S" by auto
qed

text \<open>C34: the search for a node in the transitive quorum always ends, whatever order the
  backlog is visited in, and answers correctly: true exactly if the node is reached from the
  local node through quorum sets that are known; false exactly if it is not and all quorum
  sets on the way are known; and maybe otherwise.\<close>

theorem isNodeInQuorum_decides:
  assumes "\<And>xs. xs \<noteq> [] \<Longrightarrow> pick xs \<in> set xs"
  shows "\<exists>r. isNodeInQuorum pick node qfun m ln = Some r \<and>
    (r = TB_TRUE \<longleftrightarrow> (known_qsets qfun m)\<^sup>*\<^sup>* (mNodeID ln) node) \<and>
    (r = TB_FALSE \<longleftrightarrow> \<not> (known_qsets qfun m)\<^sup>*\<^sup>* (mNodeID ln) node \<and>
       (\<forall>c. (known_qsets qfun m)\<^sup>*\<^sup>* (mNodeID ln) c \<longrightarrow> fully_known qfun m c))"
proof -
  let ?U = "insert (mNodeID ln) {n. \<exists>c. known_qsets qfun m c n}"
  have "isNodeInQuorum pick node qfun m ln =
      Some (search_result qfun m node (reached (known_qsets qfun m) (set [] \<union> set [mNodeID ln])) (set []) TB_FALSE)"
    unfolding isNodeInQuorum_def
    by (rule quorumSearch_result [where U = ?U, OF assms]) (auto simp: finite_known)
  then show ?thesis by (auto simp: search_result_def reached_def)
qed

theorem isNodeInQuorum_decides_witness:
  "\<exists>r. isNodeInQuorum hd [3] (\<lambda>_. Some ex_qset) [([1], [statement (ex_env (ex_pledges ! 0))])] (mLocalNode ex_ctx) = Some r \<and>
     r = TB_TRUE"
proof -
  let ?q = "\<lambda>_. Some ex_qset" and ?m = "[([1], [statement (ex_env (ex_pledges ! 0))])] :: statements"
  have "known_qsets ?q ?m [1] [3]" by (simp add: known_qsets_def ex_qset_def)
  then have "(known_qsets ?q ?m)\<^sup>*\<^sup>* (mNodeID (mLocalNode ex_ctx)) [3]" by (simp add: ex_ctx_def r_into_rtranclp)
  moreover note isNodeInQuorum_decides [of hd "[3]" ?q ?m "mLocalNode ex_ctx"]
  ultimately show ?thesis by auto
qed

end
