(* ===== verification/Ledger_Entries.thy ===== *)
theory Ledger_Entries
  imports Util_Types
begin

text \<open>
  The entries of the ledger (\<open>xdr/Stellar-ledger-entries.x\<close>), their keys and the entries of
  buckets (\<open>xdr/Stellar-ledger.x\<close>), and the comparison by identity (\<open>bucket/LedgerCmp.h\<close>).

  Account IDs are the 32 bytes of the key. The \<open>ext\<close> unions have one empty arm and carry no
  information. \<open>operator<\<close> of an XDR union compares the discriminant and then the fields of
  the arm in order; no theorem depends on more than that it is a linear order.
\<close>

section \<open>Entries\<close>

type_synonym AccountID = opaque
type_synonym Hash = opaque

datatype SignerKey =
    SIGNER_KEY_TYPE_ED25519 (ed25519: opaque)
  | SIGNER_KEY_TYPE_PRE_AUTH_TX (preAuthTx: opaque)
  | SIGNER_KEY_TYPE_HASH_X (hashX: opaque)

record Signer =
  signer_key :: SignerKey
  signer_weight :: uint32

record AccountEntry =
  acc_accountID :: AccountID
  acc_balance :: int
  acc_seqNum :: uint64
  acc_numSubEntries :: uint32
  acc_inflationDest :: "AccountID option"
  acc_flags :: uint32
  acc_homeDomain :: opaque
  acc_thresholds :: opaque
  acc_signers :: "Signer list"

record TrustLineEntry =
  tl_accountID :: AccountID
  tl_asset :: Asset
  tl_balance :: int
  tl_limit :: int
  tl_flags :: uint32

record OfferEntry =
  off_sellerID :: AccountID
  off_offerID :: uint64
  off_selling :: Asset
  off_buying :: Asset
  off_amount :: int
  off_price :: Price
  off_flags :: uint32

record DataEntry =
  data_accountID :: AccountID
  data_dataName :: opaque
  data_dataValue :: opaque

datatype LedgerEntryData =
    ACCOUNT AccountEntry
  | TRUSTLINE TrustLineEntry
  | OFFER OfferEntry
  | DATA DataEntry

record LedgerEntry =
  lastModifiedLedgerSeq :: uint32
  le_data :: LedgerEntryData

section \<open>Keys\<close>

datatype LedgerKey =
    AccountKey AccountID
  | TrustLineKey AccountID Asset
  | OfferKey AccountID uint64
  | DataKey AccountID opaque

definition LedgerEntryKey :: "LedgerEntry \<Rightarrow> LedgerKey" where
  "LedgerEntryKey e =
     (case le_data e of
        ACCOUNT a \<Rightarrow> AccountKey (acc_accountID a)
      | TRUSTLINE t \<Rightarrow> TrustLineKey (tl_accountID t) (tl_asset t)
      | OFFER f \<Rightarrow> OfferKey (off_sellerID f) (off_offerID f)
      | DATA d \<Rightarrow> DataKey (data_accountID d) (data_dataName d))"

subsection \<open>The order of assets\<close>

fun asset_rank :: "Asset \<Rightarrow> nat" where
  "asset_rank Native = 0"
| "asset_rank (AlphaNum4 _ _) = 1"
| "asset_rank (AlphaNum12 _ _) = 2"

fun asset_less :: "Asset \<Rightarrow> Asset \<Rightarrow> bool" where
  "asset_less (AlphaNum4 c i) (AlphaNum4 c' i') \<longleftrightarrow> c < c' \<or> c = c' \<and> i < i'"
| "asset_less (AlphaNum12 c i) (AlphaNum12 c' i') \<longleftrightarrow> c < c' \<or> c = c' \<and> i < i'"
| "asset_less a b \<longleftrightarrow> asset_rank a < asset_rank b"

lemma asset_less_irrefl: "\<not> asset_less a a"
  by (cases a) auto

lemma asset_less_trans: "asset_less a b \<Longrightarrow> asset_less b c \<Longrightarrow> asset_less a c"
  by (cases a; cases b; cases c) auto

lemma asset_less_total: "a \<noteq> b \<Longrightarrow> asset_less a b \<or> asset_less b a"
  by (cases a; cases b) (auto simp: neq_iff)

instantiation Asset :: linorder
begin

definition less_Asset :: "Asset \<Rightarrow> Asset \<Rightarrow> bool" where
  "less_Asset = asset_less"

definition less_eq_Asset :: "Asset \<Rightarrow> Asset \<Rightarrow> bool" where
  "less_eq_Asset a b \<longleftrightarrow> a = b \<or> asset_less a b"

instance
  by standard
    (auto simp: less_Asset_def less_eq_Asset_def asset_less_irrefl
      dest: asset_less_trans asset_less_total)

end

subsection \<open>Comparison by identity\<close>

text \<open>\<open>LedgerEntryIdCmp\<close> is a template over entries and keys: of an entry it reads exactly
  the fields that \<^const>\<open>LedgerEntryKey\<close> copies, so the model compares keys.\<close>

fun key_type :: "LedgerKey \<Rightarrow> nat" where
  "key_type (AccountKey _) = 0"
| "key_type (TrustLineKey _ _) = 1"
| "key_type (OfferKey _ _) = 2"
| "key_type (DataKey _ _) = 3"

definition LedgerEntryIdCmp :: "LedgerKey \<Rightarrow> LedgerKey \<Rightarrow> bool" where
  "LedgerEntryIdCmp a b =
     (if key_type a < key_type b then True
      else if key_type a > key_type b then False
      else case (a, b) of
          (AccountKey i, AccountKey j) \<Rightarrow> i < j
        | (TrustLineKey i x, TrustLineKey j y) \<Rightarrow>
            (if i < j then True else if j < i then False else x < y)
        | (OfferKey i x, OfferKey j y) \<Rightarrow>
            (if i < j then True else if j < i then False else x < y)
        | (DataKey i x, DataKey j y) \<Rightarrow>
            (if i < j then True else if j < i then False else x < y)
        | _ \<Rightarrow> False)"

lemma id_cmp_irrefl: "\<not> LedgerEntryIdCmp a a"
  by (cases a) (auto simp: LedgerEntryIdCmp_def)

lemma id_cmp_trans: "LedgerEntryIdCmp a b \<Longrightarrow> LedgerEntryIdCmp b c \<Longrightarrow> LedgerEntryIdCmp a c"
  by (cases a; cases b; cases c) (auto simp: LedgerEntryIdCmp_def split: if_splits)

lemma id_cmp_total: "a \<noteq> b \<Longrightarrow> LedgerEntryIdCmp a b \<or> LedgerEntryIdCmp b a"
  by (cases a; cases b) (auto simp: LedgerEntryIdCmp_def)

text \<open>So keys are linearly ordered, and two entries are equivalent in the comparison exactly
  if their keys are equal.\<close>

instantiation LedgerKey :: linorder
begin

definition less_LedgerKey :: "LedgerKey \<Rightarrow> LedgerKey \<Rightarrow> bool" where
  "less_LedgerKey = LedgerEntryIdCmp"

definition less_eq_LedgerKey :: "LedgerKey \<Rightarrow> LedgerKey \<Rightarrow> bool" where
  "less_eq_LedgerKey a b \<longleftrightarrow> a = b \<or> LedgerEntryIdCmp a b"

instance
  by standard
    (auto simp: less_LedgerKey_def less_eq_LedgerKey_def id_cmp_irrefl
      dest: id_cmp_trans id_cmp_total)

end

section \<open>Bucket entries\<close>

datatype BucketEntry =
    LIVEENTRY (liveEntry: LedgerEntry)
  | DEADENTRY (deadEntry: LedgerKey)

fun bucket_key :: "BucketEntry \<Rightarrow> LedgerKey" where
  "bucket_key (LIVEENTRY e) = LedgerEntryKey e"
| "bucket_key (DEADENTRY k) = k"

definition BucketEntryIdCmp :: "BucketEntry \<Rightarrow> BucketEntry \<Rightarrow> bool" where
  "BucketEntryIdCmp a b = LedgerEntryIdCmp (bucket_key a) (bucket_key b)"

lemma BucketEntryIdCmp_less [simp]: "BucketEntryIdCmp a b \<longleftrightarrow> bucket_key a < bucket_key b"
  by (simp add: BucketEntryIdCmp_def less_LedgerKey_def)

end
