(* ===== verification/Bucket_Merge.thy ===== *)
theory Bucket_Merge
  imports Ledger_Entries
begin

text \<open>
  Buckets and their merge (\<open>bucket/Bucket.cpp\<close>). A bucket is a file of entries and the hash of
  the file; the model keeps the entries, and the hash as the function \<open>bm_hash\<close> of them.
  \<open>adoptFileAsBucket\<close> returns an earlier bucket when its hash is that of the new file; as the
  hash stands for the contents this is the same bucket, so it is built anew here.

  Iterators are what is left of the file they read; the output iterator is the list written so
  far and the entry it holds back. The functional description of the merge,
  \<open>merge_correct\<close>, is the contract the bucket list relies on.
\<close>

named_theorems bucket_simps \<open>lookup in buckets\<close>

section \<open>Buckets\<close>

record Bucket =
  mHash :: Hash
  mEntries :: "BucketEntry list"

text \<open>The services of the bucket manager the code uses: the SHA-256 of a stream of entries, and
  the files of the bucket directory by hash.\<close>

record BucketManager =
  bm_hash :: "BucketEntry list \<Rightarrow> Hash"
  bm_file :: "Hash \<Rightarrow> (BucketEntry list) option"

definition zero_hash :: Hash where
  "zero_hash = replicate 32 0"

definition Bucket_empty :: Bucket where
  "Bucket_empty = \<lparr>mHash = zero_hash, mEntries = []\<rparr>"

definition adoptFileAsBucket :: "BucketManager \<Rightarrow> BucketEntry list \<Rightarrow> Hash \<Rightarrow> Bucket" where
  "adoptFileAsBucket bm es h = \<lparr>mHash = h, mEntries = es\<rparr>"

definition getBucketByHash :: "BucketManager \<Rightarrow> Hash \<Rightarrow> Bucket option" where
  "getBucketByHash bm h =
     (if isZero h then Some Bucket_empty
      else case bm_file bm h of
        Some es \<Rightarrow> Some \<lparr>mHash = h, mEntries = es\<rparr>
      | None \<Rightarrow> None)"

section \<open>The output iterator\<close>

record OutputIterator =
  mKeepDeadEntries :: bool
  mOut :: "BucketEntry list"
  mBuf :: "BucketEntry option"

definition OutputIterator_new :: "bool \<Rightarrow> OutputIterator" where
  "OutputIterator_new keepDeadEntries =
     \<lparr>mKeepDeadEntries = keepDeadEntries, mOut = [], mBuf = None\<rparr>"

fun isDead :: "BucketEntry \<Rightarrow> bool" where
  "isDead (DEADENTRY _) = True"
| "isDead (LIVEENTRY _) = False"

definition out_put :: "BucketEntry \<Rightarrow> OutputIterator \<Rightarrow> OutputIterator result" where
  "out_put e it =
     (if \<not> mKeepDeadEntries it \<and> isDead e then Inr it
      else case mBuf it of
        Some b \<Rightarrow>
          dbgAssert (\<not> BucketEntryIdCmp e b)
            (if BucketEntryIdCmp b e
             then Inr (it\<lparr>mOut := mOut it @ [b], mBuf := Some e\<rparr>)
             else Inr (it\<lparr>mBuf := Some e\<rparr>))
      | None \<Rightarrow> Inr (it\<lparr>mBuf := Some e\<rparr>))"

definition getBucket :: "BucketManager \<Rightarrow> OutputIterator \<Rightarrow> Bucket" where
  "getBucket bm it =
     (let es = mOut it @ (case mBuf it of Some b \<Rightarrow> [b] | None \<Rightarrow> [])
      in if es = [] then Bucket_empty else adoptFileAsBucket bm es (bm_hash bm es))"

section \<open>The merge\<close>

text \<open>The loop of \<open>maybe_put\<close> over the shadow iterators: whether \<open>e\<close> is shadowed, and the
  iterators afterwards.\<close>

fun check_shadows :: "BucketEntry \<Rightarrow> BucketEntry list list \<Rightarrow> bool \<times> BucketEntry list list" where
  "check_shadows e [] = (False, [])"
| "check_shadows e (si # sis) =
     (let si' = dropWhile (\<lambda>s. BucketEntryIdCmp s e) si
      in if si' \<noteq> [] \<and> \<not> BucketEntryIdCmp e (hd si') then (True, si' # sis)
         else let (shadowed, rest) = check_shadows e sis in (shadowed, si' # rest))"

definition maybe_put ::
  "BucketEntry \<Rightarrow> OutputIterator \<times> BucketEntry list list \<Rightarrow>
   (OutputIterator \<times> BucketEntry list list) result" where
  "maybe_put e st =
     (let (out, shadowIterators) = st;
          (shadowed, sis) = check_shadows e shadowIterators
      in if shadowed then Inr (out, sis)
         else bindE (out_put e out) (\<lambda>out. Inr (out, sis)))"

function merge_loop ::
  "BucketEntry list \<Rightarrow> BucketEntry list \<Rightarrow> OutputIterator \<times> BucketEntry list list \<Rightarrow>
   OutputIterator result" where
  "merge_loop [] [] st = Inr (fst st)"
| "merge_loop (oe # oi) [] st = bindE (maybe_put oe st) (merge_loop oi [])"
| "merge_loop [] (ne # ni) st = bindE (maybe_put ne st) (merge_loop [] ni)"
| "merge_loop (oe # oi) (ne # ni) st =
     (if BucketEntryIdCmp oe ne then bindE (maybe_put oe st) (merge_loop oi (ne # ni))
      else if BucketEntryIdCmp ne oe then bindE (maybe_put ne st) (merge_loop (oe # oi) ni)
      else bindE (maybe_put ne st) (merge_loop oi ni))"
  by pat_completeness auto

termination merge_loop
  by (relation "measure (\<lambda>(oi, ni, st). length oi + length ni)") auto

definition merge ::
  "BucketManager \<Rightarrow> Bucket \<Rightarrow> Bucket \<Rightarrow> Bucket list \<Rightarrow> bool \<Rightarrow> Bucket result" where
  "merge bm oldBucket newBucket shadows keepDeadEntries =
     bindE
       (merge_loop (mEntries oldBucket) (mEntries newBucket)
         (OutputIterator_new keepDeadEntries, map mEntries shadows))
       (\<lambda>out. Inr (getBucket bm out))"

text \<open>\<open>Bucket::fresh\<close>. \<open>std::sort\<close> leaves the order of entries with equal keys open; the
  entries of one ledger have distinct keys.\<close>

fun put_all :: "BucketEntry list \<Rightarrow> OutputIterator \<Rightarrow> OutputIterator result" where
  "put_all [] out = Inr out"
| "put_all (e # es) out = bindE (out_put e out) (put_all es)"

definition fresh :: "BucketManager \<Rightarrow> LedgerEntry list \<Rightarrow> LedgerKey list \<Rightarrow> Bucket result" where
  "fresh bm liveEntries deadEntries =
     (let live = sort_key bucket_key (map LIVEENTRY liveEntries);
          dead = sort_key bucket_key (map DEADENTRY deadEntries)
      in bindE (put_all live (OutputIterator_new True)) (\<lambda>liveOut.
         bindE (put_all dead (OutputIterator_new True)) (\<lambda>deadOut.
           merge bm (getBucket bm liveOut) (getBucket bm deadOut) [] True)))"

section \<open>Reading buckets\<close>

definition containsBucketIdentity :: "Bucket \<Rightarrow> BucketEntry \<Rightarrow> bool" where
  "containsBucketIdentity b i =
     list_ex (\<lambda>e. \<not> (BucketEntryIdCmp e i \<or> BucketEntryIdCmp i e)) (mEntries b)"

fun count_entries :: "BucketEntry list \<Rightarrow> nat \<times> nat \<Rightarrow> nat \<times> nat" where
  "count_entries [] n = n"
| "count_entries (LIVEENTRY _ # es) (live, dead) = count_entries es (Suc live, dead)"
| "count_entries (DEADENTRY _ # es) (live, dead) = count_entries es (live, Suc dead)"

definition countLiveAndDeadEntries :: "Bucket \<Rightarrow> nat \<times> nat" where
  "countLiveAndDeadEntries b = count_entries (mEntries b) (0, 0)"

section \<open>What a bucket says of a key\<close>

abbreviation entries_ok :: "BucketEntry list \<Rightarrow> bool" where
  "entries_ok es \<equiv> sorted_wrt (<) (map bucket_key es)"

definition bucket_ok :: "Bucket \<Rightarrow> bool" where
  "bucket_ok b \<longleftrightarrow> entries_ok (mEntries b)"

definition find_entry :: "BucketEntry list \<Rightarrow> LedgerKey \<Rightarrow> BucketEntry option" where
  "find_entry es k = find (\<lambda>e. bucket_key e = k) es"

abbreviation bucket_find :: "Bucket \<Rightarrow> LedgerKey \<Rightarrow> BucketEntry option" where
  "bucket_find b \<equiv> find_entry (mEntries b)"

definition drop_dead :: "bool \<Rightarrow> BucketEntry option \<Rightarrow> BucketEntry option" where
  "drop_dead keep x = (case x of Some e \<Rightarrow> if \<not> keep \<and> isDead e then None else Some e | None \<Rightarrow> None)"

lemma drop_dead_simps [simp]:
  "drop_dead True x = x"
  "drop_dead keep None = None"
  by (auto simp: drop_dead_def split: option.splits)

lemma find_entry_Nil [simp]: "find_entry [] k = None"
  by (simp add: find_entry_def)

lemma find_entry_Cons [simp]:
  "find_entry (e # es) k = (if bucket_key e = k then Some e else find_entry es k)"
  by (simp add: find_entry_def)

lemma find_entry_None:
  "find_entry es k = None \<longleftrightarrow> k \<notin> bucket_key ` set es"
  by (induction es) auto

lemma find_entry_key: "find_entry es k = Some e \<Longrightarrow> bucket_key e = k \<and> e \<in> set es"
  by (induction es) (auto split: if_splits)

lemma find_entry_filter:
  assumes "entries_ok es"
  shows "find_entry (filter P es) k =
    (case find_entry es k of Some e \<Rightarrow> if P e then Some e else None | None \<Rightarrow> None)"
  using assms
proof (induction es)
  case (Cons e es)
  then have "bucket_key e \<notin> bucket_key ` set es" by auto
  then have "find_entry (filter P es) (bucket_key e) = None"
    by (auto simp: find_entry_None)
  with Cons show ?case by auto
qed simp

section \<open>The merge as a function\<close>

text \<open>The entries in the order in which the loop offers them to \<open>maybe_put\<close>.\<close>

fun merge_entries :: "BucketEntry list \<Rightarrow> BucketEntry list \<Rightarrow> BucketEntry list" where
  "merge_entries [] ni = ni"
| "merge_entries oi [] = oi"
| "merge_entries (oe # oi) (ne # ni) =
     (if bucket_key oe < bucket_key ne then oe # merge_entries oi (ne # ni)
      else if bucket_key ne < bucket_key oe then ne # merge_entries (oe # oi) ni
      else ne # merge_entries oi ni)"

lemma merge_entries_Nil [simp]: "merge_entries oi [] = oi"
  by (cases oi) auto

lemma keys_merge_entries:
  "bucket_key ` set (merge_entries oi ni) = bucket_key ` set oi \<union> bucket_key ` set ni"
  by (induction oi ni rule: merge_entries.induct) auto

lemma merge_entries_ok:
  "entries_ok oi \<Longrightarrow> entries_ok ni \<Longrightarrow> entries_ok (merge_entries oi ni)"
proof (induction oi ni rule: merge_entries.induct)
  case (3 oe oi ne ni)
  have "bucket_key ` set (merge_entries oi (ne # ni)) = bucket_key ` set oi \<union> bucket_key ` set (ne # ni)"
    "bucket_key ` set (merge_entries (oe # oi) ni) = bucket_key ` set (oe # oi) \<union> bucket_key ` set ni"
    "bucket_key ` set (merge_entries oi ni) = bucket_key ` set oi \<union> bucket_key ` set ni"
    by (rule keys_merge_entries)+
  with 3 show ?case by (auto simp: not_less_iff_gr_or_eq)
qed simp_all

lemma find_merge_entries:
  "entries_ok oi \<Longrightarrow> entries_ok ni \<Longrightarrow> find_entry (merge_entries oi ni) k =
    (case find_entry ni k of Some e \<Rightarrow> Some e | None \<Rightarrow> find_entry oi k)"
proof (induction oi ni rule: merge_entries.induct)
  case (3 oe oi ne ni)
  have out: "find_entry ni (bucket_key oe) = None" if "bucket_key oe < bucket_key ne"
    using 3(5) that by (auto simp: find_entry_None)
  show ?case using 3 out by (auto simp: not_less_iff_gr_or_eq split: option.splits)
qed (auto split: option.splits)


fun offer_all ::
  "BucketEntry list \<Rightarrow> OutputIterator \<times> BucketEntry list list \<Rightarrow> OutputIterator result" where
  "offer_all [] st = Inr (fst st)"
| "offer_all (e # es) st = bindE (maybe_put e st) (offer_all es)"

lemma merge_loop_offers: "merge_loop oi ni st = offer_all (merge_entries oi ni) st"
  by (induction oi ni st rule: merge_loop.induct) (auto intro!: bindE_cong)

text \<open>What is written so far, with the entry held back, is strictly increasing and below all
  that comes.\<close>

abbreviation written :: "OutputIterator \<Rightarrow> BucketEntry list" where
  "written it \<equiv> mOut it @ (case mBuf it of Some b \<Rightarrow> [b] | None \<Rightarrow> [])"

definition keeps :: "OutputIterator \<Rightarrow> BucketEntry \<Rightarrow> bool" where
  "keeps it e \<longleftrightarrow> mKeepDeadEntries it \<or> \<not> isDead e"

lemma out_put_appends:
  assumes "entries_ok (written it @ [e])" and "mBuf it = None \<longrightarrow> mOut it = []"
  shows "\<exists>it'. out_put e it = Inr it' \<and> written it' = written it @ filter (keeps it) [e]
    \<and> mKeepDeadEntries it' = mKeepDeadEntries it \<and> (mBuf it' = None \<longrightarrow> mOut it' = [])"
  using assms by (cases "mBuf it") (auto simp: out_put_def keeps_def sorted_wrt_append dbgAssert_def)

lemma put_all_appends:
  assumes "entries_ok (written it @ es)" and "mBuf it = None \<longrightarrow> mOut it = []"
  shows "\<exists>it'. put_all es it = Inr it' \<and> written it' = written it @ filter (keeps it) es
    \<and> mKeepDeadEntries it' = mKeepDeadEntries it \<and> (mBuf it' = None \<longrightarrow> mOut it' = [])"
  using assms
proof (induction es arbitrary: it)
  case (Cons e es)
  then obtain it1 where it1: "out_put e it = Inr it1" "written it1 = written it @ filter (keeps it) [e]"
      "mKeepDeadEntries it1 = mKeepDeadEntries it" "mBuf it1 = None \<longrightarrow> mOut it1 = []"
    using out_put_appends [of it e] by (auto simp: sorted_wrt_append)
  have k: "keeps it1 = keeps it" by (simp add: keeps_def fun_eq_iff it1(3))
  have "entries_ok (written it1 @ es)"
    using Cons.prems(1) it1(2) by (auto simp: sorted_wrt_append)
  from Cons.IH [OF this it1(4)] obtain it2 where
      "put_all es it1 = Inr it2" "written it2 = written it1 @ filter (keeps it1) es"
      "mKeepDeadEntries it2 = mKeepDeadEntries it1" "mBuf it2 = None \<longrightarrow> mOut it2 = []"
    by (elim exE conjE) (rule that, assumption+)
  with it1 have "put_all (e # es) it = Inr it2 \<and> written it2 = written it @ filter (keeps it) (e # es)
    \<and> mKeepDeadEntries it2 = mKeepDeadEntries it \<and> (mBuf it2 = None \<longrightarrow> mOut it2 = [])"
    by (simp add: k)
  then show ?case by (rule exI)
qed simp

lemma dropWhile_above:
  assumes "entries_ok si" and "bucket_key e \<le> k"
  shows "k \<in> bucket_key ` set (dropWhile (\<lambda>s. BucketEntryIdCmp s e) si) \<longleftrightarrow> k \<in> bucket_key ` set si"
  using assms by (induction si) auto

lemma dropWhile_hd:
  assumes "entries_ok si"
  shows "(let si' = dropWhile (\<lambda>s. BucketEntryIdCmp s e) si in si' \<noteq> [] \<and> \<not> BucketEntryIdCmp e (hd si'))
    \<longleftrightarrow> bucket_key e \<in> bucket_key ` set si"
  using assms by (induction si) (auto simp: Let_def)

lemma dropWhile_ok: "entries_ok si \<Longrightarrow> entries_ok (dropWhile P si)"
  by (induction si) auto

definition shadowed_in :: "BucketEntry list list \<Rightarrow> LedgerKey \<Rightarrow> bool" where
  "shadowed_in sis k \<longleftrightarrow> (\<exists>si \<in> set sis. k \<in> bucket_key ` set si)"

lemma shadowed_in_simps [simp]:
  "shadowed_in [] k \<longleftrightarrow> False"
  "shadowed_in (si # sis) k \<longleftrightarrow> k \<in> bucket_key ` set si \<or> shadowed_in sis k"
  by (auto simp: shadowed_in_def)

lemma check_shadows_correct:
  assumes "list_all entries_ok sis"
  shows "(fst (check_shadows e sis) \<longleftrightarrow> shadowed_in sis (bucket_key e))
    \<and> list_all entries_ok (snd (check_shadows e sis))
    \<and> (\<forall>k \<ge> bucket_key e. shadowed_in (snd (check_shadows e sis)) k \<longleftrightarrow> shadowed_in sis k)"
  using assms
proof (induction sis)
  case (Cons si sis)
  then have ok: "entries_ok si" by simp
  note hd = dropWhile_hd [OF ok, of e, unfolded Let_def]
  obtain b rest where cs: "check_shadows e sis = (b, rest)" by fastforce
  show ?case
  proof (cases "bucket_key e \<in> bucket_key ` set si")
    case True
    with hd have "check_shadows e (si # sis) = (True, dropWhile (\<lambda>s. BucketEntryIdCmp s e) si # sis)"
      by (simp add: Let_def)
    with True Cons.prems show ?thesis using dropWhile_above [OF ok, of e] dropWhile_ok [OF ok] by simp
  next
    case False
    with hd have "check_shadows e (si # sis) = (b, dropWhile (\<lambda>s. BucketEntryIdCmp s e) si # rest)"
      by (auto simp: Let_def cs)
    with False Cons show ?thesis using dropWhile_above [OF ok, of e] dropWhile_ok [OF ok]
      by (simp add: cs)
  qed
qed simp

lemma offer_all_correct:
  assumes "entries_ok (written it @ es)" and "mBuf it = None \<longrightarrow> mOut it = []"
    and "list_all entries_ok sis"
  shows "\<exists>it'. offer_all es (it, sis) = Inr it' \<and>
    written it' = written it @ filter (\<lambda>e. keeps it e \<and> \<not> shadowed_in sis (bucket_key e)) es"
  using assms
proof (induction es arbitrary: it sis)
  case (Cons e es)
  obtain b sis1 where cs: "check_shadows e sis = (b, sis1)" by fastforce
  have sh: "b \<longleftrightarrow> shadowed_in sis (bucket_key e)" "list_all entries_ok sis1"
    "bucket_key e \<le> k \<Longrightarrow> shadowed_in sis1 k \<longleftrightarrow> shadowed_in sis k" for k
    using check_shadows_correct [OF Cons.prems(3), of e] by (simp_all add: cs)
  have later: "filter (\<lambda>e. P e \<and> \<not> shadowed_in sis1 (bucket_key e)) es =
      filter (\<lambda>e. P e \<and> \<not> shadowed_in sis (bucket_key e)) es" for P
    using Cons.prems(1) sh(3) by (intro filter_cong) (auto simp: sorted_wrt_append)
  show ?case
  proof (cases b)
    case True
    have "entries_ok (written it @ es)" using Cons.prems(1) by (auto simp: sorted_wrt_append)
    from Cons.IH [OF this Cons.prems(2) sh(2)] sh(1) True show ?thesis
      by (simp add: maybe_put_def cs later)
  next
    case False
    obtain it1 where it1: "out_put e it = Inr it1" "written it1 = written it @ filter (keeps it) [e]"
      "mKeepDeadEntries it1 = mKeepDeadEntries it" "mBuf it1 = None \<longrightarrow> mOut it1 = []"
      using out_put_appends [of it e] Cons.prems by (auto simp: sorted_wrt_append)
    have k: "keeps it1 = keeps it" by (simp add: keeps_def fun_eq_iff it1(3))
    have "entries_ok (written it1 @ es)"
      using Cons.prems(1) it1(2) by (auto simp: sorted_wrt_append)
    from Cons.IH [OF this it1(4) sh(2)] obtain it2 where
      "offer_all es (it1, sis1) = Inr it2"
      "written it2 = written it1 @ filter (\<lambda>e. keeps it1 e \<and> \<not> shadowed_in sis1 (bucket_key e)) es"
      by (elim exE conjE) (rule that, assumption+)
    with it1 sh(1) False show ?thesis by (simp add: maybe_put_def cs k later)
  qed
qed (simp add: keeps_def)

section \<open>The contract of the merge\<close>

lemma getBucket_entries [simp]: "mEntries (getBucket bm it) = written it"
  by (simp add: getBucket_def Let_def Bucket_empty_def adoptFileAsBucket_def)

definition merged_entries :: "Bucket \<Rightarrow> Bucket \<Rightarrow> Bucket list \<Rightarrow> bool \<Rightarrow> BucketEntry list" where
  "merged_entries old new shadows keep =
     filter (\<lambda>e. (keep \<or> \<not> isDead e) \<and> \<not> shadowed_in (map mEntries shadows) (bucket_key e))
       (merge_entries (mEntries old) (mEntries new))"

definition mkBucket :: "BucketManager \<Rightarrow> BucketEntry list \<Rightarrow> Bucket" where
  "mkBucket bm es = (if es = [] then Bucket_empty else \<lparr>mHash = bm_hash bm es, mEntries = es\<rparr>)"

lemma getBucket_mk: "getBucket bm it = mkBucket bm (written it)"
  by (simp add: getBucket_def mkBucket_def Let_def adoptFileAsBucket_def)

lemma mkBucket_entries [simp]: "mEntries (mkBucket bm es) = es"
  by (simp add: mkBucket_def Bucket_empty_def)

lemma merge_eq:
  assumes "bucket_ok old" and "bucket_ok new" and "list_all bucket_ok shadows"
  shows "merge bm old new shadows keep = Inr (mkBucket bm (merged_entries old new shadows keep))"
proof -
  have "entries_ok (written (OutputIterator_new keep) @ merge_entries (mEntries old) (mEntries new))"
    using assms by (simp add: OutputIterator_new_def merge_entries_ok bucket_ok_def)
  from offer_all_correct [OF this, of "map mEntries shadows"] assms(3) obtain out where
    "offer_all (merge_entries (mEntries old) (mEntries new)) (OutputIterator_new keep, map mEntries shadows) = Inr out"
    "written out = merged_entries old new shadows keep"
    by (auto simp: merged_entries_def list_all_iff bucket_ok_def keeps_def OutputIterator_new_def)
  then show ?thesis by (simp add: merge_def merge_loop_offers getBucket_mk)
qed

lemma merged_entries_ok:
  assumes "bucket_ok old" and "bucket_ok new"
  shows "entries_ok (merged_entries old new shadows keep)"
  using merge_entries_ok assms
  by (auto simp: merged_entries_def bucket_ok_def sorted_wrt_map intro: sorted_wrt_filter)

lemma find_merged:
  assumes "bucket_ok old" and "bucket_ok new"
  shows "find_entry (merged_entries old new shadows keep) k =
    (if shadowed_in (map mEntries shadows) k then None
     else drop_dead keep
       (case bucket_find new k of Some e \<Rightarrow> Some e | None \<Rightarrow> bucket_find old k))"
proof -
  have ok: "entries_ok (merge_entries (mEntries old) (mEntries new))"
    using assms by (simp add: merge_entries_ok bucket_ok_def)
  show ?thesis
    unfolding merged_entries_def find_entry_filter [OF ok] drop_dead_def
    using assms by (auto simp: find_merge_entries bucket_ok_def dest: find_entry_key split: option.splits)
qed


lemma merge_spec:
  assumes "bucket_ok old" and "bucket_ok new" and "list_all bucket_ok shadows"
  obtains b where "merge bm old new shadows keep = Inr b" and "bucket_ok b"
    and "b = mkBucket bm (merged_entries old new shadows keep)"
    and "\<And>k. bucket_find b k =
      (if list_ex (\<lambda>s. bucket_find s k \<noteq> None) shadows then None
       else drop_dead keep (case bucket_find new k of Some e \<Rightarrow> Some e | None \<Rightarrow> bucket_find old k))"
proof
  show "merge bm old new shadows keep = Inr (mkBucket bm (merged_entries old new shadows keep))"
    using assms by (rule merge_eq)
  show "bucket_ok (mkBucket bm (merged_entries old new shadows keep))"
    using merged_entries_ok [OF assms(1,2)] by (simp add: bucket_ok_def)
  show "bucket_find (mkBucket bm (merged_entries old new shadows keep)) k =
      (if list_ex (\<lambda>s. bucket_find s k \<noteq> None) shadows then None
       else drop_dead keep (case bucket_find new k of Some e \<Rightarrow> Some e | None \<Rightarrow> bucket_find old k))" for k
    using find_merged [OF assms(1,2)] find_entry_None
    by (simp add: shadowed_in_def list_ex_iff)
qed simp

lemma written_sorted:
  assumes "distinct (map bucket_key es)"
  obtains it where "put_all (sort_key bucket_key es) (OutputIterator_new True) = Inr it"
    and "written it = sort_key bucket_key es" and "entries_ok (written it)"
proof -
  have ok: "entries_ok (sort_key bucket_key es)"
    using assms by (simp add: strict_sorted_iff distinct_map)
  moreover obtain it where it: "put_all (sort_key bucket_key es) (OutputIterator_new True) = Inr it"
    and w: "written it = written (OutputIterator_new True) @ filter (keeps (OutputIterator_new True)) (sort_key bucket_key es)"
    using put_all_appends [of "OutputIterator_new True" "sort_key bucket_key es"] ok
    by (auto simp: OutputIterator_new_def)
  from w have w: "written it = sort_key bucket_key es"
    by (simp add: OutputIterator_new_def keeps_def)
  show thesis using that [OF it w] ok unfolding w .
qed

lemma find_entry_set:
  assumes "entries_ok es" and "e \<in> set es"
  shows "find_entry es (bucket_key e) = Some e"
  using assms by (induction es) auto

lemma find_entry_unique:
  assumes "entries_ok es"
  shows "find_entry es k = Some e \<longleftrightarrow> e \<in> set es \<and> bucket_key e = k"
  using assms find_entry_set find_entry_key by blast

definition batch_entry :: "LedgerEntry list \<Rightarrow> LedgerKey list \<Rightarrow> LedgerKey \<Rightarrow> BucketEntry option" where
  "batch_entry live dead k =
     (if k \<in> set dead then Some (DEADENTRY k)
      else map_option LIVEENTRY (find (\<lambda>e. LedgerEntryKey e = k) live))"

lemma find_distinct:
  assumes "distinct (map f xs)"
  shows "find (\<lambda>x. f x = k) xs = Some x \<longleftrightarrow> x \<in> set xs \<and> f x = k"
  using assms by (induction xs) auto

lemma fresh_spec:
  assumes live: "distinct (map LedgerEntryKey liveEntries)" and dead: "distinct deadEntries"
  obtains b where "fresh bm liveEntries deadEntries = Inr b" and "bucket_ok b"
    and "\<And>k. bucket_find b k = batch_entry liveEntries deadEntries k"
proof -
  let ?l = "map LIVEENTRY liveEntries" and ?d = "map DEADENTRY deadEntries"
  have "distinct (map bucket_key ?l)" "distinct (map bucket_key ?d)"
    using assms by (simp_all add: comp_def)
  then obtain lo dd where lo: "put_all (sort_key bucket_key ?l) (OutputIterator_new True) = Inr lo"
      "written lo = sort_key bucket_key ?l" "entries_ok (written lo)"
    and dd: "put_all (sort_key bucket_key ?d) (OutputIterator_new True) = Inr dd"
      "written dd = sort_key bucket_key ?d" "entries_ok (written dd)"
    by (metis written_sorted)
  have ok: "bucket_ok (getBucket bm lo)" "bucket_ok (getBucket bm dd)"
    using lo(3) dd(3) by (simp_all add: bucket_ok_def)
  have fl: "bucket_find (getBucket bm lo) k = Some x \<longleftrightarrow>
      (\<exists>e. find (\<lambda>e. LedgerEntryKey e = k) liveEntries = Some e \<and> x = LIVEENTRY e)" for k x
    unfolding getBucket_entries find_entry_unique [OF lo(3)] find_distinct [OF live]
    by (auto simp: lo(2))
  have fd: "bucket_find (getBucket bm dd) k = Some x \<longleftrightarrow> k \<in> set deadEntries \<and> x = DEADENTRY k" for k x
    unfolding getBucket_entries find_entry_unique [OF dd(3)] by (auto simp: dd(2))
  define b where "b = mkBucket bm (merged_entries (getBucket bm lo) (getBucket bm dd) [] True)"
  have b: "merge bm (getBucket bm lo) (getBucket bm dd) [] True = Inr b" "bucket_ok b"
    "bucket_find b k = (case bucket_find (getBucket bm dd) k of Some e \<Rightarrow> Some e
       | None \<Rightarrow> bucket_find (getBucket bm lo) k)" for k
    using merge_eq [OF ok, of "[]"] merged_entries_ok [OF ok] find_merged [OF ok, of "[]"]
    by (simp_all add: b_def bucket_ok_def)
  show thesis
  proof (rule that)
    show "fresh bm liveEntries deadEntries = Inr b"
      using lo(1) dd(1) b(1) by (simp add: fresh_def)
    show "bucket_find b k = batch_entry liveEntries deadEntries k" for k
    proof (cases "k \<in> set deadEntries")
      case True
      with fd have "bucket_find (getBucket bm dd) k = Some (DEADENTRY k)" by blast
      with True b(3) show ?thesis by (simp add: batch_entry_def)
    next
      case False
      with fd have "bucket_find (getBucket bm dd) k = None" by (metis option.exhaust)
      moreover have "bucket_find (getBucket bm lo) k =
          map_option LIVEENTRY (find (\<lambda>e. LedgerEntryKey e = k) liveEntries)"
      proof (cases "find (\<lambda>e. LedgerEntryKey e = k) liveEntries")
        case None
        then have "bucket_find (getBucket bm lo) k \<noteq> Some x" for x using fl [of k x] by auto
        with None show ?thesis by auto
      next
        case (Some e)
        then show ?thesis using fl [of k "LIVEENTRY e"] by auto
      qed
      ultimately show ?thesis using False b(3) by (simp add: batch_entry_def)
    qed
  qed (rule b(2))
qed

section \<open>Properties\<close>

text \<open>C31: Merging two buckets succeeds and gives a bucket in strictly increasing key order. For a
  key that no shadow mentions it holds the entry of the newer bucket, or else that of the older
  one, except that dead entries are left out if they are not kept; of a key that a shadow
  mentions it holds nothing. The bucket's hash is that of its entries, or zero if it is empty.\<close>
theorem merge_correct:
  assumes "bucket_ok old" and "bucket_ok new" and "list_all bucket_ok shadows"
  shows "\<exists>b. merge bm old new shadows keep = Inr b \<and> bucket_ok b
    \<and> mHash b = (if mEntries b = [] then zero_hash else bm_hash bm (mEntries b))
    \<and> (\<forall>k. bucket_find b k =
      (if list_ex (\<lambda>s. bucket_find s k \<noteq> None) shadows then None
       else drop_dead keep (case bucket_find new k of Some e \<Rightarrow> Some e | None \<Rightarrow> bucket_find old k)))"
proof -
  obtain b where "merge bm old new shadows keep = Inr b" "bucket_ok b"
    "b = mkBucket bm (merged_entries old new shadows keep)"
    "\<And>k. bucket_find b k =
      (if list_ex (\<lambda>s. bucket_find s k \<noteq> None) shadows then None
       else drop_dead keep (case bucket_find new k of Some e \<Rightarrow> Some e | None \<Rightarrow> bucket_find old k))"
    using merge_spec [OF assms] by metis
  moreover from this(3) have "mHash b = (if mEntries b = [] then zero_hash else bm_hash bm (mEntries b))"
    by (auto simp: mkBucket_def Bucket_empty_def)
  ultimately show ?thesis by blast
qed

definition ex_old_bucket :: Bucket where
  "ex_old_bucket = \<lparr>mHash = [1], mEntries = [DEADENTRY (AccountKey [1]), DEADENTRY (AccountKey [3])]\<rparr>"

definition ex_new_bucket :: Bucket where
  "ex_new_bucket = \<lparr>mHash = [2], mEntries =
     [LIVEENTRY \<lparr>lastModifiedLedgerSeq = 7,
        le_data = DATA \<lparr>data_accountID = [1], data_dataName = [5], data_dataValue = [6]\<rparr>\<rparr>]\<rparr>"

theorem merge_correct_witness:
  "bucket_ok ex_old_bucket \<and> bucket_ok ex_new_bucket \<and>
   (\<exists>b. merge \<lparr>bm_hash = \<lambda>_. [9], bm_file = \<lambda>_. None\<rparr> ex_old_bucket ex_new_bucket [ex_old_bucket] True = Inr b
    \<and> bucket_ok b \<and> mHash b = (if mEntries b = [] then zero_hash else [9])
    \<and> (\<forall>k. bucket_find b k =
      (if list_ex (\<lambda>s. bucket_find s k \<noteq> None) [ex_old_bucket] then None
       else drop_dead True
         (case bucket_find ex_new_bucket k of Some e \<Rightarrow> Some e | None \<Rightarrow> bucket_find ex_old_bucket k))))"
proof -
  have o: "bucket_ok ex_old_bucket"
    by (simp add: bucket_ok_def ex_old_bucket_def less_LedgerKey_def LedgerEntryIdCmp_def)
  have n: "bucket_ok ex_new_bucket"
    by (simp add: bucket_ok_def ex_new_bucket_def)
  have s: "list_all bucket_ok [ex_old_bucket]" using o by simp
  show ?thesis
    using merge_correct [OF o n s, of "\<lparr>bm_hash = \<lambda>_. [9], bm_file = \<lambda>_. None\<rparr>" True]
    unfolding BucketManager.simps by (intro conjI o n)
qed

end
