(* ===== verification/Future_Bucket.thy ===== *)
theory Future_Bucket
  imports Bucket_Merge
begin

text \<open>
  A merge in progress (\<open>bucket/FutureBucket.cpp\<close>): started on a worker thread, resolved when its
  result is needed, saved with its inputs' hashes and restarted after a restart of the node.

  The task a \<open>std::shared_future\<close> waits for has a result that depends on its inputs only, so the
  future is that result, and waiting for it reads it; \<open>None\<close> is the future with no task. An
  assertion that fails on the worker ends the process, as one on the main thread does. A hash
  string is kept as the hash it spells, and as \<open>None\<close> when it is empty.

  The default constructor and \<open>load\<close> leave \<open>mKeepDeadEntries\<close> uninitialized: what the memory
  happened to hold is the argument \<open>junk\<close>.
\<close>

section \<open>The object\<close>

datatype FutureBucketState =
    FB_CLEAR | FB_HASH_OUTPUT | FB_HASH_INPUTS | FB_LIVE_OUTPUT | FB_LIVE_INPUTS

record FutureBucket =
  mState :: FutureBucketState
  mInputCurrBucket :: "Bucket option"
  mInputSnapBucket :: "Bucket option"
  mInputShadowBuckets :: "Bucket list"
  mOutputBucket :: "Bucket option"
  mInputCurrBucketHash :: "Hash option"
  mInputSnapBucketHash :: "Hash option"
  mInputShadowBucketHashes :: "Hash list"
  mOutputBucketHash :: "Hash option"
  fb_mKeepDeadEntries :: bool

definition FutureBucket_default :: "bool \<Rightarrow> FutureBucket" where
  "FutureBucket_default junk =
     \<lparr>mState = FB_CLEAR, mInputCurrBucket = None, mInputSnapBucket = None, mInputShadowBuckets = [],
      mOutputBucket = None, mInputCurrBucketHash = None, mInputSnapBucketHash = None,
      mInputShadowBucketHashes = [], mOutputBucketHash = None, fb_mKeepDeadEntries = junk\<rparr>"

definition isLive :: "FutureBucket \<Rightarrow> bool" where
  "isLive fb \<longleftrightarrow> mState fb = FB_LIVE_INPUTS \<or> mState fb = FB_LIVE_OUTPUT"

definition isMerging :: "FutureBucket \<Rightarrow> bool" where
  "isMerging fb \<longleftrightarrow> mState fb = FB_LIVE_INPUTS"

definition hasHashes :: "FutureBucket \<Rightarrow> bool" where
  "hasHashes fb \<longleftrightarrow> mState fb = FB_HASH_INPUTS \<or> mState fb = FB_HASH_OUTPUT"

definition clearInputs :: "FutureBucket \<Rightarrow> FutureBucket" where
  "clearInputs fb =
     fb\<lparr>mInputShadowBuckets := [], mInputSnapBucket := None, mInputCurrBucket := None,
        mInputShadowBucketHashes := [], mInputSnapBucketHash := None, mInputCurrBucketHash := None\<rparr>"

definition clearOutput :: "FutureBucket \<Rightarrow> FutureBucket" where
  "clearOutput fb = fb\<lparr>mOutputBucket := None, mOutputBucketHash := None\<rparr>"

definition clear :: "FutureBucket \<Rightarrow> FutureBucket" where
  "clear fb = clearOutput (clearInputs (fb\<lparr>mState := FB_CLEAR\<rparr>))"

section \<open>Checks\<close>

text \<open>A bucket pointer that is set has the hash that goes with it. \<open>hexToBin256\<close> of an empty
  string throws, so a missing hash fails too.\<close>

definition checkHashEq :: "Bucket \<Rightarrow> Hash option \<Rightarrow> bool" where
  "checkHashEq b h \<longleftrightarrow> h = Some (mHash b)"

definition checkHashesMatch :: "FutureBucket \<Rightarrow> bool" where
  "checkHashesMatch fb \<longleftrightarrow>
     (if mInputShadowBuckets fb \<noteq> []
      then length (mInputShadowBuckets fb) = length (mInputShadowBucketHashes fb)
        \<and> list_all2 (\<lambda>b h. checkHashEq b (Some h)) (mInputShadowBuckets fb) (mInputShadowBucketHashes fb)
      else True)
     \<and> (case mInputSnapBucket fb of Some b \<Rightarrow> checkHashEq b (mInputSnapBucketHash fb) | None \<Rightarrow> True)
     \<and> (case mInputCurrBucket fb of Some b \<Rightarrow> checkHashEq b (mInputCurrBucketHash fb) | None \<Rightarrow> True)
     \<and> (case (mOutputBucket fb, mOutputBucketHash fb) of
          (Some b, Some h) \<Rightarrow> checkHashEq b (Some h)
        | _ \<Rightarrow> True)"

definition checkState :: "FutureBucket \<Rightarrow> bool" where
  "checkState fb \<longleftrightarrow>
     (case mState fb of
        FB_CLEAR \<Rightarrow>
          mInputShadowBuckets fb = [] \<and> mInputSnapBucket fb = None \<and> mInputCurrBucket fb = None
          \<and> mOutputBucket fb = None \<and> mInputShadowBucketHashes fb = []
          \<and> mInputSnapBucketHash fb = None \<and> mInputCurrBucketHash fb = None
          \<and> mOutputBucketHash fb = None
      | FB_LIVE_INPUTS \<Rightarrow>
          mInputSnapBucket fb \<noteq> None \<and> mInputCurrBucket fb \<noteq> None \<and> mOutputBucket fb \<noteq> None
          \<and> mOutputBucketHash fb = None \<and> checkHashesMatch fb
      | FB_LIVE_OUTPUT \<Rightarrow>
          mOutputBucket fb \<noteq> None \<and> mOutputBucketHash fb \<noteq> None \<and> checkHashesMatch fb
      | FB_HASH_INPUTS \<Rightarrow>
          mInputSnapBucket fb = None \<and> mInputCurrBucket fb = None \<and> mOutputBucket fb = None
          \<and> mInputSnapBucketHash fb \<noteq> None \<and> mInputCurrBucketHash fb \<noteq> None
          \<and> mOutputBucketHash fb = None
      | FB_HASH_OUTPUT \<Rightarrow>
          mInputSnapBucket fb = None \<and> mInputCurrBucket fb = None \<and> mOutputBucket fb = None
          \<and> mInputSnapBucketHash fb = None \<and> mInputCurrBucketHash fb = None
          \<and> mOutputBucketHash fb \<noteq> None)"

section \<open>Merging\<close>

definition startMerge :: "BucketManager \<Rightarrow> FutureBucket \<Rightarrow> FutureBucket result" where
  "startMerge bm fb =
     dbgAssert (mState fb = FB_LIVE_INPUTS)
       (case (mInputCurrBucket fb, mInputSnapBucket fb) of
          (Some curr0, Some snap) \<Rightarrow>
            dbgAssert (mOutputBucket fb = None)
              (bindE (merge bm curr0 snap (mInputShadowBuckets fb) (fb_mKeepDeadEntries fb)) (\<lambda>res.
               let fb' = fb\<lparr>mOutputBucket := Some res\<rparr>
               in dbgAssert (checkState fb') (Inr fb')))
        | _ \<Rightarrow> Inl DbgAssert)"

definition FutureBucket_inputs ::
  "BucketManager \<Rightarrow> Bucket \<Rightarrow> Bucket \<Rightarrow> Bucket list \<Rightarrow> bool \<Rightarrow> FutureBucket result" where
  "FutureBucket_inputs bm curr0 snap shadows keepDeadEntries =
     startMerge bm
       \<lparr>mState = FB_LIVE_INPUTS, mInputCurrBucket = Some curr0, mInputSnapBucket = Some snap,
        mInputShadowBuckets = shadows, mOutputBucket = None,
        mInputCurrBucketHash = Some (mHash curr0), mInputSnapBucketHash = Some (mHash snap),
        mInputShadowBucketHashes = map mHash shadows, mOutputBucketHash = None,
        fb_mKeepDeadEntries = keepDeadEntries\<rparr>"

definition setLiveOutput :: "Bucket \<Rightarrow> FutureBucket \<Rightarrow> FutureBucket result" where
  "setLiveOutput output fb =
     (let fb' = fb\<lparr>mState := FB_LIVE_OUTPUT, mOutputBucketHash := Some (mHash output),
                   mOutputBucket := Some output\<rparr>
      in dbgAssert (checkState fb') (Inr fb'))"

text \<open>\<open>resolve\<close> returns the bucket and leaves the object with its output.\<close>

definition resolve :: "FutureBucket \<Rightarrow> (Bucket \<times> FutureBucket) result" where
  "resolve fb =
     dbgAssert (checkState fb) (dbgAssert (isLive fb)
       (let fb1 = clearInputs fb
        in deref (mOutputBucket fb1) (\<lambda>bucket.
             bindE
               (case mOutputBucketHash fb1 of
                  None \<Rightarrow> Inr (fb1\<lparr>mOutputBucketHash := Some (mHash bucket)\<rparr>)
                | Some h \<Rightarrow> dbgAssert (checkHashEq bucket (Some h)) (Inr fb1))
               (\<lambda>fb2. let fb3 = fb2\<lparr>mState := FB_LIVE_OUTPUT\<rparr>
                      in dbgAssert (checkState fb3) (Inr (bucket, fb3))))))"

definition hasOutputHash :: "FutureBucket \<Rightarrow> bool result" where
  "hasOutputHash fb =
     (if mState fb = FB_LIVE_OUTPUT \<or> mState fb = FB_HASH_OUTPUT
      then dbgAssert (mOutputBucketHash fb \<noteq> None) (Inr True)
      else Inr False)"

definition getOutputHash :: "FutureBucket \<Rightarrow> Hash result" where
  "getOutputHash fb =
     dbgAssert (mState fb = FB_LIVE_OUTPUT \<or> mState fb = FB_HASH_OUTPUT)
       (case mOutputBucketHash fb of Some h \<Rightarrow> Inr h | None \<Rightarrow> Inl DbgAssert)"

text \<open>The loop of \<open>makeLive\<close> over the hashes of the shadows.\<close>

fun load_shadows :: "BucketManager \<Rightarrow> Hash list \<Rightarrow> Bucket list result" where
  "load_shadows bm [] = Inr []"
| "load_shadows bm (h # hs) =
     (case getBucketByHash bm h of
        None \<Rightarrow> Inl DbgAssert
      | Some b \<Rightarrow> bindE (load_shadows bm hs) (\<lambda>bs. Inr (b # bs)))"

definition makeLive :: "BucketManager \<Rightarrow> FutureBucket \<Rightarrow> FutureBucket result" where
  "makeLive bm fb =
     dbgAssert (checkState fb) (dbgAssert (\<not> isLive fb) (dbgAssert (hasHashes fb)
       (bindE (hasOutputHash fb) (\<lambda>out.
          if out then
            bindE (getOutputHash fb) (\<lambda>h.
              deref (getBucketByHash bm h) (\<lambda>b. setLiveOutput b fb))
          else
            dbgAssert (mState fb = FB_HASH_INPUTS)
              (deref (mInputCurrBucketHash fb) (\<lambda>ch. deref (mInputSnapBucketHash fb) (\<lambda>sh.
               dbgAssert (mInputShadowBuckets fb = [])
                 (bindE (load_shadows bm (mInputShadowBucketHashes fb)) (\<lambda>bs.
                  bindE
                    (startMerge bm
                      (fb\<lparr>mInputCurrBucket := getBucketByHash bm ch,
                          mInputSnapBucket := getBucketByHash bm sh,
                          mInputShadowBuckets := bs, mState := FB_LIVE_INPUTS\<rparr>))
                    (\<lambda>fb'. dbgAssert (isLive fb') (Inr fb')))))))))))"

definition getHashes :: "FutureBucket \<Rightarrow> Hash list" where
  "getHashes fb =
     (case mInputCurrBucketHash fb of Some h \<Rightarrow> [h] | None \<Rightarrow> [])
     @ (case mInputSnapBucketHash fb of Some h \<Rightarrow> [h] | None \<Rightarrow> [])
     @ mInputShadowBucketHashes fb
     @ (case mOutputBucketHash fb of Some h \<Rightarrow> [h] | None \<Rightarrow> [])"

section \<open>Saving and loading\<close>

datatype FutureBucketArchive =
    ArClear
  | ArInputs "Hash option" "Hash option" "Hash list"
  | ArOutput "Hash option"

definition fb_save :: "FutureBucket \<Rightarrow> FutureBucketArchive result" where
  "fb_save fb =
     dbgAssert (checkState fb)
       (Inr (case mState fb of
          FB_LIVE_INPUTS \<Rightarrow>
            ArInputs (mInputCurrBucketHash fb) (mInputSnapBucketHash fb) (mInputShadowBucketHashes fb)
        | FB_HASH_INPUTS \<Rightarrow>
            ArInputs (mInputCurrBucketHash fb) (mInputSnapBucketHash fb) (mInputShadowBucketHashes fb)
        | FB_LIVE_OUTPUT \<Rightarrow> ArOutput (mOutputBucketHash fb)
        | FB_HASH_OUTPUT \<Rightarrow> ArOutput (mOutputBucketHash fb)
        | FB_CLEAR \<Rightarrow> ArClear))"

definition fb_load :: "FutureBucketArchive \<Rightarrow> FutureBucket \<Rightarrow> FutureBucket result" where
  "fb_load ar fb =
     (let fb0 = clear fb;
          fb1 = (case ar of
              ArInputs c s shs \<Rightarrow>
                fb0\<lparr>mState := FB_HASH_INPUTS, mInputCurrBucketHash := c, mInputSnapBucketHash := s,
                    mInputShadowBucketHashes := shs\<rparr>
            | ArOutput h \<Rightarrow> fb0\<lparr>mState := FB_HASH_OUTPUT, mOutputBucketHash := h\<rparr>
            | ArClear \<Rightarrow> fb0)
      in dbgAssert (checkState fb1) (Inr fb1))"

section \<open>Objects as the code builds them\<close>

text \<open>Either no merge, or a merge of well-formed buckets in progress, or its result.\<close>

definition fb_ok :: "FutureBucket \<Rightarrow> bool" where
  "fb_ok fb \<longleftrightarrow> checkState fb \<and> \<not> hasHashes fb
     \<and> (\<forall>b. mOutputBucket fb = Some b \<longrightarrow> bucket_ok b)"

lemma checkHashEq_self [simp]: "checkHashEq b (Some (mHash b))"
  by (simp add: checkHashEq_def)

lemma shadow_hashes_match [simp]:
  "list_all2 (\<lambda>b h. checkHashEq b (Some h)) bs (map mHash bs)"
  by (induction bs) auto

lemma clear_ok [simp]: "fb_ok (clear fb)" "mState (clear fb) = FB_CLEAR"
  "\<not> isLive (clear fb)" "\<not> isMerging (clear fb)"
  by (auto simp: fb_ok_def clear_def clearInputs_def clearOutput_def checkState_def hasHashes_def
      isLive_def isMerging_def)

lemma FutureBucket_inputs_eq:
  assumes "merge bm curr0 snap shadows keep = Inr b"
  shows "FutureBucket_inputs bm curr0 snap shadows keep =
    Inr \<lparr>mState = FB_LIVE_INPUTS, mInputCurrBucket = Some curr0, mInputSnapBucket = Some snap,
        mInputShadowBuckets = shadows, mOutputBucket = Some b,
        mInputCurrBucketHash = Some (mHash curr0), mInputSnapBucketHash = Some (mHash snap),
        mInputShadowBucketHashes = map mHash shadows, mOutputBucketHash = None,
        fb_mKeepDeadEntries = keep\<rparr>"
  using assms by (simp add: FutureBucket_inputs_def startMerge_def checkState_def checkHashesMatch_def Let_def)

lemma resolve_eq:
  assumes "fb_ok fb" and "isLive fb"
  obtains b fb' where "mOutputBucket fb = Some b" and "resolve fb = Inr (b, fb')" and "bucket_ok b"
proof -
  obtain b where b: "mOutputBucket fb = Some b"
    using assms by (auto simp: fb_ok_def isLive_def checkState_def split: FutureBucketState.splits)
  with assms have "\<exists>fb'. resolve fb = Inr (b, fb')"
    by (auto simp: fb_ok_def isLive_def checkState_def resolve_def clearInputs_def
        checkHashesMatch_def split: option.splits)
  with b assms that show thesis by (auto simp: fb_ok_def)
qed

section \<open>Restarting a merge\<close>

text \<open>The bucket directory holds a bucket under its hash.\<close>

definition on_disk :: "BucketManager \<Rightarrow> Bucket \<Rightarrow> bool" where
  "on_disk bm b \<longleftrightarrow> getBucketByHash bm (mHash b) = Some b"

lemma load_shadows_on_disk:
  "list_all (on_disk bm) bs \<Longrightarrow> load_shadows bm (map mHash bs) = Inr bs"
  by (induction bs) (auto simp: on_disk_def)

lemma merged_entries_flag:
  "merged_entries old new shadows False =
    filter (\<lambda>e. \<not> isDead e) (merged_entries old new shadows True)"
  by (auto simp: merged_entries_def intro: filter_cong)

definition saved_inputs :: "bool \<Rightarrow> Bucket \<Rightarrow> Bucket \<Rightarrow> Bucket list \<Rightarrow> FutureBucket" where
  "saved_inputs junk curr0 snap shadows =
     (FutureBucket_default junk)\<lparr>mState := FB_HASH_INPUTS,
       mInputCurrBucketHash := Some (mHash curr0), mInputSnapBucketHash := Some (mHash snap),
       mInputShadowBucketHashes := map mHash shadows\<rparr>"

lemma save_load_inputs:
  assumes "FutureBucket_inputs bm curr0 snap shadows keep = Inr fb"
    and "merge bm curr0 snap shadows keep = Inr b"
  shows "\<exists>ar. fb_save fb = Inr ar
    \<and> fb_load ar (FutureBucket_default junk) = Inr (saved_inputs junk curr0 snap shadows)"
  using assms(1)
  by (auto simp: FutureBucket_inputs_eq [OF assms(2)] fb_save_def fb_load_def FutureBucket_default_def
      clear_def clearInputs_def clearOutput_def checkState_def checkHashesMatch_def saved_inputs_def
      Let_def)

lemma makeLive_saved:
  assumes "on_disk bm curr0" "on_disk bm snap" "list_all (on_disk bm) shadows"
    and "merge bm curr0 snap shadows junk = Inr b"
  shows "\<exists>fb2. makeLive bm (saved_inputs junk curr0 snap shadows) = Inr fb2 \<and> isMerging fb2
    \<and> mInputCurrBucket fb2 = Some curr0 \<and> mInputSnapBucket fb2 = Some snap
    \<and> mInputShadowBuckets fb2 = shadows \<and> mOutputBucket fb2 = Some b"
  using assms load_shadows_on_disk [OF assms(3)]
  by (simp add: makeLive_def saved_inputs_def FutureBucket_default_def checkState_def Let_def
      isLive_def isMerging_def hasHashes_def hasOutputHash_def startMerge_def on_disk_def
      checkHashesMatch_def)

text \<open>C32: A merge in progress that keeps dead entries is saved, and later loaded and started again,
  with all its input buckets on disk. The restarted merge has the same inputs; it has the same
  result if the uninitialized flag of the loaded object happens to be true, and otherwise the
  result without its dead entries.\<close>
theorem restarted_merge:
  assumes ok: "bucket_ok curr0" "bucket_ok snap" "list_all bucket_ok shadows"
    and disk: "on_disk bm curr0" "on_disk bm snap" "list_all (on_disk bm) shadows"
  shows "\<exists>fb ar fb1 fb2 b b2. FutureBucket_inputs bm curr0 snap shadows True = Inr fb
    \<and> mOutputBucket fb = Some b \<and> fb_save fb = Inr ar
    \<and> fb_load ar (FutureBucket_default junk) = Inr fb1 \<and> makeLive bm fb1 = Inr fb2
    \<and> isMerging fb2 \<and> mInputCurrBucket fb2 = Some curr0 \<and> mInputSnapBucket fb2 = Some snap
    \<and> mInputShadowBuckets fb2 = shadows \<and> mOutputBucket fb2 = Some b2
    \<and> mEntries b2 = (if junk then mEntries b else filter (\<lambda>e. \<not> isDead e) (mEntries b))"
proof -
  let ?b = "\<lambda>keep. mkBucket bm (merged_entries curr0 snap shadows keep)"
  note m = merge_eq [OF ok, of bm]
  have e: "mEntries (?b junk) = (if junk then mEntries (?b True) else filter (\<lambda>e. \<not> isDead e) (mEntries (?b True)))"
    by (simp add: merged_entries_flag)
  obtain fb where fb: "FutureBucket_inputs bm curr0 snap shadows True = Inr fb" "mOutputBucket fb = Some (?b True)"
    using FutureBucket_inputs_eq [OF m] by simp
  obtain ar where "fb_save fb = Inr ar"
    "fb_load ar (FutureBucket_default junk) = Inr (saved_inputs junk curr0 snap shadows)"
    using save_load_inputs [OF fb(1) m] by blast
  with fb makeLive_saved [OF disk m] e show ?thesis by blast
qed

text \<open>The merge of a bucket with one dead entry: the restart loses it if the flag is false.\<close>

definition ex_disk :: BucketManager where
  "ex_disk = \<lparr>bm_hash = \<lambda>es. [3],
     bm_file = \<lambda>h. if h = [1] then Some [DEADENTRY (AccountKey [1])] else None\<rparr>"

definition ex_dead :: Bucket where
  "ex_dead = \<lparr>mHash = [1], mEntries = [DEADENTRY (AccountKey [1])]\<rparr>"

theorem restarted_merge_witness:
  "\<exists>fb ar fb1 fb2 b b2. FutureBucket_inputs ex_disk Bucket_empty ex_dead [] True = Inr fb
    \<and> mOutputBucket fb = Some b \<and> mEntries b = [DEADENTRY (AccountKey [1])] \<and> fb_save fb = Inr ar
    \<and> fb_load ar (FutureBucket_default False) = Inr fb1 \<and> makeLive ex_disk fb1 = Inr fb2
    \<and> mInputSnapBucket fb2 = Some ex_dead \<and> mOutputBucket fb2 = Some b2 \<and> mEntries b2 = []"
proof -
  have ok: "bucket_ok Bucket_empty" "bucket_ok ex_dead" "list_all bucket_ok []"
    by (simp_all add: bucket_ok_def Bucket_empty_def ex_dead_def)
  have disk: "on_disk ex_disk Bucket_empty" "on_disk ex_disk ex_dead" "list_all (on_disk ex_disk) []"
    by (simp_all add: on_disk_def getBucketByHash_def Bucket_empty_def ex_dead_def ex_disk_def
        zero_hash_def isZero_def list_all_iff)
  have b: "mEntries b = [DEADENTRY (AccountKey [1])]"
    if "FutureBucket_inputs ex_disk Bucket_empty ex_dead [] True = Inr fb" "mOutputBucket fb = Some b" for fb b
    using that FutureBucket_inputs_eq [OF merge_eq [OF ok, of ex_disk True]]
    by (auto simp: merged_entries_def ex_dead_def Bucket_empty_def)
  obtain fb ar fb1 fb2 b0 b2 where r: "FutureBucket_inputs ex_disk Bucket_empty ex_dead [] True = Inr fb"
    "mOutputBucket fb = Some b0" "fb_save fb = Inr ar"
    "fb_load ar (FutureBucket_default False) = Inr fb1" "makeLive ex_disk fb1 = Inr fb2"
    "mInputSnapBucket fb2 = Some ex_dead" "mOutputBucket fb2 = Some b2"
    "mEntries b2 = (if False then mEntries b0 else filter (\<lambda>e. \<not> isDead e) (mEntries b0))"
    using restarted_merge [OF ok disk, of False] by blast
  with b [OF r(1,2)] have "mEntries b2 = []" by simp
  with r b [OF r(1,2)] show ?thesis by blast
qed

end
