(* ===== verification/Bucket_List.thy ===== *)
theory Bucket_List
  imports Future_Bucket
begin

text \<open>
  The bucket list (\<open>bucket/BucketList.cpp\<close>): levels of exponentially growing size, each with a
  \<open>curr\<close> and a \<open>snap\<close> bucket and the merge that will be its next \<open>curr\<close>. Ledger numbers are
  32-bit words; levels are small numbers.

  What a bucket list says of a key is what the first bucket that mentions it says, from level 0
  down, \<open>curr\<close> before \<open>snap\<close>. The theory \<open>Bucket_List_Refinement\<close> shows that this is the ledger.
\<close>

unbundle bit_operations_syntax

section \<open>Level arithmetic\<close>

definition kNumLevels :: nat where
  "kNumLevels = 11"

text \<open>The assertion of \<open>levelSize\<close> on the level is kept by all callers below, which never leave
  the levels of the list.\<close>

definition levelSize :: "nat \<Rightarrow> uint32" where
  "levelSize level = push_bit (2 * (level + 1)) 1"

definition levelHalf :: "nat \<Rightarrow> uint32" where
  "levelHalf level = drop_bit 1 (levelSize level)"

definition ledger_mask :: "uint32 \<Rightarrow> uint32 \<Rightarrow> uint32" where
  "ledger_mask v m = v AND NOT (m - 1)"

definition levelShouldSpill :: "uint32 \<Rightarrow> nat \<Rightarrow> bool" where
  "levelShouldSpill ledger level =
     (if level = kNumLevels - 1 then False
      else ledger = ledger_mask ledger (levelHalf level) \<or> ledger = ledger_mask ledger (levelSize level))"

section \<open>Levels\<close>

record BucketLevel =
  mLevel :: nat
  mNextCurr :: FutureBucket
  mCurr :: Bucket
  mSnap :: Bucket

definition BucketLevel_new :: "bool \<Rightarrow> nat \<Rightarrow> BucketLevel" where
  "BucketLevel_new junk i =
     \<lparr>mLevel = i, mNextCurr = FutureBucket_default junk, mCurr = Bucket_empty, mSnap = Bucket_empty\<rparr>"

definition setCurr :: "Bucket \<Rightarrow> BucketLevel \<Rightarrow> BucketLevel" where
  "setCurr b l = l\<lparr>mNextCurr := clear (mNextCurr l), mCurr := b\<rparr>"

definition setSnap :: "Bucket \<Rightarrow> BucketLevel \<Rightarrow> BucketLevel" where
  "setSnap b l = l\<lparr>mSnap := b\<rparr>"

definition setNext :: "FutureBucket \<Rightarrow> BucketLevel \<Rightarrow> BucketLevel" where
  "setNext fb l = l\<lparr>mNextCurr := fb\<rparr>"

definition level_commit :: "BucketLevel \<Rightarrow> BucketLevel result" where
  "level_commit l =
     bindE
       (if isLive (mNextCurr l)
        then bindE (resolve (mNextCurr l)) (\<lambda>(b, fb). Inr (setCurr b (l\<lparr>mNextCurr := fb\<rparr>)))
        else Inr l)
       (\<lambda>l'. dbgAssert (\<not> isMerging (mNextCurr l')) (Inr l'))"

definition level_prepare ::
  "BucketManager \<Rightarrow> uint32 \<Rightarrow> Bucket \<Rightarrow> Bucket list \<Rightarrow> BucketLevel \<Rightarrow> BucketLevel result" where
  "level_prepare bm currLedger snapB shadows l =
     dbgAssert (\<not> isMerging (mNextCurr l))
       (let currB =
          (if mLevel l \<noteq> 0 \<and> levelShouldSpill (currLedger + levelHalf (mLevel l - 1)) (mLevel l)
           then Bucket_empty else mCurr l);
          keepDeadEntries = (mLevel l < kNumLevels - 1)
        in bindE (FutureBucket_inputs bm currB snapB shadows keepDeadEntries) (\<lambda>fb.
             dbgAssert (isMerging fb) (Inr (l\<lparr>mNextCurr := fb\<rparr>))))"

definition level_snap :: "BucketLevel \<Rightarrow> Bucket \<times> BucketLevel" where
  "level_snap l = (let l' = l\<lparr>mSnap := mCurr l, mCurr := Bucket_empty\<rparr> in (mSnap l', l'))"

section \<open>The list\<close>

type_synonym BucketList = "BucketLevel list"

definition BucketList_new :: "(nat \<Rightarrow> bool) \<Rightarrow> BucketList" where
  "BucketList_new junk = map (\<lambda>i. BucketLevel_new (junk i) i) [0..<kNumLevels]"

text \<open>The loop over the levels from the highest down to 1.\<close>

primrec addBatch_loop ::
  "BucketManager \<Rightarrow> uint32 \<Rightarrow> nat \<Rightarrow> BucketList \<Rightarrow> Bucket list \<Rightarrow> (BucketList \<times> Bucket list) result" where
  "addBatch_loop bm currLedger 0 mLevels shadows = Inr (mLevels, shadows)"
| "addBatch_loop bm currLedger (Suc j) mLevels shadows =
     dbgAssert (length shadows \<ge> 2)
       (let shadows = butlast (butlast shadows)
        in if levelShouldSpill currLedger j then
             let (snapB, l0) = level_snap (mLevels ! j);
                 mLevels = mLevels[j := l0]
             in bindE (level_commit (mLevels ! Suc j)) (\<lambda>l.
                bindE (level_prepare bm currLedger snapB shadows l) (\<lambda>l.
                addBatch_loop bm currLedger j (mLevels[Suc j := l]) shadows))
           else addBatch_loop bm currLedger j mLevels shadows)"

definition addBatch ::
  "BucketManager \<Rightarrow> uint32 \<Rightarrow> LedgerEntry list \<Rightarrow> LedgerKey list \<Rightarrow> BucketList \<Rightarrow> BucketList result" where
  "addBatch bm currLedger liveEntries deadEntries mLevels =
     dbgAssert (currLedger > 0)
       (let shadows = concat (map (\<lambda>level. [mCurr level, mSnap level]) mLevels)
        in dbgAssert (length shadows \<ge> 2)
          (let shadows = butlast (butlast shadows)
           in bindE (addBatch_loop bm currLedger (length mLevels - 1) mLevels shadows)
             (\<lambda>(mLevels, shadows).
                dbgAssert (length shadows = 0)
                  (bindE (fresh bm liveEntries deadEntries) (\<lambda>batch.
                   bindE (level_prepare bm currLedger batch shadows (mLevels ! 0)) (\<lambda>l.
                   bindE (level_commit l) (\<lambda>l. Inr (mLevels[0 := l]))))))))"

fun restartMerges :: "BucketManager \<Rightarrow> BucketList \<Rightarrow> BucketList result" where
  "restartMerges bm [] = Inr []"
| "restartMerges bm (level # levels) =
     bindE
       (if hasHashes (mNextCurr level) \<and> \<not> isLive (mNextCurr level)
        then bindE (makeLive bm (mNextCurr level)) (\<lambda>fb. Inr (level\<lparr>mNextCurr := fb\<rparr>))
        else Inr level)
       (\<lambda>level. bindE (restartMerges bm levels) (\<lambda>levels. Inr (level # levels)))"

text \<open>\<open>getHash\<close> of a level and of the list; \<open>sha\<close> hashes a concatenation of byte strings.\<close>

definition level_getHash :: "(opaque \<Rightarrow> Hash) \<Rightarrow> BucketLevel \<Rightarrow> Hash" where
  "level_getHash sha l = sha (mHash (mCurr l) @ mHash (mSnap l))"

definition list_getHash :: "(opaque \<Rightarrow> Hash) \<Rightarrow> BucketList \<Rightarrow> Hash" where
  "list_getHash sha mLevels = sha (concat (map (level_getHash sha) mLevels))"

section \<open>When levels spill\<close>

lemma ledger_mask_pow:
  assumes "n < 32"
  shows "v = ledger_mask v (push_bit n 1) \<longleftrightarrow> 2 ^ n dvd unat v"
proof -
  have "ledger_mask v (push_bit n 1) = v AND NOT (mask n)"
    by (simp add: ledger_mask_def mask_eq_exp_minus_1 push_bit_eq_mult)
  moreover have "v = v AND NOT (mask n) \<longleftrightarrow> v AND mask n = 0"
    by (auto simp: bit_eq_iff bit_simps)
  moreover have "v AND mask n = 0 \<longleftrightarrow> unat (take_bit n v) = 0"
    by (simp add: take_bit_eq_mask word_unat_eq_iff)
  moreover have "unat (take_bit n v) = take_bit n (unat v)"
    by (rule unsigned_take_bit_eq)
  moreover have "take_bit n (unat v) = 0 \<longleftrightarrow> 2 ^ n dvd unat v"
    by (simp add: take_bit_eq_mod dvd_eq_mod_eq_0)
  ultimately show ?thesis by simp
qed

lemma halved_push_bit: "m < 31 \<Longrightarrow> drop_bit 1 (push_bit (Suc m) (1 :: uint32)) = push_bit m 1"
  by (rule bit_eqI)
    (auto simp: bit_push_bit_iff bit_drop_bit_eq bit_1_iff simp del: push_bit_Suc push_bit_of_1)

lemma levelHalf_eq: "level < 11 \<Longrightarrow> levelHalf level = push_bit (2 * level + 1) 1"
  using halved_push_bit [of "2 * level + 1"] by (simp add: levelHalf_def levelSize_def)

lemma kNumLevels_simps [simp]: "kNumLevels - 1 = 10" "kNumLevels - Suc 0 = 10" "0 < kNumLevels"
  by (simp_all add: kNumLevels_def)

text \<open>A level other than the last spills at the multiples of half its size.\<close>

lemma levelShouldSpill_iff:
  assumes "level < 11"
  shows "levelShouldSpill ledger level \<longleftrightarrow> level < 10 \<and> 2 ^ (2 * level + 1) dvd unat ledger"
proof (cases "level = 10")
  case False
  with assms have l: "level < 10" by simp
  have "2 ^ (2 * level + 2) dvd unat ledger \<Longrightarrow> 2 ^ (2 * level + 1) dvd unat ledger"
    by (rule dvd_trans [OF le_imp_power_dvd [of _ "2 * level + 2"]]) simp_all
  moreover have "levelSize level = push_bit (2 * level + 2) 1"
    by (simp add: levelSize_def)
  ultimately show ?thesis
    using l ledger_mask_pow [of "2 * level + 1" ledger] ledger_mask_pow [of "2 * level + 2" ledger]
    by (auto simp: levelShouldSpill_def levelHalf_eq)
qed (simp add: levelShouldSpill_def)

end
