(* ===== verification/Bucket_List_Refinement.thy ===== *)
theory Bucket_List_Refinement
  imports Bucket_List
begin

text \<open>
  The bucket list implements the ledger: after any number of ledgers the first bucket that
  mentions a key holds its current entry, or that it was deleted. This has to survive that
  merges lag behind by a spill of the level above, that a level's \<open>curr\<close> is left out of a merge
  when it is about to be pushed down, that entries mentioned further up are dropped, and that
  the lowest level forgets deletions.

  The argument is on partial maps first: \<open>V n\<close> is what the levels below \<open>n\<close> say, \<open>N n\<close> that with
  the \<open>curr\<close> of level \<open>n\<close>. The invariant of a merge in progress is that for keys that \<open>N\<close> does
  not mention it says the same as the buckets it will replace.
\<close>

section \<open>Layers of maps\<close>

type_synonym found = "LedgerKey \<Rightarrow> BucketEntry option"

primrec V :: "(nat \<Rightarrow> found) \<Rightarrow> (nat \<Rightarrow> found) \<Rightarrow> nat \<Rightarrow> found" where
  "V c s 0 = Map.empty"
| "V c s (Suc n) = s n ++ (c n ++ V c s n)"

abbreviation N :: "(nat \<Rightarrow> found) \<Rightarrow> (nat \<Rightarrow> found) \<Rightarrow> nat \<Rightarrow> found" where
  "N c s n \<equiv> c n ++ V c s n"

lemma V_cong:
  "(\<And>i. i < n \<Longrightarrow> c i = c' i) \<Longrightarrow> (\<And>i. i < n \<Longrightarrow> s i = s' i) \<Longrightarrow> V c s n = V c' s' n"
  by (induction n) auto

lemma map_add_same:
  assumes "\<And>k. g k = None \<Longrightarrow> f k = f' k"
  shows "f ++ g = f' ++ g"
  using assms by (auto simp: map_add_def fun_eq_iff split: option.splits)

text \<open>Equality up to forgotten deletions.\<close>

definition live_part :: "found \<Rightarrow> LedgerKey \<Rightarrow> LedgerEntry option" where
  "live_part f k = (case f k of Some (LIVEENTRY e) \<Rightarrow> Some e | _ \<Rightarrow> None)"

text \<open>One ledger, seen on maps: \<open>c\<close>, \<open>s\<close>, \<open>m\<close> are the \<open>curr\<close>, \<open>snap\<close> and merge of each level before,
  \<open>c'\<close>, \<open>s'\<close> those after; the levels below \<open>n\<close> spill and \<open>b\<close> is the batch.\<close>

definition layer_step ::
  "nat \<Rightarrow> (nat \<Rightarrow> found) \<Rightarrow> (nat \<Rightarrow> found) \<Rightarrow> (nat \<Rightarrow> found) \<Rightarrow> found \<Rightarrow>
   (nat \<Rightarrow> found) \<Rightarrow> (nat \<Rightarrow> found) \<Rightarrow> bool" where
  "layer_step n c s m b c' s' \<longleftrightarrow>
     (\<forall>i. c' i = (if i = 0 then (if n = 0 then c 0 ++ b else b) else if i \<le> n then m i else c i))
     \<and> (\<forall>i. s' i = (if i < n then c i else s i))"

text \<open>The merges of the levels that spill stand for the \<open>snap\<close> above them, that of the first
  level that does not for this and its \<open>curr\<close>, unless it is the last level.\<close>

definition merges_stand ::
  "nat \<Rightarrow> (nat \<Rightarrow> found) \<Rightarrow> (nat \<Rightarrow> found) \<Rightarrow> (nat \<Rightarrow> found) \<Rightarrow> bool" where
  "merges_stand n c s m \<longleftrightarrow>
     (\<forall>i k. Suc i < n \<longrightarrow> N c s i k = None \<longrightarrow> m (Suc i) k = s i k)
     \<and> (\<forall>i k. Suc i = n \<longrightarrow> n < 10 \<longrightarrow> N c s i k = None \<longrightarrow> m (Suc i) k = (c (Suc i) ++ s i) k)"

lemma stand_below:
  assumes "merges_stand n c s m" and "Suc i < n"
  shows "m (Suc i) ++ N c s i = s i ++ N c s i"
  using assms by (intro map_add_same) (auto simp: merges_stand_def)

lemma stand_at:
  assumes "merges_stand n c s m" and "Suc i = n" and "n < 10"
  shows "m n ++ N c s i = (c n ++ s i) ++ N c s i"
  using assms by (intro map_add_same) (auto simp: merges_stand_def)

lemma layer_step_simps:
  assumes "layer_step n c s m b c' s'"
  shows "0 < n \<Longrightarrow> c' 0 = b" and "n = 0 \<Longrightarrow> c' 0 = c 0 ++ b"
    and "0 < i \<Longrightarrow> i \<le> n \<Longrightarrow> c' i = m i" and "n < i \<Longrightarrow> c' i = c i"
    and "i < n \<Longrightarrow> s' i = c i" and "n \<le> i \<Longrightarrow> s' i = s i"
  using assms by (auto simp: layer_step_def)

lemma V_spilled:
  assumes step: "layer_step n c s m b c' s'" and stand: "merges_stand n c s m" and "i < n"
  shows "V c' s' (Suc i) = N c s i ++ b"
  using assms(3)
proof (induction i)
  case 0
  then show ?case by (simp add: layer_step_simps [OF step])
next
  case (Suc i)
  have "V c' s' (Suc (Suc i)) = c (Suc i) ++ (m (Suc i) ++ (N c s i ++ b))"
    using Suc by (simp only: V.simps(2) [of _ _ "Suc i"] layer_step_simps [OF step])
  also have "\<dots> = c (Suc i) ++ ((m (Suc i) ++ N c s i) ++ b)" by simp
  also have "\<dots> = c (Suc i) ++ ((s i ++ N c s i) ++ b)"
    by (simp only: stand_below [OF stand Suc.prems])
  also have "\<dots> = N c s (Suc i) ++ b" by simp
  finally show ?case .
qed

lemma N_spilled:
  assumes step: "layer_step n c s m b c' s'" and stand: "merges_stand n c s m" and "i < n"
  shows "N c' s' i = V c s i ++ b"
proof (cases i)
  case 0
  with assms show ?thesis by (simp add: layer_step_simps [OF step])
next
  case (Suc j)
  with assms have "N c' s' i = m (Suc j) ++ (N c s j ++ b)"
    by (simp only: Suc V_spilled [OF step stand, of j] layer_step_simps [OF step])
  also have "\<dots> = (m (Suc j) ++ N c s j) ++ b" by simp
  also have "\<dots> = (s j ++ N c s j) ++ b"
    using assms(3) by (simp only: Suc stand_below [OF stand])
  also have "\<dots> = V c s i ++ b" by (simp add: Suc)
  finally show ?thesis .
qed

lemma N_first_kept:
  assumes step: "layer_step n c s m b c' s'" and stand: "merges_stand n c s m" and "n < 10"
  shows "N c' s' n = N c s n ++ b"
proof (cases n)
  case 0
  then show ?thesis by (simp add: layer_step_simps [OF step])
next
  case (Suc j)
  have "N c' s' n = m n ++ (N c s j ++ b)"
    by (simp only: Suc V_spilled [OF step stand, of j] layer_step_simps [OF step])
  also have "\<dots> = (m n ++ N c s j) ++ b" by simp
  also have "\<dots> = ((c n ++ s j) ++ N c s j) ++ b" by (simp only: stand_at [OF stand Suc [symmetric] assms(3)])
  finally show ?thesis by (simp add: Suc)
qed

lemma layers_kept:
  assumes step: "layer_step n c s m b c' s'" and stand: "merges_stand n c s m" and "n \<le> i" and "n < 10"
  shows "N c' s' i = N c s i ++ b" and "V c' s' (Suc i) = V c s (Suc i) ++ b"
proof -
  have "N c' s' (n + d) = N c s (n + d) ++ b" for d
  proof (induction d)
    case 0
    show ?case using N_first_kept [OF step stand assms(4)] by simp
  next
    case (Suc d)
    have "N c' s' (Suc (n + d)) = c (Suc (n + d)) ++ (s (n + d) ++ N c' s' (n + d))"
      by (simp add: layer_step_simps [OF step])
    with Suc show ?case by simp
  qed
  from this [of "i - n"] assms(3) show 1: "N c' s' i = N c s i ++ b" by simp
  have "V c' s' (Suc i) = s i ++ N c' s' i"
    using assms(3) by (simp add: layer_step_simps [OF step])
  with 1 show "V c' s' (Suc i) = V c s (Suc i) ++ b" by simp
qed


lemma last_level_kept:
  assumes step: "layer_step 10 c s m b c' s'" and stand: "merges_stand 10 c s m"
    and last: "\<And>k. N c s 9 k = None \<Longrightarrow> m 10 k = drop_dead False ((c 10 ++ s 9) k)"
    and empty: "s 10 = Map.empty"
  shows "live_part (V c' s' 11) = live_part (V c s 11 ++ b)"
proof -
  have "V c' s' 11 = s' 10 ++ (c' 10 ++ V c' s' 10)" "V c s 11 = s 10 ++ (c 10 ++ (s 9 ++ N c s 9))"
    by (simp_all add: eval_nat_numeral)
  moreover have "V c' s' 10 = N c s 9 ++ b"
    using V_spilled [OF step stand, of 9] by simp
  moreover have "c' 10 = m 10" "s' 10 = Map.empty"
    using layer_step_simps [OF step] empty by simp_all
  ultimately show ?thesis
    using last empty
    by (auto simp: fun_eq_iff live_part_def map_add_def drop_dead_def split: option.splits BucketEntry.splits)
qed

section \<open>One level\<close>

definition level_ok :: "nat \<Rightarrow> BucketLevel \<Rightarrow> bool" where
  "level_ok i l \<longleftrightarrow>
     mLevel l = i \<and> bucket_ok (mCurr l) \<and> bucket_ok (mSnap l) \<and> fb_ok (mNextCurr l)"

definition committed :: "BucketLevel \<Rightarrow> Bucket" where
  "committed l = (if isLive (mNextCurr l) then the (mOutputBucket (mNextCurr l)) else mCurr l)"

definition started :: "BucketManager \<Rightarrow> Bucket \<Rightarrow> Bucket \<Rightarrow> Bucket list \<Rightarrow> bool \<Rightarrow> FutureBucket" where
  "started bm c s shadows keep =
     \<lparr>mState = FB_LIVE_INPUTS, mInputCurrBucket = Some c, mInputSnapBucket = Some s,
      mInputShadowBuckets = shadows,
      mOutputBucket = Some (mkBucket bm (merged_entries c s shadows keep)),
      mInputCurrBucketHash = Some (mHash c), mInputSnapBucketHash = Some (mHash s),
      mInputShadowBucketHashes = map mHash shadows, mOutputBucketHash = None,
      fb_mKeepDeadEntries = keep\<rparr>"

definition skips_curr :: "uint32 \<Rightarrow> nat \<Rightarrow> bool" where
  "skips_curr L i \<longleftrightarrow> i \<noteq> 0 \<and> levelShouldSpill (L + levelHalf (i - 1)) i"

definition prepared :: "BucketManager \<Rightarrow> uint32 \<Rightarrow> BucketLevel \<Rightarrow> Bucket \<Rightarrow> Bucket list \<Rightarrow> BucketLevel" where
  "prepared bm L l lower shadows =
     l\<lparr>mCurr := committed l,
       mNextCurr := started bm (if skips_curr L (mLevel l) then Bucket_empty else committed l) lower shadows
         (mLevel l < 10)\<rparr>"

lemma bucket_ok_empty [simp]: "bucket_ok Bucket_empty"
  by (simp add: bucket_ok_def Bucket_empty_def)

lemma find_Bucket_empty [simp]: "bucket_find Bucket_empty = Map.empty"
  by (simp add: Bucket_empty_def fun_eq_iff)

lemma committed_ok: "level_ok i l \<Longrightarrow> bucket_ok (committed l)"
  by (auto simp: level_ok_def committed_def elim!: resolve_eq)

lemma level_commit_eq:
  assumes "level_ok i l"
  obtains l' where "level_commit l = Inr l'" and "\<not> isMerging (mNextCurr l')" and "fb_ok (mNextCurr l')"
    and "\<not> isLive (mNextCurr l')" and "l' = l\<lparr>mCurr := committed l, mNextCurr := mNextCurr l'\<rparr>"
proof (cases "isLive (mNextCurr l)")
  case True
  then obtain b fb' where "mOutputBucket (mNextCurr l) = Some b" "resolve (mNextCurr l) = Inr (b, fb')"
    using assms by (auto simp: level_ok_def elim: resolve_eq)
  with True that [of "setCurr b (l\<lparr>mNextCurr := fb'\<rparr>)"] show thesis
    by (auto simp: level_commit_def setCurr_def committed_def)
next
  case False
  with assms that [of l] show thesis
    by (auto simp: level_commit_def committed_def isLive_def isMerging_def level_ok_def)
qed

lemma FutureBucket_inputs_started:
  assumes "bucket_ok c" and "bucket_ok s" and "list_all bucket_ok shadows"
  shows "FutureBucket_inputs bm c s shadows keep = Inr (started bm c s shadows keep)"
  using FutureBucket_inputs_eq [OF merge_eq [OF assms]] by (simp add: started_def)

lemma started_simps [simp]:
  "mOutputBucket (started bm c s shadows keep) = Some (mkBucket bm (merged_entries c s shadows keep))"
  "isMerging (started bm c s shadows keep)" "isLive (started bm c s shadows keep)"
  by (simp_all add: started_def isMerging_def isLive_def)

lemma started_ok:
  assumes "bucket_ok c" and "bucket_ok s"
  shows "fb_ok (started bm c s shadows keep)"
  using merged_entries_ok [OF assms]
  by (simp add: started_def fb_ok_def checkState_def checkHashesMatch_def hasHashes_def bucket_ok_def)

lemma level_prepare_eq:
  assumes "bucket_ok (mCurr l)" and "\<not> isMerging (mNextCurr l)"
    and "bucket_ok lower" and "list_all bucket_ok shadows"
  shows "level_prepare bm L lower shadows l =
    Inr (l\<lparr>mNextCurr := started bm (if skips_curr L (mLevel l) then Bucket_empty else mCurr l) lower shadows
         (mLevel l < 10)\<rparr>)"
  using assms
  by (auto simp: level_prepare_def FutureBucket_inputs_started Let_def skips_curr_def)

lemma commit_prepare:
  assumes "level_ok i l" and "bucket_ok lower" and "list_all bucket_ok shadows"
  shows "bindE (level_commit l) (\<lambda>l. bindE (level_prepare bm L lower shadows l) f) =
    f (prepared bm L l lower shadows)"
proof -
  obtain l' where l': "level_commit l = Inr l'" "\<not> isMerging (mNextCurr l')"
    "l' = l\<lparr>mCurr := committed l, mNextCurr := mNextCurr l'\<rparr>"
    using assms(1) by (rule level_commit_eq)
  have c: "mCurr l' = committed l" "mLevel l' = mLevel l"
    by (subst l'(3), simp)+
  have "l'\<lparr>mNextCurr := fb\<rparr> = l\<lparr>mCurr := committed l, mNextCurr := fb\<rparr>" for fb
    by (subst l'(3)) simp
  then show ?thesis
    using l' c level_prepare_eq [of l' lower shadows bm L] committed_ok [OF assms(1)] assms(2,3)
    by (simp add: prepared_def)
qed

lemma prepared_ok:
  assumes "level_ok i l" and "bucket_ok lower"
  shows "level_ok i (prepared bm L l lower shadows)"
  using assms committed_ok [OF assms(1)]
  by (auto simp: level_ok_def prepared_def intro!: started_ok)

lemma level_snap_ok [simp]:
  "level_ok i l \<Longrightarrow> level_ok i (snd (level_snap l))"
  "fst (level_snap l) = mCurr l" "mSnap (snd (level_snap l)) = mCurr l"
  "mCurr (snd (level_snap l)) = Bucket_empty" "mNextCurr (snd (level_snap l)) = mNextCurr l"
  "mLevel (snd (level_snap l)) = mLevel l"
  by (auto simp: level_ok_def level_snap_def Let_def)


section \<open>The loop over the levels\<close>

definition shadows_of :: "BucketList \<Rightarrow> Bucket list" where
  "shadows_of bl = concat (map (\<lambda>level. [mCurr level, mSnap level]) bl)"

definition spilled :: "uint32 \<Rightarrow> BucketList \<Rightarrow> nat \<Rightarrow> BucketLevel" where
  "spilled L bl j = (if levelShouldSpill L j then snd (level_snap (bl ! j)) else bl ! j)"

text \<open>Level \<open>j\<close> after the loop was entered at level \<open>i\<close>.\<close>

definition loop_level :: "BucketManager \<Rightarrow> uint32 \<Rightarrow> nat \<Rightarrow> BucketList \<Rightarrow> nat \<Rightarrow> BucketLevel" where
  "loop_level bm L i bl j =
     (if i < j then bl ! j
      else let l = (if j < i then spilled L bl j else bl ! j)
        in if j \<noteq> 0 \<and> levelShouldSpill L (j - 1)
           then prepared bm L l (mCurr (bl ! (j - 1))) (shadows_of (take (j - 1) bl))
           else l)"

lemma shadows_of_Nil [simp]: "shadows_of [] = []"
  by (simp add: shadows_of_def)

lemma length_shadows_of [simp]: "length (shadows_of bl) = 2 * length bl"
  by (induction bl) (simp_all add: shadows_of_def)

lemma pop_shadows:
  "i < length bl \<Longrightarrow> butlast (butlast (shadows_of (take (Suc i) bl))) = shadows_of (take i bl)"
  by (simp add: shadows_of_def take_Suc_conv_app_nth butlast_append)

lemma shadows_ok:
  assumes "\<And>j. j < i \<Longrightarrow> level_ok j (bl ! j)" and "i \<le> length bl"
  shows "list_all bucket_ok (shadows_of (take i bl))"
  using assms
proof (induction i)
  case (Suc i)
  then have "list_all bucket_ok (shadows_of (take i bl))" "level_ok i (bl ! i)" by simp_all
  with Suc.prems(2) show ?case by (simp add: take_Suc_conv_app_nth shadows_of_def level_ok_def)
qed simp

lemma addBatch_loop_eq:
  assumes "\<And>j. j \<le> i \<Longrightarrow> level_ok j (bl ! j)" and "i < length bl"
  shows "addBatch_loop bm L i bl (shadows_of (take i bl)) =
    Inr (map (loop_level bm L i bl) [0..<length bl], [])"
  using assms
proof (induction i arbitrary: bl)
  case 0
  have "map (loop_level bm L 0 bl) [0..<length bl] = map (nth bl) [0..<length bl]"
    by (intro map_cong) (auto simp: loop_level_def)
  then show ?case by (simp add: map_nth)
next
  case (Suc i)
  have sh: "list_all bucket_ok (shadows_of (take i bl))"
    using Suc.prems by (intro shadows_ok) simp_all
  show ?case
  proof (cases "levelShouldSpill L i")
    case True
    let ?bl = "bl[i := snd (level_snap (bl ! i)),
      Suc i := prepared bm L (bl ! Suc i) (mCurr (bl ! i)) (shadows_of (take i bl))]"
    have ok: "level_ok j (?bl ! j)" if "j \<le> i" for j
      using Suc.prems that by (auto simp: nth_list_update)
    have "addBatch_loop bm L i ?bl (shadows_of (take i ?bl)) =
        Inr (map (loop_level bm L i ?bl) [0..<length ?bl], [])"
      using Suc.prems(2) by (intro Suc.IH ok) simp_all
    moreover have "loop_level bm L i ?bl j = loop_level bm L (Suc i) bl j" for j
    proof -
      consider "j < i" | "j = i" | "j = Suc i" | "Suc i < j" by linarith
      then show ?thesis
        using Suc.prems(2) True by cases (auto simp: loop_level_def spilled_def nth_list_update Let_def)
    qed
    then have "map (loop_level bm L i ?bl) [0..<length bl] = map (loop_level bm L (Suc i) bl) [0..<length bl]"
      by simp
    moreover have "addBatch_loop bm L (Suc i) bl (shadows_of (take (Suc i) bl)) =
        addBatch_loop bm L i ?bl (shadows_of (take i bl))"
    proof -
      have lo: "bucket_ok (mCurr (bl ! i))" and li: "level_ok (Suc i) (bl ! Suc i)"
        using Suc.prems by (simp_all add: level_ok_def)
      show ?thesis
        using True Suc.prems(2) pop_shadows [of i bl] commit_prepare [OF li lo sh]
        by (simp add: Let_def case_prod_beta)
    qed
    ultimately show ?thesis by simp
  next
    case False
    have "loop_level bm L i bl j = loop_level bm L (Suc i) bl j" for j
    proof -
      consider "j < i" | "j = i" | "j = Suc i" | "Suc i < j" by linarith
      then show ?thesis using False by cases (auto simp: loop_level_def spilled_def Let_def)
    qed
    then have "map (loop_level bm L i bl) [0..<length bl] = map (loop_level bm L (Suc i) bl) [0..<length bl]"
      by simp
    moreover have "addBatch_loop bm L i bl (shadows_of (take i bl)) =
        Inr (map (loop_level bm L i bl) [0..<length bl], [])"
      using Suc.prems by (intro Suc.IH) simp_all
    ultimately show ?thesis
      using False Suc.prems(2) pop_shadows [of i bl] by (simp add: Let_def)
  qed
qed


section \<open>One ledger\<close>

text \<open>The list after a batch: the levels after the loop, with the batch merged into level 0.\<close>

definition batch_level :: "BucketManager \<Rightarrow> Bucket \<Rightarrow> BucketLevel \<Rightarrow> BucketLevel \<Rightarrow> bool" where
  "batch_level bm batch l l' \<longleftrightarrow>
     level_ok 0 l' \<and> \<not> isLive (mNextCurr l') \<and> mSnap l' = mSnap l
     \<and> mCurr l' = mkBucket bm (merged_entries (mCurr l) batch [] True)"

lemma batch_committed:
  assumes "level_ok 0 l" and "\<not> isMerging (mNextCurr l)" and "bucket_ok batch"
  shows "\<exists>l'. bindE (level_prepare bm L batch [] l) level_commit = Inr l' \<and> batch_level bm batch l l'"
proof -
  let ?l = "l\<lparr>mNextCurr := started bm (mCurr l) batch [] True\<rparr>"
  have c: "bucket_ok (mCurr l)" "mLevel l = 0" using assms(1) by (simp_all add: level_ok_def)
  have p: "level_prepare bm L batch [] l = Inr ?l"
    using level_prepare_eq [OF c(1) assms(2,3), of "[]"] c(2) by (simp add: skips_curr_def)
  have ok: "level_ok 0 ?l" using assms(1) started_ok [OF c(1) assms(3)] by (simp add: level_ok_def)
  then obtain l' where l': "level_commit ?l = Inr l'" "fb_ok (mNextCurr l')" "\<not> isLive (mNextCurr l')"
    "l' = ?l\<lparr>mCurr := committed ?l, mNextCurr := mNextCurr l'\<rparr>"
    by (rule level_commit_eq)
  have "mSnap l' = mSnap l" "mLevel l' = 0" "mCurr l' = committed ?l"
    using c(2) by (subst l'(4), simp)+
  with l' ok committed_ok [OF ok] have "batch_level bm batch l l'"
    by (simp add: batch_level_def level_ok_def committed_def)
  with p l'(1) show ?thesis by simp
qed

definition batch_levels ::
  "BucketManager \<Rightarrow> uint32 \<Rightarrow> Bucket \<Rightarrow> BucketList \<Rightarrow> BucketList \<Rightarrow> bool" where
  "batch_levels bm L batch bl bl' \<longleftrightarrow>
     length bl' = 11 \<and> (\<forall>j. 0 < j \<longrightarrow> j < 11 \<longrightarrow> bl' ! j = loop_level bm L 10 bl j)
     \<and> batch_level bm batch (spilled L bl 0) (bl' ! 0)"

lemma addBatch_eq:
  assumes "length bl = 11" and "\<And>j. j < 11 \<Longrightarrow> level_ok j (bl ! j)"
    and "\<not> isLive (mNextCurr (bl ! 0))" and "0 < L"
    and "fresh bm live dead = Inr batch" and "bucket_ok batch"
  shows "\<exists>bl'. addBatch bm L live dead bl = Inr bl' \<and> batch_levels bm L batch bl bl'"
proof -
  have sh: "butlast (butlast (shadows_of bl)) = shadows_of (take 10 bl)"
    using pop_shadows [of 10 bl] assms(1) by simp
  have loop: "addBatch_loop bm L 10 bl (shadows_of (take 10 bl)) =
      Inr (map (loop_level bm L 10 bl) [0..<11], [])"
    using addBatch_loop_eq [of 10 bl] assms(1,2) by simp
  let ?l = "spilled L bl 0"
  have l: "loop_level bm L 10 bl 0 = ?l" by (simp add: loop_level_def)
  have "level_ok 0 ?l" "\<not> isMerging (mNextCurr ?l)"
    using assms(2) [of 0] assms(3) by (auto simp: spilled_def isMerging_def isLive_def)
  from batch_committed [OF this assms(6)] obtain l' where
    l': "bindE (level_prepare bm L batch [] ?l) level_commit = Inr l'" "batch_level bm batch ?l l'"
    by blast
  then obtain l1 where l1: "level_prepare bm L batch [] ?l = Inr l1" "level_commit l1 = Inr l'"
    by (auto simp: result_simps)
  have "addBatch bm L live dead bl = Inr ((map (loop_level bm L 10 bl) [0..<11])[0 := l'])"
    using assms(1,4,5) sh loop l l1 by (simp add: addBatch_def shadows_of_def [symmetric] Let_def)
  moreover have "batch_levels bm L batch bl ((map (loop_level bm L 10 bl) [0..<11])[0 := l'])"
    using l'(2) by (simp add: batch_levels_def)
  ultimately show ?thesis by blast
qed


section \<open>The arithmetic of spills\<close>

text \<open>Whether level \<open>Suc i\<close> spills at the next ledger after \<open>n\<close> at which level \<open>i\<close> does.\<close>

definition skip_at :: "nat \<Rightarrow> nat \<Rightarrow> bool" where
  "skip_at n i \<longleftrightarrow> Suc i < 10 \<and> 2 ^ (2 * Suc i + 1) dvd (n div 2 ^ (2 * i + 1) + 1) * 2 ^ (2 * i + 1)"

lemma spills_downward:
  obtains m where "m \<le> 10" and "\<And>j. j < 11 \<Longrightarrow> levelShouldSpill L j \<longleftrightarrow> j < m"
proof -
  let ?P = "\<lambda>j. j < 10 \<and> 2 ^ (2 * j + 1) dvd unat L"
  define m where "m = (LEAST j. \<not> ?P j)"
  have "\<not> ?P 10" by simp
  then have m: "\<not> ?P m" and le: "m \<le> 10"
    unfolding m_def by (rule LeastI, intro Least_le, simp)
  have "?P j \<longleftrightarrow> j < m" for j
  proof
    assume "?P j"
    show "j < m"
    proof (rule ccontr)
      assume "\<not> j < m"
      then have "2 ^ (2 * m + 1) dvd unat L"
        using \<open>?P j\<close> by (intro dvd_trans [OF le_imp_power_dvd [of "2 * m + 1" "2 * j + 1"]]) simp_all
      with \<open>?P j\<close> \<open>\<not> j < m\<close> m show False by simp
    qed
  next
    assume "j < m"
    with not_less_Least [of j "\<lambda>j. \<not> ?P j"] show "?P j" by (simp only: m_def) blast
  qed
  with le that show thesis by (simp add: levelShouldSpill_iff)
qed

lemma next_multiple: "h dvd Suc n \<Longrightarrow> (n div h + 1) * h = Suc n" for h n :: nat
  using dvd_div_mult_self [of h "Suc n"] by (simp add: div_Suc dvd_eq_mod_eq_0)

lemma skip_now:
  assumes "i < 10" and "2 ^ (2 * i + 1) dvd Suc n"
  shows "skip_at n i \<longleftrightarrow> Suc i < 10 \<and> 2 ^ (2 * Suc i + 1) dvd Suc n"
  using next_multiple [OF assms(2)] by (simp only: skip_at_def)

lemma skip_later:
  assumes "\<not> 2 ^ (2 * i + 1) dvd Suc n"
  shows "skip_at (Suc n) i = skip_at n i"
  using assms by (simp only: skip_at_def div_Suc dvd_eq_mod_eq_0 if_False)

lemma unat_push_bit_one: "n < 32 \<Longrightarrow> unat (push_bit n (1 :: uint32)) = 2 ^ n"
proof -
  assume n: "n < 32"
  have "unat (push_bit n (1 :: uint32)) = take_bit 32 (push_bit n 1)"
    by (simp only: unsigned_push_bit_eq unsigned_1 len_of_numeral_defs) simp
  also have "\<dots> = 2 ^ n"
    using n by (simp add: push_bit_eq_mult take_bit_nat_eq_self)
  finally show ?thesis .
qed

lemma skips_curr_iff:
  assumes "i < 10" and "2 ^ (2 * i + 1) dvd unat L"
  shows "skips_curr L (Suc i) \<longleftrightarrow> skip_at (unat L) i"
proof -
  let ?h = "2 ^ (2 * i + 1) :: nat"
  have h: "unat (levelHalf i) = ?h"
    using assms(1) unat_push_bit_one [of "2 * i + 1"] by (simp add: levelHalf_eq)
  have d: "d dvd unat (L + levelHalf i) \<longleftrightarrow> d dvd unat L + ?h" if "d dvd 2 ^ 32" for d
    using that by (simp add: unat_word_ariths(1) h dvd_mod_iff)
  have "(unat L div ?h + 1) * ?h = unat L + ?h" using assms(2) by simp
  moreover have "2 ^ (2 * Suc i + 1) dvd (2 ^ 32 :: nat)" using assms(1) by (intro le_imp_power_dvd) simp
  from d [OF this] have "2 ^ (2 * Suc i + 1) dvd unat (L + levelHalf i) \<longleftrightarrow> 2 ^ (2 * Suc i + 1) dvd unat L + ?h" .
  moreover have "skips_curr L (Suc i) \<longleftrightarrow> Suc i < 10 \<and> 2 ^ (2 * Suc i + 1) dvd unat (L + levelHalf i)"
    using assms(1) levelShouldSpill_iff [of "Suc i"] by (simp only: skips_curr_def) simp
  ultimately show ?thesis by (simp only: skip_at_def)
qed


section \<open>The invariant\<close>

definition cf :: "BucketList \<Rightarrow> nat \<Rightarrow> found" where
  "cf bl i = (if i < 11 then bucket_find (mCurr (bl ! i)) else Map.empty)"

definition sf :: "BucketList \<Rightarrow> nat \<Rightarrow> found" where
  "sf bl i = (if i < 11 then bucket_find (mSnap (bl ! i)) else Map.empty)"

definition mf :: "BucketList \<Rightarrow> nat \<Rightarrow> found" where
  "mf bl i = (case mOutputBucket (mNextCurr (bl ! i)) of Some b \<Rightarrow> bucket_find b | None \<Rightarrow> Map.empty)"

definition merge_stands :: "nat \<Rightarrow> BucketList \<Rightarrow> nat \<Rightarrow> bool" where
  "merge_stands n bl i \<longleftrightarrow>
     (\<forall>k. N (cf bl) (sf bl) i k = None \<longrightarrow> mf bl (Suc i) k =
        drop_dead (Suc i < 10) ((if skip_at n i then sf bl i else cf bl (Suc i) ++ sf bl i) k))"

definition list_ok :: "nat \<Rightarrow> BucketList \<Rightarrow> bool" where
  "list_ok n bl \<longleftrightarrow>
     length bl = 11 \<and> (\<forall>j < 11. level_ok j (bl ! j)) \<and> \<not> isLive (mNextCurr (bl ! 0))
     \<and> mEntries (mSnap (bl ! 10)) = []
     \<and> (\<forall>i < 10. \<not> isLive (mNextCurr (bl ! Suc i)) \<longrightarrow>
          mEntries (mCurr (bl ! Suc i)) = [] \<and> mEntries (mSnap (bl ! i)) = [])
     \<and> (\<forall>i < 10. merge_stands n bl i)"

lemma not_live_output:
  "fb_ok fb \<Longrightarrow> \<not> isLive fb \<Longrightarrow> mOutputBucket fb = None"
  by (auto simp: fb_ok_def checkState_def isLive_def hasHashes_def split: FutureBucketState.splits)

lemma find_no_entries: "mEntries b = [] \<Longrightarrow> bucket_find b = Map.empty"
  by (simp add: fun_eq_iff)

text \<open>What is committed is the merge, even where there is none yet.\<close>

lemma find_committed:
  assumes "fb_ok (mNextCurr l)" and "\<not> isLive (mNextCurr l) \<Longrightarrow> mEntries (mCurr l) = []"
  shows "bucket_find (committed l) =
    (case mOutputBucket (mNextCurr l) of Some b \<Rightarrow> bucket_find b | None \<Rightarrow> Map.empty)"
proof (cases "isLive (mNextCurr l)")
  case True
  with assms(1) obtain b where "mOutputBucket (mNextCurr l) = Some b" by (metis resolve_eq)
  with True show ?thesis by (simp add: committed_def)
next
  case False
  with assms not_live_output show ?thesis by (simp add: committed_def fun_eq_iff)
qed

lemma shadows_V:
  assumes "i \<le> 11" and "length bl = 11"
  shows "list_ex (\<lambda>s. bucket_find s k \<noteq> None) (shadows_of (take i bl)) \<longleftrightarrow> V (cf bl) (sf bl) i k \<noteq> None"
  using assms
proof (induction i)
  case (Suc i)
  then show ?case
    by (auto simp: take_Suc_conv_app_nth shadows_of_def cf_def sf_def map_add_None)
qed simp

section \<open>The step of one ledger\<close>

lemma batch_levels_snap:
  assumes "batch_levels bm L batch bl bl'" and "j < 11"
  shows "mSnap (bl' ! j) = (if levelShouldSpill L j then mCurr (bl ! j) else mSnap (bl ! j))"
  using assms
  by (cases "j = 0"; cases "j = 10")
    (auto simp: batch_levels_def batch_level_def loop_level_def spilled_def prepared_def Let_def
      levelShouldSpill_def)

lemma batch_levels_curr:
  assumes "batch_levels bm L batch bl bl'" and "0 < j" and "j < 11"
  shows "mCurr (bl' ! j) =
    (let l = (if j < 10 then spilled L bl j else bl ! j)
     in if levelShouldSpill L (j - 1) then committed l else mCurr l)"
  using assms by (auto simp: batch_levels_def loop_level_def prepared_def Let_def)

lemma find_curr_zero:
  assumes "batch_levels bm L batch bl bl'" and "bucket_ok (mCurr (bl ! 0))" and "bucket_ok batch"
  shows "bucket_find (mCurr (bl' ! 0)) =
    (if levelShouldSpill L 0 then bucket_find batch else bucket_find (mCurr (bl ! 0)) ++ bucket_find batch)"
proof -
  have c: "bucket_ok (mCurr (spilled L bl 0))" using assms(2) by (simp add: spilled_def)
  have "mCurr (bl' ! 0) = mkBucket bm (merged_entries (mCurr (spilled L bl 0)) batch [] True)"
    using assms(1) by (simp add: batch_levels_def batch_level_def)
  then have "bucket_find (mCurr (bl' ! 0)) k = (bucket_find (mCurr (spilled L bl 0)) ++ bucket_find batch) k" for k
    using find_merged [OF c assms(3), of "[]" True k] by (simp add: map_add_def)
  then show ?thesis by (auto simp: fun_eq_iff spilled_def)
qed

lemma find_curr_level:
  assumes "batch_levels bm L batch bl bl'" and ok: "list_ok n bl" and j: "0 < j" "j < 11"
    and down: "\<And>i. levelShouldSpill L (Suc i) \<Longrightarrow> Suc i < 11 \<Longrightarrow> levelShouldSpill L i"
  shows "bucket_find (mCurr (bl' ! j)) = (if levelShouldSpill L (j - 1) then mf bl j else cf bl j)"
proof -
  let ?l = "if j < 10 then spilled L bl j else bl ! j"
  have lv: "level_ok j (bl ! j)" using ok j by (simp add: list_ok_def)
  have nx: "mNextCurr ?l = mNextCurr (bl ! j)" by (simp add: spilled_def)
  have "bucket_find (committed ?l) = mf bl j"
  proof -
    have "mEntries (mCurr ?l) = []" if "\<not> isLive (mNextCurr (bl ! j))"
      using that ok j by (cases j) (auto simp: list_ok_def spilled_def Bucket_empty_def)
    then have "bucket_find (committed ?l) =
        (case mOutputBucket (mNextCurr ?l) of Some b \<Rightarrow> bucket_find b | None \<Rightarrow> Map.empty)"
      using lv by (intro find_committed) (simp_all add: nx level_ok_def)
    then show ?thesis by (simp only: nx mf_def)
  qed
  moreover have "mCurr ?l = mCurr (bl ! j)" if "\<not> levelShouldSpill L (j - 1)"
    using that down [of "j - 1"] j by (auto simp: spilled_def)
  ultimately show ?thesis
    using j by (simp add: batch_levels_curr [OF assms(1) j] cf_def Let_def)
qed


lemma batch_layer_step:
  assumes bat: "batch_levels bm L batch bl bl'" and ok: "list_ok n bl" and b: "bucket_ok batch"
    and m: "m \<le> 10" "\<And>j. j < 11 \<Longrightarrow> levelShouldSpill L j \<longleftrightarrow> j < m"
  shows "layer_step m (cf bl) (sf bl) (mf bl) (bucket_find batch) (cf bl') (sf bl')"
proof -
  have down: "levelShouldSpill L i" if "levelShouldSpill L (Suc i)" "Suc i < 11" for i
    using that m(2) [of i] m(2) [of "Suc i"] by simp
  have c0: "bucket_ok (mCurr (bl ! 0))" using ok by (simp add: list_ok_def level_ok_def)
  have "cf bl' i = (if i = 0 then (if m = 0 then cf bl 0 ++ bucket_find batch else bucket_find batch)
      else if i \<le> m then mf bl i else cf bl i)" for i
  proof -
    consider "i = 0" | "0 < i" "i < 11" | "11 \<le> i" by linarith
    then show ?thesis
    proof cases
      case 1
      then show ?thesis using find_curr_zero [OF bat c0 b] m(2) [of 0] by (simp add: cf_def)
    next
      case 2
      then show ?thesis using find_curr_level [OF bat ok 2 down] m(2) [of "i - 1"]
        by (auto simp: cf_def)
    qed (use m(1) in \<open>auto simp: cf_def\<close>)
  qed
  moreover have "sf bl' i = (if i < m then cf bl i else sf bl i)" for i
    using batch_levels_snap [OF bat, of i] m(1) m(2) [of i] by (auto simp: sf_def cf_def)
  ultimately show ?thesis by (simp add: layer_step_def)
qed

lemma merge_started:
  assumes bat: "batch_levels bm L batch bl bl'" and ok: "list_ok n bl"
    and i: "i < 10" "levelShouldSpill L i"
  shows "isLive (mNextCurr (bl' ! Suc i))"
    and "mf bl' (Suc i) k =
      (if V (cf bl) (sf bl) i k \<noteq> None then None
       else drop_dead (Suc i < 10)
         ((if skips_curr L (Suc i) then cf bl i else cf bl' (Suc i) ++ cf bl i) k))"
proof -
  let ?l = "if Suc i < 10 then spilled L bl (Suc i) else bl ! Suc i"
  have len: "length bl = 11" and lv: "level_ok (Suc i) (bl ! Suc i)" "level_ok i (bl ! i)"
    using ok i(1) by (simp_all add: list_ok_def)
  have lok: "level_ok (Suc i) ?l" using lv by (simp add: spilled_def)
  have eq: "bl' ! Suc i = prepared bm L ?l (mCurr (bl ! i)) (shadows_of (take i bl))"
    using bat i by (simp add: batch_levels_def loop_level_def)
  show "isLive (mNextCurr (bl' ! Suc i))" by (simp add: eq prepared_def)
  let ?c = "if skips_curr L (Suc i) then Bucket_empty else committed ?l"
  have lvl: "mLevel ?l = Suc i" using lok by (simp add: level_ok_def)
  have cur: "mCurr (bl' ! Suc i) = committed ?l" by (simp add: eq prepared_def)
  have c: "bucket_ok ?c" "bucket_ok (mCurr (bl ! i))"
    using committed_ok [OF lok] lv(2) by (simp_all add: level_ok_def)
  have "mf bl' (Suc i) k =
      find_entry (merged_entries ?c (mCurr (bl ! i)) (shadows_of (take i bl)) (Suc i < 10)) k"
    using lvl by (simp only: mf_def eq prepared_def) simp
  also have "\<dots> = (if V (cf bl) (sf bl) i k \<noteq> None then None
       else drop_dead (Suc i < 10)
         ((if skips_curr L (Suc i) then cf bl i else cf bl' (Suc i) ++ cf bl i) k))"
  proof -
    have "shadowed_in (map mEntries (shadows_of (take i bl))) k \<longleftrightarrow> V (cf bl) (sf bl) i k \<noteq> None"
      using shadows_V [of i bl k] i(1) len by (auto simp: shadowed_in_def list_ex_iff find_entry_None)
    moreover have "(case bucket_find (mCurr (bl ! i)) k of None \<Rightarrow> bucket_find ?c k | Some e \<Rightarrow> Some e) =
        (if skips_curr L (Suc i) then cf bl i else cf bl' (Suc i) ++ cf bl i) k"
      using i(1) by (auto simp: cf_def cur map_add_def split: option.splits)
    ultimately show ?thesis by (simp only: find_merged [OF c])
  qed
  finally show "mf bl' (Suc i) k = \<dots>" .
qed

lemma merge_kept:
  assumes bat: "batch_levels bm L batch bl bl'"
    and i: "i < 10" "\<not> levelShouldSpill L i" "\<not> levelShouldSpill L (Suc i)"
  shows "mNextCurr (bl' ! Suc i) = mNextCurr (bl ! Suc i)" and "mCurr (bl' ! Suc i) = mCurr (bl ! Suc i)"
  using assms by (auto simp: batch_levels_def loop_level_def spilled_def Let_def)

lemma merges_stand_now:
  assumes ok: "list_ok n bl" and L: "unat L = Suc n"
    and m: "m \<le> 10" "\<And>j. j < 11 \<Longrightarrow> levelShouldSpill L j \<longleftrightarrow> j < m"
  shows "merges_stand m (cf bl) (sf bl) (mf bl)"
    and "m = 10 \<Longrightarrow> N (cf bl) (sf bl) 9 k = None \<Longrightarrow>
      mf bl 10 k = drop_dead False ((cf bl 10 ++ sf bl 9) k)"
proof -
  have spill: "levelShouldSpill L j \<longleftrightarrow> j < 10 \<and> 2 ^ (2 * j + 1) dvd Suc n" if "j < 11" for j
    using levelShouldSpill_iff [OF that, of L] L by simp
  have skip: "skip_at n i \<longleftrightarrow> Suc i < m" if "i < m" for i
    using skip_now [of i n] spill [of i] spill [of "Suc i"] m(1) m(2) [of i] m(2) [of "Suc i"] that by simp
  have st: "merge_stands n bl i" if "i < m" for i using ok m(1) that by (simp add: list_ok_def)
  show "merges_stand m (cf bl) (sf bl) (mf bl)"
    using st skip m(1) by (auto simp: merges_stand_def merge_stands_def)
  show "mf bl 10 k = drop_dead False ((cf bl 10 ++ sf bl 9) k)"
    if "m = 10" "N (cf bl) (sf bl) 9 k = None"
    using st [of 9] skip [of 9] that by (simp add: merge_stands_def)
qed


lemma batch_levels_ok:
  assumes bat: "batch_levels bm L batch bl bl'" and ok: "list_ok n bl" and j: "j < 11"
  shows "level_ok j (bl' ! j)"
proof (cases "j = 0")
  case True
  with bat show ?thesis by (simp add: batch_levels_def batch_level_def)
next
  case False
  have lv: "level_ok j (bl ! j)" "level_ok (j - 1) (bl ! (j - 1))" using ok j by (simp_all add: list_ok_def)
  then have "level_ok j (if j < 10 then spilled L bl j else bl ! j)" by (simp add: spilled_def)
  with lv(2) prepared_ok show ?thesis
    using bat False j by (auto simp: batch_levels_def loop_level_def Let_def level_ok_def)
qed

lemma merge_stands_kept:
  assumes bat: "batch_levels bm L batch bl bl'" and ok: "list_ok n bl" and b: "bucket_ok batch"
    and L: "unat L = Suc n"
    and m: "m \<le> 10" "\<And>j. j < 11 \<Longrightarrow> levelShouldSpill L j \<longleftrightarrow> j < m" and i: "i < 10"
  shows "merge_stands (Suc n) bl' i"
proof -
  note step = batch_layer_step [OF bat ok b m] and stand = merges_stand_now(1) [OF ok L m]
  have dv: "levelShouldSpill L i \<longleftrightarrow> 2 ^ (2 * i + 1) dvd Suc n"
    using levelShouldSpill_iff [of i L] L i by simp
  show ?thesis
  proof (cases "i < m")
    case True
    then have sp: "levelShouldSpill L i" using m(2) i by simp
    have "skips_curr L (Suc i) \<longleftrightarrow> skip_at (Suc n) i"
      using skips_curr_iff [OF i, of L] sp dv L by simp
    moreover have "V (cf bl) (sf bl) i k = None" if "N (cf bl') (sf bl') i k = None" for k
      using that N_spilled [OF step stand True] by simp
    moreover have "sf bl' i = cf bl i" using layer_step_simps(5) [OF step True] .
    ultimately show ?thesis
      using merge_started(2) [OF bat ok i sp] by (simp add: merge_stands_def)
  next
    case False
    then have ns: "\<not> levelShouldSpill L i" "\<not> levelShouldSpill L (Suc i)"
      using m(2) [of i] m(2) [of "Suc i"] i by simp_all
    have "N (cf bl) (sf bl) i k = None" if "N (cf bl') (sf bl') i k = None" for k
      using that layers_kept(1) [OF step stand, of i] False i by simp
    moreover have "mf bl' (Suc i) = mf bl (Suc i)" by (simp add: mf_def merge_kept(1) [OF bat i ns])
    moreover have "cf bl' (Suc i) = cf bl (Suc i)" "sf bl' i = sf bl i"
      using layer_step_simps(4) [OF step, of "Suc i"] layer_step_simps(6) [OF step, of i] False by simp_all
    moreover have "skip_at (Suc n) i = skip_at n i" using skip_later dv ns(1) by blast
    moreover have "merge_stands n bl i" using ok i by (simp add: list_ok_def)
    ultimately show ?thesis by (auto simp: merge_stands_def)
  qed
qed

lemma addBatch_step:
  assumes ok: "list_ok n bl" and L: "unat L = Suc n"
    and live: "distinct (map LedgerEntryKey live)" and dead: "distinct dead"
  shows "\<exists>bl'. addBatch bm L live dead bl = Inr bl' \<and> list_ok (Suc n) bl'
    \<and> live_part (V (cf bl') (sf bl') 11) = live_part (V (cf bl) (sf bl) 11 ++ batch_entry live dead)"
proof -
  obtain batch where fr: "fresh bm live dead = Inr batch" "bucket_ok batch"
    "bucket_find batch = batch_entry live dead"
    by (rule fresh_spec [OF live dead, of bm]) blast
  obtain m where m: "m \<le> 10" "\<And>j. j < 11 \<Longrightarrow> levelShouldSpill L j \<longleftrightarrow> j < m"
    by (rule spills_downward [of L]) blast
  have "0 < L" using L by (metis unat_0 nat.distinct(1) word_neq_0_conv)
  then obtain bl' where add: "addBatch bm L live dead bl = Inr bl'" and bat: "batch_levels bm L batch bl bl'"
    using addBatch_eq [OF _ _ _ _ fr(1,2), of bl L] ok by (auto simp: list_ok_def)
  note step = batch_layer_step [OF bat ok fr(2) m] and stand = merges_stand_now [OF ok L m]
  have "list_ok (Suc n) bl'"
    unfolding list_ok_def
  proof (intro conjI allI impI)
    show "length bl' = 11" "\<not> isLive (mNextCurr (bl' ! 0))"
      using bat by (simp_all add: batch_levels_def batch_level_def)
    show "level_ok j (bl' ! j)" if "j < 11" for j using batch_levels_ok [OF bat ok that] .
    show "mEntries (mSnap (bl' ! 10)) = []"
      using batch_levels_snap [OF bat, of 10] ok by (simp add: levelShouldSpill_def list_ok_def)
    show "merge_stands (Suc n) bl' i" if "i < 10" for i
      using merge_stands_kept [OF bat ok fr(2) L m that] .
    fix i assume i: "i < 10" and nl: "\<not> isLive (mNextCurr (bl' ! Suc i))"
    then have "\<not> i < m" using merge_started(1) [OF bat ok i] m(2) [of i] by auto
    then have ns: "\<not> levelShouldSpill L i" "\<not> levelShouldSpill L (Suc i)"
      using m(2) [of i] m(2) [of "Suc i"] i by simp_all
    note kept = merge_kept [OF bat i ns]
    show "mEntries (mCurr (bl' ! Suc i)) = []" "mEntries (mSnap (bl' ! i)) = []"
      using ok i nl kept batch_levels_snap [OF bat, of i] ns(1) by (auto simp: list_ok_def)
  qed
  moreover have "live_part (V (cf bl') (sf bl') 11) = live_part (V (cf bl) (sf bl) 11 ++ bucket_find batch)"
  proof (cases "m = 10")
    case True
    have "sf bl 10 = Map.empty" using ok by (simp add: sf_def list_ok_def fun_eq_iff)
    then show ?thesis
      using last_level_kept step stand True by blast
  next
    case False
    with m(1) have "m \<le> 10" "m < 10" by simp_all
    from layers_kept(2) [OF step stand(1) this] show ?thesis by simp
  qed
  ultimately show ?thesis using add fr(3) by auto
qed

end
