(* ===== verification/Bucket_Check.thy ===== *)
theory Bucket_Check
  imports Bucket_List_Refinement
begin

text \<open>
  The self-check of a node, \<open>checkDBAgainstBuckets\<close> (\<open>bucket/Bucket.cpp\<close>): all buckets of the list
  are merged into one, whose live entries must be those of the database. With the refinement of
  the previous theory, that bucket holds exactly the entries of the ledger.
\<close>

section \<open>The code\<close>

text \<open>Step 1: the buckets of all levels; a merge in progress is resolved.\<close>

fun collect_buckets :: "BucketList \<Rightarrow> (Bucket list \<times> BucketList) result" where
  "collect_buckets [] = Inr ([], [])"
| "collect_buckets (level # levels) =
     bindE
       (if isLive (mNextCurr level)
        then bindE (resolve (mNextCurr level)) (\<lambda>(b, fb). Inr ([b], level\<lparr>mNextCurr := fb\<rparr>))
        else Inr ([], level))
       (\<lambda>(bs, level).
          bindE (collect_buckets levels) (\<lambda>(bs', levels).
            Inr (bs @ mCurr level # mSnap level # bs', level # levels)))"

text \<open>Step 2: one bucket of all, the earlier ones being the newer ones.\<close>

fun super_loop :: "('b \<Rightarrow> 'b \<Rightarrow> 'b result) \<Rightarrow> 'b list \<Rightarrow> 'b \<Rightarrow> 'b result" where
  "super_loop merge2 [] superBucket = Inr superBucket"
| "super_loop merge2 (i # is) superBucket = bindE (merge2 i superBucket) (super_loop merge2 is)"

definition merge_all :: "BucketManager \<Rightarrow> Bucket list \<Rightarrow> Bucket result" where
  "merge_all bm bs =
     (case bs of [] \<Rightarrow> Inl DbgAssert
      | b # bs \<Rightarrow> super_loop (\<lambda>old new. merge bm old new [] True) bs b)"

text \<open>Steps 3 and 4: every live entry is compared with the database, and the entries of each
  type are counted. The database is its answers to \<open>storeLoad\<close> and its \<open>COUNT\<close> queries.\<close>

record LedgerDatabase =
  db_load :: "LedgerKey \<Rightarrow> LedgerEntry option"
  db_counts :: "nat \<times> nat \<times> nat \<times> nat"

fun count_type :: "LedgerEntryData \<Rightarrow> nat \<times> nat \<times> nat \<times> nat \<Rightarrow> nat \<times> nat \<times> nat \<times> nat" where
  "count_type (ACCOUNT _) (a, t, off, d) = (Suc a, t, off, d)"
| "count_type (TRUSTLINE _) (a, t, off, d) = (a, Suc t, off, d)"
| "count_type (OFFER _) (a, t, off, d) = (a, t, Suc off, d)"
| "count_type (DATA _) (a, t, off, d) = (a, t, off, Suc d)"

definition checkAgainstDatabase :: "LedgerDatabase \<Rightarrow> LedgerEntry \<Rightarrow> unit result" where
  "checkAgainstDatabase db entry =
     (case db_load db (LedgerEntryKey entry) of
        Some fromDb \<Rightarrow>
          if fromDb = entry then Inr () else Inl (RuntimeError ''Inconsistent state between objects'')
      | None \<Rightarrow> Inl (RuntimeError ''Inconsistent state between objects (not found in database)''))"

fun compare_loop ::
  "LedgerDatabase \<Rightarrow> BucketEntry list \<Rightarrow> nat \<times> nat \<times> nat \<times> nat \<Rightarrow> (nat \<times> nat \<times> nat \<times> nat) result" where
  "compare_loop db [] n = Inr n"
| "compare_loop db (LIVEENTRY e # es) n =
     bindE (checkAgainstDatabase db e) (\<lambda>_. compare_loop db es (count_type (le_data e) n))"
| "compare_loop db (DEADENTRY _ # es) n = compare_loop db es n"

definition compareSizes :: "string \<Rightarrow> nat \<Rightarrow> nat \<Rightarrow> unit result" where
  "compareSizes objType inDatabase inBucketlist =
     (if inDatabase \<noteq> inBucketlist
      then Inl (RuntimeError (objType @ '' object count mismatch'')) else Inr ())"

definition checkDBAgainstBuckets ::
  "BucketManager \<Rightarrow> LedgerDatabase \<Rightarrow> BucketList \<Rightarrow> BucketList result" where
  "checkDBAgainstBuckets bm db bl =
     bindE (collect_buckets bl) (\<lambda>(buckets, bl).
       if buckets = [] then Inr bl
       else
         bindE (merge_all bm buckets) (\<lambda>superBucket.
         bindE (compare_loop db (mEntries superBucket) (0, 0, 0, 0)) (\<lambda>(nAccounts, nTrustLines, nOffers, nData).
         case db_counts db of (accounts, trustlines, offers, data) \<Rightarrow>
           bindE (compareSizes ''account'' accounts nAccounts) (\<lambda>_.
           bindE (compareSizes ''trustline'' trustlines nTrustLines) (\<lambda>_.
           bindE (compareSizes ''offer'' offers nOffers) (\<lambda>_.
           bindE (compareSizes ''data'' data nData) (\<lambda>_. Inr bl)))))))"

section \<open>Merging many buckets\<close>

text \<open>What a client of the merge relies on: the result of a merge is well-formed and finds what the
  newer bucket finds, and otherwise what the older one does.\<close>

locale overriding_merge =
  fixes ok :: "'b \<Rightarrow> bool"
    and found :: "'b \<Rightarrow> 'k \<Rightarrow> 'e option"
    and merge2 :: "'b \<Rightarrow> 'b \<Rightarrow> 'b result"
  assumes merged: "ok old \<Longrightarrow> ok new \<Longrightarrow>
    \<exists>b. merge2 old new = Inr b \<and> ok b \<and> found b = found old ++ found new"
begin

lemma merged_all:
  assumes "ok b" and "list_all ok bs"
  shows "\<exists>r. super_loop merge2 bs b = Inr r \<and> ok r \<and> found r = foldl (\<lambda>f b. found b ++ f) (found b) bs"
  using assms
proof (induction bs arbitrary: b)
  case (Cons i bs)
  then obtain b1 where b1: "merge2 i b = Inr b1" "ok b1" "found b1 = found i ++ found b"
    using merged [of i b] by auto
  with Cons.IH [of b1] Cons.prems(2) show ?case by simp
qed simp

end

interpretation bucket_merging: overriding_merge bucket_ok bucket_find "\<lambda>old new. merge bm old new [] True"
  for bm
proof
  fix old new
  assume ok: "bucket_ok old" "bucket_ok new"
  let ?b = "mkBucket bm (merged_entries old new [] True)"
  have "merge bm old new [] True = Inr ?b" using merge_eq [OF ok, of "[]"] by simp
  moreover have "bucket_ok ?b" using merged_entries_ok [OF ok] by (simp add: bucket_ok_def)
  moreover have "bucket_find ?b = bucket_find old ++ bucket_find new"
    using find_merged [OF ok, of "[]" True] by (simp add: fun_eq_iff map_add_def)
  ultimately show "\<exists>b. merge bm old new [] True = Inr b \<and> bucket_ok b
    \<and> bucket_find b = bucket_find old ++ bucket_find new" by blast
qed


section \<open>All buckets of a list\<close>

definition level_buckets :: "BucketLevel \<Rightarrow> Bucket list" where
  "level_buckets l =
     (case mOutputBucket (mNextCurr l) of Some b \<Rightarrow> [b] | None \<Rightarrow> []) @ [mCurr l, mSnap l]"

lemma collect_buckets_eq:
  assumes "\<And>l. l \<in> set bl \<Longrightarrow> fb_ok (mNextCurr l)"
  shows "\<exists>bl'. collect_buckets bl = Inr (concat (map level_buckets bl), bl')"
  using assms
proof (induction bl)
  case (Cons l bl)
  then obtain bl' where bl': "collect_buckets bl = Inr (concat (map level_buckets bl), bl')" by auto
  show ?case
  proof (cases "isLive (mNextCurr l)")
    case True
    with Cons.prems obtain b fb where "mOutputBucket (mNextCurr l) = Some b" "resolve (mNextCurr l) = Inr (b, fb)"
      by (metis list.set_intros(1) resolve_eq)
    with True bl' show ?thesis by (simp add: level_buckets_def [of l])
  next
    case False
    with Cons.prems not_live_output have "mOutputBucket (mNextCurr l) = None" by simp
    with False bl' show ?thesis by (simp add: level_buckets_def [of l])
  qed
qed simp

abbreviation found_in :: "Bucket list \<Rightarrow> found" where
  "found_in bs \<equiv> foldl (\<lambda>f b. bucket_find b ++ f) Map.empty bs"

lemma foldl_level_buckets:
  "foldl (\<lambda>f b. bucket_find b ++ f) f (level_buckets l) =
    bucket_find (mSnap l) ++ (bucket_find (mCurr l) ++
      ((case mOutputBucket (mNextCurr l) of Some b \<Rightarrow> bucket_find b | None \<Rightarrow> Map.empty) ++ f))"
  by (simp add: level_buckets_def split: option.splits)

text \<open>The merges in progress add nothing to the buckets they are made from.\<close>

lemma merge_adds_nothing:
  assumes ok: "list_ok n bl" and i: "i < 11"
  shows "cf bl i ++ (mf bl i ++ V (cf bl) (sf bl) i) = cf bl i ++ V (cf bl) (sf bl) i"
proof (cases i)
  case 0
  have "mf bl 0 = Map.empty"
    using ok not_live_output [of "mNextCurr (bl ! 0)"] by (simp add: list_ok_def level_ok_def mf_def)
  with 0 show ?thesis by simp
next
  case (Suc j)
  have st: "merge_stands n bl j" using ok i Suc by (simp add: list_ok_def)
  have "mf bl i k = None \<or> mf bl i k = cf bl i k" if "V (cf bl) (sf bl) i k = None" for k
  proof -
    have "sf bl j k = None" "N (cf bl) (sf bl) j k = None" using that Suc by (auto simp: map_add_None)
    with st Suc have "mf bl i k = drop_dead (i < 10) (if skip_at n j then None else cf bl i k)"
      by (simp add: merge_stands_def map_add_def split: if_splits)
    then show ?thesis by (auto simp: drop_dead_def split: if_splits option.splits)
  qed
  then show ?thesis
    by (auto simp: fun_eq_iff map_add_def split: option.splits) (metis option.distinct(1) option.inject)+
qed

lemma found_in_list:
  assumes ok: "list_ok n bl"
  shows "found_in (concat (map level_buckets bl)) = V (cf bl) (sf bl) 11"
proof -
  have len: "length bl = 11" using ok by (simp add: list_ok_def)
  have "found_in (concat (map level_buckets (take i bl))) = V (cf bl) (sf bl) i" if "i \<le> 11" for i
    using that
  proof (induction i)
    case (Suc i)
    then have "found_in (concat (map level_buckets (take (Suc i) bl))) =
        sf bl i ++ (cf bl i ++ (mf bl i ++ V (cf bl) (sf bl) i))"
      using len by (simp add: take_Suc_conv_app_nth foldl_level_buckets sf_def [of bl i] cf_def [of bl i] mf_def [of bl i] del: map_add_assoc)
    with merge_adds_nothing [OF ok, of i] Suc.prems show ?case by simp
  qed simp
  from this [of 11] len show ?thesis by simp
qed

lemma level_buckets_ok:
  assumes "level_ok i l"
  shows "list_all bucket_ok (level_buckets l)"
  using assms by (auto simp: level_buckets_def level_ok_def fb_ok_def split: option.splits)

text \<open>So the bucket of all buckets finds what the list says.\<close>

lemma super_bucket:
  assumes ok: "list_ok n bl"
  shows "\<exists>bl' bs b. collect_buckets bl = Inr (bs, bl') \<and> bs \<noteq> [] \<and> merge_all bm bs = Inr b \<and> bucket_ok b
    \<and> bucket_find b = V (cf bl) (sf bl) 11"
proof -
  let ?bs = "concat (map level_buckets bl)"
  have lv: "\<exists>i. level_ok i l" if "l \<in> set bl" for l
    using that ok by (auto simp: list_ok_def in_set_conv_nth)
  then have "fb_ok (mNextCurr l)" if "l \<in> set bl" for l
    using that by (meson level_ok_def)
  from collect_buckets_eq [OF this] obtain bl' where bl': "collect_buckets bl = Inr (?bs, bl')" by blast
  have all: "list_all bucket_ok ?bs"
    using lv level_buckets_ok by (fastforce simp: list_all_iff)
  have "bl ! 0 \<in> set bl" using ok by (simp add: list_ok_def)
  then have "?bs \<noteq> []" by (auto simp: level_buckets_def)
  then obtain b0 bs where bs: "?bs = b0 # bs" by (cases ?bs) auto
  then have m: "merge_all bm ?bs = super_loop (\<lambda>old new. merge bm old new [] True) bs b0"
    by (simp add: merge_all_def)
  from bucket_merging.merged_all [of b0 bs bm] all obtain b where
    "merge_all bm ?bs = Inr b" "bucket_ok b" "bucket_find b = found_in ?bs"
    unfolding m by (auto simp: bs)
  with bl' bs found_in_list [OF ok] show ?thesis by auto
qed

section \<open>The ledger\<close>

text \<open>The specification: a batch replaces or adds its live entries and removes its dead ones.\<close>

definition ledger_apply ::
  "(LedgerKey \<Rightarrow> LedgerEntry option) \<Rightarrow> LedgerEntry list \<times> LedgerKey list \<Rightarrow>
   LedgerKey \<Rightarrow> LedgerEntry option" where
  "ledger_apply m batch k =
     (if k \<in> set (snd batch) then None
      else case find (\<lambda>e. LedgerEntryKey e = k) (fst batch) of Some e \<Rightarrow> Some e | None \<Rightarrow> m k)"

abbreviation ledger_after :: "(LedgerEntry list \<times> LedgerKey list) list \<Rightarrow> LedgerKey \<Rightarrow> LedgerEntry option" where
  "ledger_after batches \<equiv> foldl ledger_apply Map.empty batches"

definition batch_ok :: "LedgerEntry list \<times> LedgerKey list \<Rightarrow> bool" where
  "batch_ok batch \<longleftrightarrow> distinct (map LedgerEntryKey (fst batch)) \<and> distinct (snd batch)"

text \<open>The ledgers from number \<open>L\<close> on, each with its batch.\<close>

fun addBatches ::
  "BucketManager \<Rightarrow> uint32 \<Rightarrow> (LedgerEntry list \<times> LedgerKey list) list \<Rightarrow> BucketList \<Rightarrow> BucketList result" where
  "addBatches bm L [] bl = Inr bl"
| "addBatches bm L (batch # batches) bl =
     bindE (addBatch bm L (fst batch) (snd batch) bl) (addBatches bm (L + 1) batches)"

lemma live_part_batch: "live_part (f ++ batch_entry live dead) = ledger_apply (live_part f) (live, dead)"
  by (auto simp: fun_eq_iff live_part_def batch_entry_def ledger_apply_def map_add_def split: option.splits)

lemma list_ok_new: "list_ok 0 (BucketList_new junk)"
proof -
  let ?bl = "BucketList_new junk"
  have nth: "?bl ! i = BucketLevel_new (junk i) i" if "i < 11" for i
    using that by (simp add: BucketList_new_def kNumLevels_def)
  have "cf ?bl = (\<lambda>i. Map.empty)" "sf ?bl = (\<lambda>i. Map.empty)"
    by (auto simp: fun_eq_iff cf_def sf_def nth BucketLevel_new_def)
  moreover have "mf ?bl (Suc i) = Map.empty" if "i < 10" for i
    using that by (simp add: mf_def nth BucketLevel_new_def FutureBucket_default_def)
  ultimately have "merge_stands 0 ?bl i" if "i < 10" for i
    using that by (simp add: merge_stands_def)
  moreover have "level_ok j (?bl ! j)" if "j < 11" for j
    using that by (simp add: nth level_ok_def BucketLevel_new_def fb_ok_def checkState_def
        FutureBucket_default_def hasHashes_def)
  moreover have "length ?bl = 11" by (simp add: BucketList_new_def kNumLevels_def)
  ultimately show ?thesis
    by (simp add: list_ok_def nth BucketLevel_new_def Bucket_empty_def isLive_def FutureBucket_default_def)
qed

lemma V_new: "V (cf (BucketList_new junk)) (sf (BucketList_new junk)) n = Map.empty"
proof -
  have "cf (BucketList_new junk) = (\<lambda>i. Map.empty)" "sf (BucketList_new junk) = (\<lambda>i. Map.empty)"
    by (auto simp: fun_eq_iff cf_def sf_def BucketList_new_def kNumLevels_def BucketLevel_new_def)
  then show ?thesis by (induction n) simp_all
qed

lemma addBatches_step:
  assumes "list_ok n bl" and "n + length batches < 2 ^ 32" and "list_all batch_ok batches"
  shows "\<exists>bl'. addBatches bm (of_nat (Suc n)) batches bl = Inr bl' \<and> list_ok (n + length batches) bl'
    \<and> live_part (V (cf bl') (sf bl') 11) = foldl ledger_apply (live_part (V (cf bl) (sf bl) 11)) batches"
  using assms
proof (induction batches arbitrary: n bl)
  case (Cons batch batches)
  obtain live dead where b: "batch = (live, dead)" by fastforce
  have L: "unat (of_nat (Suc n) :: uint32) = Suc n"
    using Cons.prems(2) by (simp add: unsigned_of_nat take_bit_nat_eq_self del: of_nat_Suc)
  from addBatch_step [OF Cons.prems(1) L, of live dead bm] Cons.prems(3) b obtain bl1 where
    bl1: "addBatch bm (of_nat (Suc n)) live dead bl = Inr bl1" "list_ok (Suc n) bl1"
    "live_part (V (cf bl1) (sf bl1) 11) = ledger_apply (live_part (V (cf bl) (sf bl) 11)) batch"
    by (auto simp: batch_ok_def live_part_batch)
  from Cons.IH [OF bl1(2)] Cons.prems(2,3) obtain bl' where
    "addBatches bm (of_nat (Suc (Suc n))) batches bl1 = Inr bl'" "list_ok (Suc n + length batches) bl'"
    "live_part (V (cf bl') (sf bl') 11) = foldl ledger_apply (live_part (V (cf bl1) (sf bl1) 11)) batches"
    by auto
  with bl1 b show ?case by (simp add: add.commute)
qed simp


section \<open>The comparison with the database\<close>

definition live_entries :: "BucketEntry list \<Rightarrow> LedgerEntry list" where
  "live_entries es = map liveEntry (filter (\<lambda>e. \<not> isDead e) es)"

lemma live_entries_simps [simp]:
  "live_entries [] = []"
  "live_entries (LIVEENTRY e # es) = e # live_entries es"
  "live_entries (DEADENTRY k # es) = live_entries es"
  by (simp_all add: live_entries_def)

lemma compare_loop_iff:
  "compare_loop db es n = Inr n' \<longleftrightarrow>
    (\<forall>e \<in> set (live_entries es). db_load db (LedgerEntryKey e) = Some e)
    \<and> n' = foldl (\<lambda>n e. count_type (le_data e) n) n (live_entries es)"
  by (induction db es n rule: compare_loop.induct)
    (auto simp: checkAgainstDatabase_def result_simps split: option.splits if_splits)

definition type_count :: "(LedgerKey \<Rightarrow> LedgerEntry option) \<Rightarrow> nat \<Rightarrow> nat" where
  "type_count m t = card {k \<in> dom m. key_type k = t}"

lemma count_fold:
  "foldl (\<lambda>n e. count_type (le_data e) n) (a, t, off, d) es =
    (a + length (filter (\<lambda>e. key_type (LedgerEntryKey e) = 0) es),
     t + length (filter (\<lambda>e. key_type (LedgerEntryKey e) = 1) es),
     off + length (filter (\<lambda>e. key_type (LedgerEntryKey e) = 2) es),
     d + length (filter (\<lambda>e. key_type (LedgerEntryKey e) = 3) es))"
proof (induction es arbitrary: a t off d)
  case (Cons e es)
  then show ?case by (cases "le_data e") (simp_all add: LedgerEntryKey_def)
qed simp

lemma live_part_entries:
  assumes "entries_ok es"
  shows "live_part (find_entry es) k = Some e \<longleftrightarrow> e \<in> set (live_entries es) \<and> LedgerEntryKey e = k"
proof -
  have "live_part (find_entry es) k = Some e \<longleftrightarrow> find_entry es k = Some (LIVEENTRY e)"
    by (auto simp: live_part_def split: option.splits BucketEntry.splits)
  also have "\<dots> \<longleftrightarrow> LIVEENTRY e \<in> set es \<and> LedgerEntryKey e = k"
    by (simp add: find_entry_unique [OF assms])
  also have "LIVEENTRY e \<in> set es \<longleftrightarrow> e \<in> set (live_entries es)"
    by (force simp: live_entries_def elim: isDead.elims)
  finally show ?thesis .
qed

lemma live_entries_distinct:
  assumes "entries_ok es"
  shows "distinct (map LedgerEntryKey (live_entries es))"
proof -
  have "map LedgerEntryKey (live_entries es) = map bucket_key (filter (\<lambda>e. \<not> isDead e) es)"
    by (auto simp: live_entries_def elim: isDead.elims)
  then show ?thesis using assms by (simp add: strict_sorted_iff distinct_map_filter)
qed

lemma count_live:
  assumes "entries_ok es"
  shows "length (filter (\<lambda>e. key_type (LedgerEntryKey e) = t) (live_entries es)) =
    type_count (live_part (find_entry es)) t"
proof -
  let ?l = "filter (\<lambda>e. key_type (LedgerEntryKey e) = t) (live_entries es)"
  have "{k \<in> dom (live_part (find_entry es)). key_type k = t} = LedgerEntryKey ` set ?l"
    by (auto simp: live_part_entries [OF assms] domIff set_eq_iff)
  moreover have "distinct (map LedgerEntryKey ?l)"
    using live_entries_distinct [OF assms] by (rule distinct_map_filter)
  then have "card (LedgerEntryKey ` set ?l) = length ?l"
    by (metis distinct_card length_map set_map)
  ultimately show ?thesis by (simp add: type_count_def)
qed

lemma compareSizes_iff [simp]: "compareSizes t a b = Inr u \<longleftrightarrow> a = b"
  by (simp add: compareSizes_def)

lemma compare_bucket:
  assumes "entries_ok es"
  shows "compare_loop db es (0, 0, 0, 0) = Inr n \<longleftrightarrow>
    (\<forall>k e. live_part (find_entry es) k = Some e \<longrightarrow> db_load db k = Some e)
    \<and> n = (type_count (live_part (find_entry es)) 0, type_count (live_part (find_entry es)) 1,
         type_count (live_part (find_entry es)) 2, type_count (live_part (find_entry es)) 3)"
  unfolding compare_loop_iff count_fold count_live [OF assms] live_part_entries [OF assms] by auto

lemma list_holds_ledger:
  assumes "length batches < 2 ^ 32" and "list_all batch_ok batches"
  shows "\<exists>bl bs bl' b. addBatches bm 1 batches (BucketList_new junk) = Inr bl
    \<and> collect_buckets bl = Inr (bs, bl') \<and> merge_all bm bs = Inr b \<and> bucket_ok b
    \<and> live_part (bucket_find b) = ledger_after batches"
proof -
  have "live_part Map.empty = Map.empty" by (simp add: live_part_def fun_eq_iff)
  then obtain bl where "addBatches bm 1 batches (BucketList_new junk) = Inr bl" "list_ok (length batches) bl"
    "live_part (V (cf bl) (sf bl) 11) = ledger_after batches"
    using addBatches_step [OF list_ok_new, of batches bm junk] assms by (auto simp: V_new)
  with super_bucket [of "length batches" bl bm] show ?thesis by metis
qed

section \<open>Properties\<close>

text \<open>C26: From an empty bucket list, adding the batches of any sequence of ledgers never fails, and
  the bucket that \<open>checkDBAgainstBuckets\<close> merges from all levels has as live entries exactly the
  entries of the ledger: for every key the last one written, unless it was deleted since.\<close>
theorem bucket_list_is_ledger:
  assumes "length batches < 2 ^ 32" and "list_all batch_ok batches"
  shows "\<exists>bl bs bl' b. addBatches bm 1 batches (BucketList_new junk) = Inr bl
    \<and> collect_buckets bl = Inr (bs, bl') \<and> merge_all bm bs = Inr b \<and> bucket_ok b
    \<and> live_part (bucket_find b) = ledger_after batches"
  using assms by (rule list_holds_ledger)

text \<open>C27: After any sequence of ledgers, the check of a database against the bucket list succeeds
  exactly if the database holds every entry of the ledger, with the same contents, and holds as
  many accounts, trust lines, offers and data entries as the ledger.\<close>
theorem checkDBAgainstBuckets_iff:
  assumes "length batches < 2 ^ 32" and "list_all batch_ok batches"
  shows "\<exists>bl. addBatches bm 1 batches (BucketList_new junk) = Inr bl
    \<and> ((\<exists>bl'. checkDBAgainstBuckets bm db bl = Inr bl') \<longleftrightarrow>
      ledger_after batches \<subseteq>\<^sub>m db_load db
      \<and> db_counts db = (type_count (ledger_after batches) 0, type_count (ledger_after batches) 1,
           type_count (ledger_after batches) 2, type_count (ledger_after batches) 3))"
proof -
  let ?m = "ledger_after batches"
  have "live_part Map.empty = Map.empty" by (simp add: live_part_def fun_eq_iff)
  then obtain bl where bl: "addBatches bm 1 batches (BucketList_new junk) = Inr bl" "list_ok (length batches) bl"
    "live_part (V (cf bl) (sf bl) 11) = ?m"
    using addBatches_step [OF list_ok_new, of batches bm junk] assms by (auto simp: V_new)
  obtain bs bl' b where b: "collect_buckets bl = Inr (bs, bl')" "bs \<noteq> []" "merge_all bm bs = Inr b"
    "bucket_ok b" "bucket_find b = V (cf bl) (sf bl) 11"
    using super_bucket [OF bl(2), of bm] by metis
  have m: "live_part (bucket_find b) = ?m" using b(5) bl(3) by simp
  have "(\<exists>bl'. checkDBAgainstBuckets bm db bl = Inr bl') \<longleftrightarrow>
      (\<exists>n. compare_loop db (mEntries b) (0, 0, 0, 0) = Inr n \<and> db_counts db = n)"
    using b(1-3) by (cases "db_counts db")
      (auto simp: checkDBAgainstBuckets_def result_simps split: prod.splits)
  also have "\<dots> \<longleftrightarrow> ?m \<subseteq>\<^sub>m db_load db
      \<and> db_counts db = (type_count ?m 0, type_count ?m 1, type_count ?m 2, type_count ?m 3)"
    using compare_bucket [of "mEntries b" db] b(4) unfolding bucket_ok_def m
    by (auto simp: map_le_def dom_def)
  finally show ?thesis using bl(1) by blast
qed


text \<open>Two ledgers: the first writes an entry, the second deletes it and writes another.\<close>

definition ex_data :: "uint8 \<Rightarrow> LedgerEntry" where
  "ex_data x = \<lparr>lastModifiedLedgerSeq = 1,
     le_data = DATA \<lparr>data_accountID = [1], data_dataName = [x], data_dataValue = [x]\<rparr>\<rparr>"

definition ex_batches :: "(LedgerEntry list \<times> LedgerKey list) list" where
  "ex_batches = [([ex_data 5], []), ([ex_data 7], [DataKey [1] [5]])]"

definition ex_bm :: BucketManager where
  "ex_bm = \<lparr>bm_hash = \<lambda>es. [1], bm_file = \<lambda>_. None\<rparr>"

lemma ex_batches_ok: "length ex_batches < 2 ^ 32" "list_all batch_ok ex_batches"
  by (simp_all add: ex_batches_def batch_ok_def)

lemma ex_ledger: "ledger_after ex_batches = [DataKey [1] [7] \<mapsto> ex_data 7]"
  by (auto simp: fun_eq_iff ex_batches_def ledger_apply_def LedgerEntryKey_def ex_data_def)

theorem bucket_list_is_ledger_witness:
  "\<exists>bl bs bl' b. addBatches ex_bm 1 ex_batches (BucketList_new (\<lambda>_. False)) = Inr bl
    \<and> collect_buckets bl = Inr (bs, bl') \<and> merge_all ex_bm bs = Inr b \<and> bucket_ok b
    \<and> live_part (bucket_find b) = [DataKey [1] [7] \<mapsto> ex_data 7]"
  using bucket_list_is_ledger [OF ex_batches_ok, of ex_bm "\<lambda>_. False"] by (simp only: ex_ledger)

lemma ex_counts:
  "type_count [DataKey [1] [7] \<mapsto> ex_data 7] t = (if t = 3 then 1 else 0)"
proof -
  have "{k \<in> dom [DataKey [1] [7] \<mapsto> ex_data 7]. key_type k = t} =
      (if t = 3 then {DataKey [1] [7]} else {})" by auto
  then show ?thesis by (simp add: type_count_def)
qed

theorem checkDBAgainstBuckets_iff_witness:
  "\<exists>bl bl'. addBatches ex_bm 1 ex_batches (BucketList_new (\<lambda>_. False)) = Inr bl
    \<and> checkDBAgainstBuckets ex_bm
        \<lparr>db_load = [DataKey [1] [7] \<mapsto> ex_data 7], db_counts = (0, 0, 0, 1)\<rparr> bl = Inr bl'"
  using checkDBAgainstBuckets_iff [OF ex_batches_ok, of ex_bm "\<lambda>_. False"
      "\<lparr>db_load = [DataKey [1] [7] \<mapsto> ex_data 7], db_counts = (0, 0, 0, 1)\<rparr>"]
  unfolding ex_ledger ex_counts by auto

end
