(* ===== verification/Ledger_Delta.thy ===== *)
theory Ledger_Delta
  imports Bucket_Check
begin

text \<open>
  The changes of a transaction or an operation to the ledger (\<open>ledger/LedgerDelta.cpp\<close>). Deltas
  nest: an operation runs in a delta of its own, which is committed into that of its transaction
  or rolled back.

  The maps of a delta are the ordered lists of the prelude, so that the loops run in the order of
  \<open>LedgerEntryIdCmp\<close>. The pointer \<open>mHeader\<close> is set as long as the delta is active; what it points
  to is an argument of \<open>commit\<close>. The specification is the effect of a delta on the ledger,
  \<open>delta_apply\<close>.
\<close>

section \<open>Ledger headers\<close>

record StellarValue =
  sv_txSetHash :: Hash
  sv_closeTime :: uint64
  sv_upgrades :: "opaque list"

record LedgerHeader =
  ledgerVersion :: uint32
  previousLedgerHash :: Hash
  scpValue :: StellarValue
  txSetResultHash :: Hash
  bucketListHash :: Hash
  ledgerSeq :: uint32
  totalCoins :: int
  feePool :: int
  inflationSeq :: uint32
  idPool :: uint64
  baseFee :: uint32
  baseReserve :: uint32
  maxTxSetSize :: uint32
  skipList :: "Hash list"

section \<open>Ordered containers\<close>

text \<open>\<open>erase\<close> by key, of a map and of a set.\<close>

definition map_erase :: "'k \<Rightarrow> ('k \<times> 'v) list \<Rightarrow> ('k \<times> 'v) list" where
  "map_erase k m = filter (\<lambda>p. fst p \<noteq> k) m"

text \<open>\<open>insert\<close> of a map, which leaves an entry that is there.\<close>

definition map_insert :: "'k::linorder \<Rightarrow> 'v \<Rightarrow> ('k \<times> 'v) list \<Rightarrow> ('k \<times> 'v) list" where
  "map_insert k v m = (if map_of m k \<noteq> None then m else map_put k v m)"

lemma map_of_map_erase [simp]: "map_of (map_erase k m) = (map_of m)(k := None)"
  by (induction m) (auto simp: map_erase_def)

lemma map_wf_erase [container_simps]: "map_wf m \<Longrightarrow> map_wf (map_erase k m)"
  by (simp add: map_erase_def sorted_wrt_map sorted_wrt_filter)

lemma map_wf_insert [container_simps]: "map_wf m \<Longrightarrow> map_wf (map_insert k v m)"
  by (simp add: map_insert_def map_wf_put)

lemma map_of_map_insert [simp]:
  "map_of (map_insert k v m) = (if map_of m k \<noteq> None then map_of m else (map_of m)(k \<mapsto> v))"
  by (simp add: map_insert_def)

section \<open>The delta\<close>

type_synonym KeyEntryMap = "(LedgerKey \<times> LedgerEntry) list"

record LedgerDelta =
  mActive :: bool
  mCurrentHeader :: LedgerHeader
  mPreviousHeaderValue :: LedgerHeader
  mNew :: KeyEntryMap
  mMod :: KeyEntryMap
  mDelete :: "LedgerKey list"
  mPrevious :: KeyEntryMap
  mUpdateLastModified :: bool

definition LedgerDelta_new :: "LedgerHeader \<Rightarrow> bool \<Rightarrow> LedgerDelta" where
  "LedgerDelta_new header updateLastModified =
     \<lparr>mActive = True, mCurrentHeader = header, mPreviousHeaderValue = header, mNew = [], mMod = [],
      mDelete = [], mPrevious = [], mUpdateLastModified = updateLastModified\<rparr>"

definition LedgerDelta_nested :: "LedgerDelta \<Rightarrow> LedgerDelta" where
  "LedgerDelta_nested outerDelta =
     LedgerDelta_new (mCurrentHeader outerDelta) (mUpdateLastModified outerDelta)"

text \<open>\<open>checkState\<close>: no operation on a delta that was committed or rolled back.\<close>

definition delta_checkState :: "LedgerDelta \<Rightarrow> 'a result \<Rightarrow> 'a result" where
  "delta_checkState d k =
     (if mActive d then k else Inl (RuntimeError ''Invalid operation: delta is already committed''))"

definition addEntry :: "LedgerEntry \<Rightarrow> LedgerDelta \<Rightarrow> LedgerDelta result" where
  "addEntry entry d =
     delta_checkState d
       (let k = LedgerEntryKey entry
        in if k \<in> set (mDelete d)
           then Inr (d\<lparr>mDelete := removeAll k (mDelete d), mMod := map_put k entry (mMod d)\<rparr>)
           else
             dbgAssert (map_of (mNew d) k = None) (dbgAssert (map_of (mMod d) k = None)
               (Inr (d\<lparr>mNew := map_put k entry (mNew d)\<rparr>))))"

definition deleteEntry :: "LedgerKey \<Rightarrow> LedgerDelta \<Rightarrow> LedgerDelta result" where
  "deleteEntry k d =
     delta_checkState d
       (if map_of (mNew d) k \<noteq> None then Inr (d\<lparr>mNew := map_erase k (mNew d)\<rparr>)
        else
          dbgAssert (k \<notin> set (mDelete d))
            (Inr (d\<lparr>mMod := map_erase k (mMod d), mDelete := insort_insert k (mDelete d)\<rparr>)))"

definition modEntry :: "LedgerEntry \<Rightarrow> LedgerDelta \<Rightarrow> LedgerDelta result" where
  "modEntry entry d =
     delta_checkState d
       (let k = LedgerEntryKey entry
        in if map_of (mMod d) k \<noteq> None then Inr (d\<lparr>mMod := map_put k entry (mMod d)\<rparr>)
           else if map_of (mNew d) k \<noteq> None then Inr (d\<lparr>mNew := map_put k entry (mNew d)\<rparr>)
           else dbgAssert (k \<notin> set (mDelete d)) (Inr (d\<lparr>mMod := map_put k entry (mMod d)\<rparr>)))"

definition recordEntry :: "LedgerEntry \<Rightarrow> LedgerDelta \<Rightarrow> LedgerDelta result" where
  "recordEntry entry d =
     delta_checkState d
       (Inr (d\<lparr>mPrevious := map_insert (LedgerEntryKey entry) entry (mPrevious d)\<rparr>))"

subsection \<open>Merging a delta into the outer one\<close>

text \<open>The previous value of an entry of the inner delta, if it has one, is recorded in the outer.\<close>

definition record_previous :: "LedgerDelta \<Rightarrow> LedgerKey \<Rightarrow> LedgerDelta \<Rightarrow> LedgerDelta result" where
  "record_previous other k d =
     (case map_of (mPrevious other) k of Some e \<Rightarrow> recordEntry e d | None \<Rightarrow> Inr d)"

fun merge_deletes :: "LedgerDelta \<Rightarrow> LedgerKey list \<Rightarrow> LedgerDelta \<Rightarrow> LedgerDelta result" where
  "merge_deletes other [] d = Inr d"
| "merge_deletes other (k # ks) d =
     bindE (deleteEntry k d) (\<lambda>d. bindE (record_previous other k d) (merge_deletes other ks))"

fun merge_news :: "KeyEntryMap \<Rightarrow> LedgerDelta \<Rightarrow> LedgerDelta result" where
  "merge_news [] d = Inr d"
| "merge_news ((k, e) # es) d = bindE (addEntry e d) (merge_news es)"

fun merge_mods :: "LedgerDelta \<Rightarrow> KeyEntryMap \<Rightarrow> LedgerDelta \<Rightarrow> LedgerDelta result" where
  "merge_mods other [] d = Inr d"
| "merge_mods other ((k, e) # es) d =
     bindE (modEntry e d) (\<lambda>d. bindE (record_previous other k d) (merge_mods other es))"

definition mergeEntries :: "LedgerDelta \<Rightarrow> LedgerDelta \<Rightarrow> LedgerDelta result" where
  "mergeEntries other d =
     delta_checkState d
       (bindE (merge_deletes other (mDelete other) d) (\<lambda>d.
        bindE (merge_news (mNew other) d) (\<lambda>d.
        merge_mods other (mMod other) d)))"

text \<open>\<open>commit\<close> into an outer delta, whose current header is the one pointed to, and into a plain
  header.\<close>

definition commit_nested :: "LedgerDelta \<Rightarrow> LedgerDelta \<Rightarrow> (LedgerDelta \<times> LedgerDelta) result" where
  "commit_nested d outer =
     delta_checkState d
       (if mPreviousHeaderValue d \<noteq> mCurrentHeader outer
        then Inl (RuntimeError ''unexpected header state'')
        else bindE (mergeEntries d outer) (\<lambda>outer.
          Inr (d\<lparr>mActive := False\<rparr>, outer\<lparr>mCurrentHeader := mCurrentHeader d\<rparr>)))"

definition commit_root :: "LedgerDelta \<Rightarrow> LedgerHeader \<Rightarrow> (LedgerDelta \<times> LedgerHeader) result" where
  "commit_root d header =
     delta_checkState d
       (if mPreviousHeaderValue d \<noteq> header
        then Inl (RuntimeError ''unexpected header state'')
        else Inr (d\<lparr>mActive := False\<rparr>, mCurrentHeader d))"

text \<open>\<open>rollback\<close>: the keys whose cached entries are flushed, in order.\<close>

definition rollback :: "LedgerDelta \<Rightarrow> (LedgerDelta \<times> LedgerKey list) result" where
  "rollback d =
     delta_checkState d (Inr (d\<lparr>mActive := False\<rparr>, mDelete d @ map fst (mNew d) @ map fst (mMod d)))"

subsection \<open>What a delta reports\<close>

datatype LedgerEntryChange =
    LEDGER_ENTRY_CREATED LedgerEntry
  | LEDGER_ENTRY_UPDATED LedgerEntry
  | LEDGER_ENTRY_REMOVED LedgerKey
  | LEDGER_ENTRY_STATE LedgerEntry

definition addCurrentMeta :: "LedgerDelta \<Rightarrow> LedgerKey \<Rightarrow> LedgerEntryChange list" where
  "addCurrentMeta d key =
     (case map_of (mPrevious d) key of
        Some e \<Rightarrow>
          if lastModifiedLedgerSeq e \<noteq> ledgerSeq (mCurrentHeader d) then [LEDGER_ENTRY_STATE e] else []
      | None \<Rightarrow> [])"

definition getChanges :: "LedgerDelta \<Rightarrow> LedgerEntryChange list" where
  "getChanges d =
     map (\<lambda>(k, e). LEDGER_ENTRY_CREATED e) (mNew d)
     @ concat (map (\<lambda>(k, e). addCurrentMeta d k @ [LEDGER_ENTRY_UPDATED e]) (mMod d))
     @ concat (map (\<lambda>k. addCurrentMeta d k @ [LEDGER_ENTRY_REMOVED k]) (mDelete d))"

definition getLiveEntries :: "LedgerDelta \<Rightarrow> LedgerEntry list" where
  "getLiveEntries d = map snd (mNew d) @ map snd (mMod d)"

definition getDeadEntries :: "LedgerDelta \<Rightarrow> LedgerKey list" where
  "getDeadEntries d = mDelete d"

section \<open>The effect of a delta\<close>

type_synonym ledger = "LedgerKey \<Rightarrow> LedgerEntry option"

definition delta_apply :: "LedgerDelta \<Rightarrow> ledger \<Rightarrow> ledger" where
  "delta_apply d m k =
     (if k \<in> set (mDelete d) then None
      else case map_of (mNew d) k of Some e \<Rightarrow> Some e
        | None \<Rightarrow> (case map_of (mMod d) k of Some e \<Rightarrow> Some e | None \<Rightarrow> m k))"

definition keyed :: "ledger \<Rightarrow> bool" where
  "keyed m \<longleftrightarrow> (\<forall>k e. m k = Some e \<longrightarrow> LedgerEntryKey e = k)"

text \<open>The invariant: the three parts of a delta are disjoint, and relative to the ledger \<open>m\<close> it
  started from, its new entries were not there and its changed and deleted ones were.\<close>

definition delta_ok :: "ledger \<Rightarrow> LedgerDelta \<Rightarrow> bool" where
  "delta_ok m d \<longleftrightarrow>
     map_wf (mNew d) \<and> map_wf (mMod d) \<and> std_set (mDelete d) \<and> map_wf (mPrevious d)
     \<and> keyed (map_of (mNew d)) \<and> keyed (map_of (mMod d)) \<and> keyed (map_of (mPrevious d))
     \<and> (\<forall>k. map_of (mNew d) k \<noteq> None \<longrightarrow> m k = None \<and> map_of (mMod d) k = None)
     \<and> (\<forall>k. map_of (mMod d) k \<noteq> None \<longrightarrow> m k \<noteq> None)
     \<and> (\<forall>k \<in> set (mDelete d). m k \<noteq> None \<and> map_of (mNew d) k = None \<and> map_of (mMod d) k = None)"

lemma delta_ok_new: "delta_ok m (LedgerDelta_new header u)"
  by (simp add: delta_ok_def LedgerDelta_new_def keyed_def)

lemma delta_apply_new: "delta_apply (LedgerDelta_new header u) m = m"
  by (simp add: fun_eq_iff delta_apply_def LedgerDelta_new_def)

lemma delta_header [simp]:
  "delta_apply (d\<lparr>mCurrentHeader := h\<rparr>) = delta_apply d" "delta_ok m (d\<lparr>mCurrentHeader := h\<rparr>) = delta_ok m d"
  by (simp_all add: delta_apply_def delta_ok_def fun_eq_iff split: option.splits)

lemma keyed_upd: "keyed m \<Longrightarrow> LedgerEntryKey e = k \<Longrightarrow> keyed (m(k \<mapsto> e))"
  by (simp add: keyed_def)

lemma keyed_del: "keyed m \<Longrightarrow> keyed (m(k := None))"
  by (simp add: keyed_def)

lemma addEntry_step:
  assumes ok: "delta_ok m d" and act: "mActive d" and k: "delta_apply d m (LedgerEntryKey e) = None"
  shows "\<exists>d'. addEntry e d = Inr d' \<and> delta_ok m d' \<and> mActive d'
    \<and> delta_apply d' m = (delta_apply d m)(LedgerEntryKey e \<mapsto> e)
    \<and> mPrevious d' = mPrevious d \<and> mCurrentHeader d' = mCurrentHeader d"
proof (cases "LedgerEntryKey e \<in> set (mDelete d)")
  case True
  let ?d = "d\<lparr>mDelete := removeAll (LedgerEntryKey e) (mDelete d), mMod := map_put (LedgerEntryKey e) e (mMod d)\<rparr>"
  have "addEntry e d = Inr ?d" using True act by (simp add: addEntry_def delta_checkState_def Let_def)
  moreover have "delta_ok m ?d"
    using ok True
    by (auto simp: delta_ok_def map_wf_put keyed_upd distinct_removeAll sorted_wrt_filter removeAll_filter_not_eq)
  moreover have "delta_apply ?d m = (delta_apply d m)(LedgerEntryKey e \<mapsto> e)"
    using ok True by (auto simp: fun_eq_iff delta_apply_def delta_ok_def split: option.splits)
  ultimately show ?thesis using act by auto
next
  case False
  let ?d = "d\<lparr>mNew := map_put (LedgerEntryKey e) e (mNew d)\<rparr>"
  have n: "map_of (mNew d) (LedgerEntryKey e) = None" "map_of (mMod d) (LedgerEntryKey e) = None"
    "m (LedgerEntryKey e) = None"
    using k False by (auto simp: delta_apply_def split: option.splits)
  then have "addEntry e d = Inr ?d" using False act by (simp add: addEntry_def delta_checkState_def Let_def)
  moreover have "delta_ok m ?d"
    using ok False n by (auto simp: delta_ok_def map_wf_put keyed_upd)
  moreover have "delta_apply ?d m = (delta_apply d m)(LedgerEntryKey e \<mapsto> e)"
    using False by (auto simp: fun_eq_iff delta_apply_def split: option.splits)
  ultimately show ?thesis using act by auto
qed


lemma deleteEntry_step:
  assumes ok: "delta_ok m d" and act: "mActive d" and k: "delta_apply d m k \<noteq> None"
  shows "\<exists>d'. deleteEntry k d = Inr d' \<and> delta_ok m d' \<and> mActive d'
    \<and> delta_apply d' m = (delta_apply d m)(k := None)
    \<and> mPrevious d' = mPrevious d \<and> mCurrentHeader d' = mCurrentHeader d"
proof (cases "map_of (mNew d) k = None")
  case False
  let ?d = "d\<lparr>mNew := map_erase k (mNew d)\<rparr>"
  have "deleteEntry k d = Inr ?d" using False act by (simp add: deleteEntry_def delta_checkState_def)
  moreover have "delta_ok m ?d"
    using ok by (auto simp: delta_ok_def container_simps keyed_del)
  moreover have "delta_apply ?d m = (delta_apply d m)(k := None)"
    using ok False by (auto simp: fun_eq_iff delta_apply_def delta_ok_def split: option.splits)
  ultimately show ?thesis using act by auto
next
  case True
  let ?d = "d\<lparr>mMod := map_erase k (mMod d), mDelete := insort_insert k (mDelete d)\<rparr>"
  have n: "k \<notin> set (mDelete d)" using k by (auto simp: delta_apply_def)
  then have "deleteEntry k d = Inr ?d" using True act by (simp add: deleteEntry_def delta_checkState_def)
  moreover have mk: "m k \<noteq> None"
    using ok k True n by (auto simp: delta_apply_def delta_ok_def split: option.splits)
  have "delta_ok m ?d"
    using ok n True mk
    by (auto simp: delta_ok_def container_simps keyed_del sorted_insort_insert distinct_insort_insert
        set_insort_insert)
  moreover have "delta_apply ?d m = (delta_apply d m)(k := None)"
    by (auto simp: fun_eq_iff delta_apply_def set_insort_insert split: option.splits)
  ultimately show ?thesis using act by auto
qed

lemma modEntry_step:
  assumes ok: "delta_ok m d" and act: "mActive d" and k: "delta_apply d m (LedgerEntryKey e) \<noteq> None"
  shows "\<exists>d'. modEntry e d = Inr d' \<and> delta_ok m d' \<and> mActive d'
    \<and> delta_apply d' m = (delta_apply d m)(LedgerEntryKey e \<mapsto> e)
    \<and> mPrevious d' = mPrevious d \<and> mCurrentHeader d' = mCurrentHeader d"
proof -
  let ?k = "LedgerEntryKey e"
  have nd: "?k \<notin> set (mDelete d)" using k by (auto simp: delta_apply_def)
  show ?thesis
  proof (cases "map_of (mMod d) ?k = None \<and> map_of (mNew d) ?k \<noteq> None")
    case True
    let ?d = "d\<lparr>mNew := map_put ?k e (mNew d)\<rparr>"
    have "modEntry e d = Inr ?d" using True act by (simp add: modEntry_def delta_checkState_def Let_def)
    moreover have "delta_ok m ?d"
      using ok True nd by (auto simp: delta_ok_def map_wf_put keyed_upd)
    moreover have "delta_apply ?d m = (delta_apply d m)(?k \<mapsto> e)"
      using nd by (auto simp: fun_eq_iff delta_apply_def split: option.splits)
    ultimately show ?thesis using act by auto
  next
    case False
    let ?d = "d\<lparr>mMod := map_put ?k e (mMod d)\<rparr>"
    have "modEntry e d = Inr ?d"
      using False act nd by (auto simp: modEntry_def delta_checkState_def Let_def)
    moreover have n: "map_of (mNew d) ?k = None"
      using False ok by (auto simp: delta_ok_def)
    moreover have "m ?k \<noteq> None"
      using k nd n ok by (auto simp: delta_apply_def delta_ok_def split: option.splits)
    ultimately have "modEntry e d = Inr ?d" "delta_ok m ?d"
      using ok nd by (auto simp: delta_ok_def map_wf_put keyed_upd)
    moreover have "delta_apply ?d m = (delta_apply d m)(?k \<mapsto> e)"
      using nd n by (auto simp: fun_eq_iff delta_apply_def split: option.splits)
    ultimately show ?thesis using act by auto
  qed
qed

lemma recordEntry_step:
  assumes ok: "delta_ok m d" and act: "mActive d"
  shows "\<exists>d'. recordEntry e d = Inr d' \<and> delta_ok m d' \<and> mActive d' \<and> delta_apply d' m = delta_apply d m
    \<and> mCurrentHeader d' = mCurrentHeader d"
  using assms
  by (auto simp: recordEntry_def delta_checkState_def delta_ok_def container_simps keyed_upd
      delta_apply_def fun_eq_iff split: option.splits)

lemma record_previous_step:
  assumes "delta_ok m d" and "mActive d"
  shows "\<exists>d'. record_previous other k d = Inr d' \<and> delta_ok m d' \<and> mActive d' \<and> delta_apply d' m = delta_apply d m
    \<and> mCurrentHeader d' = mCurrentHeader d"
  using assms recordEntry_step [OF assms] by (cases "map_of (mPrevious other) k") (auto simp: record_previous_def)

section \<open>Nested deltas\<close>

lemma merge_deletes_step:
  assumes "delta_ok m d" and "mActive d" and "distinct ks" and "\<And>k. k \<in> set ks \<Longrightarrow> delta_apply d m k \<noteq> None"
  shows "\<exists>d'. merge_deletes other ks d = Inr d' \<and> delta_ok m d' \<and> mActive d'
    \<and> delta_apply d' m = (\<lambda>k. if k \<in> set ks then None else delta_apply d m k)
    \<and> mCurrentHeader d' = mCurrentHeader d"
  using assms
proof (induction ks arbitrary: d)
  case (Cons k ks)
  have "delta_apply d m k \<noteq> None" using Cons.prems(4) by simp
  from deleteEntry_step [OF Cons.prems(1,2) this] obtain d1 where
    d1: "deleteEntry k d = Inr d1" "delta_ok m d1" "mActive d1" "delta_apply d1 m = (delta_apply d m)(k := None)"
      "mCurrentHeader d1 = mCurrentHeader d" by blast
  from record_previous_step [OF d1(2,3)] obtain d2 where
    d2: "record_previous other k d1 = Inr d2" "delta_ok m d2" "mActive d2" "delta_apply d2 m = delta_apply d1 m"
      "mCurrentHeader d2 = mCurrentHeader d1" by blast
  have "delta_apply d2 m k' \<noteq> None" if "k' \<in> set ks" for k'
    using that Cons.prems(3,4) d1(4) d2(4) by auto
  from Cons.IH [OF d2(2,3) _ this] Cons.prems(3) obtain d3 where
    "merge_deletes other ks d2 = Inr d3" "delta_ok m d3" "mActive d3"
    "delta_apply d3 m = (\<lambda>k. if k \<in> set ks then None else delta_apply d2 m k)"
    "mCurrentHeader d3 = mCurrentHeader d2" by auto
  with d1 d2 show ?case by (auto simp: fun_eq_iff)
qed simp

lemma merge_news_step:
  assumes "delta_ok m d" and "mActive d" and "distinct (map fst es)"
    and "\<And>k e. (k, e) \<in> set es \<Longrightarrow> LedgerEntryKey e = k \<and> delta_apply d m k = None"
  shows "\<exists>d'. merge_news es d = Inr d' \<and> delta_ok m d' \<and> mActive d'
    \<and> delta_apply d' m = delta_apply d m ++ map_of es \<and> mCurrentHeader d' = mCurrentHeader d"
  using assms
proof (induction es arbitrary: d)
  case (Cons p es)
  obtain k e where p: "p = (k, e)" by fastforce
  have k: "LedgerEntryKey e = k" "delta_apply d m k = None" using Cons.prems(4) p by auto
  with addEntry_step [OF Cons.prems(1,2), of e] obtain d1 where
    d1: "addEntry e d = Inr d1" "delta_ok m d1" "mActive d1" "delta_apply d1 m = (delta_apply d m)(k \<mapsto> e)"
      "mCurrentHeader d1 = mCurrentHeader d" by auto
  have "LedgerEntryKey e' = k' \<and> delta_apply d1 m k' = None" if "(k', e') \<in> set es" for k' e'
    using that Cons.prems(3,4) d1(4) p by force
  from Cons.IH [OF d1(2,3) _ this] Cons.prems(3) p obtain d2 where
    "merge_news es d1 = Inr d2" "delta_ok m d2" "mActive d2" "delta_apply d2 m = delta_apply d1 m ++ map_of es"
    "mCurrentHeader d2 = mCurrentHeader d1" by auto
  with d1 p Cons.prems(3) show ?case
    by (auto simp: fun_eq_iff map_add_def dest: map_of_SomeD split: option.splits) force
qed simp

lemma merge_mods_step:
  assumes "delta_ok m d" and "mActive d" and "distinct (map fst es)"
    and "\<And>k e. (k, e) \<in> set es \<Longrightarrow> LedgerEntryKey e = k \<and> delta_apply d m k \<noteq> None"
  shows "\<exists>d'. merge_mods other es d = Inr d' \<and> delta_ok m d' \<and> mActive d'
    \<and> delta_apply d' m = delta_apply d m ++ map_of es \<and> mCurrentHeader d' = mCurrentHeader d"
  using assms
proof (induction es arbitrary: d)
  case (Cons p es)
  obtain k e where p: "p = (k, e)" by fastforce
  have k: "LedgerEntryKey e = k" "delta_apply d m k \<noteq> None" using Cons.prems(4) p by auto
  with modEntry_step [OF Cons.prems(1,2), of e] obtain d1 where
    d1: "modEntry e d = Inr d1" "delta_ok m d1" "mActive d1" "delta_apply d1 m = (delta_apply d m)(k \<mapsto> e)"
      "mCurrentHeader d1 = mCurrentHeader d" by auto
  from record_previous_step [OF d1(2,3)] obtain d2 where
    d2: "record_previous other k d1 = Inr d2" "delta_ok m d2" "mActive d2" "delta_apply d2 m = delta_apply d1 m"
      "mCurrentHeader d2 = mCurrentHeader d1" by blast
  have "LedgerEntryKey e' = k' \<and> delta_apply d2 m k' \<noteq> None" if "(k', e') \<in> set es" for k' e'
    using that Cons.prems(4) d1(4) d2(4) p by auto
  from Cons.IH [OF d2(2,3) _ this] Cons.prems(3) p obtain d3 where
    "merge_mods other es d2 = Inr d3" "delta_ok m d3" "mActive d3" "delta_apply d3 m = delta_apply d2 m ++ map_of es"
    "mCurrentHeader d3 = mCurrentHeader d2" by auto
  with d1 d2 p Cons.prems(3) show ?case
    by (auto simp: fun_eq_iff map_add_def dest: map_of_SomeD split: option.splits) force
qed simp


lemma map_of_distinct:
  assumes "map_wf es"
  shows "(k, e) \<in> set es \<longleftrightarrow> map_of es k = Some e"
  using map_wf_distinct [OF assms] by simp

lemma mergeEntries_step:
  assumes ok: "delta_ok m d" and act: "mActive d" and inner: "delta_ok (delta_apply d m) other"
  shows "\<exists>d'. mergeEntries other d = Inr d' \<and> delta_ok m d' \<and> mActive d'
    \<and> delta_apply d' m = delta_apply other (delta_apply d m) \<and> mCurrentHeader d' = mCurrentHeader d"
proof -
  let ?m = "delta_apply d m"
  have wf: "map_wf (mNew other)" "map_wf (mMod other)" "distinct (mDelete other)"
    using inner by (simp_all add: delta_ok_def)
  have "?m k \<noteq> None" if "k \<in> set (mDelete other)" for k
    using that inner by (simp add: delta_ok_def)
  from merge_deletes_step [OF ok act wf(3) this] obtain d1 where
    d1: "merge_deletes other (mDelete other) d = Inr d1" "delta_ok m d1" "mActive d1"
      "delta_apply d1 m = (\<lambda>k. if k \<in> set (mDelete other) then None else ?m k)"
      "mCurrentHeader d1 = mCurrentHeader d" by blast
  have "LedgerEntryKey e = k \<and> delta_apply d1 m k = None" if "(k, e) \<in> set (mNew other)" for k e
    using that inner unfolding map_of_distinct [OF wf(1)] d1(4) by (auto simp: delta_ok_def keyed_def)
  from merge_news_step [OF d1(2,3) map_wf_distinct [OF wf(1)] this] obtain d2 where
    d2: "merge_news (mNew other) d1 = Inr d2" "delta_ok m d2" "mActive d2"
      "delta_apply d2 m = delta_apply d1 m ++ map_of (mNew other)" "mCurrentHeader d2 = mCurrentHeader d1" by blast
  have "LedgerEntryKey e = k \<and> delta_apply d2 m k \<noteq> None" if "(k, e) \<in> set (mMod other)" for k e
    using that inner unfolding map_of_distinct [OF wf(2)] d2(4) d1(4)
    by (auto simp: delta_ok_def keyed_def map_add_def split: option.splits)
  from merge_mods_step [OF d2(2,3) map_wf_distinct [OF wf(2)] this] obtain d3 where
    d3: "merge_mods other (mMod other) d2 = Inr d3" "delta_ok m d3" "mActive d3"
      "delta_apply d3 m = delta_apply d2 m ++ map_of (mMod other)" "mCurrentHeader d3 = mCurrentHeader d2" by blast
  have "delta_apply d3 m = delta_apply other ?m"
    unfolding d3(4) d2(4) d1(4) using inner
    by (auto simp: fun_eq_iff map_add_def delta_apply_def [of other] delta_ok_def split: option.splits)
  moreover have "mergeEntries other d = Inr d3"
    using act d1(1) d2(1) d3(1) by (simp add: mergeEntries_def delta_checkState_def)
  ultimately show ?thesis using d1(5) d2(5) d3(2,3,5) by auto
qed

section \<open>Tracking a sequence of changes\<close>

text \<open>What operations do to the ledger through a delta.\<close>

datatype edit =
    Added LedgerEntry
  | Changed LedgerEntry
  | Removed LedgerKey
  | Recorded LedgerEntry

fun edit_ok :: "ledger \<Rightarrow> edit \<Rightarrow> bool" where
  "edit_ok m (Added e) \<longleftrightarrow> m (LedgerEntryKey e) = None"
| "edit_ok m (Changed e) \<longleftrightarrow> m (LedgerEntryKey e) \<noteq> None"
| "edit_ok m (Removed k) \<longleftrightarrow> m k \<noteq> None"
| "edit_ok m (Recorded e) \<longleftrightarrow> True"

fun edit_apply :: "ledger \<Rightarrow> edit \<Rightarrow> ledger" where
  "edit_apply m (Added e) = m(LedgerEntryKey e \<mapsto> e)"
| "edit_apply m (Changed e) = m(LedgerEntryKey e \<mapsto> e)"
| "edit_apply m (Removed k) = m(k := None)"
| "edit_apply m (Recorded e) = m"

fun edits_ok :: "ledger \<Rightarrow> edit list \<Rightarrow> bool" where
  "edits_ok m [] \<longleftrightarrow> True"
| "edits_ok m (x # xs) \<longleftrightarrow> edit_ok m x \<and> edits_ok (edit_apply m x) xs"

abbreviation edits_apply :: "ledger \<Rightarrow> edit list \<Rightarrow> ledger" where
  "edits_apply \<equiv> foldl edit_apply"

fun delta_edit :: "edit \<Rightarrow> LedgerDelta \<Rightarrow> LedgerDelta result" where
  "delta_edit (Added e) d = addEntry e d"
| "delta_edit (Changed e) d = modEntry e d"
| "delta_edit (Removed k) d = deleteEntry k d"
| "delta_edit (Recorded e) d = recordEntry e d"

fun run_edits :: "(edit \<Rightarrow> 'd \<Rightarrow> 'd result) \<Rightarrow> edit list \<Rightarrow> 'd \<Rightarrow> 'd result" where
  "run_edits step [] d = Inr d"
| "run_edits step (x # xs) d = bindE (step x d) (run_edits step xs)"

lemma edits_ok_append: "edits_ok m (xs @ ys) \<longleftrightarrow> edits_ok m xs \<and> edits_ok (edits_apply m xs) ys"
  by (induction xs arbitrary: m) auto

text \<open>What a user of a tracker relies on: a legal change succeeds, keeps its invariant, and is seen
  in its view of the ledger.\<close>

locale ledger_tracker =
  fixes ok :: "'d \<Rightarrow> bool" and view :: "'d \<Rightarrow> ledger" and step :: "edit \<Rightarrow> 'd \<Rightarrow> 'd result"
  assumes tracked: "ok d \<Longrightarrow> edit_ok (view d) x \<Longrightarrow>
    \<exists>d'. step x d = Inr d' \<and> ok d' \<and> view d' = edit_apply (view d) x"
begin

lemma tracked_all:
  assumes "ok d" and "edits_ok (view d) xs"
  shows "\<exists>d'. run_edits step xs d = Inr d' \<and> ok d' \<and> view d' = edits_apply (view d) xs"
  using assms
proof (induction xs arbitrary: d)
  case (Cons x xs)
  then obtain d1 where d1: "step x d = Inr d1" "ok d1" "view d1 = edit_apply (view d) x"
    using tracked [of d x] by auto
  with Cons.IH [of d1] Cons.prems(2) show ?case by auto
qed simp

end

interpretation delta_tracker:
  ledger_tracker "\<lambda>d. delta_ok m d \<and> mActive d \<and> mCurrentHeader d = h" "\<lambda>d. delta_apply d m" delta_edit for m h
proof
  fix d x
  assume d: "delta_ok m d \<and> mActive d \<and> mCurrentHeader d = h" and x: "edit_ok (delta_apply d m) x"
  show "\<exists>d'. delta_edit x d = Inr d' \<and> (delta_ok m d' \<and> mActive d' \<and> mCurrentHeader d' = h)
      \<and> delta_apply d' m = edit_apply (delta_apply d m) x"
  proof (cases x)
    case (Added e)
    then show ?thesis using addEntry_step [of m d e] d x by auto
  next
    case (Changed e)
    then show ?thesis using modEntry_step [of m d e] d x by auto
  next
    case (Removed k)
    then show ?thesis using deleteEntry_step [of m d k] d x by auto
  next
    case (Recorded e)
    then show ?thesis using recordEntry_step [of m d e] d by auto
  qed
qed

lemma new_delta_tracks:
  assumes "edits_ok m xs"
  shows "\<exists>d. run_edits delta_edit xs (LedgerDelta_new h u) = Inr d \<and> delta_ok m d \<and> mActive d
    \<and> mCurrentHeader d = h \<and> delta_apply d m = edits_apply m xs"
  using delta_tracker.tracked_all [of m "LedgerDelta_new h u" h xs] assms
  by (simp add: delta_ok_new delta_apply_new) (simp add: LedgerDelta_new_def)

text \<open>No change touches the header a delta started from.\<close>

lemma delta_edit_header: "delta_edit x d = Inr d' \<Longrightarrow> mPreviousHeaderValue d' = mPreviousHeaderValue d"
  by (cases x)
    (auto simp: addEntry_def modEntry_def deleteEntry_def recordEntry_def delta_checkState_def Let_def
      result_simps split: if_splits)

lemma run_edits_header:
  "run_edits delta_edit xs d = Inr d' \<Longrightarrow> mPreviousHeaderValue d' = mPreviousHeaderValue d"
  by (induction xs arbitrary: d) (auto simp: result_simps dest: delta_edit_header)

section \<open>Reports\<close>

fun replay_change :: "ledger \<Rightarrow> LedgerEntryChange \<Rightarrow> ledger" where
  "replay_change m (LEDGER_ENTRY_CREATED e) = m(LedgerEntryKey e \<mapsto> e)"
| "replay_change m (LEDGER_ENTRY_UPDATED e) = m(LedgerEntryKey e \<mapsto> e)"
| "replay_change m (LEDGER_ENTRY_REMOVED k) = m(k := None)"
| "replay_change m (LEDGER_ENTRY_STATE e) = m"

lemma replay_meta [simp]: "foldl replay_change m (addCurrentMeta d k) = m"
  by (simp add: addCurrentMeta_def split: option.splits)

lemma replay_upds:
  assumes "distinct (map fst xs)"
    and "\<And>k e m. (k, e) \<in> set xs \<Longrightarrow> foldl replay_change m (f (k, e)) = m(k \<mapsto> e)"
  shows "foldl replay_change m (concat (map f xs)) = m ++ map_of xs"
  using assms
proof (induction xs arbitrary: m)
  case (Cons p xs)
  obtain k e where p: "p = (k, e)" by fastforce
  have "k \<notin> dom (map_of xs)" using Cons.prems(1) p by (simp add: dom_map_of_conv_image_fst)
  with Cons p show ?case by (auto simp: fun_eq_iff map_add_def domIff split: option.splits)
qed simp

lemma entry_keys:
  assumes "map_wf es" and "keyed (map_of es)" and "(k, e) \<in> set es"
  shows "LedgerEntryKey e = k"
  using assms(2,3) unfolding map_of_distinct [OF assms(1)] by (simp add: keyed_def)

lemma replay_created:
  assumes "map_wf es" and "keyed (map_of es)"
  shows "foldl replay_change m (map (\<lambda>(k, e). LEDGER_ENTRY_CREATED e) es) = m ++ map_of es"
proof -
  have "map (\<lambda>(k, e). LEDGER_ENTRY_CREATED e) es = concat (map (\<lambda>(k, e). [LEDGER_ENTRY_CREATED e]) es)"
    by (induction es) auto
  with replay_upds [OF map_wf_distinct [OF assms(1)], of "\<lambda>(k, e). [LEDGER_ENTRY_CREATED e]"]
  show ?thesis using entry_keys [OF assms] by simp
qed

lemma replay_updated:
  assumes "map_wf es" and "keyed (map_of es)"
  shows "foldl replay_change m (concat (map (\<lambda>(k, e). addCurrentMeta d k @ [LEDGER_ENTRY_UPDATED e]) es)) =
    m ++ map_of es"
  using replay_upds [OF map_wf_distinct [OF assms(1)], of "\<lambda>(k, e). addCurrentMeta d k @ [LEDGER_ENTRY_UPDATED e]"]
    entry_keys [OF assms] by simp

lemma replay_removed:
  "foldl replay_change m (concat (map (\<lambda>k. addCurrentMeta d k @ [LEDGER_ENTRY_REMOVED k]) ks)) =
    (\<lambda>k. if k \<in> set ks then None else m k)"
  by (induction ks arbitrary: m) (auto simp: fun_eq_iff)

lemma replay_getChanges:
  assumes "delta_ok m d"
  shows "foldl replay_change m (getChanges d) = delta_apply d m"
proof -
  have "foldl replay_change m (getChanges d) =
      (\<lambda>k. if k \<in> set (mDelete d) then None else ((m ++ map_of (mNew d)) ++ map_of (mMod d)) k)"
    using assms by (simp add: getChanges_def replay_created replay_updated replay_removed delta_ok_def del: map_add_assoc)
  then show ?thesis
    using assms by (auto simp: fun_eq_iff delta_apply_def map_add_def delta_ok_def split: option.splits)
qed

lemma delta_batch:
  assumes ok: "delta_ok m d"
  shows "batch_ok (getLiveEntries d, getDeadEntries d)"
    and "ledger_apply m (getLiveEntries d, getDeadEntries d) = delta_apply d m"
proof -
  have wf: "map_wf (mNew d)" "map_wf (mMod d)" using ok by (simp_all add: delta_ok_def)
  have key: "LedgerEntryKey e = k" if "(k, e) \<in> set (mNew d) \<union> set (mMod d)" for k e
    using that ok by (auto simp: delta_ok_def keyed_def map_of_distinct [OF wf(1)] map_of_distinct [OF wf(2)]
        simp del: map_of_eq_Some_iff)
  have keys: "map LedgerEntryKey (getLiveEntries d) = map fst (mNew d) @ map fst (mMod d)"
    using key by (auto simp: getLiveEntries_def)
  have "set (map fst (mNew d)) \<inter> set (map fst (mMod d)) = {}"
    using ok by (auto simp: delta_ok_def) (metis domIff dom_map_of_conv_image_fst image_eqI fst_conv not_None_eq)
  then have dist: "distinct (map LedgerEntryKey (getLiveEntries d))"
    unfolding keys using wf by (simp add: map_wf_distinct)
  then show "batch_ok (getLiveEntries d, getDeadEntries d)"
    using ok by (simp add: batch_ok_def getDeadEntries_def delta_ok_def)
  have "find (\<lambda>e. LedgerEntryKey e = k) (getLiveEntries d) =
      (case map_of (mNew d) k of Some e \<Rightarrow> Some e | None \<Rightarrow> map_of (mMod d) k)" for k
  proof -
    have "find (\<lambda>e. LedgerEntryKey e = k) (getLiveEntries d) = Some e \<longleftrightarrow>
        (map_of (mNew d) k = Some e \<or> map_of (mMod d) k = Some e)" for e
      unfolding find_distinct [OF dist] map_of_distinct [OF wf(1), symmetric] map_of_distinct [OF wf(2), symmetric]
      using key by (force simp: getLiveEntries_def)
    moreover have "map_of (mNew d) k = None \<or> map_of (mMod d) k = None" using ok by (auto simp: delta_ok_def)
    ultimately show ?thesis by (auto split: option.splits) (metis option.exhaust)+
  qed
  then show "ledger_apply m (getLiveEntries d, getDeadEntries d) = delta_apply d m"
    using ok by (auto simp: fun_eq_iff ledger_apply_def delta_apply_def getDeadEntries_def split: option.splits)
qed


section \<open>Properties\<close>

text \<open>C28: Changes made in a delta and then in a delta nested in it, each legal when it is made,
  succeed; committing the inner delta succeeds, hands its header to the outer one, and leaves an
  outer delta whose effect on the ledger is that of all changes in order. The inner delta cannot
  be used any more.\<close>
theorem nested_deltas_compose:
  assumes "edits_ok m (outerEdits @ innerEdits)"
  shows "\<exists>outer inner inner' outer'. run_edits delta_edit outerEdits (LedgerDelta_new h u) = Inr outer
    \<and> run_edits delta_edit innerEdits (LedgerDelta_nested outer) = Inr inner
    \<and> commit_nested (inner\<lparr>mCurrentHeader := h'\<rparr>) outer = Inr (inner', outer')
    \<and> delta_apply outer' m = edits_apply m (outerEdits @ innerEdits)
    \<and> mCurrentHeader outer' = h'
    \<and> addEntry e inner' = Inl (RuntimeError ''Invalid operation: delta is already committed'')"
proof -
  have e: "edits_ok m outerEdits" "edits_ok (edits_apply m outerEdits) innerEdits"
    using assms by (simp_all add: edits_ok_append)
  obtain outer where outer: "run_edits delta_edit outerEdits (LedgerDelta_new h u) = Inr outer"
    "delta_ok m outer" "mActive outer" "mCurrentHeader outer = h" "delta_apply outer m = edits_apply m outerEdits"
    using new_delta_tracks [OF e(1)] by blast
  obtain inner where inner: "run_edits delta_edit innerEdits (LedgerDelta_nested outer) = Inr inner"
    "delta_ok (delta_apply outer m) inner" "mActive inner"
    "delta_apply inner (delta_apply outer m) = edits_apply m (outerEdits @ innerEdits)"
    using new_delta_tracks [OF e(2), of h] unfolding LedgerDelta_nested_def outer(4,5) by auto
  have "mPreviousHeaderValue inner = h"
    using run_edits_header [OF inner(1)] outer(4) by (simp add: LedgerDelta_nested_def LedgerDelta_new_def)
  moreover let ?inner = "inner\<lparr>mCurrentHeader := h'\<rparr>"
  obtain d where
    "mergeEntries ?inner outer = Inr d" "delta_apply d m = delta_apply inner (delta_apply outer m)"
    using mergeEntries_step [OF outer(2,3), of ?inner] inner(2) by auto
  ultimately have "commit_nested ?inner outer = Inr (?inner\<lparr>mActive := False\<rparr>, d\<lparr>mCurrentHeader := h'\<rparr>)"
    "delta_apply (d\<lparr>mCurrentHeader := h'\<rparr>) m = edits_apply m (outerEdits @ innerEdits)"
    using inner(3,4) outer(4) by (simp_all add: commit_nested_def delta_checkState_def)
  then show ?thesis using outer(1) inner(1) by (fastforce simp: addEntry_def delta_checkState_def)
qed


definition ex_header :: LedgerHeader where
  "ex_header = \<lparr>ledgerVersion = 8, previousLedgerHash = [], scpValue = \<lparr>sv_txSetHash = [], sv_closeTime = 0, sv_upgrades = []\<rparr>,
     txSetResultHash = [], bucketListHash = [], ledgerSeq = 2, totalCoins = 100, feePool = 0, inflationSeq = 0,
     idPool = 0, baseFee = 100, baseReserve = 10, maxTxSetSize = 100, skipList = []\<rparr>"

definition ex_edits :: "edit list" where
  "ex_edits = [Added (ex_data 5), Added (ex_data 7), Removed (DataKey [1] [5])]"

lemma ex_data_key [simp]: "LedgerEntryKey (ex_data x) = DataKey [1] [x]"
  by (simp add: LedgerEntryKey_def ex_data_def)

theorem nested_deltas_compose_witness:
  "\<exists>outer inner inner' outer'. run_edits delta_edit [Added (ex_data 5)] (LedgerDelta_new ex_header True) = Inr outer
    \<and> run_edits delta_edit [Added (ex_data 7), Removed (DataKey [1] [5])] (LedgerDelta_nested outer) = Inr inner
    \<and> commit_nested (inner\<lparr>mCurrentHeader := ex_header\<lparr>idPool := 1\<rparr>\<rparr>) outer = Inr (inner', outer')
    \<and> delta_apply outer' Map.empty = [DataKey [1] [7] \<mapsto> ex_data 7]
    \<and> idPool (mCurrentHeader outer') = 1"
proof -
  have ok: "edits_ok Map.empty ([Added (ex_data 5)] @ [Added (ex_data 7), Removed (DataKey [1] [5])])"
    by simp
  have "edits_apply Map.empty ([Added (ex_data 5)] @ [Added (ex_data 7), Removed (DataKey [1] [5])]) =
      [DataKey [1] [7] \<mapsto> ex_data 7]"
    by (simp add: fun_eq_iff)
  note eff = this
  obtain outer inner inner' outer' where
    "run_edits delta_edit [Added (ex_data 5)] (LedgerDelta_new ex_header True) = Inr outer"
    "run_edits delta_edit [Added (ex_data 7), Removed (DataKey [1] [5])] (LedgerDelta_nested outer) = Inr inner"
    "commit_nested (inner\<lparr>mCurrentHeader := ex_header\<lparr>idPool := 1\<rparr>\<rparr>) outer = Inr (inner', outer')"
    "delta_apply outer' Map.empty = [DataKey [1] [7] \<mapsto> ex_data 7]"
    "mCurrentHeader outer' = ex_header\<lparr>idPool := 1\<rparr>"
    using nested_deltas_compose [OF ok, of ex_header True "ex_header\<lparr>idPool := 1\<rparr>"] unfolding eff by blast
  moreover from this(5) have "idPool (mCurrentHeader outer') = 1" by simp
  ultimately show ?thesis by blast
qed

text \<open>The batches of a chain of ledgers: for each the live and dead entries of its delta.\<close>

fun ledger_batches ::
  "LedgerHeader \<Rightarrow> edit list list \<Rightarrow> (LedgerEntry list \<times> LedgerKey list) list result" where
  "ledger_batches h [] = Inr []"
| "ledger_batches h (es # ess) =
     bindE (run_edits delta_edit es (LedgerDelta_new h True)) (\<lambda>d.
     bindE (ledger_batches h ess) (\<lambda>bs. Inr ((getLiveEntries d, getDeadEntries d) # bs)))"

lemma ledger_batches_apply:
  assumes "edits_ok m (concat ess)"
  shows "\<exists>bs. ledger_batches h ess = Inr bs \<and> length bs = length ess \<and> list_all batch_ok bs
    \<and> foldl ledger_apply m bs = edits_apply m (concat ess)"
  using assms
proof (induction ess arbitrary: m)
  case (Cons es ess)
  have e: "edits_ok m es" "edits_ok (edits_apply m es) (concat ess)"
    using Cons.prems by (simp_all add: edits_ok_append)
  obtain d where d: "run_edits delta_edit es (LedgerDelta_new h True) = Inr d" "delta_ok m d"
    "delta_apply d m = edits_apply m es"
    using new_delta_tracks [OF e(1)] by blast
  with Cons.IH [OF e(2)] delta_batch [OF d(2)] show ?case by auto
qed simp

text \<open>C30: A delta reports its changes faithfully: replaying the changes it lists on the ledger it
  started from gives the ledger it describes, and so does applying its live and dead entries,
  whose keys are all distinct.\<close>
theorem delta_reports_faithful:
  assumes "edits_ok m edits"
  shows "\<exists>d. run_edits delta_edit edits (LedgerDelta_new h u) = Inr d
    \<and> foldl replay_change m (getChanges d) = edits_apply m edits
    \<and> ledger_apply m (getLiveEntries d, getDeadEntries d) = edits_apply m edits
    \<and> distinct (map LedgerEntryKey (getLiveEntries d) @ getDeadEntries d)"
proof -
  obtain d where d: "run_edits delta_edit edits (LedgerDelta_new h u) = Inr d" "delta_ok m d"
    "delta_apply d m = edits_apply m edits"
    using new_delta_tracks [OF assms] by blast
  have "LedgerEntryKey e \<notin> set (mDelete d)" if mem: "e \<in> set (getLiveEntries d)" for e
  proof -
    have wf: "map_wf (mNew d)" "map_wf (mMod d)" and ky: "keyed (map_of (mNew d))" "keyed (map_of (mMod d))"
      using d(2) by (simp_all add: delta_ok_def)
    obtain k where "(k, e) \<in> set (mNew d) \<or> (k, e) \<in> set (mMod d)"
      using mem unfolding getLiveEntries_def by fastforce
    then have "map_of (mNew d) (LedgerEntryKey e) = Some e \<or> map_of (mMod d) (LedgerEntryKey e) = Some e"
      using entry_keys [OF wf(1) ky(1)] entry_keys [OF wf(2) ky(2)] map_of_distinct [OF wf(1)] map_of_distinct [OF wf(2)]
      by blast
    with d(2) show ?thesis by (auto simp: delta_ok_def)
  qed
  with d replay_getChanges [OF d(2)] delta_batch [OF d(2)] show ?thesis
    by (auto simp: batch_ok_def getDeadEntries_def)
qed

theorem delta_reports_faithful_witness:
  "\<exists>d. run_edits delta_edit ex_edits (LedgerDelta_new ex_header True) = Inr d
    \<and> foldl replay_change Map.empty (getChanges d) = [DataKey [1] [7] \<mapsto> ex_data 7]
    \<and> ledger_apply Map.empty (getLiveEntries d, getDeadEntries d) = [DataKey [1] [7] \<mapsto> ex_data 7]"
proof -
  have "edits_ok Map.empty ex_edits" by (simp add: ex_edits_def)
  moreover have "edits_apply Map.empty ex_edits = [DataKey [1] [7] \<mapsto> ex_data 7]"
    by (simp add: ex_edits_def fun_eq_iff)
  ultimately show ?thesis using delta_reports_faithful [of Map.empty ex_edits ex_header True] by metis
qed

text \<open>C29: The deltas of a chain of ledgers, given to the bucket list ledger by ledger, leave a bucket
  list that holds exactly the ledger all changes lead to.\<close>
theorem deltas_reach_buckets:
  assumes "edits_ok Map.empty (concat ledgers)" and "length ledgers < 2 ^ 32"
  shows "\<exists>batches bl bs bl' b. ledger_batches h ledgers = Inr batches
    \<and> addBatches bm 1 batches (BucketList_new junk) = Inr bl
    \<and> collect_buckets bl = Inr (bs, bl') \<and> merge_all bm bs = Inr b
    \<and> live_part (bucket_find b) = edits_apply Map.empty (concat ledgers)"
proof -
  obtain batches where b: "ledger_batches h ledgers = Inr batches" "length batches = length ledgers"
    "list_all batch_ok batches" "ledger_after batches = edits_apply Map.empty (concat ledgers)"
    using ledger_batches_apply [OF assms(1)] by blast
  with list_holds_ledger [of batches bm junk] assms(2) show ?thesis by (metis (no_types))
qed

theorem deltas_reach_buckets_witness:
  "\<exists>batches bl bs bl' b. ledger_batches ex_header [ex_edits, []] = Inr batches
    \<and> addBatches ex_bm 1 batches (BucketList_new (\<lambda>_. False)) = Inr bl
    \<and> collect_buckets bl = Inr (bs, bl') \<and> merge_all ex_bm bs = Inr b
    \<and> live_part (bucket_find b) = [DataKey [1] [7] \<mapsto> ex_data 7]"
proof -
  have "edits_ok Map.empty (concat [ex_edits, []])" by (simp add: ex_edits_def)
  moreover have "edits_apply Map.empty (concat [ex_edits, []]) = [DataKey [1] [7] \<mapsto> ex_data 7]"
    by (simp add: ex_edits_def fun_eq_iff)
  ultimately show ?thesis
    using deltas_reach_buckets [of "[ex_edits, []]" ex_header ex_bm "\<lambda>_. False"] by simp
qed

end
