(* ===== verification/Ledger_Store.thy ===== *)
theory Ledger_Store
  imports Ledger_Delta "HOL-Library.Product_Lexorder"
begin

text \<open>
  Ledger entries in the database: \<open>ledger/EntryFrame.cpp\<close>, \<open>AccountFrame.cpp\<close>, \<open>TrustFrame.cpp\<close>,
  \<open>OfferFrame.cpp\<close> and \<open>DataFrame.cpp\<close>, with the cache of entries in front of it
  (\<open>lib/util/lrucache.hpp\<close>).

  A table is the map from its primary key to the row; the rows of \<open>signers\<close> that belong to an account
  are kept, unordered, in the row of the account. \<open>INSERT\<close> raises if the primary key is there,
  \<open>UPDATE\<close> and \<open>DELETE\<close> act on the rows that match. The columns hold strings for account IDs, asset
  codes and byte strings, which encode one to one (\<open>asset_code_roundtrip\<close> is that of the codes), so a
  row holds the decoded values. A call passes the \<open>LedgerDelta\<close> and the \<open>Database\<close> it has
  references to as a pair, the session.

  What the tables mean is the map \<open>db_ledger\<close> from keys to entries. The invariant \<open>sess_ok\<close> of a
  session says that the cache agrees with it and that it is the effect of the delta on the ledger the
  delta started from.
\<close>

section \<open>Signer keys\<close>

fun signer_rank :: "SignerKey \<Rightarrow> nat" where
  "signer_rank (SIGNER_KEY_TYPE_ED25519 _) = 0"
| "signer_rank (SIGNER_KEY_TYPE_PRE_AUTH_TX _) = 1"
| "signer_rank (SIGNER_KEY_TYPE_HASH_X _) = 2"

fun signer_less :: "SignerKey \<Rightarrow> SignerKey \<Rightarrow> bool" where
  "signer_less (SIGNER_KEY_TYPE_ED25519 a) (SIGNER_KEY_TYPE_ED25519 b) \<longleftrightarrow> a < b"
| "signer_less (SIGNER_KEY_TYPE_PRE_AUTH_TX a) (SIGNER_KEY_TYPE_PRE_AUTH_TX b) \<longleftrightarrow> a < b"
| "signer_less (SIGNER_KEY_TYPE_HASH_X a) (SIGNER_KEY_TYPE_HASH_X b) \<longleftrightarrow> a < b"
| "signer_less a b \<longleftrightarrow> signer_rank a < signer_rank b"

lemma signer_less_irrefl: "\<not> signer_less a a"
  by (cases a) auto

lemma signer_less_trans: "signer_less a b \<Longrightarrow> signer_less b c \<Longrightarrow> signer_less a c"
  by (cases a; cases b; cases c) auto

lemma signer_less_total: "a \<noteq> b \<Longrightarrow> signer_less a b \<or> signer_less b a"
  by (cases a; cases b) (auto simp: neq_iff)

instantiation SignerKey :: linorder
begin

definition less_SignerKey :: "SignerKey \<Rightarrow> SignerKey \<Rightarrow> bool" where
  "less_SignerKey = signer_less"

definition less_eq_SignerKey :: "SignerKey \<Rightarrow> SignerKey \<Rightarrow> bool" where
  "less_eq_SignerKey a b \<longleftrightarrow> a = b \<or> signer_less a b"

instance
  by standard
    (auto simp: less_SignerKey_def less_eq_SignerKey_def signer_less_irrefl
      dest: signer_less_trans signer_less_total)

end

section \<open>The cache of entries\<close>

text \<open>The items of an \<open>lru_cache\<close>, the most recently used first. A cached null pointer is
  \<^term>\<open>None\<close>: the entry is known not to exist.\<close>

type_synonym lru_items = "(LedgerKey \<times> LedgerEntry option) list"

definition lru_put :: "nat \<Rightarrow> LedgerKey \<Rightarrow> LedgerEntry option \<Rightarrow> lru_items \<Rightarrow> lru_items" where
  "lru_put max_size k v c =
     (let c = (k, v) # map_erase k c in if length c > max_size then butlast c else c)"

definition lru_touch :: "LedgerKey \<Rightarrow> LedgerEntry option \<Rightarrow> lru_items \<Rightarrow> lru_items" where
  "lru_touch k v c = (k, v) # map_erase k c"

section \<open>Frames and tables\<close>

record AccountFrame =
  af_lastModified :: uint32
  af_account :: AccountEntry
  mUpdateSigners :: bool

record TrustFrame =
  tf_lastModified :: uint32
  tf_trustLine :: TrustLineEntry
  mIsIssuer :: bool

record OfferFrame =
  of_lastModified :: uint32
  of_offer :: OfferEntry

record DataFrame =
  df_lastModified :: uint32
  df_data :: DataEntry

definition account_entry :: "AccountFrame \<Rightarrow> LedgerEntry" where
  "account_entry f = \<lparr>lastModifiedLedgerSeq = af_lastModified f, le_data = ACCOUNT (af_account f)\<rparr>"

definition trust_entry :: "TrustFrame \<Rightarrow> LedgerEntry" where
  "trust_entry f = \<lparr>lastModifiedLedgerSeq = tf_lastModified f, le_data = TRUSTLINE (tf_trustLine f)\<rparr>"

definition offer_entry :: "OfferFrame \<Rightarrow> LedgerEntry" where
  "offer_entry f = \<lparr>lastModifiedLedgerSeq = of_lastModified f, le_data = OFFER (of_offer f)\<rparr>"

definition data_entry :: "DataFrame \<Rightarrow> LedgerEntry" where
  "data_entry f = \<lparr>lastModifiedLedgerSeq = df_lastModified f, le_data = DATA (df_data f)\<rparr>"

text \<open>A row is the last modification and the columns; the field \<open>acc_signers\<close> of a row of \<open>accounts\<close>
  holds the account's rows of \<open>signers\<close>.\<close>

record Database =
  db_accounts :: "(AccountID \<times> (uint32 \<times> AccountEntry)) list"
  db_trustlines :: "((AccountID \<times> Asset) \<times> (uint32 \<times> TrustLineEntry)) list"
  db_offers :: "(uint64 \<times> (uint32 \<times> OfferEntry)) list"
  db_data :: "((AccountID \<times> opaque) \<times> (uint32 \<times> DataEntry)) list"
  db_cache :: lru_items
  db_cacheSize :: nat

type_synonym session = "LedgerDelta \<times> Database"

abbreviation INT32_MAX :: uint32 where
  "INT32_MAX \<equiv> 0x7FFFFFFF"

text \<open>\<open>touch\<close>: what becomes of the last modification of an entry.\<close>

definition touch :: "uint32 \<Rightarrow> LedgerDelta \<Rightarrow> uint32 result" where
  "touch lastModified d =
     (if mUpdateLastModified d
      then dbgAssert (ledgerSeq (mCurrentHeader d) \<noteq> 0) (Inr (ledgerSeq (mCurrentHeader d)))
      else Inr lastModified)"

definition flushCachedEntry :: "LedgerKey \<Rightarrow> Database \<Rightarrow> Database" where
  "flushCachedEntry k db = db\<lparr>db_cache := map_erase k (db_cache db)\<rparr>"

definition putCachedEntry :: "LedgerKey \<Rightarrow> LedgerEntry option \<Rightarrow> Database \<Rightarrow> Database" where
  "putCachedEntry k p db = db\<lparr>db_cache := lru_put (db_cacheSize db) k p (db_cache db)\<rparr>"

text \<open>\<open>cachedEntryExists\<close> and, if so, \<open>getCachedEntry\<close>, which marks the item as used.\<close>

definition getCachedEntry :: "LedgerKey \<Rightarrow> Database \<Rightarrow> (LedgerEntry option \<times> Database) option" where
  "getCachedEntry k db =
     map_option (\<lambda>v. (v, db\<lparr>db_cache := lru_touch k v (db_cache db)\<rparr>)) (map_of (db_cache db) k)"

section \<open>Accounts\<close>

definition signerCompare :: "Signer \<Rightarrow> Signer \<Rightarrow> bool" where
  "signerCompare s1 s2 \<longleftrightarrow> signer_key s1 < signer_key s2"

definition account_normalize :: "Signer list \<Rightarrow> Signer list" where
  "account_normalize ss = sort_key signer_key ss"

fun adjacent_sorted :: "Signer list \<Rightarrow> bool" where
  "adjacent_sorted (a # b # ss) \<longleftrightarrow> signerCompare a b \<and> adjacent_sorted (b # ss)"
| "adjacent_sorted _ \<longleftrightarrow> True"

definition account_isValid :: "AccountFrame \<Rightarrow> bool" where
  "account_isValid f \<longleftrightarrow>
     (let a = af_account f
      in af_lastModified f \<le> INT32_MAX
         \<and> isString32Valid (acc_homeDomain a)
         \<and> acc_balance a \<ge> 0
         \<and> uint (acc_seqNum a) \<le> INT64_MAX
         \<and> adjacent_sorted (acc_signers a)
         \<and> acc_flags a AND NOT 7 = 0
         \<and> acc_numSubEntries a \<le> INT32_MAX
         \<and> list_all (\<lambda>s. signer_weight s \<le> 255 \<and> signer_weight s \<noteq> 0) (acc_signers a))"

text \<open>\<open>AccountFrame(id)\<close>: an account with no balance whose master key has weight one.\<close>

definition AccountFrame_id :: "AccountID \<Rightarrow> AccountFrame" where
  "AccountFrame_id i =
     \<lparr>af_lastModified = 0,
      af_account =
        \<lparr>acc_accountID = i, acc_balance = 0, acc_seqNum = 0, acc_numSubEntries = 0,
         acc_inflationDest = None, acc_flags = 0, acc_homeDomain = [], acc_thresholds = [1, 0, 0, 0],
         acc_signers = []\<rparr>,
      mUpdateSigners = True\<rparr>"

definition makeAuthOnlyAccount :: "AccountID \<Rightarrow> AccountFrame" where
  "makeAuthOnlyAccount i =
     (AccountFrame_id i)\<lparr>af_account := (af_account (AccountFrame_id i))\<lparr>acc_balance := - (2 ^ 63)\<rparr>\<rparr>"

definition isAuthRequired :: "AccountFrame \<Rightarrow> bool" where
  "isAuthRequired f \<longleftrightarrow> acc_flags (af_account f) AND 1 \<noteq> 0"

definition isImmutableAuth :: "AccountFrame \<Rightarrow> bool" where
  "isImmutableAuth f \<longleftrightarrow> acc_flags (af_account f) AND 4 \<noteq> 0"

definition set_balance :: "int \<Rightarrow> AccountFrame \<Rightarrow> AccountFrame" where
  "set_balance b f = f\<lparr>af_account := (af_account f)\<lparr>acc_balance := b\<rparr>\<rparr>"

text \<open>\<open>AccountFrame::addBalance\<close>: the frame with the new balance and whether it was changed.\<close>

definition account_addBalance :: "int \<Rightarrow> AccountFrame \<Rightarrow> (AccountFrame \<times> bool) result" where
  "account_addBalance delta f =
     bindE (addBalance (acc_balance (af_account f)) delta INT64_MAX) (\<lambda>(b, ok). Inr (set_balance b f, ok))"

text \<open>\<open>LedgerManagerImpl::getMinBalance\<close>: the product of two \<open>uint32\<close> values, converted to
  \<open>int64_t\<close>.\<close>

definition getMinBalance :: "LedgerHeader \<Rightarrow> uint32 \<Rightarrow> int" where
  "getMinBalance lm ownerCount = uint ((2 + ownerCount) * baseReserve lm)"

definition getMinimumBalance :: "LedgerHeader \<Rightarrow> AccountFrame \<Rightarrow> int" where
  "getMinimumBalance lm f = getMinBalance lm (acc_numSubEntries (af_account f))"

definition getBalanceAboveReserve :: "LedgerHeader \<Rightarrow> AccountFrame \<Rightarrow> int" where
  "getBalanceAboveReserve lm f =
     (let avail = acc_balance (af_account f) - getMinimumBalance lm f
      in if avail < 0 then 0 else avail)"

definition addNumEntries :: "int \<Rightarrow> LedgerHeader \<Rightarrow> AccountFrame \<Rightarrow> (AccountFrame \<times> bool) result" where
  "addNumEntries count lm f =
     (let n = acc_numSubEntries (af_account f) + word_of_int count
      in if sint n < 0 then Inl (RuntimeError ''invalid account state'')
         else if count > 0 \<and> acc_balance (af_account f) < getMinBalance lm n then Inr (f, False)
         else Inr (f\<lparr>af_account := (af_account f)\<lparr>acc_numSubEntries := n\<rparr>\<rparr>, True))"

definition setUpdateSigners :: "AccountFrame \<Rightarrow> AccountFrame" where
  "setUpdateSigners f =
     f\<lparr>af_account := (af_account f)\<lparr>acc_signers := account_normalize (acc_signers (af_account f))\<rparr>,
       mUpdateSigners := True\<rparr>"

subsection \<open>Loading\<close>

text \<open>What \<open>SELECT\<close> and \<open>loadSigners\<close> make of a row.\<close>

definition loadSigners :: "AccountEntry \<Rightarrow> Signer list" where
  "loadSigners row = sort_key signer_key (acc_signers row)"

definition account_of_row :: "uint32 \<times> AccountEntry \<Rightarrow> AccountFrame" where
  "account_of_row r =
     \<lparr>af_lastModified = fst r,
      af_account =
        (snd r)\<lparr>acc_signers :=
           account_normalize (if acc_numSubEntries (snd r) \<noteq> 0 then loadSigners (snd r) else [])\<rparr>,
      mUpdateSigners = False\<rparr>"

text \<open>\<open>AccountFrame(LedgerEntry)\<close>, of an entry that is an account.\<close>

definition AccountFrame_entry :: "LedgerEntry \<Rightarrow> AccountFrame result" where
  "AccountFrame_entry e =
     (case le_data e of
        ACCOUNT a \<Rightarrow> Inr \<lparr>af_lastModified = lastModifiedLedgerSeq e, af_account = a, mUpdateSigners = True\<rparr>
      | _ \<Rightarrow> Inl (RuntimeError ''xdr_wrong_union''))"

definition loadAccount_db :: "AccountID \<Rightarrow> Database \<Rightarrow> (AccountFrame option \<times> Database) result" where
  "loadAccount_db accountID db =
     (let key = AccountKey accountID
      in case getCachedEntry key db of
           Some (Some e, db) \<Rightarrow> bindE (AccountFrame_entry e) (\<lambda>f. Inr (Some f, db))
         | Some (None, db) \<Rightarrow> Inr (None, db)
         | None \<Rightarrow>
             (case map_of (db_accounts db) accountID of
                None \<Rightarrow> Inr (None, putCachedEntry key None db)
              | Some r \<Rightarrow>
                  let f = account_of_row r
                  in dbgAssert (account_isValid f)
                       (Inr (Some f, putCachedEntry key (Some (account_entry f)) db))))"

definition loadAccount :: "AccountID \<Rightarrow> session \<Rightarrow> (AccountFrame option \<times> session) result" where
  "loadAccount accountID s =
     bindE (loadAccount_db accountID (snd s)) (\<lambda>(a, db).
       case a of
         None \<Rightarrow> Inr (None, fst s, db)
       | Some f \<Rightarrow> bindE (recordEntry (account_entry f) (fst s)) (\<lambda>d. Inr (Some f, d, db)))"

definition account_exists :: "AccountID \<Rightarrow> Database \<Rightarrow> bool \<times> Database" where
  "account_exists accountID db =
     (case getCachedEntry (AccountKey accountID) db of
        Some (Some _, db) \<Rightarrow> (True, db)
      | Some (None, db) \<Rightarrow> (map_of (db_accounts db) accountID \<noteq> None, db)
      | None \<Rightarrow> (map_of (db_accounts db) accountID \<noteq> None, db))"

subsection \<open>Storing\<close>

text \<open>\<open>applySigners\<close> walks the signers of the frame and the sorted ones of the database. The three
  statements act on the rows, and raise unless they affect one; \<open>changed\<close> is the second result.\<close>

definition signer_update :: "Signer \<Rightarrow> Signer list \<Rightarrow> Signer list result" where
  "signer_update s rows =
     (if length (filter (\<lambda>r. signer_key r = signer_key s) rows) \<noteq> 1
      then Inl (RuntimeError ''Could not update data in SQL'')
      else Inr (map (\<lambda>r. if signer_key r = signer_key s then s else r) rows))"

definition signer_insert :: "Signer \<Rightarrow> Signer list \<Rightarrow> Signer list result" where
  "signer_insert s rows =
     (if signer_key s \<in> signer_key ` set rows then Inl (RuntimeError ''UNIQUE constraint failed'')
      else Inr (rows @ [s]))"

definition signer_delete :: "Signer \<Rightarrow> Signer list \<Rightarrow> Signer list result" where
  "signer_delete s rows =
     (if length (filter (\<lambda>r. signer_key r = signer_key s) rows) \<noteq> 1
      then Inl (RuntimeError ''Could not update data in SQL'')
      else Inr (filter (\<lambda>r. signer_key r \<noteq> signer_key s) rows))"

fun applySigners_loop :: "Signer list \<Rightarrow> Signer list \<Rightarrow> Signer list \<Rightarrow> bool \<Rightarrow> (Signer list \<times> bool) result" where
  "applySigners_loop [] [] rows changed = Inr (rows, changed)"
| "applySigners_loop (n # ns) [] rows changed =
     bindE (signer_insert n rows) (\<lambda>rows. applySigners_loop ns [] rows True)"
| "applySigners_loop [] (l # ls) rows changed =
     bindE (signer_delete l rows) (\<lambda>rows. applySigners_loop [] ls rows True)"
| "applySigners_loop (n # ns) (l # ls) rows changed =
     (if signer_key n = signer_key l
      then if signer_weight n \<noteq> signer_weight l
           then bindE (signer_update n rows) (\<lambda>rows. applySigners_loop ns ls rows True)
           else applySigners_loop ns ls rows changed
      else if signer_key n < signer_key l
      then bindE (signer_insert n rows) (\<lambda>rows. applySigners_loop ns (l # ls) rows True)
      else bindE (signer_delete l rows) (\<lambda>rows. applySigners_loop (n # ns) ls rows True))"

definition applySigners :: "AccountFrame \<Rightarrow> bool \<Rightarrow> Database \<Rightarrow> Database result" where
  "applySigners f ins db =
     (let i = acc_accountID (af_account f)
      in case map_of (db_accounts db) i of
           None \<Rightarrow> Inl (RuntimeError ''no row'')
         | Some (lm, row) \<Rightarrow>
             bindE (applySigners_loop (acc_signers (af_account f)) (if ins then [] else loadSigners row)
                      (acc_signers row) False) (\<lambda>(rows, changed).
               let db = db\<lparr>db_accounts := map_put i (lm, row\<lparr>acc_signers := rows\<rparr>) (db_accounts db)\<rparr>
               in Inr (if changed then flushCachedEntry (AccountKey i) db else db)))"

definition account_storeUpdate :: "bool \<Rightarrow> AccountFrame \<Rightarrow> session \<Rightarrow> (AccountFrame \<times> session) result" where
  "account_storeUpdate ins f s =
     dbgAssert (account_isValid f)
       (bindE (touch (af_lastModified f) (fst s)) (\<lambda>lm.
          let f = f\<lparr>af_lastModified := lm\<rparr>; i = acc_accountID (af_account f);
              db = flushCachedEntry (AccountKey i) (snd s)
          in bindE
               (case map_of (db_accounts db) i of
                  Some old \<Rightarrow>
                    if ins then Inl (RuntimeError ''UNIQUE constraint failed'')
                    else Inr (acc_signers (snd old))
                | None \<Rightarrow>
                    if ins then Inr []
                    else Inl (RuntimeError ''Could not update data in SQL'')) (\<lambda>rows.
             bindE (if ins then addEntry (account_entry f) (fst s) else modEntry (account_entry f) (fst s)) (\<lambda>d.
             let db = db\<lparr>db_accounts := map_put i (lm, (af_account f)\<lparr>acc_signers := rows\<rparr>) (db_accounts db)\<rparr>
             in bindE (if mUpdateSigners f then applySigners f ins db else Inr db) (\<lambda>db. Inr (f, d, db))))))"

abbreviation account_storeChange :: "AccountFrame \<Rightarrow> session \<Rightarrow> (AccountFrame \<times> session) result" where
  "account_storeChange \<equiv> account_storeUpdate False"

abbreviation account_storeAdd :: "AccountFrame \<Rightarrow> session \<Rightarrow> (AccountFrame \<times> session) result" where
  "account_storeAdd \<equiv> account_storeUpdate True"

definition account_storeDelete :: "AccountID \<Rightarrow> session \<Rightarrow> session result" where
  "account_storeDelete i s =
     (let db = flushCachedEntry (AccountKey i) (snd s)
      in bindE (deleteEntry (AccountKey i) (fst s)) (\<lambda>d.
         Inr (d, db\<lparr>db_accounts := map_erase i (db_accounts db)\<rparr>)))"

section \<open>Trust lines\<close>

definition isAuthorized :: "TrustFrame \<Rightarrow> bool" where
  "isAuthorized f \<longleftrightarrow> tl_flags (tf_trustLine f) AND 1 \<noteq> 0"

definition setAuthorized :: "bool \<Rightarrow> TrustFrame \<Rightarrow> TrustFrame" where
  "setAuthorized authorized f =
     f\<lparr>tf_trustLine := (tf_trustLine f)\<lparr>tl_flags :=
        (if authorized then tl_flags (tf_trustLine f) OR 1 else tl_flags (tf_trustLine f) AND NOT 1)\<rparr>\<rparr>"

definition trust_isValid :: "TrustFrame \<Rightarrow> bool" where
  "trust_isValid f \<longleftrightarrow>
     (let tl = tf_trustLine f
      in tf_lastModified f \<le> INT32_MAX \<and> tl_asset tl \<noteq> Native \<and> isAssetValid (tl_asset tl)
         \<and> tl_balance tl \<ge> 0 \<and> tl_limit tl > 0 \<and> tl_balance tl \<le> tl_limit tl
         \<and> tl_flags tl AND NOT 1 = 0)"

definition trust_getBalance :: "TrustFrame \<Rightarrow> int result" where
  "trust_getBalance f = dbgAssert (trust_isValid f) (Inr (tl_balance (tf_trustLine f)))"

definition trust_addBalance :: "int \<Rightarrow> TrustFrame \<Rightarrow> (TrustFrame \<times> bool) result" where
  "trust_addBalance delta f =
     (if mIsIssuer f \<or> delta = 0 then Inr (f, True)
      else if \<not> isAuthorized f then Inr (f, False)
      else bindE (addBalance (tl_balance (tf_trustLine f)) delta (tl_limit (tf_trustLine f))) (\<lambda>(b, ok).
        Inr (f\<lparr>tf_trustLine := (tf_trustLine f)\<lparr>tl_balance := b\<rparr>\<rparr>, ok)))"

definition getMaxAmountReceive :: "TrustFrame \<Rightarrow> int" where
  "getMaxAmountReceive f =
     (if mIsIssuer f then INT64_MAX
      else if isAuthorized f then tl_limit (tf_trustLine f) - tl_balance (tf_trustLine f)
      else 0)"

text \<open>The frame that stands for the unlimited line of an issuer in its own asset.\<close>

definition createIssuerFrame :: "Asset \<Rightarrow> TrustFrame result" where
  "createIssuerFrame asset =
     bindE (getIssuer asset) (\<lambda>i.
       Inr \<lparr>tf_lastModified = 0,
            tf_trustLine =
              \<lparr>tl_accountID = i, tl_asset = asset, tl_balance = INT64_MAX, tl_limit = INT64_MAX,
               tl_flags = 1\<rparr>,
            mIsIssuer = True\<rparr>)"

text \<open>\<open>TrustFrame(LedgerEntry)\<close>.\<close>

definition TrustFrame_entry :: "LedgerEntry \<Rightarrow> TrustFrame result" where
  "TrustFrame_entry e =
     (case le_data e of
        TRUSTLINE t \<Rightarrow>
          let f = \<lparr>tf_lastModified = lastModifiedLedgerSeq e, tf_trustLine = t, mIsIssuer = False\<rparr>
          in dbgAssert (trust_isValid f) (Inr f)
      | _ \<Rightarrow> Inl (RuntimeError ''xdr_wrong_union''))"

definition trust_of_row :: "uint32 \<times> TrustLineEntry \<Rightarrow> TrustFrame" where
  "trust_of_row r = \<lparr>tf_lastModified = fst r, tf_trustLine = snd r, mIsIssuer = False\<rparr>"

definition trust_key :: "TrustFrame \<Rightarrow> AccountID \<times> Asset" where
  "trust_key f = (tl_accountID (tf_trustLine f), tl_asset (tf_trustLine f))"

text \<open>\<open>getKeyFields\<close> refuses the line of an issuer in its own asset.\<close>

definition getKeyFields :: "AccountID \<times> Asset \<Rightarrow> 'a result \<Rightarrow> 'a result" where
  "getKeyFields k r =
     (if getIssuer (snd k) = Inr (fst k)
      then Inl (RuntimeError ''Issuer's own trustline should not be used outside of OperationFrame'')
      else r)"

text \<open>The part of \<open>loadTrustLine\<close> after the line of an issuer has been dealt with, up to the record in
  the delta; a null pointer in the cache is not trusted.\<close>

definition loadTrustLine_db :: "AccountID \<Rightarrow> Asset \<Rightarrow> Database \<Rightarrow> (TrustFrame option \<times> Database) result" where
  "loadTrustLine_db accountID asset db =
     (let key = TrustLineKey accountID asset;
          select = (\<lambda>db. case map_of (db_trustlines db) (accountID, asset) of
                None \<Rightarrow> Inr (None, putCachedEntry key None db)
              | Some r \<Rightarrow>
                  let f = trust_of_row r
                  in if \<not> trust_isValid f then Inl (RuntimeError ''Invalid TrustEntry'')
                     else Inr (Some f, putCachedEntry key (Some (trust_entry f)) db))
      in case getCachedEntry key db of
           Some (Some e, db) \<Rightarrow> bindE (TrustFrame_entry e) (\<lambda>f. Inr (Some f, db))
         | Some (None, db) \<Rightarrow> select db
         | None \<Rightarrow> select db)"

definition loadTrustLine :: "AccountID \<Rightarrow> Asset \<Rightarrow> session \<Rightarrow> (TrustFrame option \<times> session) result" where
  "loadTrustLine accountID asset s =
     (if asset = Native then Inl (RuntimeError ''XLM TrustLine?'')
      else if getIssuer asset = Inr accountID
      then bindE (createIssuerFrame asset) (\<lambda>f. Inr (Some f, s))
      else bindE (loadTrustLine_db accountID asset (snd s)) (\<lambda>(t, db).
        case t of
          None \<Rightarrow> Inr (None, fst s, db)
        | Some f \<Rightarrow> bindE (recordEntry (trust_entry f) (fst s)) (\<lambda>d. Inr (Some f, d, db))))"

definition loadTrustLineIssuer ::
  "AccountID \<Rightarrow> Asset \<Rightarrow> session \<Rightarrow> ((TrustFrame option \<times> AccountFrame option) \<times> session) result" where
  "loadTrustLineIssuer accountID asset s =
     bindE (loadTrustLine accountID asset s) (\<lambda>(t, s).
     bindE (getIssuer asset) (\<lambda>i.
     bindE (loadAccount i s) (\<lambda>(a, s). Inr ((t, a), s))))"

definition trust_store :: "bool \<Rightarrow> TrustFrame \<Rightarrow> session \<Rightarrow> (TrustFrame \<times> session) result" where
  "trust_store ins f s =
     (if \<not> trust_isValid f then Inl (RuntimeError ''Invalid TrustEntry'')
      else
        let k = trust_key f; db = flushCachedEntry (TrustLineKey (fst k) (snd k)) (snd s)
        in if mIsIssuer f then Inr (f, fst s, db)
           else bindE (touch (tf_lastModified f) (fst s)) (\<lambda>lm.
             let f = f\<lparr>tf_lastModified := lm\<rparr>
             in getKeyFields k
                  (if ins \<and> map_of (db_trustlines db) k \<noteq> None
                   then Inl (RuntimeError ''UNIQUE constraint failed'')
                   else if \<not> ins \<and> map_of (db_trustlines db) k = None
                   then Inl (RuntimeError ''Could not update data in SQL'')
                   else bindE (if ins then addEntry (trust_entry f) (fst s) else modEntry (trust_entry f) (fst s)) (\<lambda>d.
                     Inr (f, d, db\<lparr>db_trustlines := map_put k (lm, tf_trustLine f) (db_trustlines db)\<rparr>)))))"

abbreviation trust_storeChange :: "TrustFrame \<Rightarrow> session \<Rightarrow> (TrustFrame \<times> session) result" where
  "trust_storeChange \<equiv> trust_store False"

abbreviation trust_storeAdd :: "TrustFrame \<Rightarrow> session \<Rightarrow> (TrustFrame \<times> session) result" where
  "trust_storeAdd \<equiv> trust_store True"

definition trust_storeDelete :: "AccountID \<times> Asset \<Rightarrow> session \<Rightarrow> session result" where
  "trust_storeDelete k s =
     (let db = flushCachedEntry (TrustLineKey (fst k) (snd k)) (snd s)
      in getKeyFields k
           (bindE (deleteEntry (TrustLineKey (fst k) (snd k)) (fst s)) (\<lambda>d.
            Inr (d, db\<lparr>db_trustlines := map_erase k (db_trustlines db)\<rparr>))))"

section \<open>Offers\<close>

text \<open>The primary key of \<open>offers\<close> is the ID of the offer alone.\<close>

definition offer_isValid :: "OfferFrame \<Rightarrow> bool" where
  "offer_isValid f \<longleftrightarrow>
     (let oe = of_offer f
      in of_lastModified f \<le> INT32_MAX \<and> uint (off_offerID oe) \<le> INT64_MAX \<and> off_amount oe > 0
         \<and> price_n (off_price oe) > 0 \<and> price_d (off_price oe) \<ge> 1
         \<and> isAssetValid (off_selling oe) \<and> isAssetValid (off_buying oe)
         \<and> off_flags oe AND NOT 1 = 0)"

definition offer_of_row :: "uint32 \<times> OfferEntry \<Rightarrow> OfferFrame" where
  "offer_of_row r = \<lparr>of_lastModified = fst r, of_offer = snd r\<rparr>"

text \<open>\<open>loadOffers\<close>: the rows a query gave, each of which has to be valid.\<close>

fun loadOffers :: "(uint32 \<times> OfferEntry) list \<Rightarrow> OfferFrame list result" where
  "loadOffers [] = Inr []"
| "loadOffers (r # rs) =
     (if \<not> offer_isValid (offer_of_row r) then Inl (RuntimeError ''Invalid offer'')
      else bindE (loadOffers rs) (\<lambda>fs. Inr (offer_of_row r # fs)))"

definition loadOffer :: "AccountID \<Rightarrow> uint64 \<Rightarrow> session \<Rightarrow> (OfferFrame option \<times> session) result" where
  "loadOffer sellerID offerID s =
     bindE (loadOffers (case map_of (db_offers (snd s)) offerID of
              Some r \<Rightarrow> if off_sellerID (snd r) = sellerID then [r] else []
            | None \<Rightarrow> [])) (\<lambda>fs.
       case fs of
         [] \<Rightarrow> Inr (None, s)
       | f # _ \<Rightarrow> bindE (recordEntry (offer_entry f) (fst s)) (\<lambda>d. Inr (Some f, d, snd s)))"

definition offer_store :: "bool \<Rightarrow> OfferFrame \<Rightarrow> session \<Rightarrow> (OfferFrame \<times> session) result" where
  "offer_store ins f s =
     bindE (touch (of_lastModified f) (fst s)) (\<lambda>lm.
       let f = f\<lparr>of_lastModified := lm\<rparr>; i = off_offerID (of_offer f)
       in if \<not> offer_isValid f then Inl (RuntimeError ''Invalid offer'')
          else bindE
            (case map_of (db_offers (snd s)) i of
               Some old \<Rightarrow>
                 if ins then Inl (RuntimeError ''UNIQUE constraint failed'') else Inr (off_sellerID (snd old))
             | None \<Rightarrow>
                 if ins then Inr (off_sellerID (of_offer f)) else Inl (RuntimeError ''could not update SQL'')) (\<lambda>sid.
            bindE (if ins then addEntry (offer_entry f) (fst s) else modEntry (offer_entry f) (fst s)) (\<lambda>d.
            Inr (f, d, (snd s)\<lparr>db_offers := map_put i (lm, (of_offer f)\<lparr>off_sellerID := sid\<rparr>) (db_offers (snd s))\<rparr>))))"

abbreviation offer_storeChange :: "OfferFrame \<Rightarrow> session \<Rightarrow> (OfferFrame \<times> session) result" where
  "offer_storeChange \<equiv> offer_store False"

abbreviation offer_storeAdd :: "OfferFrame \<Rightarrow> session \<Rightarrow> (OfferFrame \<times> session) result" where
  "offer_storeAdd \<equiv> offer_store True"

definition offer_storeDelete :: "AccountID \<Rightarrow> uint64 \<Rightarrow> session \<Rightarrow> session result" where
  "offer_storeDelete sellerID offerID s =
     bindE (deleteEntry (OfferKey sellerID offerID) (fst s)) (\<lambda>d.
     Inr (d, (snd s)\<lparr>db_offers := map_erase offerID (db_offers (snd s))\<rparr>))"

section \<open>Data entries\<close>

definition data_isValid :: "DataFrame \<Rightarrow> bool" where
  "data_isValid f \<longleftrightarrow>
     df_lastModified f \<le> INT32_MAX \<and> length (data_dataName (df_data f)) > 0
     \<and> isString32Valid (data_dataName (df_data f))"

definition data_of_row :: "uint32 \<times> DataEntry \<Rightarrow> DataFrame" where
  "data_of_row r = \<lparr>df_lastModified = fst r, df_data = snd r\<rparr>"

definition data_key :: "DataFrame \<Rightarrow> AccountID \<times> opaque" where
  "data_key f = (data_accountID (df_data f), data_dataName (df_data f))"

definition loadData :: "AccountID \<Rightarrow> opaque \<Rightarrow> Database \<Rightarrow> DataFrame option result" where
  "loadData accountID dataName db =
     (case map_of (db_data db) (accountID, dataName) of
        None \<Rightarrow> Inr None
      | Some r \<Rightarrow>
          if \<not> data_isValid (data_of_row r) then Inl (RuntimeError ''Invalid DataEntry'')
          else Inr (Some (data_of_row r)))"

definition data_store :: "bool \<Rightarrow> DataFrame \<Rightarrow> session \<Rightarrow> (DataFrame \<times> session) result" where
  "data_store ins f s =
     dbgAssert (data_isValid f)
       (bindE (touch (df_lastModified f) (fst s)) (\<lambda>lm.
          let f = f\<lparr>df_lastModified := lm\<rparr>; k = data_key f
          in if ins \<and> map_of (db_data (snd s)) k \<noteq> None
             then Inl (RuntimeError ''UNIQUE constraint failed'')
             else if \<not> ins \<and> map_of (db_data (snd s)) k = None
             then Inl (RuntimeError ''could not update SQL'')
             else bindE (if ins then addEntry (data_entry f) (fst s) else modEntry (data_entry f) (fst s)) (\<lambda>d.
               Inr (f, d, (snd s)\<lparr>db_data := map_put k (lm, df_data f) (db_data (snd s))\<rparr>))))"

abbreviation data_storeChange :: "DataFrame \<Rightarrow> session \<Rightarrow> (DataFrame \<times> session) result" where
  "data_storeChange \<equiv> data_store False"

abbreviation data_storeAdd :: "DataFrame \<Rightarrow> session \<Rightarrow> (DataFrame \<times> session) result" where
  "data_storeAdd \<equiv> data_store True"

definition data_storeDelete :: "AccountID \<times> opaque \<Rightarrow> session \<Rightarrow> session result" where
  "data_storeDelete k s =
     bindE (deleteEntry (DataKey (fst k) (snd k)) (fst s)) (\<lambda>d.
     Inr (d, (snd s)\<lparr>db_data := map_erase k (db_data (snd s))\<rparr>))"

section \<open>Rolling back\<close>

text \<open>The end of a scope that opened an SQL transaction and a delta and commits neither: the
  transaction restores the tables, and the destructor of the delta rolls it back, which flushes the
  cached entries it changed.\<close>

definition rollback_scope :: "LedgerDelta \<Rightarrow> Database \<Rightarrow> Database \<Rightarrow> Database result" where
  "rollback_scope d saved db =
     bindE (rollback d) (\<lambda>(d, keys).
       Inr (fold flushCachedEntry keys (saved\<lparr>db_cache := db_cache db\<rparr>)))"

section \<open>The meaning of the tables\<close>

definition db_ledger :: "Database \<Rightarrow> ledger" where
  "db_ledger db k =
     (case k of
        AccountKey i \<Rightarrow> map_option (\<lambda>r. account_entry (account_of_row r)) (map_of (db_accounts db) i)
      | TrustLineKey i a \<Rightarrow> map_option (\<lambda>r. trust_entry (trust_of_row r)) (map_of (db_trustlines db) (i, a))
      | OfferKey s i \<Rightarrow>
          (case map_of (db_offers db) i of
             Some r \<Rightarrow> if off_sellerID (snd r) = s then Some (offer_entry (offer_of_row r)) else None
           | None \<Rightarrow> None)
      | DataKey i n \<Rightarrow> map_option (\<lambda>r. data_entry (data_of_row r)) (map_of (db_data db) (i, n)))"

end
