(* ===== verification/Session_Laws.thy ===== *)
theory Session_Laws
  imports Ledger_Store
begin

text \<open>
  The laws of the stores of \<open>Ledger_Store\<close>: an invariant of a session, and what loading and storing
  do to the ledger the tables stand for. The operations of transactions are verified from these laws.
\<close>

section \<open>Signers\<close>

lemma adjacent_sorted_iff: "adjacent_sorted ss \<longleftrightarrow> sorted_wrt (<) (map signer_key ss)"
proof (induction ss rule: adjacent_sorted.induct)
  case (1 a b ss)
  then show ?case by (auto simp: signerCompare_def intro: less_trans)
qed auto

lemma sort_key_unique:
  fixes key :: "'a \<Rightarrow> 'k::linorder"
  assumes "sorted_wrt (<) (map key xs)" and "set ys = set xs" and "distinct (map key ys)"
  shows "sort_key key ys = xs"
proof (rule map_sorted_distinct_set_unique)
  have "distinct (map key xs)" using assms(1) strict_sorted_iff by blast
  then show "distinct (map key xs)" "inj_on key (set (sort_key key ys) \<union> set xs)"
    using assms(2) by (simp_all add: distinct_map)
  show "sorted (map key xs)" using assms(1) strict_sorted_iff by blast
  show "distinct (map key (sort_key key ys))"
    using assms(3) by (simp add: distinct_map distinct_sort)
qed (use assms in simp_all)

lemma sort_key_strict:
  assumes "distinct (map key ys)"
  shows "sorted_wrt (<) (map key (sort_key key ys))"
  using assms by (simp add: strict_sorted_iff distinct_map distinct_sort)

lemma signer_eqI: "signer_key s = signer_key t \<Longrightarrow> signer_weight s = signer_weight t \<Longrightarrow> s = (t :: Signer)"
  by simp

lemma one_row:
  assumes "distinct (map signer_key rows)" and "s \<in> set rows" and "signer_key s = k"
  shows "length (filter (\<lambda>r. signer_key r = k) rows) = 1"
  using assms
proof (induction rows)
  case (Cons r rows)
  show ?case
  proof (cases "signer_key r = k")
    case True
    then have "filter (\<lambda>r. signer_key r = k) rows = []"
      using Cons.prems(1) by (auto simp: filter_empty_conv image_iff)
    with True show ?thesis by simp
  qed (use Cons in auto)
qed simp

text \<open>The walk: \<open>P\<close> are the signers it is done with.\<close>

lemma applySigners_loop_correct:
  assumes "sorted_wrt (<) (map signer_key ns)" and "sorted_wrt (<) (map signer_key ls)"
    and "distinct (map signer_key rows)" and "set rows = P \<union> set ls"
    and "\<And>p x. p \<in> P \<Longrightarrow> x \<in> set ns \<union> set ls \<Longrightarrow> signer_key p < signer_key x"
  shows "\<exists>rows' c. applySigners_loop ns ls rows changed = Inr (rows', c)
    \<and> set rows' = P \<union> set ns \<and> distinct (map signer_key rows')"
  using assms
proof (induction ns ls rows changed arbitrary: P rule: applySigners_loop.induct)
  case (1 rows changed)
  then show ?case by simp
next
  case (2 n ns rows changed)
  have "signer_key n \<notin> signer_key ` set rows" using "2.prems"(4,5) by fastforce
  moreover from this have "distinct (map signer_key (rows @ [n]))" using "2.prems"(3) by auto
  moreover have "\<exists>rows' c. applySigners_loop ns [] (rows @ [n]) True = Inr (rows', c)
    \<and> set rows' = insert n P \<union> set ns \<and> distinct (map signer_key rows')"
    using "2.prems" calculation by (intro "2.IH") (auto simp: signer_insert_def)
  ultimately show ?case by (auto simp: signer_insert_def)
next
  case (3 l ls rows changed)
  let ?rows = "filter (\<lambda>r. signer_key r \<noteq> signer_key l) rows"
  have one: "length (filter (\<lambda>r. signer_key r = signer_key l) rows) = 1"
    using "3.prems"(3,4) by (intro one_row) auto
  have "set ?rows = P \<union> set ls" using "3.prems"(2,4,5) by fastforce
  then have "\<exists>rows' c. applySigners_loop [] ls ?rows True = Inr (rows', c)
    \<and> set rows' = P \<union> set [] \<and> distinct (map signer_key rows')"
    using "3.prems" one by (intro "3.IH") (auto simp: distinct_map_filter signer_delete_def)
  then show ?case using one by (auto simp: signer_delete_def)
next
  case (4 n ns l ls rows changed)
  have dl: "l \<in> set rows" using "4.prems"(4) by simp
  consider (same) "signer_key n = signer_key l" "signer_weight n = signer_weight l"
    | (weight) "signer_key n = signer_key l" "signer_weight n \<noteq> signer_weight l"
    | (added) "signer_key n < signer_key l" | (gone) "signer_key l < signer_key n"
    by fastforce
  then show ?case
  proof cases
    case same
    then have "n = l" by (rule signer_eqI)
    then have "\<exists>rows' c. applySigners_loop ns ls rows changed = Inr (rows', c)
      \<and> set rows' = insert n P \<union> set ns \<and> distinct (map signer_key rows')"
      using same "4.prems" by (intro "4.IH"(2)) auto
    with same show ?thesis by auto
  next
    case weight
    let ?rows = "map (\<lambda>r. if signer_key r = signer_key n then n else r) rows"
    have one: "length (filter (\<lambda>r. signer_key r = signer_key n) rows) = 1"
      using "4.prems"(3) dl weight by (intro one_row) auto
    have keys: "map signer_key ?rows = map signer_key rows" by simp
    have "set ?rows = insert n P \<union> set ls"
    proof -
      have "signer_key p \<noteq> signer_key n" if "p \<in> P" for p
        using "4.prems"(5) [OF that, of n] by simp
      moreover have "signer_key p \<noteq> signer_key n" if "p \<in> set ls" for p
        using "4.prems"(2) that weight(1) by auto
      ultimately show ?thesis using "4.prems"(4) weight(1) by (auto simp: image_def)
    qed
    then have "\<exists>rows' c. applySigners_loop ns ls ?rows True = Inr (rows', c)
      \<and> set rows' = insert n P \<union> set ns \<and> distinct (map signer_key rows')"
      using weight "4.prems" keys one by (intro "4.IH"(1)) (auto simp: signer_update_def simp del: map_map)
    with weight one show ?thesis by (auto simp: signer_update_def)
  next
    case added
    have "signer_key n \<notin> signer_key ` set rows"
      using "4.prems"(2,4,5) added by fastforce
    moreover from this have "distinct (map signer_key (rows @ [n]))" using "4.prems"(3) by auto
    moreover have "\<exists>rows' c. applySigners_loop ns (l # ls) (rows @ [n]) True = Inr (rows', c)
      \<and> set rows' = insert n P \<union> set ns \<and> distinct (map signer_key rows')"
      using "4.prems" added calculation by (intro "4.IH"(3)) (auto simp: signer_insert_def intro: less_trans)
    ultimately show ?thesis using added by (auto simp: signer_insert_def)
  next
    case gone
    let ?rows = "filter (\<lambda>r. signer_key r \<noteq> signer_key l) rows"
    have one: "length (filter (\<lambda>r. signer_key r = signer_key l) rows) = 1"
      using "4.prems"(3) dl by (intro one_row) auto
    have "set ?rows = P \<union> set ls" using "4.prems"(2,4,5) by fastforce
    then have "\<exists>rows' c. applySigners_loop (n # ns) ls ?rows True = Inr (rows', c)
      \<and> set rows' = P \<union> set (n # ns) \<and> distinct (map signer_key rows')"
      using "4.prems" gone one by (intro "4.IH"(4)) (auto simp: distinct_map_filter signer_delete_def)
    then show ?thesis using one gone by (auto simp: signer_delete_def)
  qed
qed

section \<open>The invariant\<close>

text \<open>The rows of a table are those of its keys; the signers of an account count as sub-entries, and an
  account with none of those is loaded without looking for signers.\<close>

definition db_ok :: "Database \<Rightarrow> bool" where
  "db_ok db \<longleftrightarrow>
     map_wf (db_accounts db) \<and> map_wf (db_trustlines db) \<and> map_wf (db_offers db) \<and> map_wf (db_data db)
     \<and> (\<forall>i r. map_of (db_accounts db) i = Some r \<longrightarrow>
          acc_accountID (snd r) = i \<and> distinct (map signer_key (acc_signers (snd r)))
          \<and> (acc_numSubEntries (snd r) = 0 \<longrightarrow> acc_signers (snd r) = [])
          \<and> acc_numSubEntries (snd r) \<le> INT32_MAX)
     \<and> (\<forall>k r. map_of (db_trustlines db) k = Some r \<longrightarrow> (tl_accountID (snd r), tl_asset (snd r)) = k)
     \<and> (\<forall>i r. map_of (db_offers db) i = Some r \<longrightarrow> off_offerID (snd r) = i)
     \<and> (\<forall>k r. map_of (db_data db) k = Some r \<longrightarrow> (data_accountID (snd r), data_dataName (snd r)) = k)"

text \<open>Only accounts and trust lines are cached.\<close>

fun cached_key :: "LedgerKey \<Rightarrow> bool" where
  "cached_key (AccountKey _) = True"
| "cached_key (TrustLineKey _ _) = True"
| "cached_key (OfferKey _ _) = False"
| "cached_key (DataKey _ _) = False"

definition cache_ok :: "Database \<Rightarrow> bool" where
  "cache_ok db \<longleftrightarrow> (\<forall>(k, v) \<in> set (db_cache db). v = db_ledger db k \<and> cached_key k)"

text \<open>The keys of the entries a delta has added or changed.\<close>

definition lives :: "LedgerDelta \<Rightarrow> LedgerKey set" where
  "lives d = dom (map_of (mNew d)) \<union> dom (map_of (mMod d))"

text \<open>The delta and the tables agree on which entries exist and on every entry the delta has not added
  or changed; in a session that is tracked (\<open>tr\<close>) they agree on those too. An operation that fails may
  leave a session that is not: it can roll back the tables and not the delta, which is then
  discarded.\<close>

definition sess_ok :: "bool \<Rightarrow> ledger \<Rightarrow> session \<Rightarrow> bool" where
  "sess_ok tr base s \<longleftrightarrow>
     db_ok (snd s) \<and> cache_ok (snd s) \<and> delta_ok base (fst s) \<and> mActive (fst s)
     \<and> (\<forall>k. (db_ledger (snd s) k = None) = (delta_apply (fst s) base k = None)
            \<and> (tr \<or> k \<notin> lives (fst s) \<longrightarrow> db_ledger (snd s) k = delta_apply (fst s) base k))"

text \<open>The ledger a session is at, and its header.\<close>

definition view :: "session \<Rightarrow> ledger" where
  "view s = db_ledger (snd s)"

definition hdr :: "session \<Rightarrow> LedgerHeader" where
  "hdr s = mCurrentHeader (fst s)"

lemma db_ledger_cache [simp]: "db_ledger (db\<lparr>db_cache := c\<rparr>) = db_ledger db"
  by (simp add: fun_eq_iff db_ledger_def split: LedgerKey.splits option.splits)

lemma db_ok_cache [simp]: "db_ok (db\<lparr>db_cache := c\<rparr>) = db_ok db"
  by (simp add: db_ok_def)

lemma cache_ok_cache:
  "cache_ok (db\<lparr>db_cache := c\<rparr>) \<longleftrightarrow> (\<forall>(k, v) \<in> set c. v = db_ledger db k \<and> cached_key k)"
  by (simp add: cache_ok_def)

lemma set_map_erase [simp]: "set (map_erase k m) = {p \<in> set m. fst p \<noteq> k}"
  by (auto simp: map_erase_def)

lemma map_erase_twice [simp]: "map_erase k (map_erase k m) = map_erase k m"
  by (simp add: map_erase_def)

lemma set_lru_put: "set (lru_put n k v c) \<subseteq> insert (k, v) (set c)"
  by (auto simp: lru_put_def Let_def map_erase_def dest: in_set_butlastD split: if_splits)

lemma cache_ok_put: "cache_ok db \<Longrightarrow> v = db_ledger db k \<Longrightarrow> cached_key k \<Longrightarrow> cache_ok (putCachedEntry k v db)"
  using set_lru_put [of "db_cacheSize db" k v "db_cache db"]
  by (auto simp: putCachedEntry_def cache_ok_cache) (auto simp: cache_ok_def)

lemma cache_ok_get:
  assumes "getCachedEntry k db = Some (v, db')" and "cache_ok db"
  shows "v = db_ledger db k \<and> cache_ok db' \<and> (\<exists>c. db' = db\<lparr>db_cache := c\<rparr>)"
proof -
  have m: "map_of (db_cache db) k = Some v" and db': "db' = db\<lparr>db_cache := lru_touch k v (db_cache db)\<rparr>"
    using assms(1) by (auto simp: getCachedEntry_def)
  from m have "(k, v) \<in> set (db_cache db)" by (rule map_of_SomeD)
  then have "v = db_ledger db k" "cached_key k" using assms(2) by (auto simp: cache_ok_def)
  moreover have "cache_ok db'"
    using assms(2) calculation by (auto simp: db' cache_ok_cache lru_touch_def) (auto simp: cache_ok_def)
  ultimately show ?thesis using db' by blast
qed

lemma flushCachedEntry_simps [simp]:
  "db_ledger (flushCachedEntry k db) = db_ledger db" "db_ok (flushCachedEntry k db) = db_ok db"
  by (simp_all add: flushCachedEntry_def)

lemma db_ledger_keyed:
  assumes "db_ok db" shows "keyed (db_ledger db)"
  using assms
  by (auto simp: keyed_def db_ledger_def db_ok_def LedgerEntryKey_def account_entry_def trust_entry_def
      offer_entry_def data_entry_def account_of_row_def trust_of_row_def offer_of_row_def data_of_row_def
      split: LedgerKey.splits option.splits if_splits)

lemma db_okD:
  assumes "db_ok db"
  shows "map_of (db_accounts db) i = Some r \<Longrightarrow> acc_accountID (snd r) = i"
    and "map_of (db_accounts db) i = Some r \<Longrightarrow> distinct (map signer_key (acc_signers (snd r)))"
    and "map_of (db_accounts db) i = Some r \<Longrightarrow> acc_numSubEntries (snd r) = 0 \<Longrightarrow> acc_signers (snd r) = []"
    and "map_of (db_trustlines db) k = Some t \<Longrightarrow> (tl_accountID (snd t), tl_asset (snd t)) = k"
    and "map_of (db_offers db) j = Some q \<Longrightarrow> off_offerID (snd q) = j"
    and "map_of (db_data db) n = Some u \<Longrightarrow> (data_accountID (snd u), data_dataName (snd u)) = n"
    and "map_of (db_accounts db) i = Some r \<Longrightarrow> acc_numSubEntries (snd r) \<le> INT32_MAX"
  using assms unfolding db_ok_def by blast+

section \<open>Accounts\<close>

lemma account_of_row_eq:
  assumes "db_ok db" and "map_of (db_accounts db) i = Some r"
  shows "account_entry (account_of_row r) =
    \<lparr>lastModifiedLedgerSeq = fst r, le_data = ACCOUNT ((snd r)\<lparr>acc_signers := sort_key signer_key (acc_signers (snd r))\<rparr>)\<rparr>"
proof -
  have "acc_numSubEntries (snd r) = 0 \<Longrightarrow> acc_signers (snd r) = []" using db_okD(3) [OF assms] .
  then show ?thesis
    by (cases "acc_numSubEntries (snd r) = 0")
      (auto simp: account_entry_def account_of_row_def account_normalize_def loadSigners_def sort_key_id_if_sorted)
qed

lemma AccountFrame_entry_Inr:
  "AccountFrame_entry e = Inr f \<Longrightarrow> account_entry f = e \<and> mUpdateSigners f"
  by (auto simp: AccountFrame_entry_def account_entry_def split: LedgerEntryData.splits)

lemma loadAccount_db_law:
  assumes "loadAccount_db i db = Inr (a, db')" and "cache_ok db"
  shows "(\<exists>c. db' = db\<lparr>db_cache := c\<rparr>) \<and> cache_ok db' \<and> map_option account_entry a = db_ledger db (AccountKey i)"
proof (cases "getCachedEntry (AccountKey i) db")
  case None
  have L: "db_ledger db (AccountKey i) = map_option (\<lambda>r. account_entry (account_of_row r)) (map_of (db_accounts db) i)"
    by (simp add: db_ledger_def)
  show ?thesis
  proof (cases "map_of (db_accounts db) i")
    case None
    then have r: "a = None" "db' = putCachedEntry (AccountKey i) None db"
      using assms(1) \<open>getCachedEntry (AccountKey i) db = None\<close> by (auto simp: loadAccount_db_def)
    then show ?thesis
      using cache_ok_put [OF assms(2), of None "AccountKey i"] L None by (auto simp: putCachedEntry_def)
  next
    case (Some r)
    then have r: "a = Some (account_of_row r)"
      "db' = putCachedEntry (AccountKey i) (Some (account_entry (account_of_row r))) db"
      using assms(1) \<open>getCachedEntry (AccountKey i) db = None\<close>
      by (auto simp: loadAccount_db_def Let_def result_simps)
    then show ?thesis
      using cache_ok_put [OF assms(2), of "Some (account_entry (account_of_row r))" "AccountKey i"] L Some
      by (auto simp: putCachedEntry_def)
  qed
next
  case (Some p)
  obtain v db1 where p: "p = (v, db1)" by fastforce
  from cache_ok_get [OF Some [unfolded p] assms(2)] have
    v: "v = db_ledger db (AccountKey i)" "cache_ok db1" "\<exists>c. db1 = db\<lparr>db_cache := c\<rparr>" by blast+
  show ?thesis
  proof (cases v)
    case None
    then have "a = None" "db' = db1" using assms(1) Some p by (auto simp: loadAccount_db_def)
    with v None show ?thesis by simp
  next
    case (Some e)
    then obtain f where "AccountFrame_entry e = Inr f" "a = Some f" "db' = db1"
      using assms(1) \<open>getCachedEntry (AccountKey i) db = Some p\<close> p
      by (auto simp: loadAccount_db_def result_simps)
    with AccountFrame_entry_Inr [of e f] v Some show ?thesis by simp
  qed
qed

lemma lives_entry:
  "addEntry e d = Inr d' \<Longrightarrow> lives d' = insert (LedgerEntryKey e) (lives d)"
  "modEntry e d = Inr d' \<Longrightarrow> lives d' = insert (LedgerEntryKey e) (lives d)"
  "recordEntry e d = Inr d' \<Longrightarrow> lives d' = lives d"
  by (auto simp: addEntry_def modEntry_def recordEntry_def delta_checkState_def Let_def lives_def
      result_simps split: if_splits)

lemma lives_delete:
  assumes "deleteEntry k d = Inr d'" and "delta_ok base d"
  shows "lives d' = lives d - {k}"
  using assms
  by (auto simp: deleteEntry_def delta_checkState_def lives_def delta_ok_def result_simps split: if_splits)

lemma record_law:
  assumes "recordEntry e (fst s) = Inr d" and "sess_ok tr base s" and "cache_ok (snd s\<lparr>db_cache := c\<rparr>)"
  shows "sess_ok tr base (d, snd s\<lparr>db_cache := c\<rparr>)" and "mCurrentHeader d = hdr s"
proof -
  have ok: "delta_ok base (fst s)" and act: "mActive (fst s)" using assms(2) by (simp_all add: sess_ok_def)
  from recordEntry_step [OF this, of e] assms(1)
  have "delta_ok base d" "mActive d" "delta_apply d base = delta_apply (fst s) base" and h: "mCurrentHeader d = mCurrentHeader (fst s)"
    by auto
  then show "sess_ok tr base (d, snd s\<lparr>db_cache := c\<rparr>)" using assms(2,3) lives_entry(3) [OF assms(1)] by (simp add: sess_ok_def)
  show "mCurrentHeader d = hdr s" using h by (simp add: hdr_def)
qed

text \<open>Loading leaves the ledger, and the frame is what the ledger has.\<close>

lemma loadAccount_law:
  assumes "loadAccount i s = Inr (a, s')" and "sess_ok tr base s"
  shows "sess_ok tr base s'" and "view s' = view s" and "hdr s' = hdr s"
    and "map_option account_entry a = view s (AccountKey i)"
proof -
  obtain a1 db' where l: "loadAccount_db i (snd s) = Inr (a1, db')"
    using assms(1) by (auto simp: loadAccount_def result_simps)
  have ok: "cache_ok (snd s)" using assms(2) by (simp add: sess_ok_def)
  from loadAccount_db_law [OF l ok] obtain c where
    db': "db' = snd s\<lparr>db_cache := c\<rparr>" "cache_ok db'" "map_option account_entry a1 = db_ledger (snd s) (AccountKey i)"
    by blast
  have "sess_ok tr base s' \<and> view s' = view s \<and> hdr s' = hdr s \<and> a1 = a"
  proof (cases a1)
    case None
    then show ?thesis
      using assms l db'(1,2) by (auto simp: loadAccount_def sess_ok_def view_def hdr_def)
  next
    case (Some f)
    then obtain d where d: "recordEntry (account_entry f) (fst s) = Inr d" "s' = (d, db')" "a = Some f"
      using assms(1) l by (auto simp: loadAccount_def result_simps)
    with record_law [OF d(1) assms(2)] db' Some show ?thesis by (auto simp: view_def hdr_def)
  qed
  with db'(3) show "sess_ok tr base s'" "view s' = view s" "hdr s' = hdr s"
    "map_option account_entry a = view s (AccountKey i)"
    by (auto simp: view_def)
qed

definition account_at :: "ledger \<Rightarrow> AccountID \<Rightarrow> AccountEntry option" where
  "account_at L i =
     (case L (AccountKey i) of
        Some e \<Rightarrow> (case le_data e of ACCOUNT a \<Rightarrow> Some a | _ \<Rightarrow> None)
      | None \<Rightarrow> None)"

lemma account_at_entry [simp]: "L (AccountKey i) = Some (account_entry f) \<Longrightarrow> account_at L i = Some (af_account f)"
  by (simp add: account_at_def account_entry_def)

text \<open>Writing an entry into the delta and the tables at once.\<close>

lemma cache_ok_write:
  assumes "cache_ok db" and "\<And>k'. k' \<noteq> k \<Longrightarrow> db_ledger db' k' = db_ledger db k'"
    and "set (db_cache db') \<subseteq> set (db_cache db)" and "\<And>v. (k, v) \<notin> set (db_cache db')"
  shows "cache_ok db'"
proof -
  have "v = db_ledger db' k' \<and> cached_key k'" if mem: "(k', v) \<in> set (db_cache db')" for k' v
  proof -
    have "k' \<noteq> k" using mem assms(4) by auto
    moreover have "v = db_ledger db k' \<and> cached_key k'"
      using mem assms(1,3) by (auto simp: cache_ok_def)
    ultimately show ?thesis using assms(2) by simp
  qed
  then show ?thesis by (auto simp: cache_ok_def)
qed

lemma track_put:
  assumes "sess_ok tr base s" and "(if ins then addEntry e (fst s) else modEntry e (fst s)) = Inr d"
    and "(view s (LedgerEntryKey e) = None) = ins"
    and "db_ok db" and "db_ledger db = (view s)(LedgerEntryKey e \<mapsto> e)"
    and "set (db_cache db) \<subseteq> set (db_cache (snd s))"
    and "cached_key (LedgerEntryKey e) \<Longrightarrow> (\<And>v. (LedgerEntryKey e, v) \<notin> set (db_cache db))"
  shows "sess_ok tr base (d, db)" and "hdr (d, db) = hdr s" and "view (d, db) = (view s)(LedgerEntryKey e \<mapsto> e)"
proof -
  have ok: "delta_ok base (fst s)" "mActive (fst s)" "cache_ok (snd s)"
    and same: "\<And>k. (view s k = None) = (delta_apply (fst s) base k = None)"
      "\<And>k. tr \<or> k \<notin> lives (fst s) \<Longrightarrow> view s k = delta_apply (fst s) base k"
    using assms(1) by (auto simp: sess_ok_def view_def)
  have "cache_ok db"
  proof (rule cache_ok_write [OF ok(3)])
    show "(LedgerEntryKey e, v) \<notin> set (db_cache db)" for v
      using assms(6,7) ok(3) by (cases "cached_key (LedgerEntryKey e)") (auto simp: cache_ok_def)
  qed (use assms(5,6) in \<open>auto simp: view_def\<close>)
  have "(delta_apply (fst s) base (LedgerEntryKey e) = None) = ins" using same(1) assms(3) by simp
  then have d: "delta_ok base d" "mActive d" "delta_apply d base = (delta_apply (fst s) base)(LedgerEntryKey e \<mapsto> e)"
    "mCurrentHeader d = mCurrentHeader (fst s)" "lives d = insert (LedgerEntryKey e) (lives (fst s))"
    using assms(2) addEntry_step [OF ok(1,2), of e] modEntry_step [OF ok(1,2), of e]
      lives_entry(1,2) [of e "fst s" d] by (auto split: if_splits)
  show "sess_ok tr base (d, db)" "hdr (d, db) = hdr s" "view (d, db) = (view s)(LedgerEntryKey e \<mapsto> e)"
    using \<open>cache_ok db\<close> assms(4,5) d same by (auto simp: sess_ok_def hdr_def view_def)
qed

lemma track_delete:
  assumes "sess_ok tr base s" and "deleteEntry k (fst s) = Inr d" and "view s k \<noteq> None"
    and "db_ok db" and "db_ledger db = (view s)(k := None)"
    and "set (db_cache db) \<subseteq> set (db_cache (snd s))"
    and "cached_key k \<Longrightarrow> (\<And>v. (k, v) \<notin> set (db_cache db))"
  shows "sess_ok tr base (d, db)" and "hdr (d, db) = hdr s" and "view (d, db) = (view s)(k := None)"
proof -
  have ok: "delta_ok base (fst s)" "mActive (fst s)" "cache_ok (snd s)"
    and same: "\<And>k. (view s k = None) = (delta_apply (fst s) base k = None)"
      "\<And>k. tr \<or> k \<notin> lives (fst s) \<Longrightarrow> view s k = delta_apply (fst s) base k"
    using assms(1) by (auto simp: sess_ok_def view_def)
  have "cache_ok db"
  proof (rule cache_ok_write [OF ok(3)])
    show "(k, v) \<notin> set (db_cache db)" for v
      using assms(6,7) ok(3) by (cases "cached_key k") (auto simp: cache_ok_def)
  qed (use assms(5,6) in \<open>auto simp: view_def\<close>)
  have "delta_apply (fst s) base k \<noteq> None" using same(1) assms(3) by simp
  then have d: "delta_ok base d" "mActive d" "delta_apply d base = (delta_apply (fst s) base)(k := None)"
    "mCurrentHeader d = mCurrentHeader (fst s)" "lives d = lives (fst s) - {k}"
    using assms(2) deleteEntry_step [OF ok(1,2), of k] lives_delete [OF assms(2) ok(1)] by auto
  show "sess_ok tr base (d, db)" "hdr (d, db) = hdr s" "view (d, db) = (view s)(k := None)"
    using \<open>cache_ok db\<close> assms(4,5) d same by (auto simp: sess_ok_def hdr_def view_def)
qed

lemma applySigners_Inr:
  assumes "map_of (db_accounts db) i = Some (lm, row)" and "i = acc_accountID (af_account f)"
    and "distinct (map signer_key (acc_signers row))" and "adjacent_sorted (acc_signers (af_account f))"
    and "ins \<Longrightarrow> acc_signers row = []"
  shows "\<exists>rows c. applySigners f ins db =
      Inr (db\<lparr>db_accounts := map_put i (lm, row\<lparr>acc_signers := rows\<rparr>) (db_accounts db),
              db_cache := (if c then map_erase (AccountKey i) (db_cache db) else db_cache db)\<rparr>)
    \<and> set rows = set (acc_signers (af_account f)) \<and> distinct (map signer_key rows)"
proof -
  let ?old = "if ins then [] else loadSigners row"
  have "\<exists>rows c. applySigners_loop (acc_signers (af_account f)) ?old (acc_signers row) False = Inr (rows, c)
    \<and> set rows = {} \<union> set (acc_signers (af_account f)) \<and> distinct (map signer_key rows)"
    using assms by (intro applySigners_loop_correct)
      (auto simp: adjacent_sorted_iff loadSigners_def sort_key_strict)
  then obtain rows c where
    "applySigners_loop (acc_signers (af_account f)) ?old (acc_signers row) False = Inr (rows, c)"
    "set rows = set (acc_signers (af_account f))" "distinct (map signer_key rows)" by auto
  then show ?thesis
    using assms(1,2) by (intro exI [of _ rows] exI [of _ c]) (auto simp: applySigners_def Let_def flushCachedEntry_def)
qed

lemma db_ok_accounts:
  assumes "db_ok db" and "map_wf t" and "map_of t = (map_of (db_accounts db))(i := r)"
    and "\<And>x. r = Some x \<Longrightarrow> acc_accountID (snd x) = i \<and> distinct (map signer_key (acc_signers (snd x)))
      \<and> (acc_numSubEntries (snd x) = 0 \<longrightarrow> acc_signers (snd x) = []) \<and> acc_numSubEntries (snd x) \<le> INT32_MAX"
  shows "db_ok (db\<lparr>db_accounts := t, db_cache := c\<rparr>)"
    and "db_ledger (db\<lparr>db_accounts := t, db_cache := c\<rparr>) =
      (db_ledger db)(AccountKey i := map_option (\<lambda>r. account_entry (account_of_row r)) r)"
proof -
  have "acc_accountID (snd x) = j \<and> distinct (map signer_key (acc_signers (snd x)))
      \<and> (acc_numSubEntries (snd x) = 0 \<longrightarrow> acc_signers (snd x) = []) \<and> acc_numSubEntries (snd x) \<le> INT32_MAX"
    if "map_of t j = Some x" for j x
    using that assms(3,4) db_okD(1-3,7) [OF assms(1), of j x] by (cases "j = i") auto
  then show "db_ok (db\<lparr>db_accounts := t, db_cache := c\<rparr>)"
    using assms(1,2) unfolding db_ok_def by simp
  show "db_ledger (db\<lparr>db_accounts := t, db_cache := c\<rparr>) =
      (db_ledger db)(AccountKey i := map_option (\<lambda>r. account_entry (account_of_row r)) r)"
    using assms(3) by (auto simp: fun_eq_iff db_ledger_def split: LedgerKey.splits option.splits)
qed

lemma view_account_row:
  assumes "sess_ok tr base s"
  shows "account_at (view s) i =
    map_option (\<lambda>r. (snd r)\<lparr>acc_signers := sort_key signer_key (acc_signers (snd r))\<rparr>) (map_of (db_accounts (snd s)) i)"
    and "(view s (AccountKey i) = None) = (map_of (db_accounts (snd s)) i = None)"
proof -
  have dok: "db_ok (snd s)" using assms by (simp add: sess_ok_def)
  show "account_at (view s) i =
    map_option (\<lambda>r. (snd r)\<lparr>acc_signers := sort_key signer_key (acc_signers (snd r))\<rparr>) (map_of (db_accounts (snd s)) i)"
    using account_of_row_eq [OF dok, of i]
    by (cases "map_of (db_accounts (snd s)) i") (auto simp: account_at_def view_def db_ledger_def)
  show "(view s (AccountKey i) = None) = (map_of (db_accounts (snd s)) i = None)"
    by (simp add: view_def db_ledger_def)
qed

lemma account_at_sub:
  assumes "sess_ok tr base s" and "account_at (view s) i = Some a"
  shows "acc_numSubEntries a \<le> INT32_MAX"
proof -
  have "db_ok (snd s)" using assms(1) by (simp add: sess_ok_def)
  from db_okD(7) [OF this, of i] assms(2) view_account_row(1) [OF assms(1), of i]
  show ?thesis by auto
qed

text \<open>Storing an account puts the frame into the ledger. Unless its signers are to be written, they
  have to be those stored.\<close>

lemma account_store_law:
  assumes st: "account_storeUpdate ins f s = Inr (f', s')" and ok: "sess_ok tr base s"
    and sub: "acc_numSubEntries (af_account f) = 0 \<Longrightarrow> acc_signers (af_account f) = []"
    and sync: "mUpdateSigners f \<or> map_option acc_signers (account_at (view s) (acc_accountID (af_account f))) = Some (acc_signers (af_account f))"
  shows "sess_ok tr base s'" and "view s' = (view s)(AccountKey (acc_accountID (af_account f)) \<mapsto> account_entry f')"
    and "hdr s' = hdr s" and "af_account f' = af_account f" and "mUpdateSigners f' = mUpdateSigners f"
    and "(view s (AccountKey (acc_accountID (af_account f))) = None) = ins" and "account_isValid f"
proof -
  let ?i = "acc_accountID (af_account f)" and ?db = "flushCachedEntry (AccountKey (acc_accountID (af_account f))) (snd s)"
  have dok: "db_ok (snd s)" using ok by (simp add: sess_ok_def)
  obtain lm rows d db where v: "account_isValid f" and f': "f' = f\<lparr>af_lastModified := lm\<rparr>" and s': "s' = (d, db)"
    and rows: "rows = (if ins then [] else acc_signers (snd (the (map_of (db_accounts (snd s)) ?i))))"
    and ex: "(map_of (db_accounts (snd s)) ?i = None) = ins"
    and d: "(if ins then addEntry (account_entry f') (fst s) else modEntry (account_entry f') (fst s)) = Inr d"
    and db: "(if mUpdateSigners f
      then applySigners f' ins (?db\<lparr>db_accounts := map_put ?i (lm, (af_account f)\<lparr>acc_signers := rows\<rparr>) (db_accounts ?db)\<rparr>)
      else Inr (?db\<lparr>db_accounts := map_put ?i (lm, (af_account f)\<lparr>acc_signers := rows\<rparr>) (db_accounts ?db)\<rparr>)) = Inr db"
    using st
    by (auto simp: account_storeUpdate_def Let_def result_simps flushCachedEntry_def split: option.splits if_splits)
  have "distinct (map signer_key rows)"
    using db_okD(2) [OF dok, of ?i] ex rows by (auto split: if_splits)
  note 1 = this
  have srt: "sorted_wrt (<) (map signer_key (acc_signers (af_account f)))"
    using v by (auto simp: account_isValid_def Let_def adjacent_sorted_iff)
  have "\<exists>t rows'. db = (snd s)\<lparr>db_accounts := t, db_cache := map_erase (AccountKey ?i) (db_cache (snd s))\<rparr> \<and> map_wf t
    \<and> map_of t = (map_of (db_accounts (snd s)))(?i \<mapsto> (lm, (af_account f)\<lparr>acc_signers := rows'\<rparr>))
    \<and> sort_key signer_key rows' = acc_signers (af_account f) \<and> distinct (map signer_key rows')"
  proof (cases "mUpdateSigners f")
    case True
    let ?db1 = "?db\<lparr>db_accounts := map_put ?i (lm, (af_account f)\<lparr>acc_signers := rows\<rparr>) (db_accounts ?db)\<rparr>"
    have "\<exists>rows' c. applySigners f' ins ?db1 =
      Inr (?db1\<lparr>db_accounts := map_put ?i (lm, (af_account f)\<lparr>acc_signers := rows\<rparr>\<lparr>acc_signers := rows'\<rparr>) (db_accounts ?db1),
        db_cache := (if c then map_erase (AccountKey ?i) (db_cache ?db1) else db_cache ?db1)\<rparr>)
      \<and> set rows' = set (acc_signers (af_account f')) \<and> distinct (map signer_key rows')"
      using 1 v rows f' by (intro applySigners_Inr) (auto simp: account_isValid_def Let_def)
    then obtain rows' c where
      "db = (snd s)\<lparr>db_accounts := map_put ?i (lm, (af_account f)\<lparr>acc_signers := rows'\<rparr>) (db_accounts ?db1),
        db_cache := map_erase (AccountKey ?i) (db_cache (snd s))\<rparr>"
      "set rows' = set (acc_signers (af_account f))" "distinct (map signer_key rows')"
      using db True f' by (auto simp: flushCachedEntry_def)
    then show ?thesis
      using dok sort_key_unique [OF srt]
      by (intro exI [of _ "map_put ?i (lm, (af_account f)\<lparr>acc_signers := rows'\<rparr>) (db_accounts ?db1)"] exI [of _ rows'])
        (auto simp: db_ok_def map_wf_put flushCachedEntry_def)
  next
    case False
    then have "map_option acc_signers (account_at (view s) ?i) = Some (acc_signers (af_account f))" using sync by simp
    then have "\<not> ins" "sort_key signer_key rows = acc_signers (af_account f)"
      using view_account_row(1) [OF ok, of ?i] ex rows by auto
    with False db 1 dok show ?thesis
      by (intro exI [of _ "map_put ?i (lm, (af_account f)\<lparr>acc_signers := rows\<rparr>) (db_accounts ?db)"] exI [of _ rows])
        (auto simp: db_ok_def map_wf_put flushCachedEntry_def)
  qed
  then obtain t rows' where t: "db = (snd s)\<lparr>db_accounts := t, db_cache := map_erase (AccountKey ?i) (db_cache (snd s))\<rparr>"
    "map_wf t" "map_of t = (map_of (db_accounts (snd s)))(?i \<mapsto> (lm, (af_account f)\<lparr>acc_signers := rows'\<rparr>))"
    "sort_key signer_key rows' = acc_signers (af_account f)" "distinct (map signer_key rows')"
    by (elim exE conjE) (rule that, assumption+)
  have sub': "acc_numSubEntries (af_account f) = 0 \<longrightarrow> rows' = []"
    using sub t(4) by (metis set_empty set_sort)
  have "sort_key signer_key (acc_signers (af_account f)) = acc_signers (af_account f)"
    using srt by (intro sort_key_id_if_sorted) (simp add: strict_sorted_iff)
  then have e: "account_entry (account_of_row (lm, (af_account f)\<lparr>acc_signers := rows'\<rparr>)) = account_entry f'"
    using t(4) sub sub' f'
    by (auto simp: account_entry_def account_of_row_def account_normalize_def loadSigners_def sort_key_id_if_sorted)
  have dbok: "db_ok db" "db_ledger db = (view s)(AccountKey ?i \<mapsto> account_entry f')"
    using db_ok_accounts [OF dok t(2,3)] t(1,5) sub' e v by (auto simp: view_def account_isValid_def Let_def)
  have k: "LedgerEntryKey (account_entry f') = AccountKey ?i"
    using f' by (simp add: LedgerEntryKey_def account_entry_def)
  have ex': "(view s (LedgerEntryKey (account_entry f')) = None) = ins"
    using view_account_row(2) [OF ok, of ?i] ex k by simp
  have c: "set (db_cache db) \<subseteq> set (db_cache (snd s))" "(LedgerEntryKey (account_entry f'), v) \<notin> set (db_cache db)" for v
    unfolding k t(1) by auto
  note tp = track_put [OF ok d ex' dbok(1) dbok(2) [folded k] c(1) c(2)]
  show "sess_ok tr base s'" "view s' = (view s)(AccountKey ?i \<mapsto> account_entry f')" "hdr s' = hdr s"
    using tp unfolding s' k by simp_all
  show "af_account f' = af_account f" "mUpdateSigners f' = mUpdateSigners f" using f' by simp_all
  show "(view s (AccountKey ?i) = None) = ins" using ex' k by simp
  show "account_isValid f" by (rule v)
qed

lemma account_delete_law:
  assumes st: "account_storeDelete i s = Inr s'" and ok: "sess_ok tr base s" and ex: "view s (AccountKey i) \<noteq> None"
  shows "sess_ok tr base s'" and "view s' = (view s)(AccountKey i := None)" and "hdr s' = hdr s"
proof -
  obtain d where d: "deleteEntry (AccountKey i) (fst s) = Inr d"
    and s': "s' = (d, (snd s)\<lparr>db_accounts := map_erase i (db_accounts (snd s)), db_cache := map_erase (AccountKey i) (db_cache (snd s))\<rparr>)"
    (is "s' = (d, ?db)")
    using st by (auto simp: account_storeDelete_def Let_def result_simps flushCachedEntry_def)
  have dok: "db_ok (snd s)" using ok by (simp add: sess_ok_def)
  then have "map_wf (map_erase i (db_accounts (snd s)))" by (simp add: db_ok_def map_wf_erase)
  from db_ok_accounts [OF dok this, of i None "map_erase (AccountKey i) (db_cache (snd s))"]
  have "db_ok ?db" "db_ledger ?db = (view s)(AccountKey i := None)" by (simp_all add: view_def)
  from track_delete [OF ok d ex this] show "sess_ok tr base s'" "view s' = (view s)(AccountKey i := None)" "hdr s' = hdr s"
    unfolding s' by auto
qed

section \<open>Trust lines\<close>

lemma TrustFrame_entry_Inr:
  "TrustFrame_entry e = Inr f \<Longrightarrow> trust_entry f = e \<and> \<not> mIsIssuer f \<and> trust_isValid f"
  by (auto simp: TrustFrame_entry_def trust_entry_def Let_def result_simps split: LedgerEntryData.splits)

lemma loadTrustLine_db_law:
  assumes "loadTrustLine_db i a db = Inr (t, db')" and "cache_ok db"
  shows "(\<exists>c. db' = db\<lparr>db_cache := c\<rparr>) \<and> cache_ok db' \<and> map_option trust_entry t = db_ledger db (TrustLineKey i a)
    \<and> (\<forall>f. t = Some f \<longrightarrow> \<not> mIsIssuer f \<and> trust_isValid f)"
proof -
  let ?k = "TrustLineKey i a"
  have L: "db_ledger db ?k = map_option (\<lambda>r. trust_entry (trust_of_row r)) (map_of (db_trustlines db) (i, a))"
    by (simp add: db_ledger_def)
  have cached: ?thesis if hit: "getCachedEntry ?k db = Some (Some e, db1)" for e db1
  proof -
    from cache_ok_get [OF hit assms(2)]
    have v: "Some e = db_ledger db ?k" "cache_ok db1" "\<exists>c. db1 = db\<lparr>db_cache := c\<rparr>" by blast+
    obtain f where "TrustFrame_entry e = Inr f" "t = Some f" "db' = db1"
      using assms(1) hit by (auto simp: loadTrustLine_db_def Let_def result_simps)
    with TrustFrame_entry_Inr [of e f] v show ?thesis by auto
  qed
  have selected: ?thesis
    if miss: "(case map_of (db_trustlines db1) (i, a) of None \<Rightarrow> Inr (None, putCachedEntry ?k None db1)
       | Some r \<Rightarrow> let f = trust_of_row r in if \<not> trust_isValid f then Inl (RuntimeError ''Invalid TrustEntry'')
           else Inr (Some f, putCachedEntry ?k (Some (trust_entry f)) db1)) = Inr (t, db')"
      and db1: "cache_ok db1" "db1 = db\<lparr>db_cache := c\<rparr>" for db1 c
  proof (cases "map_of (db_trustlines db) (i, a)")
    case None
    then have "t = None" "db' = putCachedEntry ?k None db1" using miss db1(2) by auto
    then show ?thesis using cache_ok_put [OF db1(1), of None ?k] L None db1(2) by (auto simp: putCachedEntry_def)
  next
    case (Some r)
    then have "t = Some (trust_of_row r)" "trust_isValid (trust_of_row r)"
      "db' = putCachedEntry ?k (Some (trust_entry (trust_of_row r))) db1"
      using miss db1(2) by (auto simp: Let_def split: if_splits)
    then show ?thesis
      using cache_ok_put [OF db1(1), of "Some (trust_entry (trust_of_row r))" ?k] L Some db1(2)
      by (auto simp: putCachedEntry_def trust_of_row_def)
  qed
  have db: "db = db\<lparr>db_cache := db_cache db\<rparr>" by simp
  consider (hit) e db1 where "getCachedEntry ?k db = Some (Some e, db1)"
    | (null) db1 where "getCachedEntry ?k db = Some (None, db1)" | (miss) "getCachedEntry ?k db = None"
    by (metis option.exhaust surj_pair)
  then show ?thesis
  proof cases
    case hit
    then show ?thesis by (rule cached)
  next
    case null
    from cache_ok_get [OF null assms(2)] obtain c where "cache_ok db1" "db1 = db\<lparr>db_cache := c\<rparr>" by blast
    with null assms(1) show ?thesis by (intro selected [of db1 c]) (auto simp: loadTrustLine_db_def Let_def)
  next
    case miss
    with assms db show ?thesis by (intro selected [of db "db_cache db"]) (auto simp: loadTrustLine_db_def Let_def)
  qed
qed

lemma trust_key_view:
  assumes "sess_ok tr base s" and "view s (TrustLineKey i a) = Some (trust_entry f)"
  shows "trust_key f = (i, a)"
proof -
  have "keyed (view s)" using assms(1) db_ledger_keyed [of "snd s"] unfolding view_def sess_ok_def by blast
  with assms(2) have "LedgerEntryKey (trust_entry f) = TrustLineKey i a" by (simp add: keyed_def)
  then show ?thesis by (simp add: LedgerEntryKey_def trust_entry_def trust_key_def)
qed

text \<open>A loaded trust line is that of the ledger or stands for the issuer's.\<close>

lemma loadTrustLine_law:
  assumes "loadTrustLine i a s = Inr (t, s')" and "sess_ok tr base s"
  shows "sess_ok tr base s'" and "view s' = view s" and "hdr s' = hdr s" and "a \<noteq> Native"
    and "t = None \<Longrightarrow> view s (TrustLineKey i a) = None"
    and "t = Some f \<Longrightarrow> trust_key f = (i, a) \<and> (mIsIssuer f \<longleftrightarrow> getIssuer a = Inr i)
      \<and> (\<not> mIsIssuer f \<longrightarrow> view s (TrustLineKey i a) = Some (trust_entry f) \<and> trust_isValid f)"
proof -
  show "a \<noteq> Native" using assms(1) by (auto simp: loadTrustLine_def)
  have "sess_ok tr base s' \<and> view s' = view s \<and> hdr s' = hdr s \<and> (t = None \<longrightarrow> view s (TrustLineKey i a) = None)
    \<and> (\<forall>f. t = Some f \<longrightarrow> trust_key f = (i, a) \<and> (mIsIssuer f \<longleftrightarrow> getIssuer a = Inr i)
      \<and> (\<not> mIsIssuer f \<longrightarrow> view s (TrustLineKey i a) = Some (trust_entry f) \<and> trust_isValid f))"
  proof (cases "getIssuer a = Inr i")
    case True
    with assms show ?thesis
      by (auto simp: loadTrustLine_def createIssuerFrame_def trust_key_def split: if_splits)
  next
    case False
    then obtain t1 db' where l: "loadTrustLine_db i a (snd s) = Inr (t1, db')"
      using assms(1) \<open>a \<noteq> Native\<close> by (auto simp: loadTrustLine_def result_simps)
    have ok: "cache_ok (snd s)" using assms(2) by (simp add: sess_ok_def)
    from loadTrustLine_db_law [OF l ok] obtain c where
      db': "db' = snd s\<lparr>db_cache := c\<rparr>" "cache_ok db'" "map_option trust_entry t1 = db_ledger (snd s) (TrustLineKey i a)"
        "\<forall>f. t1 = Some f \<longrightarrow> \<not> mIsIssuer f \<and> trust_isValid f"
      by blast
    show ?thesis
    proof (cases t1)
      case None
      then show ?thesis
        using assms l db' False \<open>a \<noteq> Native\<close> by (auto simp: loadTrustLine_def sess_ok_def view_def hdr_def)
    next
      case (Some f)
      then obtain d where d: "recordEntry (trust_entry f) (fst s) = Inr d" "s' = (d, db')" "t = Some f"
        using assms(1) l False \<open>a \<noteq> Native\<close> by (auto simp: loadTrustLine_def result_simps)
      have L: "view s (TrustLineKey i a) = Some (trust_entry f)" using db'(3) Some by (simp add: view_def)
      from record_law [OF d(1) assms(2)] d(2,3) db' Some False L trust_key_view [OF assms(2) L]
      show ?thesis by (auto simp: view_def hdr_def)
    qed
  qed
  then show "sess_ok tr base s'" "view s' = view s" "hdr s' = hdr s"
    "t = None \<Longrightarrow> view s (TrustLineKey i a) = None"
    "t = Some f \<Longrightarrow> trust_key f = (i, a) \<and> (mIsIssuer f \<longleftrightarrow> getIssuer a = Inr i)
      \<and> (\<not> mIsIssuer f \<longrightarrow> view s (TrustLineKey i a) = Some (trust_entry f) \<and> trust_isValid f)"
    by blast+
qed

lemma loadTrustLineIssuer_law:
  assumes "loadTrustLineIssuer i a s = Inr ((t, u), s')" and "sess_ok tr base s"
  shows "sess_ok tr base s'" and "view s' = view s" and "hdr s' = hdr s" and "a \<noteq> Native"
    and "t = None \<Longrightarrow> view s (TrustLineKey i a) = None"
    and "t = Some f \<Longrightarrow> trust_key f = (i, a) \<and> (mIsIssuer f \<longleftrightarrow> getIssuer a = Inr i)
      \<and> (\<not> mIsIssuer f \<longrightarrow> view s (TrustLineKey i a) = Some (trust_entry f) \<and> trust_isValid f)"
    and "\<exists>j. getIssuer a = Inr j \<and> map_option account_entry u = view s (AccountKey j)"
proof -
  obtain s1 j where l: "loadTrustLine i a s = Inr (t, s1)" "getIssuer a = Inr j" "loadAccount j s1 = Inr (u, s')"
    using assms(1) by (auto simp: loadTrustLineIssuer_def result_simps)
  note t = loadTrustLine_law [OF l(1) assms(2)]
  note u = loadAccount_law [OF l(3) t(1)]
  show "sess_ok tr base s'" "view s' = view s" "hdr s' = hdr s" "a \<noteq> Native"
    "\<exists>j. getIssuer a = Inr j \<and> map_option account_entry u = view s (AccountKey j)"
    using t(2,3,4) u l(2) by auto
  show "t = None \<Longrightarrow> view s (TrustLineKey i a) = None" by (rule t(5))
  show "t = Some f \<Longrightarrow> trust_key f = (i, a) \<and> (mIsIssuer f \<longleftrightarrow> getIssuer a = Inr i)
      \<and> (\<not> mIsIssuer f \<longrightarrow> view s (TrustLineKey i a) = Some (trust_entry f) \<and> trust_isValid f)" by (rule t(6))
qed

lemma db_ok_trustlines:
  assumes "db_ok db" and "map_wf t" and "map_of t = (map_of (db_trustlines db))(k := r)"
    and "\<And>x. r = Some x \<Longrightarrow> (tl_accountID (snd x), tl_asset (snd x)) = k"
  shows "db_ok (db\<lparr>db_trustlines := t, db_cache := c\<rparr>)"
    and "db_ledger (db\<lparr>db_trustlines := t, db_cache := c\<rparr>) =
      (db_ledger db)(TrustLineKey (fst k) (snd k) := map_option (\<lambda>r. trust_entry (trust_of_row r)) r)"
proof -
  have "(tl_accountID (snd x), tl_asset (snd x)) = j" if "map_of t j = Some x" for j x
    using that assms(3,4) db_okD(4) [OF assms(1), of j x] by (cases "j = k") auto
  then show "db_ok (db\<lparr>db_trustlines := t, db_cache := c\<rparr>)"
    using assms(1,2) unfolding db_ok_def by simp
  show "db_ledger (db\<lparr>db_trustlines := t, db_cache := c\<rparr>) =
      (db_ledger db)(TrustLineKey (fst k) (snd k) := map_option (\<lambda>r. trust_entry (trust_of_row r)) r)"
    using assms(3) by (auto simp: fun_eq_iff db_ledger_def split: LedgerKey.splits option.splits)
qed

lemma trust_store_law:
  assumes st: "trust_store ins f s = Inr (f', s')" and ok: "sess_ok tr base s"
  defines "k \<equiv> TrustLineKey (tl_accountID (tf_trustLine f)) (tl_asset (tf_trustLine f))"
  shows "sess_ok tr base s'" and "hdr s' = hdr s" and "trust_isValid f"
    and "tf_trustLine f' = tf_trustLine f" and "mIsIssuer f' = mIsIssuer f"
    and "mIsIssuer f \<Longrightarrow> view s' = view s"
    and "\<not> mIsIssuer f \<Longrightarrow> view s' = (view s)(k \<mapsto> trust_entry f') \<and> (view s k = None) = ins"
proof -
  have dok: "db_ok (snd s)" using ok by (simp add: sess_ok_def)
  have "sess_ok tr base s' \<and> hdr s' = hdr s \<and> trust_isValid f \<and> tf_trustLine f' = tf_trustLine f
    \<and> mIsIssuer f' = mIsIssuer f \<and> (if mIsIssuer f then view s' = view s
        else view s' = (view s)(k \<mapsto> trust_entry f') \<and> (view s k = None) = ins)"
  proof (cases "mIsIssuer f")
    case True
    then have "f' = f" "s' = (fst s, flushCachedEntry k (snd s))" "trust_isValid f"
      using st by (auto simp: trust_store_def Let_def k_def trust_key_def split: if_splits)
    moreover have "cache_ok (flushCachedEntry k (snd s))"
      using ok by (auto simp: sess_ok_def flushCachedEntry_def cache_ok_def)
    ultimately show ?thesis using True ok by (auto simp: sess_ok_def view_def hdr_def)
  next
    case False
    let ?t = "map_put (trust_key f) (tf_lastModified f', tf_trustLine f) (db_trustlines (snd s))"
    let ?db = "(snd s)\<lparr>db_trustlines := ?t, db_cache := map_erase k (db_cache (snd s))\<rparr>"
    obtain d where v: "trust_isValid f" and f': "f' = f\<lparr>tf_lastModified := tf_lastModified f'\<rparr>"
      and ex: "(map_of (db_trustlines (snd s)) (trust_key f) = None) = ins"
      and d: "(if ins then addEntry (trust_entry f') (fst s) else modEntry (trust_entry f') (fst s)) = Inr d"
      and s': "s' = (d, ?db)"
      using st False
      by (cases "map_of (db_trustlines (snd s)) (trust_key f)")
        (auto simp: trust_store_def Let_def result_simps flushCachedEntry_def getKeyFields_def k_def trust_key_def
          split: if_splits)
    have "map_wf ?t" using dok by (simp add: db_ok_def map_wf_put)
    from db_ok_trustlines [OF dok this, of "trust_key f" "Some (tf_lastModified f', tf_trustLine f)" "map_erase k (db_cache (snd s))"]
    have db: "db_ok ?db" "db_ledger ?db = (db_ledger (snd s))(k \<mapsto> trust_entry (trust_of_row (tf_lastModified f', tf_trustLine f)))"
      by (simp_all add: trust_key_def k_def)
    have tl: "tf_trustLine f' = tf_trustLine f" "mIsIssuer f' = mIsIssuer f" by (subst f', simp)+
    then have e: "trust_entry (trust_of_row (tf_lastModified f', tf_trustLine f)) = trust_entry f'"
      by (simp add: trust_entry_def trust_of_row_def)
    from tl have k: "LedgerEntryKey (trust_entry f') = k" by (simp add: LedgerEntryKey_def trust_entry_def k_def)
    have ex': "(view s (LedgerEntryKey (trust_entry f')) = None) = ins"
      unfolding k using ex by (simp add: view_def db_ledger_def k_def trust_key_def)
    have c: "set (db_cache ?db) \<subseteq> set (db_cache (snd s))" "(LedgerEntryKey (trust_entry f'), v) \<notin> set (db_cache ?db)" for v
      unfolding k by auto
    have L: "db_ledger ?db = (view s)(LedgerEntryKey (trust_entry f') \<mapsto> trust_entry f')"
      using db(2) e k by (simp add: view_def)
    from track_put [OF ok d ex' db(1) L c(1) c(2)] show ?thesis using s' v tl False ex' k by simp
  qed
  then show "sess_ok tr base s'" "hdr s' = hdr s" "trust_isValid f"
    "tf_trustLine f' = tf_trustLine f" "mIsIssuer f' = mIsIssuer f"
    "mIsIssuer f \<Longrightarrow> view s' = view s"
    "\<not> mIsIssuer f \<Longrightarrow> view s' = (view s)(k \<mapsto> trust_entry f') \<and> (view s k = None) = ins"
    by (simp_all split: if_splits)
qed

lemma trust_delete_law:
  assumes st: "trust_storeDelete (i, a) s = Inr s'" and ok: "sess_ok tr base s" and ex: "view s (TrustLineKey i a) \<noteq> None"
  shows "sess_ok tr base s'" and "view s' = (view s)(TrustLineKey i a := None)" and "hdr s' = hdr s"
proof -
  let ?db = "(snd s)\<lparr>db_trustlines := map_erase (i, a) (db_trustlines (snd s)), db_cache := map_erase (TrustLineKey i a) (db_cache (snd s))\<rparr>"
  obtain d where d: "deleteEntry (TrustLineKey i a) (fst s) = Inr d" and s': "s' = (d, ?db)"
    using st by (auto simp: trust_storeDelete_def Let_def result_simps flushCachedEntry_def getKeyFields_def split: if_splits)
  have dok: "db_ok (snd s)" using ok by (simp add: sess_ok_def)
  then have "map_wf (map_erase (i, a) (db_trustlines (snd s)))" by (simp add: db_ok_def map_wf_erase)
  from db_ok_trustlines [OF dok this, of "(i, a)" None "map_erase (TrustLineKey i a) (db_cache (snd s))"]
  have "db_ok ?db" "db_ledger ?db = (view s)(TrustLineKey i a := None)" by (simp_all add: view_def)
  from track_delete [OF ok d ex this] show "sess_ok tr base s'" "view s' = (view s)(TrustLineKey i a := None)" "hdr s' = hdr s"
    unfolding s' by auto
qed

section \<open>Offers\<close>

lemma db_ok_offers:
  assumes "db_ok db" and "map_wf t" and "map_of t = (map_of (db_offers db))(i := r)"
    and "\<And>x. r = Some x \<Longrightarrow> off_offerID (snd x) = i"
  shows "db_ok (db\<lparr>db_offers := t\<rparr>)"
    and "db_ledger (db\<lparr>db_offers := t\<rparr>) (OfferKey a i) =
      (case r of Some x \<Rightarrow> if off_sellerID (snd x) = a then Some (offer_entry (offer_of_row x)) else None | None \<Rightarrow> None)"
    and "(\<And>a. k \<noteq> OfferKey a i) \<Longrightarrow> db_ledger (db\<lparr>db_offers := t\<rparr>) k = db_ledger db k"
proof -
  have "off_offerID (snd x) = j" if "map_of t j = Some x" for j x
    using that assms(3,4) db_okD(5) [OF assms(1), of j x] by (cases "j = i") auto
  then show "db_ok (db\<lparr>db_offers := t\<rparr>)"
    using assms(1,2) unfolding db_ok_def by simp
  show "db_ledger (db\<lparr>db_offers := t\<rparr>) (OfferKey a i) =
      (case r of Some x \<Rightarrow> if off_sellerID (snd x) = a then Some (offer_entry (offer_of_row x)) else None | None \<Rightarrow> None)"
    using assms(3) by (simp add: db_ledger_def)
  show "db_ledger (db\<lparr>db_offers := t\<rparr>) k = db_ledger db k" if "\<And>a. k \<noteq> OfferKey a i"
    using that assms(3) by (cases k) (auto simp: db_ledger_def)
qed

lemma view_offer:
  "view s (OfferKey a i) = (case map_of (db_offers (snd s)) i of
     Some r \<Rightarrow> if off_sellerID (snd r) = a then Some (offer_entry (offer_of_row r)) else None | None \<Rightarrow> None)"
  by (simp add: view_def db_ledger_def)

lemma loadOffers_Inr:
  "loadOffers rs = Inr fs \<Longrightarrow> fs = map offer_of_row rs \<and> (\<forall>f \<in> set fs. offer_isValid f)"
  by (induction rs arbitrary: fs) (auto simp: result_simps split: if_splits)

lemma loadOffer_law:
  assumes "loadOffer a i s = Inr (t, s')" and "sess_ok tr base s"
  shows "sess_ok tr base s'" and "view s' = view s" and "hdr s' = hdr s"
    and "map_option offer_entry t = view s (OfferKey a i)" and "t = Some f \<Longrightarrow> offer_isValid f"
proof -
  let ?rs = "case map_of (db_offers (snd s)) i of Some r \<Rightarrow> if off_sellerID (snd r) = a then [r] else [] | None \<Rightarrow> []"
  obtain fs where fs: "loadOffers ?rs = Inr fs"
    using assms(1) by (auto simp: loadOffer_def result_simps)
  note l = loadOffers_Inr [OF fs]
  have L: "view s (OfferKey a i) = (case fs of f # _ \<Rightarrow> Some (offer_entry f) | [] \<Rightarrow> None)"
    using l by (auto simp: view_offer split: option.splits)
  have "sess_ok tr base s' \<and> view s' = view s \<and> hdr s' = hdr s
    \<and> map_option offer_entry t = view s (OfferKey a i) \<and> (\<forall>f. t = Some f \<longrightarrow> offer_isValid f)"
  proof (cases fs)
    case Nil
    then show ?thesis using assms fs L by (auto simp: loadOffer_def)
  next
    case (Cons f fs')
    then obtain d where d: "recordEntry (offer_entry f) (fst s) = Inr d" "s' = (d, snd s)" "t = Some f"
      using assms(1) fs by (auto simp: loadOffer_def result_simps)
    have c: "snd s = snd s\<lparr>db_cache := db_cache (snd s)\<rparr>" by simp
    have "cache_ok (snd s\<lparr>db_cache := db_cache (snd s)\<rparr>)" using assms(2) by (simp add: sess_ok_def)
    from record_law [OF d(1) assms(2) this] c d L Cons l show ?thesis by (auto simp: view_def hdr_def)
  qed
  then show "sess_ok tr base s'" "view s' = view s" "hdr s' = hdr s"
    "map_option offer_entry t = view s (OfferKey a i)" "t = Some f \<Longrightarrow> offer_isValid f" by blast+
qed

text \<open>An update keeps the seller of the row, so the offer has to be the one of the ledger.\<close>

lemma offer_store_law:
  assumes st: "offer_store ins f s = Inr (f', s')" and ok: "sess_ok tr base s"
  defines "k \<equiv> OfferKey (off_sellerID (of_offer f)) (off_offerID (of_offer f))"
  assumes own: "\<not> ins \<Longrightarrow> view s k \<noteq> None"
  shows "sess_ok tr base s'" and "hdr s' = hdr s" and "of_offer f' = of_offer f" and "offer_isValid f'"
    and "view s' = (view s)(k \<mapsto> offer_entry f')" and "(view s k = None) = ins"
    and "ins \<Longrightarrow> view s (OfferKey a (off_offerID (of_offer f))) = None"
proof -
  let ?i = "off_offerID (of_offer f)" and ?a = "off_sellerID (of_offer f)"
  have dok: "db_ok (snd s)" using ok by (simp add: sess_ok_def)
  obtain lm sid d where f': "f' = f\<lparr>of_lastModified := lm\<rparr>" and v: "offer_isValid f'"
    and ex: "(map_of (db_offers (snd s)) ?i = None) = ins"
    and sid: "sid = (if ins then ?a else off_sellerID (snd (the (map_of (db_offers (snd s)) ?i))))"
    and d: "(if ins then addEntry (offer_entry f') (fst s) else modEntry (offer_entry f') (fst s)) = Inr d"
    and s': "s' = (d, (snd s)\<lparr>db_offers := map_put ?i (lm, (of_offer f)\<lparr>off_sellerID := sid\<rparr>) (db_offers (snd s))\<rparr>)"
    (is "s' = (d, ?db)")
    using st
    by (cases "map_of (db_offers (snd s)) ?i")
      (auto simp: offer_store_def Let_def result_simps split: if_splits)
  have "sid = ?a"
    using own sid ex by (auto simp: k_def view_offer split: option.splits if_splits)
  then have row: "(of_offer f)\<lparr>off_sellerID := sid\<rparr> = of_offer f" by simp
  have "map_wf (map_put ?i (lm, of_offer f) (db_offers (snd s)))" using dok by (simp add: db_ok_def map_wf_put)
  note db = db_ok_offers [OF dok this, of ?i "Some (lm, of_offer f)", simplified]
  have dbok: "db_ok ?db" unfolding row by (rule db(1))
  have e: "offer_entry (offer_of_row (lm, of_offer f)) = offer_entry f'"
    by (simp add: f' offer_entry_def offer_of_row_def)
  have none: "view s (OfferKey a ?i) = None" if "a \<noteq> ?a \<or> ins" for a
    using that ex own by (auto simp: view_offer k_def split: option.splits if_splits)
  have k: "LedgerEntryKey (offer_entry f') = k" by (simp add: LedgerEntryKey_def offer_entry_def k_def f')
  have L: "db_ledger ?db = (view s)(LedgerEntryKey (offer_entry f') \<mapsto> offer_entry f')"
  proof
    fix k'
    show "db_ledger ?db k' = ((view s)(LedgerEntryKey (offer_entry f') \<mapsto> offer_entry f')) k'"
    proof (cases "\<exists>a. k' = OfferKey a ?i")
      case True
      then obtain a' where "k' = OfferKey a' ?i" by blast
      then show ?thesis unfolding row k k_def using db(2) [of a'] none [of a'] e by (cases "a' = ?a") auto
    next
      case False
      then show ?thesis unfolding row k k_def using db(3) [of k'] by (auto simp: view_def)
    qed
  qed
  have ex': "(view s (LedgerEntryKey (offer_entry f')) = None) = ins"
    unfolding k using none [of ?a] own unfolding k_def by blast
  have c: "set (db_cache ?db) \<subseteq> set (db_cache (snd s))" by simp
  have "\<not> cached_key (LedgerEntryKey (offer_entry f'))" by (simp add: k k_def)
  then have nc: "cached_key (LedgerEntryKey (offer_entry f')) \<Longrightarrow> (LedgerEntryKey (offer_entry f'), w) \<notin> set (db_cache ?db)" for w
    by blast
  from track_put [OF ok d ex' dbok L c nc]
  show "sess_ok tr base s'" "hdr s' = hdr s" "view s' = (view s)(k \<mapsto> offer_entry f')"
    unfolding s' k by simp_all
  show "of_offer f' = of_offer f" "offer_isValid f'" "(view s k = None) = ins" using f' v ex' k by simp_all
  show "view s (OfferKey a ?i) = None" if "ins" using none that by simp
qed

lemma offer_delete_law:
  assumes st: "offer_storeDelete a i s = Inr s'" and ok: "sess_ok tr base s" and ex: "view s (OfferKey a i) \<noteq> None"
  shows "sess_ok tr base s'" and "view s' = (view s)(OfferKey a i := None)" and "hdr s' = hdr s"
proof -
  let ?db = "(snd s)\<lparr>db_offers := map_erase i (db_offers (snd s))\<rparr>"
  obtain d where d: "deleteEntry (OfferKey a i) (fst s) = Inr d" and s': "s' = (d, ?db)"
    using st by (auto simp: offer_storeDelete_def result_simps)
  have dok: "db_ok (snd s)" using ok by (simp add: sess_ok_def)
  then have "map_wf (map_erase i (db_offers (snd s)))" by (simp add: db_ok_def map_wf_erase)
  note db = db_ok_offers [OF dok this, of i None, simplified]
  have none: "view s (OfferKey b i) = None" if "b \<noteq> a" for b
    using that ex by (auto simp: view_offer split: option.splits if_splits)
  have L: "db_ledger ?db = (view s)(OfferKey a i := None)"
  proof
    fix k
    show "db_ledger ?db k = ((view s)(OfferKey a i := None)) k"
    proof (cases "\<exists>b. k = OfferKey b i")
      case True
      then obtain b where "k = OfferKey b i" by blast
      then show ?thesis using db(2) [of b] none [of b] by (cases "b = a") auto
    next
      case False
      then show ?thesis using db(3) [of k] by (auto simp: view_def)
    qed
  qed
  from track_delete [OF ok d ex db(1) L]
  show "sess_ok tr base s'" "view s' = (view s)(OfferKey a i := None)" "hdr s' = hdr s"
    unfolding s' by auto
qed

section \<open>Data entries\<close>

lemma loadData_law:
  assumes "loadData i n (snd s) = Inr t" and "sess_ok tr base s"
  shows "map_option data_entry t = view s (DataKey i n)" and "t = Some f \<Longrightarrow> data_isValid f \<and> data_key f = (i, n)"
proof -
  have "db_ok (snd s)" using assms(2) by (simp add: sess_ok_def)
  from db_okD(6) [OF this, of "(i, n)"] assms(1)
  show "map_option data_entry t = view s (DataKey i n)" "t = Some f \<Longrightarrow> data_isValid f \<and> data_key f = (i, n)"
    by (auto simp: loadData_def view_def db_ledger_def data_key_def data_of_row_def split: option.splits if_splits)
qed

lemma db_ok_data:
  assumes "db_ok db" and "map_wf t" and "map_of t = (map_of (db_data db))(k := r)"
    and "\<And>x. r = Some x \<Longrightarrow> (data_accountID (snd x), data_dataName (snd x)) = k"
  shows "db_ok (db\<lparr>db_data := t\<rparr>)"
    and "db_ledger (db\<lparr>db_data := t\<rparr>) =
      (db_ledger db)(DataKey (fst k) (snd k) := map_option (\<lambda>r. data_entry (data_of_row r)) r)"
proof -
  have "(data_accountID (snd x), data_dataName (snd x)) = j" if "map_of t j = Some x" for j x
    using that assms(3,4) db_okD(6) [OF assms(1), of j x] by (cases "j = k") auto
  then show "db_ok (db\<lparr>db_data := t\<rparr>)"
    using assms(1,2) unfolding db_ok_def by simp
  show "db_ledger (db\<lparr>db_data := t\<rparr>) =
      (db_ledger db)(DataKey (fst k) (snd k) := map_option (\<lambda>r. data_entry (data_of_row r)) r)"
    using assms(3) by (auto simp: fun_eq_iff db_ledger_def split: LedgerKey.splits option.splits)
qed

lemma data_store_law:
  assumes st: "data_store ins f s = Inr (f', s')" and ok: "sess_ok tr base s"
  defines "k \<equiv> DataKey (data_accountID (df_data f)) (data_dataName (df_data f))"
  shows "sess_ok tr base s'" and "hdr s' = hdr s" and "view s' = (view s)(k \<mapsto> data_entry f')" and "(view s k = None) = ins"
proof -
  have dok: "db_ok (snd s)" using ok by (simp add: sess_ok_def)
  obtain lm d where f': "f' = f\<lparr>df_lastModified := lm\<rparr>"
    and ex: "(map_of (db_data (snd s)) (data_key f) = None) = ins"
    and d: "(if ins then addEntry (data_entry f') (fst s) else modEntry (data_entry f') (fst s)) = Inr d"
    and s': "s' = (d, (snd s)\<lparr>db_data := map_put (data_key f) (lm, df_data f) (db_data (snd s))\<rparr>)"
    (is "s' = (d, ?db)")
    using st
    by (cases "map_of (db_data (snd s)) (data_key f)")
      (auto simp: data_store_def Let_def result_simps data_key_def split: if_splits)
  have "map_wf (map_put (data_key f) (lm, df_data f) (db_data (snd s)))" using dok by (simp add: db_ok_def map_wf_put)
  note db = db_ok_data [OF dok this, of "data_key f" "Some (lm, df_data f)"]
  have e: "data_entry (data_of_row (lm, df_data f)) = data_entry f'" "LedgerEntryKey (data_entry f') = k"
    by (simp_all add: f' data_entry_def data_of_row_def k_def LedgerEntryKey_def)
  have dbok: "db_ok ?db" and L: "db_ledger ?db = (view s)(LedgerEntryKey (data_entry f') \<mapsto> data_entry f')"
    using db e by (simp_all add: data_key_def view_def k_def)
  have ex': "(view s (LedgerEntryKey (data_entry f')) = None) = ins"
    using e(2) ex by (simp add: k_def view_def db_ledger_def data_key_def)
  have c: "set (db_cache ?db) \<subseteq> set (db_cache (snd s))" by simp
  have "\<not> cached_key (LedgerEntryKey (data_entry f'))" by (simp add: e(2) k_def)
  then have nc: "cached_key (LedgerEntryKey (data_entry f')) \<Longrightarrow> (LedgerEntryKey (data_entry f'), w) \<notin> set (db_cache ?db)" for w
    by blast
  from track_put [OF ok d ex' dbok L c nc] ex'
  show "sess_ok tr base s'" "hdr s' = hdr s" "view s' = (view s)(k \<mapsto> data_entry f')" "(view s k = None) = ins"
    unfolding s' e(2) by simp_all
qed

lemma data_delete_law:
  assumes st: "data_storeDelete (i, n) s = Inr s'" and ok: "sess_ok tr base s" and ex: "view s (DataKey i n) \<noteq> None"
  shows "sess_ok tr base s'" and "view s' = (view s)(DataKey i n := None)" and "hdr s' = hdr s"
proof -
  let ?db = "(snd s)\<lparr>db_data := map_erase (i, n) (db_data (snd s))\<rparr>"
  obtain d where d: "deleteEntry (DataKey i n) (fst s) = Inr d" and s': "s' = (d, ?db)"
    using st by (auto simp: data_storeDelete_def result_simps)
  have dok: "db_ok (snd s)" using ok by (simp add: sess_ok_def)
  then have "map_wf (map_erase (i, n) (db_data (snd s)))" by (simp add: db_ok_def map_wf_erase)
  from db_ok_data [OF dok this, of "(i, n)" None]
  have "db_ok ?db" "db_ledger ?db = (view s)(DataKey i n := None)" by (simp_all add: view_def)
  from track_delete [OF ok d ex this] show "sess_ok tr base s'" "view s' = (view s)(DataKey i n := None)" "hdr s' = hdr s"
    unfolding s' by auto
qed

section \<open>Scopes\<close>

text \<open>A delta in a delta, with the tables as they are.\<close>

lemma nested_law:
  assumes "sess_ok tr base (d, db)"
  shows "sess_ok tr (db_ledger db) (LedgerDelta_nested d, db)" and "hdr (LedgerDelta_nested d, db) = hdr (d, db)"
proof -
  show "sess_ok tr (db_ledger db) (LedgerDelta_nested d, db)"
    using assms by (simp add: sess_ok_def LedgerDelta_nested_def delta_ok_new delta_apply_new)
      (simp add: LedgerDelta_new_def)
  show "hdr (LedgerDelta_nested d, db) = hdr (d, db)"
    by (simp add: hdr_def LedgerDelta_nested_def LedgerDelta_new_def)
qed

lemma fold_flush:
  "fold flushCachedEntry ks db = db\<lparr>db_cache := filter (\<lambda>p. fst p \<notin> set ks) (db_cache db)\<rparr>"
  by (induction ks arbitrary: db) (auto simp: flushCachedEntry_def map_erase_def intro: filter_cong)

text \<open>Rolling back restores the ledger, and the cache agrees with it: what the delta left alone is as it
  was, and what it changed is flushed.\<close>

lemma rollback_scope_cache:
  assumes act: "mActive d'" and saved: "db_ok saved"
    and same: "\<And>k v. (k, v) \<in> set (db_cache db) \<Longrightarrow> k \<notin> lives d' \<Longrightarrow> k \<notin> set (mDelete d') \<Longrightarrow>
      v = db_ledger saved k \<and> cached_key k"
  shows "\<exists>db'. rollback_scope d' saved db = Inr db' \<and> db_ok db' \<and> cache_ok db' \<and> (\<exists>c. db' = saved\<lparr>db_cache := c\<rparr>)"
proof -
  let ?ks = "mDelete d' @ map fst (mNew d') @ map fst (mMod d')"
  let ?db = "saved\<lparr>db_cache := filter (\<lambda>p. fst p \<notin> set ?ks) (db_cache db)\<rparr>"
  have r: "rollback_scope d' saved db = Inr ?db"
    using act by (simp add: rollback_scope_def rollback_def delta_checkState_def fold_flush)
  have "v = db_ledger saved k \<and> cached_key k" if "(k, v) \<in> set (db_cache db)" "k \<notin> set ?ks" for k v
    using same [OF that(1)] that(2) by (auto simp: lives_def dom_map_of_conv_image_fst)
  then have "cache_ok ?db" unfolding cache_ok_cache by auto
  with r saved show ?thesis by auto
qed

lemma rollback_scope_law:
  assumes inner: "sess_ok tr (db_ledger saved) (d', db)" and saved: "db_ok saved"
  shows "\<exists>db'. rollback_scope d' saved db = Inr db' \<and> db_ok db' \<and> cache_ok db' \<and> (\<exists>c. db' = saved\<lparr>db_cache := c\<rparr>)"
proof (rule rollback_scope_cache)
  show "mActive d'" using inner by (simp add: sess_ok_def)
  show "v = db_ledger saved k \<and> cached_key k"
    if mem: "(k, v) \<in> set (db_cache db)" and out: "k \<notin> lives d'" "k \<notin> set (mDelete d')" for k v
  proof -
    have "delta_apply d' (db_ledger saved) k = db_ledger saved k"
      using out by (auto simp: lives_def delta_apply_def split: option.splits)
    with inner out(1) have "db_ledger db k = db_ledger saved k" unfolding sess_ok_def by auto
    moreover have "cache_ok db" using inner by (simp add: sess_ok_def)
    ultimately show ?thesis using mem by (auto simp: cache_ok_def)
  qed
qed (rule saved)

section \<open>The keys a delta touches\<close>

definition touched :: "LedgerDelta \<Rightarrow> LedgerKey set" where
  "touched d = dom (map_of (mNew d)) \<union> dom (map_of (mMod d)) \<union> set (mDelete d)"

lemma touched_entry:
  "addEntry e d = Inr d' \<Longrightarrow> touched d' \<subseteq> insert (LedgerEntryKey e) (touched d)"
  "modEntry e d = Inr d' \<Longrightarrow> touched d' \<subseteq> insert (LedgerEntryKey e) (touched d)"
  "deleteEntry k d = Inr d' \<Longrightarrow> touched d' \<subseteq> insert k (touched d)"
  "recordEntry e d = Inr d' \<Longrightarrow> touched d' = touched d"
  by (auto simp: addEntry_def modEntry_def deleteEntry_def recordEntry_def delta_checkState_def Let_def touched_def
      result_simps set_insort_insert split: if_splits)

lemma touched_load:
  "loadAccount i s = Inr (a, s') \<Longrightarrow> touched (fst s') = touched (fst s)"
  "loadTrustLine i b s = Inr (t, s') \<Longrightarrow> touched (fst s') = touched (fst s)"
  by (auto simp: loadAccount_def loadTrustLine_def result_simps touched_entry(4) split: option.splits if_splits)

lemma touched_account:
  assumes "account_storeUpdate ins f s = Inr (f', s')"
  shows "touched (fst s') \<subseteq> insert (AccountKey (acc_accountID (af_account f))) (touched (fst s))"
proof -
  obtain lm where "(if ins then addEntry (account_entry (f\<lparr>af_lastModified := lm\<rparr>)) (fst s)
      else modEntry (account_entry (f\<lparr>af_lastModified := lm\<rparr>)) (fst s)) = Inr (fst s')"
    using assms by (auto simp: account_storeUpdate_def Let_def result_simps)
  moreover have "LedgerEntryKey (account_entry (f\<lparr>af_lastModified := lm\<rparr>)) = AccountKey (acc_accountID (af_account f))"
    by (simp add: LedgerEntryKey_def account_entry_def)
  ultimately show ?thesis
    using touched_entry(1,2) [of "account_entry (f\<lparr>af_lastModified := lm\<rparr>)" "fst s" "fst s'"] by (simp split: if_splits)
qed

lemma touched_trust:
  assumes "trust_store ins f s = Inr (f', s')"
  shows "touched (fst s') \<subseteq> insert (TrustLineKey (tl_accountID (tf_trustLine f)) (tl_asset (tf_trustLine f))) (touched (fst s))"
proof (cases "mIsIssuer f")
  case True
  then show ?thesis using assms by (auto simp: trust_store_def Let_def split: if_splits)
next
  case False
  then obtain lm where "(if ins then addEntry (trust_entry (f\<lparr>tf_lastModified := lm\<rparr>)) (fst s)
      else modEntry (trust_entry (f\<lparr>tf_lastModified := lm\<rparr>)) (fst s)) = Inr (fst s')"
    using assms by (auto simp: trust_store_def Let_def result_simps getKeyFields_def split: if_splits)
  moreover have "LedgerEntryKey (trust_entry (f\<lparr>tf_lastModified := lm\<rparr>)) =
      TrustLineKey (tl_accountID (tf_trustLine f)) (tl_asset (tf_trustLine f))"
    by (simp add: LedgerEntryKey_def trust_entry_def)
  ultimately show ?thesis
    using touched_entry(1,2) [of "trust_entry (f\<lparr>tf_lastModified := lm\<rparr>)" "fst s" "fst s'"] by (simp split: if_splits)
qed

lemma touched_offer:
  assumes "offer_store ins f s = Inr (f', s')"
  shows "touched (fst s') \<subseteq> insert (OfferKey (off_sellerID (of_offer f)) (off_offerID (of_offer f))) (touched (fst s))"
proof -
  obtain lm where "(if ins then addEntry (offer_entry (f\<lparr>of_lastModified := lm\<rparr>)) (fst s)
      else modEntry (offer_entry (f\<lparr>of_lastModified := lm\<rparr>)) (fst s)) = Inr (fst s')"
    using assms by (auto simp: offer_store_def Let_def result_simps split: if_splits)
  moreover have "LedgerEntryKey (offer_entry (f\<lparr>of_lastModified := lm\<rparr>)) =
      OfferKey (off_sellerID (of_offer f)) (off_offerID (of_offer f))"
    by (simp add: LedgerEntryKey_def offer_entry_def)
  ultimately show ?thesis
    using touched_entry(1,2) [of "offer_entry (f\<lparr>of_lastModified := lm\<rparr>)" "fst s" "fst s'"] by (simp split: if_splits)
qed

lemma touched_offer_delete:
  "offer_storeDelete a i s = Inr s' \<Longrightarrow> touched (fst s') \<subseteq> insert (OfferKey a i) (touched (fst s))"
  by (auto simp: offer_storeDelete_def result_simps dest!: touched_entry(3))

text \<open>An entry the inner delta does not touch can be changed in the outer one.\<close>

lemma delta_apply_untouched:
  assumes "k \<notin> touched t"
  shows "delta_apply t (m(k := x)) = (delta_apply t m)(k := x)"
proof -
  have "map_of (mNew t) k = None" "map_of (mMod t) k = None" "k \<notin> set (mDelete t)"
    using assms by (auto simp: touched_def)
  then show ?thesis by (auto simp: fun_eq_iff delta_apply_def split: option.splits)
qed

lemma delta_ok_untouched:
  assumes "k \<notin> touched t" and "delta_ok m t"
  shows "delta_ok (m(k := x)) t"
proof -
  have "map_of (mNew t) k = None" "map_of (mMod t) k = None" "k \<notin> set (mDelete t)"
    using assms(1) by (auto simp: touched_def)
  then show ?thesis using assms(2) by (auto simp: delta_ok_def)
qed

section \<open>Committing\<close>

text \<open>A delta against the ledger it has led to, apart from any tables.\<close>

definition tracks :: "bool \<Rightarrow> ledger \<Rightarrow> LedgerDelta \<Rightarrow> ledger \<Rightarrow> bool" where
  "tracks tr base d L \<longleftrightarrow>
     delta_ok base d \<and> mActive d
     \<and> (\<forall>k. (L k = None) = (delta_apply d base k = None) \<and> (tr \<or> k \<notin> lives d \<longrightarrow> L k = delta_apply d base k))"

lemma sess_ok_tracks:
  "sess_ok tr base s \<longleftrightarrow> db_ok (snd s) \<and> cache_ok (snd s) \<and> tracks tr base (fst s) (view s)"
  by (auto simp: sess_ok_def tracks_def view_def)

lemma tracks_mod:
  assumes "tracks tr base d L" and "modEntry e d = Inr d'" and "L (LedgerEntryKey e) \<noteq> None"
  shows "tracks tr base d' (L(LedgerEntryKey e \<mapsto> e))" and "lives d' = insert (LedgerEntryKey e) (lives d)"
    and "mCurrentHeader d' = mCurrentHeader d"
proof -
  have ok: "delta_ok base d" "mActive d" "delta_apply d base (LedgerEntryKey e) \<noteq> None"
    using assms(1,3) by (auto simp: tracks_def)
  then have d: "delta_ok base d'" "mActive d'" "delta_apply d' base = (delta_apply d base)(LedgerEntryKey e \<mapsto> e)"
    and h: "mCurrentHeader d' = mCurrentHeader d"
    using assms(2) modEntry_step [OF ok(1,2), of e] by auto
  show l: "lives d' = insert (LedgerEntryKey e) (lives d)" by (rule lives_entry(2) [OF assms(2)])
  show "tracks tr base d' (L(LedgerEntryKey e \<mapsto> e))" using assms(1) d l by (auto simp: tracks_def)
  show "mCurrentHeader d' = mCurrentHeader d" by (rule h)
qed

text \<open>A ledger that differs from the tracked one in entries the delta has changed.\<close>

lemma tracks_stale:
  assumes "tracks tr base d L'" and "\<And>k. L' k = L k \<or> k \<in> lives d \<and> L' k \<noteq> None \<and> L k \<noteq> None"
  shows "tracks False base d L"
proof -
  have "(L k = None) = (L' k = None) \<and> (k \<notin> lives d \<longrightarrow> L k = L' k)" for k using assms(2) [of k] by auto
  then show ?thesis using assms(1) by (auto simp: tracks_def)
qed

lemma sess_ok_header:
  "sess_ok tr base (d\<lparr>mCurrentHeader := h\<rparr>, db) = sess_ok tr base (d, db)"
  by (simp add: sess_ok_def lives_def)

lemma lives_merge_deletes: "merge_deletes other ks d = Inr d' \<Longrightarrow> lives d - set ks \<subseteq> lives d'"
proof (induction ks arbitrary: d)
  case (Cons k ks)
  then obtain d1 d2 where d: "deleteEntry k d = Inr d1" "record_previous other k d1 = Inr d2" "merge_deletes other ks d2 = Inr d'"
    by (auto simp: result_simps)
  have "lives d - {k} \<subseteq> lives d1"
    using d(1) by (auto simp: deleteEntry_def delta_checkState_def lives_def result_simps split: if_splits)
  moreover have "lives d2 = lives d1"
    using d(2) by (auto simp: record_previous_def lives_entry(3) split: option.splits)
  ultimately show ?case using Cons.IH [OF d(3)] by auto
qed simp

lemma lives_merge_news:
  "merge_news es d = Inr d' \<Longrightarrow> (\<And>k e. (k, e) \<in> set es \<Longrightarrow> LedgerEntryKey e = k) \<Longrightarrow> lives d \<union> fst ` set es \<subseteq> lives d'"
proof (induction es arbitrary: d)
  case (Cons p es)
  obtain k e where p: "p = (k, e)" by fastforce
  with Cons.prems obtain d1 where d: "addEntry e d = Inr d1" "merge_news es d1 = Inr d'" by (auto simp: result_simps)
  have "lives d \<union> {k} \<subseteq> lives d1" using lives_entry(1) [OF d(1)] Cons.prems(2) p by auto
  then show ?case using Cons.IH [OF d(2)] Cons.prems(2) p by auto
qed simp

lemma lives_merge_mods:
  "merge_mods other es d = Inr d' \<Longrightarrow> (\<And>k e. (k, e) \<in> set es \<Longrightarrow> LedgerEntryKey e = k) \<Longrightarrow> lives d \<union> fst ` set es \<subseteq> lives d'"
proof (induction es arbitrary: d)
  case (Cons p es)
  obtain k e where p: "p = (k, e)" by fastforce
  with Cons.prems obtain d1 d2 where d: "modEntry e d = Inr d1" "record_previous other k d1 = Inr d2" "merge_mods other es d2 = Inr d'"
    by (auto simp: result_simps)
  have "lives d \<union> {k} \<subseteq> lives d1" using lives_entry(2) [OF d(1)] Cons.prems(2) p by auto
  moreover have "lives d2 = lives d1"
    using d(2) by (auto simp: record_previous_def lives_entry(3) split: option.splits)
  ultimately show ?case using Cons.IH [OF d(3)] Cons.prems(2) p by auto
qed simp

lemma lives_merge:
  assumes "mergeEntries other d = Inr d'" and "delta_ok m other"
  shows "(lives d - set (mDelete other)) \<union> lives other \<subseteq> lives d'"
proof -
  obtain d1 d2 where d: "merge_deletes other (mDelete other) d = Inr d1" "merge_news (mNew other) d1 = Inr d2"
    "merge_mods other (mMod other) d2 = Inr d'"
    using assms(1) by (auto simp: mergeEntries_def delta_checkState_def result_simps split: if_splits)
  have wf: "map_wf (mNew other)" "map_wf (mMod other)" "keyed (map_of (mNew other))" "keyed (map_of (mMod other))"
    using assms(2) by (simp_all add: delta_ok_def)
  have "LedgerEntryKey e = k" if "(k, e) \<in> set (mNew other) \<or> (k, e) \<in> set (mMod other)" for k e
    using that wf map_of_is_SomeI [OF map_wf_distinct [OF wf(1)], of k e] map_of_is_SomeI [OF map_wf_distinct [OF wf(2)], of k e]
    by (auto simp: keyed_def)
  note key = this
  have l1: "lives d - set (mDelete other) \<subseteq> lives d1" by (rule lives_merge_deletes [OF d(1)])
  have l2: "lives d1 \<union> fst ` set (mNew other) \<subseteq> lives d2"
    by (rule lives_merge_news [OF d(2)]) (rule key, erule disjI1)
  have l3: "lives d2 \<union> fst ` set (mMod other) \<subseteq> lives d'"
    by (rule lives_merge_mods [OF d(3)]) (rule key, erule disjI2)
  have l4: "lives other = fst ` set (mNew other) \<union> fst ` set (mMod other)"
    by (simp add: lives_def dom_map_of_conv_image_fst)
  have "(A - D) \<union> O' \<subseteq> E"
    if "A - D \<subseteq> B" "B \<union> N \<subseteq> C" "C \<union> M \<subseteq> E" "O' = N \<union> M" for A B C D E M N O' :: "LedgerKey set"
    using that by blast
  from this [OF l1 l2 l3 l4] show ?thesis .
qed

text \<open>Committing an inner delta leaves a session of the outer one, tracked if both were.\<close>

lemma commit_law:
  assumes outer: "tracks tr base d L0" and inner: "sess_ok tr' L0 (t, db)"
    and com: "commit_nested t d = Inr (t', d')"
  shows "sess_ok (tr \<and> tr') base (d', db)" and "hdr (d', db) = hdr (t, db)"
proof -
  let ?m = "delta_apply d base"
  obtain d1 where m: "mergeEntries t d = Inr d1" and d': "d' = d1\<lparr>mCurrentHeader := mCurrentHeader t\<rparr>"
    using com by (auto simp: commit_nested_def delta_checkState_def result_simps split: if_splits)
  have o: "delta_ok base d" "mActive d" "\<And>k. (L0 k = None) = (?m k = None)"
    "\<And>k. tr \<or> k \<notin> lives d \<Longrightarrow> L0 k = ?m k"
    using outer by (auto simp: tracks_def)
  have i: "db_ok db" "cache_ok db" "delta_ok L0 t" "\<And>k. (db_ledger db k = None) = (delta_apply t L0 k = None)"
    "\<And>k. tr' \<or> k \<notin> lives t \<Longrightarrow> db_ledger db k = delta_apply t L0 k"
    using inner by (auto simp: sess_ok_def)
  have "delta_ok ?m t" using i(3) o(3) by (simp add: delta_ok_def)
  from mergeEntries_step [OF o(1,2) this] m
  have d1: "delta_ok base d1" "mActive d1" "delta_apply d1 base = delta_apply t ?m" by auto
  have l: "(lives d - set (mDelete t)) \<union> lives t \<subseteq> lives d1" by (rule lives_merge [OF m i(3)])
  have t: "delta_apply t L0 k = (if k \<in> lives t then delta_apply t ?m k else if k \<in> set (mDelete t) then None else L0 k)"
    "delta_apply t ?m k = (if k \<in> lives t then delta_apply t ?m k else if k \<in> set (mDelete t) then None else ?m k)"
    "k \<in> lives t \<Longrightarrow> delta_apply t ?m k \<noteq> None" for k
    using i(3) by (auto simp: delta_apply_def lives_def delta_ok_def split: option.splits)
  have "(db_ledger db k = None) = (delta_apply t ?m k = None)" for k
    using i(4) [of k] o(3) [of k] t(1) [of k] t(2) [of k] by (auto split: if_splits)
  moreover have "db_ledger db k = delta_apply t ?m k" if "tr \<and> tr' \<or> k \<notin> lives d1" for k
  proof (cases "tr \<and> tr'")
    case True
    then have "L0 = ?m" using o(4) by blast
    then show ?thesis using True i(5) [of k] by simp
  next
    case False
    with that l have "k \<notin> lives t" "k \<notin> lives d \<or> k \<in> set (mDelete t)" by auto
    then show ?thesis using i(5) [of k] o(4) [of k] t(1,2) [of k] by auto
  qed
  ultimately show "sess_ok (tr \<and> tr') base (d', db)" using i d1 by (simp add: sess_ok_def d' lives_def)
  show "hdr (d', db) = hdr (t, db)" by (simp add: hdr_def d')
qed

end
