(* ===== verification/Ledger_Totals.thy ===== *)
theory Ledger_Totals
  imports Session_Laws
begin

text \<open>
  What the operations must keep of a ledger as a whole: the sum of the native balances, and that the
  number of sub-entries an account states is the number of its signers, trust lines, offers and data
  entries (\<open>invariant/TotalCoinsEqualsBalancesPlusFeePool.cpp\<close> and
  \<open>ChangedAccountsSubentriesCountIsValid.cpp\<close> check these on a running node).
\<close>

definition native_of :: "LedgerEntry option \<Rightarrow> int" where
  "native_of e =
     (case e of
        Some e \<Rightarrow> (case le_data e of ACCOUNT a \<Rightarrow> acc_balance a | _ \<Rightarrow> 0)
      | None \<Rightarrow> 0)"

definition native :: "ledger \<Rightarrow> int" where
  "native L = (\<Sum>k \<in> dom L. native_of (L k))"

fun key_owner :: "LedgerKey \<Rightarrow> AccountID" where
  "key_owner (AccountKey i) = i"
| "key_owner (TrustLineKey i _) = i"
| "key_owner (OfferKey i _) = i"
| "key_owner (DataKey i _) = i"

fun is_account_key :: "LedgerKey \<Rightarrow> bool" where
  "is_account_key (AccountKey _) = True"
| "is_account_key _ = False"

definition owned :: "ledger \<Rightarrow> AccountID \<Rightarrow> LedgerKey set" where
  "owned L i = {k \<in> dom L. \<not> is_account_key k \<and> key_owner k = i}"

definition surplus :: "ledger \<Rightarrow> AccountID \<Rightarrow> int" where
  "surplus L i =
     (case account_at L i of
        Some a \<Rightarrow> uint (acc_numSubEntries a) - int (length (acc_signers a))
      | None \<Rightarrow> 0) - int (card (owned L i))"

definition counted :: "ledger \<Rightarrow> bool" where
  "counted L \<longleftrightarrow> (\<forall>i. surplus L i = 0)"

section \<open>Updates\<close>

lemma native_of_simps [simp]:
  "native_of None = 0"
  "native_of (Some (account_entry f)) = acc_balance (af_account f)"
  "native_of (Some (trust_entry t)) = 0"
  "native_of (Some (offer_entry q)) = 0"
  "native_of (Some (data_entry u)) = 0"
  by (simp_all add: native_of_def account_entry_def trust_entry_def offer_entry_def data_entry_def)

lemma native_upd:
  assumes "finite (dom L)"
  shows "native (L(k := e)) = native L - native_of (L k) + native_of e"
proof -
  let ?S = "dom L - {k}"
  have rest: "(\<Sum>j \<in> ?S. native_of ((L(k := e)) j)) = (\<Sum>j \<in> ?S. native_of (L j))"
    by (rule sum.cong) auto
  have old: "native L = (\<Sum>j \<in> ?S. native_of (L j)) + native_of (L k)"
    using assms by (cases "k \<in> dom L") (auto simp: native_def sum.remove [of "dom L" k] domIff)
  have "native (L(k := e)) = (\<Sum>j \<in> ?S. native_of ((L(k := e)) j)) + native_of e"
  proof (cases e)
    case None
    then show ?thesis by (simp add: native_def)
  next
    case (Some x)
    then have d: "dom (L(k := e)) = insert k ?S" by auto
    have "(\<Sum>j \<in> insert k ?S. native_of ((L(k := e)) j)) = native_of ((L(k := e)) k) + (\<Sum>j \<in> ?S. native_of ((L(k := e)) j))"
      using assms by (intro sum.insert) auto
    then show ?thesis unfolding native_def d by simp
  qed
  with rest old show ?thesis by simp
qed

lemma owned_upd:
  "owned (L(k := e)) i =
     (if \<not> is_account_key k \<and> key_owner k = i then (if e = None then owned L i - {k} else insert k (owned L i))
      else owned L i)"
  by (auto simp: owned_def)

lemma finite_owned: "finite (dom L) \<Longrightarrow> finite (owned L i)"
  by (rule finite_subset [of _ "dom L"]) (auto simp: owned_def)

lemma account_at_upd:
  "account_at (L(k := e)) i = (if k = AccountKey i then (case e of Some e \<Rightarrow> (case le_data e of ACCOUNT a \<Rightarrow> Some a | _ \<Rightarrow> None) | None \<Rightarrow> None)
     else account_at L i)"
  by (auto simp: account_at_def)

lemma account_at_upd_account [simp]:
  "account_at (L(AccountKey i \<mapsto> account_entry f)) j = (if i = j then Some (af_account f) else account_at L j)"
  by (simp add: account_at_upd account_entry_def)

lemma account_at_upd_other [simp]: "\<not> is_account_key k \<Longrightarrow> account_at (L(k := e)) j = account_at L j"
  by (auto simp: account_at_upd)

lemma surplus_account [simp]:
  "surplus (L(AccountKey i \<mapsto> account_entry f)) j =
     (if i = j then uint (acc_numSubEntries (af_account f)) - int (length (acc_signers (af_account f))) - int (card (owned L i))
      else surplus L j)"
  by (auto simp: surplus_def owned_upd)

lemma surplus_no_account:
  "surplus (L(AccountKey i := None)) j = (if i = j then - int (card (owned L i)) else surplus L j)"
  by (auto simp: surplus_def owned_upd account_at_upd)

lemma surplus_upd:
  assumes "finite (dom L)" and "\<not> is_account_key k"
  shows "surplus (L(k := e)) j = surplus L j +
    (if key_owner k = j then of_bool (L k \<noteq> None) - of_bool (e \<noteq> None) else 0)"
proof -
  have fin: "finite (owned L j)" using assms(1) by (rule finite_owned)
  have mem: "k \<in> owned L j \<longleftrightarrow> L k \<noteq> None \<and> key_owner k = j"
    using assms(2) by (auto simp: owned_def)
  have "int (card (insert k (owned L j))) = int (card (owned L j)) + of_bool (k \<notin> owned L j)"
    using fin by (simp add: card_insert_if)
  moreover have "int (card (owned L j - {k})) = int (card (owned L j)) - of_bool (k \<in> owned L j)"
  proof (cases "k \<in> owned L j")
    case True
    then have "card (owned L j) > 0" using fin card_gt_0_iff by blast
    with True show ?thesis by (simp add: of_nat_diff)
  qed simp
  ultimately show ?thesis using assms(2) mem by (auto simp: surplus_def owned_upd)
qed

text \<open>What an account states is enough for its signers.\<close>

lemma counted_signers:
  assumes "surplus L i \<ge> 0" and "account_at L i = Some a"
  shows "int (length (acc_signers a)) + int (card (owned L i)) \<le> uint (acc_numSubEntries a)"
  using assms by (simp add: surplus_def)

lemma finite_view: "finite (dom (view s))"
proof -
  let ?db = "snd s"
  let ?A = "AccountKey ` dom (map_of (db_accounts ?db))"
  let ?T = "(\<lambda>k. TrustLineKey (fst k) (snd k)) ` dom (map_of (db_trustlines ?db))"
  let ?F = "(\<lambda>i. OfferKey (off_sellerID (snd (the (map_of (db_offers ?db) i)))) i) ` dom (map_of (db_offers ?db))"
  let ?D = "(\<lambda>k. DataKey (fst k) (snd k)) ` dom (map_of (db_data ?db))"
  have "k \<in> ?A \<union> ?T \<union> ?F \<union> ?D" if mem: "k \<in> dom (view s)" for k
  proof (cases k)
    case (AccountKey i)
    then have "i \<in> dom (map_of (db_accounts ?db))" using mem by (auto simp: view_def db_ledger_def)
    with AccountKey show ?thesis by blast
  next
    case (TrustLineKey i a)
    then have "(i, a) \<in> dom (map_of (db_trustlines ?db))" using mem by (auto simp: view_def db_ledger_def)
    then have "TrustLineKey (fst (i, a)) (snd (i, a)) \<in> ?T" by (rule imageI)
    with TrustLineKey show ?thesis by simp
  next
    case (OfferKey a i)
    then have "i \<in> dom (map_of (db_offers ?db))" "off_sellerID (snd (the (map_of (db_offers ?db) i))) = a"
      using mem by (auto simp: view_offer split: option.splits if_splits)
    with OfferKey show ?thesis by blast
  next
    case (DataKey i n)
    then have "(i, n) \<in> dom (map_of (db_data ?db))" using mem by (auto simp: view_def db_ledger_def)
    then have "DataKey (fst (i, n)) (snd (i, n)) \<in> ?D" by (rule imageI)
    with DataKey show ?thesis by simp
  qed
  then have "dom (view s) \<subseteq> ?A \<union> ?T \<union> ?F \<union> ?D" by blast
  then show ?thesis by (rule finite_subset) (simp add: finite_dom_map_of)
qed

end
