(* ===== verification/Offer_Crossing.thy ===== *)
theory Offer_Crossing
  imports Ledger_Totals Offer_Exchange
begin

text \<open>
  Crossing the offers of the book (\<open>transactions/OfferExchange.cpp\<close>, \<open>crossOffer\<close> and
  \<open>convertWithOffers\<close>; \<open>OfferFrame::loadBestOffers\<close>).

  The header of the ledger that is being closed, which the code reads through the \<open>LedgerManager\<close>, is
  the argument \<open>lm\<close>. What a filter tells its client when it stops the conversion (the code sets the
  result of the operation) is the argument of \<open>eStop\<close>. The loop over the book runs with fuel; one turn
  more than there are offers is enough.
\<close>

section \<open>The book\<close>

text \<open>\<open>computePrice\<close>: the quotient of two positive 32-bit integers in double precision, as exponent and
  53-bit significand, rounded to nearest, ties to even. Such pairs compare as the numbers do.\<close>

fun bit_length :: "nat \<Rightarrow> nat" where
  "bit_length n = (if n = 0 then 0 else Suc (bit_length (n div 2)))"

declare bit_length.simps [simp del]

definition computePrice :: "Price \<Rightarrow> int \<times> int" where
  "computePrice p =
     (let n = price_n p; d = price_d p;
          k0 = 53 + bit_length (nat d) - bit_length (nat n);
          k = (if n * 2 ^ k0 div d \<ge> 2 ^ 53 then k0 - 1 else k0);
          q = n * 2 ^ k div d; r = n * 2 ^ k mod d;
          m = (if 2 * r > d \<or> 2 * r = d \<and> odd q then q + 1 else q)
      in if m = 2 ^ 53 then (1 - int k, 2 ^ 52) else (- int k, m))"

text \<open>The rows with the two assets, by price and, at the same price, by age. Codes and issuers are
  compared, which for valid assets is to compare the assets.\<close>

definition book :: "Asset \<Rightarrow> Asset \<Rightarrow> Database \<Rightarrow> (uint32 \<times> OfferEntry) list" where
  "book selling buying db =
     sort_key (\<lambda>r. (computePrice (off_price (snd r)), off_offerID (snd r)))
       (filter (\<lambda>r. off_selling (snd r) = selling \<and> off_buying (snd r) = buying) (map snd (db_offers db)))"

definition loadBestOffers :: "nat \<Rightarrow> nat \<Rightarrow> Asset \<Rightarrow> Asset \<Rightarrow> Database \<Rightarrow> OfferFrame list result" where
  "loadBestOffers numOffers offset selling buying db =
     loadOffers (take numOffers (drop offset (book selling buying db)))"

section \<open>Crossing an offer\<close>

datatype CrossOfferResult = eOfferPartial | eOfferTaken | eOfferCantConvert

record ClaimOfferAtom =
  coa_sellerID :: AccountID
  coa_offerID :: uint64
  coa_assetSold :: Asset
  coa_amountSold :: int
  coa_assetBought :: Asset
  coa_amountBought :: int

definition canBuyAtMost :: "Asset \<Rightarrow> TrustFrame option \<Rightarrow> Price \<Rightarrow> int result" where
  "canBuyAtMost asset trustLine price =
     (if asset = Native then Inr INT64_MAX
      else
        let sellerMaxSheep = (case trustLine of Some t \<Rightarrow> getMaxAmountReceive t | None \<Rightarrow> 0)
        in bindE (bigDivide_i64 0 sellerMaxSheep (price_d price) (price_n price) ROUND_DOWN) (\<lambda>(r, ok).
             Inr (if ok then r else INT64_MAX)))"

definition canSellAtMost :: "LedgerHeader \<Rightarrow> AccountFrame \<Rightarrow> Asset \<Rightarrow> TrustFrame option \<Rightarrow> int result" where
  "canSellAtMost lm account asset trustLine =
     (if asset = Native then Inr (getBalanceAboveReserve lm account)
      else case trustLine of
          Some t \<Rightarrow> if isAuthorized t then trust_getBalance t else Inr 0
        | None \<Rightarrow> Inr 0)"

text \<open>One of the two adjustments of balances: whether it succeeded, and the frame of the account.\<close>

definition adjustBalance ::
  "Asset \<Rightarrow> int \<Rightarrow> AccountFrame \<Rightarrow> TrustFrame option \<Rightarrow> session \<Rightarrow> (bool \<times> AccountFrame \<times> session) result" where
  "adjustBalance asset delta accountB line s =
     (if delta = 0 then Inr (True, accountB, s)
      else if asset = Native
      then bindE (account_addBalance delta accountB) (\<lambda>(accountB, ok).
        if \<not> ok then Inr (False, accountB, s)
        else bindE (account_storeChange accountB s) (\<lambda>(accountB, s). Inr (True, accountB, s)))
      else deref line (\<lambda>line. bindE (trust_addBalance delta line) (\<lambda>(line, ok).
        if \<not> ok then Inr (False, accountB, s)
        else bindE (trust_storeChange line s) (\<lambda>(line, s). Inr (True, accountB, s)))))"

text \<open>The offer is deleted, and no longer counts as a sub-entry, or reduced.\<close>

definition takeOffer ::
  "LedgerHeader \<Rightarrow> bool \<Rightarrow> OfferFrame \<Rightarrow> int \<Rightarrow> AccountFrame \<Rightarrow> session \<Rightarrow> (AccountFrame \<times> session) result" where
  "takeOffer lm offerTaken f rest accountB s =
     (if offerTaken
      then bindE (offer_storeDelete (off_sellerID (of_offer f)) (off_offerID (of_offer f)) s) (\<lambda>s.
        bindE (addNumEntries (- 1) lm accountB) (\<lambda>(accountB, _).
        account_storeChange accountB s))
      else bindE (offer_storeChange (f\<lparr>of_offer := (of_offer f)\<lparr>off_amount := rest\<rparr>\<rparr>) s) (\<lambda>(f, s).
        Inr (accountB, s)))"

record crossed =
  cr_result :: CrossOfferResult
  cr_wheat :: int
  cr_sheep :: int
  cr_trail :: "ClaimOfferAtom list"

text \<open>The second half of \<open>crossOffer\<close>, when the exchange \<open>r\<close> of up to \<open>n\<close> wheat is known.\<close>

definition settleOffer ::
  "LedgerHeader \<Rightarrow> OfferFrame \<Rightarrow> int \<Rightarrow> ExchangeResult \<Rightarrow> AccountFrame \<Rightarrow> TrustFrame option \<Rightarrow> TrustFrame option \<Rightarrow>
    session \<Rightarrow> (crossed \<times> session) result" where
  "settleOffer lm f n r accountB wheatLine sheepLine s =
     (let sheep = off_buying (of_offer f); wheat = off_selling (of_offer f) in
      if exchangeResultType r = REDUCED_TO_ZERO
      then Inr (\<lparr>cr_result = eOfferCantConvert, cr_wheat = numWheatReceived r,
                cr_sheep = numSheepSend r, cr_trail = []\<rparr>, s)
      else
        let bogus = (exchangeResultType r = BOGUS);
            w = (if bogus then 0 else numWheatReceived r);
            sh = (if bogus then 0 else numSheepSend r);
            offerTaken = (bogus \<or> n \<le> w);
            cant = \<lparr>cr_result = eOfferCantConvert, cr_wheat = w, cr_sheep = sh, cr_trail = []\<rparr> in
        bindE (takeOffer lm offerTaken f (n - w) accountB s) (\<lambda>(accountB, s).
        bindE (adjustBalance sheep sh accountB sheepLine s) (\<lambda>(ok, accountB, s).
        if \<not> ok then Inr (cant, s)
        else bindE (adjustBalance wheat (- w) accountB wheatLine s) (\<lambda>(ok, accountB, s).
        if \<not> ok then Inr (cant, s)
        else Inr (\<lparr>cr_result = (if offerTaken then eOfferTaken else eOfferPartial),
                  cr_wheat = w, cr_sheep = sh,
                  cr_trail = [\<lparr>coa_sellerID = acc_accountID (af_account accountB),
                              coa_offerID = off_offerID (of_offer f), coa_assetSold = wheat,
                              coa_amountSold = w, coa_assetBought = sheep, coa_amountBought = sh\<rparr>]\<rparr>, s)))))"

definition crossOffer ::
  "LedgerHeader \<Rightarrow> OfferFrame \<Rightarrow> int \<Rightarrow> int \<Rightarrow> session \<Rightarrow> (crossed \<times> session) result" where
  "crossOffer lm f maxWheatReceived maxSheepSend s =
     dbgAssert (maxWheatReceived > 0) (dbgAssert (maxSheepSend > 0)
       (bindE (recordEntry (offer_entry f) (fst s)) (\<lambda>d.
        let sheep = off_buying (of_offer f); wheat = off_selling (of_offer f);
            accountBID = off_sellerID (of_offer f); price = off_price (of_offer f) in
        bindE (loadAccount accountBID (d, snd s)) (\<lambda>(accountB, s).
        case accountB of
          None \<Rightarrow> Inl (RuntimeError ''invalid database state: offer must have matching account'')
        | Some accountB \<Rightarrow>
        bindE (if wheat \<noteq> Native then loadTrustLine accountBID wheat s else Inr (None, s)) (\<lambda>(wheatLine, s).
        bindE (if sheep \<noteq> Native then loadTrustLine accountBID sheep s else Inr (None, s)) (\<lambda>(sheepLine, s).
        bindE (canBuyAtMost sheep sheepLine price) (\<lambda>buy.
        bindE (canSellAtMost lm accountB wheat wheatLine) (\<lambda>sell.
        let n = min buy (min sell (off_amount (of_offer f))) in
        dbgAssert (n \<ge> 0)
          (bindE (if ledgerVersion lm < 3 then exchangeV2 n price maxWheatReceived maxSheepSend
                  else exchangeV3 n price maxWheatReceived maxSheepSend) (\<lambda>r.
           settleOffer lm f n r accountB wheatLine sheepLine s))))))))))"

section \<open>Converting with the book\<close>

datatype 'c OfferFilterResult = eKeep | eStop 'c | eSkip

datatype 'c ConvertResult = eOK | ePartial | eFilterStop 'c

record convert_state =
  cv_sheepSend :: int
  cv_wheatReceived :: int
  cv_maxSheepSend :: int
  cv_maxWheatReceive :: int
  cv_offset :: nat
  cv_trail :: "ClaimOfferAtom list"

text \<open>The loop over the offers of one query; \<^term>\<open>None\<close> if it ran to the end.\<close>

fun convert_list ::
  "LedgerHeader \<Rightarrow> (OfferFrame \<Rightarrow> 'c OfferFilterResult) \<Rightarrow> OfferFrame list \<Rightarrow> convert_state \<Rightarrow> session \<Rightarrow>
    ('c ConvertResult option \<times> convert_state \<times> session) result" where
  "convert_list lm flt [] v s = Inr (None, v, s)"
| "convert_list lm flt (wheatOffer # rest) v s =
     (case flt wheatOffer of
        eStop c \<Rightarrow> Inr (Some (eFilterStop c), v, s)
      | eSkip \<Rightarrow> convert_list lm flt rest v s
      | eKeep \<Rightarrow>
          bindE (crossOffer lm wheatOffer (cv_maxWheatReceive v) (cv_maxSheepSend v) s) (\<lambda>(r, s).
          let v' = v\<lparr>cv_trail := cv_trail v @ cr_trail r\<rparr> in
          dbgAssert (0 \<le> cr_sheep r \<and> cr_sheep r \<le> cv_maxSheepSend v
                     \<and> 0 \<le> cr_wheat r \<and> cr_wheat r \<le> cv_maxWheatReceive v)
            (if cr_result r = eOfferCantConvert then Inr (Some ePartial, v', s)
             else
               dbgAssert (cr_result r = eOfferTaken \<longrightarrow> cv_offset v > 0)
                 (let v' = v'\<lparr>cv_offset := cv_offset v - (if cr_result r = eOfferTaken then 1 else 0),
                              cv_sheepSend := cv_sheepSend v + cr_sheep r,
                              cv_maxSheepSend := cv_maxSheepSend v - cr_sheep r,
                              cv_wheatReceived := cv_wheatReceived v + cr_wheat r,
                              cv_maxWheatReceive := cv_maxWheatReceive v - cr_wheat r\<rparr>
                  in if \<not> (cv_maxWheatReceive v' > 0 \<and> cv_maxSheepSend v' > 0) then Inr (Some eOK, v', s)
                     else if cr_result r = eOfferPartial then Inr (Some ePartial, v', s)
                     else convert_list lm flt rest v' s))))"

fun convert_loop ::
  "nat \<Rightarrow> LedgerHeader \<Rightarrow> (OfferFrame \<Rightarrow> 'c OfferFilterResult) \<Rightarrow> Asset \<Rightarrow> Asset \<Rightarrow> convert_state \<Rightarrow> session \<Rightarrow>
    ('c ConvertResult \<times> convert_state \<times> session) result" where
  "convert_loop 0 lm flt sheep wheat v s = Inl OutOfFuel"
| "convert_loop (Suc fuel) lm flt sheep wheat v s =
     bindE (loadBestOffers 5 (cv_offset v) wheat sheep (snd s)) (\<lambda>retList.
     bindE (convert_list lm flt retList (v\<lparr>cv_offset := cv_offset v + length retList\<rparr>) s) (\<lambda>(r, v, s).
     case r of
       Some r \<Rightarrow> Inr (r, v, s)
     | None \<Rightarrow>
         if length retList < 5 then Inr (eOK, v, s)
         else convert_loop fuel lm flt sheep wheat v s))"

definition convertWithOffers ::
  "LedgerHeader \<Rightarrow> Asset \<Rightarrow> int \<Rightarrow> Asset \<Rightarrow> int \<Rightarrow> (OfferFrame \<Rightarrow> 'c OfferFilterResult) \<Rightarrow> session \<Rightarrow>
    ('c ConvertResult \<times> convert_state \<times> session) result" where
  "convertWithOffers lm sheep maxSheepSend wheat maxWheatReceive flt s =
     (let v = \<lparr>cv_sheepSend = 0, cv_wheatReceived = 0, cv_maxSheepSend = maxSheepSend,
               cv_maxWheatReceive = maxWheatReceive, cv_offset = 0, cv_trail = []\<rparr>
      in if maxWheatReceive > 0 \<and> maxSheepSend > 0
         then convert_loop (Suc (length (db_offers (snd s)))) lm flt sheep wheat v s
         else Inr (eOK, v, s))"

end
