(* ===== verification/Crossing_Laws.thy ===== *)
theory Crossing_Laws
  imports Offer_Crossing
begin

text \<open>
  What crossing offers does to the ledger: the balances move by the amounts reported, the counts of
  sub-entries stay right, only entries of the sellers change, and the loop over the book ends.
\<close>

section \<open>Frames at hand\<close>

text \<open>A frame that holds what the ledger has for its account.\<close>

definition current :: "ledger \<Rightarrow> AccountFrame \<Rightarrow> bool" where
  "current L f \<longleftrightarrow> account_at L (acc_accountID (af_account f)) = Some (af_account f)"

definition signers_fit :: "AccountFrame \<Rightarrow> bool" where
  "signers_fit f \<longleftrightarrow> int (length (acc_signers (af_account f))) \<le> uint (acc_numSubEntries (af_account f))"

lemma signers_fit_sub: "signers_fit f \<Longrightarrow> acc_numSubEntries (af_account f) = 0 \<Longrightarrow> acc_signers (af_account f) = []"
  by (simp add: signers_fit_def)

lemma account_addBalance_Inr:
  assumes "account_addBalance delta f = Inr (f', ok)"
  shows "if ok then f' = set_balance (acc_balance (af_account f) + delta) f else f' = f"
  using assms by (auto simp: account_addBalance_def addBalance_def result_simps set_balance_def split: if_splits)

lemma set_balance_simps [simp]:
  "af_account (set_balance b f) = (af_account f)\<lparr>acc_balance := b\<rparr>"
  "mUpdateSigners (set_balance b f) = mUpdateSigners f"
  "signers_fit (set_balance b f) = signers_fit f"
  by (simp_all add: set_balance_def signers_fit_def)

text \<open>Storing a frame whose signers are those of the ledger.\<close>

lemma account_change_law:
  assumes st: "account_storeChange f s = Inr (f', s')" and ok: "sess_ok tr base s" and fit: "signers_fit f"
    and a: "account_at (view s) (acc_accountID (af_account f)) = Some a" and sg: "acc_signers a = acc_signers (af_account f)"
  shows "sess_ok tr base s'" and "view s' = (view s)(AccountKey (acc_accountID (af_account f)) \<mapsto> account_entry f')"
    and "hdr s' = hdr s" and "af_account f' = af_account f" and "current (view s') f'" and "signers_fit f'"
    and "native (view s') = native (view s) - acc_balance a + acc_balance (af_account f)"
    and "surplus (view s') j = surplus (view s) j
      + (if j = acc_accountID (af_account f) then uint (acc_numSubEntries (af_account f)) - uint (acc_numSubEntries a) else 0)"
proof -
  have sync: "mUpdateSigners f \<or> map_option acc_signers (account_at (view s) (acc_accountID (af_account f))) = Some (acc_signers (af_account f))"
    using a sg by simp
  note st' = account_store_law [OF st ok signers_fit_sub [OF fit] sync]
  show 1: "sess_ok tr base s'" "view s' = (view s)(AccountKey (acc_accountID (af_account f)) \<mapsto> account_entry f')"
    "hdr s' = hdr s" "af_account f' = af_account f" using st'(1-4) by simp_all
  show "current (view s') f'" "signers_fit f'"
    using 1(2,4) fit by (simp_all add: current_def signers_fit_def)
  have "native_of (view s (AccountKey (acc_accountID (af_account f)))) = acc_balance a"
    using a by (auto simp: account_at_def native_of_def split: option.splits LedgerEntryData.splits)
  then show "native (view s') = native (view s) - acc_balance a + acc_balance (af_account f)"
    unfolding 1(2) by (simp add: native_upd [OF finite_view] 1(4))
  show "surplus (view s') j = surplus (view s) j
      + (if j = acc_accountID (af_account f) then uint (acc_numSubEntries (af_account f)) - uint (acc_numSubEntries a) else 0)"
    unfolding 1(2) using a sg 1(4) by (auto simp: surplus_def [of "view s"])
qed

lemma trust_change_law:
  assumes st: "trust_storeChange t s = Inr (t', s')" and ok: "sess_ok tr base s"
  shows "sess_ok tr base s'" and "hdr s' = hdr s" and "tf_trustLine t' = tf_trustLine t" and "mIsIssuer t' = mIsIssuer t"
    and "native (view s') = native (view s)" and "surplus (view s') = surplus (view s)"
    and "account_at (view s') = account_at (view s)"
    and "k \<noteq> TrustLineKey (tl_accountID (tf_trustLine t)) (tl_asset (tf_trustLine t)) \<Longrightarrow> view s' k = view s k"
    and "dom (view s') = dom (view s)"
proof -
  let ?k = "TrustLineKey (tl_accountID (tf_trustLine t)) (tl_asset (tf_trustLine t))"
  note st' = trust_store_law [OF st ok]
  show "sess_ok tr base s'" "hdr s' = hdr s" "tf_trustLine t' = tf_trustLine t" "mIsIssuer t' = mIsIssuer t" using st'(1-5) by simp_all
  have v: "view s' = view s \<or> view s' = (view s)(?k \<mapsto> trust_entry t') \<and> view s ?k \<noteq> None"
    using st'(6,7) by (cases "mIsIssuer t") auto
  have "native_of (view s ?k) = 0"
  proof (cases "view s ?k")
    case (Some e)
    have "keyed (view s)" using ok db_ledger_keyed [of "snd s"] unfolding view_def sess_ok_def by blast
    with Some have "LedgerEntryKey e = ?k" by (simp add: keyed_def)
    then show ?thesis using Some by (auto simp: LedgerEntryKey_def native_of_def split: LedgerEntryData.splits)
  qed simp
  then show "native (view s') = native (view s)" using v by (auto simp: native_upd [OF finite_view])
  show "surplus (view s') = surplus (view s)"
    by (rule ext) (use v in \<open>auto simp: surplus_upd [OF finite_view]\<close>)
  show "account_at (view s') = account_at (view s)" by (rule ext) (use v in auto)
  show "view s' k = view s k" if "k \<noteq> ?k" using v that by auto
  show "dom (view s') = dom (view s)" using v by (auto split: if_splits)
qed

section \<open>The parts of a crossing\<close>

lemma addNumEntries_Inr:
  assumes "addNumEntries c lm f = Inr (f', ok)"
  shows "if ok then f' = f\<lparr>af_account := (af_account f)\<lparr>acc_numSubEntries := acc_numSubEntries (af_account f) + word_of_int c\<rparr>\<rparr>
      \<and> 0 \<le> sint (acc_numSubEntries (af_account f) + word_of_int c)
    else f' = f"
  using assms by (auto simp: addNumEntries_def Let_def split: if_splits)

lemma adjustBalance_law:
  assumes adj: "adjustBalance a delta f line s = Inr (ok, f', s')" and sok: "sess_ok tr base s"
    and cur: "current (view s) f" and fit: "signers_fit f"
    and line: "\<And>t. line = Some t \<Longrightarrow> trust_key t = (acc_accountID (af_account f), a)"
  shows "sess_ok tr base s'" and "hdr s' = hdr s" and "surplus (view s') = surplus (view s)"
    and "native (view s') = native (view s) + (if ok \<and> a = Native then delta else 0)"
    and "current (view s') f'" and "signers_fit f'" and "acc_accountID (af_account f') = acc_accountID (af_account f)"
    and "k \<noteq> AccountKey (acc_accountID (af_account f)) \<Longrightarrow> k \<noteq> TrustLineKey (acc_accountID (af_account f)) a \<Longrightarrow>
      view s' k = view s k"
proof -
  let ?i = "acc_accountID (af_account f)"
  have "sess_ok tr base s' \<and> hdr s' = hdr s \<and> surplus (view s') = surplus (view s)
    \<and> native (view s') = native (view s) + (if ok \<and> a = Native then delta else 0)
    \<and> current (view s') f' \<and> signers_fit f' \<and> acc_accountID (af_account f') = ?i
    \<and> (\<forall>k. k \<noteq> AccountKey ?i \<longrightarrow> k \<noteq> TrustLineKey ?i a \<longrightarrow> view s' k = view s k)"
  proof (cases "delta = 0")
    case True
    then show ?thesis using adj sok cur fit by (simp add: adjustBalance_def)
  next
    case nz: False
    show ?thesis
    proof (cases "a = Native")
      case True
      then obtain f1 ok1 where add: "account_addBalance delta f = Inr (f1, ok1)"
        using adj nz by (auto simp: adjustBalance_def result_simps)
      show ?thesis
      proof (cases ok1)
        case False
        then show ?thesis
          using adj nz True add account_addBalance_Inr [OF add] sok cur fit by (simp add: adjustBalance_def)
      next
        case ok1: True
        then have f1: "f1 = set_balance (acc_balance (af_account f) + delta) f"
          using account_addBalance_Inr [OF add] by simp
        obtain st: "account_storeChange f1 s = Inr (f', s')" and ok: "ok"
          using adj nz True add ok1 by (auto simp: adjustBalance_def result_simps)
        have "account_at (view s) (acc_accountID (af_account f1)) = Some (af_account f)"
          using cur by (simp add: f1 current_def)
        note l = account_change_law [OF st sok _ this]
        from l show ?thesis using fit True ok f1 by (auto simp: fun_eq_iff)
      qed
    next
      case nn: False
      then obtain t t1 ok1 where t: "line = Some t" and add: "trust_addBalance delta t = Inr (t1, ok1)"
        using adj nz by (auto simp: adjustBalance_def result_simps)
      show ?thesis
      proof (cases ok1)
        case False
        then show ?thesis using adj nz nn t add sok cur fit by (simp add: adjustBalance_def)
      next
        case ok1: True
        then obtain t' where st: "trust_storeChange t1 s = Inr (t', s')" and f': "f' = f" "ok"
          using adj nz nn t add by (auto simp: adjustBalance_def result_simps)
        have "trust_key t1 = trust_key t"
          using add by (auto simp: trust_addBalance_def trust_key_def result_simps split: if_splits)
        then have k: "tl_accountID (tf_trustLine t1) = ?i" "tl_asset (tf_trustLine t1) = a"
          using line [OF t] by (simp_all add: trust_key_def)
        note l = trust_change_law [OF st sok]
        show ?thesis using l k f' nn cur fit by (auto simp: current_def)
      qed
    qed
  qed
  then show "sess_ok tr base s'" "hdr s' = hdr s" "surplus (view s') = surplus (view s)"
    "native (view s') = native (view s) + (if ok \<and> a = Native then delta else 0)"
    "current (view s') f'" "signers_fit f'" "acc_accountID (af_account f') = ?i"
    "k \<noteq> AccountKey ?i \<Longrightarrow> k \<noteq> TrustLineKey ?i a \<Longrightarrow> view s' k = view s k"
    by blast+
qed

lemma adjustBalance_touched:
  assumes adj: "adjustBalance a delta f line s = Inr (ok, f', s')"
    and line: "\<And>t. line = Some t \<Longrightarrow> trust_key t = (acc_accountID (af_account f), a)"
  shows "touched (fst s') \<subseteq> touched (fst s) \<union> {AccountKey (acc_accountID (af_account f)), TrustLineKey (acc_accountID (af_account f)) a}"
proof -
  consider "s' = s" | f1 ok1 where "account_addBalance delta f = Inr (f1, ok1)" "account_storeChange f1 s = Inr (f', s')"
    | t t1 ok1 t' where "line = Some t" "trust_addBalance delta t = Inr (t1, ok1)" "trust_storeChange t1 s = Inr (t', s')"
    using adj by (auto simp: adjustBalance_def result_simps split: if_splits)
  then show ?thesis
  proof cases
    case 2
    have "acc_accountID (af_account f1) = acc_accountID (af_account f)"
      using account_addBalance_Inr [OF 2(1)] by (auto split: if_splits)
    with touched_account [OF 2(2)] show ?thesis by auto
  next
    case 3
    have "trust_key t1 = trust_key t"
      using 3(2) by (auto simp: trust_addBalance_def trust_key_def result_simps split: if_splits)
    with touched_trust [OF 3(3)] line [OF 3(1)] show ?thesis by (auto simp: trust_key_def)
  qed auto
qed

lemma takeOffer_touched:
  assumes "takeOffer lm taken f rest acc s = Inr (acc', s')"
  shows "touched (fst s') \<subseteq> touched (fst s)
    \<union> {AccountKey (acc_accountID (af_account acc)), OfferKey (off_sellerID (of_offer f)) (off_offerID (of_offer f))}"
proof (cases taken)
  case True
  then obtain s1 acc1 ok where "offer_storeDelete (off_sellerID (of_offer f)) (off_offerID (of_offer f)) s = Inr s1"
    "addNumEntries (- 1) lm acc = Inr (acc1, ok)" "account_storeChange acc1 s1 = Inr (acc', s')"
    using assms by (auto simp: takeOffer_def result_simps)
  then show ?thesis
    using touched_offer_delete [of _ _ s s1] touched_account [of False acc1 s1 acc' s'] addNumEntries_Inr [of "- 1" lm acc acc1 ok]
    by (cases ok) fastforce+
next
  case False
  then obtain f1 where "offer_storeChange (f\<lparr>of_offer := (of_offer f)\<lparr>off_amount := rest\<rparr>\<rparr>) s = Inr (f1, s')"
    using assms by (auto simp: takeOffer_def result_simps)
  from touched_offer [OF this] show ?thesis by auto
qed

lemma uint_pred: "(n :: uint32) \<noteq> 0 \<Longrightarrow> uint (n + word_of_int (- 1)) = uint n - 1"
  using arg_cong [OF unat_pred [of n], of int] by simp

lemma counted_owned:
  assumes "counted L" and "finite (dom L)" and "L k \<noteq> None" and "\<not> is_account_key k" and "account_at L (key_owner k) = Some a"
  shows "int (length (acc_signers a)) + 1 \<le> uint (acc_numSubEntries a)"
proof -
  have "k \<in> owned L (key_owner k)" using assms(3,4) by (auto simp: owned_def)
  then have "card (owned L (key_owner k)) \<ge> 1"
    using finite_owned [OF assms(2)] card_gt_0_iff [of "owned L (key_owner k)"] by (auto simp: Suc_le_eq)
  moreover have "surplus L (key_owner k) = 0" using assms(1) by (simp add: counted_def)
  ultimately show ?thesis using assms(5) by (simp add: surplus_def)
qed

lemma offer_at:
  assumes "sess_ok tr base s" and "view s (OfferKey a i) = Some e"
  shows "native_of (Some e) = 0"
proof -
  have "keyed (view s)" using assms(1) db_ledger_keyed [of "snd s"] unfolding view_def sess_ok_def by blast
  with assms(2) have "LedgerEntryKey e = OfferKey a i" by (simp add: keyed_def)
  then show ?thesis by (auto simp: LedgerEntryKey_def native_of_def split: LedgerEntryData.splits)
qed

text \<open>Removing one of the account's sub-entries and the count of it.\<close>

lemma addNumEntries_down:
  assumes "addNumEntries (- 1) lm f = Inr (f', ok)" and "int (length (acc_signers (af_account f))) + 1 \<le> uint (acc_numSubEntries (af_account f))"
  shows "ok" and "signers_fit f'" and "acc_accountID (af_account f') = acc_accountID (af_account f)"
    and "acc_signers (af_account f') = acc_signers (af_account f)" and "acc_balance (af_account f') = acc_balance (af_account f)"
    and "uint (acc_numSubEntries (af_account f')) = uint (acc_numSubEntries (af_account f)) - 1"
proof -
  show ok: "ok" using assms(1) by (auto simp: addNumEntries_def Let_def split: if_splits)
  have "acc_numSubEntries (af_account f) \<noteq> 0" using assms(2) by auto
  note n = uint_pred [OF this]
  from addNumEntries_Inr [OF assms(1)] ok
  have f': "f' = f\<lparr>af_account := (af_account f)\<lparr>acc_numSubEntries := acc_numSubEntries (af_account f) + word_of_int (- 1)\<rparr>\<rparr>"
    by simp
  show "signers_fit f'" "acc_accountID (af_account f') = acc_accountID (af_account f)"
    "acc_signers (af_account f') = acc_signers (af_account f)" "acc_balance (af_account f') = acc_balance (af_account f)"
    "uint (acc_numSubEntries (af_account f')) = uint (acc_numSubEntries (af_account f)) - 1"
    unfolding f' signers_fit_def using n assms(2) by simp_all
qed

lemma takeOffer_law:
  assumes tk: "takeOffer lm taken f rest acc s = Inr (acc', s')" and sok: "sess_ok tr base s" and cnt: "counted (view s)"
    and cur: "current (view s) acc" and b: "off_sellerID (of_offer f) = acc_accountID (af_account acc)"
    and ex: "view s (OfferKey (acc_accountID (af_account acc)) (off_offerID (of_offer f))) = Some e"
  defines "i \<equiv> acc_accountID (af_account acc)" and "k0 \<equiv> OfferKey (acc_accountID (af_account acc)) (off_offerID (of_offer f))"
  shows "sess_ok tr base s' \<and> hdr s' = hdr s \<and> counted (view s') \<and> native (view s') = native (view s)
    \<and> current (view s') acc' \<and> signers_fit acc' \<and> acc_accountID (af_account acc') = i
    \<and> acc_balance (af_account acc') = acc_balance (af_account acc)
    \<and> (\<forall>k. k \<noteq> AccountKey i \<longrightarrow> k \<noteq> k0 \<longrightarrow> view s' k = view s k) \<and> (taken \<longrightarrow> view s' k0 = None)"
proof -
  have acc: "account_at (view s) (key_owner k0) = Some (af_account acc)" using cur by (simp add: current_def k0_def)
  have own: "int (length (acc_signers (af_account acc))) + 1 \<le> uint (acc_numSubEntries (af_account acc))"
    using counted_owned [OF cnt finite_view _ _ acc] ex by (simp add: k0_def)
  have nat0: "native_of (view s k0) = 0" using offer_at [OF sok ex] ex by (simp add: k0_def)
  show ?thesis
  proof (cases taken)
    case True
    then obtain s1 acc1 ok where del: "offer_storeDelete i (off_offerID (of_offer f)) s = Inr s1"
      and add: "addNumEntries (- 1) lm acc = Inr (acc1, ok)" and st: "account_storeChange acc1 s1 = Inr (acc', s')"
      using tk b by (auto simp: takeOffer_def result_simps i_def)
    have "view s (OfferKey i (off_offerID (of_offer f))) \<noteq> None" using ex by (simp add: i_def)
    note d = offer_delete_law [OF del sok this]
    note a = addNumEntries_down [OF add own]
    have v1: "view s1 = (view s)(k0 := None)" using d(2) by (simp add: k0_def i_def)
    have nk: "\<not> is_account_key k0" "key_owner k0 = i" by (simp_all add: k0_def i_def)
    have cur1: "account_at (view s1) (acc_accountID (af_account acc1)) = Some (af_account acc)"
      using cur a(3) nk(1) by (simp add: v1 current_def)
    note c = account_change_law [OF st d(1) a(2) cur1 a(4) [symmetric]]
    have "surplus (view s') j = 0" for j
      using c(8) [of j] cnt a(3,6) ex nk
      by (auto simp: v1 surplus_upd [OF finite_view] counted_def i_def k0_def)
    moreover have "native (view s') = native (view s)"
      using c(7) a(5) nat0 by (simp add: v1 native_upd [OF finite_view])
    moreover have "view s' k = view s k" if "k \<noteq> AccountKey i" "k \<noteq> k0" for k
      using c(2) a(3) that by (simp add: v1 i_def)
    moreover have "view s' k0 = None" using c(2) by (simp add: v1 k0_def)
    ultimately show ?thesis using c d(3) a(3,5) True by (auto simp: counted_def i_def)
  next
    case False
    let ?f = "f\<lparr>of_offer := (of_offer f)\<lparr>off_amount := rest\<rparr>\<rparr>"
    obtain f1 where st: "offer_storeChange ?f s = Inr (f1, s')" and acc': "acc' = acc"
      using tk False by (auto simp: takeOffer_def result_simps)
    note l = offer_store_law [OF st sok]
    have ex': "view s (OfferKey (off_sellerID (of_offer ?f)) (off_offerID (of_offer ?f))) \<noteq> None" using ex b by simp
    have v: "view s' = (view s)(k0 \<mapsto> offer_entry f1)" using l(5) [OF ex'] b by (simp add: k0_def)
    have nk: "\<not> is_account_key k0" "key_owner k0 = i" "view s k0 \<noteq> None" using ex by (simp_all add: k0_def i_def)
    have "surplus (view s') j = 0" for j
      using cnt nk by (simp add: v surplus_upd [OF finite_view] counted_def)
    moreover have "native (view s') = native (view s)"
      using nat0 by (simp add: v native_upd [OF finite_view])
    moreover have "current (view s') acc" using cur nk(1) by (simp add: v current_def)
    moreover have "signers_fit acc" using own by (simp add: signers_fit_def)
    ultimately show ?thesis using l(1,2) [OF ex'] False acc' v by (auto simp: counted_def i_def)
  qed
qed

section \<open>Crossing an offer\<close>

lemma sint_nonneg_small: "uint (w :: uint64) \<le> INT64_MAX \<Longrightarrow> 0 \<le> sint w"
  using sint_of_int64 [of "uint w"] by simp

lemma exchangeV3_bounds:
  assumes "exchangeV3 n p maxW maxS = Inr er" and "n \<ge> 0" and "maxW > 0"
  shows "0 \<le> numWheatReceived er" and "numWheatReceived er \<le> n"
proof -
  obtain sheep new ok where er: "numWheatReceived er = min (min n maxW) (if ok then new else INT64_MAX)"
    and div: "bigDivide_i64 0 sheep (price_d p) (price_n p) ROUND_DOWN = Inr (new, ok)"
    using assms(1) by (auto simp: exchangeV3_def Let_def result_simps)
  have "0 \<le> new" if "ok"
    using div that by (auto simp: bigDivide_i64_def result_simps sint_nonneg_small split: if_splits)
  then show "0 \<le> numWheatReceived er" "numWheatReceived er \<le> n"
    using assms(2,3) er by (auto simp: INT64_MAX_def)
qed

lemma sold_line_ok:
  assumes sell: "canSellAtMost lm acc a line = Inr sell" and a: "a \<noteq> Native" and w: "0 \<le> w" "w \<le> sell"
    and adj: "adjustBalance a (- w) acc line s = Inr (ok, acc', s')"
  shows "ok"
proof (cases "w = 0")
  case True
  then show ?thesis using adj by (simp add: adjustBalance_def)
next
  case False
  then obtain t where t: "line = Some t" "isAuthorized t" "trust_isValid t" "sell = tl_balance (tf_trustLine t)"
    using sell a w by (auto simp: canSellAtMost_def trust_getBalance_def result_simps split: option.splits if_splits)
  then have "trust_addBalance (- w) t = Inr (t', True)" if "trust_addBalance (- w) t = Inr (t', x)" for t' x
    using that w False
    by (auto simp: trust_addBalance_def addBalance_def trust_isValid_def Let_def split: if_splits)
  then show ?thesis using adj False a t(1) by (auto simp: adjustBalance_def result_simps split: if_splits)
qed

definition cross_keys :: "OfferFrame \<Rightarrow> LedgerKey set" where
  "cross_keys f =
     insert (AccountKey (off_sellerID (of_offer f)))
       (insert (OfferKey (off_sellerID (of_offer f)) (off_offerID (of_offer f)))
          (range (TrustLineKey (off_sellerID (of_offer f)))))"

text \<open>The state in which the frames of the seller have been loaded.\<close>

lemma crossOffer_loads:
  assumes cr: "crossOffer lm f maxW maxS s = Inr (r, s')" and sok: "sess_ok tr base s" and v: "3 \<le> ledgerVersion lm"
  obtains acc wl sl s1 buy sell er where
    "sess_ok tr base s1" "view s1 = view s" "hdr s1 = hdr s" "maxW > 0" "touched (fst s1) = touched (fst s)"
    "view s (AccountKey (off_sellerID (of_offer f))) = Some (account_entry acc)"
    "\<And>t. wl = Some t \<Longrightarrow> trust_key t = (off_sellerID (of_offer f), off_selling (of_offer f))"
    "\<And>t. sl = Some t \<Longrightarrow> trust_key t = (off_sellerID (of_offer f), off_buying (of_offer f))"
    "canSellAtMost lm acc (off_selling (of_offer f)) wl = Inr sell"
    "0 \<le> min buy (min sell (off_amount (of_offer f)))"
    "exchangeV3 (min buy (min sell (off_amount (of_offer f)))) (off_price (of_offer f)) maxW maxS = Inr er"
    "settleOffer lm f (min buy (min sell (off_amount (of_offer f)))) er acc wl sl s1 = Inr (r, s')"
proof -
  let ?b = "off_sellerID (of_offer f)" and ?wheat = "off_selling (of_offer f)" and ?sheep = "off_buying (of_offer f)"
  obtain d acc sa wl sb sl s1 buy sell er where
    rec: "recordEntry (offer_entry f) (fst s) = Inr d" and mw: "maxW > 0"
    and acc: "loadAccount ?b (d, snd s) = Inr (Some acc, sa)"
    and wl: "(if ?wheat \<noteq> Native then loadTrustLine ?b ?wheat sa else Inr (None, sa)) = Inr (wl, sb)"
    and sl: "(if ?sheep \<noteq> Native then loadTrustLine ?b ?sheep sb else Inr (None, sb)) = Inr (sl, s1)"
    and sell: "canSellAtMost lm acc ?wheat wl = Inr sell" "0 \<le> min buy (min sell (off_amount (of_offer f)))"
    and er: "exchangeV3 (min buy (min sell (off_amount (of_offer f)))) (off_price (of_offer f)) maxW maxS = Inr er"
    and rest: "settleOffer lm f (min buy (min sell (off_amount (of_offer f)))) er acc wl sl s1 = Inr (r, s')"
    using cr leD [OF v]
    by (auto simp: crossOffer_def Let_def result_simps split: option.splits)
  have d: "sess_ok tr base (d, snd s)" "view (d, snd s) = view s" "hdr (d, snd s) = hdr s"
    using record_law [OF rec sok, of "db_cache (snd s)"] sok by (simp_all add: sess_ok_def view_def hdr_def)
  note a = loadAccount_law [OF acc d(1)]
  have w: "sess_ok tr base sb \<and> view sb = view s \<and> hdr sb = hdr s \<and> (\<forall>t. wl = Some t \<longrightarrow> trust_key t = (?b, ?wheat))"
    using wl a d loadTrustLine_law [of ?b ?wheat sa wl sb tr base] by (auto split: if_splits)
  then have sl': "sess_ok tr base s1 \<and> view s1 = view s \<and> hdr s1 = hdr s \<and> (\<forall>t. sl = Some t \<longrightarrow> trust_key t = (?b, ?sheep))"
    using sl loadTrustLine_law [of ?b ?sheep sb sl s1 tr base] by (auto split: if_splits)
  have "view s (AccountKey ?b) = Some (account_entry acc)" using a(4) d(2) by simp
  moreover have "touched (fst s1) = touched (fst s)"
    using touched_entry(4) [OF rec] touched_load(1) [OF acc] wl sl touched_load(2) [of ?b ?wheat sa wl sb]
      touched_load(2) [of ?b ?sheep sb sl s1] by (auto split: if_splits)
  ultimately show thesis using w sl' mw sell er rest by (intro that [of s1 acc wl sl sell buy er]) auto
qed

lemma current_view:
  assumes "sess_ok tr base s" and "view s (AccountKey i) = Some (account_entry f)"
  shows "current (view s) f" and "acc_accountID (af_account f) = i"
proof -
  have "keyed (view s)" using assms(1) db_ledger_keyed [of "snd s"] unfolding view_def sess_ok_def by blast
  with assms(2) have "LedgerEntryKey (account_entry f) = AccountKey i" by (simp add: keyed_def)
  then show "acc_accountID (af_account f) = i" by (simp add: LedgerEntryKey_def account_entry_def)
  with assms(2) show "current (view s) f" by (simp add: current_def)
qed

text \<open>The effect of a crossing: \<open>gain\<close> is what it adds to the native balances.\<close>

definition gain :: "OfferFrame \<Rightarrow> crossed \<Rightarrow> int" where
  "gain f r =
     (if cr_result r = eOfferCantConvert then 0
      else (if off_buying (of_offer f) = Native then cr_sheep r else 0)
           - (if off_selling (of_offer f) = Native then cr_wheat r else 0))"

definition crossing :: "bool \<Rightarrow> ledger \<Rightarrow> OfferFrame \<Rightarrow> crossed \<Rightarrow> session \<Rightarrow> session \<Rightarrow> bool" where
  "crossing tr base f r s s' \<longleftrightarrow>
     sess_ok tr base s' \<and> hdr s' = hdr s \<and> counted (view s') \<and> native (view s') = native (view s) + gain f r
     \<and> (\<forall>k. k \<notin> cross_keys f \<longrightarrow> view s' k = view s k) \<and> touched (fst s') \<subseteq> touched (fst s) \<union> cross_keys f"

lemma settleOffer_law:
  assumes st: "settleOffer lm f n er acc wl sl s = Inr (r, s')" and sok: "sess_ok tr base s" and cnt: "counted (view s)"
    and acc: "view s (AccountKey (off_sellerID (of_offer f))) = Some (account_entry acc)"
    and off: "view s (OfferKey (off_sellerID (of_offer f)) (off_offerID (of_offer f))) = Some e"
    and wl: "\<And>t. wl = Some t \<Longrightarrow> trust_key t = (off_sellerID (of_offer f), off_selling (of_offer f))"
    and sl: "\<And>t. sl = Some t \<Longrightarrow> trust_key t = (off_sellerID (of_offer f), off_buying (of_offer f))"
    and sell: "canSellAtMost lm acc (off_selling (of_offer f)) wl = Inr sell"
    and w: "0 \<le> numWheatReceived er" "numWheatReceived er \<le> sell"
    and ne: "off_selling (of_offer f) \<noteq> off_buying (of_offer f)"
  shows "crossing tr base f r s s'"
proof (cases "exchangeResultType er = REDUCED_TO_ZERO")
  case True
  with st sok cnt show ?thesis by (auto simp: settleOffer_def crossing_def gain_def)
next
  case nr: False
  let ?wheat = "off_selling (of_offer f)" and ?sheep = "off_buying (of_offer f)"
  define wh where "wh = (if exchangeResultType er = BOGUS then 0 else numWheatReceived er)"
  define sh where "sh = (if exchangeResultType er = BOGUS then 0 else numSheepSend er)"
  define taken where "taken = (exchangeResultType er = BOGUS \<or> n \<le> wh)"
  note acc' = current_view [OF sok acc]
  obtain a1 s1 ok2 a2 s2 where tk: "takeOffer lm taken f (n - wh) acc s = Inr (a1, s1)"
    and aj: "adjustBalance ?sheep sh a1 sl s1 = Inr (ok2, a2, s2)"
    and rest: "(if \<not> ok2 then Inr (\<lparr>cr_result = eOfferCantConvert, cr_wheat = wh, cr_sheep = sh, cr_trail = []\<rparr>, s2)
      else bindE (adjustBalance ?wheat (- wh) a2 wl s2) (\<lambda>(ok, accountB, s).
        if \<not> ok then Inr (\<lparr>cr_result = eOfferCantConvert, cr_wheat = wh, cr_sheep = sh, cr_trail = []\<rparr>, s)
        else Inr (\<lparr>cr_result = (if taken then eOfferTaken else eOfferPartial),
                  cr_wheat = wh, cr_sheep = sh,
                  cr_trail = [\<lparr>coa_sellerID = acc_accountID (af_account accountB),
                              coa_offerID = off_offerID (of_offer f), coa_assetSold = ?wheat,
                              coa_amountSold = wh, coa_assetBought = ?sheep, coa_amountBought = sh\<rparr>]\<rparr>, s))) = Inr (r, s')"
    using st nr unfolding settleOffer_def Let_def wh_def [symmetric] sh_def [symmetric] taken_def [symmetric]
    by (auto simp: bindE_eq_Inr [of "takeOffer lm taken f (n - wh) acc s"] bindE_eq_Inr [of "adjustBalance ?sheep sh a1 sl s1" for a1 s1])
  have r2: "r = \<lparr>cr_result = eOfferCantConvert, cr_wheat = wh, cr_sheep = sh, cr_trail = []\<rparr> \<and> s' = s2" if "\<not> ok2"
    using rest that by simp
  have r3: "\<exists>ok3 a3. adjustBalance ?wheat (- wh) a2 wl s2 = Inr (ok3, a3, s')
      \<and> (if ok3 then cr_result r \<noteq> eOfferCantConvert \<and> cr_wheat r = wh \<and> cr_sheep r = sh else cr_result r = eOfferCantConvert)"
    if o2: "ok2"
  proof -
    obtain ok3 a3 s3 where aj3: "adjustBalance ?wheat (- wh) a2 wl s2 = Inr (ok3, a3, s3)"
      using rest o2 by (auto simp: bindE_eq_Inr)
    have r1: "s' = s3" using rest by (cases ok3) (simp_all add: o2 aj3)
    have r2: "cr_result r = (if ok3 then if taken then eOfferTaken else eOfferPartial else eOfferCantConvert)"
      using rest by (cases ok3) (auto simp: o2 aj3)
    have r3: "cr_wheat r = wh" "cr_sheep r = sh" using rest by (cases ok3; auto simp: o2 aj3)+
    show ?thesis by (rule exI [of _ ok3], rule exI [of _ a3]) (simp add: aj3 r1 r2 r3)
  qed
  have off': "view s (OfferKey (acc_accountID (af_account acc)) (off_offerID (of_offer f))) = Some e" using off acc' by simp
  note t = takeOffer_law [OF tk sok cnt acc'(1) acc'(2) [symmetric] off', unfolded acc'(2)]
  have sl': "trust_key t = (acc_accountID (af_account a1), ?sheep)" if "sl = Some t" for t using sl [OF that] t by simp
  have t1: "sess_ok tr base s1" "current (view s1) a1" "signers_fit a1" "acc_accountID (af_account a1) = off_sellerID (of_offer f)"
    using t by simp_all
  note a = adjustBalance_law [OF aj t1(1-3) sl']
  have tk2: "touched (fst s2) \<subseteq> touched (fst s) \<union> cross_keys f"
    using takeOffer_touched [OF tk] adjustBalance_touched [OF aj sl'] acc'(2) t1(4) by (auto simp: cross_keys_def)
  have keys2: "view s2 k = view s k" if "k \<notin> cross_keys f" for k
    using that t a(8) [of k] t1(4) by (auto simp: cross_keys_def)
  show ?thesis
  proof (cases ok2)
    case False
    then show ?thesis using r2 t a(1-4) keys2 tk2 by (simp add: crossing_def gain_def counted_def)
  next
    case True
    then obtain ok3 a3 where aj3: "adjustBalance ?wheat (- wh) a2 wl s2 = Inr (ok3, a3, s')"
      and r: "if ok3 then cr_result r \<noteq> eOfferCantConvert \<and> cr_wheat r = wh \<and> cr_sheep r = sh else cr_result r = eOfferCantConvert"
      using r3 by blast
    have wl': "trust_key t = (acc_accountID (af_account a2), ?wheat)" if "wl = Some t" for t
      using wl [OF that] a(7) t1(4) by simp
    note b = adjustBalance_law [OF aj3 a(1,5,6) wl']
    have "ok3" if "?wheat \<noteq> Native"
    proof (rule sold_line_ok [OF _ that, of lm a2 wl sell wh s2 ok3 a3 s'])
      show "canSellAtMost lm a2 ?wheat wl = Inr sell" using sell that by (simp add: canSellAtMost_def)
      show "0 \<le> wh" "wh \<le> sell" using w by (auto simp: wh_def)
      show "adjustBalance ?wheat (- wh) a2 wl s2 = Inr (ok3, a3, s')" by (rule aj3)
    qed
    then have "native (view s') = native (view s) + gain f r"
      using r a(4) b(4) t True ne by (auto simp: gain_def split: if_splits)
    moreover have "counted (view s')" using t a(3) b(3) by (simp add: counted_def)
    moreover have "view s' k = view s k" if "k \<notin> cross_keys f" for k
      using that keys2 [OF that] a(7) b(8) [of k] t1(4) by (auto simp: cross_keys_def)
    moreover have "touched (fst s') \<subseteq> touched (fst s) \<union> cross_keys f"
      using adjustBalance_touched [OF aj3 wl'] tk2 a(7) t1(4) by (auto simp: cross_keys_def)
    ultimately show ?thesis using b(1,2) a(2) t by (simp add: crossing_def)
  qed
qed

lemma crossOffer_law:
  assumes cr: "crossOffer lm f maxW maxS s = Inr (r, s')" and sok: "sess_ok tr base s" and cnt: "counted (view s)"
    and v: "3 \<le> ledgerVersion lm"
    and off: "view s (OfferKey (off_sellerID (of_offer f)) (off_offerID (of_offer f))) = Some e"
    and ne: "off_selling (of_offer f) \<noteq> off_buying (of_offer f)"
  shows "crossing tr base f r s s'"
proof -
  obtain acc wl sl s1 buy sell er where s1: "sess_ok tr base s1" "view s1 = view s" "hdr s1 = hdr s" "maxW > 0" "touched (fst s1) = touched (fst s)"
    and acc: "view s (AccountKey (off_sellerID (of_offer f))) = Some (account_entry acc)"
    and wl: "\<And>t. wl = Some t \<Longrightarrow> trust_key t = (off_sellerID (of_offer f), off_selling (of_offer f))"
    and sl: "\<And>t. sl = Some t \<Longrightarrow> trust_key t = (off_sellerID (of_offer f), off_buying (of_offer f))"
    and sell: "canSellAtMost lm acc (off_selling (of_offer f)) wl = Inr sell"
    and n: "0 \<le> min buy (min sell (off_amount (of_offer f)))"
    and er: "exchangeV3 (min buy (min sell (off_amount (of_offer f)))) (off_price (of_offer f)) maxW maxS = Inr er"
    and st: "settleOffer lm f (min buy (min sell (off_amount (of_offer f)))) er acc wl sl s1 = Inr (r, s')"
    by (rule crossOffer_loads [OF cr sok v]) blast
  have w: "0 \<le> numWheatReceived er" "numWheatReceived er \<le> sell"
    using exchangeV3_bounds [OF er n s1(4)] by auto
  have "crossing tr base f r s1 s'"
    using settleOffer_law [OF st s1(1) _ _ _ wl sl sell w ne] cnt acc off s1(2) by simp
  with s1(2,3,5) show ?thesis by (simp add: crossing_def)
qed

section \<open>The book\<close>

lemma book_rows:
  assumes "sess_ok tr base s"
  shows "r \<in> set (book wheat sheep (snd s)) \<Longrightarrow>
      view s (OfferKey (off_sellerID (snd r)) (off_offerID (snd r))) = Some (offer_entry (offer_of_row r))
      \<and> off_selling (snd r) = wheat \<and> off_buying (snd r) = sheep"
    and "distinct (map (\<lambda>r. off_offerID (snd r)) (book wheat sheep (snd s)))"
proof -
  have ok: "db_ok (snd s)" and wf: "map_wf (db_offers (snd s))" using assms by (simp_all add: sess_ok_def db_ok_def)
  then have d: "distinct (map fst (db_offers (snd s)))" by (simp add: map_wf_distinct)
  have key: "off_offerID (snd q) = i" if "(i, q) \<in> set (db_offers (snd s))" for i q
    using that d by (intro db_okD(5) [OF ok]) simp
  show "view s (OfferKey (off_sellerID (snd r)) (off_offerID (snd r))) = Some (offer_entry (offer_of_row r))
      \<and> off_selling (snd r) = wheat \<and> off_buying (snd r) = sheep" if mem: "r \<in> set (book wheat sheep (snd s))"
  proof -
    have m: "off_selling (snd r) = wheat" "off_buying (snd r) = sheep" and "r \<in> snd ` set (db_offers (snd s))"
      using mem by (auto simp: book_def)
    then obtain i where i: "(i, r) \<in> set (db_offers (snd s))" by force
    then have "map_of (db_offers (snd s)) i = Some r" using d by simp
    with key [OF i] m show ?thesis by (simp add: view_offer)
  qed
  have eq: "map (\<lambda>r. off_offerID (snd r)) (map snd (db_offers (snd s))) = map fst (db_offers (snd s))"
    using key by auto
  have "distinct (map (\<lambda>r. off_offerID (snd r)) (map snd (db_offers (snd s))))"
    unfolding eq by (rule d)
  then have "distinct (map (\<lambda>r. off_offerID (snd r)) (filter P (map snd (db_offers (snd s)))))" for P
    by (rule distinct_map_filter)
  then show "distinct (map (\<lambda>r. off_offerID (snd r)) (book wheat sheep (snd s)))"
    by (simp add: book_def distinct_map distinct_sort)
qed

text \<open>Frames of distinct offers of the book, as the ledger has them.\<close>

definition on_book :: "Asset \<Rightarrow> Asset \<Rightarrow> OfferFrame list \<Rightarrow> session \<Rightarrow> bool" where
  "on_book sheep wheat fs s \<longleftrightarrow>
     distinct (map (\<lambda>f. off_offerID (of_offer f)) fs)
     \<and> (\<forall>f \<in> set fs. view s (OfferKey (off_sellerID (of_offer f)) (off_offerID (of_offer f))) = Some (offer_entry f)
          \<and> off_selling (of_offer f) = wheat \<and> off_buying (of_offer f) = sheep)"

lemma loadBestOffers_on_book:
  assumes "loadBestOffers n k wheat sheep (snd s) = Inr fs" and "sess_ok tr base s"
  shows "on_book sheep wheat fs s"
proof -
  let ?rs = "take n (drop k (book wheat sheep (snd s)))"
  have fs: "fs = map offer_of_row ?rs" using loadOffers_Inr [of ?rs fs] assms(1) by (simp add: loadBestOffers_def)
  have "distinct (map (\<lambda>r. off_offerID (snd r)) ?rs)"
    using book_rows(2) [OF assms(2)] by (simp add: take_map [symmetric] drop_map [symmetric])
  then have "distinct (map (\<lambda>f. off_offerID (of_offer f)) fs)" by (simp add: fs offer_of_row_def comp_def)
  moreover have "set ?rs \<subseteq> set (book wheat sheep (snd s))" by (meson order_trans set_drop_subset set_take_subset)
  ultimately show ?thesis
    using book_rows(1) [OF assms(2)] by (auto simp: on_book_def fs offer_of_row_def dest!: subsetD)
qed

section \<open>Converting\<close>

definition conv_gain :: "Asset \<Rightarrow> Asset \<Rightarrow> convert_state \<Rightarrow> int" where
  "conv_gain sheep wheat v =
     (if sheep = Native then cv_sheepSend v else 0) - (if wheat = Native then cv_wheatReceived v else 0)"

definition converting :: "bool \<Rightarrow> ledger \<Rightarrow> Asset \<Rightarrow> Asset \<Rightarrow> AccountID \<Rightarrow> convert_state \<Rightarrow> session \<Rightarrow> convert_state \<Rightarrow> session \<Rightarrow> bool" where
  "converting tr base sheep wheat i v s v' s' \<longleftrightarrow>
     sess_ok tr base s' \<and> hdr s' = hdr s \<and> counted (view s')
     \<and> native (view s') - conv_gain sheep wheat v' = native (view s) - conv_gain sheep wheat v
     \<and> (\<forall>k. key_owner k = i \<longrightarrow> view s' k = view s k \<and> (k \<in> touched (fst s') \<longrightarrow> k \<in> touched (fst s)))"

lemma converting_refl: "sess_ok tr base s \<Longrightarrow> counted (view s) \<Longrightarrow> converting tr base sheep wheat i v s v s"
  by (simp add: converting_def)

lemma converting_trans:
  "converting tr base sheep wheat i v s v1 s1 \<Longrightarrow> converting tr base sheep wheat i v1 s1 v' s' \<Longrightarrow>
    converting tr base sheep wheat i v s v' s'"
  by (auto simp: converting_def)

lemma convert_list_law:
  assumes "convert_list lm flt fs v s = Inr (r, v', s')" and "sess_ok tr base s" and "counted (view s)"
    and "3 \<le> ledgerVersion lm" and "sheep \<noteq> wheat" and "on_book sheep wheat fs s"
    and "\<And>f. flt f = eKeep \<Longrightarrow> off_sellerID (of_offer f) \<noteq> i"
  shows "converting tr base sheep wheat i v s v' s'"
  using assms
proof (induction fs arbitrary: v s)
  case Nil
  then show ?case by (simp add: converting_refl)
next
  case (Cons f fs)
  show ?case
  proof (cases "flt f")
    case (eStop c)
    then show ?thesis using Cons.prems by (simp add: converting_refl)
  next
    case eSkip
    then show ?thesis using Cons.prems by (intro Cons.IH) (simp_all add: on_book_def)
  next
    case eKeep
    then obtain x s1 where cr: "crossOffer lm f (cv_maxWheatReceive v) (cv_maxSheepSend v) s = Inr (x, s1)"
      using Cons.prems(1) by (auto simp: result_simps)
    have f: "view s (OfferKey (off_sellerID (of_offer f)) (off_offerID (of_offer f))) = Some (offer_entry f)"
      "off_selling (of_offer f) = wheat" "off_buying (of_offer f) = sheep"
      using Cons.prems(6) by (simp_all add: on_book_def)
    then have ne: "off_selling (of_offer f) \<noteq> off_buying (of_offer f)" using Cons.prems(5) by simp
    have c: "crossing tr base f x s s1"
      by (rule crossOffer_law [OF cr Cons.prems(2,3,4) f(1) ne])
    have "off_sellerID (of_offer f) \<noteq> i" using Cons.prems(7) eKeep by simp
    then have own: "k \<notin> cross_keys f" if "key_owner k = i" for k
      using that by (cases k) (auto simp: cross_keys_def)
    have step: "converting tr base sheep wheat i v s v1 s1"
      if "conv_gain sheep wheat v1 = conv_gain sheep wheat v + gain f x" for v1
      using c that own by (auto simp: converting_def crossing_def)
    show ?thesis
    proof (cases "cr_result x = eOfferCantConvert")
      case True
      then have "s' = s1" "v' = v\<lparr>cv_trail := cv_trail v @ cr_trail x\<rparr>"
        using Cons.prems(1) eKeep cr by (auto simp: Let_def result_simps)
      then show ?thesis using True by (auto intro!: step simp: conv_gain_def gain_def)
    next
      case False
      let ?v = "v\<lparr>cv_trail := cv_trail v @ cr_trail x,
        cv_offset := cv_offset v - (if cr_result x = eOfferTaken then 1 else 0),
        cv_sheepSend := cv_sheepSend v + cr_sheep x, cv_maxSheepSend := cv_maxSheepSend v - cr_sheep x,
        cv_wheatReceived := cv_wheatReceived v + cr_wheat x, cv_maxWheatReceive := cv_maxWheatReceive v - cr_wheat x\<rparr>"
      have "conv_gain sheep wheat ?v = conv_gain sheep wheat v + gain f x"
        using False f(2,3) by (simp add: conv_gain_def gain_def)
      note s1 = step [OF this]
      have "(v' = ?v \<and> s' = s1) \<or> convert_list lm flt fs ?v s1 = Inr (r, v', s')"
        using Cons.prems(1) eKeep cr False by (auto simp: Let_def result_simps split: if_splits)
      then show ?thesis
      proof
        assume "v' = ?v \<and> s' = s1"
        then show ?thesis using s1 by simp
      next
        assume cl: "convert_list lm flt fs ?v s1 = Inr (r, v', s')"
        have "view s1 (OfferKey (off_sellerID (of_offer g)) (off_offerID (of_offer g))) = view s (OfferKey (off_sellerID (of_offer g)) (off_offerID (of_offer g)))"
          if "g \<in> set fs" for g
        proof -
          have "off_offerID (of_offer f) \<notin> (\<lambda>f. off_offerID (of_offer f)) ` set fs"
            using Cons.prems(6) by (simp add: on_book_def)
          with that have "off_offerID (of_offer g) \<noteq> off_offerID (of_offer f)" by (metis imageI)
          then have "OfferKey (off_sellerID (of_offer g)) (off_offerID (of_offer g)) \<notin> cross_keys f" by (auto simp: cross_keys_def)
          with c show ?thesis by (simp add: crossing_def)
        qed
        then have "on_book sheep wheat fs s1" using Cons.prems(6) by (simp add: on_book_def)
        with c have "converting tr base sheep wheat i ?v s1 v' s'"
          by (intro Cons.IH [OF cl _ _ Cons.prems(4,5) _ Cons.prems(7)]) (simp_all add: crossing_def)
        with s1 show ?thesis by (rule converting_trans)
      qed
    qed
  qed
qed

lemma convert_loop_law:
  assumes "convert_loop fuel lm flt sheep wheat v s = Inr (r, v', s')" and "sess_ok tr base s" and "counted (view s)"
    and "3 \<le> ledgerVersion lm" and "sheep \<noteq> wheat"
    and "\<And>f. flt f = eKeep \<Longrightarrow> off_sellerID (of_offer f) \<noteq> i"
  shows "converting tr base sheep wheat i v s v' s'"
  using assms
proof (induction fuel arbitrary: v s)
  case (Suc fuel)
  obtain fs x v1 s1 where fs: "loadBestOffers 5 (cv_offset v) wheat sheep (snd s) = Inr fs"
    and cl: "convert_list lm flt fs (v\<lparr>cv_offset := cv_offset v + length fs\<rparr>) s = Inr (x, v1, s1)"
    and rest: "(v' = v1 \<and> s' = s1) \<or> convert_loop fuel lm flt sheep wheat v1 s1 = Inr (r, v', s')"
    using Suc.prems(1) by (auto simp: result_simps split: option.splits if_splits)
  have "converting tr base sheep wheat i (v\<lparr>cv_offset := cv_offset v + length fs\<rparr>) s v1 s1"
    using loadBestOffers_on_book [OF fs Suc.prems(2)] by (intro convert_list_law [OF cl Suc.prems(2-5) _ Suc.prems(6)])
  then have 1: "converting tr base sheep wheat i v s v1 s1" by (simp add: converting_def conv_gain_def)
  from rest show ?case
  proof
    assume "v' = v1 \<and> s' = s1"
    with 1 show ?thesis by simp
  next
    assume cl: "convert_loop fuel lm flt sheep wheat v1 s1 = Inr (r, v', s')"
    have "converting tr base sheep wheat i v1 s1 v' s'"
      using 1 by (intro Suc.IH [OF cl _ _ Suc.prems(4-6)]) (simp_all add: converting_def)
    with 1 show ?thesis by (rule converting_trans)
  qed
qed simp

lemma convertWithOffers_law:
  assumes "convertWithOffers lm sheep maxS wheat maxW flt s = Inr (r, v, s')" and "sess_ok tr base s" and "counted (view s)"
    and "3 \<le> ledgerVersion lm" and "sheep \<noteq> wheat"
    and "\<And>f. flt f = eKeep \<Longrightarrow> off_sellerID (of_offer f) \<noteq> i"
  shows "sess_ok tr base s'" and "hdr s' = hdr s" and "counted (view s')"
    and "native (view s') = native (view s) + conv_gain sheep wheat v"
    and "key_owner k = i \<Longrightarrow> view s' k = view s k" and "key_owner k = i \<Longrightarrow> k \<in> touched (fst s') \<Longrightarrow> k \<in> touched (fst s)"
proof -
  let ?v = "\<lparr>cv_sheepSend = 0, cv_wheatReceived = 0, cv_maxSheepSend = maxS, cv_maxWheatReceive = maxW, cv_offset = 0, cv_trail = []\<rparr>"
  have "convert_loop (Suc (length (db_offers (snd s)))) lm flt sheep wheat ?v s = Inr (r, v, s') \<or> (v = ?v \<and> s' = s)"
    using assms(1) by (auto simp: convertWithOffers_def Let_def simp del: convert_loop.simps split: if_splits)
  then have "converting tr base sheep wheat i ?v s v s'"
    using convert_loop_law [OF _ assms(2-6)] converting_refl [OF assms(2,3)] by blast
  then show "sess_ok tr base s'" "hdr s' = hdr s" "counted (view s')"
    "native (view s') = native (view s) + conv_gain sheep wheat v"
    "key_owner k = i \<Longrightarrow> view s' k = view s k" "key_owner k = i \<Longrightarrow> k \<in> touched (fst s') \<Longrightarrow> k \<in> touched (fst s)"
    by (auto simp: converting_def conv_gain_def)
qed

end
