(* ===== verification/Operations.thy ===== *)
theory Operations
  imports Crossing_Laws
begin

text \<open>
  The operations of transactions other than payments and offers: \<open>CreateAccountOpFrame.cpp\<close>,
  \<open>MergeOpFrame.cpp\<close>, \<open>ChangeTrustOpFrame.cpp\<close>, \<open>AllowTrustOpFrame.cpp\<close>, \<open>SetOptionsOpFrame.cpp\<close>,
  \<open>ManageDataOpFrame.cpp\<close> and \<open>InflationOpFrame.cpp\<close>.

  \<open>doCheckValid\<close> gives the result code of a malformed operation, or \<^term>\<open>None\<close>; \<open>doApply\<close> gives the
  result code and the session, and stands for a return value of true exactly if the code is that of
  success. The arguments are the header of the current ledger (\<open>lm\<close>), the operation, the ID and the
  frame of the source account, and the session.
\<close>

section \<open>Create account\<close>

record CreateAccountOp =
  ca_destination :: AccountID
  ca_startingBalance :: int

datatype CreateAccountResultCode =
    CREATE_ACCOUNT_SUCCESS | CREATE_ACCOUNT_MALFORMED | CREATE_ACCOUNT_UNDERFUNDED
  | CREATE_ACCOUNT_LOW_RESERVE | CREATE_ACCOUNT_ALREADY_EXIST

definition getStartingSequenceNumber :: "LedgerHeader \<Rightarrow> uint64" where
  "getStartingSequenceNumber h = push_bit 32 (ucast (ledgerSeq h))"

definition CreateAccount_doCheckValid :: "CreateAccountOp \<Rightarrow> AccountID \<Rightarrow> CreateAccountResultCode option" where
  "CreateAccount_doCheckValid op sourceID =
     (if ca_startingBalance op \<le> 0 then Some CREATE_ACCOUNT_MALFORMED
      else if ca_destination op = sourceID then Some CREATE_ACCOUNT_MALFORMED
      else None)"

definition CreateAccount_doApply ::
  "LedgerHeader \<Rightarrow> CreateAccountOp \<Rightarrow> AccountFrame \<Rightarrow> session \<Rightarrow> (CreateAccountResultCode \<times> session) result" where
  "CreateAccount_doApply lm op source s =
     bindE (loadAccount (ca_destination op) s) (\<lambda>(destAccount, s).
     if destAccount \<noteq> None then Inr (CREATE_ACCOUNT_ALREADY_EXIST, s)
     else if ca_startingBalance op < getMinBalance lm 0 then Inr (CREATE_ACCOUNT_LOW_RESERVE, s)
     else if acc_balance (af_account source) - getMinimumBalance lm source < ca_startingBalance op
     then Inr (CREATE_ACCOUNT_UNDERFUNDED, s)
     else
       bindE (account_addBalance (- ca_startingBalance op) source) (\<lambda>(source, ok).
       dbgAssert ok
         (bindE (account_storeChange source s) (\<lambda>(source, s).
          let f = AccountFrame_id (ca_destination op);
              f = f\<lparr>af_account := (af_account f)\<lparr>acc_seqNum := getStartingSequenceNumber (hdr s),
                                                  acc_balance := ca_startingBalance op\<rparr>\<rparr> in
          bindE (account_storeAdd f s) (\<lambda>(f, s). Inr (CREATE_ACCOUNT_SUCCESS, s))))))"

section \<open>Account merge\<close>

datatype AccountMergeResult =
    ACCOUNT_MERGE_SUCCESS int | ACCOUNT_MERGE_MALFORMED | ACCOUNT_MERGE_NO_ACCOUNT
  | ACCOUNT_MERGE_IMMUTABLE_SET | ACCOUNT_MERGE_HAS_SUB_ENTRIES

definition Merge_doCheckValid :: "AccountID \<Rightarrow> AccountID \<Rightarrow> AccountMergeResult option" where
  "Merge_doCheckValid destination sourceID =
     (if sourceID = destination then Some ACCOUNT_MERGE_MALFORMED else None)"

text \<open>The compensation for stale accounts in versions before 8: what the balance is taken to be, or
  \<^term>\<open>None\<close> if the account is gone.\<close>

definition merge_sourceBalance :: "LedgerHeader \<Rightarrow> AccountFrame \<Rightarrow> session \<Rightarrow> (int option \<times> session) result" where
  "merge_sourceBalance lm source s =
     (if ledgerVersion lm > 4 \<and> ledgerVersion lm < 8
      then bindE (loadAccount (acc_accountID (af_account source)) s) (\<lambda>(this, s).
        case this of
          None \<Rightarrow> Inr (None, s)
        | Some f \<Rightarrow>
            Inr (Some (if ledgerVersion lm > 5 then acc_balance (af_account f) else acc_balance (af_account source)), s))
      else Inr (Some (acc_balance (af_account source)), s))"

definition Merge_doApply ::
  "LedgerHeader \<Rightarrow> AccountID \<Rightarrow> AccountFrame \<Rightarrow> session \<Rightarrow> (AccountMergeResult \<times> session) result" where
  "Merge_doApply lm destination source s =
     bindE (loadAccount destination s) (\<lambda>(otherAccount, s).
     case otherAccount of
       None \<Rightarrow> Inr (ACCOUNT_MERGE_NO_ACCOUNT, s)
     | Some other \<Rightarrow>
     bindE (merge_sourceBalance lm source s) (\<lambda>(sourceBalance, s).
     case sourceBalance of
       None \<Rightarrow> Inr (ACCOUNT_MERGE_NO_ACCOUNT, s)
     | Some sourceBalance \<Rightarrow>
     if isImmutableAuth source then Inr (ACCOUNT_MERGE_IMMUTABLE_SET, s)
     else if unat (acc_numSubEntries (af_account source)) \<noteq> length (acc_signers (af_account source))
     then Inr (ACCOUNT_MERGE_HAS_SUB_ENTRIES, s)
     else
       bindE (account_addBalance sourceBalance other) (\<lambda>(other, ok).
       if \<not> ok then Inl (RuntimeError ''merge overflowed destination balance'')
       else
         bindE (account_storeChange other s) (\<lambda>(other, s).
         bindE (if ledgerVersion lm < 8
                then bindE (loadAccount (acc_accountID (af_account source)) s) (\<lambda>(this, s).
                  case this of
                    None \<Rightarrow> Inr s
                  | Some _ \<Rightarrow> account_storeDelete (acc_accountID (af_account source)) s)
                else account_storeDelete (acc_accountID (af_account source)) s) (\<lambda>s.
         Inr (ACCOUNT_MERGE_SUCCESS sourceBalance, s))))))"

section \<open>Change trust\<close>

record ChangeTrustOp =
  ct_line :: Asset
  ct_limit :: int

datatype ChangeTrustResultCode =
    CHANGE_TRUST_SUCCESS | CHANGE_TRUST_MALFORMED | CHANGE_TRUST_NO_ISSUER | CHANGE_TRUST_INVALID_LIMIT
  | CHANGE_TRUST_LOW_RESERVE | CHANGE_TRUST_SELF_NOT_ALLOWED

definition ChangeTrust_doCheckValid :: "ChangeTrustOp \<Rightarrow> ChangeTrustResultCode option" where
  "ChangeTrust_doCheckValid op =
     (if ct_limit op < 0 then Some CHANGE_TRUST_MALFORMED
      else if \<not> isAssetValid (ct_line op) then Some CHANGE_TRUST_MALFORMED
      else None)"

text \<open>\<open>TrustFrame()\<close> with the fields the operation sets.\<close>

definition new_trustLine :: "AccountID \<Rightarrow> Asset \<Rightarrow> int \<Rightarrow> TrustFrame" where
  "new_trustLine i asset limit =
     \<lparr>tf_lastModified = 0,
      tf_trustLine = \<lparr>tl_accountID = i, tl_asset = asset, tl_balance = 0, tl_limit = limit, tl_flags = 0\<rparr>,
      mIsIssuer = False\<rparr>"

definition ChangeTrust_doApply ::
  "LedgerHeader \<Rightarrow> ChangeTrustOp \<Rightarrow> AccountID \<Rightarrow> AccountFrame \<Rightarrow> session \<Rightarrow> (ChangeTrustResultCode \<times> session) result" where
  "ChangeTrust_doApply lm op sourceID source s =
     bindE (loadTrustLineIssuer sourceID (ct_line op) s) (\<lambda>((trustLine, issuer), s).
     if ledgerVersion lm > 2 \<and> (case issuer of Some f \<Rightarrow> acc_accountID (af_account f) = sourceID | None \<Rightarrow> False)
     then Inr (CHANGE_TRUST_SELF_NOT_ALLOWED, s)
     else case trustLine of
       Some t \<Rightarrow>
         bindE (trust_getBalance t) (\<lambda>balance.
         if ct_limit op < balance then Inr (CHANGE_TRUST_INVALID_LIMIT, s)
         else if ct_limit op = 0
         then
           bindE (trust_storeDelete (trust_key t) s) (\<lambda>s.
           bindE (addNumEntries (- 1) lm source) (\<lambda>(source, _).
           bindE (account_storeChange source s) (\<lambda>(source, s). Inr (CHANGE_TRUST_SUCCESS, s))))
         else if issuer = None then Inr (CHANGE_TRUST_NO_ISSUER, s)
         else
           bindE (trust_storeChange (t\<lparr>tf_trustLine := (tf_trustLine t)\<lparr>tl_limit := ct_limit op\<rparr>\<rparr>) s) (\<lambda>(t, s).
           Inr (CHANGE_TRUST_SUCCESS, s)))
     | None \<Rightarrow>
         if ct_limit op = 0 then Inr (CHANGE_TRUST_INVALID_LIMIT, s)
         else case issuer of
             None \<Rightarrow> Inr (CHANGE_TRUST_NO_ISSUER, s)
           | Some issuer \<Rightarrow>
               let t = setAuthorized (\<not> isAuthRequired issuer) (new_trustLine sourceID (ct_line op) (ct_limit op)) in
               bindE (addNumEntries 1 lm source) (\<lambda>(source, ok).
               if \<not> ok then Inr (CHANGE_TRUST_LOW_RESERVE, s)
               else
                 bindE (account_storeChange source s) (\<lambda>(source, s).
                 bindE (trust_storeAdd t s) (\<lambda>(t, s). Inr (CHANGE_TRUST_SUCCESS, s)))))"

section \<open>Allow trust\<close>

datatype AllowTrustAsset =
    AllowTrust_Native
  | AllowTrust_AlphaNum4 opaque
  | AllowTrust_AlphaNum12 opaque

record AllowTrustOp =
  at_trustor :: AccountID
  at_asset :: AllowTrustAsset
  at_authorize :: bool

datatype AllowTrustResultCode =
    ALLOW_TRUST_SUCCESS | ALLOW_TRUST_MALFORMED | ALLOW_TRUST_NO_TRUST_LINE | ALLOW_TRUST_TRUST_NOT_REQUIRED
  | ALLOW_TRUST_CANT_REVOKE | ALLOW_TRUST_SELF_NOT_ALLOWED

fun allow_asset :: "AllowTrustAsset \<Rightarrow> AccountID \<Rightarrow> Asset" where
  "allow_asset AllowTrust_Native sourceID = Native"
| "allow_asset (AllowTrust_AlphaNum4 c) sourceID = AlphaNum4 c sourceID"
| "allow_asset (AllowTrust_AlphaNum12 c) sourceID = AlphaNum12 c sourceID"

definition AllowTrust_doCheckValid :: "AllowTrustOp \<Rightarrow> AccountID \<Rightarrow> AllowTrustResultCode option" where
  "AllowTrust_doCheckValid op sourceID =
     (if at_asset op = AllowTrust_Native then Some ALLOW_TRUST_MALFORMED
      else if \<not> isAssetValid (allow_asset (at_asset op) sourceID) then Some ALLOW_TRUST_MALFORMED
      else None)"

definition AllowTrust_doApply ::
  "LedgerHeader \<Rightarrow> AllowTrustOp \<Rightarrow> AccountID \<Rightarrow> AccountFrame \<Rightarrow> session \<Rightarrow> (AllowTrustResultCode \<times> session) result" where
  "AllowTrust_doApply lm op sourceID source s =
     (if ledgerVersion lm > 2 \<and> at_trustor op = sourceID then Inr (ALLOW_TRUST_SELF_NOT_ALLOWED, s)
      else if acc_flags (af_account source) AND 1 = 0 then Inr (ALLOW_TRUST_TRUST_NOT_REQUIRED, s)
      else if acc_flags (af_account source) AND 2 = 0 \<and> \<not> at_authorize op then Inr (ALLOW_TRUST_CANT_REVOKE, s)
      else
        bindE (loadTrustLine (at_trustor op) (allow_asset (at_asset op) sourceID) s) (\<lambda>(trustLine, s).
        case trustLine of
          None \<Rightarrow> Inr (ALLOW_TRUST_NO_TRUST_LINE, s)
        | Some t \<Rightarrow>
            bindE (trust_storeChange (setAuthorized (at_authorize op) t) s) (\<lambda>(t, s).
            Inr (ALLOW_TRUST_SUCCESS, s))))"

section \<open>Manage data\<close>

record ManageDataOp =
  md_dataName :: opaque
  md_dataValue :: "opaque option"

datatype ManageDataResultCode =
    MANAGE_DATA_SUCCESS | MANAGE_DATA_NOT_SUPPORTED_YET | MANAGE_DATA_NAME_NOT_FOUND | MANAGE_DATA_LOW_RESERVE
  | MANAGE_DATA_INVALID_NAME

definition ManageData_doCheckValid :: "LedgerHeader \<Rightarrow> ManageDataOp \<Rightarrow> ManageDataResultCode option" where
  "ManageData_doCheckValid lm op =
     (if ledgerVersion lm < 2 then Some MANAGE_DATA_NOT_SUPPORTED_YET
      else if length (md_dataName op) < 1 \<or> \<not> isString32Valid (md_dataName op) then Some MANAGE_DATA_INVALID_NAME
      else None)"

definition ManageData_doApply ::
  "LedgerHeader \<Rightarrow> ManageDataOp \<Rightarrow> AccountFrame \<Rightarrow> session \<Rightarrow> (ManageDataResultCode \<times> session) result" where
  "ManageData_doApply lm op source s =
     (if ledgerVersion lm = 3 then Inl (RuntimeError ''MANAGE_DATA not supported on ledger version 3'')
      else
        let i = acc_accountID (af_account source) in
        bindE (loadData i (md_dataName op) (snd s)) (\<lambda>dataFrame.
        case md_dataValue op of
          Some v \<Rightarrow>
            (case dataFrame of
               None \<Rightarrow>
                 bindE (addNumEntries 1 lm source) (\<lambda>(source, ok).
                 if \<not> ok then Inr (MANAGE_DATA_LOW_RESERVE, s)
                 else
                   bindE (data_storeAdd
                            \<lparr>df_lastModified = 0,
                             df_data = \<lparr>data_accountID = i, data_dataName = md_dataName op, data_dataValue = v\<rparr>\<rparr> s) (\<lambda>(f, s).
                   bindE (account_storeChange source s) (\<lambda>(source, s). Inr (MANAGE_DATA_SUCCESS, s))))
             | Some f \<Rightarrow>
                 bindE (recordEntry (data_entry f) (fst s)) (\<lambda>d.
                 bindE (data_storeChange (f\<lparr>df_data := (df_data f)\<lparr>data_dataValue := v\<rparr>\<rparr>) (d, snd s)) (\<lambda>(f, s).
                 Inr (MANAGE_DATA_SUCCESS, s))))
        | None \<Rightarrow>
            (case dataFrame of
               None \<Rightarrow> Inr (MANAGE_DATA_NAME_NOT_FOUND, s)
             | Some f \<Rightarrow>
                 bindE (recordEntry (data_entry f) (fst s)) (\<lambda>d.
                 bindE (addNumEntries (- 1) lm source) (\<lambda>(source, _).
                 bindE (account_storeChange source (d, snd s)) (\<lambda>(source, s).
                 bindE (data_storeDelete (data_key f) s) (\<lambda>s. Inr (MANAGE_DATA_SUCCESS, s))))))))"

section \<open>Set options\<close>

record SetOptionsOp =
  so_inflationDest :: "AccountID option"
  so_clearFlags :: "uint32 option"
  so_setFlags :: "uint32 option"
  so_masterWeight :: "uint32 option"
  so_lowThreshold :: "uint32 option"
  so_medThreshold :: "uint32 option"
  so_highThreshold :: "uint32 option"
  so_homeDomain :: "opaque option"
  so_signer :: "Signer option"

datatype SetOptionsResultCode =
    SET_OPTIONS_SUCCESS | SET_OPTIONS_LOW_RESERVE | SET_OPTIONS_TOO_MANY_SIGNERS | SET_OPTIONS_BAD_FLAGS
  | SET_OPTIONS_INVALID_INFLATION | SET_OPTIONS_CANT_CHANGE | SET_OPTIONS_UNKNOWN_FLAG
  | SET_OPTIONS_THRESHOLD_OUT_OF_RANGE | SET_OPTIONS_BAD_SIGNER | SET_OPTIONS_INVALID_HOME_DOMAIN

definition out_of_byte :: "uint32 option \<Rightarrow> bool" where
  "out_of_byte x \<longleftrightarrow> (case x of Some w \<Rightarrow> w > 255 | None \<Rightarrow> False)"

definition SetOptions_doCheckValid :: "LedgerHeader \<Rightarrow> SetOptionsOp \<Rightarrow> AccountID \<Rightarrow> SetOptionsResultCode option" where
  "SetOptions_doCheckValid lm op sourceID =
     (if (case so_setFlags op of Some x \<Rightarrow> x AND NOT 7 \<noteq> 0 | None \<Rightarrow> False) then Some SET_OPTIONS_UNKNOWN_FLAG
      else if (case so_clearFlags op of Some x \<Rightarrow> x AND NOT 7 \<noteq> 0 | None \<Rightarrow> False) then Some SET_OPTIONS_UNKNOWN_FLAG
      else if (case (so_setFlags op, so_clearFlags op) of (Some x, Some y) \<Rightarrow> x AND y \<noteq> 0 | _ \<Rightarrow> False)
      then Some SET_OPTIONS_BAD_FLAGS
      else if out_of_byte (so_masterWeight op) then Some SET_OPTIONS_THRESHOLD_OUT_OF_RANGE
      else if out_of_byte (so_lowThreshold op) then Some SET_OPTIONS_THRESHOLD_OUT_OF_RANGE
      else if out_of_byte (so_medThreshold op) then Some SET_OPTIONS_THRESHOLD_OUT_OF_RANGE
      else if out_of_byte (so_highThreshold op) then Some SET_OPTIONS_THRESHOLD_OUT_OF_RANGE
      else if (case so_signer op of
                 Some sg \<Rightarrow>
                   signer_key sg = SIGNER_KEY_TYPE_ED25519 sourceID
                   \<or> (\<not> (case signer_key sg of SIGNER_KEY_TYPE_ED25519 _ \<Rightarrow> True | _ \<Rightarrow> False) \<and> ledgerVersion lm < 3)
               | None \<Rightarrow> False)
      then Some SET_OPTIONS_BAD_SIGNER
      else if (case so_homeDomain op of Some x \<Rightarrow> \<not> isString32Valid x | None \<Rightarrow> False)
      then Some SET_OPTIONS_INVALID_HOME_DOMAIN
      else None)"

text \<open>The steps on the account, in the order of the code.\<close>

definition opt_update :: "'a option \<Rightarrow> ('a \<Rightarrow> 'b \<Rightarrow> 'b) \<Rightarrow> 'b \<Rightarrow> 'b" where
  "opt_update x f y = (case x of Some v \<Rightarrow> f v y | None \<Rightarrow> y)"

definition set_threshold :: "nat \<Rightarrow> uint32 \<Rightarrow> AccountEntry \<Rightarrow> AccountEntry" where
  "set_threshold n w a = a\<lparr>acc_thresholds := (acc_thresholds a)[n := ucast (w AND 255)]\<rparr>"

definition set_plain_options :: "SetOptionsOp \<Rightarrow> AccountEntry \<Rightarrow> AccountEntry" where
  "set_plain_options op a =
     opt_update (so_highThreshold op) (set_threshold 3)
       (opt_update (so_medThreshold op) (set_threshold 2)
         (opt_update (so_lowThreshold op) (set_threshold 1)
           (opt_update (so_masterWeight op) (set_threshold 0)
             (opt_update (so_homeDomain op) (\<lambda>x a. a\<lparr>acc_homeDomain := x\<rparr>) a))))"

text \<open>The loop that erases the signers with a key; each erased one is taken off the count.\<close>

fun erase_signers :: "LedgerHeader \<Rightarrow> SignerKey \<Rightarrow> Signer list \<Rightarrow> AccountFrame \<Rightarrow> (Signer list \<times> AccountFrame) result" where
  "erase_signers lm k [] f = Inr ([], f)"
| "erase_signers lm k (sg # ss) f =
     (if signer_key sg = k
      then bindE (addNumEntries (- 1) lm f) (\<lambda>(f, _). erase_signers lm k ss f)
      else bindE (erase_signers lm k ss f) (\<lambda>(ss, f). Inr (sg # ss, f)))"

definition set_signers :: "Signer list \<Rightarrow> AccountFrame \<Rightarrow> AccountFrame" where
  "set_signers ss f = f\<lparr>af_account := (af_account f)\<lparr>acc_signers := ss\<rparr>\<rparr>"

definition SetOptions_signer ::
  "LedgerHeader \<Rightarrow> Signer \<Rightarrow> AccountFrame \<Rightarrow> (SetOptionsResultCode option \<times> AccountFrame) result" where
  "SetOptions_signer lm sg f =
     (let ss = acc_signers (af_account f) in
      if signer_weight sg \<noteq> 0
      then
        let ss' = map (\<lambda>old. if signer_key old = signer_key sg then old\<lparr>signer_weight := signer_weight sg\<rparr> else old) ss in
        if list_ex (\<lambda>old. signer_key old = signer_key sg) ss
        then Inr (None, setUpdateSigners (set_signers ss' f))
        else if length ss = 20 then Inr (Some SET_OPTIONS_TOO_MANY_SIGNERS, f)
        else
          bindE (addNumEntries 1 lm f) (\<lambda>(f, ok).
          if \<not> ok then Inr (Some SET_OPTIONS_LOW_RESERVE, f)
          else Inr (None, setUpdateSigners (set_signers (ss @ [sg]) f)))
      else
        bindE (erase_signers lm (signer_key sg) ss f) (\<lambda>(ss, f).
        Inr (None, setUpdateSigners (set_signers ss f))))"

definition SetOptions_doApply ::
  "LedgerHeader \<Rightarrow> SetOptionsOp \<Rightarrow> AccountFrame \<Rightarrow> session \<Rightarrow> (SetOptionsResultCode \<times> session) result" where
  "SetOptions_doApply lm op f s =
     bindE (case so_inflationDest op of
              Some i \<Rightarrow> bindE (loadAccount i s) (\<lambda>(a, s). Inr (a \<noteq> None, s))
            | None \<Rightarrow> Inr (True, s)) (\<lambda>(ok, s).
     if \<not> ok then Inr (SET_OPTIONS_INVALID_INFLATION, s)
     else
       let f = f\<lparr>af_account := opt_update (so_inflationDest op) (\<lambda>i a. a\<lparr>acc_inflationDest := Some i\<rparr>) (af_account f)\<rparr> in
       if (case so_clearFlags op of Some x \<Rightarrow> x AND 7 \<noteq> 0 \<and> isImmutableAuth f | None \<Rightarrow> False)
       then Inr (SET_OPTIONS_CANT_CHANGE, s)
       else
         let f = f\<lparr>af_account := opt_update (so_clearFlags op) (\<lambda>x a. a\<lparr>acc_flags := acc_flags a AND NOT x\<rparr>) (af_account f)\<rparr> in
         if (case so_setFlags op of Some x \<Rightarrow> x AND 7 \<noteq> 0 \<and> isImmutableAuth f | None \<Rightarrow> False)
         then Inr (SET_OPTIONS_CANT_CHANGE, s)
         else
           let f = f\<lparr>af_account := opt_update (so_setFlags op) (\<lambda>x a. a\<lparr>acc_flags := acc_flags a OR x\<rparr>) (af_account f)\<rparr>;
               f = f\<lparr>af_account := set_plain_options op (af_account f)\<rparr> in
           bindE (case so_signer op of Some sg \<Rightarrow> SetOptions_signer lm sg f | None \<Rightarrow> Inr (None, f)) (\<lambda>(code, f).
           case code of
             Some c \<Rightarrow> Inr (c, s)
           | None \<Rightarrow> bindE (account_storeChange f s) (\<lambda>(f, s). Inr (SET_OPTIONS_SUCCESS, s))))"

section \<open>Inflation\<close>

abbreviation INFLATION_FREQUENCY :: uint64 where
  "INFLATION_FREQUENCY \<equiv> 604800"

abbreviation INFLATION_RATE_TRILLIONTHS :: int where
  "INFLATION_RATE_TRILLIONTHS \<equiv> 190721000"

abbreviation TRILLION :: int where
  "TRILLION \<equiv> 1000000000000"

abbreviation INFLATION_WIN_MIN_PERCENT :: int where
  "INFLATION_WIN_MIN_PERCENT \<equiv> 500000000"

abbreviation INFLATION_NUM_WINNERS :: nat where
  "INFLATION_NUM_WINNERS \<equiv> 2000"

abbreviation INFLATION_START_TIME :: uint64 where
  "INFLATION_START_TIME \<equiv> 1404172800"

datatype InflationResult =
    INFLATION_SUCCESS "(AccountID \<times> int) list"
  | INFLATION_NOT_TIME

text \<open>\<open>processForInflation\<close>: the query groups the votes by destination, orders the groups by votes and
  then by the text of the destination, both descending, and takes the first; the callback takes the
  groups as long as they have enough votes. The text of an account ID (\<open>KeyUtils::toStrKey\<close>) is a
  parameter.\<close>

definition inflation_votes :: "Database \<Rightarrow> (AccountID \<times> int) list" where
  "inflation_votes db =
     (let voters = filter (\<lambda>a. acc_inflationDest a \<noteq> None \<and> acc_balance a \<ge> 1000000000) (map (snd \<circ> snd) (db_accounts db));
          dests = remdups (map (\<lambda>a. the (acc_inflationDest a)) voters)
      in map (\<lambda>d. (d, sum_list (map acc_balance (filter (\<lambda>a. acc_inflationDest a = Some d) voters)))) dests)"

definition processForInflation :: "(AccountID \<Rightarrow> opaque) \<Rightarrow> int \<Rightarrow> nat \<Rightarrow> Database \<Rightarrow> (AccountID \<times> int) list" where
  "processForInflation toStrKey minBalance maxWinners db =
     takeWhile (\<lambda>w. snd w \<ge> minBalance)
       (take maxWinners (rev (sort_key (\<lambda>w. (snd w, toStrKey (fst w))) (inflation_votes db))))"

fun inflation_dole ::
  "LedgerHeader \<Rightarrow> int \<Rightarrow> int \<Rightarrow> (AccountID \<times> int) list \<Rightarrow> int \<Rightarrow> (AccountID \<times> int) list \<Rightarrow> session \<Rightarrow>
    (int \<times> (AccountID \<times> int) list \<times> session) result" where
  "inflation_dole lm amountToDole totalVotes [] leftAfterDole payouts s = Inr (leftAfterDole, payouts, s)"
| "inflation_dole lm amountToDole totalVotes (w # ws) leftAfterDole payouts s =
     bindE (bigDivide amountToDole (snd w) totalVotes ROUND_DOWN) (\<lambda>toDole.
     if toDole = 0 then inflation_dole lm amountToDole totalVotes ws leftAfterDole payouts s
     else
       bindE (loadAccount (fst w) s) (\<lambda>(winner, s).
       case winner of
         None \<Rightarrow> inflation_dole lm amountToDole totalVotes ws leftAfterDole payouts s
       | Some f \<Rightarrow>
           let d = fst s;
               s = (if ledgerVersion lm \<le> 7
                    then (d\<lparr>mCurrentHeader := (mCurrentHeader d)\<lparr>totalCoins := totalCoins (mCurrentHeader d) + toDole\<rparr>\<rparr>, snd s)
                    else s) in
           bindE (account_addBalance toDole f) (\<lambda>(f, ok).
           if \<not> ok then Inl (RuntimeError ''inflation overflowed destination balance'')
           else
             bindE (account_storeChange f s) (\<lambda>(f, s).
             inflation_dole lm amountToDole totalVotes ws (leftAfterDole - toDole) (payouts @ [(fst w, toDole)]) s))))"

definition upd_header :: "(LedgerHeader \<Rightarrow> LedgerHeader) \<Rightarrow> session \<Rightarrow> session" where
  "upd_header g s = ((fst s)\<lparr>mCurrentHeader := g (mCurrentHeader (fst s))\<rparr>, snd s)"

definition inflationTime :: "LedgerHeader \<Rightarrow> int" where
  "inflationTime h = sint (INFLATION_START_TIME + ucast (inflationSeq h) * INFLATION_FREQUENCY)"

definition Inflation_doApply ::
  "(AccountID \<Rightarrow> opaque) \<Rightarrow> LedgerHeader \<Rightarrow> session \<Rightarrow> (InflationResult \<times> session) result" where
  "Inflation_doApply toStrKey lm s =
     (let d = fst s; inner = (LedgerDelta_nested d, snd s); lcl = hdr inner in
      if sint (sv_closeTime (scpValue lcl)) < inflationTime lcl
      then bindE (rollback_scope (fst inner) (snd s) (snd inner)) (\<lambda>db. Inr (INFLATION_NOT_TIME, d, db))
      else
        let totalVotes = totalCoins lcl in
        bindE (bigDivide totalVotes INFLATION_WIN_MIN_PERCENT TRILLION ROUND_DOWN) (\<lambda>minBalance.
        let winners = processForInflation toStrKey minBalance INFLATION_NUM_WINNERS (snd inner) in
        bindE (bigDivide (totalCoins lcl) INFLATION_RATE_TRILLIONTHS TRILLION ROUND_DOWN) (\<lambda>inflationAmount.
        let amountToDole = inflationAmount + feePool lcl;
            inner = upd_header (\<lambda>h. h\<lparr>feePool := 0, inflationSeq := inflationSeq h + 1\<rparr>) inner in
        bindE (inflation_dole lm amountToDole totalVotes winners amountToDole [] inner) (\<lambda>(leftAfterDole, payouts, inner).
        let inner = upd_header (\<lambda>h. h\<lparr>feePool := feePool h + leftAfterDole\<rparr>) inner;
            inner = (if ledgerVersion lm > 7
                     then upd_header (\<lambda>h. h\<lparr>totalCoins := totalCoins h + inflationAmount\<rparr>) inner else inner) in
        bindE (commit_nested (fst inner) d) (\<lambda>(_, d).
        Inr (INFLATION_SUCCESS payouts, d, snd inner))))))"

end
