(* ===== verification/Operation_Laws.thy ===== *)
theory Operation_Laws
  imports Operations
begin

text \<open>
  What the operations keep: the coherence of the tables, the cache and the delta, the count of
  sub-entries of every account, and the amount of the native asset, that is, the balances and the fee
  pool against the coins the header says exist.
\<close>

section \<open>What is kept\<close>

definition lumens :: "session \<Rightarrow> int" where
  "lumens s = native (view s) + feePool (hdr s) - totalCoins (hdr s)"

definition kept :: "bool \<Rightarrow> ledger \<Rightarrow> session \<Rightarrow> session \<Rightarrow> bool" where
  "kept tr base s s' \<longleftrightarrow> sess_ok tr base s' \<and> counted (view s') \<and> lumens s' = lumens s"

lemma kept_same:
  "sess_ok tr base s' \<Longrightarrow> counted (view s) \<Longrightarrow> view s' = view s \<Longrightarrow> hdr s' = hdr s \<Longrightarrow> kept tr base s s'"
  by (simp add: kept_def lumens_def)

lemma keptI:
  assumes "sess_ok tr base s'" and "counted (view s)" and "surplus (view s') = surplus (view s)"
    and "native (view s') = native (view s)" and "hdr s' = hdr s"
  shows "kept tr base s s'"
  using assms by (simp add: kept_def lumens_def counted_def)

lemma kept_trans: "kept tr base s s1 \<Longrightarrow> kept tr base s1 s' \<Longrightarrow> kept tr base s s'"
  by (simp add: kept_def)

lemma counted_current_fit:
  assumes "counted L" and "current L f"
  shows "signers_fit f"
proof -
  have "surplus L (acc_accountID (af_account f)) = 0" using assms(1) by (simp add: counted_def)
  then show ?thesis using assms(2) by (simp add: surplus_def current_def signers_fit_def)
qed

lemma native_of_account: "account_at L i = Some a \<Longrightarrow> native_of (L (AccountKey i)) = acc_balance a"
  by (auto simp: account_at_def native_of_def split: option.splits LedgerEntryData.splits)

lemma native_of_other:
  assumes "sess_ok tr base s" and "\<not> is_account_key k"
  shows "native_of (view s k) = 0"
proof (cases "view s k")
  case (Some e)
  have "keyed (view s)" using assms(1) db_ledger_keyed [of "snd s"] unfolding view_def sess_ok_def by blast
  with Some have "LedgerEntryKey e = k" by (simp add: keyed_def)
  then show ?thesis using Some assms(2) by (auto simp: LedgerEntryKey_def native_of_def split: LedgerEntryData.splits)
qed simp

lemma account_key_view:
  assumes "sess_ok tr base s" and "view s (AccountKey i) = Some (account_entry f)"
  shows "acc_accountID (af_account f) = i"
proof -
  have "keyed (view s)" using assms(1) db_ledger_keyed [of "snd s"] unfolding view_def sess_ok_def by blast
  with assms(2) have "LedgerEntryKey (account_entry f) = AccountKey i" by (simp add: keyed_def)
  then show ?thesis by (simp add: LedgerEntryKey_def account_entry_def)
qed

lemma loaded_current:
  assumes "sess_ok tr base s" and "map_option account_entry a = view s (AccountKey i)" and "a = Some f"
  shows "current (view s) f" and "acc_accountID (af_account f) = i"
proof -
  have v: "view s (AccountKey i) = Some (account_entry f)" using assms(2,3) by simp
  show id: "acc_accountID (af_account f) = i" by (rule account_key_view [OF assms(1) v])
  show "current (view s) f" using v id by (simp add: current_def)
qed

text \<open>Changing an entry that is not an account.\<close>

lemma other_upd:
  assumes sok: "sess_ok tr base s" and v: "view s' = (view s)(k := e)" and nk: "\<not> is_account_key k" and e: "native_of e = 0"
  shows "native (view s') = native (view s)" and "account_at (view s') = account_at (view s)"
    and "surplus (view s') j = surplus (view s) j +
      (if key_owner k = j then of_bool (view s k \<noteq> None) - of_bool (e \<noteq> None) else 0)"
  using native_of_other [OF sok nk] e nk
  by (auto simp: v native_upd [OF finite_view] surplus_upd [OF finite_view nk] fun_eq_iff)

text \<open>Storing an account that exists.\<close>

lemma account_change_totals:
  assumes st: "account_storeChange f s = Inr (f', s')" and ok: "sess_ok tr base s" and fit: "signers_fit f"
    and a: "account_at (view s) (acc_accountID (af_account f)) = Some a"
    and sg: "mUpdateSigners f \<or> acc_signers a = acc_signers (af_account f)"
  shows "sess_ok tr base s'" and "view s' = (view s)(AccountKey (acc_accountID (af_account f)) \<mapsto> account_entry f')"
    and "hdr s' = hdr s" and "af_account f' = af_account f" and "current (view s') f'"
    and "native (view s') = native (view s) - acc_balance a + acc_balance (af_account f)"
    and "surplus (view s') j = surplus (view s) j
      + (if j = acc_accountID (af_account f)
         then (uint (acc_numSubEntries (af_account f)) - int (length (acc_signers (af_account f))))
            - (uint (acc_numSubEntries a) - int (length (acc_signers a)))
         else 0)"
proof -
  let ?i = "acc_accountID (af_account f)"
  have sync: "mUpdateSigners f \<or> map_option acc_signers (account_at (view s) ?i) = Some (acc_signers (af_account f))"
    using a sg by auto
  note st' = account_store_law [OF st ok signers_fit_sub [OF fit] sync]
  show 1: "sess_ok tr base s'" "view s' = (view s)(AccountKey ?i \<mapsto> account_entry f')"
    "hdr s' = hdr s" "af_account f' = af_account f" using st'(1-4) by simp_all
  show "current (view s') f'" using 1(2,4) by (simp add: current_def)
  show "native (view s') = native (view s) - acc_balance a + acc_balance (af_account f)"
    unfolding 1(2) using native_of_account [OF a] by (simp add: native_upd [OF finite_view] 1(4))
  show "surplus (view s') j = surplus (view s) j
      + (if j = ?i then (uint (acc_numSubEntries (af_account f)) - int (length (acc_signers (af_account f))))
            - (uint (acc_numSubEntries a) - int (length (acc_signers a))) else 0)"
    unfolding 1(2) using a 1(4) by (auto simp: surplus_def [of "view s"])
qed

lemma addNumEntries_up:
  assumes "addNumEntries 1 lm f = Inr (f', True)" and "acc_numSubEntries (af_account f) \<le> INT32_MAX"
  shows "f' = f\<lparr>af_account := (af_account f)\<lparr>acc_numSubEntries := acc_numSubEntries (af_account f) + 1\<rparr>\<rparr>"
    and "uint (acc_numSubEntries (af_account f')) = uint (acc_numSubEntries (af_account f)) + 1"
proof -
  from addNumEntries_Inr [OF assms(1)]
  show f': "f' = f\<lparr>af_account := (af_account f)\<lparr>acc_numSubEntries := acc_numSubEntries (af_account f) + 1\<rparr>\<rparr>"
    by simp
  have "unat (acc_numSubEntries (af_account f)) \<le> 2147483647"
    using assms(2) by (simp add: word_le_nat_alt)
  then have "unat (acc_numSubEntries (af_account f) + 1) = unat (acc_numSubEntries (af_account f)) + 1"
    by (subst unat_add_lem [THEN iffD1]) simp_all
  from arg_cong [OF this, of int] show "uint (acc_numSubEntries (af_account f')) = uint (acc_numSubEntries (af_account f)) + 1"
    by (simp add: f')
qed

section \<open>Create account\<close>

lemma CreateAccount_law:
  assumes app: "CreateAccount_doApply lm op source s = Inr (code, s')" and sok: "sess_ok tr base s"
    and cnt: "counted (view s)" and cur: "current (view s) source"
  shows "kept tr base s s'"
proof -
  obtain dest s1 where ld: "loadAccount (ca_destination op) s = Inr (dest, s1)"
    using app by (auto simp: CreateAccount_doApply_def result_simps)
  note l = loadAccount_law [OF ld sok]
  consider "s' = s1" | src1 src2 s2 f f' where "dest = None"
      "account_addBalance (- ca_startingBalance op) source = Inr (src1, True)"
      "account_storeChange src1 s1 = Inr (src2, s2)" "account_storeAdd f s2 = Inr (f', s')"
      "f = (AccountFrame_id (ca_destination op))\<lparr>af_account := (af_account (AccountFrame_id (ca_destination op)))\<lparr>
        acc_seqNum := getStartingSequenceNumber (hdr s2), acc_balance := ca_startingBalance op\<rparr>\<rparr>"
    using app ld by (auto simp: CreateAccount_doApply_def result_simps Let_def split: if_splits)
  then show ?thesis
  proof cases
    case 1
    then show ?thesis using kept_same [OF l(1) cnt l(2,3)] by simp
  next
    case 2
    let ?d = "ca_destination op"
    have src1: "src1 = set_balance (acc_balance (af_account source) - ca_startingBalance op) source"
      using account_addBalance_Inr [OF 2(2)] by simp
    have a1: "account_at (view s1) (acc_accountID (af_account src1)) = Some (af_account source)"
      using cur l(2) by (simp add: src1 current_def)
    have fit: "signers_fit src1" using counted_current_fit [OF cnt cur] by (simp add: src1)
    note c = account_change_totals [OF 2(3) l(1) fit a1]
    have c': "sess_ok tr base s2" "hdr s2 = hdr s" "native (view s2) = native (view s) - ca_startingBalance op"
      "surplus (view s2) = surplus (view s)"
      using c(1,3,6,7) l(2,3) by (auto simp: src1 fun_eq_iff)
    have f: "mUpdateSigners f" "acc_accountID (af_account f) = ?d" "acc_signers (af_account f) = []"
      "acc_numSubEntries (af_account f) = 0" "acc_balance (af_account f) = ca_startingBalance op"
      by (simp_all add: 2(5) AccountFrame_id_def)
    note n = account_store_law [OF 2(4) c'(1) f(3) disjI1 [OF f(1)]]
    have none: "view s2 (AccountKey ?d) = None" using n(6) f(2) by simp
    have v: "view s' = (view s2)(AccountKey ?d \<mapsto> account_entry f')" using n(2) f(2) by simp
    have "surplus (view s2) ?d = 0" using cnt c'(4) by (simp add: counted_def)
    then have "card (owned (view s2) ?d) = 0" using none by (simp add: surplus_def account_at_def)
    then have "surplus (view s') j = surplus (view s2) j" for j
      using \<open>surplus (view s2) ?d = 0\<close> n(4) f(3,4) by (auto simp: v)
    moreover have "native (view s') = native (view s)"
      using c'(3) none n(4) f(5) by (simp add: v native_upd [OF finite_view])
    ultimately show ?thesis using n(1,3) c'(2,4) cnt by (intro keptI) auto
  qed
qed

section \<open>Account merge\<close>

lemma Merge_law:
  assumes app: "Merge_doApply lm destination source s = Inr (code, s')" and sok: "sess_ok tr base s"
    and cnt: "counted (view s)" and cur: "current (view s) source" and ver: "ledgerVersion lm \<ge> 8"
    and dest: "Merge_doCheckValid destination (acc_accountID (af_account source)) = None"
  shows "kept tr base s s'"
proof -
  let ?i = "acc_accountID (af_account source)"
  have v8: "\<not> ledgerVersion lm < 8" using ver by simp
  obtain other s1 where ld: "loadAccount destination s = Inr (other, s1)"
    using app by (auto simp: Merge_doApply_def result_simps)
  note l = loadAccount_law [OF ld sok]
  have bal: "merge_sourceBalance lm source s1 = Inr (Some (acc_balance (af_account source)), s1)"
    using v8 by (simp add: merge_sourceBalance_def)
  consider "s' = s1" | f f1 f2 s2 where "other = Some f" "account_addBalance (acc_balance (af_account source)) f = Inr (f1, True)"
      "account_storeChange f1 s1 = Inr (f2, s2)" "account_storeDelete ?i s2 = Inr s'"
      "unat (acc_numSubEntries (af_account source)) = length (acc_signers (af_account source))"
    using app ld bal v8 by (auto simp: Merge_doApply_def result_simps split: option.splits if_splits)
  then show ?thesis
  proof cases
    case 1
    then show ?thesis using kept_same [OF l(1) cnt l(2,3)] by simp
  next
    case 2
    have ne: "destination \<noteq> ?i" using dest by (auto simp: Merge_doCheckValid_def split: if_splits)
    have f1: "f1 = set_balance (acc_balance (af_account f) + acc_balance (af_account source)) f"
      using account_addBalance_Inr [OF 2(2)] by simp
    note cf = loaded_current(1) [OF sok l(4) 2(1)] and id = loaded_current(2) [OF sok l(4) 2(1)]
    have a1: "account_at (view s1) (acc_accountID (af_account f1)) = Some (af_account f)"
      using cf l(2) by (simp add: f1 current_def)
    have fit: "signers_fit f1" using counted_current_fit [OF cnt cf] by (simp add: f1)
    note c = account_change_totals [OF 2(3) l(1) fit a1]
    have c': "sess_ok tr base s2" "hdr s2 = hdr s" "native (view s2) = native (view s) + acc_balance (af_account source)"
      "surplus (view s2) = surplus (view s)" "view s2 = (view s)(AccountKey destination \<mapsto> account_entry f2)"
      using c(1,2,3,6,7) l(2,3) id by (auto simp: f1 fun_eq_iff)
    have src: "account_at (view s2) ?i = Some (af_account source)"
      using cur ne by (simp add: c'(5) current_def)
    then have ex: "view s2 (AccountKey ?i) \<noteq> None" by (auto simp: account_at_def split: option.splits)
    note d = account_delete_law [OF 2(4) c'(1) ex]
    have "surplus (view s2) ?i = 0" using cnt c'(4) by (simp add: counted_def)
    moreover have "uint (acc_numSubEntries (af_account source)) = int (length (acc_signers (af_account source)))"
      using arg_cong [OF 2(5), of int] by simp
    ultimately have "card (owned (view s2) ?i) = 0" using src by (simp add: surplus_def)
    then have "surplus (view s') j = surplus (view s2) j" for j
      using \<open>surplus (view s2) ?i = 0\<close> by (auto simp: d(2) surplus_no_account)
    moreover have "native (view s') = native (view s)"
      using c'(3) native_of_account [OF src] by (simp add: d(2) native_upd [OF finite_view])
    ultimately show ?thesis using d(1,3) c'(2,4) cnt by (intro keptI) auto
  qed
qed

section \<open>Change trust\<close>

text \<open>Counting one sub-entry more or less.\<close>

lemma count_change:
  assumes add: "addNumEntries c lm source = Inr (src1, ok)" and st: "account_storeChange src1 s = Inr (src2, s')"
    and sok: "sess_ok tr base s" and cur: "current (view s) source" and fit: "signers_fit source"
    and c: "c = 1 \<and> ok \<or> c = - 1 \<and> int (length (acc_signers (af_account source))) + 1 \<le> uint (acc_numSubEntries (af_account source))"
  shows "sess_ok tr base s'" and "hdr s' = hdr s" and "native (view s') = native (view s)"
    and "surplus (view s') j = surplus (view s) j + (if j = acc_accountID (af_account source) then c else 0)"
    and "view s' = (view s)(AccountKey (acc_accountID (af_account source)) \<mapsto> account_entry src2)"
    and "current (view s') src2" and "acc_accountID (af_account src2) = acc_accountID (af_account source)"
proof -
  have a: "account_at (view s) (acc_accountID (af_account source)) = Some (af_account source)"
    using cur by (simp add: current_def)
  have src1: "signers_fit src1 \<and> acc_accountID (af_account src1) = acc_accountID (af_account source)
      \<and> acc_signers (af_account src1) = acc_signers (af_account source) \<and> acc_balance (af_account src1) = acc_balance (af_account source)
      \<and> uint (acc_numSubEntries (af_account src1)) = uint (acc_numSubEntries (af_account source)) + c"
    using c
  proof
    assume c1: "c = 1 \<and> ok"
    then have "addNumEntries 1 lm source = Inr (src1, True)" using add by simp
    note up = addNumEntries_up [OF this account_at_sub [OF sok a]]
    have "signers_fit src1" unfolding signers_fit_def up(2) using fit by (simp add: up(1) signers_fit_def)
    moreover have "uint (acc_numSubEntries (af_account src1)) = uint (acc_numSubEntries (af_account source)) + c"
      using up(2) c1 by simp
    ultimately show ?thesis using up(1) by simp
  next
    assume c1: "c = - 1 \<and> int (length (acc_signers (af_account source))) + 1 \<le> uint (acc_numSubEntries (af_account source))"
    then have "addNumEntries (- 1) lm source = Inr (src1, ok)" using add by simp
    from addNumEntries_down [OF this conjunct2 [OF c1]] show ?thesis using c1 by simp
  qed
  have "account_at (view s) (acc_accountID (af_account src1)) = Some (af_account source)" using a src1 by simp
  note l = account_change_totals [OF st sok conjunct1 [OF src1] this]
  show "sess_ok tr base s'" "hdr s' = hdr s" "native (view s') = native (view s)"
    "surplus (view s') j = surplus (view s) j + (if j = acc_accountID (af_account source) then c else 0)"
    "view s' = (view s)(AccountKey (acc_accountID (af_account source)) \<mapsto> account_entry src2)"
    "current (view s') src2" "acc_accountID (af_account src2) = acc_accountID (af_account source)"
    using l src1 by auto
qed

lemma current_other: "current L f \<Longrightarrow> \<not> is_account_key k \<Longrightarrow> current (L(k := e)) f"
  by (simp add: current_def)

lemma ChangeTrust_law:
  assumes app: "ChangeTrust_doApply lm op i source s = Inr (code, s')" and sok: "sess_ok tr base s"
    and cnt: "counted (view s)" and cur: "current (view s) source" and ver: "ledgerVersion lm \<ge> 8"
    and i: "acc_accountID (af_account source) = i"
  shows "kept tr base s s'"
proof -
  let ?k = "TrustLineKey i (ct_line op)"
  have nk: "\<not> is_account_key ?k" "key_owner ?k = i" by simp_all
  obtain t u s1 where ld: "loadTrustLineIssuer i (ct_line op) s = Inr ((t, u), s1)"
    using app by (auto simp: ChangeTrust_doApply_def result_simps)
  note l = loadTrustLineIssuer_law [OF ld sok]
  note fit = counted_current_fit [OF cnt cur]
  obtain j where j: "getIssuer (ct_line op) = Inr j" "map_option account_entry u = view s (AccountKey j)" using l(7) by blast
  have v2: "ledgerVersion lm > 2" using ver by (rule less_le_trans [rotated]) simp
  have notself: "j \<noteq> i" if "s' \<noteq> s1"
  proof
    assume "j = i"
    then have "view s (AccountKey j) \<noteq> None" using cur i by (auto simp: current_def account_at_def split: option.splits)
    then obtain f where "u = Some f" using j(2) by auto
    then have "acc_accountID (af_account f) = i" using loaded_current(2) [OF sok j(2)] \<open>j = i\<close> by simp
    then show False using app ld v2 that \<open>u = Some f\<close> by (simp add: ChangeTrust_doApply_def)
  qed
  show ?thesis
  proof (cases "s' = s1")
    case True
    then show ?thesis using kept_same [OF l(1) cnt l(2,3)] by simp
  next
    case ne: False
    have self: "\<not> (ledgerVersion lm > 2 \<and> (case u of Some f \<Rightarrow> acc_accountID (af_account f) = i | None \<Rightarrow> False))"
      using app ld ne by (auto simp: ChangeTrust_doApply_def)
    have tl: "\<not> mIsIssuer f \<and> view s ?k = Some (trust_entry f) \<and> trust_key f = (i, ct_line op)" if "t = Some f" for f
      using l(6) [OF that] notself [OF ne] j(1) by auto
    consider f s2 src1 ok src2 where "t = Some f" "trust_storeDelete (trust_key f) s1 = Inr s2"
        "addNumEntries (- 1) lm source = Inr (src1, ok)" "account_storeChange src1 s2 = Inr (src2, s')"
      | f f' where "t = Some f" "trust_storeChange (f\<lparr>tf_trustLine := (tf_trustLine f)\<lparr>tl_limit := ct_limit op\<rparr>\<rparr>) s1 = Inr (f', s')"
      | b src1 src2 s2 f where "t = None" "addNumEntries 1 lm source = Inr (src1, True)"
        "account_storeChange src1 s1 = Inr (src2, s2)"
        "trust_storeAdd (setAuthorized b (new_trustLine i (ct_line op) (ct_limit op))) s2 = Inr (f, s')"
      using app ld self ne by (auto simp: ChangeTrust_doApply_def result_simps Let_def split: option.splits if_splits)
    then show ?thesis
    proof cases
      case 1
      have own: "int (length (acc_signers (af_account source))) + 1 \<le> uint (acc_numSubEntries (af_account source))"
        using counted_owned [OF cnt finite_view, of ?k] tl [OF 1(1)] cur i by (simp add: current_def)
      have "trust_storeDelete (i, ct_line op) s1 = Inr s2" "view s1 ?k \<noteq> None" using 1(2) tl [OF 1(1)] l(2) by simp_all
      note d = trust_delete_law [OF this(1) l(1) this(2)]
      note o = other_upd [OF l(1) d(2) nk(1) native_of_simps(1)]
      have cur2: "current (view s2) source" using current_other [OF cur nk(1)] d(2) l(2) by simp
      note c = count_change [OF 1(3,4) d(1) cur2 fit disjI2 [OF conjI [OF refl own]]]
      show ?thesis
        by (rule keptI [OF c(1) cnt]) (use c(2,3,4) o d(3) l(2,3) tl [OF 1(1)] i in \<open>auto simp: fun_eq_iff\<close>)
    next
      case 2
      note c = trust_change_law [OF 2(2) l(1)]
      show ?thesis by (rule keptI [OF c(1) cnt]) (use c(2,5,6) l(2,3) in simp_all)
    next
      case 3
      have cur1: "current (view s1) source" using cur l(2) by simp
      note c = count_change [OF 3(2,3) l(1) cur1 fit disjI1 [OF conjI [OF refl TrueI]]]
      note a = trust_store_law [OF 3(4) c(1)]
      have "\<not> mIsIssuer (setAuthorized b (new_trustLine i (ct_line op) (ct_limit op)))"
        by (simp add: setAuthorized_def new_trustLine_def)
      then have "view s' = (view s2)(?k := Some (trust_entry f)) \<and> view s2 ?k = None"
        using a(7) by (simp add: setAuthorized_def new_trustLine_def)
      then have v: "view s' = (view s2)(?k := Some (trust_entry f))" and none: "view s2 ?k = None" by simp_all
      note o = other_upd [OF c(1) v nk(1) native_of_simps(3)]
      show ?thesis
        by (rule keptI [OF a(1) cnt]) (use c(2,3,4) o a(2) l(2,3) none i in \<open>auto simp: fun_eq_iff\<close>)
    qed
  qed
qed

section \<open>Allow trust\<close>

lemma AllowTrust_law:
  assumes app: "AllowTrust_doApply lm op i source s = Inr (code, s')" and sok: "sess_ok tr base s"
    and cnt: "counted (view s)"
  shows "kept tr base s s'"
proof -
  consider "s' = s" | t s1 where "loadTrustLine (at_trustor op) (allow_asset (at_asset op) i) s = Inr (t, s1)" "s' = s1"
    | t s1 b f f' where "loadTrustLine (at_trustor op) (allow_asset (at_asset op) i) s = Inr (t, s1)"
      "trust_storeChange (setAuthorized b f) s1 = Inr (f', s')"
    using app by (auto simp: AllowTrust_doApply_def result_simps split: if_splits option.splits)
  then show ?thesis
  proof cases
    case 1
    then show ?thesis using sok cnt by (simp add: kept_same)
  next
    case 2
    note l = loadTrustLine_law [OF 2(1) sok]
    show ?thesis using kept_same [OF l(1) cnt l(2,3)] 2(2) by simp
  next
    case 3
    note l = loadTrustLine_law [OF 3(1) sok]
    note c = trust_change_law [OF 3(2) l(1)]
    show ?thesis by (rule keptI [OF c(1) cnt]) (use c(2,5,6) l(2,3) in simp_all)
  qed
qed

section \<open>Manage data\<close>

lemma record_plain:
  assumes "recordEntry e (fst s) = Inr d" and "sess_ok tr base s"
  shows "sess_ok tr base (d, snd s)" and "view (d, snd s) = view s" and "hdr (d, snd s) = hdr s"
proof -
  have "cache_ok (snd s\<lparr>db_cache := db_cache (snd s)\<rparr>)" using assms(2) by (simp add: sess_ok_def)
  note r = record_law [OF assms this]
  from r show "sess_ok tr base (d, snd s)" "hdr (d, snd s) = hdr s" by (simp_all add: hdr_def)
  show "view (d, snd s) = view s" by (simp add: view_def)
qed

lemma ManageData_law:
  assumes app: "ManageData_doApply lm op source s = Inr (code, s')" and sok: "sess_ok tr base s"
    and cnt: "counted (view s)" and cur: "current (view s) source"
  shows "kept tr base s s'"
proof -
  let ?i = "acc_accountID (af_account source)" and ?n = "md_dataName op"
  let ?k = "DataKey ?i ?n"
  have nk: "\<not> is_account_key ?k" "key_owner ?k = ?i" by simp_all
  note fit = counted_current_fit [OF cnt cur]
  obtain t where ld: "loadData ?i ?n (snd s) = Inr t"
    using app by (auto simp: ManageData_doApply_def result_simps Let_def split: if_splits)
  note l = loadData_law [OF ld sok]
  consider "s' = s"
    | v src1 f f' s1 src2 where "t = None" "addNumEntries 1 lm source = Inr (src1, True)"
      "f = \<lparr>df_lastModified = 0, df_data = \<lparr>data_accountID = ?i, data_dataName = ?n, data_dataValue = v\<rparr>\<rparr>"
      "data_storeAdd f s = Inr (f', s1)" "account_storeChange src1 s1 = Inr (src2, s')"
    | f v d f' where "t = Some f" "recordEntry (data_entry f) (fst s) = Inr d"
      "data_storeChange (f\<lparr>df_data := (df_data f)\<lparr>data_dataValue := v\<rparr>\<rparr>) (d, snd s) = Inr (f', s')"
    | f d src1 ok src2 s1 where "t = Some f" "recordEntry (data_entry f) (fst s) = Inr d"
      "addNumEntries (- 1) lm source = Inr (src1, ok)" "account_storeChange src1 (d, snd s) = Inr (src2, s1)"
      "data_storeDelete (data_key f) s1 = Inr s'"
    using app ld by (auto simp: ManageData_doApply_def result_simps Let_def split: option.splits if_splits)
  then show ?thesis
  proof cases
    case 1
    then show ?thesis using sok cnt by (simp add: kept_same)
  next
    case 2
    note a = data_store_law [OF 2(4) sok]
    have v: "view s1 = (view s)(?k := Some (data_entry f'))" and none: "view s ?k = None"
      using a(3,4) by (simp_all add: 2(3))
    note o = other_upd [OF sok v nk(1) native_of_simps(5)]
    have cur1: "current (view s1) source" using current_other [OF cur nk(1)] v by simp
    note c = count_change [OF 2(2,5) a(1) cur1 fit disjI1 [OF conjI [OF refl TrueI]]]
    show ?thesis by (rule keptI [OF c(1) cnt]) (use c(2,3,4) o a(2) none in \<open>auto simp: fun_eq_iff\<close>)
  next
    case 3
    note r = record_plain [OF 3(2) sok]
    note a = data_store_law [OF 3(3) r(1)]
    have "data_accountID (df_data f) = ?i" "data_dataName (df_data f) = ?n"
      using l(2) [OF 3(1)] by (simp_all add: data_key_def)
    then have v: "view s' = (view (d, snd s))(?k := Some (data_entry f'))" and some: "view (d, snd s) ?k \<noteq> None"
      using a(3,4) by simp_all
    note o = other_upd [OF r(1) v nk(1) native_of_simps(5)]
    show ?thesis by (rule keptI [OF a(1) cnt]) (use o a(2) r some in \<open>auto simp: fun_eq_iff\<close>)
  next
    case 4
    note r = record_plain [OF 4(2) sok]
    have some: "view s ?k \<noteq> None" unfolding l(1) [symmetric] using 4(1) by simp
    have cur1: "current (view (d, snd s)) source" using cur r(2) by simp
    have own: "int (length (acc_signers (af_account source))) + 1 \<le> uint (acc_numSubEntries (af_account source))"
      using counted_owned [OF cnt finite_view, of ?k] some cur by (simp add: current_def)
    note c = count_change [OF 4(3,4) r(1) cur1 fit disjI2 [OF conjI [OF refl own]]]
    have "data_storeDelete (?i, ?n) s1 = Inr s'" using 4(5) l(2) [OF 4(1)] by simp
    moreover have some1: "view s1 ?k \<noteq> None" using some c(5) r(2) by simp
    ultimately have d: "sess_ok tr base s'" "view s' = (view s1)(?k := None)" "hdr s' = hdr s1"
      using data_delete_law [OF _ c(1)] by simp_all
    note o = other_upd [OF c(1) d(2) nk(1) native_of_simps(1)]
    show ?thesis by (rule keptI [OF d(1) cnt]) (use c(2,3,4) o d(3) r some1 in \<open>auto simp: fun_eq_iff\<close>)
  qed
qed

section \<open>Set options\<close>

text \<open>What stays of a frame: its account, balance, and the sub-entries that are not signers.\<close>

definition same_entries :: "AccountFrame \<Rightarrow> AccountFrame \<Rightarrow> bool" where
  "same_entries f f' \<longleftrightarrow>
     acc_accountID (af_account f') = acc_accountID (af_account f) \<and> acc_balance (af_account f') = acc_balance (af_account f)
     \<and> uint (acc_numSubEntries (af_account f')) - int (length (acc_signers (af_account f')))
       = uint (acc_numSubEntries (af_account f)) - int (length (acc_signers (af_account f)))"

lemma addNumEntries_minus:
  assumes "addNumEntries (- 1) lm f = Inr (f', ok)" and "acc_numSubEntries (af_account f) \<noteq> 0"
  shows "f' = f\<lparr>af_account := (af_account f)\<lparr>acc_numSubEntries := acc_numSubEntries (af_account f) + word_of_int (- 1)\<rparr>\<rparr>"
    and "uint (acc_numSubEntries (af_account f')) = uint (acc_numSubEntries (af_account f)) - 1"
proof -
  show f': "f' = f\<lparr>af_account := (af_account f)\<lparr>acc_numSubEntries := acc_numSubEntries (af_account f) + word_of_int (- 1)\<rparr>\<rparr>"
    using assms(1) by (auto simp: addNumEntries_def Let_def split: if_splits)
  show "uint (acc_numSubEntries (af_account f')) = uint (acc_numSubEntries (af_account f)) - 1"
    using uint_pred [OF assms(2)] by (simp add: f')
qed

lemma erase_signers_law:
  assumes "erase_signers lm k ss f = Inr (ss', f')" and "int (length ss) \<le> uint (acc_numSubEntries (af_account f))"
  shows "acc_accountID (af_account f') = acc_accountID (af_account f) \<and> acc_balance (af_account f') = acc_balance (af_account f)
    \<and> uint (acc_numSubEntries (af_account f')) - int (length ss') = uint (acc_numSubEntries (af_account f)) - int (length ss)"
  using assms
proof (induction ss arbitrary: f ss')
  case (Cons sg ss)
  show ?case
  proof (cases "signer_key sg = k")
    case True
    then obtain f1 ok where add: "addNumEntries (- 1) lm f = Inr (f1, ok)" and rest: "erase_signers lm k ss f1 = Inr (ss', f')"
      using Cons.prems(1) by (auto simp: result_simps)
    have "acc_numSubEntries (af_account f) \<noteq> 0" using Cons.prems(2) by auto
    note m = addNumEntries_minus [OF add this]
    have "int (length ss) \<le> uint (acc_numSubEntries (af_account f1))" using Cons.prems(2) m(2) by simp
    from Cons.IH [OF rest this] m(2) show ?thesis by (simp add: m(1))
  next
    case False
    then obtain ss1 where rest: "erase_signers lm k ss f = Inr (ss1, f')" and ss': "ss' = sg # ss1"
      using Cons.prems(1) by (auto simp: result_simps)
    from Cons.IH [OF rest] Cons.prems(2) show ?thesis by (simp add: ss')
  qed
qed simp

lemma setUpdateSigners_simps [simp]:
  "same_entries f (setUpdateSigners g) = same_entries f g"
  "mUpdateSigners (setUpdateSigners g)"
  by (simp_all add: same_entries_def setUpdateSigners_def account_normalize_def)

lemma SetOptions_signer_law:
  assumes "SetOptions_signer lm sg f = Inr (code, f')" and "code = None" and fit: "signers_fit f"
    and sub: "acc_numSubEntries (af_account f) \<le> INT32_MAX"
  shows "same_entries f f'" and "mUpdateSigners f'"
proof -
  have "same_entries f f' \<and> mUpdateSigners f'"
  proof (cases "signer_weight sg = 0")
    case True
    then obtain ss f1 where "erase_signers lm (signer_key sg) (acc_signers (af_account f)) f = Inr (ss, f1)"
      and f': "f' = setUpdateSigners (set_signers ss f1)"
      using assms(1) by (auto simp: SetOptions_signer_def Let_def result_simps)
    from erase_signers_law [OF this(1)] fit have "same_entries f (set_signers ss f1)"
      by (simp add: same_entries_def set_signers_def signers_fit_def)
    then show ?thesis by (simp add: f')
  next
    case nz: False
    show ?thesis
    proof (cases "list_ex (\<lambda>old. signer_key old = signer_key sg) (acc_signers (af_account f))")
      case True
      define ss where "ss = map (\<lambda>old. if signer_key old = signer_key sg then old\<lparr>signer_weight := signer_weight sg\<rparr> else old)
        (acc_signers (af_account f))"
      have "f' = setUpdateSigners (set_signers ss f)" "length ss = length (acc_signers (af_account f))"
        using True nz assms(1) by (simp_all add: SetOptions_signer_def Let_def ss_def)
      moreover from this(2) have "same_entries f (set_signers ss f)" by (simp add: set_signers_def same_entries_def)
      ultimately show ?thesis by simp
    next
      case False
      then obtain f1 where add: "addNumEntries 1 lm f = Inr (f1, True)"
        and f': "f' = setUpdateSigners (set_signers (acc_signers (af_account f) @ [sg]) f1)"
        using nz assms(1,2) by (auto simp: SetOptions_signer_def Let_def result_simps split: if_splits)
      note up = addNumEntries_up [OF add sub]
      have "same_entries f (set_signers (acc_signers (af_account f) @ [sg]) f1)"
        unfolding same_entries_def set_signers_def using up(2) by (simp add: up(1))
      then show ?thesis by (simp add: f')
    qed
  qed
  then show "same_entries f f'" "mUpdateSigners f'" by simp_all
qed

lemma opt_update_field:
  "(\<And>x b. g (h x b) = g b) \<Longrightarrow> g (opt_update v h a) = g a"
  by (simp add: opt_update_def split: option.splits)

lemma set_plain_options_fields:
  "acc_accountID (set_plain_options op a) = acc_accountID a" "acc_balance (set_plain_options op a) = acc_balance a"
  "acc_signers (set_plain_options op a) = acc_signers a" "acc_numSubEntries (set_plain_options op a) = acc_numSubEntries a"
  by (simp_all add: set_plain_options_def opt_update_def set_threshold_def split: option.splits)

text \<open>The account after the options before the signer: the fields that count are as they were.\<close>

definition set_flags_options :: "SetOptionsOp \<Rightarrow> AccountEntry \<Rightarrow> AccountEntry" where
  "set_flags_options op a =
     set_plain_options op
       (opt_update (so_setFlags op) (\<lambda>x a. a\<lparr>acc_flags := acc_flags a OR x\<rparr>)
         (opt_update (so_clearFlags op) (\<lambda>x a. a\<lparr>acc_flags := acc_flags a AND NOT x\<rparr>)
           (opt_update (so_inflationDest op) (\<lambda>i a. a\<lparr>acc_inflationDest := Some i\<rparr>) a)))"

lemma set_flags_options_fields:
  "acc_accountID (set_flags_options op a) = acc_accountID a" "acc_balance (set_flags_options op a) = acc_balance a"
  "acc_signers (set_flags_options op a) = acc_signers a" "acc_numSubEntries (set_flags_options op a) = acc_numSubEntries a"
  by (simp_all add: set_flags_options_def set_plain_options_fields opt_update_field)

lemma SetOptions_steps:
  assumes app: "SetOptions_doApply lm op f s = Inr (code, s')"
  obtains "s' = s" | i a where "loadAccount i s = Inr (a, s')"
  | s1 f1 f2 where "s1 = s \<or> (\<exists>i a. loadAccount i s = Inr (a, s1))"
    "(case so_signer op of Some sg \<Rightarrow> SetOptions_signer lm sg (f\<lparr>af_account := set_flags_options op (af_account f)\<rparr>)
       | None \<Rightarrow> Inr (None, f\<lparr>af_account := set_flags_options op (af_account f)\<rparr>)) = Inr (None, f1)"
    "account_storeChange f1 s1 = Inr (f2, s')"
proof -
  obtain ok s1 where ld: "(case so_inflationDest op of Some i \<Rightarrow> bindE (loadAccount i s) (\<lambda>(a, s). Inr (a \<noteq> None, s))
      | None \<Rightarrow> Inr (True, s)) = Inr (ok, s1)"
    using app by (auto simp: SetOptions_doApply_def result_simps)
  then have s1: "s1 = s \<or> (\<exists>i a. loadAccount i s = Inr (a, s1))"
    by (auto simp: result_simps split: option.splits)
  let ?f = "f\<lparr>af_account := set_flags_options op (af_account f)\<rparr>"
  consider "s' = s1" | f1 f2 where "(case so_signer op of Some sg \<Rightarrow> SetOptions_signer lm sg ?f | None \<Rightarrow> Inr (None, ?f)) = Inr (None, f1)"
      "account_storeChange f1 s1 = Inr (f2, s')"
    using app unfolding SetOptions_doApply_def ld Let_def bindE_simps set_flags_options_def
    by (auto simp: result_simps split: if_splits option.splits)
  then show thesis using s1 that by cases blast+
qed

lemma SetOptions_law:
  assumes app: "SetOptions_doApply lm op source s = Inr (code, s')" and sok: "sess_ok tr base s"
    and cnt: "counted (view s)" and cur: "current (view s) source"
  shows "kept tr base s s'"
  using app
proof (cases rule: SetOptions_steps)
  case 1
  then show ?thesis using sok cnt by (simp add: kept_same)
next
  case 2
  note l = loadAccount_law [OF this sok]
  show ?thesis by (rule kept_same [OF l(1) cnt l(2,3)])
next
  case (3 s1 f1 f2)
  let ?f = "source\<lparr>af_account := set_flags_options op (af_account source)\<rparr>"
  have l: "sess_ok tr base s1" "view s1 = view s" "hdr s1 = hdr s"
    using 3(1) loadAccount_law(1-3) [OF _ sok, where s' = s1] sok by blast+
  have a: "account_at (view s) (acc_accountID (af_account source)) = Some (af_account source)"
    using cur by (simp add: current_def)
  note fit = counted_current_fit [OF cnt cur]
  have f: "same_entries source ?f" "signers_fit ?f" "acc_numSubEntries (af_account ?f) \<le> INT32_MAX"
    "acc_signers (af_account ?f) = acc_signers (af_account source)"
    using fit account_at_sub [OF sok a] by (simp_all add: same_entries_def signers_fit_def set_flags_options_fields)
  have "same_entries ?f f1 \<and> (mUpdateSigners f1 \<or> f1 = ?f)"
    using 3(2) SetOptions_signer_law [OF _ refl f(2,3)] by (auto simp: same_entries_def split: option.splits)
  then have f1: "same_entries source f1" "mUpdateSigners f1 \<or> acc_signers (af_account source) = acc_signers (af_account f1)"
    using f(1,4) by (auto simp: same_entries_def)
  have fit1: "signers_fit f1" using f1(1) fit unfolding same_entries_def signers_fit_def by linarith
  have a1: "account_at (view s1) (acc_accountID (af_account f1)) = Some (af_account source)"
    using a f1(1) l(2) by (simp add: same_entries_def)
  note c = account_change_totals [OF 3(3) l(1) fit1 a1 f1(2)]
  show ?thesis
    by (rule keptI [OF c(1) cnt]) (use c(3,6,7) f1(1) l in \<open>auto simp: fun_eq_iff same_entries_def\<close>)
qed

section \<open>Inflation\<close>

lemma upd_header_simps [simp]:
  "sess_ok tr base (upd_header g s) = sess_ok tr base s" "view (upd_header g s) = view s" "hdr (upd_header g s) = g (hdr s)"
  "snd (upd_header g s) = snd s"
  by (simp_all add: upd_header_def sess_ok_header view_def hdr_def)

lemma inflation_dole_law:
  assumes "inflation_dole lm amt votes ws left pay s = Inr (left', pay', s')" and "sess_ok tr base s" and "counted (view s)"
    and "ledgerVersion lm \<ge> 8"
  shows "sess_ok tr base s' \<and> counted (view s') \<and> hdr s' = hdr s \<and> native (view s') + left' = native (view s) + left"
  using assms
proof (induction ws arbitrary: left pay s)
  case (Cons w ws)
  have v8: "\<not> ledgerVersion lm \<le> 7" using Cons.prems(4) by (auto simp: not_le intro: less_le_trans [rotated])
  consider "inflation_dole lm amt votes ws left pay s = Inr (left', pay', s')"
    | a s1 where "loadAccount (fst w) s = Inr (a, s1)" "inflation_dole lm amt votes ws left pay s1 = Inr (left', pay', s')"
    | f f1 f2 s1 s2 n where "loadAccount (fst w) s = Inr (Some f, s1)" "account_addBalance n f = Inr (f1, True)"
      "account_storeChange f1 s1 = Inr (f2, s2)"
      "inflation_dole lm amt votes ws (left - n) (pay @ [(fst w, n)]) s2 = Inr (left', pay', s')"
    using Cons.prems(1) v8 by (auto simp: result_simps Let_def split: if_splits option.splits)
  then show ?case
  proof cases
    case 1
    then show ?thesis by (rule Cons.IH [OF _ Cons.prems(2-4)])
  next
    case 2
    note l = loadAccount_law [OF 2(1) Cons.prems(2)]
    have "counted (view s1)" using Cons.prems(3) l(2) by simp
    from Cons.IH [OF 2(2) l(1) this Cons.prems(4)] l show ?thesis by simp
  next
    case 3
    note l = loadAccount_law [OF 3(1) Cons.prems(2)]
    note cf = loaded_current(1) [OF Cons.prems(2) l(4) refl]
    have f1: "f1 = set_balance (acc_balance (af_account f) + n) f" using account_addBalance_Inr [OF 3(2)] by simp
    have a1: "account_at (view s1) (acc_accountID (af_account f1)) = Some (af_account f)"
      using cf l(2) by (simp add: f1 current_def)
    have fit: "signers_fit f1" using counted_current_fit [OF Cons.prems(3) cf] by (simp add: f1)
    have sg: "mUpdateSigners f1 \<or> acc_signers (af_account f) = acc_signers (af_account f1)" by (simp add: f1)
    note c = account_change_totals [OF 3(3) l(1) fit a1 sg]
    have c': "surplus (view s2) = surplus (view s)" "native (view s2) = native (view s) + n" "hdr s2 = hdr s"
      using c(3,6,7) l(2,3) by (auto simp: f1 fun_eq_iff)
    have "counted (view s2)" using Cons.prems(3) c'(1) by (simp add: counted_def)
    from Cons.IH [OF 3(4) c(1) this Cons.prems(4)] c' show ?thesis by simp
  qed
qed simp

lemma Inflation_law:
  assumes app: "Inflation_doApply toStrKey lm s = Inr (r, s')" and sok: "sess_ok tr base s" and cnt: "counted (view s)"
    and ver: "ledgerVersion lm \<ge> 8"
  shows "kept tr base s s'"
proof -
  obtain d db where s: "s = (d, db)" by fastforce
  let ?in = "(LedgerDelta_nested d, db)"
  let ?h = "hdr ?in"
  have n: "sess_ok tr (db_ledger db) ?in" "?h = hdr s" using nested_law [of tr base d db] sok s by simp_all
  have v8: "ledgerVersion lm > 7" using ver by (rule less_le_trans [rotated]) simp
  consider db' where "rollback_scope (LedgerDelta_nested d) db db = Inr db'" "s' = (d, db')"
    | infl ws left pay s1 t' d' where
      "inflation_dole lm (infl + feePool ?h) (totalCoins ?h) ws (infl + feePool ?h) []
        (upd_header (\<lambda>h. h\<lparr>feePool := 0, inflationSeq := inflationSeq h + 1\<rparr>) ?in) = Inr (left, pay, s1)"
      "commit_nested (fst (upd_header (\<lambda>h. h\<lparr>totalCoins := totalCoins h + infl\<rparr>) (upd_header (\<lambda>h. h\<lparr>feePool := feePool h + left\<rparr>) s1))) d
        = Inr (t', d')" "s' = (d', snd s1)"
    using app v8 by (auto simp: Inflation_doApply_def s Let_def result_simps split: if_splits)
  then show ?thesis
  proof cases
    case 1
    have "db_ok db" "cache_ok db" using sok by (simp_all add: s sess_ok_def)
    with rollback_scope_law [OF n(1)] 1(1) obtain c where db': "cache_ok db'" "db' = db\<lparr>db_cache := c\<rparr>" by auto
    then have "sess_ok tr base s'" using sok by (simp add: s 1(2) sess_ok_def)
    then show ?thesis by (rule kept_same [OF _ cnt]) (simp_all add: s 1(2) view_def hdr_def db'(2))
  next
    case 2
    let ?t = "upd_header (\<lambda>h. h\<lparr>totalCoins := totalCoins h + infl\<rparr>) (upd_header (\<lambda>h. h\<lparr>feePool := feePool h + left\<rparr>) s1)"
    have v: "view ?in = view s" by (simp add: s view_def)
    have l: "sess_ok tr (db_ledger db) s1" "counted (view s1)" "hdr s1 = ?h\<lparr>feePool := 0, inflationSeq := inflationSeq ?h + 1\<rparr>"
      "native (view s1) + left = native (view s) + (infl + feePool ?h)"
      using inflation_dole_law [OF 2(1) _ _ ver, of tr "db_ledger db"] n(1) cnt v by simp_all
    have t: "sess_ok tr (db_ledger db) (fst ?t, snd s1)"
      using l(1) by (cases s1) (simp add: upd_header_def sess_ok_header)
    have "tracks tr base d (db_ledger db)" using sok by (simp add: s sess_ok_tracks view_def)
    note c = commit_law [OF this t 2(2)]
    have "sess_ok tr base s'" "hdr s' = hdr ?t" using c by (simp_all add: 2(3) hdr_def)
    moreover have "view s' = view s1" by (simp add: 2(3) view_def)
    ultimately show ?thesis using l n(2) by (simp add: kept_def lumens_def)
  qed
qed

end
