(* ===== verification/Payments.thy ===== *)
theory Payments
  imports Operation_Laws
begin

text \<open>
  Payments (\<open>PathPaymentOpFrame.cpp\<close>, \<open>PaymentOpFrame.cpp\<close>). A step that can end the operation gives
  \<^term>\<open>Inl\<close> of the result, or \<^term>\<open>Inr\<close> of what the code goes on with; both come with the session.
\<close>

section \<open>Path payments\<close>

record PathPaymentOp =
  pp_sendAsset :: Asset
  pp_sendMax :: int
  pp_destination :: AccountID
  pp_destAsset :: Asset
  pp_destAmount :: int
  pp_path :: "Asset list"

record SimplePaymentResult =
  spr_destination :: AccountID
  spr_asset :: Asset
  spr_amount :: int

datatype PathPaymentResult =
    PATH_PAYMENT_SUCCESS "ClaimOfferAtom list" SimplePaymentResult
  | PATH_PAYMENT_MALFORMED | PATH_PAYMENT_UNDERFUNDED | PATH_PAYMENT_SRC_NO_TRUST | PATH_PAYMENT_SRC_NOT_AUTHORIZED
  | PATH_PAYMENT_NO_DESTINATION | PATH_PAYMENT_NO_TRUST | PATH_PAYMENT_NOT_AUTHORIZED | PATH_PAYMENT_LINE_FULL
  | PATH_PAYMENT_NO_ISSUER Asset | PATH_PAYMENT_TOO_FEW_OFFERS | PATH_PAYMENT_OFFER_CROSS_SELF | PATH_PAYMENT_OVER_SENDMAX

definition PathPayment_doCheckValid :: "PathPaymentOp \<Rightarrow> PathPaymentResult option" where
  "PathPayment_doCheckValid op =
     (if pp_destAmount op \<le> 0 \<or> pp_sendMax op \<le> 0 then Some PATH_PAYMENT_MALFORMED
      else if \<not> isAssetValid (pp_sendAsset op) \<or> \<not> isAssetValid (pp_destAsset op) then Some PATH_PAYMENT_MALFORMED
      else if \<not> list_all isAssetValid (pp_path op) then Some PATH_PAYMENT_MALFORMED
      else None)"

definition bypassIssuerCheck :: "PathPaymentOp \<Rightarrow> bool" where
  "bypassIssuerCheck op \<longleftrightarrow>
     pp_destAsset op \<noteq> Native \<and> pp_path op = [] \<and> pp_sendAsset op = pp_destAsset op
     \<and> getIssuer (pp_destAsset op) = Inr (pp_destination op)"

text \<open>The line of an account, with the issuer checked unless it is to be bypassed.\<close>

definition load_line ::
  "bool \<Rightarrow> AccountID \<Rightarrow> Asset \<Rightarrow> session \<Rightarrow> ((PathPaymentResult + TrustFrame option) \<times> session) result" where
  "load_line bypass i asset s =
     (if bypass then bindE (loadTrustLine i asset s) (\<lambda>(line, s). Inr (Inr line, s))
      else bindE (loadTrustLineIssuer i asset s) (\<lambda>((line, issuer), s).
        Inr (if issuer = None then Inl (PATH_PAYMENT_NO_ISSUER asset) else Inr line, s)))"

text \<open>A line is changed by an amount; the results are for no line, no authorisation and no room.\<close>

definition change_line ::
  "bool \<Rightarrow> AccountID \<Rightarrow> Asset \<Rightarrow> int \<Rightarrow> PathPaymentResult \<Rightarrow> PathPaymentResult \<Rightarrow> PathPaymentResult \<Rightarrow> session \<Rightarrow>
    (PathPaymentResult option \<times> session) result" where
  "change_line bypass i asset delta noTrust notAuthorized full s =
     bindE (load_line bypass i asset s) (\<lambda>(line, s).
     case line of
       Inl code \<Rightarrow> Inr (Some code, s)
     | Inr None \<Rightarrow> Inr (Some noTrust, s)
     | Inr (Some line) \<Rightarrow>
         if \<not> isAuthorized line then Inr (Some notAuthorized, s)
         else bindE (trust_addBalance delta line) (\<lambda>(line, ok).
           if \<not> ok then Inr (Some full, s)
           else bindE (trust_storeChange line s) (\<lambda>(line, s). Inr (None, s))))"

definition pay_destination :: "PathPaymentOp \<Rightarrow> session \<Rightarrow> (PathPaymentResult option \<times> session) result" where
  "pay_destination op s =
     (let bypass = bypassIssuerCheck op in
      bindE (if bypass then Inr (None, s) else loadAccount (pp_destination op) s) (\<lambda>(destination, s).
      if \<not> bypass \<and> destination = None then Inr (Some PATH_PAYMENT_NO_DESTINATION, s)
      else if pp_destAsset op = Native
      then deref destination (\<lambda>f. bindE (account_addBalance (pp_destAmount op) f) (\<lambda>(f, ok).
        if \<not> ok then Inr (Some PATH_PAYMENT_MALFORMED, s)
        else bindE (account_storeChange f s) (\<lambda>(f, s). Inr (None, s))))
      else change_line bypass (pp_destination op) (pp_destAsset op) (pp_destAmount op)
             PATH_PAYMENT_NO_TRUST PATH_PAYMENT_NOT_AUTHORIZED PATH_PAYMENT_LINE_FULL s))"

definition path_filter :: "AccountID \<Rightarrow> OfferFrame \<Rightarrow> PathPaymentResult OfferFilterResult" where
  "path_filter sourceID f =
     (if off_sellerID (of_offer f) = sourceID then eStop PATH_PAYMENT_OFFER_CROSS_SELF else eKeep)"

text \<open>The walk over the path, given from its end.\<close>

fun walk_path ::
  "LedgerHeader \<Rightarrow> AccountID \<Rightarrow> Asset list \<Rightarrow> Asset \<Rightarrow> int \<Rightarrow> ClaimOfferAtom list \<Rightarrow> session \<Rightarrow>
    ((PathPaymentResult + Asset \<times> int \<times> ClaimOfferAtom list) \<times> session) result" where
  "walk_path lm sourceID [] curB curBReceived offers s = Inr (Inr (curB, curBReceived, offers), s)"
| "walk_path lm sourceID (curA # rest) curB curBReceived offers s =
     (if curA = curB then walk_path lm sourceID rest curB curBReceived offers s
      else
        bindE (if curA \<noteq> Native
               then bindE (getIssuer curA) (\<lambda>i. bindE (loadAccount i s) (\<lambda>(a, s). Inr (a \<noteq> None, s)))
               else Inr (True, s)) (\<lambda>(ok, s).
        if \<not> ok then Inr (Inl (PATH_PAYMENT_NO_ISSUER curA), s)
        else
          bindE (convertWithOffers lm curA INT64_MAX curB curBReceived (path_filter sourceID) s) (\<lambda>(r, v, s).
          dbgAssert (cv_sheepSend v \<ge> 0)
            (case r of
               eFilterStop code \<Rightarrow> Inr (Inl code, s)
             | ePartial \<Rightarrow> Inr (Inl PATH_PAYMENT_TOO_FEW_OFFERS, s)
             | eOK \<Rightarrow>
                 if curBReceived \<noteq> cv_wheatReceived v then Inr (Inl PATH_PAYMENT_TOO_FEW_OFFERS, s)
                 else walk_path lm sourceID rest curA (cv_sheepSend v) (cv_trail v @ offers) s))))"

definition pay_source ::
  "LedgerHeader \<Rightarrow> AccountID \<Rightarrow> AccountFrame \<Rightarrow> bool \<Rightarrow> Asset \<Rightarrow> int \<Rightarrow> session \<Rightarrow> (PathPaymentResult option \<times> session) result" where
  "pay_source lm sourceID source bypass curB curBSent s =
     (if curB = Native
      then
        bindE (if ledgerVersion lm > 7 then loadAccount (acc_accountID (af_account source)) s else Inr (Some source, s)) (\<lambda>(f, s).
        case f of
          None \<Rightarrow> Inr (Some PATH_PAYMENT_MALFORMED, s)
        | Some f \<Rightarrow>
            if acc_balance (af_account f) - curBSent < getMinimumBalance lm f then Inr (Some PATH_PAYMENT_UNDERFUNDED, s)
            else bindE (account_addBalance (- curBSent) f) (\<lambda>(f, ok).
              dbgAssert ok (bindE (account_storeChange f s) (\<lambda>(f, s). Inr (None, s)))))
      else change_line bypass sourceID curB (- curBSent)
             PATH_PAYMENT_SRC_NO_TRUST PATH_PAYMENT_SRC_NOT_AUTHORIZED PATH_PAYMENT_UNDERFUNDED s)"

definition PathPayment_doApply ::
  "LedgerHeader \<Rightarrow> PathPaymentOp \<Rightarrow> AccountID \<Rightarrow> AccountFrame \<Rightarrow> session \<Rightarrow> (PathPaymentResult \<times> session) result" where
  "PathPayment_doApply lm op sourceID source s =
     bindE (pay_destination op s) (\<lambda>(code, s).
     case code of
       Some code \<Rightarrow> Inr (code, s)
     | None \<Rightarrow>
         bindE (walk_path lm sourceID (rev (pp_sendAsset op # pp_path op)) (pp_destAsset op) (pp_destAmount op) [] s) (\<lambda>(r, s).
         case r of
           Inl code \<Rightarrow> Inr (code, s)
         | Inr (curB, curBSent, offers) \<Rightarrow>
             if curBSent > pp_sendMax op then Inr (PATH_PAYMENT_OVER_SENDMAX, s)
             else
               bindE (pay_source lm sourceID source (bypassIssuerCheck op) curB curBSent s) (\<lambda>(code, s).
               case code of
                 Some code \<Rightarrow> Inr (code, s)
               | None \<Rightarrow>
                   Inr (PATH_PAYMENT_SUCCESS offers
                          \<lparr>spr_destination = pp_destination op, spr_asset = pp_destAsset op, spr_amount = pp_destAmount op\<rparr>, s))))"

fun path_succeeded :: "PathPaymentResult \<Rightarrow> bool" where
  "path_succeeded (PATH_PAYMENT_SUCCESS _ _) = True"
| "path_succeeded _ = False"

section \<open>Payments\<close>

record PaymentOp =
  pay_destination_id :: AccountID
  pay_asset :: Asset
  pay_amount :: int

datatype PaymentResultCode =
    PAYMENT_SUCCESS | PAYMENT_MALFORMED | PAYMENT_UNDERFUNDED | PAYMENT_SRC_NO_TRUST | PAYMENT_SRC_NOT_AUTHORIZED
  | PAYMENT_NO_DESTINATION | PAYMENT_NO_TRUST | PAYMENT_NOT_AUTHORIZED | PAYMENT_LINE_FULL | PAYMENT_NO_ISSUER

definition Payment_doCheckValid :: "PaymentOp \<Rightarrow> PaymentResultCode option" where
  "Payment_doCheckValid op =
     (if pay_amount op \<le> 0 then Some PAYMENT_MALFORMED
      else if \<not> isAssetValid (pay_asset op) then Some PAYMENT_MALFORMED
      else None)"

text \<open>The code of a payment for that of the path payment it is carried out as.\<close>

fun payment_code :: "PathPaymentResult \<Rightarrow> PaymentResultCode result" where
  "payment_code (PATH_PAYMENT_SUCCESS _ _) = Inr PAYMENT_SUCCESS"
| "payment_code PATH_PAYMENT_UNDERFUNDED = Inr PAYMENT_UNDERFUNDED"
| "payment_code PATH_PAYMENT_SRC_NOT_AUTHORIZED = Inr PAYMENT_SRC_NOT_AUTHORIZED"
| "payment_code PATH_PAYMENT_SRC_NO_TRUST = Inr PAYMENT_SRC_NO_TRUST"
| "payment_code PATH_PAYMENT_NO_DESTINATION = Inr PAYMENT_NO_DESTINATION"
| "payment_code PATH_PAYMENT_NO_TRUST = Inr PAYMENT_NO_TRUST"
| "payment_code PATH_PAYMENT_NOT_AUTHORIZED = Inr PAYMENT_NOT_AUTHORIZED"
| "payment_code PATH_PAYMENT_LINE_FULL = Inr PAYMENT_LINE_FULL"
| "payment_code (PATH_PAYMENT_NO_ISSUER _) = Inr PAYMENT_NO_ISSUER"
| "payment_code _ = Inl (RuntimeError ''Unexpected error code from pathPayment'')"

definition payment_path :: "PaymentOp \<Rightarrow> PathPaymentOp" where
  "payment_path op =
     \<lparr>pp_sendAsset = pay_asset op, pp_sendMax = pay_amount op, pp_destination = pay_destination_id op,
      pp_destAsset = pay_asset op, pp_destAmount = pay_amount op, pp_path = []\<rparr>"

definition Payment_doApply ::
  "LedgerHeader \<Rightarrow> PaymentOp \<Rightarrow> AccountID \<Rightarrow> AccountFrame \<Rightarrow> session \<Rightarrow> (PaymentResultCode \<times> session) result" where
  "Payment_doApply lm op sourceID source s =
     (if (if ledgerVersion lm > 2 then pay_destination_id op = sourceID \<and> pay_asset op = Native
          else pay_destination_id op = sourceID)
      then Inr (PAYMENT_SUCCESS, s)
      else
        bindE (case PathPayment_doCheckValid (payment_path op) of
                 Some code \<Rightarrow> Inr (code, s)
               | None \<Rightarrow> PathPayment_doApply lm (payment_path op) sourceID source s) (\<lambda>(code, s).
        bindE (payment_code code) (\<lambda>code. Inr (code, s))))"

section \<open>What a payment keeps\<close>

text \<open>The native amount a step still has to bring up: that of the destination is paid first.\<close>

definition due :: "Asset \<Rightarrow> int \<Rightarrow> int" where
  "due a n = (if a = Native then n else 0)"

definition paying :: "bool \<Rightarrow> ledger \<Rightarrow> int \<Rightarrow> session \<Rightarrow> session \<Rightarrow> bool" where
  "paying tr base n s s' \<longleftrightarrow>
     sess_ok tr base s' \<and> counted (view s') \<and> hdr s' = hdr s \<and> native (view s') = native (view s) + n"

lemma load_line_law:
  assumes "load_line bypass i a s = Inr (r, s')" and "sess_ok tr base s"
  shows "sess_ok tr base s' \<and> view s' = view s \<and> hdr s' = hdr s \<and> a \<noteq> Native"
  using assms loadTrustLine_law(1-4) [OF _ assms(2), of i a] loadTrustLineIssuer_law(1-4) [OF _ assms(2), of i a]
  by (auto simp: load_line_def result_simps split: if_splits; blast)

lemma change_line_law:
  assumes "change_line bypass i a delta e1 e2 e3 s = Inr (r, s')" and "sess_ok tr base s" and "counted (view s)"
  shows "paying tr base 0 s s' \<and> a \<noteq> Native"
proof -
  obtain line s1 where ld: "load_line bypass i a s = Inr (line, s1)"
    using assms(1) by (auto simp: change_line_def result_simps)
  have rest: "s' = s1 \<or> (\<exists>t t'. trust_storeChange t s1 = Inr (t', s'))"
    using assms(1) ld by (cases line) (auto simp: change_line_def result_simps split: option.splits if_splits)
  note l = load_line_law [OF ld assms(2)]
  from rest show ?thesis
  proof (elim disjE exE)
    fix t t' assume "trust_storeChange t s1 = Inr (t', s')"
    from trust_change_law [OF this conjunct1 [OF l]] l assms(3) show ?thesis by (simp add: paying_def counted_def)
  qed (use l assms(3) in \<open>simp add: paying_def\<close>)
qed

lemma balance_law:
  assumes add: "account_addBalance n f = Inr (f1, True)" and st: "account_storeChange f1 s = Inr (f2, s')"
    and sok: "sess_ok tr base s" and cnt: "counted (view s)" and cur: "current (view s) f"
  shows "paying tr base n s s'"
proof -
  have f1: "f1 = set_balance (acc_balance (af_account f) + n) f" using account_addBalance_Inr [OF add] by simp
  have a: "account_at (view s) (acc_accountID (af_account f1)) = Some (af_account f)" using cur by (simp add: f1 current_def)
  have fit: "signers_fit f1" using counted_current_fit [OF cnt cur] by (simp add: f1)
  have sg: "mUpdateSigners f1 \<or> acc_signers (af_account f) = acc_signers (af_account f1)" by (simp add: f1)
  note c = account_change_totals [OF st sok fit a sg]
  have "surplus (view s') = surplus (view s)" using c(7) by (auto simp: f1 fun_eq_iff)
  then show ?thesis using c(1,3,6) cnt by (simp add: paying_def counted_def f1)
qed

lemma paying_same: "paying tr base n s1 s' \<Longrightarrow> view s1 = view s \<Longrightarrow> hdr s1 = hdr s \<Longrightarrow> paying tr base n s s'"
  by (simp add: paying_def)

lemma pay_destination_law:
  assumes pay: "pay_destination op s = Inr (r, s')" and sok: "sess_ok tr base s" and cnt: "counted (view s)"
  shows "paying tr base (if r = None then due (pp_destAsset op) (pp_destAmount op) else 0) s s'"
proof -
  obtain dest s1 where ld: "(if bypassIssuerCheck op then Inr (None, s) else loadAccount (pp_destination op) s) = Inr (dest, s1)"
    using pay by (auto simp: pay_destination_def result_simps Let_def)
  have l: "sess_ok tr base s1" "view s1 = view s" "hdr s1 = hdr s"
    using ld loadAccount_law(1-3) [OF _ sok, of "pp_destination op" dest s1] sok by (auto split: if_splits)
  have same: "paying tr base 0 s s1" using l cnt by (simp add: paying_def)
  consider "s' = s1" "r \<noteq> None"
    | f f1 f2 where "pp_destAsset op = Native" "dest = Some f" "account_addBalance (pp_destAmount op) f = Inr (f1, True)"
      "account_storeChange f1 s1 = Inr (f2, s')" "r = None"
    | e1 e2 e3 where "pp_destAsset op \<noteq> Native"
      "change_line (bypassIssuerCheck op) (pp_destination op) (pp_destAsset op) (pp_destAmount op) e1 e2 e3 s1 = Inr (r, s')"
    using pay ld by (auto simp: pay_destination_def result_simps Let_def split: if_splits)
  then show ?thesis
  proof cases
    case 1
    then show ?thesis using same by auto
  next
    case 2
    have "loadAccount (pp_destination op) s = Inr (Some f, s1)" using ld 2(2) by (auto split: if_splits)
    from loadAccount_law(4) [OF this sok] have "current (view s) f" by (rule loaded_current(1) [OF sok]) simp
    then have "paying tr base (pp_destAmount op) s1 s'" using balance_law [OF 2(3,4) l(1)] cnt l(2) by simp
    then show ?thesis using 2 l by (simp add: due_def paying_def)
  next
    case 3
    have "counted (view s1)" using cnt l(2) by simp
    from change_line_law [OF 3(2) l(1) this] l 3(1) show ?thesis by (simp add: paying_def due_def)
  qed
qed

lemma walk_path_law:
  assumes "walk_path lm i as curB n offers s = Inr (r, s')" and "sess_ok tr base s" and "counted (view s)"
    and "3 \<le> ledgerVersion lm"
  shows "sess_ok tr base s' \<and> counted (view s') \<and> hdr s' = hdr s
    \<and> (\<forall>curB' n' offers'. r = Inr (curB', n', offers') \<longrightarrow> native (view s') - due curB' n' = native (view s) - due curB n)"
  using assms
proof (induction as arbitrary: curB n offers s)
  case (Cons a as)
  show ?case
  proof (cases "a = curB")
    case True
    with Cons.prems show ?thesis by (intro Cons.IH) simp_all
  next
    case ne: False
    obtain ok s1 where ld: "(if a \<noteq> Native then bindE (getIssuer a) (\<lambda>i. bindE (loadAccount i s) (\<lambda>(x, s). Inr (x \<noteq> None, s)))
        else Inr (True, s)) = Inr (ok, s1)"
      using Cons.prems(1) ne by (auto simp: result_simps)
    then have "s1 = s \<or> (\<exists>j x. loadAccount j s = Inr (x, s1))" by (auto simp: result_simps split: if_splits)
    then have l: "sess_ok tr base s1" "view s1 = view s" "hdr s1 = hdr s"
      using loadAccount_law(1-3) [OF _ Cons.prems(2), where s' = s1] Cons.prems(2) by blast+
    show ?thesis
    proof (cases ok)
      case False
      then show ?thesis using Cons.prems ne ld l by auto
    next
      case True
      obtain cr v s2 where cv: "convertWithOffers lm a INT64_MAX curB n (path_filter i) s1 = Inr (cr, v, s2)"
        using Cons.prems(1) ne ld True by (auto simp: result_simps)
      have cnt1: "counted (view s1)" using Cons.prems(3) l(2) by simp
      have flt: "off_sellerID (of_offer f) \<noteq> i" if "path_filter i f = eKeep" for f
        using that by (auto simp: path_filter_def split: if_splits)
      note c = convertWithOffers_law [OF cv l(1) cnt1 Cons.prems(4) ne flt]
      consider "s' = s2" "\<exists>code. r = Inl code"
        | "n = cv_wheatReceived v" "walk_path lm i as a (cv_sheepSend v) (cv_trail v @ offers) s2 = Inr (r, s')"
        using Cons.prems(1) ne ld True cv by (auto simp: result_simps split: ConvertResult.splits if_splits)
      then show ?thesis
      proof cases
        case 1
        then show ?thesis using c(1-3) l by auto
      next
        case 2
        from Cons.IH [OF 2(2) c(1,3) Cons.prems(4)] c(2,4) l 2(1) show ?thesis
          by (auto simp: due_def conv_gain_def)
      qed
    qed
  qed
qed auto

lemma pay_source_law:
  assumes pay: "pay_source lm i source b a n s = Inr (r, s')" and sok: "sess_ok tr base s" and cnt: "counted (view s)"
    and ver: "ledgerVersion lm \<ge> 8"
  shows "paying tr base (if r = None then - due a n else 0) s s'"
proof (cases "a = Native")
  case False
  then show ?thesis using change_line_law [OF _ sok cnt] pay by (auto simp: pay_source_def due_def)
next
  case True
  have "ledgerVersion lm > 7" using ver by (rule less_le_trans [rotated]) simp
  then obtain f s1 where ld: "loadAccount (acc_accountID (af_account source)) s = Inr (f, s1)"
    and rest: "s' = s1 \<and> r \<noteq> None \<or> (\<exists>g g1 g2. f = Some g \<and> account_addBalance (- n) g = Inr (g1, True)
      \<and> account_storeChange g1 s1 = Inr (g2, s') \<and> r = None)"
    using pay True by (auto simp: pay_source_def result_simps split: option.splits if_splits)
  note l = loadAccount_law [OF ld sok]
  from rest show ?thesis
  proof (elim disjE exE conjE)
    fix g g1 g2 assume g: "f = Some g" "account_addBalance (- n) g = Inr (g1, True)" "account_storeChange g1 s1 = Inr (g2, s')" "r = None"
    have "current (view s) g" by (rule loaded_current(1) [OF sok l(4) g(1)])
    then have "paying tr base (- n) s1 s'" using balance_law [OF g(2,3) l(1)] cnt l(2) by simp
    then show ?thesis using g(4) l True by (simp add: due_def paying_def)
  qed (use l cnt in \<open>auto simp: paying_def\<close>)
qed

text \<open>A step that ends the operation does not end it with success.\<close>

lemma change_line_fails:
  assumes "change_line b i a n e1 e2 e3 s = Inr (Some code, s')" and "\<not> path_succeeded e1" "\<not> path_succeeded e2" "\<not> path_succeeded e3"
  shows "\<not> path_succeeded code"
proof -
  obtain line s1 where ld: "load_line b i a s = Inr (line, s1)"
    using assms(1) by (auto simp: change_line_def result_simps)
  show ?thesis
  proof (cases line)
    case (Inl c)
    then have "c = PATH_PAYMENT_NO_ISSUER a" using ld by (auto simp: load_line_def result_simps split: if_splits)
    then show ?thesis using assms(1) ld Inl by (auto simp: change_line_def)
  next
    case (Inr t)
    then show ?thesis using assms ld by (auto simp: change_line_def result_simps split: option.splits if_splits)
  qed
qed

lemma pay_destination_fails:
  assumes "pay_destination op s = Inr (Some code, s')"
  shows "\<not> path_succeeded code"
  using assms by (auto simp: pay_destination_def Let_def result_simps split: if_splits dest: change_line_fails)

lemma pay_source_fails:
  assumes "pay_source lm i source b a n s = Inr (Some code, s')"
  shows "\<not> path_succeeded code"
  using assms by (auto simp: pay_source_def result_simps split: if_splits option.splits dest: change_line_fails)

lemma convert_list_stops:
  assumes "convert_list lm flt fs v s = Inr (Some (eFilterStop c), v', s')"
  shows "\<exists>f. flt f = eStop c"
  using assms
proof (induction fs arbitrary: v s)
  case (Cons f fs)
  then show ?case
    by (cases "flt f") (auto simp: result_simps Let_def split: if_splits intro: Cons.IH)
qed simp

lemma convert_stops:
  assumes "convertWithOffers lm a m b n flt s = Inr (eFilterStop c, v', s')"
  shows "\<exists>f. flt f = eStop c"
proof -
  have "\<exists>f. flt f = eStop c" if "convert_loop fuel lm flt a b v s = Inr (eFilterStop c, v', s')" for fuel v s
    using that
  proof (induction fuel arbitrary: v s)
    case (Suc fuel)
    then obtain fs r v1 s1 where l: "convert_list lm flt fs (v\<lparr>cv_offset := cv_offset v + length fs\<rparr>) s = Inr (r, v1, s1)"
      and r: "r = Some (eFilterStop c) \<or> convert_loop fuel lm flt a b v1 s1 = Inr (eFilterStop c, v', s')"
      by (auto simp: result_simps split: option.splits if_splits)
    from r show ?case
    proof
      assume "r = Some (eFilterStop c)"
      with l show ?thesis by (intro convert_list_stops) simp
    qed (rule Suc.IH)
  qed simp
  then show ?thesis using assms by (auto simp: convertWithOffers_def Let_def simp del: convert_loop.simps split: if_splits)
qed

lemma walk_path_fails:
  assumes "walk_path lm i as b n offers s = Inr (Inl code, s')"
  shows "\<not> path_succeeded code"
  using assms
proof (induction as arbitrary: b n offers s)
  case (Cons a as)
  consider b' n' offers' s1 where "walk_path lm i as b' n' offers' s1 = Inr (Inl code, s')"
    | "code = PATH_PAYMENT_NO_ISSUER a" | "code = PATH_PAYMENT_TOO_FEW_OFFERS"
    | s1 v where "convertWithOffers lm a INT64_MAX b n (path_filter i) s1 = Inr (eFilterStop code, v, s')"
    using Cons.prems by (cases "a = b") (auto simp: result_simps split: if_splits ConvertResult.splits, (metis ConvertResult.exhaust)+)
  then show ?case
  proof cases
    case 1
    then show ?thesis by (rule Cons.IH)
  next
    case 4
    from convert_stops [OF this] show ?thesis by (auto simp: path_filter_def split: if_splits)
  qed auto
qed simp

text \<open>Whatever a path payment ends with, tables, cache, delta and counts agree; if it succeeds, no native
  balance came or went.\<close>

lemma PathPayment_law:
  assumes app: "PathPayment_doApply lm op i source s = Inr (r, s')" and sok: "sess_ok tr base s" and cnt: "counted (view s)"
    and ver: "ledgerVersion lm \<ge> 8"
  shows "sess_ok tr base s'" and "counted (view s')" and "hdr s' = hdr s"
    and "path_succeeded r \<Longrightarrow> native (view s') = native (view s)"
proof -
  have v3: "3 \<le> ledgerVersion lm" using ver by (rule order_trans [rotated]) simp
  obtain c1 s1 where p: "pay_destination op s = Inr (c1, s1)" using app by (auto simp: PathPayment_doApply_def result_simps)
  note d = pay_destination_law [OF p sok cnt, unfolded paying_def]
  have "sess_ok tr base s' \<and> counted (view s') \<and> hdr s' = hdr s \<and> (path_succeeded r \<longrightarrow> native (view s') = native (view s))"
  proof (cases c1)
    case (Some code)
    then have "s' = s1" "r = code" using app p by (simp_all add: PathPayment_doApply_def)
    moreover have "\<not> path_succeeded code" using pay_destination_fails [of op s code s1] p Some by simp
    ultimately show ?thesis using d by auto
  next
    case None
    then obtain w s2 where wk: "walk_path lm i (rev (pp_sendAsset op # pp_path op)) (pp_destAsset op) (pp_destAmount op) [] s1 = Inr (w, s2)"
      using app p by (auto simp: PathPayment_doApply_def result_simps)
    have "sess_ok tr base s1" "counted (view s1)" using d by simp_all
    note wl = walk_path_law [OF wk this v3]
    show ?thesis
    proof (cases w)
      case (Inl code)
      then have "s' = s2" "r = code" using app p None wk by (simp_all add: PathPayment_doApply_def)
      moreover have "\<not> path_succeeded code" using walk_path_fails wk Inl by blast
      ultimately show ?thesis using wl d by auto
    next
      case (Inr x)
      obtain curB n offers where x: "x = (curB, n, offers)" by (cases x)
      show ?thesis
      proof (cases "n > pp_sendMax op")
        case True
        then show ?thesis using app p None wk Inr x wl d by (auto simp: PathPayment_doApply_def)
      next
        case False
        then obtain c2 where ps: "pay_source lm i source (bypassIssuerCheck op) curB n s2 = Inr (c2, s')"
          and r: "r = (case c2 of Some code \<Rightarrow> code | None \<Rightarrow> PATH_PAYMENT_SUCCESS offers
            \<lparr>spr_destination = pp_destination op, spr_asset = pp_destAsset op, spr_amount = pp_destAmount op\<rparr>)"
          using app p None wk Inr x by (auto simp: PathPayment_doApply_def result_simps split: option.splits)
        note sl = pay_source_law [OF ps _ _ ver, unfolded paying_def, of tr base]
        have "path_succeeded r \<longrightarrow> c2 = None" using r pay_source_fails ps by (auto split: option.splits)
        then show ?thesis using sl wl d None Inr x by auto
      qed
    qed
  qed
  then show "sess_ok tr base s'" "counted (view s')" "hdr s' = hdr s" "path_succeeded r \<Longrightarrow> native (view s') = native (view s)"
    by simp_all
qed

lemma Payment_law:
  assumes app: "Payment_doApply lm op i source s = Inr (r, s')" and sok: "sess_ok tr base s" and cnt: "counted (view s)"
    and ver: "ledgerVersion lm \<ge> 8"
  shows "sess_ok tr base s'" and "counted (view s')" and "hdr s' = hdr s"
    and "r = PAYMENT_SUCCESS \<Longrightarrow> native (view s') = native (view s)"
proof -
  have succ: "path_succeeded code" if "payment_code code = Inr PAYMENT_SUCCESS" for code
    using that by (cases code) simp_all
  consider "s' = s" | code where "PathPayment_doApply lm (payment_path op) i source s = Inr (code, s')" "payment_code code = Inr r"
    using app by (auto simp: Payment_doApply_def result_simps split: if_splits option.splits)
  then have "sess_ok tr base s' \<and> counted (view s') \<and> hdr s' = hdr s \<and> (r = PAYMENT_SUCCESS \<longrightarrow> native (view s') = native (view s))"
  proof cases
    case 1
    then show ?thesis using sok cnt by simp
  next
    case 2
    note l = PathPayment_law [OF 2(1) sok cnt ver]
    show ?thesis using l 2(2) succ [of code] by auto
  qed
  then show "sess_ok tr base s'" "counted (view s')" "hdr s' = hdr s" "r = PAYMENT_SUCCESS \<Longrightarrow> native (view s') = native (view s)"
    by simp_all
qed

end
