(* ===== verification/Manage_Offer.thy ===== *)
theory Manage_Offer
  imports Payments
begin

text \<open>
  Placing offers (\<open>ManageOfferOpFrame.cpp\<close>, \<open>CreatePassiveOfferOpFrame.cpp\<close>).

  The operation crosses the book with a delta of its own, \<open>tempDelta\<close>, in a database transaction, but
  writes the balances of the source to the outer delta. Where the code returns false after such a write,
  the tables are rolled back and the outer delta is not.
\<close>

record ManageOfferOp =
  mo_selling :: Asset
  mo_buying :: Asset
  mo_amount :: int
  mo_price :: Price
  mo_offerID :: uint64

datatype ManageOfferEffect =
    MANAGE_OFFER_CREATED OfferEntry | MANAGE_OFFER_UPDATED OfferEntry | MANAGE_OFFER_DELETED

datatype ManageOfferResult =
    MANAGE_OFFER_SUCCESS "ClaimOfferAtom list" ManageOfferEffect
  | MANAGE_OFFER_MALFORMED | MANAGE_OFFER_SELL_NO_TRUST | MANAGE_OFFER_BUY_NO_TRUST | MANAGE_OFFER_SELL_NOT_AUTHORIZED
  | MANAGE_OFFER_BUY_NOT_AUTHORIZED | MANAGE_OFFER_LINE_FULL | MANAGE_OFFER_UNDERFUNDED | MANAGE_OFFER_CROSS_SELF
  | MANAGE_OFFER_SELL_NO_ISSUER | MANAGE_OFFER_BUY_NO_ISSUER | MANAGE_OFFER_NOT_FOUND | MANAGE_OFFER_LOW_RESERVE

definition ManageOffer_doCheckValid :: "LedgerHeader \<Rightarrow> ManageOfferOp \<Rightarrow> ManageOfferResult option" where
  "ManageOffer_doCheckValid lm op =
     (if \<not> isAssetValid (mo_selling op) \<or> \<not> isAssetValid (mo_buying op) then Some MANAGE_OFFER_MALFORMED
      else if compareAsset (mo_selling op) (mo_buying op) then Some MANAGE_OFFER_MALFORMED
      else if mo_amount op < 0 \<or> price_d (mo_price op) \<le> 0 \<or> price_n (mo_price op) \<le> 0 then Some MANAGE_OFFER_MALFORMED
      else if ledgerVersion lm > 2 \<and> mo_offerID op = 0 \<and> mo_amount op = 0 then Some MANAGE_OFFER_NOT_FOUND
      else None)"

section \<open>The checks\<close>

definition check_selling ::
  "AccountID \<Rightarrow> Asset \<Rightarrow> session \<Rightarrow> ((ManageOfferResult + TrustFrame option) \<times> session) result" where
  "check_selling sourceID sheep s =
     (if sheep = Native then Inr (Inr None, s)
      else bindE (loadTrustLineIssuer sourceID sheep s) (\<lambda>((line, issuer), s).
        if issuer = None then Inr (Inl MANAGE_OFFER_SELL_NO_ISSUER, s)
        else case line of
            None \<Rightarrow> Inr (Inl MANAGE_OFFER_SELL_NO_TRUST, s)
          | Some t \<Rightarrow>
              bindE (trust_getBalance t) (\<lambda>balance.
              Inr (if balance = 0 then Inl MANAGE_OFFER_UNDERFUNDED
                   else if \<not> isAuthorized t then Inl MANAGE_OFFER_SELL_NOT_AUTHORIZED
                   else Inr line, s))))"

definition check_buying ::
  "AccountID \<Rightarrow> Asset \<Rightarrow> session \<Rightarrow> ((ManageOfferResult + TrustFrame option) \<times> session) result" where
  "check_buying sourceID wheat s =
     (if wheat = Native then Inr (Inr None, s)
      else bindE (loadTrustLineIssuer sourceID wheat s) (\<lambda>((line, issuer), s).
        Inr (if issuer = None then Inl MANAGE_OFFER_BUY_NO_ISSUER
             else case line of
                 None \<Rightarrow> Inl MANAGE_OFFER_BUY_NO_TRUST
               | Some t \<Rightarrow> if \<not> isAuthorized t then Inl MANAGE_OFFER_BUY_NOT_AUTHORIZED else Inr line, s)))"

text \<open>The lines in what is sold and bought.\<close>

definition checkOfferValid ::
  "AccountID \<Rightarrow> ManageOfferOp \<Rightarrow> session \<Rightarrow> ((ManageOfferResult + TrustFrame option \<times> TrustFrame option) \<times> session) result" where
  "checkOfferValid sourceID op s =
     (if mo_amount op = 0 then Inr (Inr (None, None), s)
      else
        bindE (check_selling sourceID (mo_selling op) s) (\<lambda>(r, s).
        case r of
          Inl code \<Rightarrow> Inr (Inl code, s)
        | Inr sheepLine \<Rightarrow>
            bindE (check_buying sourceID (mo_buying op) s) (\<lambda>(r, s).
            Inr (case r of Inl code \<Rightarrow> Inl code | Inr wheatLine \<Rightarrow> Inr (sheepLine, wheatLine), s))))"

definition buildOffer :: "AccountID \<Rightarrow> ManageOfferOp \<Rightarrow> uint32 \<Rightarrow> OfferEntry" where
  "buildOffer account op flags =
     \<lparr>off_sellerID = account, off_offerID = mo_offerID op, off_selling = mo_selling op, off_buying = mo_buying op,
      off_amount = mo_amount op, off_price = mo_price op, off_flags = flags\<rparr>"

text \<open>The offer to be changed or made, and whether it is passive.\<close>

definition manage_offer_frame ::
  "AccountID \<Rightarrow> bool \<Rightarrow> ManageOfferOp \<Rightarrow> session \<Rightarrow> ((OfferFrame \<times> bool) option \<times> session) result" where
  "manage_offer_frame sourceID passive op s =
     (if mo_offerID op \<noteq> 0
      then bindE (loadOffer sourceID (mo_offerID op) s) (\<lambda>(f, s).
        Inr (map_option (\<lambda>f. (f\<lparr>of_offer := buildOffer sourceID op (off_flags (of_offer f))\<rparr>,
                             off_flags (of_offer f) AND 1 \<noteq> 0)) f, s))
      else Inr (Some (\<lparr>of_lastModified = 0, of_offer = buildOffer sourceID op (if passive then 1 else 0)\<rparr>, passive), s))"

section \<open>Crossing the book\<close>

text \<open>The most of the sheep the source can sell.\<close>

definition sheep_can_sell ::
  "LedgerHeader \<Rightarrow> bool \<Rightarrow> Asset \<Rightarrow> AccountFrame \<Rightarrow> TrustFrame option \<Rightarrow> ((ManageOfferResult + int) \<times> AccountFrame) result" where
  "sheep_can_sell lm creating sheep source sheepLine =
     (if sheep = Native
      then if creating \<and> ledgerVersion lm > 8
           then bindE (addNumEntries 1 lm source) (\<lambda>(source, ok).
             if \<not> ok then Inr (Inl MANAGE_OFFER_LOW_RESERVE, source)
             else
               let m = getBalanceAboveReserve lm source in
               bindE (addNumEntries (- 1) lm source) (\<lambda>(source, _). Inr (Inr m, source)))
           else Inr (Inr (getBalanceAboveReserve lm source), source)
      else deref sheepLine (\<lambda>t. bindE (trust_getBalance t) (\<lambda>b. Inr (Inr b, source))))"

definition wheat_can_buy :: "Asset \<Rightarrow> TrustFrame option \<Rightarrow> int result" where
  "wheat_can_buy wheat wheatLine =
     (if wheat = Native then Inr INT64_MAX else deref wheatLine (\<lambda>t. Inr (getMaxAmountReceive t)))"

text \<open>The filter: \<^term>\<open>None\<close> where the code leaves the result as it is.\<close>

definition manage_filter ::
  "AccountID \<Rightarrow> uint64 \<Rightarrow> bool \<Rightarrow> Price \<Rightarrow> OfferFrame \<Rightarrow> ManageOfferResult option OfferFilterResult" where
  "manage_filter sourceID offerID passive maxWheatPrice f =
     (if off_offerID (of_offer f) = offerID then eSkip
      else if passive \<and> price_ge (off_price (of_offer f)) maxWheatPrice \<or> price_gt (off_price (of_offer f)) maxWheatPrice
      then eStop None
      else if off_sellerID (of_offer f) = sourceID then eStop (Some MANAGE_OFFER_CROSS_SELF)
      else eKeep)"

text \<open>A balance of the source changes, in the outer delta.\<close>

definition change_source ::
  "Asset \<Rightarrow> int \<Rightarrow> string \<Rightarrow> AccountFrame \<Rightarrow> TrustFrame option \<Rightarrow> session \<Rightarrow> (AccountFrame \<times> session) result" where
  "change_source asset delta msg source line s =
     (if asset = Native
      then bindE (account_addBalance delta source) (\<lambda>(source, ok).
        if \<not> ok then Inl (RuntimeError msg) else account_storeChange source s)
      else deref line (\<lambda>t. bindE (trust_addBalance delta t) (\<lambda>(t, ok).
        if \<not> ok then Inl (RuntimeError msg) else bindE (trust_storeChange t s) (\<lambda>(t, s). Inr (source, s)))))"

definition settle_source ::
  "ManageOfferOp \<Rightarrow> convert_state \<Rightarrow> AccountFrame \<Rightarrow> TrustFrame option \<Rightarrow> TrustFrame option \<Rightarrow> session \<Rightarrow>
    (AccountFrame \<times> session) result" where
  "settle_source op v source sheepLine wheatLine s =
     (if cv_wheatReceived v > 0
      then bindE (change_source (mo_buying op) (cv_wheatReceived v) ''offer claimed over limit'' source wheatLine s) (\<lambda>(source, s).
        change_source (mo_selling op) (- cv_sheepSend v) ''offer sold more than balance'' source sheepLine s)
      else Inr (source, s))"

text \<open>The part of \<open>doApply\<close> for an amount that is not zero: the source, the rest of the offer and the
  trail, or the result of a failure; then the outer delta, and the inner session.\<close>

definition manage_cross ::
  "LedgerHeader \<Rightarrow> AccountID \<Rightarrow> ManageOfferOp \<Rightarrow> bool \<Rightarrow> OfferFrame \<Rightarrow> AccountFrame \<Rightarrow> TrustFrame option \<Rightarrow> TrustFrame option \<Rightarrow>
    LedgerDelta \<Rightarrow> session \<Rightarrow>
    ((ManageOfferResult + AccountFrame \<times> int \<times> ClaimOfferAtom list) \<times> LedgerDelta \<times> session) result" where
  "manage_cross lm sourceID op passive offer source sheepLine wheatLine d inner =
     (let sheep = mo_selling op; wheat = mo_buying op; sheepPrice = off_price (of_offer offer);
          creating = (mo_offerID op = 0) in
      bindE (sheep_can_sell lm creating sheep source sheepLine) (\<lambda>(sell, source).
      case sell of
        Inl code \<Rightarrow> Inr (Inl code, d, inner)
      | Inr sell \<Rightarrow>
      bindE (wheat_can_buy wheat wheatLine) (\<lambda>maxWheatCanBuy.
      if wheat \<noteq> Native \<and> maxWheatCanBuy = 0 then Inr (Inl MANAGE_OFFER_LINE_FULL, d, inner)
      else
        bindE (bigDivide_i64 0 maxWheatCanBuy (price_d sheepPrice) (price_n sheepPrice) ROUND_DOWN) (\<lambda>(q, ok).
        let maxSheepSend = min (off_amount (of_offer offer)) (min sell (if ok then q else INT64_MAX)) in
        bindE (convertWithOffers lm sheep maxSheepSend wheat maxWheatCanBuy
                 (manage_filter sourceID (off_offerID (of_offer offer)) passive
                    \<lparr>price_n = price_d sheepPrice, price_d = price_n sheepPrice\<rparr>) inner) (\<lambda>(r, v, inner).
        dbgAssert (cv_sheepSend v \<ge> 0)
          (case r of
             eFilterStop (Some code) \<Rightarrow> Inr (Inl code, d, inner)
           | _ \<Rightarrow>
               bindE (settle_source op v source sheepLine wheatLine (d, snd inner)) (\<lambda>(source, d, db).
               Inr (Inr (source, maxSheepSend - cv_sheepSend v, cv_trail v), d, fst inner, db))))))))"

text \<open>\<open>generateID\<close>.\<close>

definition generateID :: "session \<Rightarrow> uint64 \<times> session" where
  "generateID s = (idPool (hdr s) + 1, upd_header (\<lambda>h. h\<lparr>idPool := idPool h + 1\<rparr>) s)"

text \<open>What is left of the offer is stored, or the offer is deleted, in the inner delta.\<close>

definition manage_store ::
  "LedgerHeader \<Rightarrow> bool \<Rightarrow> AccountFrame \<Rightarrow> OfferFrame \<Rightarrow> session \<Rightarrow> ((ManageOfferResult + ManageOfferEffect) \<times> session) result" where
  "manage_store lm creating source offer s =
     (if off_amount (of_offer offer) > 0
      then if creating
           then bindE (addNumEntries 1 lm source) (\<lambda>(source, ok).
             if \<not> ok then Inr (Inl MANAGE_OFFER_LOW_RESERVE, s)
             else
               let (newID, s) = generateID s;
                   offer = offer\<lparr>of_offer := (of_offer offer)\<lparr>off_offerID := newID\<rparr>\<rparr> in
               bindE (offer_storeAdd offer s) (\<lambda>(offer, s).
               bindE (account_storeChange source s) (\<lambda>(source, s).
               Inr (Inr (MANAGE_OFFER_CREATED (of_offer offer)), s))))
           else bindE (offer_storeChange offer s) (\<lambda>(offer, s). Inr (Inr (MANAGE_OFFER_UPDATED (of_offer offer)), s))
      else if \<not> creating
      then bindE (offer_storeDelete (off_sellerID (of_offer offer)) (off_offerID (of_offer offer)) s) (\<lambda>s.
        bindE (addNumEntries (- 1) lm source) (\<lambda>(source, _).
        bindE (account_storeChange source s) (\<lambda>(source, s). Inr (Inr MANAGE_OFFER_DELETED, s))))
      else Inr (Inr MANAGE_OFFER_DELETED, s))"

text \<open>The end of the scope: the transaction and the inner delta are committed, or rolled back.\<close>

definition manage_end ::
  "Database \<Rightarrow> ClaimOfferAtom list \<Rightarrow> (ManageOfferResult + ManageOfferEffect) \<times> LedgerDelta \<times> session \<Rightarrow>
    (ManageOfferResult \<times> session) result" where
  "manage_end saved trail x =
     (case x of
        (Inl code, d, inner) \<Rightarrow> bindE (rollback_scope (fst inner) saved (snd inner)) (\<lambda>db. Inr (code, d, db))
      | (Inr effect, d, inner) \<Rightarrow>
          bindE (commit_nested (fst inner) d) (\<lambda>(_, d). Inr (MANAGE_OFFER_SUCCESS trail effect, d, snd inner)))"

definition ManageOffer_doApply ::
  "LedgerHeader \<Rightarrow> bool \<Rightarrow> ManageOfferOp \<Rightarrow> AccountID \<Rightarrow> AccountFrame \<Rightarrow> session \<Rightarrow> (ManageOfferResult \<times> session) result" where
  "ManageOffer_doApply lm passive op sourceID source s =
     bindE (checkOfferValid sourceID op s) (\<lambda>(r, s).
     case r of
       Inl code \<Rightarrow> Inr (code, s)
     | Inr (sheepLine, wheatLine) \<Rightarrow>
     bindE (manage_offer_frame sourceID passive op s) (\<lambda>(offer, s).
     case offer of
       None \<Rightarrow> Inr (MANAGE_OFFER_NOT_FOUND, s)
     | Some (offer, passive) \<Rightarrow>
         let inner = (LedgerDelta_nested (fst s), snd s) in
         bindE (if mo_amount op = 0 then Inr (Inr (source, 0, []), fst s, inner)
                else manage_cross lm sourceID op passive offer source sheepLine wheatLine (fst s) inner) (\<lambda>(r, d, inner).
         case r of
           Inl code \<Rightarrow> manage_end (snd s) [] (Inl code, d, inner)
         | Inr (source, rest, trail) \<Rightarrow>
             let offer = offer\<lparr>of_offer := (of_offer offer)\<lparr>off_amount := rest\<rparr>\<rparr> in
             bindE (manage_store lm (mo_offerID op = 0) source offer inner) (\<lambda>(r, inner).
             manage_end (snd s) trail (r, d, inner)))))"

section \<open>Passive offers\<close>

record CreatePassiveOfferOp =
  cp_selling :: Asset
  cp_buying :: Asset
  cp_amount :: int
  cp_price :: Price

definition ManageOfferOpHolder :: "CreatePassiveOfferOp \<Rightarrow> ManageOfferOp" where
  "ManageOfferOpHolder op =
     \<lparr>mo_selling = cp_selling op, mo_buying = cp_buying op, mo_amount = cp_amount op, mo_price = cp_price op,
      mo_offerID = 0\<rparr>"

definition CreatePassiveOffer_doCheckValid :: "LedgerHeader \<Rightarrow> CreatePassiveOfferOp \<Rightarrow> ManageOfferResult option" where
  "CreatePassiveOffer_doCheckValid lm op = ManageOffer_doCheckValid lm (ManageOfferOpHolder op)"

definition CreatePassiveOffer_doApply ::
  "LedgerHeader \<Rightarrow> CreatePassiveOfferOp \<Rightarrow> AccountID \<Rightarrow> AccountFrame \<Rightarrow> session \<Rightarrow> (ManageOfferResult \<times> session) result" where
  "CreatePassiveOffer_doApply lm op = ManageOffer_doApply lm True (ManageOfferOpHolder op)"

end
