(* ===== verification/Manage_Offer_Laws.thy ===== *)
theory Manage_Offer_Laws
  imports Manage_Offer
begin

text \<open>
  What placing an offer keeps. While the operation is in its scope there are two deltas: the outer one,
  which the source's balances are written to, and the inner one for the rest.
\<close>

section \<open>Two deltas\<close>

text \<open>The ledger \<open>L0\<close> is \<open>L\<close>, the one before the scope, with what was written to the outer delta since;
  no entry written so is in the cache.\<close>

definition paired :: "bool \<Rightarrow> ledger \<Rightarrow> ledger \<Rightarrow> ledger \<Rightarrow> LedgerDelta \<Rightarrow> session \<Rightarrow> bool" where
  "paired tr base L L0 d s \<longleftrightarrow>
     tracks tr base d L0 \<and> sess_ok tr L0 s
     \<and> (\<forall>k. L0 k = L k \<or> k \<in> lives d \<and> L0 k \<noteq> None \<and> L k \<noteq> None \<and> (\<forall>v. (k, v) \<notin> set (db_cache (snd s))))"

lemma fresh_law:
  assumes "db_ok db" and "cache_ok db"
  shows "sess_ok tr (db_ledger db) (LedgerDelta_nested d, db)"
  using assms
  by (simp add: sess_ok_def LedgerDelta_nested_def delta_ok_new delta_apply_new) (simp add: LedgerDelta_new_def)

lemma modEntry_fresh: "\<exists>t. modEntry e (LedgerDelta_nested d) = Inr t"
  by (simp add: modEntry_def delta_checkState_def LedgerDelta_nested_def LedgerDelta_new_def Let_def dbgAssert_def)

lemma applySigners_cache:
  "applySigners f ins db = Inr db' \<Longrightarrow> set (db_cache db') \<subseteq> set (db_cache db)"
  by (auto simp: applySigners_def Let_def result_simps flushCachedEntry_def split: option.splits if_splits)

text \<open>What a store does to the tables does not depend on the delta.\<close>

lemma account_store_fresh:
  assumes "account_storeChange f (d, db) = Inr (f', d', db')"
  shows "\<exists>t. account_storeChange f (LedgerDelta_nested d, db) = Inr (f', t, db')"
    and "modEntry (account_entry f') d = Inr d'"
    and "set (db_cache db') \<subseteq> {p \<in> set (db_cache db). fst p \<noteq> AccountKey (acc_accountID (af_account f))}"
proof -
  obtain t where t: "modEntry (account_entry f') (LedgerDelta_nested d) = Inr t" using modEntry_fresh by blast
  have h: "mUpdateLastModified (LedgerDelta_nested d) = mUpdateLastModified d"
    "mCurrentHeader (LedgerDelta_nested d) = mCurrentHeader d"
    by (simp_all add: LedgerDelta_nested_def LedgerDelta_new_def)
  obtain row where row: "map_of (db_accounts db) (acc_accountID (af_account f)) = Some row"
    using assms by (cases "map_of (db_accounts db) (acc_accountID (af_account f))")
      (auto simp: account_storeUpdate_def Let_def result_simps flushCachedEntry_def)
  let ?db = "\<lambda>lm. flushCachedEntry (AccountKey (acc_accountID (af_account f))) db
    \<lparr>db_accounts := map_put (acc_accountID (af_account f)) (lm, (af_account f)\<lparr>acc_signers := acc_signers (snd row)\<rparr>) (db_accounts db)\<rparr>"
  obtain lm where lm: "account_isValid f" "touch (af_lastModified f) d = Inr lm" "f' = f\<lparr>af_lastModified := lm\<rparr>"
    and m: "modEntry (account_entry f') d = Inr d'"
    and db: "(if mUpdateSigners f then applySigners f' False (?db lm) else Inr (?db lm)) = Inr db'"
    using assms row by (cases "mUpdateSigners f") (auto simp: account_storeUpdate_def Let_def result_simps flushCachedEntry_def)
  show "modEntry (account_entry f') d = Inr d'" by (rule m)
  have "touch (af_lastModified f) (LedgerDelta_nested d) = Inr lm" using lm(2) h by (simp add: touch_def split: if_splits)
  then have "account_storeChange f (LedgerDelta_nested d, db) = Inr (f', t, db')"
    using lm(1,3) row t db by (cases "mUpdateSigners f") (simp_all add: account_storeUpdate_def Let_def dbgAssert_def flushCachedEntry_def)
  then show "\<exists>t. account_storeChange f (LedgerDelta_nested d, db) = Inr (f', t, db')" by blast
  show "set (db_cache db') \<subseteq> {p \<in> set (db_cache db). fst p \<noteq> AccountKey (acc_accountID (af_account f))}"
    using db applySigners_cache [of f' False "?db lm" db'] by (auto simp: flushCachedEntry_def split: if_splits)
qed

lemma trust_store_fresh:
  assumes "trust_storeChange f (d, db) = Inr (f', d', db')"
  shows "\<exists>t. trust_storeChange f (LedgerDelta_nested d, db) = Inr (f', t, db')"
    and "if mIsIssuer f then d' = d else modEntry (trust_entry f') d = Inr d'"
    and "set (db_cache db') \<subseteq> {p \<in> set (db_cache db). fst p \<noteq> TrustLineKey (tl_accountID (tf_trustLine f)) (tl_asset (tf_trustLine f))}"
proof -
  obtain t where t: "modEntry (trust_entry f') (LedgerDelta_nested d) = Inr t" using modEntry_fresh by blast
  have h: "mUpdateLastModified (LedgerDelta_nested d) = mUpdateLastModified d"
    "mCurrentHeader (LedgerDelta_nested d) = mCurrentHeader d"
    by (simp_all add: LedgerDelta_nested_def LedgerDelta_new_def)
  show "if mIsIssuer f then d' = d else modEntry (trust_entry f') d = Inr d'"
    using assms by (auto simp: trust_store_def Let_def result_simps getKeyFields_def split: if_splits)
  have "trust_storeChange f (LedgerDelta_nested d, db) = Inr (f', (if mIsIssuer f then LedgerDelta_nested d else t), db')"
    using assms t h by (auto simp: trust_store_def Let_def result_simps touch_def getKeyFields_def split: if_splits)
  then show "\<exists>t. trust_storeChange f (LedgerDelta_nested d, db) = Inr (f', t, db')" by blast
  show "set (db_cache db') \<subseteq> {p \<in> set (db_cache db). fst p \<noteq> TrustLineKey (tl_accountID (tf_trustLine f)) (tl_asset (tf_trustLine f))}"
    using assms by (auto simp: trust_store_def Let_def result_simps getKeyFields_def flushCachedEntry_def trust_key_def split: if_splits)
qed

text \<open>An entry the inner delta does not touch is written to the outer one.\<close>

lemma paired_put:
  assumes p: "paired tr base L L0 d (t, db)" and mod: "modEntry e d = Inr d'" and out: "LedgerEntryKey e \<notin> touched t"
    and db: "db_ok db'" "cache_ok db'" "db_ledger db' = (db_ledger db)(LedgerEntryKey e \<mapsto> e)"
    and ex: "db_ledger db (LedgerEntryKey e) \<noteq> None"
    and c: "set (db_cache db') \<subseteq> {p \<in> set (db_cache db). fst p \<noteq> LedgerEntryKey e}"
  shows "paired tr base L (L0(LedgerEntryKey e \<mapsto> e)) d' (t, db')" and "mCurrentHeader d' = mCurrentHeader d"
proof -
  let ?k = "LedgerEntryKey e"
  have tr: "tracks tr base d L0" and sok: "sess_ok tr L0 (t, db)"
    and L: "\<And>k. L0 k = L k \<or> k \<in> lives d \<and> L0 k \<noteq> None \<and> L k \<noteq> None \<and> (\<forall>v. (k, v) \<notin> set (db_cache db))"
    using p by (auto simp: paired_def)
  have "delta_apply t L0 ?k = L0 ?k"
    using out by (auto simp: touched_def delta_apply_def split: option.splits)
  then have ex0: "L0 ?k \<noteq> None" using sok ex by (auto simp: sess_ok_def)
  note m = tracks_mod [OF tr mod ex0]
  have "delta_apply t (L0(?k \<mapsto> e)) = (delta_apply t L0)(?k \<mapsto> e)" "delta_ok (L0(?k \<mapsto> e)) t"
    using delta_apply_untouched [OF out] delta_ok_untouched [OF out] sok by (simp_all add: sess_ok_def)
  then have "sess_ok tr (L0(?k \<mapsto> e)) (t, db')" using sok db by (auto simp: sess_ok_def)
  moreover have "(L0(?k \<mapsto> e)) k = L k \<or> k \<in> lives d' \<and> (L0(?k \<mapsto> e)) k \<noteq> None \<and> L k \<noteq> None \<and> (\<forall>v. (k, v) \<notin> set (db_cache db'))" for k
    using L [of k] c ex0 m(2) by (cases "k = ?k") auto
  ultimately show "paired tr base L (L0(?k \<mapsto> e)) d' (t, db')" using m(1) unfolding paired_def by simp
  show "mCurrentHeader d' = mCurrentHeader d" by (rule m(3))
qed

lemma paired_inner: "paired tr base L L0 d (t, db) \<Longrightarrow> sess_ok tr L0 (t, db) \<and> db_ok db \<and> cache_ok db"
  by (simp add: paired_def sess_ok_def)

lemma paired_account:
  assumes p: "paired tr base L L0 d (t, db)" and st: "account_storeChange f (d, db) = Inr (f', d', db')"
    and out: "AccountKey (acc_accountID (af_account f)) \<notin> touched t" and fit: "signers_fit f"
    and a: "account_at (db_ledger db) (acc_accountID (af_account f)) = Some a"
    and sg: "mUpdateSigners f \<or> acc_signers a = acc_signers (af_account f)"
  shows "\<exists>L1. paired tr base L L1 d' (t, db')" and "mCurrentHeader d' = mCurrentHeader d"
    and "af_account f' = af_account f" and "current (db_ledger db') f'"
    and "native (db_ledger db') = native (db_ledger db) - acc_balance a + acc_balance (af_account f)"
    and "surplus (db_ledger db') j = surplus (db_ledger db) j
      + (if j = acc_accountID (af_account f)
         then (uint (acc_numSubEntries (af_account f)) - int (length (acc_signers (af_account f))))
            - (uint (acc_numSubEntries a) - int (length (acc_signers a)))
         else 0)"
    and "k \<noteq> AccountKey (acc_accountID (af_account f)) \<Longrightarrow> db_ledger db' k = db_ledger db k"
proof -
  note i = paired_inner [OF p]
  obtain t1 where st1: "account_storeChange f (LedgerDelta_nested d, db) = Inr (f', t1, db')"
    using account_store_fresh(1) [OF st] by blast
  have sok1: "sess_ok tr (db_ledger db) (LedgerDelta_nested d, db)" using i by (intro fresh_law) simp_all
  have a1: "account_at (view (LedgerDelta_nested d, db)) (acc_accountID (af_account f)) = Some a" using a by (simp add: view_def)
  note c = account_change_totals [OF st1 sok1 fit a1 sg, unfolded view_def snd_conv]
  have k: "LedgerEntryKey (account_entry f') = AccountKey (acc_accountID (af_account f))"
    using c(4) by (simp add: LedgerEntryKey_def account_entry_def)
  have db': "db_ok db'" "cache_ok db'" using c(1) by (simp_all add: sess_ok_def)
  have ex: "db_ledger db (LedgerEntryKey (account_entry f')) \<noteq> None"
    using a k by (auto simp: account_at_def split: option.splits)
  have out': "LedgerEntryKey (account_entry f') \<notin> touched t" using out k by simp
  have c': "set (db_cache db') \<subseteq> {p \<in> set (db_cache db). fst p \<noteq> LedgerEntryKey (account_entry f')}"
    using account_store_fresh(3) [OF st] k by simp
  note pp = paired_put [OF p account_store_fresh(2) [OF st] out' db' c(2) [folded k] ex c']
  show "\<exists>L1. paired tr base L L1 d' (t, db')" using pp(1) by blast
  show "mCurrentHeader d' = mCurrentHeader d" by (rule pp(2))
  show "af_account f' = af_account f" by (rule c(4))
  show "current (db_ledger db') f'" by (rule c(5))
  show "native (db_ledger db') = native (db_ledger db) - acc_balance a + acc_balance (af_account f)" by (rule c(6))
  show "surplus (db_ledger db') j = surplus (db_ledger db) j
      + (if j = acc_accountID (af_account f)
         then (uint (acc_numSubEntries (af_account f)) - int (length (acc_signers (af_account f))))
            - (uint (acc_numSubEntries a) - int (length (acc_signers a)))
         else 0)" by (rule c(7))
  show "k \<noteq> AccountKey (acc_accountID (af_account f)) \<Longrightarrow> db_ledger db' k = db_ledger db k" using c(2) by simp
qed

lemma paired_trust:
  assumes p: "paired tr base L L0 d (t, db)" and st: "trust_storeChange f (d, db) = Inr (f', d', db')"
    and out: "TrustLineKey (tl_accountID (tf_trustLine f)) (tl_asset (tf_trustLine f)) \<notin> touched t"
  shows "\<exists>L1. paired tr base L L1 d' (t, db')" and "mCurrentHeader d' = mCurrentHeader d"
    and "native (db_ledger db') = native (db_ledger db)" and "surplus (db_ledger db') = surplus (db_ledger db)"
    and "account_at (db_ledger db') = account_at (db_ledger db)"
    and "k \<noteq> TrustLineKey (tl_accountID (tf_trustLine f)) (tl_asset (tf_trustLine f)) \<Longrightarrow> db_ledger db' k = db_ledger db k"
proof -
  let ?k = "TrustLineKey (tl_accountID (tf_trustLine f)) (tl_asset (tf_trustLine f))"
  note i = paired_inner [OF p]
  obtain t1 where st1: "trust_storeChange f (LedgerDelta_nested d, db) = Inr (f', t1, db')"
    using trust_store_fresh(1) [OF st] by blast
  have sok1: "sess_ok tr (db_ledger db) (LedgerDelta_nested d, db)" using i by (intro fresh_law) simp_all
  note c = trust_change_law [OF st1 sok1, unfolded view_def snd_conv]
  note l = trust_store_law [OF st1 sok1, unfolded view_def snd_conv]
  have db': "db_ok db'" "cache_ok db'" using c(1) by (simp_all add: sess_ok_def)
  have "(\<exists>L1. paired tr base L L1 d' (t, db')) \<and> mCurrentHeader d' = mCurrentHeader d"
  proof (cases "mIsIssuer f")
    case True
    then have "d' = d" "db_ledger db' = db_ledger db" using trust_store_fresh(2) [OF st] l(6) by simp_all
    then show ?thesis using p db' trust_store_fresh(3) [OF st] unfolding paired_def by (fastforce simp: sess_ok_def)
  next
    case False
    have k: "LedgerEntryKey (trust_entry f') = ?k" using c(3) by (simp add: LedgerEntryKey_def trust_entry_def)
    have l': "db_ledger db' = (db_ledger db)(LedgerEntryKey (trust_entry f') \<mapsto> trust_entry f')"
      "db_ledger db (LedgerEntryKey (trust_entry f')) \<noteq> None"
      using l(7) [OF False] k by simp_all
    have out': "LedgerEntryKey (trust_entry f') \<notin> touched t" using out k by simp
    have c': "set (db_cache db') \<subseteq> {p \<in> set (db_cache db). fst p \<noteq> LedgerEntryKey (trust_entry f')}"
      using trust_store_fresh(3) [OF st] k by simp
    have m: "modEntry (trust_entry f') d = Inr d'" using trust_store_fresh(2) [OF st] False by simp
    from paired_put [OF p m out' db' l' c'] show ?thesis by blast
  qed
  then show "\<exists>L1. paired tr base L L1 d' (t, db')" "mCurrentHeader d' = mCurrentHeader d" by simp_all
  show "native (db_ledger db') = native (db_ledger db)" "surplus (db_ledger db') = surplus (db_ledger db)"
    "account_at (db_ledger db') = account_at (db_ledger db)" by (rule c(5), rule c(6), rule c(7))
  show "k \<noteq> ?k \<Longrightarrow> db_ledger db' k = db_ledger db k" by (rule c(8))
qed

text \<open>The end of the scope.\<close>

lemma paired_rollback:
  assumes p: "paired tr base (db_ledger saved) L0 d (t, db)" and saved: "db_ok saved"
    and r: "rollback_scope t saved db = Inr db'"
  shows "sess_ok False base (d, db')" and "db_ledger db' = db_ledger saved"
proof -
  have tr: "tracks tr base d L0" and sok: "sess_ok tr L0 (t, db)"
    and L: "\<And>k. L0 k = db_ledger saved k \<or> k \<in> lives d \<and> L0 k \<noteq> None \<and> db_ledger saved k \<noteq> None \<and> (\<forall>v. (k, v) \<notin> set (db_cache db))"
    using p by (auto simp: paired_def)
  have "\<exists>db'. rollback_scope t saved db = Inr db' \<and> db_ok db' \<and> cache_ok db' \<and> (\<exists>c. db' = saved\<lparr>db_cache := c\<rparr>)"
  proof (rule rollback_scope_cache)
    show "mActive t" using sok by (simp add: sess_ok_def)
    show "v = db_ledger saved k \<and> cached_key k"
      if mem: "(k, v) \<in> set (db_cache db)" and o: "k \<notin> lives t" "k \<notin> set (mDelete t)" for k v
    proof -
      have "delta_apply t L0 k = L0 k" using o by (auto simp: lives_def delta_apply_def split: option.splits)
      then have "db_ledger db k = L0 k" using sok o(1) by (auto simp: sess_ok_def)
      moreover have "L0 k = db_ledger saved k" using L [of k] mem by auto
      ultimately show ?thesis using mem sok by (auto simp: sess_ok_def cache_ok_def)
    qed
  qed (rule saved)
  then obtain c where db': "db_ok db'" "cache_ok db'" "db' = saved\<lparr>db_cache := c\<rparr>" using r by auto
  show v: "db_ledger db' = db_ledger saved" by (simp add: db'(3))
  have "tracks False base d (db_ledger saved)" by (rule tracks_stale [OF tr]) (use L in blast)
  then show "sess_ok False base (d, db')" using db'(1,2) v by (simp add: sess_ok_tracks view_def)
qed

section \<open>What was bought\<close>

text \<open>Nothing is sent for nothing.\<close>

definition bought :: "convert_state \<Rightarrow> bool" where
  "bought v \<longleftrightarrow> cv_wheatReceived v \<ge> 0 \<and> (cv_wheatReceived v = 0 \<longrightarrow> cv_sheepSend v = 0)"

lemma settleOffer_amounts:
  assumes "settleOffer lm f n er acc wl sl s = Inr (r, s')" and "cr_result r \<noteq> eOfferCantConvert" and "cr_wheat r = 0"
  shows "cr_sheep r = 0"
  using assms by (auto simp: settleOffer_def exchangeResultType_def Let_def result_simps split: if_splits)

lemma crossOffer_amounts:
  assumes "crossOffer lm f maxW maxS s = Inr (r, s')" and "cr_result r \<noteq> eOfferCantConvert" and "cr_wheat r = 0"
  shows "cr_sheep r = 0"
proof -
  obtain n er acc wl sl s1 where "settleOffer lm f n er acc wl sl s1 = Inr (r, s')"
    using assms(1) by (auto simp: crossOffer_def Let_def result_simps split: option.splits)
  then show ?thesis using assms(2,3) by (rule settleOffer_amounts)
qed

lemma convert_list_bought:
  assumes "convert_list lm flt fs v s = Inr (r, v', s')" and "bought v"
  shows "bought v'"
  using assms
proof (induction fs arbitrary: v s)
  case (Cons f fs)
  show ?case
  proof (cases "flt f")
    case eKeep
    then obtain x s1 where cr: "crossOffer lm f (cv_maxWheatReceive v) (cv_maxSheepSend v) s = Inr (x, s1)"
      and pos: "0 \<le> cr_sheep x" "0 \<le> cr_wheat x"
      using Cons.prems(1) by (auto simp: result_simps Let_def)
    let ?v = "v\<lparr>cv_trail := cv_trail v @ cr_trail x,
        cv_offset := cv_offset v - (if cr_result x = eOfferTaken then 1 else 0),
        cv_sheepSend := cv_sheepSend v + cr_sheep x, cv_maxSheepSend := cv_maxSheepSend v - cr_sheep x,
        cv_wheatReceived := cv_wheatReceived v + cr_wheat x, cv_maxWheatReceive := cv_maxWheatReceive v - cr_wheat x\<rparr>"
    consider "v' = v\<lparr>cv_trail := cv_trail v @ cr_trail x\<rparr>"
      | "cr_result x \<noteq> eOfferCantConvert" "v' = ?v"
      | "cr_result x \<noteq> eOfferCantConvert" "convert_list lm flt fs ?v s1 = Inr (r, v', s')"
      using Cons.prems(1) eKeep cr by (auto simp: Let_def result_simps split: if_splits)
    moreover have "bought ?v" if "cr_result x \<noteq> eOfferCantConvert"
      using crossOffer_amounts [OF cr that] Cons.prems(2) pos by (auto simp: bought_def)
    ultimately show ?thesis using Cons.prems(2) Cons.IH by cases (auto simp: bought_def)
  qed (use Cons in auto)
qed simp

lemma convert_bought:
  assumes "convertWithOffers lm a m b n flt s = Inr (r, v', s')"
  shows "bought v'"
proof -
  have "bought v'" if "convert_loop fuel lm flt a b v s = Inr (r, v', s')" "bought v" for fuel v s
    using that
  proof (induction fuel arbitrary: v s)
    case (Suc fuel)
    then obtain fs x v1 s1 where l: "convert_list lm flt fs (v\<lparr>cv_offset := cv_offset v + length fs\<rparr>) s = Inr (x, v1, s1)"
      and rest: "v' = v1 \<or> convert_loop fuel lm flt a b v1 s1 = Inr (r, v', s')"
      by (auto simp: result_simps split: option.splits if_splits)
    have "bought v1" by (rule convert_list_bought [OF l]) (use Suc.prems(2) in \<open>simp add: bought_def\<close>)
    with rest Suc.IH show ?case by blast
  qed simp
  then show ?thesis using assms
    by (auto simp: convertWithOffers_def Let_def bought_def simp del: convert_loop.simps split: if_splits)
qed

section \<open>The source\<close>

text \<open>What is kept of the scope while the source is paid and pays: the first line is about the deltas,
  the second about the source and its offers.\<close>

definition placing :: "bool \<Rightarrow> ledger \<Rightarrow> ledger \<Rightarrow> AccountID \<Rightarrow> AccountFrame \<Rightarrow> LedgerDelta \<Rightarrow> session \<Rightarrow> bool" where
  "placing tr base L i source d s \<longleftrightarrow>
     (\<exists>L0. paired tr base L L0 d s) \<and> (\<forall>k. key_owner k = i \<longrightarrow> k \<notin> touched (fst s)) \<and> counted (view s)
     \<and> current (view s) source \<and> acc_accountID (af_account source) = i
     \<and> (\<forall>n. view s (OfferKey i n) = L (OfferKey i n))"

lemma change_source_law:
  assumes ch: "change_source a n msg source line (d, db) = Inr (source', d', db')"
    and pl: "placing tr base L i source d (t, db)" and line: "\<And>x. line = Some x \<Longrightarrow> tl_accountID (tf_trustLine x) = i"
  shows "placing tr base L i source' d' (t, db')" and "mCurrentHeader d' = mCurrentHeader d"
    and "native (db_ledger db') = native (db_ledger db) + due a n"
proof -
  obtain L0 where p: "paired tr base L L0 d (t, db)" using pl by (auto simp: placing_def)
  have out: "\<And>k. key_owner k = i \<Longrightarrow> k \<notin> touched t" and cnt: "counted (db_ledger db)" and cur: "current (db_ledger db) source"
    and id: "acc_accountID (af_account source) = i" and off: "\<And>n. db_ledger db (OfferKey i n) = L (OfferKey i n)"
    using pl by (auto simp: placing_def view_def)
  have "placing tr base L i source' d' (t, db') \<and> mCurrentHeader d' = mCurrentHeader d
    \<and> native (db_ledger db') = native (db_ledger db) + due a n"
  proof (cases "a = Native")
    case True
    then obtain f1 where add: "account_addBalance n source = Inr (f1, True)" and st: "account_storeChange f1 (d, db) = Inr (source', d', db')"
      using ch by (auto simp: change_source_def result_simps split: if_splits)
    have f1: "f1 = set_balance (acc_balance (af_account source) + n) source" using account_addBalance_Inr [OF add] by simp
    have pre: "AccountKey (acc_accountID (af_account f1)) \<notin> touched t" "signers_fit f1"
      "account_at (db_ledger db) (acc_accountID (af_account f1)) = Some (af_account source)"
      "mUpdateSigners f1 \<or> acc_signers (af_account source) = acc_signers (af_account f1)"
      using out [of "AccountKey i"] id counted_current_fit [OF cnt cur] cur by (simp_all add: f1 current_def)
    note c = paired_account [OF p st pre]
    have "surplus (db_ledger db') = surplus (db_ledger db)" using c(6) by (auto simp: f1 fun_eq_iff)
    then have "counted (db_ledger db')" using cnt by (simp add: counted_def)
    then show ?thesis using c out off id True unfolding placing_def by (auto simp: f1 view_def due_def)
  next
    case False
    then obtain x x1 x2 where line': "line = Some x" and add: "trust_addBalance n x = Inr (x1, True)"
      and st: "trust_storeChange x1 (d, db) = Inr (x2, d', db')" and src: "source' = source"
      using ch by (auto simp: change_source_def result_simps split: if_splits)
    have "tl_accountID (tf_trustLine x1) = i"
      using add line [OF line'] by (auto simp: trust_addBalance_def result_simps split: if_splits)
    then have "TrustLineKey (tl_accountID (tf_trustLine x1)) (tl_asset (tf_trustLine x1)) \<notin> touched t"
      by (intro out) simp
    note c = paired_trust [OF p st this]
    have "counted (db_ledger db')" using cnt c(4) by (simp add: counted_def)
    then show ?thesis using c out off id False src cur unfolding placing_def by (auto simp: view_def due_def current_def)
  qed
  then show "placing tr base L i source' d' (t, db')" "mCurrentHeader d' = mCurrentHeader d"
    "native (db_ledger db') = native (db_ledger db) + due a n" by simp_all
qed

lemma settle_source_law:
  assumes st: "settle_source op v source sl wl (d, db) = Inr (source', d', db')"
    and pl: "placing tr base L i source d (t, db)" and b: "bought v"
    and sl: "\<And>x. sl = Some x \<Longrightarrow> tl_accountID (tf_trustLine x) = i" and wl: "\<And>x. wl = Some x \<Longrightarrow> tl_accountID (tf_trustLine x) = i"
  shows "placing tr base L i source' d' (t, db')" and "mCurrentHeader d' = mCurrentHeader d"
    and "native (db_ledger db') = native (db_ledger db) - conv_gain (mo_selling op) (mo_buying op) v"
proof -
  have "placing tr base L i source' d' (t, db') \<and> mCurrentHeader d' = mCurrentHeader d
    \<and> native (db_ledger db') = native (db_ledger db) - conv_gain (mo_selling op) (mo_buying op) v"
  proof (cases "cv_wheatReceived v > 0")
    case True
    then obtain src1 d1 db1 m1 m2 where c: "change_source (mo_buying op) (cv_wheatReceived v) m1 source wl (d, db) = Inr (src1, d1, db1)"
      "change_source (mo_selling op) (- cv_sheepSend v) m2 src1 sl (d1, db1) = Inr (source', d', db')"
      using st by (auto simp: settle_source_def result_simps)
    note l1 = change_source_law [OF c(1) pl wl]
    note l2 = change_source_law [OF c(2) l1(1) sl]
    show ?thesis using l1 l2 by (auto simp: due_def conv_gain_def)
  next
    case False
    then have "cv_wheatReceived v = 0" "cv_sheepSend v = 0" using b by (auto simp: bought_def)
    then show ?thesis using st pl by (simp add: settle_source_def conv_gain_def)
  qed
  then show "placing tr base L i source' d' (t, db')" "mCurrentHeader d' = mCurrentHeader d"
    "native (db_ledger db') = native (db_ledger db) - conv_gain (mo_selling op) (mo_buying op) v" by simp_all
qed

section \<open>The operation\<close>

lemma sheep_can_sell_source:
  assumes "sheep_can_sell lm creating sheep source sl = Inr (Inr m, source')"
  shows "source' = source"
proof -
  have "f2 = f" if "addNumEntries 1 lm f = Inr (f1, True)" "addNumEntries (- 1) lm f1 = Inr (f2, ok)" for f f1 f2 ok
  proof -
    have ok: "ok" using that(2) by (auto simp: addNumEntries_def Let_def split: if_splits)
    show ?thesis using addNumEntries_Inr [OF that(1)] addNumEntries_Inr [OF that(2)] ok by simp
  qed
  then show ?thesis
    using assms by (auto simp: sheep_can_sell_def result_simps Let_def split: if_splits)
qed

lemma manage_cross_law:
  assumes cr: "manage_cross lm i op passive offer source sl wl d (LedgerDelta_nested d, db) = Inr (r, d', inner)"
    and sok: "sess_ok tr base (d, db)" and cnt: "counted (db_ledger db)" and cur: "current (db_ledger db) source"
    and id: "acc_accountID (af_account source) = i" and ver: "3 \<le> ledgerVersion lm" and ne: "mo_selling op \<noteq> mo_buying op"
    and sl: "\<And>x. sl = Some x \<Longrightarrow> tl_accountID (tf_trustLine x) = i" and wl: "\<And>x. wl = Some x \<Longrightarrow> tl_accountID (tf_trustLine x) = i"
  shows "\<exists>L0. paired tr base (db_ledger db) L0 d' inner" and "mCurrentHeader (fst inner) = mCurrentHeader d"
    and "mCurrentHeader d' = mCurrentHeader d"
    and "r = Inr (source', rest, trail) \<Longrightarrow> placing tr base (db_ledger db) i source' d' inner \<and> native (view inner) = native (db_ledger db)"
proof -
  let ?L = "db_ledger db" and ?in = "(LedgerDelta_nested d, db)"
  have n: "sess_ok tr ?L ?in" "hdr ?in = hdr (d, db)" using nested_law [OF sok] by simp_all
  have p0: "paired tr base ?L ?L d ?in" using sok n(1) by (simp add: paired_def sess_ok_tracks view_def)
  have t0: "touched (LedgerDelta_nested d) = {}" by (simp add: touched_def LedgerDelta_nested_def LedgerDelta_new_def)
  have "(\<exists>L0. paired tr base ?L L0 d' inner) \<and> mCurrentHeader (fst inner) = mCurrentHeader d \<and> mCurrentHeader d' = mCurrentHeader d
    \<and> (r = Inr (source', rest, trail) \<longrightarrow> placing tr base ?L i source' d' inner \<and> native (view inner) = native ?L)"
  proof (cases "\<exists>code. r = Inl code \<and> d' = d \<and> inner = ?in")
    case True
    then show ?thesis using p0 n(2) by (auto simp: hdr_def)
  next
    case False
    obtain x source1 where x: "sheep_can_sell lm (mo_offerID op = 0) (mo_selling op) source sl = Inr (x, source1)"
      using cr by (auto simp: manage_cross_def Let_def result_simps)
    with cr False obtain m where m: "x = Inr m" by (cases x) (auto simp: manage_cross_def Let_def)
    with x have sell: "sheep_can_sell lm (mo_offerID op = 0) (mo_selling op) source sl = Inr (Inr m, source1)" by simp
    define flt where "flt = manage_filter i (off_offerID (of_offer offer)) passive
        \<lparr>price_n = price_d (off_price (of_offer offer)), price_d = price_n (off_price (of_offer offer))\<rparr>"
    obtain mS mW cv v s1 where
      cv: "convertWithOffers lm (mo_selling op) mS (mo_buying op) mW flt ?in = Inr (cv, v, s1)"
      and rest': "(case cv of eFilterStop (Some code) \<Rightarrow> Inr (Inl code, d, s1)
           | _ \<Rightarrow> bindE (settle_source op v source1 sl wl (d, snd s1)) (\<lambda>(source, d, db).
               Inr (Inr (source, mS - cv_sheepSend v, cv_trail v), d, fst s1, db))) = Inr (r, d', inner)"
      using cr False sell by (auto simp: manage_cross_def Let_def result_simps flt_def split: if_splits)
    then have rest: "(\<exists>code. r = Inl code \<and> d' = d \<and> inner = s1) \<or> (\<exists>source2 db2 q.
        settle_source op v source1 sl wl (d, snd s1) = Inr (source2, d', db2)
        \<and> r = Inr (source2, q, cv_trail v) \<and> inner = (fst s1, db2))"
      by (auto simp: result_simps split: ConvertResult.splits option.splits)
    have src: "source1 = source" by (rule sheep_can_sell_source [OF sell])
    have keep: "off_sellerID (of_offer f) \<noteq> i" if "flt f = eKeep" for f
      using that by (auto simp: flt_def manage_filter_def split: if_splits)
    have cnt0: "counted (view ?in)" using cnt by (simp add: view_def)
    note c = convertWithOffers_law [OF cv n(1) cnt0 ver ne keep]
    have v: "\<And>k. key_owner k = i \<Longrightarrow> view s1 k = ?L k" using c(5) by (simp add: view_def)
    have h1: "mCurrentHeader (fst s1) = mCurrentHeader d" using c(2) n(2) by (simp add: hdr_def)
    have p1: "paired tr base ?L ?L d s1" using sok c(1) by (simp add: paired_def sess_ok_tracks [of tr base] view_def)
    have "account_at (view s1) i = account_at ?L i" using v [of "AccountKey i"] by (simp add: account_at_def)
    then have "current (view s1) source" using cur id by (simp add: current_def)
    moreover have "view s1 (OfferKey i q) = ?L (OfferKey i q)" for q using v [of "OfferKey i q"] by simp
    moreover have "key_owner k = i \<Longrightarrow> k \<notin> touched (fst s1)" for k using c(6) [of k] t0 by auto
    ultimately have pl: "placing tr base ?L i source d (fst s1, snd s1)"
      using p1 c(3) id unfolding placing_def by auto
    from rest show ?thesis
    proof (elim disjE exE conjE)
      fix code assume "r = Inl code" "d' = d" "inner = s1"
      then show ?thesis using p1 h1 by auto
    next
      fix source2 db2 q assume st: "settle_source op v source1 sl wl (d, snd s1) = Inr (source2, d', db2)"
        and e: "r = Inr (source2, q, cv_trail v)" "inner = (fst s1, db2)"
      note l = settle_source_law [OF st [unfolded src] pl convert_bought [OF cv] sl wl]
      have "native (view inner) = native ?L" using l(3) c(4) e(2) by (simp add: view_def)
      moreover have "\<exists>L0. paired tr base ?L L0 d' inner" using l(1) e(2) by (simp add: placing_def)
      ultimately show ?thesis using l(1,2) h1 e by auto
    qed
  qed
  then show "\<exists>L0. paired tr base ?L L0 d' inner" "mCurrentHeader (fst inner) = mCurrentHeader d"
    "mCurrentHeader d' = mCurrentHeader d"
    "r = Inr (source', rest, trail) \<Longrightarrow> placing tr base ?L i source' d' inner \<and> native (view inner) = native ?L"
    by simp_all
qed

lemma manage_store_law:
  assumes st: "manage_store lm creating source offer s = Inr (r, s')" and sok: "sess_ok tr base s" and cnt: "counted (view s)"
    and cur: "current (view s) source" and sel: "off_sellerID (of_offer offer) = acc_accountID (af_account source)"
    and ex: "\<not> creating \<Longrightarrow> view s (OfferKey (acc_accountID (af_account source)) (off_offerID (of_offer offer))) \<noteq> None"
  shows "case r of Inl code \<Rightarrow> s' = s | Inr effect \<Rightarrow> kept tr base s s'"
proof -
  let ?i = "acc_accountID (af_account source)"
  note fit = counted_current_fit [OF cnt cur]
  consider "s' = s" "\<exists>code. r = Inl code" | "s' = s" "\<exists>e. r = Inr e"
    | src1 f f' s1 src2 e where "addNumEntries 1 lm source = Inr (src1, True)"
      "f = offer\<lparr>of_offer := (of_offer offer)\<lparr>off_offerID := fst (generateID s)\<rparr>\<rparr>"
      "offer_storeAdd f (snd (generateID s)) = Inr (f', s1)" "account_storeChange src1 s1 = Inr (src2, s')" "r = Inr e"
    | f' e where "\<not> creating" "offer_storeChange offer s = Inr (f', s')" "r = Inr e"
    | s1 src1 ok src2 e where "\<not> creating" "offer_storeDelete (off_sellerID (of_offer offer)) (off_offerID (of_offer offer)) s = Inr s1"
      "addNumEntries (- 1) lm source = Inr (src1, ok)" "account_storeChange src1 s1 = Inr (src2, s')" "r = Inr e"
    using st by (cases "generateID s") (auto simp: manage_store_def result_simps Let_def split: if_splits)
  then show ?thesis
  proof cases
    case 1
    then show ?thesis by auto
  next
    case 2
    then show ?thesis using sok cnt by (auto simp: kept_same)
  next
    case 3
    let ?s = "snd (generateID s)" and ?k = "OfferKey ?i (off_offerID (of_offer f))"
    have g: "sess_ok tr base ?s" "view ?s = view s" "hdr ?s = (hdr s)\<lparr>idPool := idPool (hdr s) + 1\<rparr>"
      using sok by (simp_all add: generateID_def)
    have nk: "\<not> is_account_key ?k" "key_owner ?k = ?i" by simp_all
    have own: "off_sellerID (of_offer f) = ?i" using sel by (simp add: 3(2))
    note a = offer_store_law [OF 3(3) g(1)]
    have v: "view s1 = (view s)(?k := Some (offer_entry f'))" and none: "view s ?k = None"
      using a(5,6) g(2) own by simp_all
    have v': "view s1 = (view ?s)(?k := Some (offer_entry f'))" using v g(2) by simp
    note o = other_upd [OF g(1) v' nk(1) native_of_simps(4)]
    have cur1: "current (view s1) source" using current_other [OF cur nk(1)] v by simp
    note c = count_change [OF 3(1,4) a(1) cur1 fit disjI1 [OF conjI [OF refl TrueI]]]
    have "surplus (view s') j = surplus (view s) j" for j using c(4) [of j] o(3) [of j] g(2) none by auto
    then have "counted (view s')" using cnt by (simp add: counted_def)
    moreover have "lumens s' = lumens s" using c(2,3) o(1) g(2,3) a(2) by (simp add: lumens_def)
    ultimately show ?thesis using c(1) 3(5) by (simp add: kept_def)
  next
    case 4
    let ?k = "OfferKey ?i (off_offerID (of_offer offer))"
    have nk: "\<not> is_account_key ?k" by simp
    have ex': "view s (OfferKey (off_sellerID (of_offer offer)) (off_offerID (of_offer offer))) \<noteq> None"
      using ex [OF 4(1)] sel by simp
    note a = offer_store_law [OF 4(2) sok ex']
    have v: "view s' = (view s)(?k := Some (offer_entry f'))" using a(5) sel by simp
    note o = other_upd [OF sok v nk native_of_simps(4)]
    have "kept tr base s s'"
      by (rule keptI [OF a(1) cnt]) (use o a(2) ex' sel in \<open>auto simp: fun_eq_iff\<close>)
    then show ?thesis by (simp add: 4(3))
  next
    case 5
    let ?k = "OfferKey ?i (off_offerID (of_offer offer))"
    have nk: "\<not> is_account_key ?k" "key_owner ?k = ?i" by simp_all
    have own: "int (length (acc_signers (af_account source))) + 1 \<le> uint (acc_numSubEntries (af_account source))"
      using counted_owned [OF cnt finite_view, of ?k] ex [OF 5(1)] cur by (simp add: current_def)
    note d = offer_delete_law [OF 5(2) [unfolded sel] sok ex [OF 5(1)]]
    note o = other_upd [OF sok d(2) nk(1) native_of_simps(1)]
    have cur2: "current (view s1) source" using current_other [OF cur nk(1)] d(2) by simp
    note c = count_change [OF 5(3,4) d(1) cur2 fit disjI2 [OF conjI [OF refl own]]]
    have "kept tr base s s'"
      by (rule keptI [OF c(1) cnt]) (use c(2,3,4) o d(3) ex [OF 5(1)] in \<open>auto simp: fun_eq_iff\<close>)
    then show ?thesis by (simp add: 5(5))
  qed
qed

lemma compareAsset_refl: "compareAsset a a"
  by (cases a) simp_all

lemma sess_ok_untracked: "sess_ok tr base s \<Longrightarrow> sess_ok False base s"
  by (auto simp: sess_ok_def)

lemma placing_start:
  assumes sok: "sess_ok tr base (d, db)" and cnt: "counted (db_ledger db)" and cur: "current (db_ledger db) source"
    and id: "acc_accountID (af_account source) = i"
  shows "placing tr base (db_ledger db) i source d (LedgerDelta_nested d, db)"
    and "mCurrentHeader (LedgerDelta_nested d) = mCurrentHeader d"
proof -
  have "paired tr base (db_ledger db) (db_ledger db) d (LedgerDelta_nested d, db)"
    using sok nested_law(1) [OF sok] by (simp add: paired_def sess_ok_tracks view_def)
  moreover have "touched (LedgerDelta_nested d) = {}" by (simp add: touched_def LedgerDelta_nested_def LedgerDelta_new_def)
  ultimately show "placing tr base (db_ledger db) i source d (LedgerDelta_nested d, db)"
    using cnt cur id unfolding placing_def by (auto simp: view_def)
  show "mCurrentHeader (LedgerDelta_nested d) = mCurrentHeader d" by (simp add: LedgerDelta_nested_def LedgerDelta_new_def)
qed

fun offer_succeeded :: "ManageOfferResult \<Rightarrow> bool" where
  "offer_succeeded (MANAGE_OFFER_SUCCESS _ _) = True"
| "offer_succeeded _ = False"

lemma manage_store_fails:
  "manage_store lm creating source offer s = Inr (Inl code, s') \<Longrightarrow> \<not> offer_succeeded code"
  by (cases "generateID s") (auto simp: manage_store_def result_simps Let_def split: if_splits)

lemma sheep_can_sell_fails:
  "sheep_can_sell lm creating sheep source sl = Inr (Inl code, source') \<Longrightarrow> \<not> offer_succeeded code"
  by (auto simp: sheep_can_sell_def result_simps Let_def split: if_splits)

lemma manage_cross_fails:
  assumes cr: "manage_cross lm i op passive offer source sl wl d inner = Inr (Inl code, d', inner')"
  shows "\<not> offer_succeeded code"
proof -
  obtain x source1 where x: "sheep_can_sell lm (mo_offerID op = 0) (mo_selling op) source sl = Inr (x, source1)"
    using cr by (auto simp: manage_cross_def Let_def result_simps)
  show ?thesis
  proof (cases x)
    case (Inl c)
    then show ?thesis using cr x sheep_can_sell_fails by (auto simp: manage_cross_def Let_def)
  next
    case (Inr m)
    define flt where "flt = manage_filter i (off_offerID (of_offer offer)) passive
        \<lparr>price_n = price_d (off_price (of_offer offer)), price_d = price_n (off_price (of_offer offer))\<rparr>"
    show ?thesis
    proof (cases "code = MANAGE_OFFER_LINE_FULL")
      case False
      then obtain mS mW cv v s1 where
        cv: "convertWithOffers lm (mo_selling op) mS (mo_buying op) mW flt inner = Inr (cv, v, s1)"
        and rest: "(case cv of eFilterStop (Some code) \<Rightarrow> Inr (Inl code, d, s1)
             | _ \<Rightarrow> bindE (settle_source op v source1 sl wl (d, snd s1)) (\<lambda>(source, d, db).
                 Inr (Inr (source, mS - cv_sheepSend v, cv_trail v), d, fst s1, db))) = Inr (Inl code, d', inner')"
        using cr Inr x by (auto simp: manage_cross_def Let_def result_simps flt_def split: if_splits)
      then have "cv = eFilterStop (Some code)" by (auto simp: result_simps split: ConvertResult.splits option.splits)
      with cv have "\<exists>f. flt f = eStop (Some code)" by (intro convert_stops) simp
      then show ?thesis by (auto simp: flt_def manage_filter_def split: if_splits)
    qed simp
  qed
qed

lemma check_line_law:
  assumes "check_selling i a s = Inr (r, s') \<or> check_buying i a s = Inr (r, s')" and sok: "sess_ok tr base s"
  shows "sess_ok tr base s'" and "view s' = view s" and "hdr s' = hdr s"
    and "r = Inr (Some x) \<Longrightarrow> tl_accountID (tf_trustLine x) = i" and "r = Inl code \<Longrightarrow> \<not> offer_succeeded code"
proof -
  have "(s' = s \<and> r = Inr None) \<or> (\<exists>line issuer. loadTrustLineIssuer i a s = Inr ((line, issuer), s') \<and> (\<forall>y. r = Inr y \<longrightarrow> y = line))"
    and code: "r = Inl code \<Longrightarrow> \<not> offer_succeeded code"
    using assms(1) by (auto simp: check_selling_def check_buying_def result_simps split: if_splits option.splits)
  then show "sess_ok tr base s'" "view s' = view s" "hdr s' = hdr s" "r = Inr (Some x) \<Longrightarrow> tl_accountID (tf_trustLine x) = i"
    using sok loadTrustLineIssuer_law [OF _ sok] by (auto simp: trust_key_def) (metis prod.collapse trust_key_def fst_conv)+
  show "r = Inl code \<Longrightarrow> \<not> offer_succeeded code" by (rule code)
qed

lemma checkOfferValid_law:
  assumes ch: "checkOfferValid i op s = Inr (r, s')" and sok: "sess_ok tr base s"
  shows "sess_ok tr base s'" and "view s' = view s" and "hdr s' = hdr s"
    and "r = Inr (sl, wl) \<Longrightarrow> sl = Some x \<or> wl = Some x \<Longrightarrow> tl_accountID (tf_trustLine x) = i"
    and "r = Inl code \<Longrightarrow> \<not> offer_succeeded code"
proof -
  consider "s' = s" "r = Inr (None, None)" | c where "check_selling i (mo_selling op) s = Inr (Inl c, s')" "r = Inl c"
    | y z s1 where "check_selling i (mo_selling op) s = Inr (Inr y, s1)" "check_buying i (mo_buying op) s1 = Inr (z, s')"
      "r = (case z of Inl code \<Rightarrow> Inl code | Inr w \<Rightarrow> Inr (y, w))"
  proof (cases "mo_amount op = 0")
    case False
    then obtain x s1 where x: "check_selling i (mo_selling op) s = Inr (x, s1)"
      using ch by (auto simp: checkOfferValid_def result_simps)
    with ch False that(2,3) show thesis by (cases x) (auto simp: checkOfferValid_def result_simps)
  qed (use ch that(1) in \<open>simp add: checkOfferValid_def\<close>)
  then have "sess_ok tr base s' \<and> view s' = view s \<and> hdr s' = hdr s
    \<and> (r = Inr (sl, wl) \<longrightarrow> sl = Some x \<or> wl = Some x \<longrightarrow> tl_accountID (tf_trustLine x) = i)
    \<and> (r = Inl code \<longrightarrow> \<not> offer_succeeded code)"
  proof cases
    case 1
    then show ?thesis using sok by simp
  next
    case 2
    note l = check_line_law [OF disjI1 [OF 2(1)] sok]
    show ?thesis using l(1,2,3,5) 2(2) by auto
  next
    case 3
    note l = check_line_law [OF disjI1 [OF 3(1)] sok]
    note k = check_line_law [OF disjI2 [OF 3(2)] l(1)]
    show ?thesis using l k 3(3) by (auto split: sum.splits)
  qed
  then show "sess_ok tr base s'" "view s' = view s" "hdr s' = hdr s"
    "r = Inr (sl, wl) \<Longrightarrow> sl = Some x \<or> wl = Some x \<Longrightarrow> tl_accountID (tf_trustLine x) = i"
    "r = Inl code \<Longrightarrow> \<not> offer_succeeded code" by blast+
qed

lemma manage_offer_frame_law:
  assumes fr: "manage_offer_frame i passive op s = Inr (r, s')" and sok: "sess_ok tr base s"
  shows "sess_ok tr base s'" and "view s' = view s" and "hdr s' = hdr s"
    and "r = Some (f, p) \<Longrightarrow> off_sellerID (of_offer f) = i \<and> off_offerID (of_offer f) = mo_offerID op
      \<and> (mo_offerID op \<noteq> 0 \<longrightarrow> view s (OfferKey i (mo_offerID op)) \<noteq> None)"
proof -
  consider "s' = s" "mo_offerID op = 0"
      "r = Some (\<lparr>of_lastModified = 0, of_offer = buildOffer i op (if passive then 1 else 0)\<rparr>, passive)"
    | t where "loadOffer i (mo_offerID op) s = Inr (t, s')" "mo_offerID op \<noteq> 0"
      "r = map_option (\<lambda>f. (f\<lparr>of_offer := buildOffer i op (off_flags (of_offer f))\<rparr>, off_flags (of_offer f) AND 1 \<noteq> 0)) t"
    using fr by (auto simp: manage_offer_frame_def result_simps split: if_splits)
  then have "sess_ok tr base s' \<and> view s' = view s \<and> hdr s' = hdr s \<and> (r = Some (f, p) \<longrightarrow>
      off_sellerID (of_offer f) = i \<and> off_offerID (of_offer f) = mo_offerID op
      \<and> (mo_offerID op \<noteq> 0 \<longrightarrow> view s (OfferKey i (mo_offerID op)) \<noteq> None))"
  proof cases
    case 1
    then show ?thesis using sok by (auto simp: buildOffer_def)
  next
    case 2
    note l = loadOffer_law [OF 2(1) sok]
    have "view s (OfferKey i (mo_offerID op)) \<noteq> None" if "t = Some g" for g
      unfolding l(4) [symmetric] by (simp add: that)
    then show ?thesis using l(1-3) 2(3) by (auto simp: buildOffer_def)
  qed
  then show "sess_ok tr base s'" "view s' = view s" "hdr s' = hdr s"
    "r = Some (f, p) \<Longrightarrow> off_sellerID (of_offer f) = i \<and> off_offerID (of_offer f) = mo_offerID op
      \<and> (mo_offerID op \<noteq> 0 \<longrightarrow> view s (OfferKey i (mo_offerID op)) \<noteq> None)" by blast+
qed

text \<open>The scope ends in a ledger that is either the one before it or the one it led to.\<close>

definition placed :: "bool \<Rightarrow> ledger \<Rightarrow> session \<Rightarrow> ManageOfferResult \<Rightarrow> session \<Rightarrow> bool" where
  "placed tr base s r s' \<longleftrightarrow>
     sess_ok (tr \<and> offer_succeeded r) base s' \<and> counted (view s')
     \<and> (if offer_succeeded r then lumens s' = lumens s else view s' = view s)"

lemma manage_end_fails:
  assumes "manage_end (snd s) trail (Inl code, d', inner) = Inr (r, s')" and "paired tr base (view s) L0 d' inner"
    and "db_ok (snd s)" and "counted (view s)" and "\<not> offer_succeeded code"
  shows "placed tr base s r s'"
proof -
  obtain t db where inner: "inner = (t, db)" by fastforce
  obtain db' where rb: "rollback_scope t (snd s) db = Inr db'" and e: "r = code" "s' = (d', db')"
    using assms(1) by (auto simp: manage_end_def inner result_simps)
  note l = paired_rollback [OF assms(2) [unfolded view_def inner] assms(3) rb]
  then show ?thesis using assms(4,5) e by (simp add: placed_def view_def)
qed

lemma manage_end_succeeds:
  assumes "manage_end saved trail (Inr effect, d', inner') = Inr (r, s')" and "paired tr base L L0 d' inner"
    and "kept tr L0 inner inner'" and "lumens inner = lumens s"
  shows "placed tr base s r s'"
proof -
  obtain t db where inner': "inner' = (t, db)" by fastforce
  obtain t2 d2 where com: "commit_nested t d' = Inr (t2, d2)" and e: "r = MANAGE_OFFER_SUCCESS trail effect" "s' = (d2, db)"
    using assms(1) by (auto simp: manage_end_def inner' result_simps)
  have "tracks tr base d' L0" "sess_ok tr L0 (t, db)" using assms(2,3) by (simp_all add: paired_def kept_def inner')
  note c = commit_law [OF this com]
  have "view s' = view inner'" "hdr s' = hdr inner'" using c(2) by (simp_all add: e inner' view_def)
  then show ?thesis using c(1) assms(3,4) e by (simp add: placed_def kept_def lumens_def)
qed

lemma ManageOffer_law:
  assumes app: "ManageOffer_doApply lm passive op i source s = Inr (r, s')" and sok: "sess_ok tr base s" and cnt: "counted (view s)"
    and cur: "current (view s) source" and id: "acc_accountID (af_account source) = i" and ver: "ledgerVersion lm \<ge> 8"
    and valid: "ManageOffer_doCheckValid lm op = None"
  shows "placed tr base s r s'"
proof -
  have v3: "3 \<le> ledgerVersion lm" using ver by (rule order_trans [rotated]) simp
  have ne: "mo_selling op \<noteq> mo_buying op"
    using valid by (auto simp: ManageOffer_doCheckValid_def compareAsset_refl split: if_splits)
  obtain r1 s1 where ch: "checkOfferValid i op s = Inr (r1, s1)" using app by (auto simp: ManageOffer_doApply_def result_simps)
  note l1 = checkOfferValid_law [OF ch sok]
  have stop: "placed tr base s r x" if "x = s1 \<or> view x = view s \<and> sess_ok tr base x" "\<not> offer_succeeded r" for x
    using that l1(1,2) cnt sess_ok_untracked [of tr base s1] sess_ok_untracked [of tr base x] by (auto simp: placed_def)
  show ?thesis
  proof (cases r1)
    case (Inl code)
    then show ?thesis using app ch l1(5) stop by (simp add: ManageOffer_doApply_def)
  next
    case (Inr lines)
    obtain sl wl where lines: "lines = (sl, wl)" by fastforce
    obtain off s2 where fr: "manage_offer_frame i passive op s1 = Inr (off, s2)"
      using app ch Inr lines by (auto simp: ManageOffer_doApply_def result_simps)
    note l2 = manage_offer_frame_law [OF fr l1(1)]
    have s2: "view s2 = view s" "hdr s2 = hdr s" using l1(2,3) l2(2,3) by simp_all
    show ?thesis
    proof (cases off)
      case None
      then show ?thesis using app ch Inr lines fr l2(1) s2 stop by (simp add: ManageOffer_doApply_def)
    next
      case (Some fp)
      obtain f p where fp: "fp = (f, p)" by fastforce
      have f: "off_sellerID (of_offer f) = i" "off_offerID (of_offer f) = mo_offerID op"
        "mo_offerID op \<noteq> 0 \<Longrightarrow> view s2 (OfferKey i (mo_offerID op)) \<noteq> None"
        using l2(2,4) Some fp by auto
      obtain d db where s2e: "s2 = (d, db)" by fastforce
      let ?in = "(LedgerDelta_nested d, db)"
      obtain x d' inner where cr: "(if mo_amount op = 0 then Inr (Inr (source, 0, []), d, ?in)
          else manage_cross lm i op p f source sl wl d ?in) = Inr (x, d', inner)"
        and rest: "(case x of Inl code \<Rightarrow> manage_end db [] (Inl code, d', inner)
         | Inr (source, rest, trail) \<Rightarrow>
             bindE (manage_store lm (mo_offerID op = 0) source (f\<lparr>of_offer := (of_offer f)\<lparr>off_amount := rest\<rparr>\<rparr>) inner) (\<lambda>(r, inner).
             manage_end db trail (r, d', inner))) = Inr (r, s')"
      proof -
        have e: "checkOfferValid i op s = Inr (Inr (sl, wl), s1)" "manage_offer_frame i passive op s1 = Inr (Some (f, p), (d, db))"
          using ch Inr lines fr Some fp s2e by simp_all
        show thesis
          using app that unfolding ManageOffer_doApply_def e bindE_simps prod.case sum.case option.case Let_def fst_conv snd_conv
          by (auto simp: result_simps)
      qed
      have dok: "db_ok (snd s2)" using l2(1) by (simp add: sess_ok_def)
      have cnt2: "counted (view s2)" using cnt s2(1) by simp
      have L: "db_ledger db = view s2" by (simp add: s2e view_def)
      have st: "placing tr base (view s2) i source d ?in" "mCurrentHeader (LedgerDelta_nested d) = mCurrentHeader d"
        using placing_start [OF l2(1) [unfolded s2e] _ _ id] cnt cur s2(1) L by simp_all
      have c: "(\<exists>L0. paired tr base (view s2) L0 d' inner) \<and> mCurrentHeader (fst inner) = mCurrentHeader d
        \<and> (\<forall>code. x = Inl code \<longrightarrow> \<not> offer_succeeded code)
        \<and> (\<forall>source' q trail. x = Inr (source', q, trail) \<longrightarrow> placing tr base (view s2) i source' d' inner
            \<and> native (view inner) = native (view s2))"
      proof (cases "mo_amount op = 0")
        case True
        then show ?thesis using cr st by (auto simp: placing_def view_def s2e)
      next
        case False
        then have mc: "manage_cross lm i op p f source sl wl d ?in = Inr (x, d', inner)" using cr by simp
        have t: "tl_accountID (tf_trustLine y) = i" if "sl = Some y \<or> wl = Some y" for y
          using l1(4) Inr lines that by blast
        note m = manage_cross_law [OF mc l2(1) [unfolded s2e] cnt2 [folded L] _ id v3 ne]
        have "\<not> offer_succeeded c" if "x = Inl c" for c using manage_cross_fails mc that by blast
        moreover have cur': "current (db_ledger db) source" using cur s2(1) L by simp
        have "tl_accountID (tf_trustLine y) = i" if "sl = Some y" for y using t that by blast
        moreover have "tl_accountID (tf_trustLine y) = i" if "wl = Some y" for y using t that by blast
        ultimately show ?thesis using m [OF cur'] unfolding L by blast
      qed
      have "placed tr base s2 r s'"
      proof (cases x)
        case (Inl code)
        obtain L0 where "paired tr base (view s2) L0 d' inner" using c by blast
        then show ?thesis using rest Inl c dok cnt2 s2e manage_end_fails [of s2 "[]" code d' inner r s'] by simp
      next
        case (Inr y)
        obtain src q trail where y: "y = (src, q, trail)" by (cases y)
        let ?f = "f\<lparr>of_offer := (of_offer f)\<lparr>off_amount := q\<rparr>\<rparr>"
        obtain z inner' where ms: "manage_store lm (mo_offerID op = 0) src ?f inner = Inr (z, inner')"
          and en: "manage_end (snd s2) trail (z, d', inner') = Inr (r, s')"
          using rest Inr y s2e by (auto simp: result_simps)
        have pl: "placing tr base (view s2) i src d' inner" "native (view inner) = native (view s2)" using c Inr y by auto
        then obtain L0 where p: "paired tr base (view s2) L0 d' inner" by (auto simp: placing_def)
        have lum: "lumens inner = lumens s2" using pl(2) c by (simp add: lumens_def hdr_def s2e)
        have ms': "case z of Inl code \<Rightarrow> inner' = inner | Inr effect \<Rightarrow> kept tr L0 inner inner'"
          by (rule manage_store_law [OF ms]) (use pl(1) p f in \<open>auto simp: placing_def paired_def\<close>)
        show ?thesis
        proof (cases z)
          case (Inl code)
          have "\<not> offer_succeeded code" using manage_store_fails ms Inl by blast
          then show ?thesis using manage_end_fails en p dok cnt2 ms' Inl by auto
        next
          case (Inr effect)
          then show ?thesis using manage_end_succeeds [OF en [unfolded Inr] p _ lum] ms' by simp
        qed
      qed
      then show ?thesis using s2 by (auto simp: placed_def lumens_def)
    qed
  qed
qed

end
