(* ===== verification/Signatures.thy ===== *)
theory Signatures
  imports Ledger_Store
begin

text \<open>
  The check of signatures (\<open>SignatureChecker.cpp\<close>, \<open>SignatureUtils.cpp\<close>).

  Hashing, the verification of an Ed25519 signature and the text of a key are parameters: the fields of
  \<open>Crypto\<close>. Weights are small (at most 255 each, for an account that is valid), so that their sum in an
  \<open>int\<close> is the sum.
\<close>

record Crypto =
  sha256 :: "opaque \<Rightarrow> Hash"
  verifySig :: "opaque \<Rightarrow> opaque \<Rightarrow> Hash \<Rightarrow> bool"
  toStrKey :: "AccountID \<Rightarrow> opaque"

record DecoratedSignature =
  sig_hint :: opaque
  sig_signature :: opaque

section \<open>One signature\<close>

definition getHint :: "opaque \<Rightarrow> opaque" where
  "getHint bs = drop (length bs - 4) bs"

definition doesHintMatch :: "opaque \<Rightarrow> opaque \<Rightarrow> bool" where
  "doesHintMatch bs hint \<longleftrightarrow>
     \<not> length bs < length hint \<and> drop (length bs - length hint) bs = hint"

definition verify :: "Crypto \<Rightarrow> DecoratedSignature \<Rightarrow> SignerKey \<Rightarrow> Hash \<Rightarrow> bool" where
  "verify cr sig k h \<longleftrightarrow> doesHintMatch (ed25519 k) (sig_hint sig) \<and> verifySig cr (ed25519 k) (sig_signature sig) h"

definition verifyHashX :: "Crypto \<Rightarrow> DecoratedSignature \<Rightarrow> SignerKey \<Rightarrow> bool" where
  "verifyHashX cr sig k \<longleftrightarrow> doesHintMatch (hashX k) (sig_hint sig) \<and> hashX k = sha256 cr (sig_signature sig)"

definition signHashX :: "Crypto \<Rightarrow> opaque \<Rightarrow> DecoratedSignature" where
  "signHashX cr x = \<lparr>sig_hint = getHint (sha256 cr x), sig_signature = x\<rparr>"

section \<open>The checker\<close>

text \<open>\<open>mUsedOneTimeSignerKeys\<close> is a map of sets, both sorted.\<close>

record SignatureChecker =
  sc_protocolVersion :: uint32
  sc_contentsHash :: Hash
  sc_signatures :: "DecoratedSignature list"
  sc_usedSignatures :: "bool list"
  sc_usedOneTimeSignerKeys :: "(AccountID \<times> SignerKey list) list"

definition SignatureChecker_new :: "uint32 \<Rightarrow> Hash \<Rightarrow> DecoratedSignature list \<Rightarrow> SignatureChecker" where
  "SignatureChecker_new version h sigs =
     \<lparr>sc_protocolVersion = version, sc_contentsHash = h, sc_signatures = sigs,
      sc_usedSignatures = replicate (length sigs) False, sc_usedOneTimeSignerKeys = []\<rparr>"

datatype SignerKeyType = KEY_ED25519 | KEY_PRE_AUTH_TX | KEY_HASH_X

fun signer_type :: "SignerKey \<Rightarrow> SignerKeyType" where
  "signer_type (SIGNER_KEY_TYPE_ED25519 _) = KEY_ED25519"
| "signer_type (SIGNER_KEY_TYPE_PRE_AUTH_TX _) = KEY_PRE_AUTH_TX"
| "signer_type (SIGNER_KEY_TYPE_HASH_X _) = KEY_HASH_X"

text \<open>A group of \<open>split\<close>.\<close>

definition signers_of :: "SignerKeyType \<Rightarrow> Signer list \<Rightarrow> Signer list" where
  "signers_of ty ss = filter (\<lambda>s. signer_type (signer_key s) = ty) ss"

definition sweight :: "Signer \<Rightarrow> int" where
  "sweight s = uint (signer_weight s)"

text \<open>The loop over the pre-authorised transactions: whether the weight is reached, the weight, and the
  keys to be marked as used.\<close>

fun check_preAuth :: "Hash \<Rightarrow> int \<Rightarrow> Signer list \<Rightarrow> int \<Rightarrow> SignerKey list \<Rightarrow> bool \<times> int \<times> SignerKey list" where
  "check_preAuth h needed [] wt keys = (False, wt, keys)"
| "check_preAuth h needed (s # ss) wt keys =
     (if preAuthTx (signer_key s) = h
      then
        let keys = insort_insert (signer_key s) keys; wt = wt + sweight s in
        if wt \<ge> needed then (True, wt, keys) else check_preAuth h needed ss wt keys
      else check_preAuth h needed ss wt keys)"

text \<open>The first signer that verifies, and the others.\<close>

fun take_signer :: "(Signer \<Rightarrow> bool) \<Rightarrow> Signer list \<Rightarrow> (Signer \<times> Signer list) option" where
  "take_signer v [] = None"
| "take_signer v (s # ss) = (if v s then Some (s, ss) else map_option (\<lambda>(t, ts). (t, s # ts)) (take_signer v ss))"

text \<open>\<open>verifyAll\<close>: whether the weight is reached, the weight, and which signatures were used.\<close>

fun verifyAll ::
  "(DecoratedSignature \<Rightarrow> Signer \<Rightarrow> bool) \<Rightarrow> int \<Rightarrow> DecoratedSignature list \<Rightarrow> Signer list \<Rightarrow> int \<Rightarrow> bool \<times> int \<times> bool list" where
  "verifyAll v needed [] signers wt = (False, wt, [])"
| "verifyAll v needed (sig # sigs) signers wt =
     (case take_signer (v sig) signers of
        None \<Rightarrow> (let (r, wt, us) = verifyAll v needed sigs signers wt in (r, wt, False # us))
      | Some (s, rest) \<Rightarrow>
          if wt + sweight s \<ge> needed then (True, wt + sweight s, True # replicate (length sigs) False)
          else (let (r, wt, us) = verifyAll v needed sigs rest (wt + sweight s) in (r, wt, True # us)))"

definition mark_used :: "bool list \<Rightarrow> SignatureChecker \<Rightarrow> SignatureChecker" where
  "mark_used us sc = sc\<lparr>sc_usedSignatures := map2 (\<or>) (sc_usedSignatures sc) us\<rparr>"

definition mark_keys :: "AccountID \<Rightarrow> SignerKey list \<Rightarrow> SignatureChecker \<Rightarrow> SignatureChecker" where
  "mark_keys i keys sc =
     (if keys = [] then sc
      else sc\<lparr>sc_usedOneTimeSignerKeys :=
        map_put i (fold insort_insert keys (case map_of (sc_usedOneTimeSignerKeys sc) i of Some ks \<Rightarrow> ks | None \<Rightarrow> []))
          (sc_usedOneTimeSignerKeys sc)\<rparr>)"

definition sc_checkSignature ::
  "Crypto \<Rightarrow> AccountID \<Rightarrow> Signer list \<Rightarrow> int \<Rightarrow> SignatureChecker \<Rightarrow> bool \<times> SignatureChecker" where
  "sc_checkSignature cr accountID signersV needed sc =
     (if sc_protocolVersion sc = 7 then (True, sc)
      else
        let (r, wt, keys) = check_preAuth (sc_contentsHash sc) needed (signers_of KEY_PRE_AUTH_TX signersV) 0 [];
            sc = mark_keys accountID keys sc in
        if r then (True, sc)
        else
          let (r, wt, us) = verifyAll (\<lambda>sig s. verifyHashX cr sig (signer_key s)) needed (sc_signatures sc)
                                 (signers_of KEY_HASH_X signersV) wt;
              sc = mark_used us sc in
          if r then (True, sc)
          else
            let (r, wt, us) = verifyAll (\<lambda>sig s. verify cr sig (signer_key s) (sc_contentsHash sc)) needed
                                   (sc_signatures sc) (signers_of KEY_ED25519 signersV) wt
            in (r, mark_used us sc))"

definition checkAllSignaturesUsed :: "SignatureChecker \<Rightarrow> bool" where
  "checkAllSignaturesUsed sc \<longleftrightarrow> sc_protocolVersion sc = 7 \<or> list_all (\<lambda>b. b) (sc_usedSignatures sc)"

section \<open>When the check succeeds\<close>

text \<open>A signer has signed: its key is the hash of the transaction, or one of the signatures is for it.\<close>

fun signed :: "Crypto \<Rightarrow> Hash \<Rightarrow> DecoratedSignature list \<Rightarrow> SignerKey \<Rightarrow> bool" where
  "signed cr h sigs (SIGNER_KEY_TYPE_PRE_AUTH_TX x) \<longleftrightarrow> x = h"
| "signed cr h sigs (SIGNER_KEY_TYPE_HASH_X x) \<longleftrightarrow> (\<exists>sig \<in> set sigs. verifyHashX cr sig (SIGNER_KEY_TYPE_HASH_X x))"
| "signed cr h sigs (SIGNER_KEY_TYPE_ED25519 x) \<longleftrightarrow> (\<exists>sig \<in> set sigs. verify cr sig (SIGNER_KEY_TYPE_ED25519 x) h)"

text \<open>What one of the loops has found out of the signers in \<open>M\<close>.\<close>

definition weighed :: "int \<Rightarrow> Signer set \<Rightarrow> int \<Rightarrow> bool \<Rightarrow> int \<Rightarrow> bool" where
  "weighed needed M wt r wt' \<longleftrightarrow>
     (if r then M \<noteq> {} \<and> needed \<le> wt' \<and> wt' \<le> wt + sum sweight M
      else wt' = wt + sum sweight M \<and> (M \<noteq> {} \<longrightarrow> wt' < needed))"

lemma sweight_nonneg [simp]: "0 \<le> sweight s"
  by (simp add: sweight_def)

lemma weighed_insert:
  assumes "finite M" and "s \<notin> M" and "weighed needed M (wt + sweight s) r wt'" and "\<not> needed \<le> wt + sweight s"
  shows "weighed needed (insert s M) wt r wt'"
  using assms by (auto simp: weighed_def split: if_splits)

lemma weighed_enough:
  assumes "finite M" and "s \<in> M" and "needed \<le> wt + sweight s"
  shows "weighed needed M wt True (wt + sweight s)"
proof -
  have "sweight s \<le> sum sweight M" using assms(1,2) by (intro member_le_sum) simp_all
  with assms show ?thesis by (auto simp: weighed_def)
qed

lemma check_preAuth_weighed:
  assumes "check_preAuth h needed ss wt keys = (r, wt', keys')" and "distinct ss"
  shows "weighed needed {s \<in> set ss. preAuthTx (signer_key s) = h} wt r wt'"
  using assms
proof (induction ss arbitrary: wt keys)
  case (Cons s ss)
  show ?case
  proof (cases "preAuthTx (signer_key s) = h")
    case True
    then have e: "{x \<in> set (s # ss). preAuthTx (signer_key x) = h} = insert s {x \<in> set ss. preAuthTx (signer_key x) = h}" by auto
    show ?thesis
    proof (cases "needed \<le> wt + sweight s")
      case enough: True
      then show ?thesis using Cons.prems True weighed_enough [of _ s needed wt] unfolding e by (auto simp: Let_def)
    next
      case False
      with Cons.prems True have "check_preAuth h needed ss (wt + sweight s) (insort_insert (signer_key s) keys) = (r, wt', keys')"
        by (simp add: Let_def)
      from Cons.IH [OF this] Cons.prems(2) False show ?thesis unfolding e by (intro weighed_insert) auto
    qed
  next
    case False
    then have "{x \<in> set (s # ss). preAuthTx (signer_key x) = h} = {x \<in> set ss. preAuthTx (signer_key x) = h}" by auto
    with False Cons show ?thesis by simp
  qed
qed (simp add: weighed_def)

lemma take_signer_None: "take_signer v ss = None \<longleftrightarrow> (\<forall>s \<in> set ss. \<not> v s)"
  by (induction ss) auto

lemma take_signer_Some:
  "take_signer v ss = Some (s, rest) \<Longrightarrow> distinct ss \<Longrightarrow> v s \<and> s \<in> set ss \<and> set rest = set ss - {s} \<and> distinct rest"
  by (induction ss arbitrary: rest) (auto split: if_splits)

lemma verifyAll_weighed:
  assumes "verifyAll v needed sigs ss wt = (r, wt', us)" and "distinct ss"
    and "\<And>sig s t. sig \<in> set sigs \<Longrightarrow> s \<in> set ss \<Longrightarrow> t \<in> set ss \<Longrightarrow> v sig s \<Longrightarrow> v sig t \<Longrightarrow> s = t"
  shows "weighed needed {s \<in> set ss. \<exists>sig \<in> set sigs. v sig s} wt r wt'"
  using assms
proof (induction sigs arbitrary: ss wt us)
  case (Cons sig sigs)
  let ?M = "\<lambda>ss sigs. {s \<in> set ss. \<exists>sig \<in> set sigs. v sig s}"
  show ?case
  proof (cases "take_signer (v sig) ss")
    case None
    then have "?M ss (sig # sigs) = ?M ss sigs" by (auto simp: take_signer_None)
    moreover obtain us' where rec: "verifyAll v needed sigs ss wt = (r, wt', us')"
      using Cons.prems(1) None by (auto split: prod.splits)
    have "weighed needed (?M ss sigs) wt r wt'"
      by (rule Cons.IH [OF rec Cons.prems(2)]) (use Cons.prems(3) in auto)
    ultimately show ?thesis by simp
  next
    case (Some p)
    obtain s rest where p: "p = (s, rest)" by fastforce
    have t: "v sig s" "s \<in> set ss" "set rest = set ss - {s}" "distinct rest"
      using take_signer_Some [of "v sig" ss s rest] Some p Cons.prems(2) by simp_all
    have u: "x = s" if "x \<in> set ss" "v sig x" for x
      by (rule Cons.prems(3) [of sig]) (use that t in simp_all)
    have e: "?M ss (sig # sigs) = insert s (?M rest sigs)"
    proof (rule set_eqI)
      show "x \<in> ?M ss (sig # sigs) \<longleftrightarrow> x \<in> insert s (?M rest sigs)" for x
      proof (cases "x = s")
        case False
        then have "x \<in> set ss \<Longrightarrow> \<not> v sig x" using u by blast
        then show ?thesis using t(3) False by (simp cong: conj_cong)
      qed (use t(1,2) in simp)
    qed
    show ?thesis
    proof (cases "needed \<le> wt + sweight s")
      case True
      then show ?thesis using Cons.prems(1) Some p weighed_enough [of _ s needed wt] unfolding e by auto
    next
      case False
      with Cons.prems(1) Some p obtain us' where rec: "verifyAll v needed sigs rest (wt + sweight s) = (r, wt', us')"
        by (auto split: prod.splits)
      have "weighed needed (?M rest sigs) (wt + sweight s) r wt'"
        by (rule Cons.IH [OF rec t(4)]) (use Cons.prems(3) t(3) in auto)
      then show ?thesis unfolding e using t(3) False by (intro weighed_insert) auto
    qed
  qed
qed (simp add: weighed_def)

lemma weighed_join:
  assumes "weighed needed M wt r1 wt1" and "finite M" "finite K" "M \<inter> K = {}"
    and "\<not> r1 \<Longrightarrow> weighed needed K wt1 r wt'" and "r1 \<Longrightarrow> r \<and> wt' = wt1"
  shows "weighed needed (M \<union> K) wt r wt'"
proof -
  have "sum sweight (M \<union> K) = sum sweight M + sum sweight K" using assms(2-4) by (rule sum.union_disjoint)
  moreover have "sum sweight K \<ge> 0" by (simp add: sum_nonneg)
  ultimately show ?thesis using assms(1,5,6) by (cases r1) (auto simp: weighed_def split: if_splits)
qed

lemma signed_groups:
  "{s \<in> set ss. signed cr h sigs (signer_key s)} =
     {s \<in> set (signers_of KEY_PRE_AUTH_TX ss). preAuthTx (signer_key s) = h}
     \<union> ({s \<in> set (signers_of KEY_HASH_X ss). \<exists>sig \<in> set sigs. verifyHashX cr sig (signer_key s)}
        \<union> {s \<in> set (signers_of KEY_ED25519 ss). \<exists>sig \<in> set sigs. verify cr sig (signer_key s) h})"
  (is "?S = ?P \<union> (?H \<union> ?E)")
proof -
  have "s \<in> ?S \<longleftrightarrow> s \<in> ?P \<union> (?H \<union> ?E)" for s
    by (cases "signer_key s") (auto simp: signers_of_def)
  then show ?thesis by blast
qed

text \<open>If no signature verifies for two signers, the check succeeds exactly if someone has signed and those
  who have signed have the weight that is needed.\<close>

lemma checkSignature_weighs:
  assumes ver: "sc_protocolVersion sc \<noteq> 7" and dist: "distinct signersV"
    and hx: "\<And>sig s t. sig \<in> set (sc_signatures sc) \<Longrightarrow> s \<in> set (signers_of KEY_HASH_X signersV) \<Longrightarrow>
      t \<in> set (signers_of KEY_HASH_X signersV) \<Longrightarrow> verifyHashX cr sig (signer_key s) \<Longrightarrow> verifyHashX cr sig (signer_key t) \<Longrightarrow> s = t"
    and ed: "\<And>sig s t. sig \<in> set (sc_signatures sc) \<Longrightarrow> s \<in> set (signers_of KEY_ED25519 signersV) \<Longrightarrow>
      t \<in> set (signers_of KEY_ED25519 signersV) \<Longrightarrow> verify cr sig (signer_key s) (sc_contentsHash sc) \<Longrightarrow>
      verify cr sig (signer_key t) (sc_contentsHash sc) \<Longrightarrow> s = t"
  defines "M \<equiv> {s \<in> set signersV. signed cr (sc_contentsHash sc) (sc_signatures sc) (signer_key s)}"
  shows "fst (sc_checkSignature cr i signersV needed sc) \<longleftrightarrow> M \<noteq> {} \<and> needed \<le> sum sweight M"
proof -
  let ?h = "sc_contentsHash sc" and ?sigs = "sc_signatures sc"
  let ?vh = "\<lambda>sig s. verifyHashX cr sig (signer_key s)" and ?ve = "\<lambda>sig s. verify cr sig (signer_key s) ?h"
  let ?P = "signers_of KEY_PRE_AUTH_TX signersV" and ?H = "signers_of KEY_HASH_X signersV" and ?E = "signers_of KEY_ED25519 signersV"
  let ?MP = "{s \<in> set ?P. preAuthTx (signer_key s) = ?h}" and ?MH = "{s \<in> set ?H. \<exists>sig \<in> set ?sigs. ?vh sig s}"
    and ?ME = "{s \<in> set ?E. \<exists>sig \<in> set ?sigs. ?ve sig s}"
  have d: "distinct ?P" "distinct ?H" "distinct ?E" using dist by (simp_all add: signers_of_def)
  obtain r1 w1 ks where 1: "check_preAuth ?h needed ?P 0 [] = (r1, w1, ks)" by (cases "check_preAuth ?h needed ?P 0 []")
  obtain r2 w2 us2 where 2: "verifyAll ?vh needed ?sigs ?H w1 = (r2, w2, us2)" by (cases "verifyAll ?vh needed ?sigs ?H w1")
  obtain r3 w3 us3 where 3: "verifyAll ?ve needed ?sigs ?E w2 = (r3, w3, us3)" by (cases "verifyAll ?ve needed ?sigs ?E w2")
  have sc: "sc_signatures (mark_keys i ks sc) = ?sigs" "sc_contentsHash (mark_keys i ks sc) = ?h"
    "sc_signatures (mark_used us x) = sc_signatures x" "sc_contentsHash (mark_used us x) = sc_contentsHash x" for us x
    by (simp_all add: mark_keys_def mark_used_def)
  have res: "fst (sc_checkSignature cr i signersV needed sc) = (r1 \<or> r2 \<or> r3)"
    using ver 1 2 3 by (auto simp: sc_checkSignature_def sc Let_def)
  have w2: "weighed needed ?MH w1 r2 w2" by (rule verifyAll_weighed [OF 2 d(2)]) (rule hx)
  have w3: "weighed needed ?ME w2 r3 w3" by (rule verifyAll_weighed [OF 3 d(3)]) (rule ed)
  have "weighed needed (?MH \<union> ?ME) w1 (r2 \<or> r3) (if r2 then w2 else w3)"
    by (rule weighed_join [OF w2]) (use w3 in \<open>auto simp: signers_of_def\<close>)
  then have "weighed needed (?MP \<union> (?MH \<union> ?ME)) 0 (r1 \<or> r2 \<or> r3) (if r1 then w1 else if r2 then w2 else w3)"
    by (intro weighed_join [OF check_preAuth_weighed [OF 1 d(1)]]) (auto simp: signers_of_def)
  then have w: "weighed needed M 0 (r1 \<or> r2 \<or> r3) (if r1 then w1 else if r2 then w2 else w3)"
    unfolding M_def signed_groups .
  show ?thesis unfolding res using w by (auto simp: weighed_def split: if_splits)
qed

text \<open>Keys that count once only: the set an account has used holds no key but that of the transaction.\<close>

lemma set_insort_insert_key: "set (insort_insert k ks) = insert k (set ks)"
  by (simp add: set_insort_insert)

lemma check_preAuth_keys:
  assumes "check_preAuth h needed ss wt keys = (r, wt', keys')" and "\<forall>s \<in> set ss. signer_type (signer_key s) = KEY_PRE_AUTH_TX"
    and "set keys \<subseteq> {SIGNER_KEY_TYPE_PRE_AUTH_TX h}"
  shows "set keys' \<subseteq> {SIGNER_KEY_TYPE_PRE_AUTH_TX h}"
  using assms
proof (induction ss arbitrary: wt keys)
  case (Cons s ss)
  have key: "signer_key s = SIGNER_KEY_TYPE_PRE_AUTH_TX (preAuthTx (signer_key s))"
    using Cons.prems(2) by (cases "signer_key s") auto
  show ?case
  proof (cases "preAuthTx (signer_key s) = h")
    case True
    then have "set (insort_insert (signer_key s) keys) \<subseteq> {SIGNER_KEY_TYPE_PRE_AUTH_TX h}"
      using Cons.prems(3) key by (auto simp: set_insort_insert_key)
    then show ?thesis using Cons True by (auto simp: Let_def split: if_splits)
  next
    case False
    then show ?thesis using Cons by auto
  qed
qed simp

text \<open>What the checker has marked as used are pre-authorised transactions with the hash at hand.\<close>

definition one_time_ok :: "SignatureChecker \<Rightarrow> bool" where
  "one_time_ok sc \<longleftrightarrow> (\<forall>(i, ks) \<in> set (sc_usedOneTimeSignerKeys sc). set ks \<subseteq> {SIGNER_KEY_TYPE_PRE_AUTH_TX (sc_contentsHash sc)})"

lemma set_map_put: "p \<in> set (map_put k v m) \<Longrightarrow> p = (k, v) \<or> p \<in> set m"
  by (induction m) (auto split: if_splits)

lemma set_fold_insort: "set (fold insort_insert ks xs) = set ks \<union> set (xs :: SignerKey list)"
  by (induction ks arbitrary: xs) (auto simp: set_insort_insert)

lemma one_time_ok_keys:
  assumes "one_time_ok sc" and "set ks \<subseteq> {SIGNER_KEY_TYPE_PRE_AUTH_TX (sc_contentsHash sc)}"
  shows "one_time_ok (mark_keys i ks sc)"
proof (cases "ks = []")
  case False
  let ?old = "case map_of (sc_usedOneTimeSignerKeys sc) i of Some ks \<Rightarrow> ks | None \<Rightarrow> []"
  have "set ?old \<subseteq> {SIGNER_KEY_TYPE_PRE_AUTH_TX (sc_contentsHash sc)}"
  proof (cases "map_of (sc_usedOneTimeSignerKeys sc) i")
    case (Some old)
    from map_of_SomeD [OF this] assms(1) show ?thesis by (auto simp: one_time_ok_def Some)
  qed simp
  then have "set (fold insort_insert ks ?old) \<subseteq> {SIGNER_KEY_TYPE_PRE_AUTH_TX (sc_contentsHash sc)}"
    using assms(2) by (simp add: set_fold_insort)
  then show ?thesis using assms(1) False
    by (auto simp: one_time_ok_def mark_keys_def dest!: set_map_put)
qed (use assms(1) in \<open>simp add: mark_keys_def\<close>)

lemma one_time_ok_used: "one_time_ok (mark_used us sc) = one_time_ok sc"
  by (simp add: one_time_ok_def mark_used_def)

lemma checkSignature_one_time:
  assumes "sc_checkSignature cr i ss needed sc = (r, sc')" and "one_time_ok sc"
  shows "one_time_ok sc'" and "sc_contentsHash sc' = sc_contentsHash sc"
proof -
  obtain r1 w1 ks where 1: "check_preAuth (sc_contentsHash sc) needed (signers_of KEY_PRE_AUTH_TX ss) 0 [] = (r1, w1, ks)"
    by (cases "check_preAuth (sc_contentsHash sc) needed (signers_of KEY_PRE_AUTH_TX ss) 0 []")
  have "set ks \<subseteq> {SIGNER_KEY_TYPE_PRE_AUTH_TX (sc_contentsHash sc)}"
    by (rule check_preAuth_keys [OF 1]) (simp_all add: signers_of_def)
  then have k: "one_time_ok (mark_keys i ks sc)" by (rule one_time_ok_keys [OF assms(2)])
  have "sc' = sc \<or> sc' = mark_keys i ks sc \<or> (\<exists>us. sc' = mark_used us (mark_keys i ks sc))
    \<or> (\<exists>us us'. sc' = mark_used us' (mark_used us (mark_keys i ks sc)))"
    using assms(1) 1 by (auto simp: sc_checkSignature_def Let_def split: if_splits prod.splits)
  then show "one_time_ok sc'" "sc_contentsHash sc' = sc_contentsHash sc"
    using k assms(2) by (auto simp: one_time_ok_used) (auto simp: mark_used_def mark_keys_def)
qed

end
