(* ===== verification/Transactions.thy ===== *)
theory Transactions
  imports Manage_Offer_Laws Signatures
begin

text \<open>
  Operations in a transaction, and transactions (\<open>OperationFrame.cpp\<close>, \<open>TransactionFrame.cpp\<close>, the two
  loops over the transactions of a ledger in \<open>LedgerManagerImpl.cpp\<close>).

  The hash of the contents of a transaction, which the code computes from its XDR, is a field of the
  frame. The delta the code passes by pointer is an option; without it accounts are loaded and nothing is
  recorded. What versions before 8 do with a cached source account, whose frame several operations then
  share, is not modelled.
\<close>

section \<open>Operations\<close>

datatype OperationBody =
    CREATE_ACCOUNT CreateAccountOp
  | PAYMENT PaymentOp
  | PATH_PAYMENT PathPaymentOp
  | MANAGE_OFFER ManageOfferOp
  | CREATE_PASSIVE_OFFER CreatePassiveOfferOp
  | SET_OPTIONS SetOptionsOp
  | CHANGE_TRUST ChangeTrustOp
  | ALLOW_TRUST AllowTrustOp
  | ACCOUNT_MERGE AccountID
  | INFLATION
  | MANAGE_DATA ManageDataOp

record Operation =
  op_sourceAccount :: "AccountID option"
  op_body :: OperationBody

datatype OperationResultTr =
    createAccountResult CreateAccountResultCode
  | paymentResult PaymentResultCode
  | pathPaymentResult PathPaymentResult
  | manageOfferResult ManageOfferResult
  | setOptionsResult SetOptionsResultCode
  | changeTrustResult ChangeTrustResultCode
  | allowTrustResult AllowTrustResultCode
  | accountMergeResult AccountMergeResult
  | inflationResult InflationResult
  | manageDataResult ManageDataResultCode

datatype OperationResult = opINNER OperationResultTr | opBAD_AUTH | opNO_ACCOUNT

record Transaction =
  tx_sourceAccount :: AccountID
  tx_fee :: uint32
  tx_seqNum :: uint64
  tx_timeBounds :: "(uint64 \<times> uint64) option"
  tx_operations :: "Operation list"

record TransactionFrame =
  txf_tx :: Transaction
  txf_signatures :: "DecoratedSignature list"
  txf_contentsHash :: Hash

datatype ThresholdLevel = LOW | MEDIUM | HIGH

fun getThresholdLevel :: "OperationBody \<Rightarrow> ThresholdLevel" where
  "getThresholdLevel (ALLOW_TRUST _) = LOW"
| "getThresholdLevel INFLATION = LOW"
| "getThresholdLevel (ACCOUNT_MERGE _) = HIGH"
| "getThresholdLevel (SET_OPTIONS op) =
     (if so_masterWeight op \<noteq> None \<or> so_lowThreshold op \<noteq> None \<or> so_medThreshold op \<noteq> None
         \<or> so_highThreshold op \<noteq> None \<or> so_signer op \<noteq> None
      then HIGH else MEDIUM)"
| "getThresholdLevel _ = MEDIUM"

definition getMasterWeight :: "AccountFrame \<Rightarrow> uint8" where
  "getMasterWeight f = acc_thresholds (af_account f) ! 0"

definition getLowThreshold :: "AccountFrame \<Rightarrow> int" where
  "getLowThreshold f = uint (acc_thresholds (af_account f) ! 1)"

definition getMediumThreshold :: "AccountFrame \<Rightarrow> int" where
  "getMediumThreshold f = uint (acc_thresholds (af_account f) ! 2)"

definition getHighThreshold :: "AccountFrame \<Rightarrow> int" where
  "getHighThreshold f = uint (acc_thresholds (af_account f) ! 3)"

fun getNeededThreshold :: "AccountFrame \<Rightarrow> ThresholdLevel \<Rightarrow> int" where
  "getNeededThreshold f LOW = getLowThreshold f"
| "getNeededThreshold f MEDIUM = getMediumThreshold f"
| "getNeededThreshold f HIGH = getHighThreshold f"

definition getSourceID :: "TransactionFrame \<Rightarrow> Operation \<Rightarrow> AccountID" where
  "getSourceID tx op = (case op_sourceAccount op of Some i \<Rightarrow> i | None \<Rightarrow> tx_sourceAccount (txf_tx tx))"

text \<open>The virtual \<open>doCheckValid\<close> and \<open>doApply\<close>.\<close>

fun doCheckValid :: "LedgerHeader \<Rightarrow> AccountID \<Rightarrow> OperationBody \<Rightarrow> OperationResultTr option" where
  "doCheckValid lm i (CREATE_ACCOUNT op) = map_option createAccountResult (CreateAccount_doCheckValid op i)"
| "doCheckValid lm i (PAYMENT op) = map_option paymentResult (Payment_doCheckValid op)"
| "doCheckValid lm i (PATH_PAYMENT op) = map_option pathPaymentResult (PathPayment_doCheckValid op)"
| "doCheckValid lm i (MANAGE_OFFER op) = map_option manageOfferResult (ManageOffer_doCheckValid lm op)"
| "doCheckValid lm i (CREATE_PASSIVE_OFFER op) = map_option manageOfferResult (CreatePassiveOffer_doCheckValid lm op)"
| "doCheckValid lm i (SET_OPTIONS op) = map_option setOptionsResult (SetOptions_doCheckValid lm op i)"
| "doCheckValid lm i (CHANGE_TRUST op) = map_option changeTrustResult (ChangeTrust_doCheckValid op)"
| "doCheckValid lm i (ALLOW_TRUST op) = map_option allowTrustResult (AllowTrust_doCheckValid op i)"
| "doCheckValid lm i (ACCOUNT_MERGE d) = map_option accountMergeResult (Merge_doCheckValid d i)"
| "doCheckValid lm i INFLATION = None"
| "doCheckValid lm i (MANAGE_DATA op) = map_option manageDataResult (ManageData_doCheckValid lm op)"

definition tag :: "('a \<Rightarrow> 'b) \<Rightarrow> ('a \<times> session) result \<Rightarrow> ('b \<times> session) result" where
  "tag f r = bindE r (\<lambda>(x, s). Inr (f x, s))"

fun doApply ::
  "Crypto \<Rightarrow> LedgerHeader \<Rightarrow> AccountID \<Rightarrow> AccountFrame \<Rightarrow> OperationBody \<Rightarrow> session \<Rightarrow> (OperationResultTr \<times> session) result" where
  "doApply cr lm i source (CREATE_ACCOUNT op) s = tag createAccountResult (CreateAccount_doApply lm op source s)"
| "doApply cr lm i source (PAYMENT op) s = tag paymentResult (Payment_doApply lm op i source s)"
| "doApply cr lm i source (PATH_PAYMENT op) s = tag pathPaymentResult (PathPayment_doApply lm op i source s)"
| "doApply cr lm i source (MANAGE_OFFER op) s = tag manageOfferResult (ManageOffer_doApply lm False op i source s)"
| "doApply cr lm i source (CREATE_PASSIVE_OFFER op) s = tag manageOfferResult (CreatePassiveOffer_doApply lm op i source s)"
| "doApply cr lm i source (SET_OPTIONS op) s = tag setOptionsResult (SetOptions_doApply lm op source s)"
| "doApply cr lm i source (CHANGE_TRUST op) s = tag changeTrustResult (ChangeTrust_doApply lm op i source s)"
| "doApply cr lm i source (ALLOW_TRUST op) s = tag allowTrustResult (AllowTrust_doApply lm op i source s)"
| "doApply cr lm i source (ACCOUNT_MERGE d) s = tag accountMergeResult (Merge_doApply lm d source s)"
| "doApply cr lm i source INFLATION s = tag inflationResult (Inflation_doApply (toStrKey cr) lm s)"
| "doApply cr lm i source (MANAGE_DATA op) s = tag manageDataResult (ManageData_doApply lm op source s)"

text \<open>What \<open>doApply\<close> returns: true with the results of success.\<close>

fun merge_succeeded :: "AccountMergeResult \<Rightarrow> bool" where
  "merge_succeeded (ACCOUNT_MERGE_SUCCESS _) = True"
| "merge_succeeded _ = False"

fun inflation_succeeded :: "InflationResult \<Rightarrow> bool" where
  "inflation_succeeded (INFLATION_SUCCESS _) = True"
| "inflation_succeeded _ = False"

fun tr_succeeded :: "OperationResultTr \<Rightarrow> bool" where
  "tr_succeeded (createAccountResult r) = (r = CREATE_ACCOUNT_SUCCESS)"
| "tr_succeeded (paymentResult r) = (r = PAYMENT_SUCCESS)"
| "tr_succeeded (pathPaymentResult r) = path_succeeded r"
| "tr_succeeded (manageOfferResult r) = offer_succeeded r"
| "tr_succeeded (setOptionsResult r) = (r = SET_OPTIONS_SUCCESS)"
| "tr_succeeded (changeTrustResult r) = (r = CHANGE_TRUST_SUCCESS)"
| "tr_succeeded (allowTrustResult r) = (r = ALLOW_TRUST_SUCCESS)"
| "tr_succeeded (accountMergeResult r) = merge_succeeded r"
| "tr_succeeded (inflationResult r) = inflation_succeeded r"
| "tr_succeeded (manageDataResult r) = (r = MANAGE_DATA_SUCCESS)"

section \<open>Signatures of an account\<close>

definition tx_checkSignature :: "Crypto \<Rightarrow> AccountFrame \<Rightarrow> int \<Rightarrow> SignatureChecker \<Rightarrow> bool \<times> SignatureChecker" where
  "tx_checkSignature cr f neededWeight sc =
     (let master = getMasterWeight f;
          signers = (if master \<noteq> 0
                     then [\<lparr>signer_key = SIGNER_KEY_TYPE_ED25519 (acc_accountID (af_account f)), signer_weight = ucast master\<rparr>]
                     else []) @ acc_signers (af_account f)
      in sc_checkSignature cr (acc_accountID (af_account f)) signers neededWeight sc)"

type_synonym tx_state = "LedgerDelta option \<times> Database"

definition tx_loadAccount :: "AccountID \<Rightarrow> tx_state \<Rightarrow> (AccountFrame option \<times> tx_state) result" where
  "tx_loadAccount i st =
     (case fst st of
        Some d \<Rightarrow> bindE (loadAccount i (d, snd st)) (\<lambda>(f, d, db). Inr (f, Some d, db))
      | None \<Rightarrow> bindE (loadAccount_db i (snd st)) (\<lambda>(f, db). Inr (f, None, db)))"

text \<open>\<open>OperationFrame::checkValid\<close>: the result of an operation that is not valid, or the source account,
  which is there only when the operation is to be applied.\<close>

definition op_checkValid ::
  "Crypto \<Rightarrow> LedgerHeader \<Rightarrow> TransactionFrame \<Rightarrow> Operation \<Rightarrow> SignatureChecker \<Rightarrow> tx_state \<Rightarrow>
    ((OperationResult + AccountFrame option) \<times> SignatureChecker \<times> tx_state) result" where
  "op_checkValid cr lm tx op sc st =
     (let forApply = (fst st \<noteq> None) in
      bindE (tx_loadAccount (getSourceID tx op) st) (\<lambda>(source, st).
      if source = None \<and> (forApply \<or> op_sourceAccount op = None) then Inr (Inl opNO_ACCOUNT, sc, st)
      else
        let source = (case source of Some f \<Rightarrow> f | None \<Rightarrow> makeAuthOnlyAccount (the (op_sourceAccount op)));
            (ok, sc) = tx_checkSignature cr source (getNeededThreshold source (getThresholdLevel (op_body op))) sc in
        if \<not> ok then Inr (Inl opBAD_AUTH, sc, st)
        else case doCheckValid lm (getSourceID tx op) (op_body op) of
            Some r \<Rightarrow> Inr (Inl (opINNER r), sc, st)
          | None \<Rightarrow> Inr (Inr (if forApply then Some source else None), sc, st)))"

definition op_apply ::
  "Crypto \<Rightarrow> LedgerHeader \<Rightarrow> TransactionFrame \<Rightarrow> Operation \<Rightarrow> SignatureChecker \<Rightarrow> session \<Rightarrow>
    ((bool \<times> OperationResult) \<times> SignatureChecker \<times> session) result" where
  "op_apply cr lm tx op sc s =
     bindE (op_checkValid cr lm tx op sc (Some (fst s), snd s)) (\<lambda>(r, sc, d, db).
     deref d (\<lambda>d.
     case r of
       Inl res \<Rightarrow> Inr ((False, res), sc, d, db)
     | Inr source \<Rightarrow>
         deref source (\<lambda>source.
         bindE (doApply cr lm (getSourceID tx op) source (op_body op) (d, db)) (\<lambda>(r, s).
         Inr ((tr_succeeded r, opINNER r), sc, s)))))"

section \<open>Transactions\<close>

datatype TransactionResultCode =
    txSUCCESS "OperationResult list" | txFAILED "OperationResult list"
  | txTOO_EARLY | txTOO_LATE | txMISSING_OPERATION | txBAD_SEQ | txBAD_AUTH | txINSUFFICIENT_BALANCE
  | txNO_ACCOUNT | txINSUFFICIENT_FEE | txBAD_AUTH_EXTRA | txINTERNAL_ERROR

definition getMinFee :: "LedgerHeader \<Rightarrow> Transaction \<Rightarrow> int" where
  "getMinFee lm tx = uint (baseFee lm) * int (max 1 (length (tx_operations tx)))"

definition check_timeBounds :: "LedgerHeader \<Rightarrow> Transaction \<Rightarrow> TransactionResultCode option" where
  "check_timeBounds lm tx =
     (case tx_timeBounds tx of
        None \<Rightarrow> None
      | Some (minTime, maxTime) \<Rightarrow>
          let closeTime = sv_closeTime (scpValue lm) in
          if minTime > closeTime then Some txTOO_EARLY
          else if maxTime \<noteq> 0 \<and> maxTime < closeTime then Some txTOO_LATE
          else None)"

definition commonValid ::
  "Crypto \<Rightarrow> LedgerHeader \<Rightarrow> TransactionFrame \<Rightarrow> uint64 \<Rightarrow> SignatureChecker \<Rightarrow> tx_state \<Rightarrow>
    (TransactionResultCode option \<times> SignatureChecker \<times> tx_state) result" where
  "commonValid cr lm txf cur sc st =
     (let tx = txf_tx txf; applying = (fst st \<noteq> None) in
      if tx_operations tx = [] then Inr (Some txMISSING_OPERATION, sc, st)
      else case check_timeBounds lm tx of
          Some code \<Rightarrow> Inr (Some code, sc, st)
        | None \<Rightarrow>
      if uint (tx_fee tx) < getMinFee lm tx then Inr (Some txINSUFFICIENT_FEE, sc, st)
      else
        bindE (tx_loadAccount (tx_sourceAccount tx) st) (\<lambda>(f, st).
        case f of
          None \<Rightarrow> Inr (Some txNO_ACCOUNT, sc, st)
        | Some f \<Rightarrow>
            let cur = (if cur = 0 then acc_seqNum (af_account f) else cur) in
            if \<not> applying \<and> cur + 1 \<noteq> tx_seqNum tx then Inr (Some txBAD_SEQ, sc, st)
            else
              let (ok, sc) = tx_checkSignature cr f (getLowThreshold f) sc in
              if \<not> ok then Inr (Some txBAD_AUTH, sc, st)
              else
                let balanceAfter = (if applying \<and> ledgerVersion lm > 8 then acc_balance (af_account f)
                                    else acc_balance (af_account f) - uint (tx_fee tx)) in
                if balanceAfter < getMinimumBalance lm f then Inr (Some txINSUFFICIENT_BALANCE, sc, st)
                else Inr (None, sc, st)))"

text \<open>The result is the fee that was charged.\<close>

definition processFeeSeqNum :: "TransactionFrame \<Rightarrow> session \<Rightarrow> (int \<times> session) result" where
  "processFeeSeqNum txf s =
     (let tx = txf_tx txf in
      bindE (loadAccount (tx_sourceAccount tx) s) (\<lambda>(f, s).
      case f of
        None \<Rightarrow> Inl (RuntimeError ''Unexpected database state'')
      | Some f \<Rightarrow>
          let fee = uint (tx_fee tx); fee' = min (acc_balance (af_account f)) fee in
          bindE (if fee > 0
                 then bindE (account_addBalance (- fee') f) (\<lambda>(f, _).
                   Inr (fee', f, upd_header (\<lambda>h. h\<lparr>feePool := feePool h + fee'\<rparr>) s))
                 else Inr (fee, f, s)) (\<lambda>(fee, f, s).
          if acc_seqNum (af_account f) + 1 \<noteq> tx_seqNum tx then Inl (RuntimeError ''Unexpected account state'')
          else
            bindE (account_storeChange (f\<lparr>af_account := (af_account f)\<lparr>acc_seqNum := tx_seqNum tx\<rparr>\<rparr>) s) (\<lambda>(f, s).
            Inr (fee, s)))))"

text \<open>The erasure of a signer, and of the used keys of an account. The accumulation is by \<open>||\<close>: no
  key is looked at after one that was erased.\<close>

definition removeAccountSigner :: "LedgerHeader \<Rightarrow> SignerKey \<Rightarrow> AccountFrame \<Rightarrow> (AccountFrame \<times> bool) result" where
  "removeAccountSigner lm k f =
     (if k \<in> set (map signer_key (acc_signers (af_account f)))
      then bindE (addNumEntries (- 1) lm f) (\<lambda>(f, removed).
        dbgAssert removed
          (Inr (set_signers (takeWhile (\<lambda>s. signer_key s \<noteq> k) (acc_signers (af_account f))
                             @ drop 1 (dropWhile (\<lambda>s. signer_key s \<noteq> k) (acc_signers (af_account f)))) f, True)))
      else Inr (f, False))"

fun remove_keys :: "LedgerHeader \<Rightarrow> SignerKey list \<Rightarrow> AccountFrame \<Rightarrow> bool \<Rightarrow> (AccountFrame \<times> bool) result" where
  "remove_keys lm [] f changed = Inr (f, changed)"
| "remove_keys lm (k # ks) f changed =
     (if changed then remove_keys lm ks f True
      else bindE (removeAccountSigner lm k f) (\<lambda>(f, changed). remove_keys lm ks f changed))"

definition removeUsedKeys :: "LedgerHeader \<Rightarrow> AccountID \<Rightarrow> SignerKey list \<Rightarrow> session \<Rightarrow> session result" where
  "removeUsedKeys lm i keys s =
     bindE (loadAccount_db i (snd s)) (\<lambda>(f, db).
     case f of
       None \<Rightarrow> Inr (fst s, db)
     | Some f \<Rightarrow>
         bindE (remove_keys lm keys f False) (\<lambda>(f, changed).
         if changed then bindE (account_storeChange (setUpdateSigners f) (fst s, db)) (\<lambda>(f, s). Inr s)
         else Inr (fst s, db)))"

fun removeUsedOneTimeSignerKeys :: "LedgerHeader \<Rightarrow> (AccountID \<times> SignerKey list) list \<Rightarrow> session \<Rightarrow> session result" where
  "removeUsedOneTimeSignerKeys lm [] s = Inr s"
| "removeUsedOneTimeSignerKeys lm (u # us) s =
     bindE (removeUsedKeys lm (fst u) (snd u) s) (\<lambda>s. removeUsedOneTimeSignerKeys lm us s)"

text \<open>\<open>TransactionFrame::checkValid\<close>; of the results of the operations only that of the one that is not
  valid is given.\<close>

fun check_ops ::
  "Crypto \<Rightarrow> LedgerHeader \<Rightarrow> TransactionFrame \<Rightarrow> Operation list \<Rightarrow> SignatureChecker \<Rightarrow> tx_state \<Rightarrow>
    (OperationResult option \<times> SignatureChecker \<times> tx_state) result" where
  "check_ops cr lm txf [] sc st = Inr (None, sc, st)"
| "check_ops cr lm txf (op # ops) sc st =
     bindE (op_checkValid cr lm txf op sc st) (\<lambda>(r, sc, st).
     case r of Inl res \<Rightarrow> Inr (Some res, sc, st) | Inr _ \<Rightarrow> check_ops cr lm txf ops sc st)"

definition tx_checkValid ::
  "Crypto \<Rightarrow> LedgerHeader \<Rightarrow> TransactionFrame \<Rightarrow> uint64 \<Rightarrow> Database \<Rightarrow> (TransactionResultCode option \<times> Database) result" where
  "tx_checkValid cr lm txf cur db =
     (let sc = SignatureChecker_new (ledgerVersion lm) (txf_contentsHash txf) (txf_signatures txf) in
      bindE (commonValid cr lm txf cur sc (None, db)) (\<lambda>(code, sc, st).
      if code \<noteq> None then Inr (code, snd st)
      else
        bindE (check_ops cr lm txf (tx_operations (txf_tx txf)) sc st) (\<lambda>(r, sc, st).
        case r of
          Some res \<Rightarrow> Inr (Some (txFAILED [res]), snd st)
        | None \<Rightarrow> Inr (if checkAllSignaturesUsed sc then None else Some txBAD_AUTH_EXTRA, snd st))))"

text \<open>The loop over the operations: whether there was an error, the results, the changes each operation
  reports; each operation has a delta of its own, which is committed in any case.\<close>

fun apply_ops ::
  "Crypto \<Rightarrow> LedgerHeader \<Rightarrow> TransactionFrame \<Rightarrow> Operation list \<Rightarrow> SignatureChecker \<Rightarrow> session \<Rightarrow>
    ((bool \<times> OperationResult list \<times> LedgerEntryChange list list) \<times> SignatureChecker \<times> session) result" where
  "apply_ops cr lm txf [] sc s = Inr ((False, [], []), sc, s)"
| "apply_ops cr lm txf (op # ops) sc s =
     bindE (op_apply cr lm txf op sc (LedgerDelta_nested (fst s), snd s)) (\<lambda>((txRes, res), sc, opDelta, db).
     bindE (commit_nested opDelta (fst s)) (\<lambda>(_, d).
     bindE (apply_ops cr lm txf ops sc (d, db)) (\<lambda>((err, rs, ms), sc, s).
     Inr ((\<not> txRes \<or> err, res # rs, getChanges opDelta # ms), sc, s))))"

definition tx_apply ::
  "Crypto \<Rightarrow> LedgerHeader \<Rightarrow> TransactionFrame \<Rightarrow> session \<Rightarrow>
    ((TransactionResultCode \<times> LedgerEntryChange list list) \<times> session) result" where
  "tx_apply cr lm txf s =
     (let sc = SignatureChecker_new (ledgerVersion lm) (txf_contentsHash txf) (txf_signatures txf) in
      bindE (commonValid cr lm txf 0 sc (Some (fst s), snd s)) (\<lambda>(code, sc, delta, saved).
      deref delta (\<lambda>delta.
      case code of
        Some code \<Rightarrow> Inr ((code, []), delta, saved)
      | None \<Rightarrow>
          bindE (apply_ops cr lm txf (tx_operations (txf_tx txf)) sc (LedgerDelta_nested delta, saved))
            (\<lambda>((err, rs, ms), sc, thisTxDelta, db).
          if err
          then bindE (rollback_scope thisTxDelta saved db) (\<lambda>db. Inr ((txFAILED rs, []), delta, db))
          else if \<not> checkAllSignaturesUsed sc
          then bindE (rollback_scope thisTxDelta saved db) (\<lambda>db. Inr ((txBAD_AUTH_EXTRA, ms), delta, db))
          else
            bindE (removeUsedOneTimeSignerKeys lm (sc_usedOneTimeSignerKeys sc) (thisTxDelta, db)) (\<lambda>(thisTxDelta, db).
            bindE (commit_nested thisTxDelta delta) (\<lambda>(_, delta).
            Inr ((txSUCCESS rs, ms), delta, db)))))))"

fun tx_succeeded :: "TransactionResultCode \<Rightarrow> bool" where
  "tx_succeeded (txSUCCESS _) = True"
| "tx_succeeded _ = False"

section \<open>The transactions of a ledger\<close>

text \<open>\<open>processFeesSeqNums\<close> and \<open>applyTransactions\<close>. The rows of \<open>txhistory\<close> and \<open>txfeehistory\<close> are not
  modelled.\<close>

fun processFeesSeqNums :: "TransactionFrame list \<Rightarrow> session \<Rightarrow> (int list \<times> session) result" where
  "processFeesSeqNums [] s = Inr ([], s)"
| "processFeesSeqNums (tx # txs) s =
     bindE (processFeeSeqNum tx (LedgerDelta_nested (fst s), snd s)) (\<lambda>(fee, d, db).
     bindE (commit_nested d (fst s)) (\<lambda>(_, d).
     bindE (processFeesSeqNums txs (d, db)) (\<lambda>(fees, s). Inr (fee # fees, s))))"

text \<open>An exception out of \<open>apply\<close> unwinds the SQL transaction, which restores the tables, and the nested deltas,
  whose destructors flush the keys they have changed from the cache. What else is in the cache then depends
  on where the exception was raised: the items are an argument, and those that are not the entry of the
  tables are the flushed ones.\<close>

definition unwound :: "lru_items \<Rightarrow> Database \<Rightarrow> Database" where
  "unwound items db = db\<lparr>db_cache := filter (\<lambda>(k, v). cached_key k \<and> v = db_ledger db k) items\<rparr>"

text \<open>A turn of the loop of \<open>applyTransactions\<close>. An exception, out of \<open>apply\<close> or out of \<open>commit\<close>, becomes the
  result \<open>txINTERNAL_ERROR\<close>; a failed assertion ends the program.\<close>

definition applyTransaction ::
  "Crypto \<Rightarrow> LedgerHeader \<Rightarrow> (TransactionFrame \<Rightarrow> session \<Rightarrow> lru_items) \<Rightarrow> TransactionFrame \<Rightarrow> session \<Rightarrow>
    (TransactionResultCode \<times> session) result" where
  "applyTransaction cr lm items tx s =
     (case tx_apply cr lm tx (LedgerDelta_nested (fst s), snd s) of
        Inl (RuntimeError _) \<Rightarrow> Inr (txINTERNAL_ERROR, fst s, unwound (items tx s) (snd s))
      | Inl e \<Rightarrow> Inl e
      | Inr ((code, meta), delta, db) \<Rightarrow>
          if tx_succeeded code
          then
            case commit_nested delta (fst s) of
              Inl (RuntimeError _) \<Rightarrow> bindE (rollback_scope delta db db) (\<lambda>db. Inr (txINTERNAL_ERROR, fst s, db))
            | Inl e \<Rightarrow> Inl e
            | Inr (_, d) \<Rightarrow> Inr (code, d, db)
          else dbgAssert (getChanges delta = []) (dbgAssert (mCurrentHeader delta = hdr s)
            (bindE (rollback_scope delta db db) (\<lambda>db. Inr (code, fst s, db)))))"

fun applyTransactions ::
  "Crypto \<Rightarrow> LedgerHeader \<Rightarrow> (TransactionFrame \<Rightarrow> session \<Rightarrow> lru_items) \<Rightarrow> TransactionFrame list \<Rightarrow> session \<Rightarrow>
    (TransactionResultCode list \<times> session) result" where
  "applyTransactions cr lm items [] s = Inr ([], s)"
| "applyTransactions cr lm items (tx # txs) s =
     bindE (applyTransaction cr lm items tx s) (\<lambda>(code, s).
     bindE (applyTransactions cr lm items txs s) (\<lambda>(codes, s). Inr (code # codes, s)))"

end
