(* ===== verification/Transaction_Laws.thy ===== *)
theory Transaction_Laws
  imports Transactions
begin

text \<open>
  What transactions keep: an operation that succeeds leaves the amount of the native asset as it was; a
  transaction either takes effect as a whole or leaves no change; fees move to the fee pool; the key of a
  pre-authorised transaction is erased when it was used.
\<close>

section \<open>Operations\<close>

definition op_done :: "bool \<Rightarrow> ledger \<Rightarrow> session \<Rightarrow> bool \<Rightarrow> session \<Rightarrow> bool" where
  "op_done tr base s ok s' \<longleftrightarrow>
     sess_ok (tr \<and> ok) base s' \<and> counted (view s') \<and> (ok \<longrightarrow> lumens s' = lumens s)"

lemma sess_ok_and: "sess_ok tr base s \<Longrightarrow> sess_ok (tr \<and> b) base s"
  by (cases b) (auto dest: sess_ok_untracked)

lemma kept_done: "kept tr base s s' \<Longrightarrow> op_done tr base s ok s'"
  by (simp add: kept_def op_done_def sess_ok_and)

lemma doApply_law:
  assumes app: "doApply cr lm i source body s = Inr (r, s')" and valid: "doCheckValid lm i body = None"
    and sok: "sess_ok tr base s" and cnt: "counted (view s)" and cur: "current (view s) source"
    and id: "acc_accountID (af_account source) = i" and ver: "ledgerVersion lm \<ge> 8"
  shows "op_done tr base s (tr_succeeded r) s'"
proof (cases body)
  case (CREATE_ACCOUNT op)
  then show ?thesis using app CreateAccount_law [OF _ sok cnt cur] by (auto simp: tag_def result_simps intro!: kept_done)
next
  case (PAYMENT op)
  then obtain c where c: "Payment_doApply lm op i source s = Inr (c, s')" "r = paymentResult c"
    using app by (auto simp: tag_def result_simps)
  note l = Payment_law [OF c(1) sok cnt ver]
  show ?thesis using l sess_ok_and [OF l(1)] by (simp add: op_done_def c(2) lumens_def)
next
  case (PATH_PAYMENT op)
  then obtain c where c: "PathPayment_doApply lm op i source s = Inr (c, s')" "r = pathPaymentResult c"
    using app by (auto simp: tag_def result_simps)
  note l = PathPayment_law [OF c(1) sok cnt ver]
  show ?thesis using l sess_ok_and [OF l(1)] by (simp add: op_done_def c(2) lumens_def)
next
  case (MANAGE_OFFER op)
  then obtain c where c: "ManageOffer_doApply lm False op i source s = Inr (c, s')" "r = manageOfferResult c"
    using app by (auto simp: tag_def result_simps)
  have "ManageOffer_doCheckValid lm op = None" using valid MANAGE_OFFER by simp
  from ManageOffer_law [OF c(1) sok cnt cur id ver this] show ?thesis by (auto simp: op_done_def placed_def c(2))
next
  case (CREATE_PASSIVE_OFFER op)
  then obtain c where c: "ManageOffer_doApply lm True (ManageOfferOpHolder op) i source s = Inr (c, s')" "r = manageOfferResult c"
    using app by (auto simp: tag_def result_simps CreatePassiveOffer_doApply_def)
  have "ManageOffer_doCheckValid lm (ManageOfferOpHolder op) = None"
    using valid CREATE_PASSIVE_OFFER by (simp add: CreatePassiveOffer_doCheckValid_def)
  from ManageOffer_law [OF c(1) sok cnt cur id ver this] show ?thesis by (auto simp: op_done_def placed_def c(2))
next
  case (SET_OPTIONS op)
  then show ?thesis using app SetOptions_law [OF _ sok cnt cur] by (auto simp: tag_def result_simps intro!: kept_done)
next
  case (CHANGE_TRUST op)
  then show ?thesis using app ChangeTrust_law [OF _ sok cnt cur ver id] by (auto simp: tag_def result_simps intro!: kept_done)
next
  case (ALLOW_TRUST op)
  then show ?thesis using app AllowTrust_law [OF _ sok cnt] by (auto simp: tag_def result_simps intro!: kept_done)
next
  case (ACCOUNT_MERGE d)
  then have "Merge_doCheckValid d (acc_accountID (af_account source)) = None" using valid id by simp
  then show ?thesis using app ACCOUNT_MERGE Merge_law [OF _ sok cnt cur ver] by (auto simp: tag_def result_simps intro!: kept_done)
next
  case INFLATION
  then show ?thesis using app Inflation_law [OF _ sok cnt ver] by (auto simp: tag_def result_simps intro!: kept_done)
next
  case (MANAGE_DATA op)
  then show ?thesis using app ManageData_law [OF _ sok cnt cur] by (auto simp: tag_def result_simps intro!: kept_done)
qed

text \<open>Loading with a delta at hand.\<close>

lemma tx_loadAccount_law:
  assumes "tx_loadAccount i (Some d, db) = Inr (f, st)" and "sess_ok tr base (d, db)"
  obtains d' db' where "st = (Some d', db')" and "sess_ok tr base (d', db')" and "db_ledger db' = db_ledger db"
    and "mCurrentHeader d' = mCurrentHeader d" and "map_option account_entry f = db_ledger db (AccountKey i)"
    and "touched d' = touched d"
proof -
  obtain d' db' where st: "st = (Some d', db')" and ld: "loadAccount i (d, db) = Inr (f, d', db')"
    using assms(1) by (auto simp: tx_loadAccount_def result_simps)
  note l = loadAccount_law [OF ld assms(2)]
  have "touched d' = touched d" using touched_load(1) [OF ld] by simp
  then show thesis using l st by (intro that [of d' db']) (simp_all add: view_def hdr_def)
qed

lemma op_apply_law:
  assumes app: "op_apply cr lm tx op sc s = Inr ((ok, r), sc', s')" and sok: "sess_ok tr base s" and cnt: "counted (view s)"
    and ver: "ledgerVersion lm \<ge> 8"
  shows "op_done tr base s ok s'"
proof -
  obtain x sc1 d db where ch: "op_checkValid cr lm tx op sc (Some (fst s), snd s) = Inr (x, sc1, d, db)"
    using app by (auto simp: op_apply_def result_simps)
  obtain f st where ld: "tx_loadAccount (getSourceID tx op) (Some (fst s), snd s) = Inr (f, st)" and st: "st = (d, db)"
    using ch by (auto simp: op_checkValid_def Let_def result_simps split: if_splits option.splits prod.splits)
  obtain d1 where d: "d = Some d1" and s1: "sess_ok tr base (d1, db)" "db_ledger db = view s" "mCurrentHeader d1 = hdr s"
    "map_option account_entry f = view s (AccountKey (getSourceID tx op))"
    using tx_loadAccount_law [OF ld] sok st by (force simp: view_def hdr_def)
  have v1: "view (d1, db) = view s" "hdr (d1, db) = hdr s" using s1(2,3) by (simp_all add: view_def hdr_def)
  show ?thesis
  proof (cases x)
    case (Inl res)
    then have "s' = (d1, db)" "\<not> ok" using app ch d by (simp_all add: op_apply_def deref_def)
    then show ?thesis using s1(1) v1 cnt by (simp add: op_done_def sess_ok_untracked)
  next
    case (Inr src)
    then obtain source t where src: "src = Some source" and ap: "doApply cr lm (getSourceID tx op) source (op_body op) (d1, db) = Inr (t, s')"
      and ok: "ok = tr_succeeded t"
      using app ch d by (auto simp: op_apply_def result_simps deref_def split: option.splits)
    have fs: "f = Some source" and valid: "doCheckValid lm (getSourceID tx op) (op_body op) = None"
      using ch ld Inr src by (auto simp: op_checkValid_def Let_def result_simps split: if_splits option.splits prod.splits)
    note c = loaded_current [OF sok s1(4) fs]
    have "op_done tr base (d1, db) ok s'"
      unfolding ok by (rule doApply_law [OF ap valid s1(1) _ _ c(2) ver]) (use v1 cnt c(1) in simp_all)
    then show ?thesis using v1 by (simp add: op_done_def lumens_def)
  qed
qed

lemma nested_counted: "view (LedgerDelta_nested d, db) = view (d, db)" "lumens (LedgerDelta_nested d, db) = lumens (d, db)"
  by (simp_all add: view_def lumens_def hdr_def LedgerDelta_nested_def LedgerDelta_new_def)

text \<open>A scope of its own for a step, committed whatever came of it.\<close>

lemma commit_done:
  assumes sok: "sess_ok tr base (d, db0)" and don: "op_done tr (db_ledger db0) (LedgerDelta_nested d, db0) ok (t, db)"
    and com: "commit_nested t d = Inr (t', d')"
  shows "op_done tr base (d, db0) ok (d', db)"
proof -
  have "tracks tr base d (db_ledger db0)" "sess_ok (tr \<and> ok) (db_ledger db0) (t, db)"
    using sok don by (simp_all add: sess_ok_tracks view_def op_done_def)
  note c = commit_law [OF this com]
  have "view (d', db) = view (t, db)" by (simp add: view_def)
  moreover have "lumens (d', db) = lumens (t, db)" using c(2) by (simp add: lumens_def view_def)
  moreover have "sess_ok (tr \<and> ok) base (d', db)" using c(1) by (simp add: conj_left_commute)
  ultimately show ?thesis using don by (simp add: op_done_def nested_counted)
qed

lemma apply_ops_law:
  assumes "apply_ops cr lm txf ops sc s = Inr ((err, rs, ms), sc', s')" and "sess_ok tr base s" and "counted (view s)"
    and "ledgerVersion lm \<ge> 8"
  shows "op_done tr base s (\<not> err) s'"
  using assms
proof (induction ops arbitrary: tr sc s err rs ms)
  case Nil
  then show ?case by (simp add: op_done_def)
next
  case (Cons op ops)
  obtain d0 db0 where s: "s = (d0, db0)" by fastforce
  obtain ok r sc1 t db t' d err1 rs1 ms1 where op: "op_apply cr lm txf op sc (LedgerDelta_nested d0, db0) = Inr ((ok, r), sc1, t, db)"
    and com: "commit_nested t d0 = Inr (t', d)" and rec: "apply_ops cr lm txf ops sc1 (d, db) = Inr ((err1, rs1, ms1), sc', s')"
    and err: "err = (ok \<longrightarrow> err1)"
    using Cons.prems(1) unfolding s by (simp add: result_simps split_beta prod_eq_iff) metis
  have sok: "sess_ok tr base (d0, db0)" using Cons.prems(2) by (simp add: s)
  have "op_done tr (db_ledger db0) (LedgerDelta_nested d0, db0) ok (t, db)"
    by (rule op_apply_law [OF op nested_law(1) [OF sok] _ Cons.prems(4)]) (use Cons.prems(3) in \<open>simp add: nested_counted s\<close>)
  note st = commit_done [OF sok this com]
  have "op_done (tr \<and> ok) base (d, db) (\<not> err1) s'"
    by (rule Cons.IH [OF rec _ _ Cons.prems(4)]) (use st in \<open>simp_all add: op_done_def\<close>)
  then show ?case using st by (auto simp: op_done_def err s conj_assoc)
qed

section \<open>Transactions\<close>

text \<open>All that the checks do to the state is to load the source account.\<close>

lemma commonValid_state:
  assumes "commonValid cr lm txf cur sc (Some d, db) = Inr (code, sc', st)"
  obtains "st = (Some d, db)" | f where "tx_loadAccount (tx_sourceAccount (txf_tx txf)) (Some d, db) = Inr (f, st)"
proof (cases "tx_operations (txf_tx txf) = [] \<or> check_timeBounds lm (txf_tx txf) \<noteq> None
    \<or> uint (tx_fee (txf_tx txf)) < getMinFee lm (txf_tx txf)")
  case True
  then have "st = (Some d, db)" using assms by (auto simp: commonValid_def Let_def split: if_splits option.splits)
  then show ?thesis by (rule that(1))
next
  case False
  then obtain f st1 where ld: "tx_loadAccount (tx_sourceAccount (txf_tx txf)) (Some d, db) = Inr (f, st1)"
    using assms by (auto simp: commonValid_def Let_def result_simps)
  have "st = st1"
  proof (cases f)
    case (Some g)
    obtain ok sc2 where "tx_checkSignature cr g (getLowThreshold g) sc = (ok, sc2)" by fastforce
    then show ?thesis using assms False ld Some by (auto simp: commonValid_def Let_def split: if_splits)
  qed (use assms False ld in \<open>simp add: commonValid_def Let_def\<close>)
  with ld show ?thesis by (intro that(2)) simp
qed

lemma commonValid_law:
  assumes "commonValid cr lm txf cur sc (Some d, db) = Inr (code, sc', st)" and "sess_ok tr base (d, db)"
  obtains d' db' where "st = (Some d', db')" and "sess_ok tr base (d', db')" and "db_ledger db' = db_ledger db"
    and "mCurrentHeader d' = mCurrentHeader d" and "touched d' = touched d"
  using assms(1)
proof (cases rule: commonValid_state)
  case 1
  then show ?thesis using assms(2) by (intro that) simp_all
next
  case (2 f)
  from tx_loadAccount_law [OF 2 assms(2)] show ?thesis by (metis that)
qed

section \<open>Keys that were used\<close>

lemma erase_first:
  "distinct (map signer_key ss) \<Longrightarrow>
    takeWhile (\<lambda>s. signer_key s \<noteq> k) ss @ drop 1 (dropWhile (\<lambda>s. signer_key s \<noteq> k) ss) = filter (\<lambda>s. signer_key s \<noteq> k) ss"
proof (induction ss)
  case (Cons a ss)
  show ?case
  proof (cases "signer_key a = k")
    case True
    then have "filter (\<lambda>s. signer_key s \<noteq> k) ss = ss" using Cons.prems by (auto simp: filter_id_conv) (metis imageI)
    with True show ?thesis by simp
  qed (use Cons in simp)
qed simp

lemma length_erase_first:
  "k \<in> set (map signer_key ss) \<Longrightarrow>
    Suc (length (takeWhile (\<lambda>s. signer_key s \<noteq> k) ss @ drop 1 (dropWhile (\<lambda>s. signer_key s \<noteq> k) ss))) = length ss"
  by (induction ss) auto

lemma removeAccountSigner_law:
  assumes rm: "removeAccountSigner lm k f = Inr (f', c)" and fit: "signers_fit f"
    and dist: "distinct (map signer_key (acc_signers (af_account f)))"
  shows "same_entries f f'" and "signers_fit f'" and "c = (k \<in> set (map signer_key (acc_signers (af_account f))))"
    and "acc_signers (af_account f') = filter (\<lambda>s. signer_key s \<noteq> k) (acc_signers (af_account f))"
proof -
  let ?ss = "acc_signers (af_account f)"
  have "same_entries f f' \<and> signers_fit f' \<and> c = (k \<in> set (map signer_key ?ss))
    \<and> acc_signers (af_account f') = filter (\<lambda>s. signer_key s \<noteq> k) ?ss"
  proof (cases "k \<in> set (map signer_key ?ss)")
    case True
    let ?ss' = "takeWhile (\<lambda>s. signer_key s \<noteq> k) ?ss @ drop 1 (dropWhile (\<lambda>s. signer_key s \<noteq> k) ?ss)"
    have len: "int (length ?ss') = int (length ?ss) - 1" using length_erase_first [OF True] by linarith
    have "0 < length ?ss" using True by (cases ?ss) auto
    then have "acc_numSubEntries (af_account f) \<noteq> 0" using fit by (auto simp: signers_fit_def)
    moreover obtain f1 where add: "addNumEntries (- 1) lm f = Inr (f1, True)"
      and f': "c" "f' = set_signers (takeWhile (\<lambda>s. signer_key s \<noteq> k) (acc_signers (af_account f1))
        @ drop 1 (dropWhile (\<lambda>s. signer_key s \<noteq> k) (acc_signers (af_account f1)))) f1"
      using rm True by (auto simp: removeAccountSigner_def result_simps)
    ultimately have m: "f1 = f\<lparr>af_account := (af_account f)\<lparr>acc_numSubEntries := acc_numSubEntries (af_account f) + word_of_int (- 1)\<rparr>\<rparr>"
      "uint (acc_numSubEntries (af_account f1)) = uint (acc_numSubEntries (af_account f)) - 1"
      using addNumEntries_minus [OF add] by simp_all
    note e' = erase_first [OF dist, of k]
    have e: "acc_signers (af_account f1) = ?ss" by (simp add: m(1))
    have s': "acc_signers (af_account f') = ?ss'" "acc_numSubEntries (af_account f') = acc_numSubEntries (af_account f1)"
      "acc_accountID (af_account f') = acc_accountID (af_account f)" "acc_balance (af_account f') = acc_balance (af_account f)"
      unfolding f'(2) e by (simp_all add: set_signers_def m(1))
    show ?thesis
      unfolding same_entries_def signers_fit_def s' using m(2) len [unfolded e'] fit f'(1) True e'
      by (simp add: signers_fit_def)
  next
    case False
    then have "filter (\<lambda>s. signer_key s \<noteq> k) ?ss = ?ss" by (auto simp: filter_id_conv)
    then show ?thesis using False rm fit by (simp add: removeAccountSigner_def same_entries_def)
  qed
  then show "same_entries f f'" "signers_fit f'" "c = (k \<in> set (map signer_key ?ss))"
    "acc_signers (af_account f') = filter (\<lambda>s. signer_key s \<noteq> k) ?ss" by simp_all
qed

lemma remove_keys_done: "remove_keys lm ks f True = Inr (f', c) \<Longrightarrow> f' = f \<and> c"
  by (induction ks) auto

lemma remove_keys_law:
  assumes "remove_keys lm ks f False = Inr (f', c)" and "signers_fit f" and "distinct (map signer_key (acc_signers (af_account f)))"
    and "set ks \<subseteq> {k}"
  shows "same_entries f f' \<and> signers_fit f' \<and> (\<not> c \<longrightarrow> acc_signers (af_account f') = acc_signers (af_account f))
    \<and> (ks \<noteq> [] \<longrightarrow> k \<notin> signer_key ` set (acc_signers (af_account f')))"
  using assms
proof (induction ks arbitrary: f)
  case Nil
  then show ?case by (simp add: same_entries_def)
next
  case (Cons k' ks)
  then have k: "k' = k" by simp
  obtain f1 c1 where rm: "removeAccountSigner lm k f = Inr (f1, c1)" and rest: "remove_keys lm ks f1 c1 = Inr (f', c)"
    using Cons.prems(1) by (auto simp: k result_simps)
  note r = removeAccountSigner_law [OF rm Cons.prems(2,3)]
  have gone: "k \<notin> signer_key ` set (acc_signers (af_account f1))" unfolding r(4) by auto
  show ?case
  proof (cases c1)
    case True
    then have "f' = f1" "c" using remove_keys_done [of lm ks f1 f' c] rest by simp_all
    then show ?thesis using r(1,2) gone by simp
  next
    case False
    have same: "acc_signers (af_account f1) = acc_signers (af_account f)"
      using False r(3,4) by (auto simp: filter_id_conv)
    have "same_entries f1 f' \<and> signers_fit f' \<and> (\<not> c \<longrightarrow> acc_signers (af_account f') = acc_signers (af_account f1))
      \<and> (ks \<noteq> [] \<longrightarrow> k \<notin> signer_key ` set (acc_signers (af_account f')))"
      by (rule Cons.IH) (use rest False r(2) same Cons.prems(3,4) in simp_all)
    moreover have "f' = f1" if "ks = []" using rest that by simp
    ultimately show ?thesis using r(1) same gone by (cases "ks = []") (auto simp: same_entries_def)
  qed
qed

lemma signers_distinct:
  assumes "sess_ok tr base s" and "account_at (view s) i = Some a"
  shows "distinct (map signer_key (acc_signers a))"
proof -
  have dok: "db_ok (snd s)" using assms(1) by (simp add: sess_ok_def)
  obtain r where r: "map_of (db_accounts (snd s)) i = Some r" "a = (snd r)\<lparr>acc_signers := sort_key signer_key (acc_signers (snd r))\<rparr>"
    using assms(2) view_account_row(1) [OF assms(1), of i] by auto
  have "distinct (map signer_key (acc_signers (snd r)))" using db_okD(2) [OF dok r(1)] by simp
  then show ?thesis by (simp add: r(2) distinct_map)
qed

text \<open>The account no longer has the key, if there is one; nothing else about the ledger has changed that
  counts.\<close>

definition lacks_key :: "SignerKey \<Rightarrow> AccountID \<Rightarrow> ledger \<Rightarrow> bool" where
  "lacks_key k i L \<longleftrightarrow> (\<forall>a. account_at L i = Some a \<longrightarrow> k \<notin> signer_key ` set (acc_signers a))"

lemma removeUsedKeys_law:
  assumes rm: "removeUsedKeys lm i ks s = Inr s'" and sok: "sess_ok tr base s" and cnt: "counted (view s)" and ks: "set ks \<subseteq> {k}"
  shows "kept tr base s s'" and "ks \<noteq> [] \<Longrightarrow> lacks_key k i (view s')" and "lacks_key k j (view s) \<Longrightarrow> lacks_key k j (view s')"
proof -
  obtain f db where ld: "loadAccount_db i (snd s) = Inr (f, db)" using rm by (auto simp: removeUsedKeys_def result_simps)
  have l: "sess_ok tr base (fst s, db)" "view (fst s, db) = view s" "hdr (fst s, db) = hdr s"
    "map_option account_entry f = view s (AccountKey i)"
    using loadAccount_db_law [OF ld] sok by (auto simp: sess_ok_def view_def hdr_def)
  have k0: "kept tr base s (fst s, db)" by (rule kept_same [OF l(1) cnt l(2,3)])
  have "kept tr base s s' \<and> (ks \<noteq> [] \<longrightarrow> lacks_key k i (view s')) \<and> (lacks_key k j (view s) \<longrightarrow> lacks_key k j (view s'))"
  proof (cases f)
    case None
    then have "s' = (fst s, db)" using rm ld by (simp add: removeUsedKeys_def)
    moreover have "account_at (view s) i = None" using l(4) None by (simp add: account_at_def flip: l(4))
    ultimately show ?thesis using k0 l(2) by (simp add: lacks_key_def)
  next
    case (Some g)
    note c = loaded_current [OF sok l(4) Some]
    have at: "account_at (view s) i = Some (af_account g)" using c by (simp add: current_def)
    note fit = counted_current_fit [OF cnt c(1)] and dist = signers_distinct [OF sok at]
    obtain g' ch where rk: "remove_keys lm ks g False = Inr (g', ch)"
      using rm ld Some by (auto simp: removeUsedKeys_def result_simps)
    note r = remove_keys_law [OF rk fit dist ks]
    show ?thesis
    proof (cases ch)
      case False
      then have "s' = (fst s, db)" using rm ld Some rk by (simp add: removeUsedKeys_def)
      then show ?thesis using k0 l(2) r False at by (auto simp: lacks_key_def)
    next
      case True
      then obtain g2 where st: "account_storeChange (setUpdateSigners g') (fst s, db) = Inr (g2, s')"
        using rm ld Some rk by (auto simp: removeUsedKeys_def result_simps)
      have sg: "set (acc_signers (af_account (setUpdateSigners g'))) = set (acc_signers (af_account g'))"
        by (simp add: setUpdateSigners_def account_normalize_def)
      have e: "same_entries g (setUpdateSigners g')" using r by simp
      have e2: "signers_fit (setUpdateSigners g')"
        using r by (simp add: signers_fit_def setUpdateSigners_def account_normalize_def)
      have id: "acc_accountID (af_account (setUpdateSigners g')) = i" using e c(2) by (simp add: same_entries_def)
      have a: "account_at (view (fst s, db)) (acc_accountID (af_account (setUpdateSigners g'))) = Some (af_account g)"
        using at l(2) id by simp
      note ch = account_change_totals [OF st l(1) e2 a disjI1 [OF setUpdateSigners_simps(2)]]
      have "surplus (view s') x = surplus (view s) x" for x
        unfolding ch(7) l(2) using e by (simp add: same_entries_def)
      then have kp: "kept tr base s s'"
        by (intro keptI [OF ch(1) cnt]) (use ch(3,6) e l(2,3) in \<open>simp_all add: same_entries_def fun_eq_iff\<close>)
      have at': "account_at (view s') x = (if x = i then Some (af_account (setUpdateSigners g')) else account_at (view s) x)" for x
        unfolding ch(2) id using ch(4) l(2) by simp
      have "k \<notin> signer_key ` set (acc_signers (af_account g'))"
      proof (cases "ks = []")
        case True
        then show ?thesis using rk \<open>ch\<close> by simp
      qed (use r in simp)
      then show ?thesis using kp at' sg by (simp add: lacks_key_def)
    qed
  qed
  then show "kept tr base s s'" "ks \<noteq> [] \<Longrightarrow> lacks_key k i (view s')" "lacks_key k j (view s) \<Longrightarrow> lacks_key k j (view s')" by simp_all
qed

lemma removeUsedOneTime_law:
  assumes "removeUsedOneTimeSignerKeys lm us s = Inr s'" and "sess_ok tr base s" and "counted (view s)"
    and "\<forall>(i, ks) \<in> set us. set ks \<subseteq> {k}"
  shows "kept tr base s s'" and "(i, ks) \<in> set us \<Longrightarrow> ks \<noteq> [] \<Longrightarrow> lacks_key k i (view s')"
    and "lacks_key k j (view s) \<Longrightarrow> lacks_key k j (view s')"
proof -
  have "kept tr base s s' \<and> ((i, ks) \<in> set us \<longrightarrow> ks \<noteq> [] \<longrightarrow> lacks_key k i (view s'))
    \<and> (\<forall>j. lacks_key k j (view s) \<longrightarrow> lacks_key k j (view s'))"
    using assms
  proof (induction us arbitrary: s)
    case Nil
    then show ?case by (simp add: kept_same)
  next
    case (Cons u us)
    obtain s1 where rm: "removeUsedKeys lm (fst u) (snd u) s = Inr s1" and rest: "removeUsedOneTimeSignerKeys lm us s1 = Inr s'"
      using Cons.prems(1) by (auto simp: result_simps)
    have ks: "set (snd u) \<subseteq> {k}" using Cons.prems(4) by (cases u) simp
    note r = removeUsedKeys_law [OF rm Cons.prems(2,3) ks]
    have "sess_ok tr base s1" "counted (view s1)" using r(1) by (simp_all add: kept_def)
    note ih = Cons.IH [OF rest this]
    have "\<forall>(i, ks) \<in> set us. set ks \<subseteq> {k}" using Cons.prems(4) by simp
    from ih [OF this] r kept_trans [OF r(1)] show ?case by auto
  qed
  then show "kept tr base s s'" "(i, ks) \<in> set us \<Longrightarrow> ks \<noteq> [] \<Longrightarrow> lacks_key k i (view s')"
    "lacks_key k j (view s) \<Longrightarrow> lacks_key k j (view s')" by simp_all
qed

section \<open>A transaction as a whole\<close>

lemma commonValid_fails:
  assumes "commonValid cr lm txf cur sc st = Inr (Some code, sc', st')"
  shows "\<not> tx_succeeded code"
proof (cases "tx_operations (txf_tx txf) = [] \<or> check_timeBounds lm (txf_tx txf) \<noteq> None
    \<or> uint (tx_fee (txf_tx txf)) < getMinFee lm (txf_tx txf)")
  case True
  have "\<not> tx_succeeded c" if "check_timeBounds lm (txf_tx txf) = Some c" for c
    using that by (auto simp: check_timeBounds_def Let_def split: option.splits if_splits)
  with True show ?thesis using assms by (auto simp: commonValid_def Let_def split: if_splits option.splits)
next
  case fine: False
  then obtain g st1 where ld: "tx_loadAccount (tx_sourceAccount (txf_tx txf)) st = Inr (g, st1)"
    using assms(1) by (auto simp: commonValid_def Let_def result_simps)
  show ?thesis
  proof (cases g)
    case None
    then show ?thesis using assms(1) fine ld by (auto simp: commonValid_def Let_def)
  next
    case (Some h)
    obtain ok sc2 where c: "tx_checkSignature cr h (getLowThreshold h) sc = (ok, sc2)" by fastforce
    then show ?thesis using assms(1) fine ld Some by (auto simp: commonValid_def Let_def split: if_splits)
  qed
qed

lemma commonValid_passes:
  assumes cv: "commonValid cr lm txf cur sc st = Inr (None, sc', st')"
  shows "\<exists>f st1. tx_loadAccount (tx_sourceAccount (txf_tx txf)) st = Inr (Some f, st1)
    \<and> tx_checkSignature cr f (getLowThreshold f) sc = (True, sc')
    \<and> (fst st = None \<longrightarrow> (if cur = 0 then acc_seqNum (af_account f) else cur) + 1 = tx_seqNum (txf_tx txf))"
proof -
  have fine: "tx_operations (txf_tx txf) \<noteq> []" "check_timeBounds lm (txf_tx txf) = None"
    "\<not> uint (tx_fee (txf_tx txf)) < getMinFee lm (txf_tx txf)"
    using cv by (auto simp: commonValid_def Let_def split: if_splits option.splits)
  obtain g st1 where ld: "tx_loadAccount (tx_sourceAccount (txf_tx txf)) st = Inr (g, st1)"
    using cv fine by (auto simp: commonValid_def Let_def result_simps)
  obtain f where f: "g = Some f" using cv fine ld by (cases g) (simp_all add: commonValid_def Let_def)
  obtain ok sc2 where "tx_checkSignature cr f (getLowThreshold f) sc = (ok, sc2)" by fastforce
  then show ?thesis using cv fine ld f by (auto simp: commonValid_def Let_def split: if_splits)
qed

lemma checkValid_one_time:
  assumes "op_checkValid cr lm tx op sc st = Inr (x, sc', st')" and "one_time_ok sc"
  shows "one_time_ok sc' \<and> sc_contentsHash sc' = sc_contentsHash sc"
proof -
  obtain f st1 where ld: "tx_loadAccount (getSourceID tx op) st = Inr (f, st1)"
    using assms(1) by (auto simp: op_checkValid_def Let_def result_simps)
  let ?f = "case f of Some f \<Rightarrow> f | None \<Rightarrow> makeAuthOnlyAccount (the (op_sourceAccount op))"
  obtain ok sc1 where c: "tx_checkSignature cr ?f (getNeededThreshold ?f (getThresholdLevel (op_body op))) sc = (ok, sc1)" by fastforce
  have "sc' = sc \<or> sc' = sc1"
    using assms(1) ld c by (auto simp: op_checkValid_def Let_def result_simps split: if_splits option.splits)
  then show ?thesis
    using checkSignature_one_time [OF _ assms(2)] c assms(2) by (auto simp: tx_checkSignature_def Let_def)
qed

lemma op_apply_checks:
  assumes "op_apply cr lm tx op sc s = Inr ((ok, r), sc', s')"
  shows "\<exists>x st. op_checkValid cr lm tx op sc (Some (fst s), snd s) = Inr (x, sc', st)"
proof -
  obtain x sc2 st where ch: "op_checkValid cr lm tx op sc (Some (fst s), snd s) = Inr (x, sc2, st)"
    using assms by (auto simp: op_apply_def result_simps)
  then have "sc2 = sc'" using assms by (cases x; cases st) (auto simp: op_apply_def result_simps)
  then show ?thesis using ch by blast
qed

lemma apply_ops_one_time:
  assumes "apply_ops cr lm txf ops sc s = Inr ((err, rs, ms), sc', s')" and "one_time_ok sc"
  shows "one_time_ok sc' \<and> sc_contentsHash sc' = sc_contentsHash sc"
  using assms
proof (induction ops arbitrary: sc s err rs ms)
  case (Cons op ops)
  obtain ok r sc1 t db d err1 rs1 ms1 where op: "op_apply cr lm txf op sc (LedgerDelta_nested (fst s), snd s) = Inr ((ok, r), sc1, t, db)"
    and rec: "apply_ops cr lm txf ops sc1 (d, db) = Inr ((err1, rs1, ms1), sc', s')"
    using Cons.prems(1) by (simp add: result_simps split_beta prod_eq_iff) metis
  from op_apply_checks [OF op] have "one_time_ok sc1 \<and> sc_contentsHash sc1 = sc_contentsHash sc"
    using checkValid_one_time [OF _ Cons.prems(2)] by auto
  with Cons.IH [OF rec] show ?case by simp
qed simp

lemma commonValid_one_time:
  assumes "commonValid cr lm txf cur sc st = Inr (code, sc', st')" and "one_time_ok sc"
  shows "one_time_ok sc' \<and> sc_contentsHash sc' = sc_contentsHash sc"
proof (cases "sc' = sc")
  case False
  obtain f ok where "tx_checkSignature cr f (getLowThreshold f) sc = (ok, sc')"
  proof (cases "tx_operations (txf_tx txf) = [] \<or> check_timeBounds lm (txf_tx txf) \<noteq> None
      \<or> uint (tx_fee (txf_tx txf)) < getMinFee lm (txf_tx txf)")
    case True
    then show ?thesis using assms(1) False by (auto simp: commonValid_def Let_def split: if_splits option.splits)
  next
    case fine: False
    then obtain g st1 where ld: "tx_loadAccount (tx_sourceAccount (txf_tx txf)) st = Inr (g, st1)"
      using assms(1) by (auto simp: commonValid_def Let_def result_simps)
    show ?thesis
    proof (cases g)
      case None
      then show ?thesis using assms(1) fine ld False by (simp add: commonValid_def Let_def)
    next
      case (Some h)
      obtain ok sc2 where c: "tx_checkSignature cr h (getLowThreshold h) sc = (ok, sc2)" by fastforce
      then have "sc' = sc2" using assms(1) fine ld Some False by (auto simp: commonValid_def Let_def split: if_splits)
      with c show ?thesis by (intro that) simp
    qed
  qed
  then show ?thesis using checkSignature_one_time [OF _ assms(2)] by (simp add: tx_checkSignature_def Let_def)
qed (use assms(2) in simp)

definition tx_done :: "ledger \<Rightarrow> session \<Rightarrow> TransactionResultCode \<Rightarrow> session \<Rightarrow> bool" where
  "tx_done base s code s' \<longleftrightarrow>
     sess_ok True base s' \<and> counted (view s') \<and> lumens s' = lumens s
     \<and> (\<not> tx_succeeded code \<longrightarrow> view s' = view s \<and> hdr s' = hdr s \<and> touched (fst s') = touched (fst s))"

lemma rolled_back:
  assumes sok: "sess_ok True base (d, saved)" and inner: "sess_ok tr (db_ledger saved) (t, db)"
    and rb: "rollback_scope t saved db = Inr db'"
  shows "sess_ok True base (d, db')" and "db_ledger db' = db_ledger saved"
proof -
  have "db_ok saved" using sok by (simp add: sess_ok_def)
  from rollback_scope_law [OF inner this] rb obtain c where "db_ok db'" "cache_ok db'" "db' = saved\<lparr>db_cache := c\<rparr>" by auto
  then show "sess_ok True base (d, db')" "db_ledger db' = db_ledger saved" using sok by (simp_all add: sess_ok_def)
qed

lemma tx_apply_law:
  assumes app: "tx_apply cr lm txf s = Inr ((code, ms), s')" and sok: "sess_ok True base s" and cnt: "counted (view s)"
    and ver: "ledgerVersion lm \<ge> 8"
  shows "tx_done base s code s'"
proof -
  let ?sc = "SignatureChecker_new (ledgerVersion lm) (txf_contentsHash txf) (txf_signatures txf)"
  obtain r sc st where cv: "commonValid cr lm txf 0 ?sc (Some (fst s), snd s) = Inr (r, sc, st)"
    using app by (auto simp: tx_apply_def Let_def result_simps)
  have "sess_ok True base (fst s, snd s)" using sok by simp
  from commonValid_law [OF cv this] obtain d db where st: "st = (Some d, db)" and s1: "sess_ok True base (d, db)"
    "db_ledger db = view s" "mCurrentHeader d = hdr s" "touched d = touched (fst s)" by (auto simp: view_def hdr_def)
  have same: "view (d, x) = db_ledger x" "hdr (d, x) = hdr s" "lumens (d, x) = native (db_ledger x) + feePool (hdr s) - totalCoins (hdr s)" for x
    using s1(3) by (simp_all add: view_def hdr_def lumens_def)
  have still: "tx_done base s c (d, x)" if "\<not> tx_succeeded c" "sess_ok True base (d, x)" "db_ledger x = view s" for c x
    using that same [of x] s1(4) cnt by (simp add: tx_done_def lumens_def)
  show ?thesis
  proof (cases r)
    case (Some c)
    then have "s' = (d, db)" "code = c" using app cv st by (simp_all add: tx_apply_def Let_def)
    moreover have "\<not> tx_succeeded c" using commonValid_fails cv Some by blast
    ultimately show ?thesis using still s1(1,2) by simp
  next
    case None
    obtain err rs ms1 sc1 t db1 where ops: "apply_ops cr lm txf (tx_operations (txf_tx txf)) sc (LedgerDelta_nested d, db)
        = Inr ((err, rs, ms1), sc1, t, db1)"
      using app cv st None by (auto simp: tx_apply_def Let_def result_simps)
    have cnt1: "counted (view (LedgerDelta_nested d, db))" using cnt s1(2) by (simp add: view_def)
    note o = apply_ops_law [OF ops nested_law(1) [OF s1(1)] cnt1 ver]
    then have inner: "sess_ok (\<not> err) (db_ledger db) (t, db1)" "counted (view (t, db1))" by (simp_all add: op_done_def)
    have un: "sess_ok True base (d, x)" "db_ledger x = view s" if "rollback_scope t db db1 = Inr x" for x
      using rolled_back [OF s1(1) inner(1) that] s1(2) by simp_all
    show ?thesis
    proof (cases "err \<or> \<not> checkAllSignaturesUsed sc1")
      case True
      then obtain x where x: "rollback_scope t db db1 = Inr x" "s' = (d, x)" "code = txFAILED rs \<or> code = txBAD_AUTH_EXTRA"
        using app cv st None ops by (auto simp: tx_apply_def Let_def result_simps split: if_splits)
      show ?thesis unfolding x(2) by (rule still) (use x un in auto)
    next
      case False
      then obtain t2 db2 t3 d2 where rm: "removeUsedOneTimeSignerKeys lm (sc_usedOneTimeSignerKeys sc1) (t, db1) = Inr (t2, db2)"
        and com: "commit_nested t2 d = Inr (t3, d2)" and e: "code = txSUCCESS rs" "s' = (d2, db2)"
        using app cv st None ops by (auto simp: tx_apply_def Let_def result_simps)
      have "one_time_ok ?sc" by (simp add: one_time_ok_def SignatureChecker_new_def)
      from commonValid_one_time [OF cv this] have "one_time_ok sc" by simp
      from apply_ops_one_time [OF ops this]
      have ot: "\<forall>(i, ks) \<in> set (sc_usedOneTimeSignerKeys sc1). set ks \<subseteq> {SIGNER_KEY_TYPE_PRE_AUTH_TX (sc_contentsHash sc1)}"
        unfolding one_time_ok_def by (rule conjunct1)
      have tr1: "sess_ok True (db_ledger db) (t, db1)" using inner(1) False by simp
      note k = removeUsedOneTime_law(1) [OF rm tr1 inner(2) ot]
      have "op_done True (db_ledger db) (LedgerDelta_nested d, db) True (t2, db2)"
        using k o False by (simp add: op_done_def kept_def)
      from commit_done [OF s1(1) this com]
      show ?thesis using same [of db] s1(2) by (simp add: tx_done_def op_done_def e lumens_def [of s])
    qed
  qed
qed

section \<open>Fees\<close>

text \<open>Balances are 64-bit integers.\<close>

definition balances_fit :: "ledger \<Rightarrow> bool" where
  "balances_fit L \<longleftrightarrow> (\<forall>i a. account_at L i = Some a \<longrightarrow> acc_balance a \<le> INT64_MAX)"

definition fee_taken :: "bool \<Rightarrow> ledger \<Rightarrow> TransactionFrame \<Rightarrow> session \<Rightarrow> int \<Rightarrow> session \<Rightarrow> bool" where
  "fee_taken tr base txf s fee s' \<longleftrightarrow>
     kept tr base s s' \<and> balances_fit (view s')
     \<and> 0 \<le> fee \<and> fee \<le> uint (tx_fee (txf_tx txf))
     \<and> feePool (hdr s') = feePool (hdr s) + fee \<and> native (view s') = native (view s) - fee
     \<and> (\<exists>a. account_at (view s) (tx_sourceAccount (txf_tx txf)) = Some a
          \<and> fee = (if 0 < uint (tx_fee (txf_tx txf)) then min (acc_balance a) (uint (tx_fee (txf_tx txf))) else 0)
          \<and> account_at (view s') = (account_at (view s))
               (tx_sourceAccount (txf_tx txf) \<mapsto> a\<lparr>acc_balance := acc_balance a - fee, acc_seqNum := tx_seqNum (txf_tx txf)\<rparr>))"

lemma processFeeSeqNum_law:
  assumes pf: "processFeeSeqNum txf s = Inr (fee, s')" and sok: "sess_ok tr base s" and cnt: "counted (view s)"
    and fits: "balances_fit (view s)"
  shows "fee_taken tr base txf s fee s'"
proof -
  let ?tx = "txf_tx txf" and ?i = "tx_sourceAccount (txf_tx txf)"
  obtain f s1 where ld: "loadAccount ?i s = Inr (Some f, s1)"
    using pf by (auto simp: processFeeSeqNum_def Let_def result_simps split: option.splits)
  note l = loadAccount_law [OF ld sok]
  note c = loaded_current [OF sok l(4) refl]
  have at: "account_at (view s) ?i = Some (af_account f)" using c by (simp add: current_def)
  let ?b = "acc_balance (af_account f)"
  have "?b \<le> INT64_MAX" using fits at by (simp add: balances_fit_def)
  obtain f1 s2 where ch: "(if uint (tx_fee ?tx) > 0
        then bindE (account_addBalance (- min ?b (uint (tx_fee ?tx))) f) (\<lambda>(f, _).
          Inr (min ?b (uint (tx_fee ?tx)), f, upd_header (\<lambda>h. h\<lparr>feePool := feePool h + min ?b (uint (tx_fee ?tx))\<rparr>) s1))
        else Inr (uint (tx_fee ?tx), f, s1)) = Inr (fee, f1, s2)"
    and st: "\<exists>f2. account_storeChange (f1\<lparr>af_account := (af_account f1)\<lparr>acc_seqNum := tx_seqNum ?tx\<rparr>\<rparr>) s2 = Inr (f2, s')"
    using pf ld by (auto simp: processFeeSeqNum_def Let_def result_simps split: if_splits)
  have "f1 = set_balance (?b - fee) f \<and> 0 \<le> fee \<and> fee \<le> uint (tx_fee ?tx)
    \<and> s2 = upd_header (\<lambda>h. h\<lparr>feePool := feePool h + fee\<rparr>) s1
    \<and> fee = (if 0 < uint (tx_fee ?tx) then min ?b (uint (tx_fee ?tx)) else 0)"
  proof (cases "uint (tx_fee ?tx) > 0")
    case True
    then show ?thesis using ch \<open>?b \<le> INT64_MAX\<close>
      by (auto simp: account_addBalance_def addBalance_def result_simps set_balance_def INT64_MAX_def split: if_splits)
  next
    case False
    then have "uint (tx_fee ?tx) = 0" using uint_ge_0 [of "tx_fee ?tx"] by linarith
    then show ?thesis using ch by (auto simp: set_balance_def upd_header_def)
  qed
  then have f1: "f1 = set_balance (?b - fee) f" "0 \<le> fee" "fee \<le> uint (tx_fee ?tx)"
    "s2 = upd_header (\<lambda>h. h\<lparr>feePool := feePool h + fee\<rparr>) s1"
    "fee = (if 0 < uint (tx_fee ?tx) then min ?b (uint (tx_fee ?tx)) else 0)" by blast+
  let ?f = "f1\<lparr>af_account := (af_account f1)\<lparr>acc_seqNum := tx_seqNum ?tx\<rparr>\<rparr>"
  obtain f2 where st': "account_storeChange ?f s2 = Inr (f2, s')" using st by blast
  have s2: "sess_ok tr base s2" "view s2 = view s" "hdr s2 = (hdr s)\<lparr>feePool := feePool (hdr s) + fee\<rparr>"
    using l(1-3) by (simp_all add: f1(4))
  have pre: "signers_fit ?f" "account_at (view s2) (acc_accountID (af_account ?f)) = Some (af_account f)"
    "mUpdateSigners ?f \<or> acc_signers (af_account f) = acc_signers (af_account ?f)"
    using counted_current_fit [OF cnt c(1)] at c(2) s2(2) by (simp_all add: f1(1) signers_fit_def)
  note a = account_change_totals [OF st' s2(1) pre]
  have id: "acc_accountID (af_account ?f) = ?i" using c(2) by (simp add: f1(1))
  have "surplus (view s') = surplus (view s)"
    by (rule ext) (use a(7) s2(2) in \<open>simp add: f1(1)\<close>)
  then have cnt': "counted (view s')" using cnt by (simp add: counted_def)
  have nat: "native (view s') = native (view s) - fee" using a(6) s2(2) by (simp add: f1(1))
  have at': "account_at (view s') j = (if j = ?i then Some (af_account ?f) else account_at (view s) j)" for j
    unfolding a(2) id using a(4) s2(2) by simp
  have "lumens s' = lumens s" using nat a(3) s2(3) by (simp add: lumens_def)
  moreover have "balances_fit (view s')"
    using fits f1(1,2) \<open>?b \<le> INT64_MAX\<close> unfolding balances_fit_def at' by auto
  moreover have "account_at (view s') = (account_at (view s))(?i \<mapsto> (af_account f)\<lparr>acc_balance := ?b - fee, acc_seqNum := tx_seqNum ?tx\<rparr>)"
    by (rule ext) (simp add: at' f1(1) set_balance_def)
  ultimately show ?thesis
    using a(1,3) cnt' nat f1(2,3,5) s2(3) at unfolding fee_taken_def kept_def by simp
qed

section \<open>The transactions of a ledger\<close>

lemma processFeesSeqNums_law:
  assumes "processFeesSeqNums txs s = Inr (fees, s')" and "sess_ok tr base s" and "counted (view s)" and "balances_fit (view s)"
  shows "kept tr base s s' \<and> balances_fit (view s') \<and> feePool (hdr s') = feePool (hdr s) + sum_list fees"
  using assms
proof (induction txs arbitrary: s fees)
  case Nil
  then show ?case by (simp add: kept_same)
next
  case (Cons tx txs)
  obtain d0 db0 where s: "s = (d0, db0)" by fastforce
  obtain fee t db t' d fees1 where pf: "processFeeSeqNum tx (LedgerDelta_nested d0, db0) = Inr (fee, t, db)"
    and com: "commit_nested t d0 = Inr (t', d)" and rec: "processFeesSeqNums txs (d, db) = Inr (fees1, s')" and fees: "fees = fee # fees1"
    using Cons.prems(1) by (auto simp: s result_simps)
  have sok: "sess_ok tr base (d0, db0)" using Cons.prems(2) by (simp add: s)
  have v: "view (LedgerDelta_nested d0, db0) = view s" by (simp add: nested_counted s)
  note ft = processFeeSeqNum_law [OF pf nested_law(1) [OF sok]]
  have ft: "fee_taken tr (db_ledger db0) tx (LedgerDelta_nested d0, db0) fee (t, db)"
    by (rule ft) (use Cons.prems(3,4) v in simp_all)
  then have "op_done tr (db_ledger db0) (LedgerDelta_nested d0, db0) True (t, db)"
    by (simp add: fee_taken_def kept_def op_done_def)
  note st = commit_done [OF sok this com]
  have "tracks tr base d0 (db_ledger db0)" "sess_ok tr (db_ledger db0) (t, db)"
    using sok ft by (simp_all add: sess_ok_tracks view_def fee_taken_def kept_def)
  note h = commit_law(2) [OF this com]
  have fp: "feePool (hdr (d, db)) = feePool (hdr s) + fee" "balances_fit (view (d, db))"
    using ft h nested_law(2) [OF sok] by (simp_all add: fee_taken_def s view_def)
  have "kept tr base (d, db) s' \<and> balances_fit (view s') \<and> feePool (hdr s') = feePool (hdr (d, db)) + sum_list fees1"
    by (rule Cons.IH [OF rec]) (use st fp(2) in \<open>simp_all add: op_done_def\<close>)
  then show ?case using st fp(1) by (simp add: fees kept_def op_done_def s)
qed

lemma touched_changes: "touched d = {} \<Longrightarrow> getChanges d = []"
  by (cases "mNew d"; cases "mMod d"; cases "mDelete d") (auto simp: touched_def getChanges_def split: if_splits)

lemma commit_succeeds:
  assumes outer: "sess_ok True base (d, db0)" and inner: "sess_ok True (db_ledger db0) (t, db)"
    and h: "mPreviousHeaderValue t = mCurrentHeader d"
  obtains t' d' where "commit_nested t d = Inr (t', d')"
proof -
  have "db_ledger db0 = delta_apply d base" using outer by (auto simp: sess_ok_def)
  then have "delta_ok base d" "mActive d" "delta_ok (delta_apply d base) t" "mActive t"
    using outer inner by (auto simp: sess_ok_def)
  with mergeEntries_step [of base d t] h show thesis by (auto simp: commit_nested_def delta_checkState_def intro: that)
qed

text \<open>Nothing in \<open>apply\<close> touches the header its delta started from, so that its commit does not raise.\<close>

lemmas edits_keep = delta_edit_header [of "Added _", simplified] delta_edit_header [of "Changed _", simplified]
  delta_edit_header [of "Removed _", simplified] delta_edit_header [of "Recorded _", simplified]

lemma mergeEntries_keeps:
  assumes "mergeEntries t d = Inr d'"
  shows "mPreviousHeaderValue d' = mPreviousHeaderValue d"
proof -
  have rec: "record_previous t k d = Inr d' \<Longrightarrow> mPreviousHeaderValue d' = mPreviousHeaderValue d" for k d d'
    by (auto simp: record_previous_def split: option.splits dest: edits_keep)
  have "merge_deletes t ks d = Inr d' \<Longrightarrow> mPreviousHeaderValue d' = mPreviousHeaderValue d" for ks d d'
    by (induction ks arbitrary: d) (auto simp: result_simps dest!: rec edits_keep)
  moreover have "merge_news es d = Inr d' \<Longrightarrow> mPreviousHeaderValue d' = mPreviousHeaderValue d" for es d d'
    by (induction es arbitrary: d) (auto simp: result_simps dest!: edits_keep)
  moreover have "merge_mods t es d = Inr d' \<Longrightarrow> mPreviousHeaderValue d' = mPreviousHeaderValue d" for es d d'
    by (induction es arbitrary: d) (auto simp: result_simps dest!: rec edits_keep)
  ultimately show ?thesis using assms by (fastforce simp: mergeEntries_def delta_checkState_def result_simps split: if_splits)
qed

lemma loadAccount_keeps: "loadAccount i (d, db) = Inr (f, d', db') \<Longrightarrow> mPreviousHeaderValue d' = mPreviousHeaderValue d"
  by (auto simp: loadAccount_def result_simps split: option.splits dest: edits_keep)

lemma commonValid_keeps:
  assumes "commonValid cr lm tx cur sc (Some d, db) = Inr (r, sc', Some d', db')"
  shows "mPreviousHeaderValue d' = mPreviousHeaderValue d"
  using assms
proof (cases rule: commonValid_state)
  case (2 f)
  then show ?thesis by (auto simp: tx_loadAccount_def result_simps dest: loadAccount_keeps)
qed simp

lemma commit_keeps: "commit_nested t d = Inr (t', d') \<Longrightarrow> mPreviousHeaderValue d' = mPreviousHeaderValue d"
  by (auto simp: commit_nested_def delta_checkState_def result_simps split: if_splits dest: mergeEntries_keeps)

lemma tx_apply_keeps:
  assumes app: "tx_apply cr lm tx (d, db) = Inr ((code, ms), d', db')"
  shows "mPreviousHeaderValue d' = mPreviousHeaderValue d"
proof -
  obtain r sc d1 db1 where cv: "commonValid cr lm tx 0 (SignatureChecker_new (ledgerVersion lm) (txf_contentsHash tx) (txf_signatures tx))
      (Some d, db) = Inr (r, sc, Some d1, db1)"
    using app by (auto simp: tx_apply_def Let_def result_simps)
  have "d' = d1 \<or> (\<exists>t t'. commit_nested t d1 = Inr (t', d'))"
    using app cv by (auto simp: tx_apply_def Let_def result_simps split: option.splits if_splits)
  then show ?thesis using commonValid_keeps [OF cv] commit_keeps by auto
qed

lemma applyTransaction_law:
  assumes sok: "sess_ok True base s" and cnt: "counted (view s)" and ver: "ledgerVersion lm \<ge> 8"
  shows "case applyTransaction cr lm items tx s of Inl e \<Rightarrow> \<forall>m. e \<noteq> RuntimeError m | Inr (code, s') \<Rightarrow> kept True base s s'"
proof -
  obtain d0 db0 where s: "s = (d0, db0)" by fastforce
  have sok: "sess_ok True base (d0, db0)" using sok by (simp add: s)
  have v: "view (LedgerDelta_nested d0, db0) = view s" by (simp add: nested_counted s)
  let ?r = "tx_apply cr lm tx (LedgerDelta_nested d0, db0)"
  show ?thesis
  proof (cases ?r)
    case (Inl e)
    have "cache_ok (unwound (items tx s) db0)" by (auto simp: unwound_def cache_ok_cache)
    then have "kept True base s (d0, unwound (items tx s) db0)"
      using sok cnt by (intro kept_same) (auto simp: s unwound_def sess_ok_def view_def hdr_def)
    then show ?thesis using Inl by (cases e) (simp_all add: applyTransaction_def s)
  next
    case (Inr x)
    then obtain c ms t db where ap: "?r = Inr ((c, ms), t, db)" by (cases x) auto
    have dn: "tx_done (db_ledger db0) (LedgerDelta_nested d0, db0) c (t, db)"
      by (rule tx_apply_law [OF ap nested_law(1) [OF sok] _ ver]) (use cnt v in simp)
    show ?thesis
    proof (cases "tx_succeeded c")
      case True
      have "sess_ok True (db_ledger db0) (t, db)" using dn by (simp add: tx_done_def)
      moreover have "mPreviousHeaderValue t = mCurrentHeader d0"
        using tx_apply_keeps [OF ap] by (simp add: LedgerDelta_nested_def LedgerDelta_new_def)
      ultimately obtain t' d where com: "commit_nested t d0 = Inr (t', d)" using commit_succeeds [OF sok] by blast
      have "op_done True (db_ledger db0) (LedgerDelta_nested d0, db0) True (t, db)" using dn by (simp add: tx_done_def op_done_def)
      from commit_done [OF sok this com] show ?thesis
        using ap True com by (simp add: applyTransaction_def op_done_def kept_def s)
    next
      case False
      have e: "sess_ok True (db_ledger db0) (t, db)" "db_ledger db = db_ledger db0"
        using dn False by (simp_all add: tx_done_def view_def)
      then have dok: "sess_ok True base (d0, db)" "sess_ok True (db_ledger db) (t, db)" using sok by (simp_all add: sess_ok_def)
      then have "db_ok db" by (simp add: sess_ok_def)
      with rollback_scope_law [OF dok(2)] obtain y where rb: "rollback_scope t db db = Inr y" by blast
      note r = rolled_back [OF dok rb]
      have "kept True base s (d0, y)" by (rule kept_same) (use r e(2) cnt in \<open>simp_all add: s view_def hdr_def\<close>)
      then show ?thesis using ap False rb by (simp add: applyTransaction_def s dbgAssert_def)
    qed
  qed
qed

lemma applyTransactions_law:
  assumes "sess_ok True base s" and "counted (view s)" and "ledgerVersion lm \<ge> 8"
  shows "case applyTransactions cr lm items txs s of
    Inl e \<Rightarrow> \<forall>m. e \<noteq> RuntimeError m | Inr (codes, s') \<Rightarrow> length codes = length txs \<and> kept True base s s'"
  using assms
proof (induction txs arbitrary: s)
  case Nil
  then show ?case by (simp add: kept_same)
next
  case (Cons tx txs)
  note ap = applyTransaction_law [OF Cons.prems, of cr items tx]
  show ?case
  proof (cases "applyTransaction cr lm items tx s")
    case (Inr x)
    then obtain code s1 where x: "applyTransaction cr lm items tx s = Inr (code, s1)" by (cases x) simp
    then have k: "kept True base s s1" using ap by simp
    then have "sess_ok True base s1" "counted (view s1)" by (simp_all add: kept_def)
    from Cons.IH [OF this Cons.prems(3)] show ?thesis
      using x kept_trans [OF k] by (cases "applyTransactions cr lm items txs s1") (auto split: prod.splits)
  qed (use ap in simp)
qed

end
