(* ===== verification/Tx_Set.thy ===== *)
theory Tx_Set
  imports Transaction_Laws
begin

text \<open>
  Sets of transactions (\<open>herder/TxSetFrame.cpp\<close>): the set a node proposes for a ledger, and the order in
  which the transactions of a set are applied.

  The hash of a transaction with its signatures and the hash of the contents of a set, which the code
  computes from their XDR, are parameters. \<open>std::sort\<close> is a stable sort by the key that the comparison
  compares. A pointer to a transaction is the transaction; where a set holds two equal ones they are
  next to each other in the order of hashes, so it does not matter which of them is erased.
\<close>

section \<open>Sets of transactions\<close>

record TxHashing =
  fullHash :: "TransactionFrame \<Rightarrow> Hash"
  setHash :: "Hash \<Rightarrow> TransactionFrame list \<Rightarrow> Hash"

record TxSetFrame =
  ts_previousLedgerHash :: Hash
  ts_transactions :: "TransactionFrame list"
  ts_hashIsValid :: bool
  ts_hash :: Hash

abbreviation tx_source :: "TransactionFrame \<Rightarrow> AccountID" where
  "tx_source t \<equiv> tx_sourceAccount (txf_tx t)"

abbreviation tx_seq :: "TransactionFrame \<Rightarrow> uint64" where
  "tx_seq t \<equiv> tx_seqNum (txf_tx t)"

definition getFee :: "TransactionFrame \<Rightarrow> int" where
  "getFee t = uint (tx_fee (txf_tx t))"

definition txset_add :: "TransactionFrame \<Rightarrow> TxSetFrame \<Rightarrow> TxSetFrame" where
  "txset_add t ts = ts\<lparr>ts_transactions := ts_transactions ts @ [t], ts_hashIsValid := False\<rparr>"

definition sortForHash :: "TxHashing \<Rightarrow> TxSetFrame \<Rightarrow> TxSetFrame" where
  "sortForHash th ts = ts\<lparr>ts_transactions := sort_key (fullHash th) (ts_transactions ts), ts_hashIsValid := False\<rparr>"

definition removeTx :: "TransactionFrame \<Rightarrow> TxSetFrame \<Rightarrow> TxSetFrame" where
  "removeTx t ts = ts\<lparr>ts_transactions := remove1 t (ts_transactions ts), ts_hashIsValid := False\<rparr>"

definition getContentsHash :: "TxHashing \<Rightarrow> TxSetFrame \<Rightarrow> Hash \<times> TxSetFrame" where
  "getContentsHash th ts =
     (if ts_hashIsValid ts then (ts_hash ts, ts)
      else
        let ts = sortForHash th ts; h = setHash th (ts_previousLedgerHash ts) (ts_transactions ts)
        in (h, ts\<lparr>ts_hash := h, ts_hashIsValid := True\<rparr>))"

section \<open>The order of application\<close>

text \<open>The batch with number \<open>v\<close> gets a transaction; there are more batches if need be.\<close>

definition put_batch :: "nat \<Rightarrow> TransactionFrame \<Rightarrow> TransactionFrame list list \<Rightarrow> TransactionFrame list list" where
  "put_batch v t bs =
     (let bs = (if v \<ge> length bs then bs @ replicate (v + 4 - length bs) [] else bs)
      in bs[v := bs ! v @ [t]])"

fun build_batches ::
  "TransactionFrame list \<Rightarrow> (AccountID \<times> nat) list \<Rightarrow> TransactionFrame list list \<Rightarrow> TransactionFrame list list" where
  "build_batches [] m bs = bs"
| "build_batches (t # txs) m bs =
     (let v = (case map_of m (tx_source t) of Some n \<Rightarrow> n | None \<Rightarrow> 0)
      in build_batches txs (map_put (tx_source t) (v + 1) m) (put_batch v t bs))"

text \<open>\<open>ApplyTxSorter\<close> compares with \<^const>\<open>lessThanXored\<close>.\<close>

definition sort_batch :: "TxHashing \<Rightarrow> Hash \<Rightarrow> TransactionFrame list \<Rightarrow> TransactionFrame list" where
  "sort_batch th h = sort_key (\<lambda>t. map2 (XOR) h (fullHash th t))"

definition sortForApply :: "TxHashing \<Rightarrow> TxSetFrame \<Rightarrow> TransactionFrame list \<times> TxSetFrame" where
  "sortForApply th ts =
     (let batches = build_batches (sort_key tx_seq (ts_transactions ts)) [] (replicate 4 []);
          (h, ts) = getContentsHash th ts
      in (concat (map (sort_batch th h) batches), ts))"

section \<open>Surge pricing\<close>

text \<open>\<open>getFeeRatio\<close> is a quotient in double precision, as in \<^const>\<open>computePrice\<close>; a fee of zero gives the
  number zero, below all of these. A base fee of zero is not modelled.\<close>

definition ratio_zero :: "int \<times> int" where
  "ratio_zero = (- 2000, 0)"

definition getFeeRatio :: "LedgerHeader \<Rightarrow> TransactionFrame \<Rightarrow> int \<times> int" where
  "getFeeRatio lm t =
     (if getFee t = 0 then ratio_zero else computePrice \<lparr>price_n = getFee t, price_d = getMinFee lm (txf_tx t)\<rparr>)"

definition fee_of :: "(AccountID \<times> (int \<times> int)) list \<Rightarrow> AccountID \<Rightarrow> int \<times> int" where
  "fee_of m i = (case map_of m i of Some r \<Rightarrow> r | None \<Rightarrow> ratio_zero)"

fun fee_map :: "LedgerHeader \<Rightarrow> TransactionFrame list \<Rightarrow> (AccountID \<times> (int \<times> int)) list \<Rightarrow> (AccountID \<times> (int \<times> int)) list" where
  "fee_map lm [] m = m"
| "fee_map lm (t # txs) m =
     (let r = getFeeRatio lm t; now = fee_of m (tx_source t)
      in fee_map lm txs (if now = ratio_zero \<or> r < now then map_put (tx_source t) r m else m))"

text \<open>\<open>SurgeSorter\<close>: the accounts with the higher fees first, the transactions of an account by their
  sequence numbers.\<close>

definition surge_key :: "(AccountID \<times> (int \<times> int)) list \<Rightarrow> TransactionFrame \<Rightarrow> (int \<times> int) \<times> AccountID \<times> uint64" where
  "surge_key m t =
     (let r = fee_of m (tx_source t) in ((- fst r, - snd r), tx_source t, tx_seq t))"

definition surgePricingFilter :: "LedgerHeader \<Rightarrow> TxSetFrame \<Rightarrow> TxSetFrame" where
  "surgePricingFilter lm ts =
     (let n = unat (maxTxSetSize lm) in
      if length (ts_transactions ts) > n
      then
        let m = fee_map lm (ts_transactions ts) [];
            tempList = sort_key (surge_key m) (ts_transactions ts)
        in fold removeTx (drop n tempList) ts
      else ts)"

section \<open>Validity\<close>

text \<open>The transactions of each account, in the order of \<open>accountTxMap\<close>, by sequence number.\<close>

definition accountTxMap :: "TransactionFrame list \<Rightarrow> TransactionFrame list list" where
  "accountTxMap txs =
     map (\<lambda>i. sort_key tx_seq (filter (\<lambda>t. tx_source t = i) txs)) (sort (remdups (map tx_source txs)))"

text \<open>The source account as \<open>checkValid\<close> of a transaction loads it.\<close>

definition getSourceAccount :: "TransactionFrame \<Rightarrow> Database \<Rightarrow> AccountFrame option" where
  "getSourceAccount t db = (case loadAccount_db (tx_source t) db of Inr (f, _) \<Rightarrow> f | Inl _ \<Rightarrow> None)"

text \<open>Whether the account of the last transaction, if there is one, can pay the fees.\<close>

definition can_pay :: "LedgerHeader \<Rightarrow> AccountFrame option \<Rightarrow> int \<Rightarrow> bool" where
  "can_pay lm lastAcc totFee =
     (case lastAcc of None \<Rightarrow> True | Some f \<Rightarrow> acc_balance (af_account f) - totFee \<ge> getMinimumBalance lm f)"

text \<open>The loop of \<open>trimInvalid\<close> over the transactions of an account.\<close>

fun trim_txs ::
  "Crypto \<Rightarrow> LedgerHeader \<Rightarrow> TransactionFrame list \<Rightarrow> uint64 \<Rightarrow> int \<Rightarrow> AccountFrame option \<Rightarrow> TxSetFrame \<Rightarrow>
    TransactionFrame list \<Rightarrow> Database \<Rightarrow> ((int \<times> AccountFrame option) \<times> TxSetFrame \<times> TransactionFrame list \<times> Database) result" where
  "trim_txs cr lm [] lastSeq totFee lastAcc ts trimmed db = Inr ((totFee, lastAcc), ts, trimmed, db)"
| "trim_txs cr lm (t # txs) lastSeq totFee lastAcc ts trimmed db =
     bindE (tx_checkValid cr lm t lastSeq db) (\<lambda>(code, db').
     if code \<noteq> None then trim_txs cr lm txs lastSeq totFee lastAcc (removeTx t ts) (trimmed @ [t]) db'
     else
       deref (getSourceAccount t db) (\<lambda>f.
       trim_txs cr lm txs (tx_seq t) (totFee + getFee t) (Some f) ts trimmed db'))"

fun trim_accounts ::
  "Crypto \<Rightarrow> LedgerHeader \<Rightarrow> TransactionFrame list list \<Rightarrow> TxSetFrame \<Rightarrow> TransactionFrame list \<Rightarrow> Database \<Rightarrow>
    (TxSetFrame \<times> TransactionFrame list \<times> Database) result" where
  "trim_accounts cr lm [] ts trimmed db = Inr (ts, trimmed, db)"
| "trim_accounts cr lm (txs # items) ts trimmed db =
     bindE (trim_txs cr lm txs 0 0 None ts trimmed db) (\<lambda>((totFee, lastAcc), ts, trimmed, db).
     if can_pay lm lastAcc totFee then trim_accounts cr lm items ts trimmed db
     else trim_accounts cr lm items (fold removeTx txs ts) (trimmed @ txs) db)"

definition trimInvalid ::
  "Crypto \<Rightarrow> TxHashing \<Rightarrow> LedgerHeader \<Rightarrow> TxSetFrame \<Rightarrow> TransactionFrame list \<Rightarrow> Database \<Rightarrow>
    (TxSetFrame \<times> TransactionFrame list \<times> Database) result" where
  "trimInvalid cr th lm ts trimmed db =
     (let ts = sortForHash th ts in trim_accounts cr lm (accountTxMap (ts_transactions ts)) ts trimmed db)"

text \<open>The loops of \<open>checkValid\<close>.\<close>

fun hashes_sorted :: "Hash \<Rightarrow> Hash list \<Rightarrow> bool" where
  "hashes_sorted lastHash [] = True"
| "hashes_sorted lastHash (h # hs) = (if h < lastHash then False else hashes_sorted h hs)"

fun check_txs ::
  "Crypto \<Rightarrow> LedgerHeader \<Rightarrow> TransactionFrame list \<Rightarrow> uint64 \<Rightarrow> int \<Rightarrow> AccountFrame option \<Rightarrow> Database \<Rightarrow>
    (bool \<times> Database) result" where
  "check_txs cr lm [] lastSeq totFee lastAcc db = Inr (can_pay lm lastAcc totFee, db)"
| "check_txs cr lm (t # txs) lastSeq totFee lastAcc db =
     bindE (tx_checkValid cr lm t lastSeq db) (\<lambda>(code, db').
     if code \<noteq> None then Inr (False, db')
     else
       deref (getSourceAccount t db) (\<lambda>f.
       check_txs cr lm txs (tx_seq t) (totFee + getFee t) (Some f) db'))"

fun check_accounts ::
  "Crypto \<Rightarrow> LedgerHeader \<Rightarrow> TransactionFrame list list \<Rightarrow> Database \<Rightarrow> (bool \<times> Database) result" where
  "check_accounts cr lm [] db = Inr (True, db)"
| "check_accounts cr lm (txs # items) db =
     bindE (check_txs cr lm txs 0 0 None db) (\<lambda>(ok, db).
     if \<not> ok then Inr (False, db) else check_accounts cr lm items db)"

text \<open>The hash and the header of the last closed ledger are arguments of their own.\<close>

definition txset_checkValid ::
  "Crypto \<Rightarrow> TxHashing \<Rightarrow> Hash \<Rightarrow> LedgerHeader \<Rightarrow> LedgerHeader \<Rightarrow> TxSetFrame \<Rightarrow> Database \<Rightarrow> (bool \<times> Database) result" where
  "txset_checkValid cr th lclHash lcl lm ts db =
     (if lclHash \<noteq> ts_previousLedgerHash ts then Inr (False, db)
      else if length (ts_transactions ts) > unat (maxTxSetSize lcl) then Inr (False, db)
      else if \<not> hashes_sorted (replicate 32 0) (map (fullHash th) (ts_transactions ts)) then Inr (False, db)
      else check_accounts cr lm (accountTxMap (ts_transactions ts)) db)"

text \<open>The part of \<open>HerderImpl::triggerNextLedger\<close> that makes the set to propose.\<close>

definition proposeTxSet ::
  "Crypto \<Rightarrow> TxHashing \<Rightarrow> Hash \<Rightarrow> LedgerHeader \<Rightarrow> LedgerHeader \<Rightarrow> TransactionFrame list \<Rightarrow> Database \<Rightarrow> (TxSetFrame \<times> Database) result" where
  "proposeTxSet cr th lclHash lcl lm pending db =
     (let ts = fold txset_add pending \<lparr>ts_previousLedgerHash = lclHash, ts_transactions = [], ts_hashIsValid = False, ts_hash = []\<rparr> in
      bindE (trimInvalid cr th lm ts [] db) (\<lambda>(ts, removed, db).
      let ts = surgePricingFilter lm ts in
      bindE (txset_checkValid cr th lclHash lcl lm ts db) (\<lambda>(ok, db).
      if \<not> ok then Inl (RuntimeError ''wanting to emit an invalid txSet'') else Inr (ts, db))))"

end
