(* ===== verification/Tx_Set_Laws.thy ===== *)
theory Tx_Set_Laws
  imports Tx_Set "HOL-Library.Multiset"
begin

text \<open>
  What becomes of sets of transactions: the order of application keeps the transactions of an account in
  order, and the set a node proposes is valid.
\<close>

abbreviation of_account :: "AccountID \<Rightarrow> TransactionFrame list \<Rightarrow> TransactionFrame list" where
  "of_account i txs \<equiv> filter (\<lambda>t. tx_source t = i) txs"

section \<open>The order of application\<close>

definition batch_count :: "(AccountID \<times> nat) list \<Rightarrow> AccountID \<Rightarrow> nat" where
  "batch_count m i = (case map_of m i of Some n \<Rightarrow> n | None \<Rightarrow> 0)"

text \<open>The batch with number \<open>k\<close> holds the \<open>k\<close>-th transaction of each account that has one.\<close>

definition batched :: "TransactionFrame list \<Rightarrow> (AccountID \<times> nat) list \<Rightarrow> TransactionFrame list list \<Rightarrow> bool" where
  "batched seen m bs \<longleftrightarrow>
     (\<forall>i. concat (map (of_account i) bs) = of_account i seen
        \<and> batch_count m i \<le> length bs
        \<and> (\<forall>k < length bs. length (of_account i (bs ! k)) = (if k < batch_count m i then 1 else 0)))
     \<and> mset (concat bs) = mset seen"

lemma batchedD:
  assumes "batched seen m bs"
  shows "concat (map (of_account i) bs) = of_account i seen" and "batch_count m i \<le> length bs"
    and "k < length bs \<Longrightarrow> length (of_account i (bs ! k)) = (if k < batch_count m i then 1 else 0)"
    and "mset (concat bs) = mset seen"
  using assms unfolding batched_def by blast+

lemma concat_empty: "(\<And>x. x \<in> set xs \<Longrightarrow> f x = []) \<Longrightarrow> concat (map f xs) = []"
  by (induction xs) auto

lemma concat_replicate_Nil [simp]: "concat (replicate n []) = []"
  by (induction n) auto

lemma batched_more:
  assumes "batched seen m bs"
  shows "batched seen m (bs @ replicate n [])"
proof -
  have "length (of_account i ((bs @ replicate n []) ! k)) = (if k < batch_count m i then 1 else 0)"
    if "k < length bs + n" for i k
  proof (cases "k < length bs")
    case False
    moreover have "batch_count m i \<le> length bs" using assms by (simp add: batched_def)
    ultimately show ?thesis using that by (simp add: nth_append)
  qed (use assms in \<open>simp add: batched_def nth_append\<close>)
  then show ?thesis using assms by (auto simp: batched_def map_replicate_const trans_le_add1)
qed

lemma batched_put:
  assumes b: "batched seen m bs" and v: "v = batch_count m (tx_source t)" "v < length bs"
  shows "batched (seen @ [t]) (map_put (tx_source t) (v + 1) m) (bs[v := bs ! v @ [t]])"
proof -
  let ?j = "tx_source t" and ?bs = "bs[v := bs ! v @ [t]]"
  have split: "bs = take v bs @ bs ! v # drop (Suc v) bs" by (rule id_take_nth_drop [OF v(2)])
  have upd: "?bs = take v bs @ (bs ! v @ [t]) # drop (Suc v) bs" by (rule upd_conv_take_nth_drop [OF v(2)])
  have late: "of_account ?j (bs ! k) = []" if "v \<le> k" "k < length bs" for k
    using batchedD(3) [OF b that(2), of ?j] v(1) that(1) by simp
  have rest: "concat (map (of_account ?j) (drop (Suc v) bs)) = []"
    by (rule concat_empty) (use late in \<open>auto simp: in_set_conv_nth\<close>)
  have cat: "concat (map (of_account i) bs) = concat (map (of_account i) (take v bs)) @ of_account i (bs ! v)
      @ concat (map (of_account i) (drop (Suc v) bs))" for i
    by (subst split) simp
  have "concat (map (of_account i) ?bs) = of_account i (seen @ [t])" for i
  proof -
    have "concat (map (of_account i) bs) = of_account i seen" by (rule batchedD(1) [OF b])
    then show ?thesis using cat [of i] rest late [OF order_refl v(2)] unfolding upd by (cases "i = ?j") auto
  qed
  moreover have "mset (concat ?bs) = mset (seen @ [t])"
  proof -
    have "mset (concat bs) = mset seen" by (rule batchedD(4) [OF b])
    moreover have "mset (concat bs) = mset (concat (take v bs)) + mset (bs ! v) + mset (concat (drop (Suc v) bs))"
      by (subst split) simp
    ultimately show ?thesis unfolding upd by (simp add: add.assoc)
  qed
  moreover have "length (of_account i (?bs ! k)) = (if k < batch_count (map_put ?j (v + 1) m) i then 1 else 0)"
    if "k < length bs" for i k
  proof (cases "k = v")
    case True
    then show ?thesis using batchedD(3) [OF b that, of i] late [OF order_refl v(2)] v by (auto simp: batch_count_def)
  next
    case False
    then show ?thesis using batchedD(3) [OF b that, of i] v(1) by (auto simp: batch_count_def)
  qed
  moreover have "batch_count (map_put ?j (v + 1) m) i \<le> length ?bs" for i
    using batchedD(2) [OF b, of i] v(2) by (auto simp: batch_count_def)
  ultimately show ?thesis unfolding batched_def by simp
qed

lemma build_batches_batched:
  assumes "batched seen m bs"
  shows "\<exists>m'. batched (seen @ txs) m' (build_batches txs m bs)"
  using assms
proof (induction txs arbitrary: seen m bs)
  case (Cons t txs)
  let ?v = "batch_count m (tx_source t)"
  let ?bs = "if ?v \<ge> length bs then bs @ replicate (?v + 4 - length bs) [] else bs"
  have "batched seen m ?bs" using batched_more [OF Cons.prems] Cons.prems by simp
  moreover have "?v < length ?bs" by simp
  ultimately have "batched (seen @ [t]) (map_put (tx_source t) (?v + 1) m) (?bs[?v := ?bs ! ?v @ [t]])"
    by (intro batched_put) simp_all
  moreover have "put_batch ?v t bs = ?bs[?v := ?bs ! ?v @ [t]]" by (simp only: put_batch_def Let_def)
  ultimately have "batched (seen @ [t]) (map_put (tx_source t) (?v + 1) m) (put_batch ?v t bs)" by (simp only:)
  moreover have "build_batches (t # txs) m bs = build_batches txs (map_put (tx_source t) (?v + 1) m) (put_batch ?v t bs)"
    by (simp add: Let_def batch_count_def)
  ultimately show ?case using Cons.IH by fastforce
qed auto

lemma sort_key_single: "length xs \<le> 1 \<Longrightarrow> sort_key f xs = xs"
  by (cases xs) simp_all

lemma sortForApply_perm: "mset (fst (sortForApply th ts)) = mset (ts_transactions ts)"
  and sortForApply_sorted: "of_account i (fst (sortForApply th ts)) = sort_key tx_seq (of_account i (ts_transactions ts))"
proof -
  let ?s = "sort_key tx_seq (ts_transactions ts)" and ?h = "fst (getContentsHash th ts)"
  let ?bs = "build_batches ?s [] (replicate 4 [])"
  have "batched [] [] (replicate 4 [])" by (auto simp: batched_def batch_count_def map_replicate_const)
  from build_batches_batched [OF this] obtain m where b: "batched ?s m ?bs" by auto
  have r: "fst (sortForApply th ts) = concat (map (sort_batch th ?h) ?bs)"
    by (simp add: sortForApply_def Let_def split_beta)
  have "mset (concat (map (sort_batch th ?h) bs)) = mset (concat bs)" for bs
    by (induction bs) (simp_all add: sort_batch_def)
  then have "mset (concat (map (sort_batch th ?h) ?bs)) = mset (ts_transactions ts)" using batchedD(4) [OF b] by simp
  moreover have "of_account i (sort_batch th ?h x) = of_account i x" if "x \<in> set ?bs" for x
  proof -
    have "length (of_account i x) \<le> 1" using batchedD(3) [OF b] that by (fastforce simp: in_set_conv_nth)
    then show ?thesis by (simp add: sort_batch_def filter_sort sort_key_single)
  qed
  then have "map (of_account i \<circ> sort_batch th ?h) ?bs = map (of_account i) ?bs" by simp
  then have "of_account i (concat (map (sort_batch th ?h) ?bs)) = of_account i ?s"
    unfolding filter_concat map_map using batchedD(1) [OF b] by metis
  ultimately show "mset (fst (sortForApply th ts)) = mset (ts_transactions ts)"
    "of_account i (fst (sortForApply th ts)) = sort_key tx_seq (of_account i (ts_transactions ts))"
    unfolding r by (simp_all add: filter_sort)
qed

text \<open>C19: The order in which the transactions of a set are applied is a permutation of the set in which the
  transactions of each account come by their sequence numbers, whatever the hashes are.\<close>

theorem sortForApply_order:
  "mset (fst (sortForApply th ts)) = mset (ts_transactions ts)
     \<and> filter (\<lambda>t. tx_source t = i) (fst (sortForApply th ts))
         = sort_key tx_seq (filter (\<lambda>t. tx_source t = i) (ts_transactions ts))"
  using sortForApply_perm sortForApply_sorted by simp

section \<open>Validity is a function of the ledger\<close>

text \<open>Stored accounts are valid, as loading them asserts.\<close>

definition accounts_valid :: "ledger \<Rightarrow> bool" where
  "accounts_valid L \<longleftrightarrow> (\<forall>i f. L (AccountKey i) = Some (account_entry f) \<longrightarrow> account_isValid f)"

text \<open>A database that holds the ledger.\<close>

definition holds :: "ledger \<Rightarrow> Database \<Rightarrow> bool" where
  "holds L db \<longleftrightarrow> db_ok db \<and> cache_ok db \<and> db_ledger db = L"

lemma load_holds:
  assumes ok: "holds L db" and val: "accounts_valid L"
  shows "\<exists>f db'. loadAccount_db i db = Inr (f, db') \<and> holds L db' \<and> map_option account_entry f = L (AccountKey i)"
proof -
  have L: "L (AccountKey i) = map_option (\<lambda>r. account_entry (account_of_row r)) (map_of (db_accounts db) i)"
    using ok by (auto simp: holds_def db_ledger_def)
  have "\<exists>f db'. loadAccount_db i db = Inr (f, db')"
  proof (cases "map_of (db_cache db) (AccountKey i)")
    case None
    have "account_isValid (account_of_row r)" if "map_of (db_accounts db) i = Some r" for r
      using val that L by (simp add: accounts_valid_def)
    with None show ?thesis by (auto simp: loadAccount_db_def getCachedEntry_def Let_def split: option.split)
  next
    case (Some v)
    then have "(AccountKey i, v) \<in> set (db_cache db)" by (rule map_of_SomeD)
    then have "v = L (AccountKey i)" using ok by (auto simp: holds_def cache_ok_def)
    with Some L show ?thesis
      by (cases "map_of (db_accounts db) i")
        (simp_all add: loadAccount_db_def getCachedEntry_def Let_def AccountFrame_entry_def account_entry_def)
  qed
  then obtain f db' where ld: "loadAccount_db i db = Inr (f, db')" by blast
  from loadAccount_db_law [OF this] ok obtain c where "db' = db\<lparr>db_cache := c\<rparr>" "cache_ok db'"
    "map_option account_entry f = L (AccountKey i)" by (auto simp: holds_def)
  with ld ok show ?thesis by (auto simp: holds_def)
qed

text \<open>A call that answers the same on every database that holds the ledger, and keeps the ledger.\<close>

definition answers :: "ledger \<Rightarrow> (Database \<Rightarrow> 'r result) \<Rightarrow> (Database \<Rightarrow> 'r) \<Rightarrow> bool" where
  "answers L f F \<longleftrightarrow> (\<forall>db. holds L db \<longrightarrow> (\<exists>db'. f db = Inr (F db') \<and> holds L db'))"

lemma answers_Inr: "answers L (\<lambda>db. Inr (F db)) F"
  by (auto simp: answers_def)

lemma answers_const: "(\<And>db. f db = Inr (F db)) \<Longrightarrow> answers L f F"
  by (auto simp: answers_def)

lemma answers_bind: "answers L f F \<Longrightarrow> answers L (\<lambda>db. g (F db)) G \<Longrightarrow> answers L (\<lambda>db. bindE (f db) g) G"
  unfolding answers_def by (metis bindE_simps(2))

text \<open>The same account makes no difference to the flag that its signers are to be stored.\<close>

lemma same_account:
  assumes "account_entry f = account_entry g"
  shows "af_account f = af_account g" and "tx_checkSignature cr f n sc = tx_checkSignature cr g n sc"
    and "getNeededThreshold f lv = getNeededThreshold g lv" and "getMinimumBalance lm f = getMinimumBalance lm g"
    and "getLowThreshold f = getLowThreshold g"
proof -
  show a: "af_account f = af_account g" using assms by (simp add: account_entry_def)
  show "tx_checkSignature cr f n sc = tx_checkSignature cr g n sc"
    by (simp add: tx_checkSignature_def getMasterWeight_def Let_def a)
  show "getNeededThreshold f lv = getNeededThreshold g lv"
    by (cases lv) (simp_all add: getLowThreshold_def getMediumThreshold_def getHighThreshold_def a)
  show "getMinimumBalance lm f = getMinimumBalance lm g" by (simp add: getMinimumBalance_def a)
  show "getLowThreshold f = getLowThreshold g" by (simp add: getLowThreshold_def a)
qed

lemma answers_load:
  assumes val: "accounts_valid L"
    and none: "L (AccountKey i) = None \<Longrightarrow> \<exists>y. answers L (\<lambda>db. g (None, None, db)) (G y)"
    and some: "\<And>e. L (AccountKey i) = Some e \<Longrightarrow> \<exists>y. \<forall>f. account_entry f = e \<longrightarrow> answers L (\<lambda>db. g (Some f, None, db)) (G y)"
  shows "\<exists>y. answers L (\<lambda>db. bindE (tx_loadAccount i (None, db)) g) (G y)"
proof (cases "L (AccountKey i)")
  case None
  then obtain y where F: "answers L (\<lambda>db. g (None, None, db)) (G y)" using none by blast
  have "answers L (\<lambda>db. bindE (tx_loadAccount i (None, db)) g) (G y)"
    unfolding answers_def
  proof (intro allI impI)
    fix db assume "holds L db"
    from load_holds [OF this val, of i] None obtain db1 where "loadAccount_db i db = Inr (None, db1)" "holds L db1" by auto
    then show "\<exists>db'. bindE (tx_loadAccount i (None, db)) g = Inr (G y db') \<and> holds L db'"
      using F by (simp add: tx_loadAccount_def answers_def)
  qed
  then show ?thesis by blast
next
  case (Some e)
  then obtain y where F: "\<And>f. account_entry f = e \<Longrightarrow> answers L (\<lambda>db. g (Some f, None, db)) (G y)" using some by blast
  have "answers L (\<lambda>db. bindE (tx_loadAccount i (None, db)) g) (G y)"
    unfolding answers_def
  proof (intro allI impI)
    fix db assume "holds L db"
    from load_holds [OF this val, of i] Some obtain f db1 where "loadAccount_db i db = Inr (Some f, db1)" "holds L db1"
      "account_entry f = e" by auto
    then show "\<exists>db'. bindE (tx_loadAccount i (None, db)) g = Inr (G y db') \<and> holds L db'"
      using F [of f] by (simp add: tx_loadAccount_def answers_def)
  qed
  then show ?thesis by blast
qed

text \<open>The shape of the answers of the checks.\<close>

abbreviation checked :: "'x \<times> SignatureChecker \<Rightarrow> Database \<Rightarrow> 'x \<times> SignatureChecker \<times> tx_state" where
  "checked y db \<equiv> (fst y, snd y, None, db)"

lemma answers_checked: "\<exists>y. answers L (\<lambda>db. Inr (x, sc, None, db)) (checked y)"
  using answers_Inr [of L "checked (x, sc)"] by (intro exI [of _ "(x, sc)"]) simp

lemma commonValid_answers:
  assumes val: "accounts_valid L"
  shows "\<exists>y. answers L (\<lambda>db. commonValid cr lm txf cur sc (None, db)) (checked y)"
proof (cases "tx_operations (txf_tx txf) = [] \<or> check_timeBounds lm (txf_tx txf) \<noteq> None
    \<or> uint (tx_fee (txf_tx txf)) < getMinFee lm (txf_tx txf)")
  case True
  let ?x = "if tx_operations (txf_tx txf) = [] then Some txMISSING_OPERATION
    else case check_timeBounds lm (txf_tx txf) of Some c \<Rightarrow> Some c | None \<Rightarrow> Some txINSUFFICIENT_FEE"
  have "commonValid cr lm txf cur sc (None, db) = Inr (?x, sc, None, db)" for db
    using True by (cases "check_timeBounds lm (txf_tx txf)") (auto simp: commonValid_def Let_def)
  then show ?thesis using answers_checked [of L ?x sc] by simp
next
  case False
  let ?k = "\<lambda>p. case p of (None, st) \<Rightarrow> Inr (Some txNO_ACCOUNT, sc, st)
    | (Some f, st) \<Rightarrow>
        let c = (if cur = 0 then acc_seqNum (af_account f) else cur) in
        if c + 1 \<noteq> tx_seqNum (txf_tx txf) then Inr (Some txBAD_SEQ, sc, st)
        else
          let (ok, sc) = tx_checkSignature cr f (getLowThreshold f) sc in
          if \<not> ok then Inr (Some txBAD_AUTH, sc, st)
          else if acc_balance (af_account f) - uint (tx_fee (txf_tx txf)) < getMinimumBalance lm f
          then Inr (Some txINSUFFICIENT_BALANCE, sc, st) else Inr (None, sc, st)"
  have e: "commonValid cr lm txf cur sc (None, db) = bindE (tx_loadAccount (tx_sourceAccount (txf_tx txf)) (None, db)) ?k" for db
    using False by (auto simp: commonValid_def Let_def intro!: arg_cong [where f = "bindE _"] ext split: option.split prod.split)
  show ?thesis
    unfolding e
  proof (rule answers_load [OF val])
    show "\<exists>y. answers L (\<lambda>db. ?k (None, None, db)) (checked y)" using answers_checked by simp
    fix e
    show "\<exists>y. \<forall>f. account_entry f = e \<longrightarrow> answers L (\<lambda>db. ?k (Some f, None, db)) (checked y)"
    proof (cases "\<exists>g. account_entry g = e")
      case True
      then obtain g where g: "account_entry g = e" by blast
      obtain ok sc2 where c: "tx_checkSignature cr g (getLowThreshold g) sc = (ok, sc2)" by fastforce
      let ?bad = "(if cur = 0 then acc_seqNum (af_account g) else cur) + 1 \<noteq> tx_seqNum (txf_tx txf)"
      let ?x = "if ?bad then Some txBAD_SEQ else if \<not> ok then Some txBAD_AUTH
        else if acc_balance (af_account g) - uint (tx_fee (txf_tx txf)) < getMinimumBalance lm g
        then Some txINSUFFICIENT_BALANCE else None" and ?sc3 = "if ?bad then sc else sc2"
      have k: "?k (Some f, st) = Inr (?x, ?sc3, st)" if "account_entry f = e" for f st
        using same_account [of f g] that g c by (simp add: Let_def)
      have "answers L (\<lambda>db. ?k (Some f, None, db)) (checked (?x, ?sc3))" if "account_entry f = e" for f
        by (rule answers_const) (simp only: k [OF that] fst_conv snd_conv)
      then show ?thesis by blast
    qed blast
  qed
qed

lemma op_checkValid_answers:
  assumes val: "accounts_valid L"
  shows "\<exists>y. answers L (\<lambda>db. op_checkValid cr lm txf op sc (None, db)) (checked y)"
proof -
  let ?auth = "\<lambda>f st. let (ok, sc) = tx_checkSignature cr f (getNeededThreshold f (getThresholdLevel (op_body op))) sc in
      if \<not> ok then (Inr (Inl opBAD_AUTH, sc, st) :: ((OperationResult + AccountFrame option) \<times> SignatureChecker \<times> tx_state) result)
      else case doCheckValid lm (getSourceID txf op) (op_body op) of
          Some r \<Rightarrow> Inr (Inl (opINNER r), sc, st)
        | None \<Rightarrow> Inr (Inr None, sc, st)"
  let ?k = "\<lambda>p. case p of
      (None, st) \<Rightarrow> if op_sourceAccount op = None then Inr (Inl opNO_ACCOUNT, sc, st)
        else ?auth (makeAuthOnlyAccount (the (op_sourceAccount op))) st
    | (Some f, st) \<Rightarrow> ?auth f st"
  have e: "op_checkValid cr lm txf op sc (None, db) = bindE (tx_loadAccount (getSourceID txf op) (None, db)) ?k" for db
    by (auto simp: op_checkValid_def Let_def intro!: arg_cong [where f = "bindE _"] ext split: option.split prod.split)
  have auth: "\<exists>x sc3. \<forall>f st. account_entry f = account_entry g \<longrightarrow> ?auth f st = Inr (x, sc3, st)" for g
  proof -
    obtain ok sc2 where c: "tx_checkSignature cr g (getNeededThreshold g (getThresholdLevel (op_body op))) sc = (ok, sc2)" by fastforce
    let ?x = "if \<not> ok then Inl opBAD_AUTH else case doCheckValid lm (getSourceID txf op) (op_body op) of
      Some r \<Rightarrow> Inl (opINNER r) | None \<Rightarrow> Inr None"
    have "?auth f st = Inr (?x, sc2, st)" if "account_entry f = account_entry g" for f st
      using same_account [OF that] c by (auto split: option.split)
    then show ?thesis by blast
  qed
  show ?thesis
    unfolding e
  proof (rule answers_load [OF val])
    show "\<exists>y. answers L (\<lambda>db. ?k (None, None, db)) (checked y)"
    proof (cases "op_sourceAccount op")
      case None
      then show ?thesis using answers_checked by simp
    next
      case (Some i)
      from auth [of "makeAuthOnlyAccount i"] obtain x sc3 where a: "\<And>st. ?auth (makeAuthOnlyAccount i) st = Inr (x, sc3, st)" by blast
      have "answers L (\<lambda>db. ?k (None, None, db)) (checked (x, sc3))"
        by (rule answers_const) (use Some a in \<open>simp only: option.sel prod.case option.case option.distinct if_False fst_conv snd_conv\<close>)
      then show ?thesis by blast
    qed
    fix e
    show "\<exists>y. \<forall>f. account_entry f = e \<longrightarrow> answers L (\<lambda>db. ?k (Some f, None, db)) (checked y)"
    proof (cases "\<exists>g. account_entry g = e")
      case True
      then obtain g where g: "account_entry g = e" by blast
      from auth [of g] obtain x sc3 where a: "\<And>f st. account_entry f = e \<Longrightarrow> ?auth f st = Inr (x, sc3, st)" unfolding g by blast
      have "answers L (\<lambda>db. ?k (Some f, None, db)) (checked (x, sc3))" if "account_entry f = e" for f
        by (rule answers_const) (simp only: a [OF that] prod.case option.case fst_conv snd_conv)
      then show ?thesis by blast
    qed blast
  qed
qed

lemma check_ops_answers:
  assumes val: "accounts_valid L"
  shows "\<exists>y. answers L (\<lambda>db. check_ops cr lm txf ops sc (None, db)) (checked y)"
proof (induction ops arbitrary: sc)
  case Nil
  then show ?case using answers_checked by simp
next
  case (Cons op ops)
  from op_checkValid_answers [OF val] obtain y where y: "answers L (\<lambda>db. op_checkValid cr lm txf op sc (None, db)) (checked y)" by blast
  have "\<exists>z. answers L (\<lambda>db. (\<lambda>(r, sc, st). case r of Inl res \<Rightarrow> Inr (Some res, sc, st) | Inr _ \<Rightarrow> check_ops cr lm txf ops sc st) (checked y db)) (checked z)"
    using Cons.IH answers_checked by (cases "fst y") simp_all
  then show ?case using answers_bind [OF y] by (simp only: check_ops.simps) blast
qed

lemma tx_checkValid_answers:
  assumes val: "accounts_valid L"
  shows "\<exists>code. answers L (tx_checkValid cr lm txf cur) (Pair code)"
proof -
  let ?sc = "SignatureChecker_new (ledgerVersion lm) (txf_contentsHash txf) (txf_signatures txf)"
  from commonValid_answers [OF val] obtain y where y: "answers L (\<lambda>db. commonValid cr lm txf cur ?sc (None, db)) (checked y)" by blast
  let ?k = "\<lambda>(code, sc, st). if code \<noteq> None then Inr (code, snd st)
    else bindE (check_ops cr lm txf (tx_operations (txf_tx txf)) sc st) (\<lambda>(r, sc, st).
      case r of Some res \<Rightarrow> Inr (Some (txFAILED [res]), snd st)
      | None \<Rightarrow> Inr (if checkAllSignaturesUsed sc then None else Some txBAD_AUTH_EXTRA, snd st))"
  have "\<exists>code. answers L (\<lambda>db. ?k (checked y db)) (Pair code)"
  proof (cases "fst y")
    case (Some c)
    then show ?thesis using answers_Inr [of L "Pair (Some c)"] by auto
  next
    case None
    from check_ops_answers [OF val] obtain z where
      z: "answers L (\<lambda>db. check_ops cr lm txf (tx_operations (txf_tx txf)) (snd y) (None, db)) (checked z)" by blast
    let ?j = "\<lambda>(r, sc, st). case r of Some res \<Rightarrow> (Inr (Some (txFAILED [res]), snd st) :: (TransactionResultCode option \<times> Database) result)
      | None \<Rightarrow> Inr (if checkAllSignaturesUsed sc then None else Some txBAD_AUTH_EXTRA, snd st)"
    obtain code where code: "\<And>db. ?j (checked z db) = Inr (code, db)" by (cases "fst z") auto
    have "answers L (\<lambda>db. ?j (checked z db)) (Pair code)" by (rule answers_const) (rule code)
    from answers_bind [OF z this] show ?thesis using None by auto
  qed
  then obtain code where "answers L (\<lambda>db. ?k (checked y db)) (Pair code)" by blast
  note b = answers_bind [OF y this]
  have "tx_checkValid cr lm txf cur = (\<lambda>db. bindE (commonValid cr lm txf cur ?sc (None, db)) ?k)"
    by (rule ext) (simp only: tx_checkValid_def Let_def)
  with b show ?thesis by metis
qed

lemma valid_tx:
  assumes cv: "tx_checkValid cr lm t n db = Inr (None, db')" and ok: "holds L db"
  shows "\<exists>f. getSourceAccount t db = Some f \<and> account_at L (tx_source t) = Some (af_account f)
    \<and> (if n = 0 then acc_seqNum (af_account f) else n) + 1 = tx_seq t"
proof -
  let ?sc = "SignatureChecker_new (ledgerVersion lm) (txf_contentsHash t) (txf_signatures t)"
  obtain c sc st where "commonValid cr lm t n ?sc (None, db) = Inr (c, sc, st)"
    using cv by (auto simp: tx_checkValid_def Let_def result_simps)
  moreover from this have "c = None" using cv by (cases c) (simp_all add: tx_checkValid_def Let_def)
  ultimately obtain f st1 where ld: "tx_loadAccount (tx_source t) (None, db) = Inr (Some f, st1)"
    and seq: "(if n = 0 then acc_seqNum (af_account f) else n) + 1 = tx_seq t"
    using commonValid_passes by (metis fst_conv)
  then obtain db1 where l: "loadAccount_db (tx_source t) db = Inr (Some f, db1)" by (auto simp: tx_loadAccount_def result_simps)
  with loadAccount_db_law [OF l] ok have "L (AccountKey (tx_source t)) = Some (account_entry f)" by (auto simp: holds_def)
  then show ?thesis using l seq by (simp add: getSourceAccount_def account_at_def account_entry_def)
qed

section \<open>The transactions of an account\<close>

text \<open>\<open>W t n\<close> is what the check of \<open>t\<close> after the sequence number \<open>n\<close> answers.\<close>

definition verdict_of ::
  "Crypto \<Rightarrow> LedgerHeader \<Rightarrow> ledger \<Rightarrow> (TransactionFrame \<Rightarrow> uint64 \<Rightarrow> TransactionResultCode option) \<Rightarrow> bool" where
  "verdict_of cr lm L W \<longleftrightarrow> (\<forall>t n. answers L (tx_checkValid cr lm t n) (Pair (W t n)))"

fun all_valid :: "(TransactionFrame \<Rightarrow> uint64 \<Rightarrow> TransactionResultCode option) \<Rightarrow> uint64 \<Rightarrow> TransactionFrame list \<Rightarrow> bool" where
  "all_valid W n [] = True"
| "all_valid W n (t # txs) = (W t n = None \<and> all_valid W (tx_seq t) txs)"

fun kept_txs :: "(TransactionFrame \<Rightarrow> uint64 \<Rightarrow> TransactionResultCode option) \<Rightarrow> uint64 \<Rightarrow> TransactionFrame list \<Rightarrow> TransactionFrame list" where
  "kept_txs W n [] = []"
| "kept_txs W n (t # txs) = (if W t n = None then t # kept_txs W (tx_seq t) txs else kept_txs W n txs)"

fun dropped_txs :: "(TransactionFrame \<Rightarrow> uint64 \<Rightarrow> TransactionResultCode option) \<Rightarrow> uint64 \<Rightarrow> TransactionFrame list \<Rightarrow> TransactionFrame list" where
  "dropped_txs W n [] = []"
| "dropped_txs W n (t # txs) = (if W t n = None then dropped_txs W (tx_seq t) txs else t # dropped_txs W n txs)"

definition payable :: "LedgerHeader \<Rightarrow> ledger \<Rightarrow> AccountID \<Rightarrow> TransactionFrame list \<Rightarrow> int \<Rightarrow> bool" where
  "payable lm L i txs fee \<longleftrightarrow>
     (\<forall>a. account_at L i = Some a \<longrightarrow> acc_balance a - (fee + sum_list (map getFee txs)) \<ge> getMinBalance lm (acc_numSubEntries a))"

definition last_ok :: "ledger \<Rightarrow> AccountID \<Rightarrow> AccountFrame option \<Rightarrow> bool" where
  "last_ok L i la \<longleftrightarrow> (\<forall>f. la = Some f \<longrightarrow> account_at L i = Some (af_account f))"

lemma can_pay_iff: "last_ok L i la \<Longrightarrow> can_pay lm la fee \<longleftrightarrow> (la \<noteq> None \<longrightarrow> payable lm L i [] fee)"
  by (cases la) (simp_all add: can_pay_def payable_def last_ok_def getMinimumBalance_def)

lemma payable_Cons: "payable lm L i (t # txs) fee \<longleftrightarrow> payable lm L i txs (fee + getFee t)"
  by (simp add: payable_def add.assoc)

lemma verdict_step:
  assumes "verdict_of cr lm L W" and "holds L db"
  obtains db' where "tx_checkValid cr lm t n db = Inr (W t n, db')" and "holds L db'"
    and "W t n = None \<Longrightarrow> \<exists>f. getSourceAccount t db = Some f \<and> account_at L (tx_source t) = Some (af_account f)
      \<and> (if n = 0 then acc_seqNum (af_account f) else n) + 1 = tx_seq t"
proof -
  obtain db' where "tx_checkValid cr lm t n db = Inr (W t n, db')" "holds L db'"
    using assms unfolding verdict_of_def answers_def by blast
  then show thesis using valid_tx [OF _ assms(2)] by (intro that) auto
qed

lemma verdict_None:
  assumes "verdict_of cr lm L W" and "holds L db" and "W t n = None"
  shows "\<exists>a. account_at L (tx_source t) = Some a \<and> (if n = 0 then acc_seqNum a else n) + 1 = tx_seq t"
  using verdict_step [OF assms(1,2), of t n] assms(3) by metis

lemma check_txs_verdict:
  assumes "verdict_of cr lm L W" and "holds L db" and "\<forall>t \<in> set txs. tx_source t = i" and "last_ok L i la"
  shows "\<exists>db'. check_txs cr lm txs n fee la db
    = Inr (all_valid W n txs \<and> (txs \<noteq> [] \<or> la \<noteq> None \<longrightarrow> payable lm L i txs fee), db') \<and> holds L db'"
  using assms(2-)
proof (induction txs arbitrary: n fee la db)
  case Nil
  then show ?case by (simp add: can_pay_iff)
next
  case (Cons t txs)
  from verdict_step [OF assms(1) Cons.prems(1), of t n] obtain db' where ch: "tx_checkValid cr lm t n db = Inr (W t n, db')"
    and ok: "holds L db'" and src: "W t n = None \<Longrightarrow> \<exists>f. getSourceAccount t db = Some f \<and> account_at L (tx_source t) = Some (af_account f)"
    by metis
  show ?case
  proof (cases "W t n")
    case None
    then obtain f where f: "getSourceAccount t db = Some f" "last_ok L i (Some f)" using src Cons.prems(2) by (auto simp: last_ok_def)
    from Cons.IH [OF ok _ f(2)] Cons.prems(2) show ?thesis using ch None f(1) by (simp add: payable_Cons)
  qed (use ch ok in simp)
qed

lemma trim_txs_verdict:
  assumes "verdict_of cr lm L W" and "holds L db" and "\<forall>t \<in> set txs. tx_source t = i" and "last_ok L i la"
  shows "\<exists>la' db'. trim_txs cr lm txs n fee la ts tr db
    = Inr ((fee + sum_list (map getFee (kept_txs W n txs)), la'), fold removeTx (dropped_txs W n txs) ts, tr @ dropped_txs W n txs, db')
    \<and> holds L db' \<and> last_ok L i la' \<and> (la' = None \<longleftrightarrow> la = None \<and> kept_txs W n txs = [])"
  using assms(2-)
proof (induction txs arbitrary: n fee la ts tr db)
  case (Cons t txs)
  from verdict_step [OF assms(1) Cons.prems(1), of t n] obtain db' where ch: "tx_checkValid cr lm t n db = Inr (W t n, db')"
    and ok: "holds L db'" and src: "W t n = None \<Longrightarrow> \<exists>f. getSourceAccount t db = Some f \<and> account_at L (tx_source t) = Some (af_account f)"
    by metis
  show ?case
  proof (cases "W t n")
    case None
    then obtain f where f: "getSourceAccount t db = Some f" "last_ok L i (Some f)" using src Cons.prems(2) by (auto simp: last_ok_def)
    from Cons.IH [OF ok _ f(2), of "tx_seq t" "fee + getFee t" ts tr] Cons.prems(2) show ?thesis
      using ch None f(1) by (simp add: add.assoc)
  next
    case (Some c)
    from Cons.IH [OF ok _ Cons.prems(3), of n fee "removeTx t ts" "tr @ [t]"] Cons.prems(2) show ?thesis using ch Some by simp
  qed
qed simp

lemma kept_valid: "all_valid W n (kept_txs W n txs)"
  by (induction txs arbitrary: n) auto

lemma kept_dropped: "mset (kept_txs W n txs) + mset (dropped_txs W n txs) = mset txs"
  by (induction txs arbitrary: n) auto

lemma kept_subset: "set (kept_txs W n txs) \<subseteq> set txs" and dropped_subset: "set (dropped_txs W n txs) \<subseteq> set txs"
proof -
  have "set (kept_txs W n txs @ dropped_txs W n txs) = set txs" by (rule mset_eq_setD) (simp add: kept_dropped)
  then show "set (kept_txs W n txs) \<subseteq> set txs" "set (dropped_txs W n txs) \<subseteq> set txs" by auto
qed

lemma kept_sorted: "sorted (map tx_seq txs) \<Longrightarrow> sorted (map tx_seq (kept_txs W n txs))"
proof (induction txs arbitrary: n)
  case (Cons t txs)
  then show ?case using kept_subset [of W "tx_seq t" txs] by auto
qed simp

lemma all_valid_append: "all_valid W n (xs @ ys) \<Longrightarrow> all_valid W n xs"
  by (induction xs arbitrary: n) auto

text \<open>The sequence numbers go up one by one from that of the account.\<close>

fun follows :: "uint64 \<Rightarrow> TransactionFrame list \<Rightarrow> bool" where
  "follows n [] = True"
| "follows n (t # txs) = (n + 1 = tx_seq t \<and> follows (tx_seq t) txs)"

lemma valid_follows_pos:
  assumes vd: "verdict_of cr lm L W" and db: "holds L db"
  shows "all_valid W n txs \<Longrightarrow> n \<noteq> 0 \<Longrightarrow> sorted (n # map tx_seq txs) \<Longrightarrow> follows n txs"
proof (induction txs arbitrary: n)
  case (Cons t txs)
  have "n + 1 = tx_seq t" using verdict_None [OF vd db, of t n] Cons.prems(1,2) by auto
  moreover have "tx_seq t \<noteq> 0" using Cons.prems(2,3) by (auto simp: word_le_0_iff)
  ultimately show ?case using Cons by auto
qed simp

lemma follows_distinct:
  "follows n txs \<Longrightarrow> sorted (n # map tx_seq txs) \<Longrightarrow> distinct (map tx_seq txs) \<and> n \<notin> tx_seq ` set txs"
proof (induction txs arbitrary: n)
  case (Cons t txs)
  then have "n + 1 = tx_seq t" "n \<le> tx_seq t" by simp_all
  moreover from this(1) have "n \<noteq> tx_seq t" by (metis add_cancel_right_right one_neq_zero)
  ultimately have "n < tx_seq t" by simp
  moreover have "distinct (map tx_seq txs) \<and> tx_seq t \<notin> tx_seq ` set txs" using Cons by auto
  ultimately show ?case using Cons.prems(2) by force
qed simp

lemma valid_follows:
  assumes vd: "verdict_of cr lm L W" and db: "holds L db" and val: "accounts_valid L"
    and av: "all_valid W 0 txs" and so: "sorted (map tx_seq txs)" and src: "\<forall>t \<in> set txs. tx_source t = i" and ne: "txs \<noteq> []"
  obtains a where "account_at L i = Some a" and "follows (acc_seqNum a) txs" and "distinct (map tx_seq txs)"
proof -
  obtain t rest where txs: "txs = t # rest" using ne by (cases txs) auto
  obtain c where a: "account_at L i = Some c" "acc_seqNum c + 1 = tx_seq t"
    using verdict_None [OF vd db, of t 0] av src txs by auto
  obtain e where e: "L (AccountKey i) = Some e" "le_data e = ACCOUNT c"
    using a(1) by (auto simp: account_at_def split: option.splits LedgerEntryData.splits)
  let ?g = "\<lparr>af_lastModified = lastModifiedLedgerSeq e, af_account = c, mUpdateSigners = False\<rparr>"
  have "account_entry ?g = e" using e(2) by (simp add: account_entry_def)
  then have "account_isValid ?g" using val e(1) by (auto simp: accounts_valid_def)
  then have "uint (acc_seqNum c) < 2 ^ 63" by (simp add: account_isValid_def Let_def INT64_MAX_def)
  then have lt: "acc_seqNum c < tx_seq t"
    unfolding a(2) [symmetric] by (simp add: word_less_def uint_word_ariths(1) mod_pos_pos_trivial)
  then have "tx_seq t \<noteq> 0" by auto
  then have "follows (tx_seq t) rest" using valid_follows_pos [OF vd db, of "tx_seq t" rest] av so txs by simp
  then have fo: "follows (acc_seqNum c) txs" using a(2) txs by simp
  moreover have "sorted (acc_seqNum c # map tx_seq txs)" using so txs lt by auto
  ultimately show thesis using follows_distinct [OF fo] a(1) by (intro that) auto
qed

section \<open>The set a node proposes\<close>

text \<open>What a check of the transactions of an account finds right.\<close>

definition fit ::
  "LedgerHeader \<Rightarrow> ledger \<Rightarrow> (TransactionFrame \<Rightarrow> uint64 \<Rightarrow> TransactionResultCode option) \<Rightarrow> AccountID \<Rightarrow> TransactionFrame list \<Rightarrow> bool" where
  "fit lm L W i txs \<longleftrightarrow>
     (\<forall>t \<in> set txs. tx_source t = i) \<and> sorted (map tx_seq txs) \<and> all_valid W 0 txs \<and> (txs \<noteq> [] \<longrightarrow> payable lm L i txs 0)"

lemma check_accounts_verdict:
  assumes "verdict_of cr lm L W" and "holds L db" and "\<forall>(i, txs) \<in> set items. \<forall>t \<in> set txs. tx_source t = i"
  shows "\<exists>db'. check_accounts cr lm (map snd items) db
    = Inr (\<forall>(i, txs) \<in> set items. all_valid W 0 txs \<and> (txs \<noteq> [] \<longrightarrow> payable lm L i txs 0), db') \<and> holds L db'"
  using assms(2-)
proof (induction items arbitrary: db)
  case (Cons p items)
  obtain i txs where p: "p = (i, txs)" by fastforce
  have "\<forall>t \<in> set txs. tx_source t = i" "last_ok L i None" using Cons.prems(2) by (auto simp: p last_ok_def)
  from check_txs_verdict [OF assms(1) Cons.prems(1) this, of 0 0] obtain db1 where
    "check_txs cr lm txs 0 0 None db = Inr (all_valid W 0 txs \<and> (txs \<noteq> [] \<longrightarrow> payable lm L i txs 0), db1)" "holds L db1" by auto
  with Cons.IH [OF this(2)] Cons.prems(2) show ?case by (auto simp: p)
qed simp

lemma fold_removeTx:
  "ts_transactions (fold removeTx xs ts) = fold remove1 xs (ts_transactions ts)"
  "ts_previousLedgerHash (fold removeTx xs ts) = ts_previousLedgerHash ts"
  by (induction xs arbitrary: ts) (simp_all add: removeTx_def)

lemma mset_fold_remove1: "mset (fold remove1 xs ys) = mset ys - mset xs"
  by (induction xs arbitrary: ys) (simp_all add: diff_diff_add add.commute)

lemma sorted_fold_remove1: "sorted (map f ys) \<Longrightarrow> sorted (map f (fold remove1 xs ys))"
  by (induction xs arbitrary: ys) (simp_all add: sorted_map_remove1)

definition removals ::
  "LedgerHeader \<Rightarrow> ledger \<Rightarrow> (TransactionFrame \<Rightarrow> uint64 \<Rightarrow> TransactionResultCode option) \<Rightarrow> AccountID \<Rightarrow> TransactionFrame list \<Rightarrow> TransactionFrame list" where
  "removals lm L W i txs =
     dropped_txs W 0 txs @ (if kept_txs W 0 txs = [] \<or> payable lm L i (kept_txs W 0 txs) 0 then [] else txs)"

lemma trim_accounts_verdict:
  assumes "verdict_of cr lm L W" and "holds L db" and "\<forall>(i, txs) \<in> set items. \<forall>t \<in> set txs. tx_source t = i"
  shows "\<exists>tr' db'. trim_accounts cr lm (map snd items) ts tr db
    = Inr (fold removeTx (concat (map (\<lambda>(i, txs). removals lm L W i txs) items)) ts, tr', db') \<and> holds L db'"
  using assms(2-)
proof (induction items arbitrary: ts tr db)
  case (Cons p items)
  obtain i txs where p: "p = (i, txs)" by fastforce
  have src: "\<forall>t \<in> set txs. tx_source t = i" "last_ok L i None" using Cons.prems(2) by (auto simp: p last_ok_def)
  let ?k = "kept_txs W 0 txs" and ?d = "dropped_txs W 0 txs"
  from trim_txs_verdict [OF assms(1) Cons.prems(1) src, of 0 0 ts tr] obtain la db1 where
    t: "trim_txs cr lm txs 0 0 None ts tr db = Inr ((sum_list (map getFee ?k), la), fold removeTx ?d ts, tr @ ?d, db1)"
    and ok: "holds L db1" and la: "last_ok L i la" "la = None \<longleftrightarrow> ?k = []" by auto
  have pay: "can_pay lm la (sum_list (map getFee ?k)) \<longleftrightarrow> ?k = [] \<or> payable lm L i ?k 0"
    using can_pay_iff [OF la(1)] la(2) by (auto simp: payable_def)
  show ?case
    using Cons.IH [OF ok] Cons.prems(2) t pay by (cases "?k = [] \<or> payable lm L i ?k 0") (auto simp: p removals_def)
qed simp

definition left ::
  "LedgerHeader \<Rightarrow> ledger \<Rightarrow> (TransactionFrame \<Rightarrow> uint64 \<Rightarrow> TransactionResultCode option) \<Rightarrow> AccountID \<Rightarrow> TransactionFrame list \<Rightarrow> TransactionFrame list" where
  "left lm L W i txs =
     (if kept_txs W 0 txs = [] \<or> payable lm L i (kept_txs W 0 txs) 0 then kept_txs W 0 txs else [])"

lemma left_removals: "mset txs - mset (removals lm L W i txs) = mset (left lm L W i txs)"
proof -
  let ?k = "mset (kept_txs W 0 txs)" and ?d = "mset (dropped_txs W 0 txs)"
  have "?k + ?d - ?d = ?k" "?k + ?d - (?d + (?k + ?d)) = {#}" by (simp_all add: diff_diff_add [symmetric])
  then show ?thesis unfolding left_def removals_def by (auto simp: kept_dropped)
qed

lemma left_fit:
  assumes "\<forall>t \<in> set txs. tx_source t = i" and "sorted (map tx_seq txs)"
  shows "fit lm L W i (left lm L W i txs)"
  using assms kept_subset [of W 0 txs] by (auto simp: left_def fit_def kept_valid kept_sorted)

lemma of_account_concat:
  assumes "distinct ids" and "\<And>i t. t \<in> set (g i) \<Longrightarrow> tx_source t = i"
  shows "of_account j (concat (map g ids)) = (if j \<in> set ids then g j else [])"
  using assms(1)
proof (induction ids)
  case (Cons i ids)
  have "of_account j (g i) = (if j = i then g i else [])"
    using assms(2) by (auto simp: filter_id_conv filter_empty_conv)
  then show ?case using Cons by auto
qed simp

definition account_txs :: "TransactionFrame list \<Rightarrow> AccountID \<Rightarrow> TransactionFrame list" where
  "account_txs txs i = sort_key tx_seq (of_account i txs)"

definition tx_accounts :: "TransactionFrame list \<Rightarrow> AccountID list" where
  "tx_accounts txs = sort (remdups (map tx_source txs))"

lemma accountTxMap_eq: "accountTxMap txs = map snd (map (\<lambda>i. (i, account_txs txs i)) (tx_accounts txs))"
  by (simp add: accountTxMap_def account_txs_def tx_accounts_def comp_def)

lemma account_txs_facts:
  "\<forall>t \<in> set (account_txs txs i). tx_source t = i" "sorted (map tx_seq (account_txs txs i))"
  "mset (account_txs txs i) = mset (of_account i txs)"
  by (simp_all add: account_txs_def)

lemma tx_accounts_facts: "distinct (tx_accounts txs)" "i \<notin> set (tx_accounts txs) \<Longrightarrow> of_account i txs = []"
  by (auto simp: tx_accounts_def filter_empty_conv)

text \<open>What \<open>trimInvalid\<close> leaves of an account.\<close>

lemma trimInvalid_leaves:
  assumes vd: "verdict_of cr lm L W" and db: "holds L db"
  obtains ts' tr' db' where "trimInvalid cr th lm ts tr db = Inr (ts', tr', db')" and "holds L db'"
    and "\<And>i. mset (of_account i (ts_transactions ts')) = mset (left lm L W i (account_txs (sort_key (fullHash th) (ts_transactions ts)) i))"
    and "sorted (map (fullHash th) (ts_transactions ts'))" and "mset (ts_transactions ts') \<subseteq># mset (ts_transactions ts)"
    and "ts_previousLedgerHash ts' = ts_previousLedgerHash ts"
proof -
  let ?S = "sort_key (fullHash th) (ts_transactions ts)"
  let ?g = "account_txs ?S" and ?ids = "tx_accounts ?S"
  let ?items = "map (\<lambda>i. (i, ?g i)) ?ids"
  let ?R = "concat (map (\<lambda>(i, txs). removals lm L W i txs) ?items)"
  have src: "\<forall>(i, txs) \<in> set ?items. \<forall>t \<in> set txs. tx_source t = i" using account_txs_facts(1) by auto
  from trim_accounts_verdict [OF vd db src, of "sortForHash th ts" tr] obtain tr' db' where
    t: "trimInvalid cr th lm ts tr db = Inr (fold removeTx ?R (sortForHash th ts), tr', db')" "holds L db'"
    unfolding trimInvalid_def Let_def accountTxMap_eq by (auto simp: sortForHash_def)
  have tx: "ts_transactions (fold removeTx ?R (sortForHash th ts)) = fold remove1 ?R ?S"
    by (simp add: fold_removeTx sortForHash_def)
  have "mset (of_account i (fold remove1 ?R ?S)) = mset (left lm L W i (?g i))" for i
  proof -
    have R: "of_account i ?R = (if i \<in> set ?ids then removals lm L W i (?g i) else [])"
    proof -
      have "tx_source t = j" if "t \<in> set (removals lm L W j (?g j))" for j t
        using that account_txs_facts(1) dropped_subset by (fastforce simp: removals_def split: if_splits)
      from of_account_concat [OF tx_accounts_facts(1) this] show ?thesis by (simp add: comp_def)
    qed
    have "mset (of_account i (fold remove1 ?R ?S)) = mset (?g i) - mset (of_account i ?R)"
      by (simp add: mset_fold_remove1 account_txs_facts(3))
    also have "\<dots> = mset (left lm L W i (?g i))"
    proof (cases "i \<in> set ?ids")
      case False
      then have "?g i = []" using tx_accounts_facts(2) by (simp add: account_txs_def)
      then show ?thesis by (simp add: left_def)
    next
      case True
      then show ?thesis by (simp only: R if_True left_removals)
    qed
    finally show ?thesis .
  qed
  note left = this
  show thesis
  proof (rule that [OF t])
    show "sorted (map (fullHash th) (ts_transactions (fold removeTx ?R (sortForHash th ts))))"
      unfolding tx by (rule sorted_fold_remove1) simp
    show "mset (ts_transactions (fold removeTx ?R (sortForHash th ts))) \<subseteq># mset (ts_transactions ts)"
      unfolding tx mset_fold_remove1 mset_sort by (rule diff_subset_eq_self)
    show "ts_previousLedgerHash (fold removeTx ?R (sortForHash th ts)) = ts_previousLedgerHash ts"
      by (simp add: fold_removeTx sortForHash_def)
  qed (use left in \<open>simp only: tx\<close>)
qed

section \<open>What surge pricing leaves\<close>

lemma getFee_nonneg [simp]: "0 \<le> getFee t"
  by (simp add: getFee_def)

lemma fit_prefix: "fit lm L W i (xs @ ys) \<Longrightarrow> fit lm L W i xs"
proof -
  have "0 \<le> sum_list (map getFee ys)" by (rule sum_list_nonneg) auto
  then show "fit lm L W i (xs @ ys) \<Longrightarrow> fit lm L W i xs"
    using all_valid_append [of W 0 xs ys] by (fastforce simp: fit_def payable_def sorted_append)
qed

lemma fit_sort:
  assumes "verdict_of cr lm L W" and "holds L db" and "accounts_valid L" and "fit lm L W i P" and "mset xs = mset P"
  shows "sort_key tx_seq xs = P" and "sort_key (surge_key m) xs = P"
proof -
  have f: "\<forall>t \<in> set P. tx_source t = i" "sorted (map tx_seq P)" "all_valid W 0 P" using assms(4) by (simp_all add: fit_def)
  have inj: "inj_on tx_seq (set P)"
  proof (cases "P = []")
    case False
    from valid_follows [OF assms(1-3) f(3,2,1) this] have "distinct (map tx_seq P)" by metis
    then show ?thesis by (simp add: distinct_map)
  qed simp
  have set: "set xs = set P" by (rule mset_eq_setD [OF assms(5)])
  show "sort_key tx_seq xs = P" by (rule sort_key_inj_key_eq [OF assms(5)]) (use inj f(2) set in simp_all)
  have "sorted (map (surge_key m) P)"
    unfolding sorted_map
    by (rule sorted_wrt_mono_rel [OF _ f(2) [unfolded sorted_map]]) (use f(1) in \<open>auto simp: surge_key_def Let_def\<close>)
  moreover have "inj_on (surge_key m) (set P)"
    using inj by (auto simp: inj_on_def surge_key_def Let_def)
  ultimately show "sort_key (surge_key m) xs = P"
    using sort_key_inj_key_eq [OF assms(5), of "surge_key m"] set by simp
qed

lemma surgePricing_leaves:
  assumes vd: "verdict_of cr lm L W" and db: "holds L db" and val: "accounts_valid L"
    and fits: "\<And>i. fit lm L W i (K i)" and K: "\<And>i. mset (of_account i (ts_transactions ts)) = mset (K i)"
  defines "ts' \<equiv> surgePricingFilter lm ts"
  shows "length (ts_transactions ts') \<le> unat (maxTxSetSize lm)"
    and "\<exists>P. fit lm L W i P \<and> mset (of_account i (ts_transactions ts')) = mset P"
    and "sorted (map f (ts_transactions ts)) \<Longrightarrow> sorted (map f (ts_transactions ts'))"
    and "mset (ts_transactions ts') \<subseteq># mset (ts_transactions ts)"
    and "ts_previousLedgerHash ts' = ts_previousLedgerHash ts"
proof -
  let ?n = "unat (maxTxSetSize lm)" and ?F = "ts_transactions ts"
  let ?T = "sort_key (surge_key (fee_map lm ?F [])) ?F"
  have s: "ts' = (if length ?F > ?n then fold removeTx (drop ?n ?T) ts else ts)"
    by (simp add: ts'_def surgePricingFilter_def Let_def)
  have "mset ?F = mset (take ?n ?T) + mset (drop ?n ?T)"
    by (metis append_take_drop_id mset_append mset_sort)
  then have "mset ?F - mset (drop ?n ?T) = mset (take ?n ?T)" by (metis add_diff_cancel_right')
  then have m: "mset (ts_transactions ts') = (if length ?F > ?n then mset (take ?n ?T) else mset ?F)"
    unfolding s by (cases "length ?F > ?n") (simp_all only: if_True if_False fold_removeTx mset_fold_remove1)
  then have "length (ts_transactions ts') = (if length ?F > ?n then length (take ?n ?T) else length ?F)"
    by (metis size_mset)
  then show "length (ts_transactions ts') \<le> ?n" by (simp split: if_splits)
  show "sorted (map f ?F) \<Longrightarrow> sorted (map f (ts_transactions ts'))"
    by (simp add: s fold_removeTx sorted_fold_remove1)
  show "mset (ts_transactions ts') \<subseteq># mset ?F" by (simp add: s fold_removeTx mset_fold_remove1)
  show "ts_previousLedgerHash ts' = ts_previousLedgerHash ts" by (simp add: s fold_removeTx)
  show "\<exists>P. fit lm L W i P \<and> mset (of_account i (ts_transactions ts')) = mset P"
  proof (cases "length ?F > ?n")
    case True
    have "of_account i ?T = K i" using fit_sort(2) [OF vd db val fits K] by (simp add: filter_sort)
    moreover have "of_account i ?T = of_account i (take ?n ?T) @ of_account i (drop ?n ?T)"
      by (metis append_take_drop_id filter_append)
    ultimately have "fit lm L W i (of_account i (take ?n ?T))" using fits [of i] fit_prefix by metis
    then show ?thesis using m True by (metis mset_filter)
  next
    case False
    then show ?thesis using fits [of i] K [of i] by (auto simp: s)
  qed
qed

lemma hashes_sorted_iff: "hashes_sorted h hs \<longleftrightarrow> sorted (h # hs)"
proof (induction hs arbitrary: h)
  case (Cons x hs)
  then show ?case by (auto simp: not_less)
qed simp

lemma zeros_least: "replicate (length h) 0 \<le> (h :: Hash)"
proof (induction h)
  case (Cons x h)
  then show ?case by (cases "x = 0") (auto simp: word_neq_0_conv)
qed simp

text \<open>C13: The set a node makes of the pending transactions when it triggers a ledger passes its own check,
  whatever transactions are pending: trimming the invalid ones and surge pricing leave a set that is
  valid, of at most the size allowed and with nothing that was not pending, so the exception for an
  invalid set is never raised. The hashes are of 32 bytes.\<close>

theorem proposed_set_valid:
  assumes "db_ok db" and "cache_ok db" and "accounts_valid (db_ledger db)" and "\<forall>t. length (fullHash th t) = 32"
    and "maxTxSetSize lcl = maxTxSetSize lm"
  shows "\<exists>ts db'. proposeTxSet cr th lclHash lcl lm pending db = Inr (ts, db')
    \<and> mset (ts_transactions ts) \<subseteq># mset pending \<and> length (ts_transactions ts) \<le> unat (maxTxSetSize lm)
    \<and> db_ledger db' = db_ledger db"
proof -
  let ?L = "db_ledger db"
  have db: "holds ?L db" using assms(1,2) by (simp add: holds_def)
  obtain W where vd: "verdict_of cr lm ?L W" using tx_checkValid_answers [OF assms(3)] unfolding verdict_of_def by metis
  let ?ts0 = "fold txset_add pending \<lparr>ts_previousLedgerHash = lclHash, ts_transactions = [], ts_hashIsValid = False, ts_hash = []\<rparr>"
  have "ts_transactions (fold txset_add xs ts) = ts_transactions ts @ xs
      \<and> ts_previousLedgerHash (fold txset_add xs ts) = ts_previousLedgerHash ts" for xs ts
    by (induction xs arbitrary: ts) (simp_all add: txset_add_def)
  then have t0: "ts_transactions ?ts0 = pending" "ts_previousLedgerHash ?ts0 = lclHash" by simp_all
  obtain ts1 tr1 db1 where 1: "trimInvalid cr th lm ?ts0 [] db = Inr (ts1, tr1, db1)" "holds ?L db1"
    "\<And>i. mset (of_account i (ts_transactions ts1)) = mset (left lm ?L W i (account_txs (sort_key (fullHash th) pending) i))"
    "sorted (map (fullHash th) (ts_transactions ts1))" "mset (ts_transactions ts1) \<subseteq># mset pending" "ts_previousLedgerHash ts1 = lclHash"
    using trimInvalid_leaves [OF vd db, of th ?ts0 "[]"] unfolding t0 by metis
  let ?ts = "surgePricingFilter lm ts1"
  note 2 = surgePricing_leaves [OF vd db assms(3) left_fit [OF account_txs_facts(1,2)] 1(3)]
  have ok: "fit lm ?L W i (account_txs (ts_transactions ?ts) i)" for i
    using 2(2) fit_sort(1) [OF vd db assms(3)] unfolding account_txs_def by metis
  have "hashes_sorted (replicate 32 0) (map (fullHash th) (ts_transactions ?ts))"
  proof -
    have "replicate 32 0 \<le> fullHash th t" for t using zeros_least [of "fullHash th t"] assms(4) by simp
    then show ?thesis using 2(3) [OF 1(4)] by (simp add: hashes_sorted_iff)
  qed
  moreover obtain db2 where "check_accounts cr lm (accountTxMap (ts_transactions ?ts)) db1 = Inr (True, db2)" "holds ?L db2"
    using check_accounts_verdict [OF vd 1(2), of "map (\<lambda>i. (i, account_txs (ts_transactions ?ts) i)) (tx_accounts (ts_transactions ?ts))"] ok
    unfolding accountTxMap_eq by (auto simp: fit_def)
  ultimately have "txset_checkValid cr th lclHash lcl lm ?ts db1 = Inr (True, db2)"
    using 2(1,5) 1(6) assms(5) by (simp add: txset_checkValid_def)
  then have "proposeTxSet cr th lclHash lcl lm pending db = Inr (?ts, db2)" using 1(1) by (simp add: proposeTxSet_def Let_def)
  moreover have "mset (ts_transactions ?ts) \<subseteq># mset pending" using 2(4) 1(5) by (rule subset_mset.order_trans)
  ultimately show ?thesis using 2(1) \<open>holds ?L db2\<close> by (auto simp: holds_def)
qed

end
