(* ===== verification/Tx_Set_Fees.thy ===== *)
theory Tx_Set_Fees
  imports Tx_Set_Laws
begin

text \<open>
  The fees of a valid set of transactions: \<open>LedgerManagerImpl::processFeesSeqNums\<close> never raises for the
  transactions of a set that passed \<open>checkValid\<close>, in the order of \<open>sortForApply\<close>, and charges every fee in
  full.
\<close>

section \<open>Loading and storing succeed\<close>

lemma sess_holds: "sess_ok tr base s \<Longrightarrow> holds (view s) (snd s)"
  by (simp add: sess_ok_def holds_def view_def)

lemma loadAccount_succeeds:
  assumes sok: "sess_ok tr base s" and val: "accounts_valid (view s)"
  obtains f s' where "loadAccount i s = Inr (f, s')" and "mPreviousHeaderValue (fst s') = mPreviousHeaderValue (fst s)"
    and "mUpdateLastModified (fst s') = mUpdateLastModified (fst s)"
proof -
  obtain f db where ld: "loadAccount_db i (snd s) = Inr (f, db)" using load_holds [OF sess_holds [OF sok] val] by blast
  have act: "mActive (fst s)" using sok by (simp add: sess_ok_def)
  show thesis
  proof (cases f)
    case None
    then show ?thesis using ld by (intro that [of None "(fst s, db)"]) (simp_all add: loadAccount_def)
  next
    case (Some g)
    then show ?thesis using ld act
      by (intro that [of "Some g" "((fst s)\<lparr>mPrevious := map_insert (LedgerEntryKey (account_entry g)) (account_entry g) (mPrevious (fst s))\<rparr>, db)"])
        (simp_all add: loadAccount_def recordEntry_def delta_checkState_def)
  qed
qed

lemma applySigners_same: "applySigners_loop ss ss rows c = Inr (rows, c)"
  by (induction ss) simp_all

lemma modEntry_keeps:
  "modEntry e d = Inr d' \<Longrightarrow> mPreviousHeaderValue d' = mPreviousHeaderValue d \<and> mUpdateLastModified d' = mUpdateLastModified d"
  by (auto simp: modEntry_def delta_checkState_def Let_def result_simps split: if_splits)

lemma storeChange_succeeds:
  assumes sok: "sess_ok tr base s" and val: "account_isValid f" and seq: "ledgerSeq (hdr s) \<noteq> 0" "ledgerSeq (hdr s) \<le> INT32_MAX"
    and at: "account_at (view s) (acc_accountID (af_account f)) = Some a" and sg: "acc_signers a = acc_signers (af_account f)"
  obtains m s' where "account_storeChange f s = Inr (f\<lparr>af_lastModified := m\<rparr>, s')" and "account_isValid (f\<lparr>af_lastModified := m\<rparr>)"
    and "mPreviousHeaderValue (fst s') = mPreviousHeaderValue (fst s)" and "mUpdateLastModified (fst s') = mUpdateLastModified (fst s)"
proof -
  let ?i = "acc_accountID (af_account f)" and ?d = "fst s"
  define m where "m = (if mUpdateLastModified ?d then ledgerSeq (hdr s) else af_lastModified f)"
  let ?f = "f\<lparr>af_lastModified := m\<rparr>"
  have m: "touch (af_lastModified f) ?d = Inr m" using seq(1) by (simp add: touch_def m_def hdr_def)
  have v: "account_isValid ?f" using val seq(2) by (simp add: account_isValid_def Let_def m_def)
  obtain r where r: "map_of (db_accounts (snd s)) ?i = Some r" "a = (snd r)\<lparr>acc_signers := sort_key signer_key (acc_signers (snd r))\<rparr>"
    using at view_account_row(1) [OF sok, of ?i] by auto
  have "delta_apply ?d base (AccountKey ?i) \<noteq> None"
    using sok view_account_row(2) [OF sok, of ?i] r(1) by (simp add: sess_ok_def view_def)
  then obtain d where d: "modEntry (account_entry ?f) ?d = Inr d"
    using modEntry_step [of base ?d "account_entry ?f"] sok by (auto simp: sess_ok_def LedgerEntryKey_def account_entry_def)
  let ?db = "(flushCachedEntry (AccountKey ?i) (snd s))
    \<lparr>db_accounts := map_put ?i (m, (af_account f)\<lparr>acc_signers := acc_signers (snd r)\<rparr>) (db_accounts (snd s))\<rparr>"
  have ss: "sort_key signer_key (acc_signers (snd r)) = acc_signers (af_account f)" using sg r(2) by simp
  have "\<exists>db. applySigners ?f False ?db = Inr db"
    by (simp add: applySigners_def Let_def loadSigners_def ss applySigners_same)
  then obtain db where db: "(if mUpdateSigners f then applySigners ?f False ?db else Inr ?db) = Inr db"
    by (cases "mUpdateSigners f") auto
  have "account_storeChange f s = Inr (?f, d, db)"
  proof -
    have "db_accounts (flushCachedEntry k db) = db_accounts db" for k db by (simp add: flushCachedEntry_def)
    then show ?thesis using val m r(1) d db by (cases "mUpdateSigners f") (simp_all add: account_storeUpdate_def Let_def)
  qed
  then show thesis using v modEntry_keeps [OF d] by (intro that [of m "(d, db)"]) simp_all
qed

section \<open>Charging a fee\<close>

text \<open>What the session has to be like for the next fee to be charged.\<close>

definition chargeable :: "ledger \<Rightarrow> session \<Rightarrow> bool" where
  "chargeable base s \<longleftrightarrow>
     sess_ok True base s \<and> counted (view s) \<and> balances_fit (view s) \<and> accounts_valid (view s)
     \<and> ledgerSeq (hdr s) \<noteq> 0 \<and> ledgerSeq (hdr s) \<le> INT32_MAX"

lemma processFeeSeqNum_succeeds:
  assumes ch: "chargeable base s" and at: "account_at (view s) (tx_source t) = Some a" and seq: "acc_seqNum a + 1 = tx_seq t"
    and lim: "uint (tx_seq t) \<le> INT64_MAX"
  obtains fee s' where "processFeeSeqNum t s = Inr (fee, s')" and "chargeable base s'"
    and "mPreviousHeaderValue (fst s') = mPreviousHeaderValue (fst s)"
proof -
  let ?i = "tx_source t" and ?fee = "uint (tx_fee (txf_tx t))"
  have sok: "sess_ok True base s" and cnt: "counted (view s)" and bf: "balances_fit (view s)" and val: "accounts_valid (view s)"
    and ls: "ledgerSeq (hdr s) \<noteq> 0" "ledgerSeq (hdr s) \<le> INT32_MAX" using ch by (simp_all add: chargeable_def)
  obtain g s1 where ld: "loadAccount ?i s = Inr (g, s1)" and p1: "mPreviousHeaderValue (fst s1) = mPreviousHeaderValue (fst s)"
    using loadAccount_succeeds [OF sok val] by metis
  note l = loadAccount_law [OF ld sok]
  obtain f where g: "g = Some f" using l(4) at by (cases g) (auto simp: account_at_def)
  have e: "view s (AccountKey ?i) = Some (account_entry f)" using l(4) g by simp
  have a: "a = af_account f" "acc_accountID (af_account f) = ?i" using at account_at_entry [of "view s", OF e] account_key_view [OF sok e] by simp_all
  have vf: "account_isValid f" using val e by (auto simp: accounts_valid_def)
  then have pos: "0 \<le> acc_balance a" by (simp add: account_isValid_def Let_def a)
  define b where "b = (if ?fee > 0 then acc_balance a - min (acc_balance a) ?fee else acc_balance a)"
  define s2 where "s2 = (if ?fee > 0 then upd_header (\<lambda>h. h\<lparr>feePool := feePool h + min (acc_balance a) ?fee\<rparr>) s1 else s1)"
  let ?f = "(set_balance b f)\<lparr>af_account := (af_account (set_balance b f))\<lparr>acc_seqNum := tx_seq t\<rparr>\<rparr>"
  have s2: "sess_ok True base s2" "view s2 = view s" "ledgerSeq (hdr s2) = ledgerSeq (hdr s)"
    "mPreviousHeaderValue (fst s2) = mPreviousHeaderValue (fst s)"
    using l(1-3) p1 by (simp_all add: s2_def) (simp_all add: upd_header_def)
  have vf': "account_isValid ?f"
    using vf lim pos by (auto simp: account_isValid_def Let_def set_balance_def b_def a)
  have at2: "account_at (view s2) (acc_accountID (af_account ?f)) = Some a" using at a(2) s2(2) by (simp add: set_balance_def)
  have sg: "acc_signers a = acc_signers (af_account ?f)" by (simp add: a(1) set_balance_def)
  obtain m s' where st: "account_storeChange ?f s2 = Inr (?f\<lparr>af_lastModified := m\<rparr>, s')" and vm: "account_isValid (?f\<lparr>af_lastModified := m\<rparr>)"
    and p': "mPreviousHeaderValue (fst s') = mPreviousHeaderValue (fst s2)"
    using storeChange_succeeds [OF s2(1) vf' _ _ at2 sg] ls unfolding s2(3) by metis
  have "acc_balance a \<le> INT64_MAX" using bf at by (auto simp: balances_fit_def)
  then have ab: "account_addBalance (- min (acc_balance a) ?fee) f = Inr (set_balance (acc_balance a - min (acc_balance a) ?fee) f, True)"
    if "?fee > 0" using pos that by (auto simp: account_addBalance_def addBalance_def a INT64_MAX_def set_balance_def)
  obtain fee where pf: "processFeeSeqNum t s = Inr (fee, s')"
  proof (cases "?fee > 0")
    case True
    then show ?thesis using ld g ab [OF True] seq st
      by (intro that [of "min (acc_balance a) ?fee"])
        (simp add: processFeeSeqNum_def Let_def a(1) b_def s2_def set_balance_def)
  next
    case False
    have "set_balance b f = f" using False by (simp add: b_def set_balance_def a)
    then show ?thesis using False ld g seq st
      by (intro that [of ?fee]) (simp add: processFeeSeqNum_def Let_def a(1) s2_def)
  qed
  have ft: "fee_taken True base t s fee s'" by (rule processFeeSeqNum_law [OF pf sok cnt bf])
  have w: "view s' = (view s2)(AccountKey (acc_accountID (af_account ?f)) \<mapsto> account_entry (?f\<lparr>af_lastModified := m\<rparr>))" "hdr s' = hdr s2"
    using account_change_totals(2,3) [OF st s2(1) _ at2] sg counted_current_fit [OF cnt, of f] e a(2)
    by (simp_all add: current_def signers_fit_def set_balance_def)
  have "accounts_valid (view s')"
    unfolding accounts_valid_def
  proof (intro allI impI)
    fix i h assume h: "view s' (AccountKey i) = Some (account_entry h)"
    show "account_isValid h"
    proof (cases "AccountKey i = AccountKey (acc_accountID (af_account ?f))")
      case True
      then have "account_entry h = account_entry (?f\<lparr>af_lastModified := m\<rparr>)" using h by (simp add: w(1))
      then show ?thesis using vm by (simp add: account_entry_def account_isValid_def)
    next
      case False
      then show ?thesis using h val s2(2) by (simp add: w(1) accounts_valid_def)
    qed
  qed
  then have "chargeable base s'" using ft w(2) s2(3) ls by (simp add: chargeable_def fee_taken_def kept_def)
  then show thesis using pf p' s2(4) by (intro that [of fee s']) simp_all
qed

section \<open>The fees of a list of transactions\<close>

text \<open>Every account is there, the sequence numbers of its transactions follow on its own, and it can pay.\<close>

definition ready :: "ledger \<Rightarrow> TransactionFrame list \<Rightarrow> bool" where
  "ready L txs \<longleftrightarrow>
     (\<forall>i. of_account i txs \<noteq> [] \<longrightarrow>
        (\<exists>a. account_at L i = Some a \<and> follows (acc_seqNum a) (of_account i txs)
           \<and> sum_list (map getFee (of_account i txs)) \<le> acc_balance a))"

lemma ready_head:
  assumes "ready L (t # txs)"
  obtains a where "account_at L (tx_source t) = Some a" and "acc_seqNum a + 1 = tx_seq t"
    and "follows (tx_seq t) (of_account (tx_source t) txs)"
    and "getFee t + sum_list (map getFee (of_account (tx_source t) txs)) \<le> acc_balance a"
  using assms by (force simp: ready_def)

lemma sum_getFee_nonneg: "0 \<le> sum_list (map getFee txs)"
  by (rule sum_list_nonneg) auto

lemma processFees_succeed:
  assumes "chargeable base s" and "ready (view s) txs" and "\<forall>t \<in> set txs. uint (tx_seq t) \<le> INT64_MAX"
  shows "\<exists>s'. processFeesSeqNums txs s = Inr (map getFee txs, s') \<and> chargeable base s'"
  using assms
proof (induction txs arbitrary: s)
  case (Cons t txs)
  obtain d0 db0 where s: "s = (d0, db0)" by fastforce
  let ?in = "(LedgerDelta_nested d0, db0)"
  from Cons.prems(1) have sok: "sess_ok True base (d0, db0)" and rest: "counted (view s)" "balances_fit (view s)" "accounts_valid (view s)"
    "ledgerSeq (hdr s) \<noteq> 0" "ledgerSeq (hdr s) \<le> INT32_MAX" by (simp_all add: chargeable_def s)
  have v: "view ?in = view s" "hdr ?in = hdr s" using nested_law(2) [OF sok] by (simp_all add: nested_counted s)
  then have chi: "chargeable (db_ledger db0) ?in" using nested_law(1) [OF sok] rest by (simp add: chargeable_def)
  obtain a where a: "account_at (view s) (tx_source t) = Some a" "acc_seqNum a + 1 = tx_seq t"
    "follows (tx_seq t) (of_account (tx_source t) txs)" "getFee t + sum_list (map getFee (of_account (tx_source t) txs)) \<le> acc_balance a"
    using ready_head [OF Cons.prems(2)] by metis
  have ai: "account_at (view ?in) (tx_source t) = Some a" and lim: "uint (tx_seq t) \<le> INT64_MAX"
    using a(1) v(1) Cons.prems(3) by simp_all
  obtain fee s1 where 1: "processFeeSeqNum t ?in = Inr (fee, s1)" "chargeable (db_ledger db0) s1"
    "mPreviousHeaderValue (fst s1) = mPreviousHeaderValue (fst ?in)"
    by (rule processFeeSeqNum_succeeds [OF chi ai a(2) lim])
  obtain u db where s1: "s1 = (u, db)" by fastforce
  have pf: "processFeeSeqNum t ?in = Inr (fee, u, db)" and chu: "chargeable (db_ledger db0) (u, db)"
    and p: "mPreviousHeaderValue u = mCurrentHeader d0"
    using 1 by (simp_all add: s1 LedgerDelta_nested_def LedgerDelta_new_def)
  have inner: "sess_ok True (db_ledger db0) (u, db)" using chu by (simp add: chargeable_def)
  obtain u' d where com: "commit_nested u d0 = Inr (u', d)" using commit_succeeds [OF sok inner p] .
  have "tracks True base d0 (db_ledger db0)" using sok by (simp add: sess_ok_tracks view_def)
  note c = commit_law [OF this inner com]
  have ch: "chargeable base (d, db)" using chu c by (simp add: chargeable_def view_def)
  have ft: "fee_taken True (db_ledger db0) t ?in fee (u, db)"
    by (rule processFeeSeqNum_law [OF pf]) (use chi in \<open>simp_all add: chargeable_def\<close>)
  have fee: "fee = getFee t"
    using ft a(1,4) v(1) sum_getFee_nonneg [of "of_account (tx_source t) txs"] uint_ge_0 [of "tx_fee (txf_tx t)"]
    by (auto simp: fee_taken_def getFee_def)
  have at: "account_at (view (d, db)) = (account_at (view s))(tx_source t \<mapsto> a\<lparr>acc_balance := acc_balance a - fee, acc_seqNum := tx_seq t\<rparr>)"
    using ft a(1) v(1) by (auto simp: fee_taken_def view_def)
  have "ready (view (d, db)) txs"
    unfolding ready_def
  proof (intro allI impI)
    fix i assume ne: "of_account i txs \<noteq> []"
    show "\<exists>a. account_at (view (d, db)) i = Some a \<and> follows (acc_seqNum a) (of_account i txs)
      \<and> sum_list (map getFee (of_account i txs)) \<le> acc_balance a"
    proof (cases "i = tx_source t")
      case True
      then show ?thesis using a(3,4) fee by (simp add: at)
    next
      case False
      then show ?thesis using ne Cons.prems(2) [unfolded ready_def, rule_format, of i] by (simp add: at)
    qed
  qed
  from Cons.IH [OF ch this] Cons.prems(3) obtain s' where "processFeesSeqNums txs (d, db) = Inr (map getFee txs, s')" "chargeable base s'" by auto
  then show ?case using pf com fee by (simp add: s)
qed simp

text \<open>C14: If a set of transactions is valid for the ledger that is about to be closed, taking the fees of its
  transactions in the order of application raises no exception and charges every transaction its fee
  in full: every account has the balance, and finds its sequence numbers in order.\<close>

theorem valid_set_pays:
  assumes "txset_checkValid cr th lclHash lcl lm ts (snd s) = Inr (True, db')"
    and "sess_ok True base s" and "counted (view s)" and "balances_fit (view s)" and "accounts_valid (view s)"
    and "0 < ledgerSeq (hdr s)" and "ledgerSeq (hdr s) \<le> 0x7FFFFFFF"
    and "\<forall>t \<in> set (ts_transactions ts). uint (tx_seqNum (txf_tx t)) \<le> INT64_MAX"
  shows "\<exists>s'. processFeesSeqNums (fst (sortForApply th ts)) s = Inr (map getFee (fst (sortForApply th ts)), s')"
proof -
  let ?L = "view s" and ?txs = "ts_transactions ts" and ?ord = "fst (sortForApply th ts)"
  have db: "holds ?L (snd s)" by (rule sess_holds [OF assms(2)])
  obtain W where vd: "verdict_of cr lm ?L W" using tx_checkValid_answers [OF assms(5)] unfolding verdict_of_def by metis
  have "check_accounts cr lm (accountTxMap ?txs) (snd s) = Inr (True, db')"
    using assms(1) by (auto simp: txset_checkValid_def split: if_splits)
  moreover have "\<forall>(i, txs) \<in> set (map (\<lambda>i. (i, account_txs ?txs i)) (tx_accounts ?txs)). \<forall>t \<in> set txs. tx_source t = i"
    using account_txs_facts(1) by auto
  note check_accounts_verdict [OF vd db this]
  ultimately have ok: "all_valid W 0 (account_txs ?txs i) \<and> payable lm ?L i (account_txs ?txs i) 0"
    if "i \<in> set (tx_accounts ?txs)" "account_txs ?txs i \<noteq> []" for i
    using that by (auto simp: accountTxMap_eq)
  have ord: "of_account i ?ord = account_txs ?txs i" for i using sortForApply_sorted [of i th ts] by (simp add: account_txs_def)
  have "ready ?L ?ord"
    unfolding ready_def ord
  proof (intro allI impI)
    fix i assume ne: "account_txs ?txs i \<noteq> []"
    have "of_account i ?txs \<noteq> []" using ne by (auto simp: account_txs_def)
    then have "i \<in> set (tx_accounts ?txs)" using tx_accounts_facts(2) [of i ?txs] by blast
    from ok [OF this ne] have av: "all_valid W 0 (account_txs ?txs i)" and pay: "payable lm ?L i (account_txs ?txs i) 0" by simp_all
    obtain a where a: "account_at ?L i = Some a" "follows (acc_seqNum a) (account_txs ?txs i)"
      using valid_follows [OF vd db assms(5) av account_txs_facts(2,1) ne] by metis
    have "0 \<le> getMinBalance lm (acc_numSubEntries a)" by (simp add: getMinBalance_def)
    then show "\<exists>a. account_at ?L i = Some a \<and> follows (acc_seqNum a) (account_txs ?txs i)
      \<and> sum_list (map getFee (account_txs ?txs i)) \<le> acc_balance a"
      using a pay by (auto simp: payable_def)
  qed
  moreover have "set ?ord = set ?txs" using sortForApply_perm mset_eq_setD by blast
  moreover have "chargeable base s" using assms(2-7) by (auto simp: chargeable_def)
  ultimately show ?thesis using processFees_succeed assms(8) by metis
qed

end
