(* ===== verification/Crossing_Termination.thy ===== *)
theory Crossing_Termination
  imports Crossing_Laws
begin

text \<open>
  The loop of \<open>convertWithOffers\<close> ends: a turn that neither returns nor finds the end of the book moves
  past five offers, each of which was skipped or deleted, so the part of the book that lies ahead
  shrinks by five.
\<close>

section \<open>No call but the loop uses fuel\<close>

definition fuelled :: "'a result \<Rightarrow> bool" where
  "fuelled r \<longleftrightarrow> r \<noteq> Inl OutOfFuel"

named_theorems fuel_intros \<open>the results that do not run out of fuel\<close>

lemma fuelled_simps [simp]: "fuelled (Inr x)" "fuelled (Inl e) \<longleftrightarrow> e \<noteq> OutOfFuel"
  by (simp_all add: fuelled_def)

lemma fuelled_bind [fuel_intros]:
  "fuelled m \<Longrightarrow> (\<And>x. m = Inr x \<Longrightarrow> fuelled (f x)) \<Longrightarrow> fuelled (bindE m f)"
  by (cases m) (auto simp: fuelled_def)

lemma fuelled_dbgAssert [fuel_intros]: "(P \<Longrightarrow> fuelled k) \<Longrightarrow> fuelled (dbgAssert P k)"
  by (cases P) auto

lemma fuelled_deref [fuel_intros]: "(\<And>x. p = Some x \<Longrightarrow> fuelled (k x)) \<Longrightarrow> fuelled (deref p k)"
  by (cases p) auto

lemma fuelled_if [fuel_intros]: "(P \<Longrightarrow> fuelled a) \<Longrightarrow> (\<not> P \<Longrightarrow> fuelled b) \<Longrightarrow> fuelled (if P then a else b)"
  by simp

lemma fuelled_option [fuel_intros]:
  "(p = None \<Longrightarrow> fuelled a) \<Longrightarrow> (\<And>x. p = Some x \<Longrightarrow> fuelled (b x)) \<Longrightarrow> fuelled (case p of None \<Rightarrow> a | Some x \<Rightarrow> b x)"
  by (cases p) auto

lemma fuelled_prod [fuel_intros]: "(\<And>x y. p = (x, y) \<Longrightarrow> fuelled (f x y)) \<Longrightarrow> fuelled (case p of (x, y) \<Rightarrow> f x y)"
  by (cases p) auto

lemma fuelled_delta [simp]:
  "fuelled (recordEntry e d)" "fuelled (addEntry e d)" "fuelled (modEntry e d)" "fuelled (deleteEntry k d)"
  by (auto simp: recordEntry_def addEntry_def modEntry_def deleteEntry_def delta_checkState_def Let_def
      intro!: fuel_intros)

lemma fuelled_touch [simp]: "fuelled (touch l d)"
  by (simp add: touch_def fuel_intros)

lemma fuelled_load [simp]:
  "fuelled (loadAccount_db i db)" "fuelled (loadTrustLine_db i a db)"
  by (auto simp: loadAccount_db_def loadTrustLine_db_def AccountFrame_entry_def TrustFrame_entry_def Let_def
      intro!: fuel_intros split: LedgerEntryData.splits)

lemma fuelled_loads [simp]: "fuelled (loadAccount i s)" "fuelled (loadTrustLine i a s)"
proof -
  have "fuelled (createIssuerFrame a)" by (cases a) (auto simp: createIssuerFrame_def)
  then show "fuelled (loadAccount i s)" "fuelled (loadTrustLine i a s)"
    by (auto simp: loadAccount_def loadTrustLine_def intro!: fuel_intros)
qed

lemma fuelled_signers: "fuelled (applySigners_loop ns ls rows c)"
  by (induction ns ls rows c rule: applySigners_loop.induct)
    (auto simp: signer_insert_def signer_delete_def signer_update_def intro!: fuel_intros)

lemma fuelled_stores [simp]:
  "fuelled (account_storeUpdate ins f s)" "fuelled (trust_store ins t s)" "fuelled (offer_store ins q s)"
  "fuelled (offer_storeDelete a i s)"
proof -
  have "fuelled (applySigners f ins db)" for f db
    by (auto simp: applySigners_def Let_def fuelled_signers intro!: fuel_intros split: prod.splits)
  then show "fuelled (account_storeUpdate ins f s)"
    by (auto simp: account_storeUpdate_def Let_def intro!: fuel_intros)
  show "fuelled (trust_store ins t s)" "fuelled (offer_store ins q s)" "fuelled (offer_storeDelete a i s)"
    by (auto simp: trust_store_def offer_store_def offer_storeDelete_def getKeyFields_def Let_def intro!: fuel_intros)
qed

lemma fuelled_amounts [simp]:
  "fuelled (addBalance b d m)" "fuelled (bigDivide_i64 old a b c r)" "fuelled (addNumEntries n lm f)"
  "fuelled (account_addBalance d f)" "fuelled (trust_addBalance d t)" "fuelled (canBuyAtMost as t0 p)"
  "fuelled (canSellAtMost lm f as t0)" "fuelled (exchangeV2 w p mw ms)" "fuelled (exchangeV3 w p mw ms)"
proof -
  have u: "fuelled (bigDivide_u64 a b c r)" for a b c r by (auto simp: bigDivide_u64_def Let_def)
  show b: "fuelled (addBalance b d m)" for b d m by (auto simp: addBalance_def intro!: fuel_intros)
  show i: "fuelled (bigDivide_i64 old a b c r)" for old a b c r
    by (auto simp: bigDivide_i64_def u intro!: fuel_intros)
  show "fuelled (addNumEntries n lm f)" by (auto simp: addNumEntries_def Let_def)
  show "fuelled (account_addBalance d f)" "fuelled (trust_addBalance d t)"
    by (auto simp: account_addBalance_def trust_addBalance_def b intro!: fuel_intros)
  show "fuelled (canBuyAtMost as t0 p)" "fuelled (canSellAtMost lm f as t0)"
    by (auto simp: canBuyAtMost_def canSellAtMost_def trust_getBalance_def Let_def i intro!: fuel_intros)
  show "fuelled (exchangeV2 w p mw ms)" "fuelled (exchangeV3 w p mw ms)"
    by (auto simp: exchangeV2_def exchangeV3_def bigDivide_def Let_def i intro!: fuel_intros)
qed

lemma fuelled_cross: "fuelled (crossOffer lm f mw ms s)"
proof -
  have t: "fuelled (takeOffer lm tk f rest a s)" for tk f rest a s
    by (auto simp: takeOffer_def intro!: fuel_intros)
  have b: "fuelled (adjustBalance a d f line s)" for a d f line s
    by (auto simp: adjustBalance_def intro!: fuel_intros)
  have "fuelled (settleOffer lm f n r a wl sl s)" for f n r a wl sl s
    by (auto simp: settleOffer_def Let_def t b intro!: fuel_intros)
  then show ?thesis
    unfolding crossOffer_def Let_def by (auto intro!: fuel_intros)
qed

lemma fuelled_convert_list: "fuelled (convert_list lm flt fs v s)"
proof (induction fs arbitrary: v s)
  case (Cons f fs)
  show ?case
  proof (cases "flt f")
    case eKeep
    then show ?thesis by (auto simp: fuelled_cross Let_def Cons.IH intro!: fuel_intros)
  qed (simp_all add: Cons.IH)
qed simp

lemma fuelled_book: "fuelled (loadBestOffers n k a b db)"
proof -
  have "fuelled (loadOffers rs)" for rs by (induction rs) (auto intro!: fuel_intros)
  then show ?thesis by (simp add: loadBestOffers_def)
qed

section \<open>The book shrinks\<close>

abbreviation offers :: "session \<Rightarrow> (uint64 \<times> (uint32 \<times> OfferEntry)) list" where
  "offers s \<equiv> db_offers (snd s)"

lemma getCachedEntry_offers: "getCachedEntry k db = Some (e, db') \<Longrightarrow> db_offers db' = db_offers db"
  by (auto simp: getCachedEntry_def)

lemma offers_loadAccount_db: "loadAccount_db i db = Inr (x, db') \<Longrightarrow> db_offers db' = db_offers db"
  by (cases "getCachedEntry (AccountKey i) db"; cases "map_of (db_accounts db) i")
    (auto simp: loadAccount_db_def Let_def result_simps putCachedEntry_def split: option.splits intro: getCachedEntry_offers)

lemma offers_loadTrustLine_db: "loadTrustLine_db i a db = Inr (x, db') \<Longrightarrow> db_offers db' = db_offers db"
  by (cases "getCachedEntry (TrustLineKey i a) db")
    (auto simp: loadTrustLine_db_def Let_def result_simps putCachedEntry_def getCachedEntry_def
      split: option.splits if_splits)

lemma offers_load:
  "loadAccount i s = Inr (x, s') \<Longrightarrow> offers s' = offers s"
  "loadTrustLine i a s = Inr (t, s') \<Longrightarrow> offers s' = offers s"
  by (auto simp: loadAccount_def loadTrustLine_def result_simps split: option.splits if_splits
      dest!: offers_loadAccount_db offers_loadTrustLine_db)

lemma offers_account: "account_storeUpdate ins f s = Inr (f', s') \<Longrightarrow> offers s' = offers s"
  by (auto simp: account_storeUpdate_def applySigners_def flushCachedEntry_def Let_def result_simps
      split: option.splits prod.splits if_splits)

lemma offers_trust: "trust_store ins f s = Inr (f', s') \<Longrightarrow> offers s' = offers s"
  by (auto simp: trust_store_def getKeyFields_def flushCachedEntry_def Let_def result_simps split: if_splits)

lemma offers_adjust: "adjustBalance a d f line s = Inr (ok, f', s') \<Longrightarrow> offers s' = offers s"
  by (auto simp: adjustBalance_def result_simps dest: offers_account offers_trust split: if_splits)

lemma offers_taken:
  "takeOffer lm True f rest a s = Inr (a', s') \<Longrightarrow> offers s' = map_erase (off_offerID (of_offer f)) (offers s)"
  by (auto simp: takeOffer_def offer_storeDelete_def result_simps dest: offers_account)

lemma settleOffer_taken:
  assumes "settleOffer lm f n er acc wl sl s = Inr (r, s')" and "cr_result r = eOfferTaken"
  shows "offers s' = map_erase (off_offerID (of_offer f)) (offers s)"
proof -
  define wh where "wh = (if exchangeResultType er = BOGUS then 0 else numWheatReceived er)"
  define sh where "sh = (if exchangeResultType er = BOGUS then 0 else numSheepSend er)"
  define taken where "taken = (exchangeResultType er = BOGUS \<or> n \<le> wh)"
  have nr: "exchangeResultType er \<noteq> REDUCED_TO_ZERO" using assms by (auto simp: settleOffer_def)
  obtain a1 s1 a2 s2 a3 where "taken" and tk: "takeOffer lm True f (n - wh) acc s = Inr (a1, s1)"
    and "adjustBalance (off_buying (of_offer f)) sh a1 sl s1 = Inr (True, a2, s2)"
    and "adjustBalance (off_selling (of_offer f)) (- wh) a2 wl s2 = Inr (True, a3, s')"
    using assms nr unfolding settleOffer_def Let_def wh_def [symmetric] sh_def [symmetric] taken_def [symmetric]
    by (cases taken) (auto simp: result_simps split: if_split_asm)
  then show ?thesis using offers_taken [OF tk] by (auto dest!: offers_adjust)
qed

lemma crossOffer_taken:
  assumes "crossOffer lm f mw ms s = Inr (r, s')" and "cr_result r = eOfferTaken"
  shows "offers s' = map_erase (off_offerID (of_offer f)) (offers s)"
proof -
  obtain d sa acc wl sb sl s1 n er where "loadAccount (off_sellerID (of_offer f)) (d, snd s) = Inr (Some acc, sa)"
    and "(if off_selling (of_offer f) \<noteq> Native then loadTrustLine (off_sellerID (of_offer f)) (off_selling (of_offer f)) sa else Inr (None, sa)) = Inr (wl, sb)"
    and "(if off_buying (of_offer f) \<noteq> Native then loadTrustLine (off_sellerID (of_offer f)) (off_buying (of_offer f)) sb else Inr (None, sb)) = Inr (sl, s1)"
    and st: "settleOffer lm f n er acc wl sl s1 = Inr (r, s')"
    using assms(1) by (auto simp: crossOffer_def Let_def result_simps split: option.splits)
  then have "offers s1 = offers s" by (auto dest!: offers_load split: if_splits)
  with settleOffer_taken [OF st assms(2)] show ?thesis by simp
qed

definition ahead :: "Asset \<Rightarrow> Asset \<Rightarrow> convert_state \<Rightarrow> session \<Rightarrow> int" where
  "ahead sheep wheat v s = int (length (book wheat sheep (snd s))) - int (cv_offset v)"

lemma length_book: "length (book wheat sheep db) =
    length (filter (\<lambda>p. off_selling (snd (snd p)) = wheat \<and> off_buying (snd (snd p)) = sheep) (db_offers db))"
  by (simp add: book_def filter_map comp_def)

lemma length_filter_erase:
  assumes "distinct (map fst m)" and "(k, x) \<in> set m" and "P (k, x)"
  shows "length (filter P (map_erase k m)) + 1 = length (filter P m)"
  using assms
proof (induction m)
  case (Cons p m)
  show ?case
  proof (cases "fst p = k")
    case True
    then have "map_erase k m = m" using Cons.prems(1) by (auto simp: map_erase_def filter_id_conv image_iff)
    moreover have "p = (k, x)" using True Cons.prems by (auto simp: image_iff)
    ultimately show ?thesis using Cons.prems(3) True by (simp add: map_erase_def)
  next
    case False
    then have "(k, x) \<in> set m" using Cons.prems(2) by auto
    with Cons False show ?thesis by (auto simp: map_erase_def)
  qed
qed simp

lemma book_erase:
  assumes "sess_ok tr base s" and "on_book sheep wheat [f] s" and "offers s' = map_erase (off_offerID (of_offer f)) (offers s)"
  shows "length (book wheat sheep (snd s')) + 1 = length (book wheat sheep (snd s))"
proof -
  have wf: "distinct (map fst (offers s))" using assms(1) by (simp add: sess_ok_def db_ok_def map_wf_distinct)
  obtain q where q: "map_of (offers s) (off_offerID (of_offer f)) = Some q" and f: "f = offer_of_row q"
    using assms(2) by (auto simp: on_book_def view_offer offer_entry_def offer_of_row_def split: option.splits if_splits)
  have "off_selling (snd q) = wheat" "off_buying (snd q) = sheep" using assms(2) by (auto simp: on_book_def f offer_of_row_def)
  then show ?thesis
    unfolding length_book assms(3) by (intro length_filter_erase [OF wf map_of_SomeD [OF q]]) simp
qed

lemma convert_list_ahead:
  assumes "convert_list lm flt fs v s = Inr (None, v', s')" and "sess_ok tr base s" and "counted (view s)"
    and "3 \<le> ledgerVersion lm" and "sheep \<noteq> wheat" and "on_book sheep wheat fs s"
  shows "ahead sheep wheat v' s' = ahead sheep wheat v s" and "sess_ok tr base s'" and "counted (view s')"
proof -
  have "ahead sheep wheat v' s' = ahead sheep wheat v s \<and> sess_ok tr base s' \<and> counted (view s')"
    using assms
  proof (induction fs arbitrary: v s)
    case (Cons f fs)
    show ?case
    proof (cases "flt f")
      case (eStop c)
      then show ?thesis using Cons.prems(1) by simp
    next
      case eSkip
      then show ?thesis using Cons.prems by (intro Cons.IH) (simp_all add: on_book_def)
    next
      case eKeep
      obtain x s1 where cr: "crossOffer lm f (cv_maxWheatReceive v) (cv_maxSheepSend v) s = Inr (x, s1)"
        using Cons.prems(1) eKeep by (auto simp: result_simps)
      let ?v = "v\<lparr>cv_trail := cv_trail v @ cr_trail x, cv_offset := cv_offset v - 1,
        cv_sheepSend := cv_sheepSend v + cr_sheep x, cv_maxSheepSend := cv_maxSheepSend v - cr_sheep x,
        cv_wheatReceived := cv_wheatReceived v + cr_wheat x, cv_maxWheatReceive := cv_maxWheatReceive v - cr_wheat x\<rparr>"
      have x: "cr_result x = eOfferTaken" "cv_offset v > 0" and cl: "convert_list lm flt fs ?v s1 = Inr (None, v', s')"
        using Cons.prems(1) eKeep cr by (cases "cr_result x"; auto simp: Let_def result_simps split: if_splits)+
      have f: "view s (OfferKey (off_sellerID (of_offer f)) (off_offerID (of_offer f))) = Some (offer_entry f)"
        "off_selling (of_offer f) \<noteq> off_buying (of_offer f)" "on_book sheep wheat [f] s"
        using Cons.prems(5,6) by (auto simp: on_book_def)
      have c: "crossing tr base f x s s1" by (rule crossOffer_law [OF cr Cons.prems(2,3,4) f(1,2)])
      have "view s1 (OfferKey (off_sellerID (of_offer g)) (off_offerID (of_offer g))) = view s (OfferKey (off_sellerID (of_offer g)) (off_offerID (of_offer g)))"
        if "g \<in> set fs" for g
      proof -
        have "off_offerID (of_offer f) \<notin> (\<lambda>f. off_offerID (of_offer f)) ` set fs"
          using Cons.prems(6) by (simp add: on_book_def)
        with that have "off_offerID (of_offer g) \<noteq> off_offerID (of_offer f)" by (metis imageI)
        then have "OfferKey (off_sellerID (of_offer g)) (off_offerID (of_offer g)) \<notin> cross_keys f" by (auto simp: cross_keys_def)
        with c show ?thesis by (simp add: crossing_def)
      qed
      then have "on_book sheep wheat fs s1" using Cons.prems(6) by (simp add: on_book_def)
      with c have "ahead sheep wheat v' s' = ahead sheep wheat ?v s1 \<and> sess_ok tr base s' \<and> counted (view s')"
        by (intro Cons.IH [OF cl _ _ Cons.prems(4,5)]) (simp_all add: crossing_def)
      moreover have "ahead sheep wheat ?v s1 = ahead sheep wheat v s"
        using book_erase [OF Cons.prems(2) f(3) crossOffer_taken [OF cr x(1)]] x(2) by (simp add: ahead_def of_nat_diff)
      ultimately show ?thesis by simp
    qed
  qed simp
  then show "ahead sheep wheat v' s' = ahead sheep wheat v s" "sess_ok tr base s'" "counted (view s')" by blast+
qed

lemma convert_loop_fuelled:
  assumes "ahead sheep wheat v s < int fuel" and "fuel > 0" and "sess_ok tr base s" and "counted (view s)"
    and "3 \<le> ledgerVersion lm" and "sheep \<noteq> wheat"
  shows "fuelled (convert_loop fuel lm flt sheep wheat v s)"
  using assms
proof (induction fuel arbitrary: v s)
  case (Suc fuel)
  have more: "fuelled (convert_loop fuel lm flt sheep wheat v1 s1)"
    if fs: "loadBestOffers 5 (cv_offset v) wheat sheep (snd s) = Inr fs" "\<not> length fs < 5"
      and cl: "convert_list lm flt fs (v\<lparr>cv_offset := cv_offset v + length fs\<rparr>) s = Inr (None, v1, s1)" for fs v1 s1
  proof -
    note a = convert_list_ahead [OF cl Suc.prems(3-6) loadBestOffers_on_book [OF fs(1) Suc.prems(3)]]
    have "fs = map offer_of_row (take 5 (drop (cv_offset v) (book wheat sheep (snd s))))"
      using loadOffers_Inr fs(1) by (auto simp: loadBestOffers_def)
    then have "length (book wheat sheep (snd s)) \<ge> cv_offset v + 5" "length fs = 5" using fs(2) by auto
    then have "ahead sheep wheat v1 s1 < int fuel" "fuel > 0"
      using a(1) Suc.prems(1) by (auto simp: ahead_def)
    then show ?thesis using a(2,3) Suc.prems(5,6) by (intro Suc.IH)
  qed
  show ?case
    using more by (auto simp: fuelled_book fuelled_convert_list intro!: fuel_intros)
qed simp

text \<open>C18: Converting through the book of offers ends: the loop never needs more turns than there are offers
  in the database, whatever offers the filter skips and however many are deleted on the way.\<close>
theorem convertWithOffers_terminates:
  assumes "sess_ok tr base s" and "counted (view s)" and "3 \<le> ledgerVersion lm" and "sheep \<noteq> wheat"
  shows "convertWithOffers lm sheep maxS wheat maxW flt s \<noteq> Inl OutOfFuel"
proof -
  let ?v = "\<lparr>cv_sheepSend = 0, cv_wheatReceived = 0, cv_maxSheepSend = maxS, cv_maxWheatReceive = maxW, cv_offset = 0, cv_trail = []\<rparr>"
  have "length (book wheat sheep (snd s)) \<le> length (offers s)" by (simp add: length_book)
  then have "ahead sheep wheat ?v s < int (Suc (length (offers s)))" by (simp add: ahead_def)
  from convert_loop_fuelled [OF this _ assms, of flt] show ?thesis
    by (simp add: convertWithOffers_def Let_def fuelled_def del: convert_loop.simps)
qed

end
