(* ===== verification/Ledger_Guarantees.thy ===== *)
theory Ledger_Guarantees
  imports Transaction_Laws Crossing_Termination
begin

text \<open>
  The properties of the ledger: what signatures, operations, transactions and the transactions of a
  ledger guarantee, with examples on a small ledger.
\<close>

section \<open>A small ledger\<close>

definition ex_closing :: LedgerHeader where
  "ex_closing =
     \<lparr>ledgerVersion = 9, previousLedgerHash = [], scpValue = \<lparr>sv_txSetHash = [], sv_closeTime = 1000, sv_upgrades = []\<rparr>,
      txSetResultHash = [], bucketListHash = [], ledgerSeq = 7, totalCoins = 20000, feePool = 0, inflationSeq = 0,
      idPool = 0, baseFee = 100, baseReserve = 100, maxTxSetSize = 100, skipList = []\<rparr>"

definition ex_account :: "AccountID \<Rightarrow> Signer list \<Rightarrow> AccountEntry" where
  "ex_account i ss =
     \<lparr>acc_accountID = i, acc_balance = 10000, acc_seqNum = 4, acc_numSubEntries = of_nat (length ss), acc_inflationDest = None,
      acc_flags = 0, acc_homeDomain = [], acc_thresholds = [1, 0, 0, 0], acc_signers = ss\<rparr>"

text \<open>Two accounts; the first has pre-authorised the transaction with hash 9.\<close>

definition ex_signer :: Signer where
  "ex_signer = \<lparr>signer_key = SIGNER_KEY_TYPE_PRE_AUTH_TX [9], signer_weight = 1\<rparr>"

definition ex_db :: Database where
  "ex_db =
     \<lparr>db_accounts = [([1], (3, ex_account [1] [ex_signer])), ([2], (3, ex_account [2] []))], db_trustlines = [],
      db_offers = [], db_data = [], db_cache = [], db_cacheSize = 4\<rparr>"

definition ex_session :: session where
  "ex_session = (LedgerDelta_new ex_closing True, ex_db)"

definition ex_crypto :: Crypto where
  "ex_crypto = \<lparr>sha256 = (\<lambda>x. x), verifySig = (\<lambda>k sig h. sig = k), toStrKey = (\<lambda>i. i)\<rparr>"

definition ex_tx :: TransactionFrame where
  "ex_tx =
     \<lparr>txf_tx = \<lparr>tx_sourceAccount = [1], tx_fee = 100, tx_seqNum = 5, tx_timeBounds = None,
        tx_operations = [\<lparr>op_sourceAccount = None,
          op_body = PAYMENT \<lparr>pay_destination_id = [2], pay_asset = Native, pay_amount = 500\<rparr>\<rparr>]\<rparr>,
      txf_signatures = [], txf_contentsHash = [9]\<rparr>"

lemma ex_db_ok: "db_ok ex_db" "cache_ok ex_db"
  by (auto simp: db_ok_def cache_ok_def ex_db_def ex_account_def ex_signer_def split: if_splits)

lemma ex_session_ok: "sess_ok tr (db_ledger ex_db) ex_session"
  using ex_db_ok by (simp add: ex_session_def sess_ok_def delta_ok_new delta_apply_new) (simp add: LedgerDelta_new_def)

lemma ex_entries:
  "db_ledger ex_db k \<noteq> None \<Longrightarrow> is_account_key k"
  "account_at (db_ledger ex_db) i =
     (if i = [1] then Some (ex_account [1] [ex_signer]) else if i = [2] then Some (ex_account [2] []) else None)"
  by (cases k) (auto simp: db_ledger_def ex_db_def ex_account_def account_at_def account_entry_def account_of_row_def
      account_normalize_def loadSigners_def ex_signer_def)

lemma ex_counted: "counted (view ex_session)"
proof -
  have "owned (db_ledger ex_db) i = {}" for i using ex_entries(1) by (auto simp: owned_def)
  then show ?thesis by (simp add: counted_def surplus_def view_def ex_session_def ex_entries(2) ex_account_def)
qed

lemma ex_fits: "balances_fit (view ex_session)"
  by (simp add: balances_fit_def view_def ex_session_def ex_entries(2) ex_account_def INT64_MAX_def)

lemma ex_version: "8 \<le> ledgerVersion ex_closing"
  by (simp add: ex_closing_def)

lemma result_obtain: "\<not> isl r \<Longrightarrow> \<exists>x. r = Inr x"
  by (cases r) simp_all

section \<open>Operations\<close>

text \<open>C15: An operation that is valid and is applied to a coherent session leaves one: the tables are
  well-formed, the cache holds what the tables hold and every account counts its sub-entries. If it
  succeeds, the delta accounts for every entry of the tables, and the sum of the native balances and the
  fee pool against the total of coins is what it was.\<close>

theorem operations_keep_ledger:
  assumes "doApply cr lm i source body s = Inr (r, s')" and "doCheckValid lm i body = None"
    and "sess_ok tr base s" and "counted (view s)" and "current (view s) source"
    and "acc_accountID (af_account source) = i" and "8 \<le> ledgerVersion lm"
  shows "db_ok (snd s') \<and> cache_ok (snd s') \<and> counted (view s')
    \<and> (tr_succeeded r \<longrightarrow> lumens s' = lumens s \<and> (tr \<longrightarrow> delta_apply (fst s') base = view s'))"
  using doApply_law [OF assms] by (auto simp: op_done_def sess_ok_def view_def)

definition ex_source :: AccountFrame where
  "ex_source = \<lparr>af_lastModified = 3, af_account = ex_account [1] [ex_signer], mUpdateSigners = False\<rparr>"

definition ex_create :: OperationBody where
  "ex_create = CREATE_ACCOUNT \<lparr>ca_destination = [3], ca_startingBalance = 300\<rparr>"

theorem operations_keep_ledger_witness:
  "\<exists>s'. doApply ex_crypto ex_closing [1] ex_source ex_create ex_session = Inr (createAccountResult CREATE_ACCOUNT_SUCCESS, s')
     \<and> db_ok (snd s') \<and> counted (view s') \<and> lumens s' = lumens ex_session
     \<and> delta_apply (fst s') (db_ledger ex_db) = view s'"
proof -
  let ?r = "doApply ex_crypto ex_closing [1] ex_source ex_create ex_session"
  have "map_sum id fst ?r = Inr (createAccountResult CREATE_ACCOUNT_SUCCESS)" by code_simp
  then obtain s' where r: "?r = Inr (createAccountResult CREATE_ACCOUNT_SUCCESS, s')" by (cases ?r) auto
  have "doCheckValid ex_closing [1] ex_create = None" by code_simp
  moreover have "current (view ex_session) ex_source" "acc_accountID (af_account ex_source) = [1]"
    by (simp_all add: current_def view_def ex_session_def ex_source_def ex_account_def ex_entries(2))
  ultimately show ?thesis
    using operations_keep_ledger [OF r _ ex_session_ok [of True] ex_counted _ _ ex_version] r by (intro exI [of _ s']) simp
qed

section \<open>Transactions\<close>

text \<open>C11: A transaction takes effect as a whole or not at all. Whatever its result, the session stays
  coherent and the amount of the native asset is what it was; if it did not succeed, every entry and the
  header are as before, and a delta made for it reports no change.\<close>

theorem transaction_atomic:
  assumes "tx_apply cr lm txf s = Inr ((code, ms), s')" and "sess_ok True base s" and "counted (view s)"
    and "8 \<le> ledgerVersion lm"
  shows "sess_ok True base s' \<and> counted (view s') \<and> lumens s' = lumens s
    \<and> (\<not> tx_succeeded code \<longrightarrow>
         view s' = view s \<and> hdr s' = hdr s \<and> (touched (fst s) = {} \<longrightarrow> getChanges (fst s') = []))"
  using tx_apply_law [OF assms] by (auto simp: tx_done_def touched_changes)

theorem transaction_atomic_witness:
  "\<exists>ms s' s''. tx_apply ex_crypto ex_closing ex_tx ex_session = Inr ((txSUCCESS [opINNER (paymentResult PAYMENT_SUCCESS)], ms), s')
     \<and> lumens s' = lumens ex_session \<and> counted (view s')
     \<and> tx_apply ex_crypto ex_closing (ex_tx\<lparr>txf_contentsHash := [8]\<rparr>) ex_session = Inr ((txBAD_AUTH, []), s'')
     \<and> view s'' = view ex_session"
proof -
  let ?r = "tx_apply ex_crypto ex_closing ex_tx ex_session"
    and ?r' = "tx_apply ex_crypto ex_closing (ex_tx\<lparr>txf_contentsHash := [8]\<rparr>) ex_session"
  have "map_sum id (fst \<circ> fst) ?r = Inr (txSUCCESS [opINNER (paymentResult PAYMENT_SUCCESS)])" by code_simp
  then obtain ms s' where r: "?r = Inr ((txSUCCESS [opINNER (paymentResult PAYMENT_SUCCESS)], ms), s')" by (cases ?r) auto
  have "map_sum id fst ?r' = Inr (txBAD_AUTH, [])" by code_simp
  then obtain s'' where r': "?r' = Inr ((txBAD_AUTH, []), s'')" by (cases ?r') auto
  show ?thesis
    using transaction_atomic [OF r ex_session_ok ex_counted ex_version]
      transaction_atomic [OF r' ex_session_ok ex_counted ex_version] r r'
    by (intro exI [of _ ms] exI [of _ s'] exI [of _ s'']) simp
qed

section \<open>The transactions of a ledger\<close>

text \<open>C12: Taking the fees of a list of transactions and applying them leaves the sum of the native
  balances and the fee pool against the total of coins as it was, the count of the sub-entries of every
  account right, and the delta in step with the tables; the fee pool has grown by the fees that were
  charged before the transactions are applied. A transaction that raises an exception gets a result like
  the others and the ledger goes on: no exception leaves \<open>applyTransactions\<close>, whatever the exceptions
  leave in the cache.\<close>

theorem ledger_conserves_lumens:
  assumes "processFeesSeqNums txs s = Inr (fees, s1)"
    and "sess_ok True base s" and "counted (view s)" and "balances_fit (view s)" and "8 \<le> ledgerVersion lm"
  shows "feePool (hdr s1) = feePool (hdr s) + sum_list fees \<and>
    (case applyTransactions cr lm items txs s1 of
       Inl e \<Rightarrow> \<forall>m. e \<noteq> RuntimeError m
     | Inr (codes, s') \<Rightarrow>
         native (view s') + feePool (hdr s') - totalCoins (hdr s') = native (view s) + feePool (hdr s) - totalCoins (hdr s)
         \<and> counted (view s') \<and> delta_apply (fst s') base = view s' \<and> length codes = length txs)"
proof -
  note f = processFeesSeqNums_law [OF assms(1-4)]
  then have "sess_ok True base s1" "counted (view s1)" by (simp_all add: kept_def)
  note a = applyTransactions_law [OF this assms(5), where cr = cr and items = items and txs = txs]
  have "delta_apply (fst s') base = view s'" if "kept True base s1 s'" for s'
    using that by (auto simp: kept_def sess_ok_def view_def)
  then show ?thesis
    using f a by (cases "applyTransactions cr lm items txs s1") (auto simp: kept_def lumens_def split: prod.splits)
qed

text \<open>A transaction that raises an exception, and one that succeeds after it.\<close>

definition ex_trust :: ChangeTrustOp where
  "ex_trust = \<lparr>ct_line = Native, ct_limit = 10\<rparr>"

definition ex_raising :: TransactionFrame where
  "ex_raising = ex_tx\<lparr>txf_tx := (txf_tx ex_tx)\<lparr>tx_operations := [\<lparr>op_sourceAccount = None, op_body = CHANGE_TRUST ex_trust\<rparr>]\<rparr>\<rparr>"

definition ex_second :: TransactionFrame where
  "ex_second = ex_tx\<lparr>txf_tx := (txf_tx ex_tx)\<lparr>tx_seqNum := 6\<rparr>\<rparr>"

theorem ledger_conserves_lumens_witness:
  "\<exists>s1 s'. processFeesSeqNums [ex_raising, ex_second] ex_session = Inr ([100, 100], s1)
     \<and> applyTransactions ex_crypto ex_closing (\<lambda>_ _. []) [ex_raising, ex_second] s1
         = Inr ([txINTERNAL_ERROR, txSUCCESS [opINNER (paymentResult PAYMENT_SUCCESS)]], s')
     \<and> counted (view s') \<and> feePool (hdr s1) = 200"
proof -
  let ?txs = "[ex_raising, ex_second]" and ?a = "applyTransactions ex_crypto ex_closing (\<lambda>_ _. [])"
  let ?r = "processFeesSeqNums ?txs ex_session" and ?codes = "[txINTERNAL_ERROR, txSUCCESS [opINNER (paymentResult PAYMENT_SUCCESS)]]"
  let ?r' = "bindE ?r (\<lambda>(_, s). ?a ?txs s)"
  have "map_sum id fst ?r = Inr [100, 100]" by code_simp
  then obtain s1 where r: "?r = Inr ([100, 100], s1)" by (cases ?r) auto
  have "map_sum id fst ?r' = Inr ?codes" by code_simp
  then obtain s' where r': "?a ?txs s1 = Inr (?codes, s')" unfolding r by (cases "?a ?txs s1") auto
  have "feePool (hdr ex_session) = 0" by (simp add: ex_session_def hdr_def ex_closing_def LedgerDelta_new_def)
  then show ?thesis
    using ledger_conserves_lumens [OF r ex_session_ok ex_counted ex_fits ex_version, where cr = ex_crypto and items = "\<lambda>_ _. []"] r r'
    by (intro exI [of _ s1] exI [of _ s']) simp
qed

section \<open>Signatures\<close>

text \<open>C16: If the keys of the signers are different and no signature verifies for two of their Ed25519 keys, the
  check of the signatures of an account succeeds exactly if some signer has signed and the weights of
  those who have signed, each counted once, add up to what is needed. A threshold of zero still takes one
  signature.\<close>

theorem signatures_suffice:
  assumes "sc_protocolVersion sc \<noteq> 7" and "distinct (map signer_key signers)"
    and "\<And>sig k k'. sig \<in> set (sc_signatures sc) \<Longrightarrow>
      {SIGNER_KEY_TYPE_ED25519 k, SIGNER_KEY_TYPE_ED25519 k'} \<subseteq> signer_key ` set signers \<Longrightarrow>
      verifySig cr k (sig_signature sig) (sc_contentsHash sc) \<Longrightarrow>
      verifySig cr k' (sig_signature sig) (sc_contentsHash sc) \<Longrightarrow> k = k'"
  defines "M \<equiv> {s \<in> set signers. signed cr (sc_contentsHash sc) (sc_signatures sc) (signer_key s)}"
  shows "fst (sc_checkSignature cr i signers needed sc) \<longleftrightarrow> M \<noteq> {} \<and> needed \<le> sum sweight M"
  unfolding M_def
proof (rule checkSignature_weighs [OF assms(1)])
  have inj: "s = t" if "s \<in> set signers" "t \<in> set signers" "signer_key s = signer_key t" for s t
    using assms(2) that by (auto simp: distinct_map dest: inj_onD)
  have signer_keys: "SIGNER_KEY_TYPE_ED25519 (ed25519 (signer_key s)) \<in> signer_key ` set signers"
    if "s \<in> set (signers_of KEY_ED25519 signers)" for s
    using that by (cases "signer_key s") (auto simp: signers_of_def image_iff intro!: bexI [of _ s])
  show "distinct signers" using assms(2) by (simp add: distinct_map)
  show "s = t" if "s \<in> set (signers_of KEY_HASH_X signers)" "t \<in> set (signers_of KEY_HASH_X signers)"
    "verifyHashX cr sig (signer_key s)" "verifyHashX cr sig (signer_key t)" for sig s t
    by (rule inj) (use that in \<open>cases "signer_key s"; cases "signer_key t"; simp add: signers_of_def verifyHashX_def\<close>)+
  show "s = t" if "sig \<in> set (sc_signatures sc)" "s \<in> set (signers_of KEY_ED25519 signers)" "t \<in> set (signers_of KEY_ED25519 signers)"
    "verify cr sig (signer_key s) (sc_contentsHash sc)" "verify cr sig (signer_key t) (sc_contentsHash sc)" for sig s t
  proof (rule inj)
    have "ed25519 (signer_key s) = ed25519 (signer_key t)"
      by (rule assms(3) [OF that(1)]) (use that(2-5) in \<open>simp_all add: verify_def signer_keys\<close>)
    then show "signer_key s = signer_key t"
      using that(2,3) by (cases "signer_key s"; cases "signer_key t") (simp_all add: signers_of_def)
  qed (use that in \<open>simp_all add: signers_of_def\<close>)
qed

definition ex_checker :: SignatureChecker where
  "ex_checker = SignatureChecker_new 9 [9] [\<lparr>sig_hint = [1], sig_signature = [1]\<rparr>]"

definition ex_signers :: "Signer list" where
  "ex_signers = [\<lparr>signer_key = SIGNER_KEY_TYPE_ED25519 [1], signer_weight = 2\<rparr>, ex_signer,
     \<lparr>signer_key = SIGNER_KEY_TYPE_ED25519 [2], signer_weight = 5\<rparr>]"

theorem signatures_suffice_witness:
  "fst (sc_checkSignature ex_crypto [1] ex_signers 3 ex_checker)
     \<and> \<not> fst (sc_checkSignature ex_crypto [1] ex_signers 4 ex_checker)"
proof -
  have M: "{s \<in> set ex_signers. signed ex_crypto (sc_contentsHash ex_checker) (sc_signatures ex_checker) (signer_key s)}
    = {\<lparr>signer_key = SIGNER_KEY_TYPE_ED25519 [1], signer_weight = 2\<rparr>, ex_signer}"
    by (auto simp: ex_signers_def ex_signer_def ex_checker_def SignatureChecker_new_def ex_crypto_def verify_def doesHintMatch_def)
  have "fst (sc_checkSignature ex_crypto [1] ex_signers n ex_checker) \<longleftrightarrow> n \<le> 3" for n
    using signatures_suffice [of ex_checker ex_signers ex_crypto "[1]" n] unfolding M
    by (simp add: ex_checker_def SignatureChecker_new_def ex_signers_def ex_signer_def ex_crypto_def sweight_def)
  then show ?thesis by simp
qed

text \<open>The checker remembers the keys it has used.\<close>

definition used_key :: "AccountID \<Rightarrow> SignerKey \<Rightarrow> SignatureChecker \<Rightarrow> bool" where
  "used_key i k sc \<longleftrightarrow> (\<exists>ks. map_of (sc_usedOneTimeSignerKeys sc) i = Some ks \<and> k \<in> set ks)"

lemma used_key_keys:
  "used_key i k sc \<Longrightarrow> used_key i k (mark_keys j ks sc)" "k \<in> set ks \<Longrightarrow> used_key i k (mark_keys i ks sc)"
  "used_key i k (mark_used us sc) = used_key i k sc"
  by (auto simp: used_key_def mark_keys_def mark_used_def set_fold_insort)

lemma checkSignature_marks:
  assumes "sc_checkSignature cr j ss needed sc = (r, sc')"
  obtains "sc' = sc" "sc_protocolVersion sc = 7"
  | ks us us' r1 w1 where "check_preAuth (sc_contentsHash sc) needed (signers_of KEY_PRE_AUTH_TX ss) 0 [] = (r1, w1, ks)"
    "sc' = mark_keys j ks sc \<or> sc' = mark_used us (mark_keys j ks sc) \<or> sc' = mark_used us' (mark_used us (mark_keys j ks sc))"
  using assms by (auto simp: sc_checkSignature_def Let_def split: if_splits prod.splits)

lemma used_key_check: "sc_checkSignature cr j ss needed sc = (r, sc') \<Longrightarrow> used_key i k sc \<Longrightarrow> used_key i k sc'"
  by (erule checkSignature_marks) (auto simp: used_key_keys)

lemma check_preAuth_finds:
  assumes "check_preAuth h needed ss wt keys = (r, wt', keys')" and "\<forall>s \<in> set ss. signer_type (signer_key s) = KEY_PRE_AUTH_TX"
    and "SIGNER_KEY_TYPE_PRE_AUTH_TX h \<in> signer_key ` set ss \<union> set keys"
  shows "SIGNER_KEY_TYPE_PRE_AUTH_TX h \<in> set keys'"
  using assms
proof (induction ss arbitrary: wt keys)
  case (Cons s ss)
  obtain x where x: "signer_key s = SIGNER_KEY_TYPE_PRE_AUTH_TX x"
    using Cons.prems(2) by (cases "signer_key s") auto
  have "SIGNER_KEY_TYPE_PRE_AUTH_TX h \<in> set (insort_insert (signer_key s) keys)" if "x = h"
    using that x by (simp add: set_insort_insert_key)
  then show ?case using Cons x by (auto simp: Let_def split: if_splits)
qed simp

lemma checkSignature_uses:
  assumes "sc_checkSignature cr i ss needed sc = (r, sc')" and "sc_protocolVersion sc \<noteq> 7"
    and "SIGNER_KEY_TYPE_PRE_AUTH_TX (sc_contentsHash sc) \<in> signer_key ` set ss"
  shows "used_key i (SIGNER_KEY_TYPE_PRE_AUTH_TX (sc_contentsHash sc)) sc'"
proof -
  let ?k = "SIGNER_KEY_TYPE_PRE_AUTH_TX (sc_contentsHash sc)"
  obtain s where "s \<in> set ss" "signer_key s = ?k" using assms(3) by (metis imageE)
  then have "s \<in> set (signers_of KEY_PRE_AUTH_TX ss)" by (simp add: signers_of_def)
  then have "?k \<in> signer_key ` set (signers_of KEY_PRE_AUTH_TX ss)" using \<open>signer_key s = ?k\<close> by (metis imageI)
  then have "?k \<in> set ks" if "check_preAuth (sc_contentsHash sc) needed (signers_of KEY_PRE_AUTH_TX ss) 0 [] = (r1, w1, ks)" for r1 w1 ks
    by (intro check_preAuth_finds [OF that]) (auto simp: signers_of_def)
  with assms(1,2) show ?thesis by (elim checkSignature_marks) (auto simp: used_key_keys)
qed

lemma commonValid_uses:
  assumes cv: "commonValid cr lm txf cur sc (Some d, db) = Inr (None, sc', st)" and sok: "sess_ok tr base (d, db)"
    and v7: "sc_protocolVersion sc \<noteq> 7" and at: "account_at (db_ledger db) (tx_sourceAccount (txf_tx txf)) = Some a"
    and k: "SIGNER_KEY_TYPE_PRE_AUTH_TX (sc_contentsHash sc) \<in> signer_key ` set (acc_signers a)"
  shows "used_key (tx_sourceAccount (txf_tx txf)) (SIGNER_KEY_TYPE_PRE_AUTH_TX (sc_contentsHash sc)) sc'"
proof -
  let ?i = "tx_sourceAccount (txf_tx txf)"
  obtain f st1 where ld: "tx_loadAccount ?i (Some d, db) = Inr (Some f, st1)"
    and sg: "tx_checkSignature cr f (getLowThreshold f) sc = (True, sc')"
    using commonValid_passes [OF cv] by blast
  have "map_option account_entry (Some f) = view (d, db) (AccountKey ?i)"
    using tx_loadAccount_law [OF ld sok] by (metis view_def snd_conv)
  note c = loaded_current [OF sok this refl]
  have "af_account f = a" using c at by (simp add: current_def view_def)
  with sg k c(2) show ?thesis by (auto simp: tx_checkSignature_def Let_def intro: checkSignature_uses [OF _ v7])
qed

lemma op_checkValid_keeps_used:
  assumes "op_checkValid cr lm tx op sc st = Inr (x, sc', st')" and "used_key i k sc"
  shows "used_key i k sc'"
proof -
  obtain f st1 where ld: "tx_loadAccount (getSourceID tx op) st = Inr (f, st1)"
    using assms(1) by (auto simp: op_checkValid_def Let_def result_simps)
  let ?f = "case f of Some f \<Rightarrow> f | None \<Rightarrow> makeAuthOnlyAccount (the (op_sourceAccount op))"
  obtain ok sc1 where c: "tx_checkSignature cr ?f (getNeededThreshold ?f (getThresholdLevel (op_body op))) sc = (ok, sc1)" by fastforce
  have "sc' = sc \<or> sc' = sc1"
    using assms(1) ld c by (auto simp: op_checkValid_def Let_def result_simps split: if_splits option.splits)
  moreover have "used_key i k sc1" using used_key_check [OF _ assms(2)] c by (auto simp: tx_checkSignature_def Let_def)
  ultimately show ?thesis using assms(2) by auto
qed

lemma apply_ops_keeps_used:
  "apply_ops cr lm txf ops sc s = Inr ((err, rs, ms), sc', s') \<Longrightarrow> used_key i k sc \<Longrightarrow> used_key i k sc'"
proof (induction ops arbitrary: sc s err rs ms)
  case (Cons op ops)
  obtain ok r sc1 t db d err1 rs1 ms1 where op: "op_apply cr lm txf op sc (LedgerDelta_nested (fst s), snd s) = Inr ((ok, r), sc1, t, db)"
    and rec: "apply_ops cr lm txf ops sc1 (d, db) = Inr ((err1, rs1, ms1), sc', s')"
    using Cons.prems(1) by (simp add: result_simps split_beta prod_eq_iff) metis
  from op_apply_checks [OF op] obtain x st where "op_checkValid cr lm txf op sc (Some (LedgerDelta_nested (fst s)), snd s) = Inr (x, sc1, st)"
    by auto
  from op_checkValid_keeps_used [OF this Cons.prems(2)] Cons.IH [OF rec] show ?case by simp
qed simp

text \<open>C17: A transaction that is pre-authorised by a signer of its source account and succeeds takes that
  signer off the account: the same transaction cannot be authorised by it a second time.\<close>

theorem one_time_signers_removed:
  assumes app: "tx_apply cr lm txf s = Inr ((txSUCCESS rs, ms), s')" and sok: "sess_ok True base s" and cnt: "counted (view s)"
    and ver: "8 \<le> ledgerVersion lm" and at: "account_at (view s) (tx_sourceAccount (txf_tx txf)) = Some a"
    and k: "SIGNER_KEY_TYPE_PRE_AUTH_TX (txf_contentsHash txf) \<in> signer_key ` set (acc_signers a)"
  shows "lacks_key (SIGNER_KEY_TYPE_PRE_AUTH_TX (txf_contentsHash txf)) (tx_sourceAccount (txf_tx txf)) (view s')"
proof -
  let ?sc = "SignatureChecker_new (ledgerVersion lm) (txf_contentsHash txf) (txf_signatures txf)"
    and ?i = "tx_sourceAccount (txf_tx txf)" and ?k = "SIGNER_KEY_TYPE_PRE_AUTH_TX (txf_contentsHash txf)"
  obtain sc st where cv: "commonValid cr lm txf 0 ?sc (Some (fst s), snd s) = Inr (None, sc, st)"
    using app commonValid_fails by (fastforce simp: tx_apply_def Let_def result_simps deref_def split: option.splits)
  have s: "sess_ok True base (fst s, snd s)" using sok by simp
  from commonValid_law [OF cv this] obtain d db where st: "st = (Some d, db)" and s1: "sess_ok True base (d, db)"
    "db_ledger db = view s" "mCurrentHeader d = hdr s" "touched d = touched (fst s)" by (auto simp: view_def hdr_def)
  obtain sc1 t db1 where ops: "apply_ops cr lm txf (tx_operations (txf_tx txf)) sc (LedgerDelta_nested d, db) = Inr ((False, rs, ms), sc1, t, db1)"
    and rm: "\<exists>t2. removeUsedOneTimeSignerKeys lm (sc_usedOneTimeSignerKeys sc1) (t, db1) = Inr (t2, snd s')"
    using app cv st by (auto simp: tx_apply_def Let_def result_simps split: if_splits)
  have h: "sc_contentsHash ?sc = txf_contentsHash txf" "sc_protocolVersion ?sc \<noteq> 7" "one_time_ok ?sc"
    using ver by (auto simp: one_time_ok_def SignatureChecker_new_def)
  have "used_key ?i ?k sc"
    using commonValid_uses [OF cv s h(2)] at k by (simp add: h(1) view_def)
  from apply_ops_keeps_used [OF ops this] obtain ks where ks: "(?i, ks) \<in> set (sc_usedOneTimeSignerKeys sc1)" "ks \<noteq> []"
    unfolding used_key_def using map_of_SomeD by fastforce
  have one: "one_time_ok sc" "sc_contentsHash sc = txf_contentsHash txf" using commonValid_one_time [OF cv h(3)] h(1) by simp_all
  have "one_time_ok sc1" "sc_contentsHash sc1 = txf_contentsHash txf" using apply_ops_one_time [OF ops one(1)] one(2) by simp_all
  then have ot: "\<forall>(i, ks) \<in> set (sc_usedOneTimeSignerKeys sc1). set ks \<subseteq> {?k}" unfolding one_time_ok_def by metis
  have "counted (view (LedgerDelta_nested d, db))" using cnt s1(2) by (simp add: view_def)
  note o = apply_ops_law [OF ops nested_law(1) [OF s1(1)] this ver]
  then have inner: "sess_ok True (db_ledger db) (t, db1)" "counted (view (t, db1))" by (simp_all add: op_done_def)
  obtain t2 where "removeUsedOneTimeSignerKeys lm (sc_usedOneTimeSignerKeys sc1) (t, db1) = Inr (t2, snd s')" using rm by blast
  from removeUsedOneTime_law(2) [OF this inner ot ks] show ?thesis by (simp add: view_def)
qed

theorem one_time_signers_removed_witness:
  "\<exists>ms s'. tx_apply ex_crypto ex_closing ex_tx ex_session = Inr ((txSUCCESS [opINNER (paymentResult PAYMENT_SUCCESS)], ms), s')
     \<and> lacks_key (SIGNER_KEY_TYPE_PRE_AUTH_TX [9]) [1] (view s')"
proof -
  let ?r = "tx_apply ex_crypto ex_closing ex_tx ex_session"
  have "map_sum id (fst \<circ> fst) ?r = Inr (txSUCCESS [opINNER (paymentResult PAYMENT_SUCCESS)])" by code_simp
  then obtain ms s' where r: "?r = Inr ((txSUCCESS [opINNER (paymentResult PAYMENT_SUCCESS)], ms), s')" by (cases ?r) auto
  have "account_at (view ex_session) (tx_sourceAccount (txf_tx ex_tx)) = Some (ex_account [1] [ex_signer])"
    "SIGNER_KEY_TYPE_PRE_AUTH_TX (txf_contentsHash ex_tx) \<in> signer_key ` set (acc_signers (ex_account [1] [ex_signer]))"
    by (simp_all add: view_def ex_session_def ex_entries(2) ex_tx_def ex_account_def ex_signer_def)
  from one_time_signers_removed [OF r ex_session_ok ex_counted ex_version this] r show ?thesis
    by (intro exI [of _ ms] exI [of _ s']) (simp add: ex_tx_def)
qed

section \<open>Boundaries\<close>

text \<open>C39: The reserve an account has to hold is a product of 32-bit integers: it is the product of the
  base reserve and the number of entries and two exactly as long as this is less than the 32nd power of
  two, and less than it otherwise.\<close>

theorem getMinBalance_wraps:
  "getMinBalance lm n = (2 + uint n) * uint (baseReserve lm) mod 2 ^ 32
     \<and> (getMinBalance lm n = (2 + uint n) * uint (baseReserve lm) \<longleftrightarrow> (2 + uint n) * uint (baseReserve lm) < 2 ^ 32)
     \<and> getMinBalance lm n \<le> (2 + uint n) * uint (baseReserve lm)"
proof -
  have e: "getMinBalance lm n = (2 + uint n) * uint (baseReserve lm) mod 2 ^ 32"
    by (simp add: getMinBalance_def uint_word_arith_bintrs take_bit_eq_mod mod_simps)
  moreover have "p mod 2 ^ 32 = p \<longleftrightarrow> p < 2 ^ 32" "p mod 2 ^ 32 \<le> p" if "0 \<le> p" for p :: int
    using that pos_mod_bound [of "2 ^ 32" p] by (auto simp: mod_pos_pos_trivial intro: zmod_le_nonneg_dividend)
  moreover have "0 \<le> (2 + uint n) * uint (baseReserve lm)" by simp
  ultimately show ?thesis by simp
qed

text \<open>C40: Trust in the native asset passes the check of the operation, and applying it raises an
  exception, in every state of the ledger, instead of giving a result.\<close>

theorem change_trust_native:
  assumes "ct_line op = Native" and "0 \<le> ct_limit op"
  shows "doCheckValid lm i (CHANGE_TRUST op) = None
    \<and> doApply cr lm i source (CHANGE_TRUST op) s = Inl (RuntimeError ''XLM TrustLine?'')"
  using assms by (simp add: ChangeTrust_doCheckValid_def ChangeTrust_doApply_def tag_def loadTrustLineIssuer_def loadTrustLine_def)

theorem change_trust_native_witness:
  "doApply ex_crypto ex_closing [1] ex_source (CHANGE_TRUST ex_trust) ex_session = Inl (RuntimeError ''XLM TrustLine?'')"
  using change_trust_native [of ex_trust ex_closing "[1]" ex_crypto ex_source ex_session] by (simp add: ex_trust_def)

section \<open>Crossing offers\<close>

theorem convertWithOffers_terminates_witness:
  "convertWithOffers ex_closing Native 5 (AlphaNum4 [85, 83, 68, 0] [2]) 7 (\<lambda>_. eSkip :: unit OfferFilterResult) ex_session \<noteq> Inl OutOfFuel"
  by (rule convertWithOffers_terminates [OF ex_session_ok [of True] ex_counted]) (simp_all add: ex_closing_def)

end
