(* ===== verification/Herder_Guarantees.thy ===== *)
theory Herder_Guarantees
  imports Tx_Set_Fees Ledger_Guarantees
begin

text \<open>
  The sets of transactions on the small ledger: a node that has two transactions pending, one of them with a
  sequence number that does not follow, proposes the set of the other one, and its fee is charged.
\<close>

definition ex_hashing :: TxHashing where
  "ex_hashing = \<lparr>fullHash = (\<lambda>t. replicate 31 1 @ [ucast (tx_seq t)]), setHash = (\<lambda>h ts. replicate 32 0)\<rparr>"

definition ex_late :: TransactionFrame where
  "ex_late = ex_tx\<lparr>txf_tx := (txf_tx ex_tx)\<lparr>tx_seqNum := 8\<rparr>\<rparr>"

definition ex_set :: TxSetFrame where
  "ex_set = \<lparr>ts_previousLedgerHash = [7], ts_transactions = [ex_tx], ts_hashIsValid = False, ts_hash = []\<rparr>"

lemma ex_accounts_valid: "accounts_valid (db_ledger ex_db)"
  unfolding accounts_valid_def
proof (intro allI impI)
  fix i f assume e: "db_ledger ex_db (AccountKey i) = Some (account_entry f)"
  then have "af_account f \<in> {ex_account [1] [ex_signer], ex_account [2] []}"
    using ex_entries(2) [of i] account_at_entry [of "db_ledger ex_db", OF e] by (auto split: if_splits)
  moreover have "af_lastModified f = 3"
    using e by (auto simp: db_ledger_def ex_db_def account_entry_def account_of_row_def split: if_splits)
  ultimately show "account_isValid f"
    by (auto simp: account_isValid_def Let_def ex_account_def ex_signer_def INT64_MAX_def isString32Valid_def)
qed

theorem proposed_set_valid_witness:
  "\<exists>ts db'. proposeTxSet ex_crypto ex_hashing [7] ex_closing ex_closing [ex_late, ex_tx] ex_db = Inr (ts, db')
    \<and> ts_transactions ts = [ex_tx] \<and> length (ts_transactions ts) \<le> 100 \<and> db_ledger db' = db_ledger ex_db"
proof -
  let ?r = "proposeTxSet ex_crypto ex_hashing [7] ex_closing ex_closing [ex_late, ex_tx] ex_db"
  have "\<forall>t. length (fullHash ex_hashing t) = 32" by (simp add: ex_hashing_def)
  then obtain ts db' where r: "?r = Inr (ts, db')" "length (ts_transactions ts) \<le> unat (maxTxSetSize ex_closing)"
    "db_ledger db' = db_ledger ex_db"
    using proposed_set_valid [OF ex_db_ok ex_accounts_valid, of ex_hashing ex_closing ex_closing ex_crypto "[7]" "[ex_late, ex_tx]"]
    by auto
  have "map_sum id (ts_transactions \<circ> fst) ?r = Inr [ex_tx]" by code_simp
  then show ?thesis using r by (simp add: ex_closing_def)
qed

theorem valid_set_pays_witness:
  "\<exists>s'. processFeesSeqNums [ex_tx] ex_session = Inr ([100], s')"
proof -
  let ?r = "txset_checkValid ex_crypto ex_hashing [7] ex_closing ex_closing ex_set (snd ex_session)"
  have "map_sum id fst ?r = Inr True" by code_simp
  then obtain db' where r: "?r = Inr (True, db')" by (cases ?r) auto
  have v: "accounts_valid (view ex_session)" using ex_accounts_valid by (simp add: view_def ex_session_def)
  have h: "0 < ledgerSeq (hdr ex_session)" "ledgerSeq (hdr ex_session) \<le> 0x7FFFFFFF"
    by (simp_all add: hdr_def ex_session_def ex_closing_def LedgerDelta_new_def)
  have l: "\<forall>t \<in> set (ts_transactions ex_set). uint (tx_seqNum (txf_tx t)) \<le> INT64_MAX"
    by (simp add: ex_set_def ex_tx_def INT64_MAX_def)
  have "fst (sortForApply ex_hashing ex_set) = [ex_tx]" by code_simp
  moreover have "getFee ex_tx = 100" by (simp add: getFee_def ex_tx_def)
  ultimately show ?thesis
    using valid_set_pays [OF r ex_session_ok ex_counted ex_fits v h l] by simp
qed

end
