(* ===== verification/Spec2Isabelle.thy ===== *)
theory Spec2Isabelle
  imports Closest_VBlocking Offer_Exchange Slot_Guarantees Nomination_Guarantees Slot_Contracts
    Agreement Ballot_Termination Ballot_Assertions Quorum_Search Herder_Guarantees
begin

text \<open>
  A verification of stellar-core: the consensus protocol SCP, the ledger and its transactions, and the
  bucket list.

  \<^bold>\<open>The program.\<close> Each node runs, for every ledger, a \<open>Slot\<close> of the protocol
  (\<open>src/src/scp\<close>): a \<open>NominationProtocol\<close> that proposes values and a \<open>BallotProtocol\<close> that
  prepares, commits and externalizes one. The slot talks to the rest of the node through
  \<open>SCPDriver\<close> and judges the statements of other nodes with the quorum sets of \<open>LocalNode\<close>.
  The value that is decided names a set of transactions, which a node makes of those that are pending
  (\<open>src/src/herder\<close>, \<open>src/src/transactions\<close>). Closing the ledger takes their
  fees and applies them one after the other (\<open>LedgerManagerImpl.cpp\<close>); each operation loads
  and stores entries in the database through frames (\<open>src/src/ledger\<close>) and records what it does in a
  \<open>LedgerDelta\<close>. The entries a delta reports become a batch of the bucket list (\<open>src/src/bucket\<close>),
  whose hash goes into the header of the ledger.

  \<^bold>\<open>Consensus: theories and sources.\<close>
  \<^item> \<open>Core_Prelude\<close>: machine integers, byte strings, results with the ways a call can fail
    (\<^typ>\<open>error\<close>), \<open>std::set\<close> and \<open>std::map\<close> as ordered lists with their contract as the
    locale \<open>ordered_map\<close>.
  \<^item> \<open>Util_Types\<close> (\<open>util/types.cpp\<close>): assets, balances, 128-bit division, prices.
  \<^item> \<open>Scp_Types\<close> (\<open>xdr/Stellar-SCP.x\<close>, the comparisons of \<open>BallotProtocol.cpp\<close>): ballots,
    statements and envelopes; the order of statements, as the locale \<open>statement_order\<close>.
  \<^item> \<open>Local_Node\<close>, \<open>Closest_VBlocking\<close>, \<open>Quorum_Set_Utils\<close>, \<open>Quorum_Search\<close>
    (\<open>LocalNode.cpp\<close>, \<open>QuorumSetUtils.cpp\<close>, \<open>BallotProtocol::federated*\<close>,
    \<open>Slot::isNodeInQuorum\<close>): slices, quorums, v-blocking sets, sanity and normal forms. The
    locale \<open>fba_system\<close> holds the theory of quorums; it is interpreted on the slices the
    code reads out of recorded statements.
  \<^item> \<open>Slot_State\<close>: the records \<^typ>\<open>BallotProtocol\<close>, \<^typ>\<open>NominationProtocol\<close> and
    \<^typ>\<open>Slot\<close> have the fields of the classes; \<^typ>\<open>SCPDriver\<close> holds the answers of the
    driver, which is other code, as parameters; what the slot tells the driver is the log
    of \<^typ>\<open>driver_call\<close>.
  \<^item> \<open>Ballot_Protocol\<close>, \<open>Nomination_Protocol\<close>, \<open>Scp_Slot\<close>: every operation of the classes,
    one definition per method, the slot passed along, errors as \<open>Inl\<close>. The mutual recursion
    of \<open>advanceSlot\<close> through the envelope a slot processes itself is closed with fuel.
  \<^item> \<open>Ballot_Steps\<close>, \<open>Ballot_Safety\<close>, \<open>Nomination_Safety\<close>: the primitive state changes
    (\<^const>\<open>bprim\<close>) the operations are runs of, and what runs keep.
  \<^item> \<open>Slot_Guarantees\<close>, \<open>Slot_Contracts\<close>, \<open>Nomination_Guarantees\<close>, \<open>Slot_Example\<close>: the
    properties of a slot under any sequence of calls (\<^const>\<open>slot_call\<close>), and a small run.
  \<^item> \<open>Call_Records\<close>: which statements a slot records within one call, so that the quorum that lets it
    externalize is still among its records when the call returns.
  \<^item> \<open>Ballot_Assertions\<close>: the attempts of \<open>advanceSlot\<close> and the bumps keep what \<open>checkInvariants\<close> asserts,
    except that confirming a prepared ballot can choose a ballot to commit that is not compatible with the
    high one; a run that fails the assertion for that reason is computed.
  \<^item> \<open>Ballot_Termination\<close>: \<open>enough_fuel\<close> turns of the loop of \<open>advanceSlot\<close> suffice, since
    its depth is limited by \<open>MAX_ADVANCE_SLOT_RECURSION\<close> and every turn raises a 32-bit
    counter; more fuel changes nothing.
  \<^item> \<open>Agreement\<close>: a network of nodes running the slot code, beside nodes that send anything.

  \<^bold>\<open>The ledger: theories and sources.\<close>
  \<^item> \<open>Ledger_Entries\<close> (\<open>xdr/Stellar-ledger-entries.x\<close>, \<open>LedgerCmp.h\<close>): entries, keys, and the order
    of keys.
  \<^item> \<open>Ledger_Delta\<close> (\<open>LedgerDelta.cpp\<close>): new, changed and deleted entries over the ledger a delta
    started from. Its meaning is \<^const>\<open>delta_apply\<close>; committing a nested delta composes
    the two, and the change lists and the live and dead entries replay to it.
  \<^item> \<open>Ledger_Store\<close> (\<open>AccountFrame.cpp\<close>, \<open>TrustFrame.cpp\<close>, \<open>OfferFrame.cpp\<close>, \<open>DataFrame.cpp\<close>,
    \<open>EntryFrame.cpp\<close>, \<open>lrucache.hpp\<close>): frames, tables, the cache of entries. A delta and a database make
    a \<^typ>\<open>session\<close>. \<open>Session_Laws\<close> proves of each load and store that it keeps the invariant
    \<^const>\<open>sess_ok\<close> (the tables are well-formed, the cache agrees with them, and they are the effect
    of the delta) and what it does to the map of entries.
  \<^item> \<open>Ledger_Totals\<close>: the sum of native balances, and the count of the sub-entries of accounts
    (\<^const>\<open>counted\<close>).
  \<^item> \<open>Offer_Exchange\<close>, \<open>Offer_Crossing\<close>, \<open>Crossing_Laws\<close>, \<open>Crossing_Termination\<close>
    (\<open>OfferExchange.cpp\<close>): the amounts of an exchange, crossing an offer, converting through the book.
    The loop over the book has as fuel one turn more than there are offers, which is proved to be enough.
  \<^item> \<open>Operations\<close>, \<open>Payments\<close>, \<open>Manage_Offer\<close> with \<open>Operation_Laws\<close> and \<open>Manage_Offer_Laws\<close>
    (the \<open>OpFrame.cpp\<close> files): \<open>doCheckValid\<close> and \<open>doApply\<close> of the eleven operations, with every
    result code; each keeps the invariants and the amount of the native asset (\<^const>\<open>kept\<close>).
  \<^item> \<open>Signatures\<close> (\<open>SignatureChecker.cpp\<close>, \<open>SignatureUtils.cpp\<close>): weights of signers, used
    signatures and one-time keys. SHA-256 and the verification of Ed25519 signatures are the fields of
    \<^typ>\<open>Crypto\<close>.
  \<^item> \<open>Transactions\<close>, \<open>Transaction_Laws\<close> (\<open>OperationFrame.cpp\<close>, \<open>TransactionFrame.cpp\<close>,
    \<open>processFeesSeqNums\<close> and \<open>applyTransactions\<close>): validation, fees, application with nested deltas
    and database transactions that are committed or rolled back. A transaction that throws gets
    \<open>txINTERNAL_ERROR\<close>, its delta and its SQL transaction are dropped, and the next one is applied.
  \<^item> \<open>Ledger_Guarantees\<close>: the properties of the ledger: operations keep it well-formed, a transaction
    is atomic, native coins are conserved over a ledger, what signatures suffice, one-time signers
    are used up; and the boundary cases of reserves and trust lines.
  \<^item> \<open>Tx_Set\<close>, \<open>Tx_Set_Laws\<close>, \<open>Tx_Set_Fees\<close>, \<open>Herder_Guarantees\<close> (\<open>TxSetFrame.cpp\<close>, the part of
    \<open>HerderImpl::triggerNextLedger\<close> that makes the set to propose): the order of application, surge
    pricing, trimming and the check of a set. A trimmed set passes the check, and the fees of a set
    that passes it can be charged.

  \<^bold>\<open>The bucket list: theories and sources.\<close>
  \<^item> \<open>Bucket_Merge\<close> (\<open>Bucket.cpp\<close>), \<open>Future_Bucket\<close> (\<open>FutureBucket.cpp\<close>), \<open>Bucket_List\<close>
    (\<open>BucketList.cpp\<close>): sorted entries, merges in progress and their saved form, the levels.
  \<^item> \<open>Bucket_List_Refinement\<close>, \<open>Bucket_Check\<close>: the merge of all levels is the ledger, after any
    sequence of batches; what the comparison of the database with the buckets decides.

  \<^bold>\<open>Conventions.\<close> \<open>assert\<close>, \<open>dbgAssert\<close> and \<open>dbgAbort\<close> are errors of the result, and so are
  exceptions, which lose the state; a theorem about a returned state says nothing about a run that
  aborts. Where the code catches an exception, in the loop of \<open>applyTransactions\<close>, it goes on with the state the
  destructors restore: the tables and the delta of before, and a cache of which the entries are an
  argument, kept only as far as they agree with the tables. A table is a map from its primary key to the decoded row; \<open>INSERT\<close> of a key that is there and
  \<open>UPDATE\<close> of one that is not are errors. An SQL transaction that is rolled back restores the tables
  and not the cache. \<open>std::sort\<close> is a stable sort, which matters only for transactions of one account with
  the same sequence number. Amounts are integers with the bounds of \<open>int64_t\<close> where the code tests them;
  counters, flags and sequence numbers are words. The header of the ledger that is being closed, which
  the code reads through the \<open>LedgerManager\<close>, is an argument of its own. Hashes, signatures,
  the text of a key and the driver are parameters; where a theorem needs something of them it is a
  named hypothesis. The laws of transactions are about protocol version 8 and later.

  \<^bold>\<open>Not modelled.\<close> Before version 8 the operations of a transaction share the frame of the source
  account. The rows of \<open>txhistory\<close> and \<open>txfeehistory\<close>, upgrades of the header, bulk queries and schema upgrades
  are left out.
  Bucket files are lists of entries; their adoption and retention on disk are not modelled. The queues,
  upgrades and timers of the herder, and the overlay, history, catchup, work and process code is event-loop and I/O glue around operating-system
  services; the invariant checks repeat at run time what is proved here. Logging, metrics and JSON
  output change no state.
\<close>

end
